(* ===== verification/Go_Lib.thy ===== *)
theory Go_Lib
  imports Main "HOL-Library.AList"
begin

text \<open>
  Prelude of the development: the parts of the Go standard library the modelled code calls
  (\<open>strings\<close>, \<open>path\<close>, \<open>strconv\<close>, \<open>net/url\<close>), the 64-bit arithmetic of Go's \<open>int64\<close>, the
  dynamic values of a \<open>map[string]any\<close>, and the generic lemmas the components share.

  A Go string is a sequence of bytes, and so is an Isabelle \<^typ>\<open>string\<close>; case folding and
  white space are those of ASCII, which is what the modelled names, paths and headers consist of.
\<close>

named_theorems go_str \<open>rewriting rules for the string operations\<close>
named_theorems go_int \<open>rewriting rules for 64-bit arithmetic\<close>

section \<open>Dynamic values\<close>

text \<open>A value of type \<open>any\<close> decoded from JSON or set by Go code.\<close>

datatype any_val =
    VNull
  | VStr string
  | VBool bool
  | VNum int
  | VStrs "string list"
  | VList "any_val list"
  | VMap "(string \<times> any_val) list"

text \<open>\<open>map[string]any\<close>: \<^term>\<open>None\<close> is the nil map, which reads as empty.\<close>

type_synonym cfg = "(string \<rightharpoonup> any_val) option"

definition cfg_get :: "cfg \<Rightarrow> string \<Rightarrow> any_val option" where
  "cfg_get c k = (case c of None \<Rightarrow> None | Some m \<Rightarrow> m k)"

text \<open>The two-value assertion \<open>v, _ := x.(string)\<close> with the zero value on failure.\<close>

fun as_str :: "any_val option \<Rightarrow> string" where
  "as_str (Some (VStr s)) = s"
| "as_str _ = []"

fun as_bool :: "any_val option \<Rightarrow> bool" where
  "as_bool (Some (VBool b)) = b"
| "as_bool _ = False"

lemma cfg_get_simps [simp]:
  "cfg_get None k = None"
  "cfg_get (Some m) k = m k"
  by (simp_all add: cfg_get_def)

section \<open>strings\<close>

definition has_prefix :: "string \<Rightarrow> string \<Rightarrow> bool" where
  "has_prefix s p \<longleftrightarrow> take (length p) s = p"

definition has_suffix :: "string \<Rightarrow> string \<Rightarrow> bool" where
  "has_suffix s p \<longleftrightarrow> has_prefix (rev s) (rev p)"

definition trim_prefix :: "string \<Rightarrow> string \<Rightarrow> string" where
  "trim_prefix s p = (if has_prefix s p then drop (length p) s else s)"

definition trim_suffix :: "string \<Rightarrow> string \<Rightarrow> string" where
  "trim_suffix s p = (if has_suffix s p then take (length s - length p) s else s)"

text \<open>\<open>strings.Index\<close> (first occurrence) and \<open>strings.LastIndex\<close>; Go's \<open>-1\<close> is \<^term>\<open>None\<close>.\<close>

fun str_index :: "string \<Rightarrow> string \<Rightarrow> nat option" where
  "str_index s sub =
     (if has_prefix s sub then Some 0
      else case s of [] \<Rightarrow> None | _ # cs \<Rightarrow> map_option Suc (str_index cs sub))"

fun str_last_index :: "string \<Rightarrow> string \<Rightarrow> nat option" where
  "str_last_index s sub =
     (case s of
        [] \<Rightarrow> if has_prefix s sub then Some 0 else None
      | _ # cs \<Rightarrow>
          (case str_last_index cs sub of
             Some i \<Rightarrow> Some (Suc i)
           | None \<Rightarrow> if has_prefix s sub then Some 0 else None))"

declare str_index.simps [simp del] str_last_index.simps [simp del]

definition str_contains :: "string \<Rightarrow> string \<Rightarrow> bool" where
  "str_contains s sub \<longleftrightarrow> str_index s sub \<noteq> None"

text \<open>\<open>strings.Split(s, "c")\<close> for a one-byte separator: never empty.\<close>

fun str_split :: "char \<Rightarrow> string \<Rightarrow> string list" where
  "str_split c [] = [[]]"
| "str_split c (x # xs) =
     (if x = c then [] # str_split c xs
      else case str_split c xs of [] \<Rightarrow> [[x]] | y # ys \<Rightarrow> (x # y) # ys)"

fun str_join :: "string \<Rightarrow> string list \<Rightarrow> string" where
  "str_join sep [] = []"
| "str_join sep [x] = x"
| "str_join sep (x # y # ys) = x @ sep @ str_join sep (y # ys)"

text \<open>\<open>unicode.IsSpace\<close> and \<open>unicode.IsControl\<close> on ASCII.\<close>

definition is_space :: "char \<Rightarrow> bool" where
  "is_space c \<longleftrightarrow> c = CHR '' '' \<or> c = CHR 0x09 \<or> c = CHR 0x0A \<or> c = CHR 0x0B \<or> c = CHR 0x0C \<or> c = CHR 0x0D"

definition is_control :: "char \<Rightarrow> bool" where
  "is_control c \<longleftrightarrow> (of_char c :: nat) < 32 \<or> (of_char c :: nat) = 127"

definition trim_space :: "string \<Rightarrow> string" where
  "trim_space s = rev (dropWhile is_space (rev (dropWhile is_space s)))"

definition lower_char :: "char \<Rightarrow> char" where
  "lower_char c =
     (let n = (of_char c :: nat) in if 65 \<le> n \<and> n \<le> 90 then char_of (n + 32) else c)"

definition to_lower :: "string \<Rightarrow> string" where
  "to_lower s = map lower_char s"

definition is_digit :: "char \<Rightarrow> bool" where
  "is_digit c \<longleftrightarrow> 48 \<le> (of_char c :: nat) \<and> (of_char c :: nat) \<le> 57"

definition digit_val :: "char \<Rightarrow> int" where
  "digit_val c = int (of_char c) - 48"

subsection \<open>Prefixes and suffixes\<close>

lemma has_prefix_iff: "has_prefix s p \<longleftrightarrow> (\<exists>t. s = p @ t)"
  unfolding has_prefix_def by (metis append_eq_conv_conj append_take_drop_id)

lemma has_prefix_code [go_str]:
  "has_prefix s [] = True"
  "has_prefix [] (x # xs) = False"
  "has_prefix (y # ys) (x # xs) = (y = x \<and> has_prefix ys xs)"
  by (auto simp: has_prefix_def)

lemma has_prefix_append [simp]: "has_prefix (p @ t) p"
  by (simp add: has_prefix_def)

lemma has_prefix_trans: "has_prefix a b \<Longrightarrow> has_prefix b c \<Longrightarrow> has_prefix a c"
  by (auto simp: has_prefix_iff)

lemma has_suffix_iff: "has_suffix s p \<longleftrightarrow> (\<exists>t. s = t @ p)"
proof
  assume "has_suffix s p"
  then obtain t where "rev s = rev p @ t" by (auto simp: has_suffix_def has_prefix_iff)
  then have "s = rev t @ p" by (metis rev_append rev_rev_ident)
  then show "\<exists>t. s = t @ p" ..
next
  assume "\<exists>t. s = t @ p"
  then show "has_suffix s p" by (auto simp: has_suffix_def has_prefix_iff)
qed

lemma trim_prefix_append [simp]: "trim_prefix (p @ t) p = t"
  by (simp add: trim_prefix_def)

lemma str_index_Some: "str_index s sub = Some i \<Longrightarrow> \<exists>t. drop i s = sub @ t"
proof (induction s arbitrary: i)
  case Nil
  then show ?case by (auto simp: str_index.simps [of "[]"] has_prefix_iff split: if_splits)
next
  case (Cons c cs)
  then show ?case
    by (auto simp: str_index.simps [of "c # cs"] has_prefix_iff split: if_splits)
qed

lemma str_last_index_Some: "str_last_index s sub = Some i \<Longrightarrow> \<exists>t. drop i s = sub @ t"
proof (induction s arbitrary: i)
  case Nil
  then show ?case by (auto simp: str_last_index.simps [of "[]"] has_prefix_iff split: if_splits)
next
  case (Cons c cs)
  show ?case
  proof (cases "str_last_index cs sub")
    case None
    with Cons.prems show ?thesis
      by (auto simp: str_last_index.simps [of "c # cs"] has_prefix_iff split: if_splits)
  next
    case (Some j)
    with Cons.prems have "i = Suc j" by (simp add: str_last_index.simps [of "c # cs"])
    with Cons.IH [OF Some] show ?thesis by simp
  qed
qed

text \<open>The occurrences of \<open>sub\<close>: both searches find one when there is one, the last one the greatest.\<close>

lemma has_prefix_drop_Cons: "has_prefix (drop j (c # cs)) sub \<Longrightarrow> j = 0 \<and> has_prefix (c # cs) sub \<or> (\<exists>i. j = Suc i \<and> has_prefix (drop i cs) sub)"
  by (cases j) auto

lemma str_index_first: "has_prefix (drop j s) sub \<Longrightarrow> j \<le> length s \<Longrightarrow> \<exists>i \<le> j. str_index s sub = Some i"
proof (induction s arbitrary: j)
  case Nil
  then show ?case by (simp add: str_index.simps [of "[]"])
next
  case (Cons c cs)
  show ?case
  proof (cases "has_prefix (c # cs) sub")
    case True
    then show ?thesis by (simp add: str_index.simps [of "c # cs"])
  next
    case False
    with has_prefix_drop_Cons [OF Cons.prems(1)] obtain i where "j = Suc i" "has_prefix (drop i cs) sub" by blast
    with Cons.IH [of i] Cons.prems(2) False show ?thesis
      by (auto simp: str_index.simps [of "c # cs"])
  qed
qed

lemma str_last_index_greatest:
  "has_prefix (drop j s) sub \<Longrightarrow> j \<le> length s \<Longrightarrow> \<exists>i \<ge> j. str_last_index s sub = Some i"
proof (induction s arbitrary: j)
  case Nil
  then show ?case by (simp add: str_last_index.simps [of "[]"])
next
  case (Cons c cs)
  show ?case
  proof (cases "str_last_index cs sub")
    case None
    have "\<not> has_prefix (drop i cs) sub" if "i \<le> length cs" for i using Cons.IH [of i] None that by auto
    with has_prefix_drop_Cons [OF Cons.prems(1)] Cons.prems(2) have "j = 0" "has_prefix (c # cs) sub" by auto
    then show ?thesis using None by (simp add: str_last_index.simps [of "c # cs"])
  next
    case (Some k)
    have "j = 0 \<or> (\<exists>i. j = Suc i \<and> i \<le> k)"
    proof (cases j)
      case (Suc i)
      then show ?thesis using Cons.IH [of i] Cons.prems Some by auto
    qed simp
    then show ?thesis using Some by (auto simp: str_last_index.simps [of "c # cs"])
  qed
qed

lemma str_last_index_bound: "str_last_index s sub = Some i \<Longrightarrow> i \<le> length s"
proof (induction s arbitrary: i)
  case Nil
  then show ?case by (simp add: str_last_index.simps [of "[]"] split: if_splits)
next
  case (Cons c cs)
  then show ?case by (fastforce simp: str_last_index.simps [of "c # cs"] split: if_splits option.splits)
qed

lemma str_last_index_char:
  assumes "c \<notin> set ref"
  shows "str_last_index (a @ c # ref) [c] = Some (length a)"
proof -
  obtain i where i: "length a \<le> i" "str_last_index (a @ c # ref) [c] = Some i"
    using str_last_index_greatest [of "length a" "a @ c # ref" "[c]"] by (auto simp: has_prefix_def)
  obtain t where t: "drop i (a @ c # ref) = c # t" using str_last_index_Some [OF i(2)] by auto
  have "i = length a"
  proof (rule ccontr)
    assume "i \<noteq> length a"
    then obtain m where "i = Suc (length a + m)" using i(1) less_iff_Suc_add [of "length a" i] by auto
    then have "drop m ref = c # t" using t by simp
    then have "c \<in> set ref" by (metis in_set_dropD list.set_intros(1))
    with assms show False by simp
  qed
  with i(2) show ?thesis by simp
qed

subsection \<open>Splitting and joining\<close>

lemma str_split_nonempty [simp]: "str_split c s \<noteq> []"
  by (induction s) (auto split: list.splits)

lemma str_split_no_sep: "seg \<in> set (str_split c s) \<Longrightarrow> c \<notin> set seg"
proof (induction s arbitrary: seg)
  case Nil
  then show ?case by simp
next
  case (Cons x xs)
  obtain y ys where sp: "str_split c xs = y # ys"
    by (metis neq_Nil_conv str_split_nonempty)
  then have "c \<notin> set y" "\<forall>z \<in> set ys. c \<notin> set z" using Cons.IH by auto
  then show ?case using Cons.prems sp by (auto split: if_splits)
qed

lemma str_join_split [simp]: "str_join [c] (str_split c s) = s"
proof (induction s)
  case Nil
  then show ?case by simp
next
  case (Cons x xs)
  obtain y ys where sp: "str_split c xs = y # ys"
    by (metis neq_Nil_conv str_split_nonempty)
  show ?case
    using Cons.IH sp by (cases ys) auto
qed

lemma str_split_single: "c \<notin> set s \<Longrightarrow> str_split c s = [s]"
  by (induction s) auto

lemma str_split_append:
  "c \<notin> set a \<Longrightarrow> str_split c (a @ c # b) = a # str_split c b"
  by (induction a) (auto)

lemma str_split_join:
  "xs \<noteq> [] \<Longrightarrow> \<forall>x \<in> set xs. c \<notin> set x \<Longrightarrow> str_split c (str_join [c] xs) = xs"
proof (induction "[c]" xs rule: str_join.induct)
  case 1
  then show ?case by simp
next
  case (2 x)
  then show ?case by (simp add: str_split_single)
next
  case (3 x y ys)
  then show ?case by (simp add: str_split_append)
qed

subsection \<open>Case folding and trimming\<close>

lemma of_char_lower_char:
  "(of_char (lower_char c) :: nat) =
     (if 65 \<le> (of_char c :: nat) \<and> (of_char c :: nat) \<le> 90 then of_char c + 32 else of_char c)"
  by (auto simp: lower_char_def Let_def of_char_mod_256)

lemma lower_char_idem [simp]: "lower_char (lower_char c) = lower_char c"
proof -
  have "(of_char (lower_char (lower_char c)) :: nat) = of_char (lower_char c)"
    by (auto simp: of_char_lower_char)
  then show ?thesis by simp
qed

lemma to_lower_idem [simp]: "to_lower (to_lower s) = to_lower s"
  by (simp add: to_lower_def)

lemma trim_space_idem [simp]: "trim_space (trim_space s) = trim_space s"
proof -
  define u where "u = dropWhile is_space s"
  define v where "v = dropWhile is_space (rev u)"
  have eq: "trim_space s = rev v" by (simp add: trim_space_def u_def v_def)
  have v_hd: "v = [] \<or> \<not> is_space (hd v)" unfolding v_def by (metis hd_dropWhile)
  have "dropWhile is_space (rev v) = rev v"
  proof (cases "v = []")
    case False
    obtain p where p: "rev u = p @ v" unfolding v_def by (metis takeWhile_dropWhile_id)
    then have u: "u = rev v @ rev p" by (metis rev_append rev_rev_ident)
    have "u \<noteq> []" using u False by simp
    then have "\<not> is_space (hd u)" unfolding u_def by (metis hd_dropWhile)
    then have "\<not> is_space (hd (rev v))" using u False by simp
    then show ?thesis using False by (cases "rev v") auto
  qed simp
  moreover have "dropWhile is_space v = v" using v_hd by (cases v) auto
  ultimately have "trim_space (rev v) = rev v" by (simp add: trim_space_def)
  then show ?thesis by (simp only: eq)
qed

section \<open>strconv.Atoi\<close>

fun digits_val :: "int \<Rightarrow> string \<Rightarrow> int option" where
  "digits_val acc [] = Some acc"
| "digits_val acc (c # cs) =
     (if is_digit c then digits_val (10 * acc + digit_val c) cs else None)"

text \<open>\<^const>\<open>None\<close> is the error: no digits, a stray byte, or a value outside \<open>int64\<close>.\<close>

definition atoi :: "string \<Rightarrow> int option" where
  "atoi s =
     (let neg = (s \<noteq> [] \<and> hd s = CHR ''-'');
          body = (if s \<noteq> [] \<and> (hd s = CHR ''-'' \<or> hd s = CHR ''+'') then tl s else s)
      in if body = [] then None
         else case digits_val 0 body of
                None \<Rightarrow> None
              | Some n \<Rightarrow>
                  (let v = (if neg then - n else n)
                   in if - (2 ^ 63) \<le> v \<and> v < 2 ^ 63 then Some v else None))"

section \<open>int64 arithmetic\<close>

definition wrap64 :: "int \<Rightarrow> int" where
  "wrap64 x = (x + 2 ^ 63) mod 2 ^ 64 - 2 ^ 63"

definition add64 :: "int \<Rightarrow> int \<Rightarrow> int" where
  "add64 a b = wrap64 (a + b)"

definition sub64 :: "int \<Rightarrow> int \<Rightarrow> int" where
  "sub64 a b = wrap64 (a - b)"

definition mul64 :: "int \<Rightarrow> int \<Rightarrow> int" where
  "mul64 a b = wrap64 (a * b)"

definition in64 :: "int \<Rightarrow> bool" where
  "in64 x \<longleftrightarrow> - (2 ^ 63) \<le> x \<and> x < 2 ^ 63"

lemma wrap64_id [go_int]: "in64 x \<Longrightarrow> wrap64 x = x"
  by (simp add: wrap64_def in64_def)

lemma wrap64_in64 [go_int]: "in64 (wrap64 x)"
proof -
  have "0 \<le> (x + 2 ^ 63) mod 2 ^ 64" "(x + 2 ^ 63) mod 2 ^ 64 < 2 ^ 64" by simp_all
  then show ?thesis by (simp add: wrap64_def in64_def)
qed

lemma add64_id [go_int]: "in64 (a + b) \<Longrightarrow> add64 a b = a + b"
  by (simp add: add64_def wrap64_id)

lemma sub64_id [go_int]: "in64 (a - b) \<Longrightarrow> sub64 a b = a - b"
  by (simp add: sub64_def wrap64_id)

section \<open>strconv.Itoa and the round trip with Atoi\<close>

definition digit_char :: "nat \<Rightarrow> char" where
  "digit_char n = char_of (48 + n)"

fun nat_digits :: "nat \<Rightarrow> string" where
  "nat_digits n = (if n < 10 then [digit_char n] else nat_digits (n div 10) @ [digit_char (n mod 10)])"

declare nat_digits.simps [simp del]

definition itoa :: "int \<Rightarrow> string" where
  "itoa n = (if n < 0 then CHR ''-'' # nat_digits (nat (- n)) else nat_digits (nat n))"

lemma of_char_digit_char: "n < 10 \<Longrightarrow> (of_char (digit_char n) :: nat) = 48 + n"
  by (simp add: digit_char_def of_char_mod_256)

lemma digit_char_facts: "n < 10 \<Longrightarrow> is_digit (digit_char n) \<and> digit_val (digit_char n) = int n"
  by (simp add: is_digit_def digit_val_def of_char_digit_char)

lemma digits_val_append:
  "digits_val acc (xs @ ys) = (case digits_val acc xs of None \<Rightarrow> None | Some a \<Rightarrow> digits_val a ys)"
  by (induction xs arbitrary: acc) auto

lemma digits_val_nat_digits: "digits_val 0 (nat_digits n) = Some (int n)"
proof (induction n rule: nat_digits.induct)
  case (1 n)
  show ?case
  proof (cases "n < 10")
    case True
    then show ?thesis by (simp add: nat_digits.simps [of n] digit_char_facts)
  next
    case False
    have "10 * int (n div 10) + int (n mod 10) = int n" by presburger
    with False 1 show ?thesis
      by (simp add: nat_digits.simps [of n] digits_val_append digit_char_facts)
  qed
qed

lemma nat_digits_is_digit: "c \<in> set (nat_digits n) \<Longrightarrow> is_digit c"
proof (induction n rule: nat_digits.induct)
  case (1 n)
  then show ?case
    by (cases "n < 10") (auto simp: nat_digits.simps [of n] digit_char_facts)
qed

lemma nat_digits_nonempty [simp]: "nat_digits n \<noteq> []"
  by (simp add: nat_digits.simps [of n])

lemma is_digit_not_sign: "is_digit c \<Longrightarrow> c \<noteq> CHR ''-'' \<and> c \<noteq> CHR ''+'' \<and> c \<noteq> CHR '':''"
  by (auto simp: is_digit_def)

lemma hd_nat_digits: "hd (nat_digits n) \<noteq> CHR ''-'' \<and> hd (nat_digits n) \<noteq> CHR ''+''"
  using is_digit_not_sign [OF nat_digits_is_digit [of "hd (nat_digits n)" n]] by simp

lemma atoi_itoa [go_str]: "in64 n \<Longrightarrow> atoi (itoa n) = Some n"
  using hd_nat_digits [of "nat n"]
  by (simp add: atoi_def itoa_def Let_def digits_val_nat_digits in64_def)

lemma itoa_no_colon: "CHR '':'' \<notin> set (itoa n)"
  using is_digit_not_sign [OF nat_digits_is_digit] by (auto simp: itoa_def)

section \<open>Instants and durations\<close>

text \<open>
  A \<open>time.Time\<close> is its instant in nanoseconds since the Unix epoch, unbounded as Go's is for
  every date in use; \<open>time.Time{}\<close> is midnight of 1 January of the year 1. A \<open>time.Duration\<close> is an
  \<open>int64\<close> of nanoseconds; \<open>Sub\<close> saturates.
\<close>

type_synonym time = int
type_synonym duration = int

definition zero_time :: time where
  "zero_time = - 62135596800000000000"

definition time_sub :: "time \<Rightarrow> time \<Rightarrow> duration" where
  "time_sub a b = max (- (2 ^ 63)) (min (2 ^ 63 - 1) (a - b))"

definition seconds :: "int \<Rightarrow> duration" where
  "seconds n = n * 1000000000"

definition minutes :: "int \<Rightarrow> duration" where
  "minutes n = n * 60000000000"

section \<open>Lists\<close>

lemma find_SomeD: "List.find P xs = Some x \<Longrightarrow> x \<in> set xs \<and> P x"
  by (auto simp: find_Some_iff)

lemma find_None_all: "List.find P xs = None \<longleftrightarrow> (\<forall>x \<in> set xs. \<not> P x)"
  by (auto simp: find_None_iff)

end
