(* ===== verification/Domain.thy ===== *)
theory Domain
  imports Go_Lib
begin

text \<open>
  The business types of \<open>internal/domain\<close>: repositories, routing rules, blob stores, scan
  results, assets and components as records with the source's fields, and the pure functions on
  them (\<open>types.go\<close>, \<open>scan_severity.go\<close>, \<open>pull_gate.go\<close>, \<open>redact.go\<close>, \<open>routing_rule.go\<close>,
  \<open>migration.go\<close>). A Go pointer that may be nil is an \<open>option\<close>; a time is an \<open>int\<close>.
\<close>

section \<open>Repository formats and types\<close>

type_synonym repo_format = string
type_synonym repo_type = string

abbreviation FormatMaven2 :: repo_format where "FormatMaven2 \<equiv> ''maven2''"
abbreviation FormatNPM :: repo_format where "FormatNPM \<equiv> ''npm''"
abbreviation FormatDocker :: repo_format where "FormatDocker \<equiv> ''docker''"
abbreviation FormatOCI :: repo_format where "FormatOCI \<equiv> ''oci''"
abbreviation TypeHosted :: repo_type where "TypeHosted \<equiv> ''hosted''"
abbreviation TypeProxy :: repo_type where "TypeProxy \<equiv> ''proxy''"
abbreviation TypeGroup :: repo_type where "TypeGroup \<equiv> ''group''"

definition all_formats :: "repo_format list" where
  "all_formats =
     [''maven2'', ''npm'', ''pypi'', ''docker'', ''oci'', ''go'', ''nuget'', ''helm'', ''cargo'',
      ''apt'', ''yum'', ''conan'', ''raw'', ''conda'', ''terraform'', ''rubygems'', ''cran'',
      ''alpine'', ''huggingface'']"

definition format_valid :: "repo_format \<Rightarrow> bool" where
  "format_valid f \<longleftrightarrow> (\<exists>known \<in> set all_formats. f = known)"

definition type_valid :: "repo_type \<Rightarrow> bool" where
  "type_valid t \<longleftrightarrow> t = TypeHosted \<or> t = TypeProxy \<or> t = TypeGroup"

definition is_oci_registry :: "repo_format \<Rightarrow> bool" where
  "is_oci_registry f \<longleftrightarrow> f = FormatDocker \<or> f = FormatOCI"

definition is_addressable_name :: "string \<Rightarrow> bool" where
  "is_addressable_name name \<longleftrightarrow>
     name \<noteq> ''.'' \<and> name \<noteq> ''..'' \<and>
     (\<forall>r \<in> set name. \<not> (is_space r \<or> is_control r \<or> r \<in> set [CHR ''/'', CHR 0x5C, CHR ''?'', CHR ''#'', CHR ''%'']))"

subsection \<open>The docker path component grammar\<close>

definition is_dk_alnum :: "char \<Rightarrow> bool" where
  "is_dk_alnum c \<longleftrightarrow>
     (97 \<le> (of_char c :: nat) \<and> (of_char c :: nat) \<le> 122) \<or> is_digit c"

text \<open>
  \<open>dockerPathComponent\<close> is the regular expression
  \<^verbatim>\<open>^[a-z0-9]+(?:(?:[._]|__|[-]+)[a-z0-9]+)*$\<close>. \<open>MatchString\<close> is run here as the
  automaton of that expression; \<open>docker_lang\<close> below is its grammar.
\<close>

datatype dk_state = DkStart | DkAlnum | DkDot | DkUnder | DkUnder2 | DkDash | DkFail

fun dk_step :: "dk_state \<Rightarrow> char \<Rightarrow> dk_state" where
  "dk_step DkStart c = (if is_dk_alnum c then DkAlnum else DkFail)"
| "dk_step DkAlnum c =
     (if is_dk_alnum c then DkAlnum
      else if c = CHR ''.'' then DkDot
      else if c = CHR ''_'' then DkUnder
      else if c = CHR ''-'' then DkDash else DkFail)"
| "dk_step DkDot c = (if is_dk_alnum c then DkAlnum else DkFail)"
| "dk_step DkUnder c = (if is_dk_alnum c then DkAlnum else if c = CHR ''_'' then DkUnder2 else DkFail)"
| "dk_step DkUnder2 c = (if is_dk_alnum c then DkAlnum else DkFail)"
| "dk_step DkDash c = (if is_dk_alnum c then DkAlnum else if c = CHR ''-'' then DkDash else DkFail)"
| "dk_step DkFail c = DkFail"

definition is_docker_path_component :: "string \<Rightarrow> bool" where
  "is_docker_path_component name \<longleftrightarrow> foldl dk_step DkStart name = DkAlnum"

text \<open>The grammar read off the expression: alphanumeric runs joined by one separator each.\<close>

definition dk_word :: "string \<Rightarrow> bool" where
  "dk_word w \<longleftrightarrow> w \<noteq> [] \<and> (\<forall>c \<in> set w. is_dk_alnum c)"

definition dk_sep :: "string \<Rightarrow> bool" where
  "dk_sep s \<longleftrightarrow> s = ''.'' \<or> s = ''_'' \<or> s = ''__'' \<or> (s \<noteq> [] \<and> set s \<subseteq> {CHR ''-''})"

inductive docker_lang :: "string \<Rightarrow> bool" where
  dk_one: "dk_word w \<Longrightarrow> docker_lang w"
| dk_more: "docker_lang u \<Longrightarrow> dk_sep s \<Longrightarrow> dk_word w \<Longrightarrow> docker_lang (u @ s @ w)"

lemma dk_alnum_not_sep [simp]:
  "\<not> is_dk_alnum (CHR ''.'')" "\<not> is_dk_alnum (CHR ''_'')" "\<not> is_dk_alnum (CHR ''-'')"
  by (simp_all add: is_dk_alnum_def is_digit_def)

lemma dk_fail_stuck [simp]: "foldl dk_step DkFail s = DkFail"
  by (induction s) auto

lemma dk_alnum_word: "\<forall>c \<in> set w. is_dk_alnum c \<Longrightarrow> foldl dk_step DkAlnum w = DkAlnum"
  by (induction w) auto

lemma dk_step_alnum: "is_dk_alnum c \<Longrightarrow> q \<noteq> DkFail \<Longrightarrow> dk_step q c = DkAlnum"
  by (cases q) simp_all

lemma dk_word_from:
  assumes "dk_word w" and "q \<noteq> DkFail"
  shows "foldl dk_step q w = DkAlnum"
proof -
  from assms(1) obtain c cs where "w = c # cs" "is_dk_alnum c" "\<forall>x \<in> set cs. is_dk_alnum x"
    by (cases w) (simp_all add: dk_word_def)
  then show ?thesis using assms(2) by (simp add: dk_step_alnum dk_alnum_word)
qed

lemma dk_dashes: "set s \<subseteq> {CHR ''-''} \<Longrightarrow> foldl dk_step DkDash s = DkDash"
  by (induction s) auto

lemma dk_sep_from: "dk_sep s \<Longrightarrow> foldl dk_step DkAlnum s \<noteq> DkFail"
  unfolding dk_sep_def by (cases s) (auto simp: dk_dashes)

lemma docker_lang_accepted: "docker_lang s \<Longrightarrow> foldl dk_step DkStart s = DkAlnum"
  by (induction rule: docker_lang.induct) (auto simp: dk_word_from dk_sep_from)

text \<open>What a prefix that drove the automaton into a state looks like.\<close>

fun dk_inv :: "dk_state \<Rightarrow> string \<Rightarrow> bool" where
  "dk_inv DkStart s = (s = [])"
| "dk_inv DkAlnum s = docker_lang s"
| "dk_inv DkDot s = (\<exists>u. docker_lang u \<and> s = u @ ''.'')"
| "dk_inv DkUnder s = (\<exists>u. docker_lang u \<and> s = u @ ''_'')"
| "dk_inv DkUnder2 s = (\<exists>u. docker_lang u \<and> s = u @ ''__'')"
| "dk_inv DkDash s = (\<exists>u d. docker_lang u \<and> d \<noteq> [] \<and> set d \<subseteq> {CHR ''-''} \<and> s = u @ d)"
| "dk_inv DkFail s = True"

lemma docker_lang_snoc: "docker_lang s \<Longrightarrow> is_dk_alnum c \<Longrightarrow> docker_lang (s @ [c])"
proof (induction rule: docker_lang.induct)
  case (dk_one w)
  then show ?case by (auto simp: dk_word_def intro!: docker_lang.dk_one)
next
  case (dk_more u s w)
  then have "dk_word (w @ [c])" by (auto simp: dk_word_def)
  with dk_more have "docker_lang (u @ s @ (w @ [c]))" by (blast intro: docker_lang.dk_more)
  then show ?case by simp
qed

lemma docker_lang_sep1:
  "docker_lang u \<Longrightarrow> dk_sep s \<Longrightarrow> is_dk_alnum c \<Longrightarrow> docker_lang (u @ s @ [c])"
  by (rule docker_lang.dk_more) (auto simp: dk_word_def)

lemma dk_inv_step_alnum: "dk_inv q s \<Longrightarrow> q \<noteq> DkFail \<Longrightarrow> is_dk_alnum c \<Longrightarrow> docker_lang (s @ [c])"
proof (cases q)
  case DkStart
  assume "dk_inv q s" "is_dk_alnum c"
  with DkStart show ?thesis by (simp add: docker_lang.dk_one dk_word_def)
next
  case DkAlnum
  assume "dk_inv q s" "is_dk_alnum c"
  with DkAlnum show ?thesis by (simp add: docker_lang_snoc)
next
  case DkDot
  assume "dk_inv q s" "is_dk_alnum c"
  with DkDot show ?thesis using docker_lang_sep1 [of _ "''.''" c] by (fastforce simp: dk_sep_def)
next
  case DkUnder
  assume "dk_inv q s" "is_dk_alnum c"
  with DkUnder show ?thesis using docker_lang_sep1 [of _ "''_''" c] by (fastforce simp: dk_sep_def)
next
  case DkUnder2
  assume "dk_inv q s" "is_dk_alnum c"
  with DkUnder2 show ?thesis using docker_lang_sep1 [of _ "''__''" c] by (fastforce simp: dk_sep_def)
next
  case DkDash
  assume a: "dk_inv q s" "is_dk_alnum c"
  then obtain u d where ud: "docker_lang u" "d \<noteq> []" "set d \<subseteq> {CHR ''-''}" "s = u @ d"
    using DkDash by auto
  then have "dk_sep d" by (simp add: dk_sep_def)
  with ud a(2) show ?thesis using docker_lang_sep1 [of u d c] by simp
qed simp

lemma dk_inv_step_dash: "dk_inv DkDash s \<Longrightarrow> dk_inv DkDash (s @ ''-'')"
proof -
  assume "dk_inv DkDash s"
  then obtain u d where "docker_lang u" "set d \<subseteq> {CHR ''-''}" "s = u @ d" by auto
  then have "docker_lang u \<and> d @ ''-'' \<noteq> [] \<and> set (d @ ''-'') \<subseteq> {CHR ''-''} \<and> s @ ''-'' = u @ (d @ ''-'')"
    by simp
  then show ?thesis unfolding dk_inv.simps by blast
qed

lemma dk_inv_step_sep:
  assumes "docker_lang s"
  shows "dk_inv DkDot (s @ ''.'')" "dk_inv DkUnder (s @ ''_'')" "dk_inv DkDash (s @ ''-'')"
proof -
  show "dk_inv DkDot (s @ ''.'')" "dk_inv DkUnder (s @ ''_'')" using assms by auto
  have "docker_lang s \<and> ''-'' \<noteq> [] \<and> set ''-'' \<subseteq> {CHR ''-''} \<and> s @ ''-'' = s @ ''-''"
    using assms by simp
  then show "dk_inv DkDash (s @ ''-'')" unfolding dk_inv.simps by blast
qed

lemma dk_inv_step: "dk_inv q s \<Longrightarrow> dk_inv (dk_step q c) (s @ [c])"
proof (cases "q = DkFail \<or> is_dk_alnum c")
  case True
  assume "dk_inv q s"
  with True show ?thesis by (cases "q = DkFail") (simp_all add: dk_step_alnum dk_inv_step_alnum del: dk_step.simps(1-6))
next
  case False
  assume inv: "dk_inv q s"
  show ?thesis
  proof (cases q)
    case DkAlnum
    with False inv show ?thesis by (simp add: dk_inv_step_sep del: dk_inv.simps(3-6))
  next
    case DkUnder
    with False inv show ?thesis by auto
  next
    case DkDash
    with False inv show ?thesis by (simp add: dk_inv_step_dash del: dk_inv.simps(6))
  qed (use False in simp_all)
qed

lemma dk_inv_run: "dk_inv (foldl dk_step DkStart s) s"
  by (induction s rule: rev_induct) (simp_all add: dk_inv_step)

lemma docker_component_grammar: "is_docker_path_component s \<longleftrightarrow> docker_lang s"
  using docker_lang_accepted dk_inv_run [of s] by (auto simp: is_docker_path_component_def)

lemma docker_lang_chars:
  "docker_lang s \<Longrightarrow> c \<in> set s \<Longrightarrow> is_dk_alnum c \<or> c \<in> set ''._-''"
  by (induction rule: docker_lang.induct) (auto simp: dk_word_def dk_sep_def)

lemma docker_lang_ends:
  "docker_lang s \<Longrightarrow> s \<noteq> [] \<and> is_dk_alnum (hd s) \<and> is_dk_alnum (last s)"
  by (induction rule: docker_lang.induct) (auto simp: dk_word_def)

lemma docker_char_addressable:
  assumes "is_dk_alnum c \<or> c \<in> set ''._-''"
  shows "\<not> (is_space c \<or> is_control c \<or> c \<in> set [CHR ''/'', CHR 0x5C, CHR ''?'', CHR ''#'', CHR ''%''])"
proof -
  from assms have "(of_char c :: nat) \<in> {45, 46, 95} \<union> {48..57} \<union> {97..122}"
    by (auto simp: is_dk_alnum_def is_digit_def)
  then show ?thesis by (auto simp: is_space_def is_control_def)
qed

lemma docker_component_addressable:
  assumes "is_docker_path_component s"
  shows "is_addressable_name s"
proof -
  from assms have L: "docker_lang s" by (simp add: docker_component_grammar)
  have "is_dk_alnum (hd s)" using docker_lang_ends [OF L] by blast
  then have "s \<noteq> ''.''" "s \<noteq> ''..''" by auto
  moreover have "\<forall>c \<in> set s. \<not> (is_space c \<or> is_control c \<or> c \<in> set [CHR ''/'', CHR 0x5C, CHR ''?'', CHR ''#'', CHR ''%''])"
    using docker_lang_chars [OF L] docker_char_addressable by blast
  ultimately show ?thesis unfolding is_addressable_name_def by blast
qed

section \<open>Records\<close>

record repository =
  repo_id :: string
  repo_name :: string
  repo_fmt :: repo_format
  repo_kind :: repo_type
  repo_blob_store_id :: "string option"
  repo_online :: bool
  repo_format_config :: cfg
  repo_http_config :: cfg
  repo_proxy_config :: cfg
  repo_cleanup_policy_ids :: "string list"
  repo_quota_bytes :: "int option"
  repo_routing_rule_id :: "string option"
  repo_allow_anonymous :: bool
  repo_description :: string
  repo_url :: string
  repo_created_at :: int
  repo_updated_at :: int

record routing_rule =
  rule_id :: string
  rule_name :: string
  rule_description :: string
  rule_mode :: string
  rule_matchers :: "string list"
  rule_created_at :: int
  rule_updated_at :: int

record blob_store =
  bs_id :: string
  bs_name :: string
  bs_type :: string
  bs_config :: cfg
  bs_quota_bytes :: "int option"
  bs_used_bytes :: int
  bs_created_at :: int
  bs_updated_at :: int

record component =
  comp_id :: string
  comp_repository_id :: string
  comp_repository :: string
  comp_format :: string
  comp_group :: string
  comp_name :: string
  comp_version :: string
  comp_tags :: "string list"
  comp_extra :: cfg
  comp_last_downloaded :: "int option"
  comp_download_count :: int
  comp_created_at :: int

record asset =
  asset_id :: string
  asset_component_id :: string
  asset_repository_id :: string
  asset_repository :: string
  asset_path :: string
  asset_blob_store_id :: string
  asset_blob_key :: string
  asset_size :: int
  asset_content_type :: string
  asset_sha1 :: string
  asset_sha256 :: string
  asset_md5 :: string
  asset_uploader_id :: string
  asset_last_modified :: int
  asset_last_downloaded :: "int option"
  asset_download_count :: int
  asset_created_at :: int

section \<open>Group members and write policy\<close>

fun list_strings :: "any_val list \<Rightarrow> string list" where
  "list_strings [] = []"
| "list_strings (VStr s # vs) = (if s \<noteq> [] then s # list_strings vs else list_strings vs)"
| "list_strings (_ # vs) = list_strings vs"

definition group_member_names :: "repository option \<Rightarrow> string list" where
  "group_member_names r =
     (case r of
        None \<Rightarrow> []
      | Some r \<Rightarrow>
          (case cfg_get (repo_format_config r) ''member_names'' of
             None \<Rightarrow> []
           | Some raw \<Rightarrow>
               (case raw of
                  VStrs v \<Rightarrow> v
                | VList v \<Rightarrow> list_strings v
                | _ \<Rightarrow> [])))"

definition group_writable_member :: "repository option \<Rightarrow> string" where
  "group_writable_member r =
     (case r of
        None \<Rightarrow> []
      | Some r \<Rightarrow> as_str (cfg_get (repo_format_config r) ''writable_member''))"

datatype write_policy = WritePolicyAllow | WritePolicyAllowOnce | WritePolicyDeny

text \<open>\<open>WritePolicy(v).Valid()\<close> with the conversion: the policy a string names, if any.\<close>

definition write_policy_of :: "string \<Rightarrow> write_policy option" where
  "write_policy_of v =
     (if v = ''allow'' then Some WritePolicyAllow
      else if v = ''allow_once'' then Some WritePolicyAllowOnce
      else if v = ''deny'' then Some WritePolicyDeny
      else None)"

definition repo_write_policy :: "repository option \<Rightarrow> write_policy" where
  "repo_write_policy r =
     (case r of
        None \<Rightarrow> WritePolicyAllow
      | Some r \<Rightarrow>
          if repo_kind r \<noteq> TypeHosted \<or> repo_format_config r = None then WritePolicyAllow
          else (case write_policy_of (as_str (cfg_get (repo_format_config r) ''write_policy'')) of
                  Some p \<Rightarrow> p
                | None \<Rightarrow> WritePolicyAllow))"

definition repo_allows_redeploy_latest :: "repository option \<Rightarrow> bool" where
  "repo_allows_redeploy_latest r =
     (case r of
        None \<Rightarrow> False
      | Some r \<Rightarrow>
          if repo_format_config r = None \<or> \<not> is_oci_registry (repo_fmt r) then False
          else as_bool (cfg_get (repo_format_config r) ''allow_redeploy_latest''))"

lemma repo_write_policy_nonhosted:
  "repo_kind r \<noteq> TypeHosted \<Longrightarrow> repo_write_policy (Some r) = WritePolicyAllow"
  by (simp add: repo_write_policy_def)

lemma list_strings_nonempty: "s \<in> set (list_strings vs) \<Longrightarrow> s \<noteq> [] \<and> VStr s \<in> set vs"
  by (induction vs rule: list_strings.induct) (auto split: if_splits)

section \<open>Nexus migration job states\<close>

datatype migration_status = MigrationPending | MigrationRunning | MigrationPaused | MigrationDone | MigrationError

definition migration_is_active :: "migration_status \<Rightarrow> bool" where
  "migration_is_active st \<longleftrightarrow> st = MigrationPending \<or> st = MigrationRunning"

definition migration_is_resumable :: "migration_status \<Rightarrow> bool" where
  "migration_is_resumable st \<longleftrightarrow> st = MigrationPaused \<or> st = MigrationError"

lemma migration_states_partition:
  "st = MigrationDone \<or> (migration_is_active st \<noteq> migration_is_resumable st)"
  by (cases st) (simp_all add: migration_is_active_def migration_is_resumable_def)

section \<open>Properties\<close>

text \<open>
  The automaton that stands for the docker path component expression accepts exactly the
  language of its grammar, and every name it accepts can be spliced into a URL as one segment.
\<close>

theorem docker_component_exact:
  "(is_docker_path_component s \<longleftrightarrow> docker_lang s) \<and>
   (is_docker_path_component s \<longrightarrow> is_addressable_name s)"
  using docker_component_grammar docker_component_addressable by blast

theorem docker_component_exact_witness:
  "docker_lang ''team-a_b'' \<and> is_addressable_name ''team-a_b'' \<and> \<not> docker_lang ''docker test''"
  using docker_component_exact [of "''team-a_b''"] docker_component_exact [of "''docker test''"]
  by (simp add: is_docker_path_component_def is_dk_alnum_def is_digit_def)

section \<open>Users and API tokens\<close>

record user =
  usr_id :: string
  usr_username :: string
  usr_email :: string
  usr_password_hash :: string
  usr_first_name :: string
  usr_last_name :: string
  usr_status :: string
  usr_source :: string
  usr_external_id :: string
  usr_roles :: "string list"
  usr_must_reset_password :: bool
  usr_last_login :: "time option"
  usr_tokens_valid_after :: time
  usr_created_at :: time
  usr_updated_at :: time

record user_token =
  tok_id :: string
  tok_user_id :: string
  tok_username :: string
  tok_name :: string
  tok_token_hash :: string
  tok_scopes :: "string list"
  tok_last_used :: "time option"
  tok_expires_at :: "time option"
  tok_created_at :: time
  tok_token :: string

record role =
  role_id :: string
  role_name :: string

end
