(* ===== verification/Severity.thy ===== *)
theory Severity
  imports Domain
begin

text \<open>
  Scan severities (\<open>scan_severity.go\<close>) and the pull gate that refuses a vulnerable image
  (\<open>pull_gate.go\<close>).
\<close>

section \<open>Scan severities\<close>

definition scan_severities :: "string list" where
  "scan_severities = [''malicious'', ''critical'', ''high'', ''medium'', ''low'', ''unknown'']"

definition default_scan_fail_severities :: "string list" where
  "default_scan_fail_severities = [''malicious'', ''critical'', ''high'']"

datatype severity_error =
    UnknownScanSeverity string
  | PullSeverityNotString
  | PullSeverityNotAllowed string

text \<open>The loop that folds each raw value and records it as seen; the first bad one stops it.\<close>

fun collect_severities :: "string list \<Rightarrow> string set \<Rightarrow> severity_error + string set" where
  "collect_severities [] seen = Inr seen"
| "collect_severities (raw # rest) seen =
     (let v = to_lower (trim_space raw)
      in if v \<notin> set scan_severities then Inl (UnknownScanSeverity raw)
         else collect_severities rest (insert v seen))"

definition normalize_scan_severities :: "string list \<Rightarrow> severity_error + string list" where
  "normalize_scan_severities xs =
     (case collect_severities xs {} of
        Inl e \<Rightarrow> Inl e
      | Inr seen \<Rightarrow> Inr (filter (\<lambda>v. v \<in> seen) scan_severities))"

definition effective_scan_fail_severities :: "string list \<Rightarrow> string list" where
  "effective_scan_fail_severities own =
     (if length own = 0 then default_scan_fail_severities else own)"

lemma collect_severities_Inr:
  "collect_severities xs seen = Inr out \<Longrightarrow>
     out = seen \<union> (to_lower \<circ> trim_space) ` set xs \<and>
     (to_lower \<circ> trim_space) ` set xs \<subseteq> set scan_severities"
  by (induction xs arbitrary: seen) (auto simp: Let_def split: if_splits)

lemma collect_severities_total:
  "(to_lower \<circ> trim_space) ` set xs \<subseteq> set scan_severities \<Longrightarrow> \<exists>out. collect_severities xs seen = Inr out"
  by (induction xs arbitrary: seen) (auto simp: Let_def)

lemma scan_severities_normal:
  "v \<in> set scan_severities \<Longrightarrow> to_lower (trim_space v) = v"
  unfolding scan_severities_def
  by (auto simp: trim_space_def is_space_def to_lower_def lower_char_def)

lemma normalize_scan_severities_Inr:
  assumes "normalize_scan_severities xs = Inr out"
  shows "set out = (to_lower \<circ> trim_space) ` set xs" and "distinct out"
    and "out = filter (\<lambda>v. v \<in> set out) scan_severities"
proof -
  from assms obtain seen where c: "collect_severities xs {} = Inr seen"
    and out: "out = filter (\<lambda>v. v \<in> seen) scan_severities"
    by (auto simp: normalize_scan_severities_def split: sum.splits)
  from collect_severities_Inr [OF c]
  have seen: "seen = (to_lower \<circ> trim_space) ` set xs" "seen \<subseteq> set scan_severities" by auto
  then show set: "set out = (to_lower \<circ> trim_space) ` set xs" using out by auto
  show "distinct out" using out by (simp add: scan_severities_def)
  show "out = filter (\<lambda>v. v \<in> set out) scan_severities" using out set seen by simp
qed

section \<open>The pull gate\<close>

definition pull_block_severities :: "string list" where
  "pull_block_severities = [''low'', ''medium'', ''high'', ''critical'', ''malicious'']"

text \<open>\<open>slices.Index\<close> with Go's \<open>-1\<close> for a missing element, plus one.\<close>

fun index_from :: "nat \<Rightarrow> string list \<Rightarrow> string \<Rightarrow> int" where
  "index_from i [] v = -1"
| "index_from i (x # xs) v = (if x = v then int i else index_from (Suc i) xs v)"

definition pull_severity_rank :: "string \<Rightarrow> int" where
  "pull_severity_rank sev = index_from 0 pull_block_severities sev + 1"

definition normalize_pull_block_severity :: "any_val option \<Rightarrow> severity_error + string" where
  "normalize_pull_block_severity raw =
     (case raw of
        Some (VStr s) \<Rightarrow>
          (let v = to_lower (trim_space s)
           in if v \<noteq> [] \<and> pull_severity_rank v = 0 then Inl (PullSeverityNotAllowed s) else Inr v)
      | _ \<Rightarrow> Inl PullSeverityNotString)"

definition repo_pull_block_severity :: "repository option \<Rightarrow> string" where
  "repo_pull_block_severity r =
     (case r of
        None \<Rightarrow> []
      | Some r \<Rightarrow>
          if repo_format_config r = None \<or> \<not> is_oci_registry (repo_fmt r) then []
          else (case normalize_pull_block_severity (cfg_get (repo_format_config r) ''pull_block_severity'') of
                  Inl _ \<Rightarrow> []
                | Inr v \<Rightarrow> v))"

definition stricter_pull_severity :: "string \<Rightarrow> string \<Rightarrow> string" where
  "stricter_pull_severity a b =
     (if a = [] then b
      else if b = [] then a
      else if pull_severity_rank b < pull_severity_rank a then b
      else a)"

datatype scan_status = ScanStatusOK | ScanStatusFailed

record scan_result_row =
  sr_id :: string
  sr_component_id :: string
  sr_scanner :: string
  sr_status :: scan_status
  sr_malicious :: int
  sr_critical :: int
  sr_high :: int
  sr_medium :: int
  sr_low :: int
  sr_unknown :: int
  sr_total :: int
  sr_scanned_at :: int
  sr_raw :: cfg
  sr_error :: string

definition scanned_manifest_sha256 :: "scan_result_row \<Rightarrow> string" where
  "scanned_manifest_sha256 r = as_str (cfg_get (sr_raw r) ''manifest_sha256'')"

definition severity_count :: "scan_result_row \<Rightarrow> string \<Rightarrow> int" where
  "severity_count r sev =
     (if sev = ''malicious'' then sr_malicious r
      else if sev = ''critical'' then sr_critical r
      else if sev = ''high'' then sr_high r
      else if sev = ''medium'' then sr_medium r
      else if sev = ''low'' then sr_low r
      else if sev = ''unknown'' then sr_unknown r
      else 0)"

record pull_gate_verdict =
  pv_blocked :: bool
  pv_unscanned :: bool
  pv_severity :: string
  pv_count :: int

definition pass_verdict :: pull_gate_verdict where
  "pass_verdict = \<lparr>pv_blocked = False, pv_unscanned = False, pv_severity = [], pv_count = 0\<rparr>"

text \<open>
  The loop \<open>for i := len-1; i >= rank-1; i--\<close>: \<open>sevs\<close> holds the severities still to look at,
  worst first.
\<close>

fun worst_finding :: "scan_result_row \<Rightarrow> string list \<Rightarrow> pull_gate_verdict" where
  "worst_finding scan [] = pass_verdict"
| "worst_finding scan (sev # sevs) =
     (let n = severity_count scan sev
      in if n > 0
         then \<lparr>pv_blocked = True, pv_unscanned = False, pv_severity = sev, pv_count = n\<rparr>
         else worst_finding scan sevs)"

definition evaluate_pull_gate :: "string \<Rightarrow> bool \<Rightarrow> scan_result_row option \<Rightarrow> pull_gate_verdict" where
  "evaluate_pull_gate threshold require_scan scan =
     (let rank = pull_severity_rank threshold
      in if rank = 0 then pass_verdict
         else case scan of
                None \<Rightarrow> pass_verdict\<lparr>pv_blocked := require_scan, pv_unscanned := True\<rparr>
              | Some s \<Rightarrow>
                  if sr_status s \<noteq> ScanStatusOK
                  then pass_verdict\<lparr>pv_blocked := require_scan, pv_unscanned := True\<rparr>
                  else worst_finding s (rev (drop (nat (rank - 1)) pull_block_severities)))"

lemma index_from_range:
  "index_from i xs v = -1 \<or> (int i \<le> index_from i xs v \<and> index_from i xs v < int (i + length xs))"
  by (induction xs arbitrary: i) (fastforce split: if_splits)+

lemma rank_bounds: "0 \<le> pull_severity_rank s \<and> pull_severity_rank s \<le> 5"
  using index_from_range [of 0 pull_block_severities s]
  by (auto simp: pull_severity_rank_def pull_block_severities_def)

lemma rank_zero_iff: "pull_severity_rank s = 0 \<longleftrightarrow> s \<notin> set pull_block_severities"
  by (auto simp: pull_severity_rank_def pull_block_severities_def split: if_splits)

lemma rank_inj:
  "a \<in> set pull_block_severities \<Longrightarrow> b \<in> set pull_block_severities \<Longrightarrow>
   pull_severity_rank a = pull_severity_rank b \<Longrightarrow> a = b"
  unfolding pull_severity_rank_def pull_block_severities_def by (auto split: if_splits)

lemma severities_from_rank:
  "\<forall>t \<in> set pull_block_severities.
     filter (\<lambda>s. pull_severity_rank t \<le> pull_severity_rank s) pull_block_severities
     = drop (nat (pull_severity_rank t - 1)) pull_block_severities"
  by code_simp

text \<open>The severities a threshold looks at are those of its own rank and above.\<close>

lemma set_from_rank:
  assumes "pull_severity_rank t \<noteq> 0"
  shows "set (drop (nat (pull_severity_rank t - 1)) pull_block_severities)
         = {s. pull_severity_rank t \<le> pull_severity_rank s}"
proof -
  have t: "t \<in> set pull_block_severities" using assms rank_zero_iff by blast
  have "s \<in> set pull_block_severities" if "pull_severity_rank t \<le> pull_severity_rank s" for s
    using that assms rank_bounds [of t] rank_zero_iff [of s] by linarith
  then have "{s. pull_severity_rank t \<le> pull_severity_rank s}
        = {s \<in> set pull_block_severities. pull_severity_rank t \<le> pull_severity_rank s}" by blast
  also have "\<dots> = set (filter (\<lambda>s. pull_severity_rank t \<le> pull_severity_rank s) pull_block_severities)"
    by simp
  also have "\<dots> = set (drop (nat (pull_severity_rank t - 1)) pull_block_severities)"
    using t severities_from_rank by simp
  finally show ?thesis by simp
qed

lemma worst_finding_blocked:
  "pv_blocked (worst_finding s sevs) \<longleftrightarrow> (\<exists>v \<in> set sevs. 0 < severity_count s v)"
  by (induction sevs) (auto simp: pass_verdict_def Let_def)

lemma gate_blocked_iff:
  assumes "sr_status s = ScanStatusOK" and "pull_severity_rank t \<noteq> 0"
  shows "pv_blocked (evaluate_pull_gate t req (Some s)) \<longleftrightarrow>
         (\<exists>v. pull_severity_rank t \<le> pull_severity_rank v \<and> 0 < severity_count s v)"
  using assms set_from_rank [OF assms(2)]
  by (simp add: evaluate_pull_gate_def worst_finding_blocked)

lemma worst_finding_is_worst:
  assumes "sorted_wrt (\<lambda>a b. pull_severity_rank b \<le> pull_severity_rank a) sevs"
    and "pv_blocked (worst_finding s sevs)"
  shows "pv_severity (worst_finding s sevs) \<in> set sevs \<and>
         pv_count (worst_finding s sevs) = severity_count s (pv_severity (worst_finding s sevs)) \<and>
         0 < pv_count (worst_finding s sevs) \<and>
         (\<forall>v \<in> set sevs. 0 < severity_count s v \<longrightarrow>
            pull_severity_rank v \<le> pull_severity_rank (pv_severity (worst_finding s sevs)))"
  using assms
proof (induction sevs)
  case Nil
  then show ?case by (simp add: pass_verdict_def)
next
  case (Cons x xs)
  show ?case
  proof (cases "0 < severity_count s x")
    case True
    then show ?thesis using Cons.prems by (auto simp: Let_def)
  next
    case False
    then show ?thesis using Cons by (auto simp: Let_def)
  qed
qed

lemma severities_worst_first:
  "sorted_wrt (\<lambda>a b. pull_severity_rank b \<le> pull_severity_rank a) (rev (drop n pull_block_severities))"
proof -
  have s: "sorted_wrt (\<lambda>a b. pull_severity_rank a \<le> pull_severity_rank b) pull_block_severities"
    by (simp add: pull_block_severities_def pull_severity_rank_def)
  then have "sorted_wrt (\<lambda>a b. pull_severity_rank a \<le> pull_severity_rank b) (drop n pull_block_severities)"
    by (rule sorted_wrt_drop)
  then show ?thesis by (simp add: sorted_wrt_rev)
qed

lemma stricter_rank:
  assumes "pull_severity_rank a \<noteq> 0" "pull_severity_rank b \<noteq> 0"
  shows "pull_severity_rank (stricter_pull_severity a b) = min (pull_severity_rank a) (pull_severity_rank b)"
proof -
  have "a \<noteq> []" "b \<noteq> []" using assms rank_zero_iff by (auto simp: pull_block_severities_def)
  then show ?thesis by (auto simp: stricter_pull_severity_def min_def)
qed

lemma rank_empty [simp]: "pull_severity_rank [] = 0"
  by (simp add: rank_zero_iff pull_block_severities_def)

section \<open>Properties\<close>

text \<open>
  C36: for an image with a finished scan, a threshold blocks the pull exactly when the scan counted a
  finding at that severity or above, and the refusal then names a most serious such finding with
  its count.
\<close>

theorem pull_gate_exact:
  assumes "sr_status s = ScanStatusOK" and "pull_severity_rank t \<noteq> 0"
    and "v = evaluate_pull_gate t req (Some s)"
  shows "(pv_blocked v \<longleftrightarrow> (\<exists>sev. pull_severity_rank t \<le> pull_severity_rank sev \<and> 0 < severity_count s sev)) \<and>
         (pv_blocked v \<longrightarrow>
            severity_count s (pv_severity v) = pv_count v \<and> 0 < pv_count v \<and>
            (\<forall>sev. pull_severity_rank t \<le> pull_severity_rank sev \<and> 0 < severity_count s sev \<longrightarrow>
               pull_severity_rank sev \<le> pull_severity_rank (pv_severity v)))"
proof -
  define sevs where "sevs = rev (drop (nat (pull_severity_rank t - 1)) pull_block_severities)"
  have v: "v = worst_finding s sevs" using assms by (simp add: evaluate_pull_gate_def sevs_def)
  have set: "set sevs = {sev. pull_severity_rank t \<le> pull_severity_rank sev}"
    using set_from_rank [OF assms(2)] by (simp add: sevs_def)
  have srt: "sorted_wrt (\<lambda>a b. pull_severity_rank b \<le> pull_severity_rank a) sevs"
    unfolding sevs_def by (rule severities_worst_first)
  have "pv_blocked v \<longleftrightarrow> (\<exists>sev. pull_severity_rank t \<le> pull_severity_rank sev \<and> 0 < severity_count s sev)"
    unfolding v worst_finding_blocked set by blast
  moreover have "severity_count s (pv_severity v) = pv_count v \<and> 0 < pv_count v \<and>
      (\<forall>sev \<in> set sevs. 0 < severity_count s sev \<longrightarrow> pull_severity_rank sev \<le> pull_severity_rank (pv_severity v))"
    if "pv_blocked v"
    using worst_finding_is_worst [OF srt, of s] that unfolding v by metis
  ultimately show ?thesis unfolding set by blast
qed

definition example_scan :: scan_result_row where
  "example_scan = \<lparr>sr_id = ''s'', sr_component_id = ''c'', sr_scanner = ''trivy'', sr_status = ScanStatusOK,
     sr_malicious = 0, sr_critical = 0, sr_high = 2, sr_medium = 5, sr_low = 0, sr_unknown = 9,
     sr_total = 16, sr_scanned_at = 0, sr_raw = None, sr_error = []\<rparr>"

theorem pull_gate_exact_witness:
  "pv_blocked (evaluate_pull_gate ''medium'' True (Some example_scan)) \<and>
   severity_count example_scan (pv_severity (evaluate_pull_gate ''medium'' True (Some example_scan))) = 2"
proof -
  have h: "sr_status example_scan = ScanStatusOK" "pull_severity_rank ''medium'' \<noteq> 0"
    by (simp_all add: example_scan_def pull_severity_rank_def pull_block_severities_def)
  have b: "pv_blocked (evaluate_pull_gate ''medium'' True (Some example_scan))" by code_simp
  have c: "pv_count (evaluate_pull_gate ''medium'' True (Some example_scan)) = 2" by code_simp
  show ?thesis using pull_gate_exact [OF h refl, of True] b c by simp
qed

text \<open>
  Combining two thresholds takes the stricter one: on an image with a finished scan the combined
  gate blocks exactly when one of the two gates does, and an unset threshold adds nothing.
\<close>

theorem stricter_threshold_is_union:
  assumes "sr_status s = ScanStatusOK"
    and "a = [] \<or> pull_severity_rank a \<noteq> 0" and "b = [] \<or> pull_severity_rank b \<noteq> 0"
  shows "pv_blocked (evaluate_pull_gate (stricter_pull_severity a b) req (Some s)) \<longleftrightarrow>
         pv_blocked (evaluate_pull_gate a req (Some s)) \<or> pv_blocked (evaluate_pull_gate b req (Some s))"
proof (cases "a = [] \<or> b = []")
  case True
  then show ?thesis
    by (auto simp: stricter_pull_severity_def evaluate_pull_gate_def pass_verdict_def)
next
  case False
  then have r: "pull_severity_rank a \<noteq> 0" "pull_severity_rank b \<noteq> 0" using assms by auto
  then have m: "pull_severity_rank (stricter_pull_severity a b) \<noteq> 0"
    by (auto simp: stricter_rank min_def)
  show ?thesis
    unfolding gate_blocked_iff [OF assms(1) m] gate_blocked_iff [OF assms(1) r(1)] gate_blocked_iff [OF assms(1) r(2)]
    by (auto simp: stricter_rank [OF r] min_le_iff_disj)
qed

theorem stricter_threshold_is_union_witness:
  "pv_blocked (evaluate_pull_gate (stricter_pull_severity ''critical'' ''high'') False (Some example_scan))"
proof -
  have h: "sr_status example_scan = ScanStatusOK" "''critical'' = [] \<or> pull_severity_rank ''critical'' \<noteq> 0"
    "''high'' = [] \<or> pull_severity_rank ''high'' \<noteq> 0"
    by (simp_all add: example_scan_def pull_severity_rank_def pull_block_severities_def)
  have "pv_blocked (evaluate_pull_gate ''high'' False (Some example_scan))" by code_simp
  then show ?thesis using stricter_threshold_is_union [OF h] by simp
qed

text \<open>
  Normalizing a list of scan severities gives the distinct folded values in display order, and
  normalizing the result again changes nothing.
\<close>

theorem normalize_severities_canonical:
  assumes "normalize_scan_severities xs = Inr out"
  shows "set out = (to_lower \<circ> trim_space) ` set xs \<and> distinct out \<and>
         normalize_scan_severities out = Inr out"
proof -
  note n = normalize_scan_severities_Inr [OF assms]
  from n(3) have sub: "set out \<subseteq> set scan_severities" by (metis filter_is_subset)
  then have "\<forall>v \<in> set out. (to_lower \<circ> trim_space) v = v" using scan_severities_normal by auto
  then have im: "(to_lower \<circ> trim_space) ` set out = set out" by simp
  then obtain seen where c: "collect_severities out {} = Inr seen"
    using collect_severities_total [of out "{}"] sub by auto
  from collect_severities_Inr [OF c] im have "seen = set out" by simp
  then have "normalize_scan_severities out = Inr out"
    using c n(3) by (simp add: normalize_scan_severities_def)
  with n show ?thesis by blast
qed

theorem normalize_severities_canonical_witness:
  "normalize_scan_severities ['' High'', ''low'', ''HIGH''] = Inr [''high'', ''low''] \<and>
   normalize_scan_severities [''high'', ''low''] = Inr [''high'', ''low'']"
proof -
  have h: "normalize_scan_severities ['' High'', ''low'', ''HIGH''] = Inr [''high'', ''low'']" by code_simp
  show ?thesis using normalize_severities_canonical [OF h] h by blast
qed

end
