(* ===== verification/Go_Path.thy ===== *)
theory Go_Path
  imports Go_Lib
begin

text \<open>
  The lexical path functions of Go's \<open>path\<close> package and \<open>url.PathUnescape\<close>, written over the
  \<open>/\<close>-separated segments of a path.
\<close>

abbreviation slash :: char where "slash \<equiv> CHR ''/''"

section \<open>path.Clean, path.Base, path.Dir\<close>

text \<open>
  \<open>path.Clean\<close> drops empty and \<open>.\<close> segments and lets \<open>..\<close> remove the segment before it; at the
  root \<open>..\<close> vanishes, in a relative path it is kept. The stack \<open>acc\<close> is in reverse order.
\<close>

fun clean_segs :: "bool \<Rightarrow> string list \<Rightarrow> string list \<Rightarrow> string list" where
  "clean_segs rooted acc [] = rev acc"
| "clean_segs rooted acc (s # ss) =
     (if s = [] \<or> s = ''.'' then clean_segs rooted acc ss
      else if s = ''..'' then
        (case acc of
           [] \<Rightarrow> clean_segs rooted (if rooted then [] else [''..'']) ss
         | a # as \<Rightarrow> if a = ''..'' then clean_segs rooted (''..'' # acc) ss
                    else clean_segs rooted as ss)
      else clean_segs rooted (s # acc) ss)"

definition path_clean :: "string \<Rightarrow> string" where
  "path_clean p =
     (if p = [] then ''.''
      else let rooted = (hd p = slash);
               segs = clean_segs rooted [] (str_split slash p)
           in if rooted then slash # str_join [slash] segs
              else if segs = [] then ''.'' else str_join [slash] segs)"

definition strip_trailing :: "string \<Rightarrow> string" where
  "strip_trailing p = rev (dropWhile (\<lambda>c. c = slash) (rev p))"

definition after_last_slash :: "string \<Rightarrow> string" where
  "after_last_slash p = rev (takeWhile (\<lambda>c. c \<noteq> slash) (rev p))"

definition path_base :: "string \<Rightarrow> string" where
  "path_base p =
     (if p = [] then ''.''
      else let q = after_last_slash (strip_trailing p) in if q = [] then ''/'' else q)"

definition path_dir :: "string \<Rightarrow> string" where
  "path_dir p = path_clean (rev (dropWhile (\<lambda>c. c \<noteq> slash) (rev p)))"

text \<open>A segment that \<open>path.Clean\<close> keeps as it is.\<close>

definition plain_seg :: "string \<Rightarrow> bool" where
  "plain_seg s \<longleftrightarrow> s \<noteq> [] \<and> s \<noteq> ''.'' \<and> s \<noteq> ''..'' \<and> slash \<notin> set s"

lemma clean_segs_plain:
  "\<forall>s \<in> set ss. plain_seg s \<Longrightarrow> clean_segs rooted acc ss = rev acc @ ss"
  by (induction ss arbitrary: acc) (auto simp: plain_seg_def)

lemma clean_segs_plain_trailing:
  "\<forall>s \<in> set ss. plain_seg s \<Longrightarrow> clean_segs rooted acc (ss @ [[]]) = rev acc @ ss"
  by (induction ss arbitrary: acc) (auto simp: plain_seg_def)

lemma path_clean_rooted:
  "path_clean (slash # p) = slash # str_join [slash] (clean_segs True [] (str_split slash p))"
  by (simp add: path_clean_def Let_def)

lemma clean_segs_rooted_plain:
  "list_all plain_seg acc \<Longrightarrow> list_all (\<lambda>s. slash \<notin> set s) ss \<Longrightarrow>
   list_all plain_seg (clean_segs True acc ss)"
proof (induction ss arbitrary: acc)
  case Nil
  then show ?case by (simp add: list_all_iff)
next
  case (Cons s ss)
  have sl: "slash \<notin> set s" "list_all (\<lambda>s. slash \<notin> set s) ss" using Cons.prems(2) by simp_all
  consider "s = [] \<or> s = ''.''" | "s = ''..''" | "s \<noteq> []" "s \<noteq> ''.''" "s \<noteq> ''..''" by blast
  then show ?case
  proof cases
    case 1
    then have "clean_segs True acc (s # ss) = clean_segs True acc ss" by auto
    then show ?thesis using Cons.IH [OF Cons.prems(1) sl(2)] by (simp only:)
  next
    case 2
    show ?thesis
    proof (cases acc)
      case Nil
      with 2 have "clean_segs True acc (s # ss) = clean_segs True [] ss" by simp
      then show ?thesis using Cons.IH [of "[]"] sl(2) by simp
    next
      case acc: (Cons a as)
      then have as: "plain_seg a" "list_all plain_seg as" using Cons.prems(1) by simp_all
      then have "a \<noteq> ''..''" by (simp add: plain_seg_def)
      with 2 acc have "clean_segs True acc (s # ss) = clean_segs True as ss" by simp
      then show ?thesis using Cons.IH [of as] as(2) sl(2) by (simp only:)
    qed
  next
    case 3
    then have "clean_segs True acc (s # ss) = clean_segs True (s # acc) ss" by simp
    moreover have "plain_seg s" using 3 sl(1) by (simp add: plain_seg_def)
    ultimately show ?thesis using Cons.IH [of "s # acc"] Cons.prems(1) sl(2) by simp
  qed
qed

section \<open>url.PathUnescape\<close>

definition hex_val :: "char \<Rightarrow> nat option" where
  "hex_val c =
     (let n = (of_char c :: nat)
      in if 48 \<le> n \<and> n \<le> 57 then Some (n - 48)
         else if 97 \<le> n \<and> n \<le> 102 then Some (n - 87)
         else if 65 \<le> n \<and> n \<le> 70 then Some (n - 55)
         else None)"

text \<open>\<^const>\<open>None\<close> is the \<open>EscapeError\<close>: a \<open>%\<close> that two hexadecimal digits do not follow.\<close>

fun path_unescape :: "string \<Rightarrow> string option" where
  "path_unescape [] = Some []"
| "path_unescape (c # cs) =
     (if c \<noteq> CHR ''%'' then map_option (\<lambda>t. c # t) (path_unescape cs)
      else case cs of
             a # b # rest \<Rightarrow>
               (case (hex_val a, hex_val b) of
                  (Some x, Some y) \<Rightarrow> map_option (\<lambda>t. char_of (16 * x + y) # t) (path_unescape rest)
                | _ \<Rightarrow> None)
           | _ \<Rightarrow> None)"

text \<open>What a lenient upstream makes of a segment: decoded if it decodes, literal otherwise.\<close>

definition decode_once :: "string \<Rightarrow> string" where
  "decode_once s = (case path_unescape s of None \<Rightarrow> s | Some d \<Rightarrow> d)"

lemma decode_fixpoint: "decode_once s = s \<Longrightarrow> (decode_once ^^ n) s = s"
  by (induction n) simp_all

section \<open>path.Match\<close>

text \<open>
  One bracket of a pattern, after \<open>[\<close> and an optional \<open>^\<close>: does \<open>c\<close> fall into one of its ranges, and
  what of the pattern is left. A bracket has at least one range; \<^const>\<open>None\<close> is \<open>ErrBadPattern\<close>.
\<close>

fun match_esc :: "string \<Rightarrow> (char \<times> string) option" where
  "match_esc [] = None"
| "match_esc (c # cs) =
     (if c = CHR ''-'' \<or> c = CHR '']'' then None
      else if c = CHR 0x5C then (case cs of [] \<Rightarrow> None | d # ds \<Rightarrow> if ds = [] then None else Some (d, ds))
      else if cs = [] then None
      else Some (c, cs))"

lemma match_esc_less: "match_esc p = Some (c, q) \<Longrightarrow> length q < length p"
  by (cases p) (auto split: if_splits list.splits)

function match_ranges :: "char \<Rightarrow> nat \<Rightarrow> bool \<Rightarrow> string \<Rightarrow> (bool \<times> string) option" where
  "match_ranges c n hit p =
     (if p \<noteq> [] \<and> hd p = CHR '']'' \<and> n > 0 then Some (hit, tl p)
      else case match_esc p of
             None \<Rightarrow> None
           | Some (lo, q) \<Rightarrow>
               if hd q = CHR ''-'' then
                 (case match_esc (tl q) of
                    None \<Rightarrow> None
                  | Some (hi, r) \<Rightarrow>
                      match_ranges c (Suc n) (hit \<or> (of_char lo :: nat) \<le> of_char c \<and> (of_char c :: nat) \<le> of_char hi) r)
               else match_ranges c (Suc n) (hit \<or> lo = c) q)"
  by pat_completeness auto
termination
proof (relation "measure (\<lambda>(_, _, _, p). length p)", goal_cases)
  case (2 c n hit p x lo q y hi r)
  then have "length q < length p" "length r < length (tl q)" by (auto dest: match_esc_less)
  then show ?case by simp
next
  case (3 c n hit p x lo q)
  then show ?case by (auto dest: match_esc_less)
qed simp

lemma match_ranges_less: "match_ranges c n hit p = Some (b, q) \<Longrightarrow> length q < length p"
proof (induction c n hit p rule: match_ranges.induct)
  case (1 c n hit p)
  show ?case
  proof (cases "p \<noteq> [] \<and> hd p = CHR '']'' \<and> n > 0")
    case True
    then show ?thesis using 1(3) by (subst (asm) match_ranges.simps) auto
  next
    case False
    obtain lo q' where e: "match_esc p = Some (lo, q')"
      using 1(3) False by (subst (asm) match_ranges.simps) (auto split: option.splits)
    then have len: "length q' < length p" by (rule match_esc_less)
    show ?thesis
    proof (cases "hd q' = CHR ''-''")
      case True
      obtain hi r where h: "match_esc (tl q') = Some (hi, r)"
        "match_ranges c (Suc n) (hit \<or> (of_char lo :: nat) \<le> of_char c \<and> (of_char c :: nat) \<le> of_char hi) r = Some (b, q)"
        using 1(3) False e True by (subst (asm) match_ranges.simps) (auto split: option.splits)
      have "length q < length r" using 1(1) [OF False e refl True h(1) refl h(2)] .
      with match_esc_less [OF h(1)] len show ?thesis by simp
    next
      case hd: False
      have "match_ranges c (Suc n) (hit \<or> lo = c) q' = Some (b, q)"
        using 1(3) False e hd by (subst (asm) match_ranges.simps) simp
      then have "length q < length q'" using 1(2) [OF False e refl hd] by blast
      with len show ?thesis by simp
    qed
  qed
qed

declare match_ranges.simps [simp del]

text \<open>
  \<open>ok, _ := path.Match(pattern, name)\<close>: a malformed pattern matches nothing.
\<close>

function path_match :: "string \<Rightarrow> string \<Rightarrow> bool" where
  "path_match [] s = (s = [])"
| "path_match (p # ps) s =
     (if p = CHR ''*'' then
        path_match ps s \<or> (case s of [] \<Rightarrow> False | c # cs \<Rightarrow> c \<noteq> slash \<and> path_match (p # ps) cs)
      else case s of
        [] \<Rightarrow> False
      | c # cs \<Rightarrow>
          if p = CHR ''?'' then c \<noteq> slash \<and> path_match ps cs
          else if p = CHR ''['' then
            (let neg = (ps \<noteq> [] \<and> hd ps = CHR ''^'')
             in case match_ranges c 0 False (if neg then tl ps else ps) of
                  None \<Rightarrow> False
                | Some (hit, rest) \<Rightarrow> hit \<noteq> neg \<and> path_match rest cs)
          else if p = CHR 0x5C then
            (case ps of [] \<Rightarrow> False | q # qs \<Rightarrow> q = c \<and> path_match qs cs)
          else p = c \<and> path_match ps cs)"
  by pat_completeness auto
termination
  by (relation "measure (\<lambda>(p, s). length p + length s)")
     (auto dest!: match_ranges_less simp: Let_def split: if_splits)

end
