(* ===== verification/Routing.thy ===== *)
theory Routing
  imports Domain Go_Path
begin

text \<open>
  Canonical repository paths (\<open>formats/path.go\<close>) and routing rules (\<open>domain/routing_rule.go\<close>,
  \<open>formats/routing.go\<close>). The regular expression engine is the parameter \<open>rx\<close>: the matcher a
  pattern compiles to, or \<^const>\<open>None\<close> where \<open>regexp.Compile\<close> fails.
\<close>

section \<open>Canonical paths\<close>

datatype path_error = EmptySegment | DotSegment string | EncodedSlash | TooManyEncodings

definition max_path_decodes :: nat where
  "max_path_decodes = 8"

fun check_segment_n :: "nat \<Rightarrow> string \<Rightarrow> path_error option" where
  "check_segment_n 0 seg = Some TooManyEncodings"
| "check_segment_n (Suc n) seg =
     (if seg = ''.'' \<or> seg = ''..'' then Some (DotSegment seg)
      else case path_unescape seg of
             None \<Rightarrow> None
           | Some decoded \<Rightarrow>
               if decoded = seg then None
               else if slash \<in> set decoded then Some EncodedSlash
               else check_segment_n n decoded)"

definition check_segment :: "string \<Rightarrow> path_error option" where
  "check_segment seg = check_segment_n max_path_decodes seg"

text \<open>The loop over the segments; only the last one may be empty.\<close>

fun check_segs :: "string list \<Rightarrow> path_error option" where
  "check_segs [] = None"
| "check_segs (seg # rest) =
     (if seg = [] then (if rest = [] then None else Some EmptySegment)
      else case check_segment seg of
             Some e \<Rightarrow> Some e
           | None \<Rightarrow> check_segs rest)"

definition canonical_path :: "string \<Rightarrow> path_error + string" where
  "canonical_path p =
     (case check_segs (str_split slash (trim_prefix p ''/'')) of
        Some e \<Rightarrow> Inl e
      | None \<Rightarrow> Inr (path_clean (slash # trim_prefix p ''/'')))"

lemma check_segment_n_decodings:
  assumes "check_segment_n n seg = None" and "slash \<notin> set seg"
  shows "(decode_once ^^ k) seg \<notin> {''.'', ''..''} \<and> slash \<notin> set ((decode_once ^^ k) seg)"
  using assms
proof (induction n arbitrary: seg k)
  case 0
  then show ?case by simp
next
  case (Suc n)
  from Suc.prems(1) have nd: "seg \<noteq> ''.''" "seg \<noteq> ''..''" by (auto split: if_splits)
  show ?case
  proof (cases "decode_once seg = seg")
    case True
    then show ?thesis using nd Suc.prems(2) by (simp add: decode_fixpoint)
  next
    case False
    then obtain d where d: "path_unescape seg = Some d" "d \<noteq> seg" "decode_once seg = d"
      by (auto simp: decode_once_def split: option.splits)
    with Suc.prems(1) nd have "slash \<notin> set d" "check_segment_n n d = None" by (auto split: if_splits)
    then have IH: "(decode_once ^^ j) d \<notin> {''.'', ''..''} \<and> slash \<notin> set ((decode_once ^^ j) d)" for j
      using Suc.IH by blast
    show ?thesis
    proof (cases k)
      case 0
      then show ?thesis using nd Suc.prems(2) by simp
    next
      case (Suc j)
      then show ?thesis using IH [of j] d(3) by (simp add: funpow_Suc_right del: funpow.simps)
    qed
  qed
qed

lemma check_segment_plain:
  "check_segment seg = None \<Longrightarrow> seg \<noteq> [] \<Longrightarrow> slash \<notin> set seg \<Longrightarrow> plain_seg seg"
  using check_segment_n_decodings [of max_path_decodes seg 0]
  by (simp add: check_segment_def plain_seg_def)

text \<open>Accepted segment lists: plain segments, then at most one empty one.\<close>

lemma check_segs_shape:
  assumes "check_segs segs = None" and "\<forall>s \<in> set segs. slash \<notin> set s"
  shows "\<exists>body. (segs = body \<or> segs = body @ [[]]) \<and>
           (\<forall>s \<in> set body. plain_seg s \<and> check_segment s = None)"
  using assms
proof (induction segs)
  case Nil
  then show ?case by simp
next
  case (Cons seg rest)
  show ?case
  proof (cases "seg = []")
    case True
    with Cons.prems have "rest = []" by (simp split: if_splits)
    with True show ?thesis by (intro exI [of _ "[]"]) simp
  next
    case False
    with Cons.prems have c: "check_segment seg = None" "check_segs rest = None"
      by (auto split: option.splits)
    then obtain body where "rest = body \<or> rest = body @ [[]]"
      "\<forall>s \<in> set body. plain_seg s \<and> check_segment s = None"
      using Cons by auto
    moreover have "plain_seg seg" using check_segment_plain c(1) False Cons.prems(2) by simp
    ultimately show ?thesis using c(1) by (intro exI [of _ "seg # body"]) auto
  qed
qed

lemma canonical_path_shape:
  assumes "canonical_path p = Inr q"
  obtains body where
    "str_split slash (trim_prefix p ''/'') = body \<or> str_split slash (trim_prefix p ''/'') = body @ [[]]"
    "\<forall>s \<in> set body. plain_seg s \<and> check_segment s = None"
    "q = slash # str_join [slash] body"
proof -
  let ?segs = "str_split slash (trim_prefix p ''/'')"
  have "check_segs ?segs = None" and q: "q = path_clean (slash # trim_prefix p ''/'')"
    using assms by (auto simp: canonical_path_def split: option.splits)
  moreover have "\<forall>s \<in> set ?segs. slash \<notin> set s" using str_split_no_sep by blast
  ultimately obtain body where b: "?segs = body \<or> ?segs = body @ [[]]"
    and pl: "\<forall>s \<in> set body. plain_seg s \<and> check_segment s = None"
    using check_segs_shape by blast
  have "clean_segs True [] ?segs = body"
    using b pl clean_segs_plain [of body True "[]"] clean_segs_plain_trailing [of body True "[]"] by auto
  then have "q = slash # str_join [slash] body" using q by (simp add: path_clean_rooted)
  with b pl show ?thesis using that by blast
qed

lemma str_join_trailing:
  "body \<noteq> [] \<Longrightarrow> str_join [c] (body @ [[]]) = str_join [c] body @ [c]"
  by (induction "[c]" body rule: str_join.induct) auto

text \<open>
  The request path is the served path, up to a leading slash it may lack and a trailing slash it
  may carry.
\<close>

lemma canonical_path_spelling:
  assumes "canonical_path p = Inr q"
  shows "slash # trim_prefix p ''/'' = q \<or> slash # trim_prefix p ''/'' = q @ ''/''"
proof -
  obtain body where b: "str_split slash (trim_prefix p ''/'') = body \<or> str_split slash (trim_prefix p ''/'') = body @ [[]]"
    and q: "q = slash # str_join [slash] body"
    using canonical_path_shape [OF assms] .
  have j: "trim_prefix p ''/'' = str_join [slash] (str_split slash (trim_prefix p ''/''))" by simp
  from b show ?thesis
  proof
    assume "str_split slash (trim_prefix p ''/'') = body"
    then show ?thesis using q j by simp
  next
    assume e: "str_split slash (trim_prefix p ''/'') = body @ [[]]"
    show ?thesis
    proof (cases "body = []")
      case True
      then show ?thesis using q j e by simp
    next
      case False
      then show ?thesis using q j e str_join_trailing [of body slash] by simp
    qed
  qed
qed

lemma check_segs_plain: "\<forall>s \<in> set body. s \<noteq> [] \<and> check_segment s = None \<Longrightarrow> check_segs body = None"
  by (induction body) auto

lemma canonical_path_fixed:
  assumes "canonical_path p = Inr q"
  shows "canonical_path q = Inr q"
proof -
  obtain body where pl: "\<forall>s \<in> set body. plain_seg s \<and> check_segment s = None"
    and q: "q = slash # str_join [slash] body"
    using canonical_path_shape [OF assms] .
  have t: "trim_prefix q ''/'' = str_join [slash] body" by (simp add: q trim_prefix_def has_prefix_def)
  show ?thesis
  proof (cases "body = []")
    case True
    then show ?thesis using q by (simp add: canonical_path_def trim_prefix_def has_prefix_def path_clean_def)
  next
    case False
    have sp: "str_split slash (str_join [slash] body) = body"
      using pl False by (intro str_split_join) (auto simp: plain_seg_def)
    have "check_segs body = None" using pl check_segs_plain by (simp add: plain_seg_def)
    moreover have "clean_segs True [] body = body" using pl by (simp add: clean_segs_plain)
    ultimately have "canonical_path q = Inr (slash # str_join [slash] body)"
      by (simp only: canonical_path_def t sp path_clean_rooted option.case)
    then show ?thesis by (simp only: q)
  qed
qed

section \<open>Routing rules\<close>

type_synonym regex_engine = "string \<Rightarrow> (string \<Rightarrow> bool) option"
type_synonym matcher_cache = "string \<rightharpoonup> (string \<Rightarrow> bool)"

text \<open>\<open>compileMatcher\<close>: the compiled form and the cache after \<open>LoadOrStore\<close>.\<close>

definition compile_matcher ::
    "regex_engine \<Rightarrow> matcher_cache \<Rightarrow> string \<Rightarrow> (string \<Rightarrow> bool) option \<times> matcher_cache" where
  "compile_matcher rx cache pattern =
     (case cache pattern of
        Some re \<Rightarrow> (Some re, cache)
      | None \<Rightarrow>
          (case rx pattern of
             None \<Rightarrow> (None, cache)
           | Some re \<Rightarrow> (Some re, cache(pattern \<mapsto> re))))"

fun matches_any ::
    "regex_engine \<Rightarrow> matcher_cache \<Rightarrow> string list \<Rightarrow> string \<Rightarrow> bool \<times> matcher_cache" where
  "matches_any rx cache [] path = (False, cache)"
| "matches_any rx cache (m # ms) path =
     (case compile_matcher rx cache m of
        (None, cache') \<Rightarrow> matches_any rx cache' ms path
      | (Some re, cache') \<Rightarrow> if re path then (True, cache') else matches_any rx cache' ms path)"

definition allows ::
    "regex_engine \<Rightarrow> matcher_cache \<Rightarrow> routing_rule option \<Rightarrow> string \<Rightarrow> bool \<times> matcher_cache" where
  "allows rx cache r path =
     (case r of
        None \<Rightarrow> (True, cache)
      | Some r \<Rightarrow>
          (let (matched, cache') = matches_any rx cache (rule_matchers r) path
           in if rule_mode r = ''ALLOW'' then (matched, cache') else (\<not> matched, cache')))"

definition rule_allows ::
    "regex_engine \<Rightarrow> matcher_cache \<Rightarrow> routing_rule option \<Rightarrow> string \<Rightarrow> bool \<times> matcher_cache" where
  "rule_allows rx cache rule path =
     (case rule of
        None \<Rightarrow> (True, cache)
      | Some r \<Rightarrow>
          (case canonical_path path of
             Inl _ \<Rightarrow> (False, cache)
           | Inr served \<Rightarrow>
               (let (ok, cache1) = allows rx cache (Some r) path
                in if \<not> ok then (False, cache1)
                   else if rule_mode r = ''ALLOW'' then (True, cache1)
                   else allows rx cache1 (Some r) served)))"

text \<open>
  \<open>rules\<close> is the routing rule repository (\<^const>\<open>None\<close>: routing disabled); its lookup gives
  \<^const>\<open>None\<close> both for an error and for a missing rule, which the code treats alike.
\<close>

definition proxy_rule_allows ::
    "regex_engine \<Rightarrow> matcher_cache \<Rightarrow> (string \<Rightarrow> routing_rule option) option \<Rightarrow>
     repository option \<Rightarrow> string \<Rightarrow> string \<Rightarrow> bool \<times> matcher_cache" where
  "proxy_rule_allows rx cache rules repo method path =
     (case (rules, repo) of
        (Some get_rule, Some r) \<Rightarrow>
          (case repo_routing_rule_id r of
             None \<Rightarrow> (True, cache)
           | Some rid \<Rightarrow>
               if repo_kind r \<noteq> TypeProxy then (True, cache)
               else if method \<noteq> ''GET'' \<and> method \<noteq> ''HEAD'' then (True, cache)
               else (case get_rule rid of
                       None \<Rightarrow> (False, cache)
                     | Some rule \<Rightarrow> rule_allows rx cache (Some rule) path))
      | _ \<Rightarrow> (True, cache))"

subsection \<open>What a rule means, without the cache\<close>

definition rx_matches :: "regex_engine \<Rightarrow> string list \<Rightarrow> string \<Rightarrow> bool" where
  "rx_matches rx ms path \<longleftrightarrow> (\<exists>m \<in> set ms. case rx m of None \<Rightarrow> False | Some re \<Rightarrow> re path)"

definition rule_judges :: "regex_engine \<Rightarrow> routing_rule \<Rightarrow> string \<Rightarrow> bool" where
  "rule_judges rx r path =
     (case canonical_path path of
        Inl _ \<Rightarrow> False
      | Inr served \<Rightarrow>
          if rule_mode r = ''ALLOW'' then rx_matches rx (rule_matchers r) path
          else \<not> rx_matches rx (rule_matchers r) path \<and> \<not> rx_matches rx (rule_matchers r) served)"

text \<open>The cache holds only what its pattern compiles to.\<close>

definition cache_ok :: "regex_engine \<Rightarrow> matcher_cache \<Rightarrow> bool" where
  "cache_ok rx cache \<longleftrightarrow> (\<forall>p re. cache p = Some re \<longrightarrow> rx p = Some re)"

lemma compile_matcher_ok:
  "cache_ok rx cache \<Longrightarrow> compile_matcher rx cache p = (re, cache') \<Longrightarrow> re = rx p \<and> cache_ok rx cache'"
proof (cases "cache p")
  case None
  assume "cache_ok rx cache" "compile_matcher rx cache p = (re, cache')"
  with None show ?thesis
    by (cases "rx p") (auto simp: cache_ok_def compile_matcher_def split: if_splits)
next
  case (Some f)
  assume "cache_ok rx cache" "compile_matcher rx cache p = (re, cache')"
  moreover from this(1) Some have "rx p = Some f" by (simp add: cache_ok_def)
  ultimately show ?thesis using Some by (simp add: compile_matcher_def)
qed

lemma matches_any_ok:
  "cache_ok rx cache \<Longrightarrow> matches_any rx cache ms path = (b, cache') \<Longrightarrow>
     b = rx_matches rx ms path \<and> cache_ok rx cache'"
proof (induction ms arbitrary: cache b cache')
  case Nil
  then show ?case by (simp add: rx_matches_def)
next
  case (Cons m ms)
  obtain re c1 where c: "compile_matcher rx cache m = (re, c1)" by fastforce
  with compile_matcher_ok [OF Cons.prems(1) this] have re: "re = rx m" "cache_ok rx c1" by auto
  show ?case
  proof (cases re)
    case None
    then have "matches_any rx c1 ms path = (b, cache')" using Cons.prems(2) c by simp
    from Cons.IH [OF re(2) this] show ?thesis using None re(1) by (simp add: rx_matches_def)
  next
    case (Some f)
    show ?thesis
    proof (cases "f path")
      case True
      then show ?thesis using Some re c Cons.prems(2) by (simp add: rx_matches_def split: option.splits)
    next
      case False
      then have "matches_any rx c1 ms path = (b, cache')" using Some Cons.prems(2) c by simp
      from Cons.IH [OF re(2) this] show ?thesis using Some False re(1)
        by (simp add: rx_matches_def split: option.splits)
    qed
  qed
qed

lemma allows_ok:
  "cache_ok rx cache \<Longrightarrow> allows rx cache (Some r) path = (b, cache') \<Longrightarrow>
     b = (rx_matches rx (rule_matchers r) path = (rule_mode r = ''ALLOW'')) \<and> cache_ok rx cache'"
  unfolding allows_def using matches_any_ok by (fastforce simp: Let_def split: prod.splits if_splits)

lemma rule_allows_ok:
  assumes "cache_ok rx cache" and "rule_allows rx cache (Some r) path = (b, cache')"
  shows "b = rule_judges rx r path \<and> cache_ok rx cache'"
proof (cases "canonical_path path")
  case (Inl e)
  then show ?thesis using assms by (simp add: rule_allows_def rule_judges_def)
next
  case (Inr served)
  obtain ok c1 where a: "allows rx cache (Some r) path = (ok, c1)" by fastforce
  obtain ok2 c2 where a2: "allows rx c1 (Some r) served = (ok2, c2)" by fastforce
  from allows_ok [OF assms(1) a] allows_ok [OF _ a2] show ?thesis
    using assms(2) Inr a a2 by (auto simp: rule_allows_def rule_judges_def split: if_splits)
qed

section \<open>Properties\<close>

text \<open>
  C34: no segment of an accepted path is, or decodes in any number of percent-decodings to, a dot
  segment or a text with a slash; only the last segment may be empty, and the served path is the
  join of the others.
\<close>

theorem canonical_path_no_traversal:
  assumes "canonical_path p = Inr q"
  shows "\<exists>body. (str_split slash (trim_prefix p ''/'') = body \<or> str_split slash (trim_prefix p ''/'') = body @ [[]]) \<and>
           q = slash # str_join [slash] body \<and>
           (\<forall>s \<in> set body. s \<noteq> [] \<and> (\<forall>k. (decode_once ^^ k) s \<notin> {''.'', ''..''} \<and> slash \<notin> set ((decode_once ^^ k) s)))"
proof -
  obtain body where b: "str_split slash (trim_prefix p ''/'') = body \<or> str_split slash (trim_prefix p ''/'') = body @ [[]]"
    "\<forall>s \<in> set body. plain_seg s \<and> check_segment s = None" "q = slash # str_join [slash] body"
    using canonical_path_shape [OF assms] .
  have "(decode_once ^^ k) s \<notin> {''.'', ''..''} \<and> slash \<notin> set ((decode_once ^^ k) s)" if "s \<in> set body" for s k
    using b(2) that check_segment_n_decodings [of max_path_decodes s k]
    by (simp add: check_segment_def plain_seg_def)
  with b show ?thesis by (auto simp: plain_seg_def)
qed

theorem canonical_path_no_traversal_witness:
  "(\<exists>body. str_split slash ''a/b%20c/'' = body @ [[]] \<and> ''/a/b%20c'' = slash # str_join [slash] body) \<and>
   canonical_path ''/a/%252e%252e/c'' = Inl (DotSegment ''..'')"
proof -
  have h: "canonical_path ''/a/b%20c/'' = Inr ''/a/b%20c''" by code_simp
  have "canonical_path ''/a/%252e%252e/c'' = Inl (DotSegment ''..'')" by code_simp
  moreover have "trim_prefix ''/a/b%20c/'' ''/'' = ''a/b%20c/''" by code_simp
  ultimately show ?thesis using canonical_path_no_traversal [OF h] by auto
qed

text \<open>
  An artifact has one spelling: two accepted paths served as the same path agree up to a
  missing leading slash and a trailing one, and the served path is accepted and served as itself.
\<close>

theorem canonical_path_unique_spelling:
  assumes "canonical_path p = Inr q" and "canonical_path p' = Inr q"
  shows "canonical_path q = Inr q \<and>
         (slash # trim_prefix p ''/'' = slash # trim_prefix p' ''/'' \<or>
          slash # trim_prefix p ''/'' = slash # trim_prefix p' ''/'' @ ''/'' \<or>
          slash # trim_prefix p ''/'' @ ''/'' = slash # trim_prefix p' ''/'')"
proof -
  have "canonical_path q = Inr q" by (rule canonical_path_fixed [OF assms(1)])
  moreover define a b where "a = slash # trim_prefix p ''/''" and "b = slash # trim_prefix p' ''/''"
  moreover from this have "a = b \<or> a = b @ ''/'' \<or> a @ ''/'' = b"
    using canonical_path_spelling [OF assms(1)] canonical_path_spelling [OF assms(2)] by metis
  ultimately show ?thesis by simp
qed

theorem canonical_path_unique_spelling_witness:
  "canonical_path ''/simple/requests'' = Inr ''/simple/requests''"
proof -
  have h: "canonical_path ''simple/requests/'' = Inr ''/simple/requests''" by code_simp
  show ?thesis using canonical_path_unique_spelling [OF h h] by blast
qed

text \<open>
  C35: with a cache that holds only compiled patterns, a proxy's answer to a read is the rule's
  cache-free meaning, the cache stays coherent, a rule that cannot be loaded refuses every path, and
  a BLOCK rule lets a path through only when neither the requested nor the served spelling matches.
\<close>

theorem proxy_rule_enforced:
  assumes "cache_ok rx cache" and "repo_kind repo = TypeProxy" and "repo_routing_rule_id repo = Some rid"
    and "method = ''GET'' \<or> method = ''HEAD''"
    and "proxy_rule_allows rx cache (Some get_rule) (Some repo) method path = (ok, cache')"
  shows "ok = (case get_rule rid of None \<Rightarrow> False | Some rule \<Rightarrow> rule_judges rx rule path) \<and>
         cache_ok rx cache' \<and>
         (\<forall>rule served. ok \<and> get_rule rid = Some rule \<and> rule_mode rule \<noteq> ''ALLOW'' \<and> canonical_path path = Inr served \<longrightarrow>
            \<not> rx_matches rx (rule_matchers rule) path \<and> \<not> rx_matches rx (rule_matchers rule) served)"
proof -
  have m: "\<not> (method \<noteq> ''GET'' \<and> method \<noteq> ''HEAD'')" using assms(4) by blast
  show ?thesis
  proof (cases "get_rule rid")
    case None
    with assms(1-3,5) m show ?thesis by (simp add: proxy_rule_allows_def)
  next
    case (Some rule)
    with assms(2,3,5) m have "rule_allows rx cache (Some rule) path = (ok, cache')"
      by (simp add: proxy_rule_allows_def)
    from rule_allows_ok [OF assms(1) this] have "ok = rule_judges rx rule path" "cache_ok rx cache'" by auto
    with Some show ?thesis by (auto simp: rule_judges_def)
  qed
qed

definition example_rule :: routing_rule where
  "example_rule = \<lparr>rule_id = ''r1'', rule_name = ''no jars'', rule_description = [], rule_mode = ''BLOCK'',
     rule_matchers = [''jar'', ''(''], rule_created_at = 0, rule_updated_at = 0\<rparr>"

definition example_rx :: regex_engine where
  "example_rx p = (if p = ''('' then None else Some (\<lambda>s. has_suffix s p))"

definition example_proxy :: repository where
  "example_proxy = \<lparr>repo_id = ''1'', repo_name = ''central'', repo_fmt = FormatMaven2, repo_kind = TypeProxy,
     repo_blob_store_id = None, repo_online = True, repo_format_config = None, repo_http_config = None,
     repo_proxy_config = None, repo_cleanup_policy_ids = [], repo_quota_bytes = None,
     repo_routing_rule_id = Some ''r1'', repo_allow_anonymous = False, repo_description = [], repo_url = [],
     repo_created_at = 0, repo_updated_at = 0\<rparr>"

theorem proxy_rule_enforced_witness:
  "fst (proxy_rule_allows example_rx Map.empty (Some (\<lambda>_. Some example_rule)) (Some example_proxy) ''GET'' ''/lib.jar/'') = False \<and>
   fst (proxy_rule_allows example_rx Map.empty (Some (\<lambda>_. Some example_rule)) (Some example_proxy) ''GET'' ''/lib.pom'') = True"
proof -
  have h: "cache_ok example_rx Map.empty" "repo_kind example_proxy = TypeProxy" "repo_routing_rule_id example_proxy = Some ''r1''"
    "''GET'' = ''GET'' \<or> ''GET'' = ''HEAD''"
    by (simp_all add: cache_ok_def example_proxy_def)
  have j: "rule_judges example_rx example_rule ''/lib.jar/'' = False" "rule_judges example_rx example_rule ''/lib.pom'' = True"
    by (simp_all add: rule_judges_def, code_simp+)
  show ?thesis
    using proxy_rule_enforced [OF h prod.collapse [symmetric], of "\<lambda>_. Some example_rule" "''/lib.jar/''"]
      proxy_rule_enforced [OF h prod.collapse [symmetric], of "\<lambda>_. Some example_rule" "''/lib.pom''"] j
    by simp
qed

end
