(* ===== verification/Rbac.thy ===== *)
theory Rbac
  imports Domain Routing
begin

text \<open>
  Access decisions: the service of \<open>service/rbac_service.go\<close> and the request check of
  \<open>api/handlers/rbac_middleware.go\<close> with the token scopes of \<open>api/handlers/auth.go\<close>. The
  privilege table is the field \<open>svc_privileges\<close>: a user's rows, or \<^const>\<open>None\<close> for a failed query.
\<close>

record privilege =
  priv_actions :: "string list"
  priv_expression :: string

record rbac_service =
  svc_privileges :: "string \<Rightarrow> privilege list option"
  svc_anonymous_enabled :: bool

record docker_row =
  dr_component_id :: string
  dr_image_name :: string
  dr_version :: string
  dr_sample_path :: string
  dr_artifact_type :: string
  dr_predicate_type :: string

section \<open>The two clause shapes\<close>

text \<open>\<open>\s\<close> of the regular expressions.\<close>

definition re_space :: "char \<Rightarrow> bool" where
  "re_space c \<longleftrightarrow> c = CHR '' '' \<or> c = CHR 0x09 \<or> c = CHR 0x0A \<or> c = CHR 0x0C \<or> c = CHR 0x0D"

abbreviation dquote :: char where "dquote \<equiv> CHR 0x22"

definition quoted :: "string \<Rightarrow> (string \<times> string) option" where
  "quoted s =
     (case s of
        [] \<Rightarrow> None
      | c # cs \<Rightarrow>
          if c \<noteq> dquote then None
          else (case dropWhile (\<lambda>x. x \<noteq> dquote) cs of
                  [] \<Rightarrow> None
                | _ # rest \<Rightarrow> Some (takeWhile (\<lambda>x. x \<noteq> dquote) cs, rest)))"

text \<open>\<^verbatim>\<open>^repository\s*==\s*"([^"]*)"$\<close>: the captured value.\<close>

definition repo_clause :: "string \<Rightarrow> string option" where
  "repo_clause s =
     (if \<not> has_prefix s ''repository'' then None
      else let r = dropWhile re_space (drop 10 s)
           in if \<not> has_prefix r ''=='' then None
              else case quoted (dropWhile re_space (drop 2 r)) of
                     Some (v, []) \<Rightarrow> Some v
                   | _ \<Rightarrow> None)"

text \<open>\<^verbatim>\<open>^path\.startsWith\(\s*"([^"]*)"\s*\)$\<close>.\<close>

definition path_clause :: "string \<Rightarrow> string option" where
  "path_clause s =
     (if \<not> has_prefix s ''path.startsWith('' then None
      else case quoted (dropWhile re_space (drop 16 s)) of
             Some (v, rest) \<Rightarrow> if dropWhile re_space rest = '')'' then Some v else None
           | None \<Rightarrow> None)"

definition eval_repo_clause :: "string \<Rightarrow> string \<Rightarrow> bool" where
  "eval_repo_clause expr rname \<longleftrightarrow> repo_clause (trim_space expr) = Some rname"

definition eval_path_clause :: "string \<Rightarrow> string \<Rightarrow> bool" where
  "eval_path_clause expr path \<longleftrightarrow>
     (case path_clause (trim_space expr) of None \<Rightarrow> False | Some v \<Rightarrow> has_prefix path v)"

definition eval_cel :: "string \<Rightarrow> string \<Rightarrow> string \<Rightarrow> bool" where
  "eval_cel expr0 rname path =
     (let expr = trim_space expr0
      in case str_index expr '' && '' of
           Some idx \<Rightarrow> eval_repo_clause (trim_space (take idx expr)) rname \<and>
                       eval_path_clause (trim_space (drop (idx + 4) expr)) path
         | None \<Rightarrow>
             if has_prefix expr ''repository'' then eval_repo_clause expr rname
             else if has_prefix expr ''path'' then eval_path_clause expr path
             else False)"

definition eval_cel_repo_only :: "string \<Rightarrow> string \<Rightarrow> bool" where
  "eval_cel_repo_only expr0 rname =
     (let expr1 = trim_space expr0;
          expr = (case str_index expr1 '' && '' of
                    Some idx \<Rightarrow> trim_space (take idx expr1)
                  | None \<Rightarrow> expr1)
      in if has_prefix expr ''repository'' then eval_repo_clause expr rname
         else path_clause expr \<noteq> None)"

section \<open>Privileges\<close>

definition action_allowed :: "string list \<Rightarrow> string \<Rightarrow> bool" where
  "action_allowed allowed action \<longleftrightarrow> length allowed = 0 \<or> list_ex (\<lambda>a. a = action) allowed"

definition match_privileges :: "privilege list \<Rightarrow> string \<Rightarrow> string \<Rightarrow> string \<Rightarrow> bool" where
  "match_privileges privs rname path action =
     list_ex (\<lambda>p. action_allowed (priv_actions p) action \<and> eval_cel (priv_expression p) rname path) privs"

definition match_privileges_repo_only :: "privilege list \<Rightarrow> string \<Rightarrow> bool" where
  "match_privileges_repo_only privs rname =
     list_ex (\<lambda>p. action_allowed (priv_actions p) ''read'' \<and> eval_cel_repo_only (priv_expression p) rname) privs"

definition is_admin :: "string list \<Rightarrow> bool" where
  "is_admin roles = list_ex (\<lambda>r. r = ''nx-admin'') roles"

definition is_read_action :: "string \<Rightarrow> bool" where
  "is_read_action action \<longleftrightarrow> action = ''read'' \<or> action = ''browse''"

definition anonymous_allowed :: "rbac_service \<Rightarrow> bool \<Rightarrow> bool" where
  "anonymous_allowed s repo_allows \<longleftrightarrow> svc_anonymous_enabled s \<and> repo_allows"

section \<open>Sample paths of OCI repositories\<close>

text \<open>The loop that keeps the keyword with the greatest last index.\<close>

fun last_keyword :: "string \<Rightarrow> string list \<Rightarrow> (nat \<times> string) option \<Rightarrow> (nat \<times> string) option" where
  "last_keyword rest [] best = best"
| "last_keyword rest (kw # kws) best =
     last_keyword rest kws
       (case str_last_index rest kw of
          None \<Rightarrow> best
        | Some idx \<Rightarrow>
            (case best of
               None \<Rightarrow> Some (idx, kw)
             | Some (l, k) \<Rightarrow> if idx > l then Some (idx, kw) else Some (l, k)))"

definition asset_sample_path :: "string \<Rightarrow> string" where
  "asset_sample_path p =
     (let rest0 = trim_prefix p ''/v2/'';
          rest = (if rest0 \<noteq> p then slash # rest0 else rest0)
      in case last_keyword rest [''/manifests/'', ''/blobs/'', ''/tags/''] None of
           None \<Rightarrow> p
         | Some (l, kw) \<Rightarrow>
             if l > 0 then take l rest @ ''/''
             else if kw \<noteq> ''/tags/'' then
               (let inner = trim_prefix rest kw
                in case str_last_index inner ''/'' of
                     Some idx \<Rightarrow> if idx > 0 then ''/'' @ take idx inner @ ''/'' else p
                   | None \<Rightarrow> p)
             else p)"

section \<open>Decisions\<close>

text \<open>\<^const>\<open>None\<close> is the error of the privilege query.\<close>

definition can_access_repo ::
    "rbac_service \<Rightarrow> string \<Rightarrow> string list \<Rightarrow> repository \<Rightarrow> string \<Rightarrow> string \<Rightarrow> bool option" where
  "can_access_repo s user_id roles repo path action =
     (if is_admin roles then Some True
      else if anonymous_allowed s (repo_allow_anonymous repo) \<and> is_read_action action then Some True
      else if user_id = [] then Some False
      else case svc_privileges s user_id of
             None \<Rightarrow> None
           | Some privs \<Rightarrow>
               (let check_path = (if is_oci_registry (repo_fmt repo) then asset_sample_path path else path)
                in Some (match_privileges privs (repo_name repo) check_path action)))"

text \<open>The lenient load of the list filters: no user or a failed query reads as no privileges.\<close>

definition load_privileges :: "rbac_service \<Rightarrow> string \<Rightarrow> privilege list" where
  "load_privileges s user_id =
     (if user_id = [] then []
      else case svc_privileges s user_id of None \<Rightarrow> [] | Some ps \<Rightarrow> ps)"

definition filter_repos ::
    "rbac_service \<Rightarrow> string \<Rightarrow> string list \<Rightarrow> repository list \<Rightarrow> repository list" where
  "filter_repos s user_id roles repos =
     (if is_admin roles then repos
      else filter (\<lambda>repo. anonymous_allowed s (repo_allow_anonymous repo) \<or>
                          match_privileges_repo_only (load_privileges s user_id) (repo_name repo)) repos)"

definition filter_paths ::
    "rbac_service \<Rightarrow> string \<Rightarrow> string list \<Rightarrow> string \<Rightarrow> bool \<Rightarrow> string list \<Rightarrow> string list" where
  "filter_paths s user_id roles rname allow_anonymous paths =
     (if is_admin roles \<or> anonymous_allowed s allow_anonymous then paths
      else filter (\<lambda>p. match_privileges (load_privileges s user_id) rname p ''browse'') paths)"

text \<open>Rows grouped by image in order of first appearance: the \<open>byImage\<close> map and \<open>order\<close> slice.\<close>

fun group_rows :: "docker_row list \<Rightarrow> (string \<times> docker_row list) list \<Rightarrow> (string \<times> docker_row list) list" where
  "group_rows [] groups = groups"
| "group_rows (row # rows) groups =
     group_rows rows
       (case map_of groups (dr_image_name row) of
          None \<Rightarrow> groups @ [(dr_image_name row, [row])]
        | Some rs \<Rightarrow> AList.update (dr_image_name row) (rs @ [row]) groups)"

definition filter_docker_rows ::
    "rbac_service \<Rightarrow> string \<Rightarrow> string list \<Rightarrow> string \<Rightarrow> bool \<Rightarrow> docker_row list \<Rightarrow> docker_row list" where
  "filter_docker_rows s user_id roles rname allow_anonymous rows =
     (if is_admin roles \<or> anonymous_allowed s allow_anonymous then rows
      else concat (map snd
             (filter (\<lambda>(img, rs). list_ex (\<lambda>row.
                match_privileges (load_privileges s user_id) rname (asset_sample_path (dr_sample_path row)) ''browse'') rs)
              (group_rows rows []))))"

definition filter_oci_image_names ::
    "rbac_service \<Rightarrow> string \<Rightarrow> string list \<Rightarrow> repository \<Rightarrow> string list \<Rightarrow> string list" where
  "filter_oci_image_names s user_id roles repo names =
     (if is_admin roles \<or> anonymous_allowed s (repo_allow_anonymous repo) then names
      else if user_id = [] then []
      else case svc_privileges s user_id of
             None \<Rightarrow> []
           | Some privs \<Rightarrow> filter (\<lambda>n. match_privileges privs (repo_name repo) (''/'' @ n @ ''/'') ''browse'') names)"

text \<open>\<open>allow_anon\<close> is the map of repository name to its anonymous flag; a missing key reads false.\<close>

definition filter_components ::
    "rbac_service \<Rightarrow> string \<Rightarrow> string list \<Rightarrow> component list \<Rightarrow> (string \<rightharpoonup> bool) \<Rightarrow> component list" where
  "filter_components s user_id roles items allow_anon =
     (if is_admin roles then items
      else filter (\<lambda>c. anonymous_allowed s (allow_anon (comp_repository c) = Some True) \<or>
                       (user_id \<noteq> [] \<and>
                        match_privileges (load_privileges s user_id) (comp_repository c)
                          (''/'' @ comp_name c @ ''/'') ''browse'')) items)"

definition filter_assets ::
    "rbac_service \<Rightarrow> string \<Rightarrow> string list \<Rightarrow> asset list \<Rightarrow> (string \<rightharpoonup> bool) \<Rightarrow> asset list" where
  "filter_assets s user_id roles items allow_anon =
     (if is_admin roles then items
      else filter (\<lambda>a. anonymous_allowed s (allow_anon (asset_repository a) = Some True) \<or>
                       (user_id \<noteq> [] \<and>
                        match_privileges (load_privileges s user_id) (asset_repository a)
                          (asset_sample_path (asset_path a)) ''browse'')) items)"

section \<open>Token scopes and the request check\<close>

definition method_to_action :: "string \<Rightarrow> string" where
  "method_to_action m =
     (if m = ''PUT'' \<or> m = ''POST'' \<or> m = ''PATCH'' then ''write''
      else if m = ''DELETE'' then ''delete''
      else ''read'')"

definition scope_rank :: "string \<Rightarrow> nat" where
  "scope_rank sc =
     (if sc = ''read'' then 1 else if sc = ''write'' then 2 else if sc = ''delete'' then 3 else 0)"

definition scopes_allow :: "string list option \<Rightarrow> string \<Rightarrow> bool" where
  "scopes_allow token_scopes action =
     (case token_scopes of
        None \<Rightarrow> True
      | Some scopes \<Rightarrow>
          if length scopes = 0 then True
          else (let need = (if scope_rank action = 0 then scope_rank ''read'' else scope_rank action)
                in list_ex (\<lambda>sc. scope_rank (to_lower (trim_space sc)) \<ge> need) scopes))"

record http_request =
  rq_method :: string
  rq_url_path :: string
  rq_repo_name :: string
  rq_path_param :: string
  rq_docker_path_param :: string
  rq_user_id :: string
  rq_roles :: "string list"
  rq_token_scopes :: "string list option"

text \<open>What the middleware does: pass the request on, or answer with a status.\<close>

datatype mw_outcome = Next | Abort nat

definition deny_access :: "string \<Rightarrow> mw_outcome" where
  "deny_access user_id = (if user_id = [] then Abort 401 else Abort 403)"

definition request_path :: "http_request \<Rightarrow> string" where
  "request_path rq =
     (let p = (if rq_path_param rq = [] then rq_docker_path_param rq else rq_path_param rq)
      in if p = [] then ''/'' else p)"

text \<open>\<open>repo_get\<close> is \<open>repoRepo.Get\<close>: \<^const>\<open>None\<close> for an error or no such repository.\<close>

definition rbac_middleware ::
    "rbac_service \<Rightarrow> (string \<Rightarrow> repository option) \<Rightarrow> http_request \<Rightarrow> mw_outcome" where
  "rbac_middleware svc repo_get rq =
     (let path = request_path rq
      in case canonical_path path of
           Inl _ \<Rightarrow> Abort 400
         | Inr _ \<Rightarrow>
             (let action = method_to_action (rq_method rq)
              in if \<not> scopes_allow (rq_token_scopes rq) action then Abort 403
                 else case repo_get (rq_repo_name rq) of
                        None \<Rightarrow> deny_access (rq_user_id rq)
                      | Some repo \<Rightarrow>
                          (case can_access_repo svc (rq_user_id rq) (rq_roles rq) repo path action of
                             None \<Rightarrow> Abort 500
                           | Some ok0 \<Rightarrow>
                               (let ok = (if repo_fmt repo = FormatNPM \<and> path_clean path = ''/-/v1/search'' \<and> action = ''read''
                                          then filter_repos svc (rq_user_id rq) (rq_roles rq) [repo] \<noteq> []
                                          else ok0)
                                in if \<not> ok then deny_access (rq_user_id rq) else Next))))"

section \<open>The clause shapes against their grammar\<close>

definition spaces :: "string \<Rightarrow> bool" where
  "spaces w \<longleftrightarrow> (\<forall>c \<in> set w. re_space c)"

lemma dropWhile_spaces:
  "spaces w \<Longrightarrow> \<not> re_space c \<Longrightarrow> dropWhile re_space (w @ c # t) = c # t"
  by (simp add: spaces_def dropWhile_append2)

lemma dropWhile_spacesE:
  obtains w where "s = w @ dropWhile re_space s" and "spaces w"
proof
  show "s = takeWhile re_space s @ dropWhile re_space s" by simp
  show "spaces (takeWhile re_space s)" by (auto simp: spaces_def dest: set_takeWhileD)
qed

lemma quoted_Some:
  "quoted s = Some (v, rest) \<longleftrightarrow> s = dquote # v @ dquote # rest \<and> dquote \<notin> set v"
proof
  assume q: "quoted s = Some (v, rest)"
  then obtain c cs where c: "s = c # cs" by (cases s) (simp_all add: quoted_def)
  with q have s: "s = dquote # cs" by (simp add: quoted_def split: if_splits)
  define D where "D = dropWhile (\<lambda>x. x \<noteq> dquote) cs"
  define T where "T = takeWhile (\<lambda>x. x \<noteq> dquote) cs"
  have "quoted s = (case D of [] \<Rightarrow> None | _ # rest \<Rightarrow> Some (T, rest))"
    unfolding s quoted_def D_def T_def by simp
  with q obtain r where dD: "D = r # rest" and vT: "v = T" by (cases D) simp_all
  note d = dD [unfolded D_def] and v = vT [unfolded T_def]
  have "r = dquote" using hd_dropWhile [of "\<lambda>x. x \<noteq> dquote" cs] unfolding d by simp
  moreover have "cs = v @ r # rest" unfolding v d [symmetric] by (rule takeWhile_dropWhile_id [symmetric])
  moreover have "dquote \<notin> set v" unfolding v by (auto dest: set_takeWhileD)
  ultimately show "s = dquote # v @ dquote # rest \<and> dquote \<notin> set v" using s by simp
next
  assume a: "s = dquote # v @ dquote # rest \<and> dquote \<notin> set v"
  then have "\<forall>x \<in> set v. x \<noteq> dquote" by auto
  then show "quoted s = Some (v, rest)" using a
    by (simp add: quoted_def takeWhile_append2 dropWhile_append2)
qed

lemma repo_clause_iff:
  "repo_clause s = Some v \<longleftrightarrow>
     (\<exists>w1 w2. spaces w1 \<and> spaces w2 \<and> dquote \<notin> set v \<and>
        s = ''repository'' @ w1 @ ''=='' @ w2 @ [dquote] @ v @ [dquote])"
proof
  assume rc: "repo_clause s = Some v"
  then obtain r where s: "s = ''repository'' @ r"
    by (auto simp: repo_clause_def has_prefix_iff split: if_splits)
  with rc obtain t where t: "dropWhile re_space r = ''=='' @ t"
    and q: "quoted (dropWhile re_space t) = Some (v, [])"
    by (auto simp: repo_clause_def has_prefix_iff Let_def split: if_splits option.splits prod.splits list.splits)
  obtain w1 where w1: "r = w1 @ dropWhile re_space r" "spaces w1" by (rule dropWhile_spacesE)
  obtain w2 where w2: "t = w2 @ dropWhile re_space t" "spaces w2" by (rule dropWhile_spacesE)
  from q have "dropWhile re_space t = dquote # v @ [dquote]" "dquote \<notin> set v" by (auto simp: quoted_Some)
  with s t w1 w2 show "\<exists>w1 w2. spaces w1 \<and> spaces w2 \<and> dquote \<notin> set v \<and>
        s = ''repository'' @ w1 @ ''=='' @ w2 @ [dquote] @ v @ [dquote]" by force
next
  assume "\<exists>w1 w2. spaces w1 \<and> spaces w2 \<and> dquote \<notin> set v \<and>
        s = ''repository'' @ w1 @ ''=='' @ w2 @ [dquote] @ v @ [dquote]"
  then obtain w1 w2 where w: "spaces w1" "spaces w2" "dquote \<notin> set v"
    and s: "s = ''repository'' @ w1 @ ''=='' @ w2 @ [dquote] @ v @ [dquote]" by blast
  have e: "dropWhile re_space (w1 @ ''=='' @ w2 @ [dquote] @ v @ [dquote]) = ''=='' @ w2 @ [dquote] @ v @ [dquote]"
    using dropWhile_spaces [OF w(1), of "CHR ''=''"] by (simp add: re_space_def)
  have q: "dropWhile re_space (w2 @ [dquote] @ v @ [dquote]) = [dquote] @ v @ [dquote]"
    using dropWhile_spaces [OF w(2), of dquote] by (simp add: re_space_def)
  have "quoted ([dquote] @ v @ [dquote]) = Some (v, [])" using w(3) by (simp add: quoted_Some)
  with e q show "repo_clause s = Some v"
    by (simp add: s repo_clause_def has_prefix_def)
qed

lemma path_clause_iff:
  "path_clause s = Some v \<longleftrightarrow>
     (\<exists>w1 w2. spaces w1 \<and> spaces w2 \<and> dquote \<notin> set v \<and>
        s = ''path.startsWith('' @ w1 @ [dquote] @ v @ [dquote] @ w2 @ '')'')"
proof
  assume pc: "path_clause s = Some v"
  then obtain r where s: "s = ''path.startsWith('' @ r"
    by (auto simp: path_clause_def has_prefix_iff split: if_splits)
  with pc obtain rest where q: "quoted (dropWhile re_space r) = Some (v, rest)"
    and rest: "dropWhile re_space rest = '')''"
    by (auto simp: path_clause_def split: if_splits option.splits prod.splits)
  obtain w1 where w1: "r = w1 @ dropWhile re_space r" "spaces w1" by (rule dropWhile_spacesE)
  obtain w2 where w2: "rest = w2 @ dropWhile re_space rest" "spaces w2" by (rule dropWhile_spacesE)
  from q have "dropWhile re_space r = dquote # v @ dquote # rest" "dquote \<notin> set v" by (auto simp: quoted_Some)
  with s rest w1 w2 have "s = ''path.startsWith('' @ w1 @ [dquote] @ v @ [dquote] @ w2 @ '')''" by force
  then show "\<exists>w1 w2. spaces w1 \<and> spaces w2 \<and> dquote \<notin> set v \<and>
        s = ''path.startsWith('' @ w1 @ [dquote] @ v @ [dquote] @ w2 @ '')''"
    using w1(2) w2(2) \<open>dquote \<notin> set v\<close> by blast
next
  assume "\<exists>w1 w2. spaces w1 \<and> spaces w2 \<and> dquote \<notin> set v \<and>
        s = ''path.startsWith('' @ w1 @ [dquote] @ v @ [dquote] @ w2 @ '')''"
  then obtain w1 w2 where w: "spaces w1" "spaces w2" "dquote \<notin> set v"
    and s: "s = ''path.startsWith('' @ w1 @ [dquote] @ v @ [dquote] @ w2 @ '')''" by blast
  have q: "dropWhile re_space (w1 @ [dquote] @ v @ [dquote] @ w2 @ '')'') = dquote # v @ dquote # w2 @ '')''"
    using dropWhile_spaces [OF w(1), of dquote] by (simp add: re_space_def)
  have r: "dropWhile re_space (w2 @ '')'') = '')''"
    using dropWhile_spaces [OF w(2), of "CHR '')''" "[]"] by (simp add: re_space_def)
  have "quoted (dquote # v @ dquote # w2 @ '')'') = Some (v, w2 @ '')'')" using w(3) by (simp add: quoted_Some)
  with q r show "path_clause s = Some v"
    by (simp add: s path_clause_def has_prefix_def)
qed

lemma repo_clause_not_path: "repo_clause s = Some v \<Longrightarrow> has_prefix s ''repository'' \<and> \<not> has_prefix s ''path''"
  by (auto simp: repo_clause_def has_prefix_iff split: if_splits)

lemma path_clause_not_repo: "path_clause s = Some v \<Longrightarrow> has_prefix s ''path'' \<and> \<not> has_prefix s ''repository''"
  by (auto simp: path_clause_def has_prefix_iff split: if_splits)

text \<open>
  The evaluator grants exactly the two positive clause shapes and their conjunction: any other
  operator, order or nesting is denied.
\<close>

lemma eval_cel_iff:
  "eval_cel e r p \<longleftrightarrow>
     (case str_index (trim_space e) '' && '' of
        None \<Rightarrow> repo_clause (trim_space e) = Some r \<or>
                (\<exists>v. path_clause (trim_space e) = Some v \<and> has_prefix p v)
      | Some i \<Rightarrow> repo_clause (trim_space (take i (trim_space e))) = Some r \<and>
                  (\<exists>v. path_clause (trim_space (drop (i + 4) (trim_space e))) = Some v \<and> has_prefix p v))"
  using repo_clause_not_path [of "trim_space e"] path_clause_not_repo [of "trim_space e"]
  by (auto simp: eval_cel_def Let_def eval_repo_clause_def eval_path_clause_def split: option.splits)

section \<open>Grouping of docker rows\<close>

abbreviation rows_of :: "string \<Rightarrow> docker_row list \<Rightarrow> docker_row list" where
  "rows_of img \<equiv> filter (\<lambda>row. dr_image_name row = img)"

lemma group_rows_distinct: "distinct (map fst groups) \<Longrightarrow> distinct (map fst (group_rows rows groups))"
proof (induction rows arbitrary: groups)
  case (Cons row rows)
  have "distinct (map fst (case map_of groups (dr_image_name row) of
          None \<Rightarrow> groups @ [(dr_image_name row, [row])]
        | Some rs \<Rightarrow> AList.update (dr_image_name row) (rs @ [row]) groups))"
    using Cons.prems
    by (auto split: option.splits simp: map_of_eq_None_iff distinct_update)
  then show ?case using Cons.IH by simp
qed simp

lemma group_rows_lookup:
  "map_of (group_rows rows groups) i =
     (case map_of groups i of
        Some rs \<Rightarrow> Some (rs @ rows_of i rows)
      | None \<Rightarrow> if rows_of i rows = [] then None else Some (rows_of i rows))"
proof (induction rows arbitrary: groups)
  case Nil
  then show ?case by (simp split: option.splits)
next
  case (Cons row rows)
  show ?case
  proof (cases "map_of groups (dr_image_name row)")
    case None
    then show ?thesis
      by (cases "map_of groups i") (auto simp add: Cons.IH map_add_def)
  next
    case (Some rs)
    then show ?thesis
      by (cases "map_of groups i") (auto simp add: Cons.IH update_conv')
  qed
qed

lemma rows_of_concat:
  assumes "distinct (map fst gs)" and "\<forall>(k, rs) \<in> set gs. \<forall>row \<in> set rs. dr_image_name row = k"
  shows "rows_of i (concat (map snd gs)) = (case map_of gs i of None \<Rightarrow> [] | Some rs \<Rightarrow> rs)"
  using assms
proof (induction gs)
  case Nil
  then show ?case by simp
next
  case (Cons g gs)
  obtain k rs where g: "g = (k, rs)" by fastforce
  show ?case
  proof (cases "k = i")
    case True
    then have "map_of gs i = None" using Cons.prems(1) g by (auto simp: map_of_eq_None_iff)
    moreover have "rows_of i rs = rs" using Cons.prems(2) g True by (auto simp: filter_id_conv)
    ultimately show ?thesis using Cons g True by simp
  next
    case False
    then have "rows_of i rs = []" using Cons.prems(2) g by (auto simp: filter_empty_conv)
    then show ?thesis using Cons g False by simp
  qed
qed

lemma group_rows_pure:
  "(k, rs) \<in> set (group_rows rows []) \<Longrightarrow> rs = rows_of k rows \<and> rs \<noteq> []"
  using group_rows_distinct [of "[]" rows] group_rows_lookup [of rows "[]" k]
  by (auto dest!: map_of_is_SomeI split: if_splits)

lemma map_of_filter_distinct:
  "distinct (map fst gs) \<Longrightarrow>
   map_of (filter P gs) k = (case map_of gs k of Some v \<Rightarrow> if P (k, v) then Some v else None | None \<Rightarrow> None)"
proof (induction gs)
  case (Cons g gs)
  obtain k' v' where g: "g = (k', v')" by fastforce
  have n: "map_of gs k' = None" using Cons.prems g by (auto simp: map_of_eq_None_iff)
  show ?case using Cons g n by (auto split: option.splits)
qed simp

lemma filter_docker_rows_image:
  assumes "\<not> is_admin roles" and "\<not> anonymous_allowed s anon"
  shows "rows_of i (filter_docker_rows s u roles rname anon rows) =
    (if list_ex (\<lambda>row. match_privileges (load_privileges s u) rname (asset_sample_path (dr_sample_path row)) ''browse'') (rows_of i rows)
     then rows_of i rows else [])"
proof -
  let ?P = "\<lambda>rs. list_ex (\<lambda>row. match_privileges (load_privileges s u) rname (asset_sample_path (dr_sample_path row)) ''browse'') rs"
  let ?G = "group_rows rows []"
  let ?F = "filter (\<lambda>(img, rs). ?P rs) ?G"
  have d: "distinct (map fst ?G)" using group_rows_distinct [of "[]" rows] by simp
  then have dF: "distinct (map fst ?F)" by (rule distinct_map_filter)
  have own: "\<forall>(k, rs) \<in> set ?F. \<forall>row \<in> set rs. dr_image_name row = k"
    using group_rows_pure by fastforce
  have "filter_docker_rows s u roles rname anon rows = concat (map snd ?F)"
    using assms by (simp add: filter_docker_rows_def)
  then have "rows_of i (filter_docker_rows s u roles rname anon rows)
      = (case map_of ?F i of None \<Rightarrow> [] | Some rs \<Rightarrow> rs)"
    using rows_of_concat [OF dF own] by simp
  also have "\<dots> = (if ?P (rows_of i rows) then rows_of i rows else [])"
    using group_rows_lookup [of rows "[]" i] by (auto simp: map_of_filter_distinct [OF d])
  finally show ?thesis .
qed

section \<open>Sample paths: the live and the stored shape agree\<close>

definition oci_keywords :: "string list" where
  "oci_keywords = [''/manifests/'', ''/blobs/'', ''/tags/'']"

lemma keyword_shape:
  assumes "kw \<in> set oci_keywords"
  obtains w where "kw = slash # w @ [slash]" and "slash \<notin> set w"
proof -
  have "\<forall>k \<in> set oci_keywords. k = slash # butlast (tl k) @ [slash] \<and> slash \<notin> set (butlast (tl k))"
    by (simp add: oci_keywords_def)
  with assms that show ?thesis by blast
qed

lemma slash_positions:
  assumes "slash \<notin> set w" and "slash \<notin> set ref"
    and "length a \<le> j" and "j < length (a @ slash # w @ slash # ref)"
    and "(a @ slash # w @ slash # ref) ! j = slash"
  shows "j = length a \<or> j = length a + length w + 1"
proof -
  define k where "k = j - length a"
  have at: "(slash # w @ slash # ref) ! k = slash" "k < length (slash # w @ slash # ref)"
    using assms(3-5) by (auto simp: k_def nth_append)
  consider "k = 0" | "0 < k" "k < length w + 1" | "k = length w + 1" | "length w + 1 < k" by linarith
  then have "k = 0 \<or> k = length w + 1"
  proof cases
    case 2
    then have "k - 1 < length w" by simp
    moreover from this have "w ! (k - 1) = slash" using at(1) 2 by (simp add: nth_Cons' nth_append)
    ultimately have "slash \<in> set w" using nth_mem [of "k - 1" w] by simp
    then show ?thesis using assms(1) by simp
  next
    case 4
    then obtain m where "k = Suc (length w + 1 + m)" unfolding less_iff_Suc_add by blast
    then have m: "k = Suc (length w + Suc m)" by simp
    have "ref ! m = slash" "m < length ref" using at m by (simp_all add: nth_append)
    then have "slash \<in> set ref" using nth_mem [of m ref] by simp
    then show ?thesis using assms(2) by simp
  qed simp_all
  then show ?thesis using assms(3) by (auto simp: k_def)
qed

text \<open>Behind the last slash of a keyword and a reference without slashes no keyword can start.\<close>

lemma last_index_le:
  assumes kw: "kw \<in> set oci_keywords" and kw': "kw' \<in> set oci_keywords"
    and ref: "slash \<notin> set ref" and last: "str_last_index (a @ kw @ ref) kw' = Some i"
  shows "i \<le> length a"
proof (rule ccontr)
  assume "\<not> i \<le> length a"
  then have gt: "length a < i" by simp
  obtain w where w: "kw = slash # w @ [slash]" "slash \<notin> set w" using keyword_shape [OF kw] .
  obtain v where v: "kw' = slash # v @ [slash]" "slash \<notin> set v" using keyword_shape [OF kw'] .
  define s where "s = a @ slash # w @ slash # ref"
  obtain t where t: "drop i s = slash # v @ slash # t"
    using str_last_index_Some [OF last] by (auto simp: w(1) v(1) s_def)
  have le: "i \<le> length s" using t by (cases "i \<le> length s") simp_all
  have "length (drop i s) = length v + 2 + length t" by (simp add: t)
  then have len: "length s = i + (length v + 2 + length t)" using le by simp
  have s0: "s ! i = slash" using nth_drop [OF le, of 0] by (simp add: t)
  have s1: "s ! (i + (length v + 1)) = slash"
    using nth_drop [OF le, of "length v + 1"] by (simp add: t nth_append)
  have "i = length a + length w + 1"
    using slash_positions [OF w(2) ref, of a i] gt s0 len unfolding s_def by linarith
  moreover have "i + (length v + 1) = length a \<or> i + (length v + 1) = length a + length w + 1"
    using slash_positions [OF w(2) ref, of a "i + (length v + 1)"] gt s1 len unfolding s_def by linarith
  ultimately show False by simp
qed

lemma last_keyword_fst:
  assumes "\<forall>kw \<in> set kws. \<forall>i. str_last_index rest kw = Some i \<longrightarrow> i \<le> n"
    and "\<forall>l k. best = Some (l, k) \<longrightarrow> l \<le> n"
    and "(\<exists>k. best = Some (n, k)) \<or> (\<exists>kw \<in> set kws. str_last_index rest kw = Some n)"
  shows "\<exists>k. last_keyword rest kws best = Some (n, k)"
  using assms
proof (induction kws arbitrary: best)
  case Nil
  then show ?case by simp
next
  case (Cons kw kws)
  let ?b = "case str_last_index rest kw of None \<Rightarrow> best
        | Some idx \<Rightarrow> (case best of None \<Rightarrow> Some (idx, kw)
             | Some (l, k) \<Rightarrow> if idx > l then Some (idx, kw) else Some (l, k))"
  have le: "\<forall>l k. ?b = Some (l, k) \<longrightarrow> l \<le> n"
    using Cons.prems(1,2) by (auto split: option.splits if_splits)
  have "(\<exists>k. ?b = Some (n, k)) \<or> (\<exists>kw \<in> set kws. str_last_index rest kw = Some n)"
    using Cons.prems by (fastforce split: option.splits if_splits)
  then show ?case using Cons.IH [OF _ le] Cons.prems(1) by simp
qed

lemma last_keyword_live:
  assumes kw: "kw \<in> set oci_keywords" and ref: "slash \<notin> set ref"
  shows "\<exists>k. last_keyword (a @ kw @ ref) [''/manifests/'', ''/blobs/'', ''/tags/''] None = Some (length a, k)"
proof -
  have up: "\<forall>k \<in> set oci_keywords. \<forall>i. str_last_index (a @ kw @ ref) k = Some i \<longrightarrow> i \<le> length a"
    using last_index_le [OF kw _ ref] by blast
  obtain i where "length a \<le> i" "str_last_index (a @ kw @ ref) kw = Some i"
    using str_last_index_greatest [of "length a" "a @ kw @ ref" kw] by auto
  with up kw have "str_last_index (a @ kw @ ref) kw = Some (length a)" by fastforce
  with kw have ex: "\<exists>k \<in> set oci_keywords. str_last_index (a @ kw @ ref) k = Some (length a)" by blast
  show ?thesis
    using last_keyword_fst [of oci_keywords "a @ kw @ ref" "length a" None] up ex
    by (simp add: oci_keywords_def)
qed

lemma sample_path_live:
  assumes "kw \<in> set oci_keywords" and "slash \<notin> set ref" and "a \<noteq> []"
    and "\<not> has_prefix (a @ kw @ ref) ''/v2/''"
  shows "asset_sample_path (a @ kw @ ref) = a @ ''/''"
proof -
  have "trim_prefix (a @ kw @ ref) ''/v2/'' = a @ kw @ ref" using assms(4) by (simp add: trim_prefix_def)
  moreover obtain k where "last_keyword (a @ kw @ ref) [''/manifests/'', ''/blobs/'', ''/tags/''] None = Some (length a, k)"
    using last_keyword_live [OF assms(1,2)] by blast
  ultimately show ?thesis using assms(3) by (simp add: asset_sample_path_def)
qed

lemma sample_path_live_v2:
  assumes "kw \<in> set oci_keywords" and "slash \<notin> set ref"
  shows "asset_sample_path (''/v2/'' @ a @ kw @ ref) = ''/'' @ a @ ''/''"
proof -
  have "trim_prefix (''/v2/'' @ a @ kw @ ref) ''/v2/'' = a @ kw @ ref" by (rule trim_prefix_append)
  moreover have "a @ kw @ ref \<noteq> ''/v2/'' @ a @ kw @ ref" by (metis append_self_conv2 list.distinct(1))
  moreover obtain k where "last_keyword ((slash # a) @ kw @ ref) [''/manifests/'', ''/blobs/'', ''/tags/''] None = Some (length (slash # a), k)"
    using last_keyword_live [OF assms, of "slash # a"] by blast
  ultimately show ?thesis by (simp add: asset_sample_path_def Let_def)
qed

lemma sample_path_stored:
  assumes kw: "kw = ''/manifests/'' \<or> kw = ''/blobs/''" and ref: "slash \<notin> set ref" and imgne: "img \<noteq> []"
    and free: "\<forall>k \<in> set oci_keywords. str_index (''/'' @ img @ ''/'' @ ref) k = None"
  shows "asset_sample_path (kw @ img @ ''/'' @ ref) = ''/'' @ img @ ''/''"
proof -
  let ?p = "kw @ img @ ''/'' @ ref"
  have kwin: "kw \<in> set oci_keywords" using kw by (auto simp: oci_keywords_def)
  obtain w where w: "kw = slash # w @ [slash]" "slash \<notin> set w" using keyword_shape [OF kwin] .
  have none: "\<not> has_prefix (drop j (''/'' @ img @ ''/'' @ ref)) k"
    if "k \<in> set oci_keywords" "j \<le> length (''/'' @ img @ ''/'' @ ref)" for j k
    using str_index_first [OF _ that(2), of k] free that(1) by auto
  have zero: "i = 0" if k: "k \<in> set oci_keywords" and i: "str_last_index ?p k = Some i" for k i
  proof (rule ccontr)
    assume "i \<noteq> 0"
    obtain t where t: "drop i ?p = k @ t" using str_last_index_Some [OF i] by blast
    obtain v where v: "k = slash # v @ [slash]" using keyword_shape [OF k] by blast
    show False
    proof (cases "i \<le> length w")
      case True
      then obtain m where m: "i = Suc m" "m < length w" using \<open>i \<noteq> 0\<close> by (cases i) auto
      then have "drop i ?p = drop m w @ slash # img @ ''/'' @ ref" by (simp add: w(1))
      then have "hd (drop m w) = slash" using t v m(2) by (metis append_Cons drop_eq_Nil hd_append linorder_not_less list.sel(1))
      then show False using w(2) m(2) by (metis hd_drop_conv_nth nth_mem)
    next
      case False
      then obtain j where j: "i = Suc (length w + j)" by (metis less_iff_Suc_add linorder_not_le)
      then have d: "drop i ?p = drop j (''/'' @ img @ ''/'' @ ref)" by (simp add: w(1))
      moreover have "j \<le> length (''/'' @ img @ ''/'' @ ref)"
        using t d v by (cases "j \<le> length (''/'' @ img @ ''/'' @ ref)") simp_all
      moreover have "has_prefix (drop i ?p) k" unfolding t by simp
      ultimately show False using none [OF k, of j] by (simp only:)
    qed
  qed
  have has: "str_last_index ?p kw = Some 0"
    using str_last_index_greatest [of 0 ?p kw] zero [OF kwin] by auto
  have rest: "trim_prefix ?p ''/v2/'' = ?p" using kw by (auto simp: trim_prefix_def has_prefix_def)
  have "\<exists>k. last_keyword ?p oci_keywords None = Some (0, k)"
    using zero has kwin by (intro last_keyword_fst) auto
  have others: "k = kw" if "k \<in> set oci_keywords" "str_last_index ?p k = Some 0" for k
  proof -
    have "has_prefix ?p k" using str_last_index_Some [OF that(2)] by (auto simp: has_prefix_iff)
    then show ?thesis using kw that(1) by (auto simp: oci_keywords_def has_prefix_def)
  qed
  have lk: "last_keyword ?p [''/manifests/'', ''/blobs/'', ''/tags/''] None = Some (0, kw)"
  proof -
    have m: "str_last_index ?p k = (if k = kw then Some 0 else None)" if "k \<in> set oci_keywords" for k
      using has zero [OF that] others [OF that] by (cases "str_last_index ?p k") auto
    show ?thesis using kw m [of "''/manifests/''"] m [of "''/blobs/''"] m [of "''/tags/''"]
      by (auto simp: oci_keywords_def)
  qed
  have "str_last_index (img @ ''/'' @ ref) ''/'' = Some (length img)"
    using str_last_index_char [OF ref, of img] by simp
  then have inner: "str_last_index (trim_prefix ?p kw) ''/'' = Some (length img)"
    "trim_prefix ?p kw = img @ ''/'' @ ref" by simp_all
  have "kw \<noteq> ''/tags/''" using kw by auto
  then show ?thesis unfolding asset_sample_path_def Let_def rest using lk inner imgne by simp
qed

section \<open>Lemmas on decisions\<close>

lemma match_privileges_iff:
  "match_privileges ps r p a \<longleftrightarrow> (\<exists>q \<in> set ps. action_allowed (priv_actions q) a \<and> eval_cel (priv_expression q) r p)"
  by (simp add: match_privileges_def list_ex_iff)

lemma can_access_cases:
  "can_access_repo s u roles repo path action = Some True \<longleftrightarrow>
     is_admin roles \<or>
     (svc_anonymous_enabled s \<and> repo_allow_anonymous repo \<and> is_read_action action) \<or>
     (u \<noteq> [] \<and> (\<exists>ps. svc_privileges s u = Some ps \<and>
        match_privileges ps (repo_name repo)
          (if is_oci_registry (repo_fmt repo) then asset_sample_path path else path) action))"
  by (auto simp: can_access_repo_def anonymous_allowed_def Let_def split: option.splits)

lemma load_privileges_empty [simp]: "load_privileges s [] = []"
  by (simp add: load_privileges_def)

lemma match_privileges_Nil [simp]: "\<not> match_privileges [] r p a"
  by (simp add: match_privileges_iff)

lemma filter_repos_single: "filter_repos s u roles [r] \<noteq> [] \<longleftrightarrow> filter_repos s u roles [r] = [r]"
  by (simp add: filter_repos_def)

lemma mw_next_cases:
  assumes "rbac_middleware svc repo_get rq = Next"
  shows "(\<exists>served. canonical_path (request_path rq) = Inr served) \<and>
           scopes_allow (rq_token_scopes rq) (method_to_action (rq_method rq)) \<and>
           (\<exists>repo. repo_get (rq_repo_name rq) = Some repo \<and>
              (can_access_repo svc (rq_user_id rq) (rq_roles rq) repo (request_path rq)
                 (method_to_action (rq_method rq)) = Some True \<or>
               (repo_fmt repo = FormatNPM \<and> path_clean (request_path rq) = ''/-/v1/search'' \<and>
                method_to_action (rq_method rq) = ''read'' \<and>
                filter_repos svc (rq_user_id rq) (rq_roles rq) [repo] = [repo])))"
proof -
  obtain served where c: "canonical_path (request_path rq) = Inr served"
    using assms by (cases "canonical_path (request_path rq)") (simp_all add: rbac_middleware_def)
  have sc: "scopes_allow (rq_token_scopes rq) (method_to_action (rq_method rq))"
    using assms c by (simp add: rbac_middleware_def Let_def split: if_splits)
  obtain repo where r: "repo_get (rq_repo_name rq) = Some repo"
    using assms c sc
    by (cases "repo_get (rq_repo_name rq)") (simp_all add: rbac_middleware_def deny_access_def split: if_splits)
  obtain ok where ok: "can_access_repo svc (rq_user_id rq) (rq_roles rq) repo (request_path rq) (method_to_action (rq_method rq)) = Some ok"
    using assms c sc r
    by (cases "can_access_repo svc (rq_user_id rq) (rq_roles rq) repo (request_path rq) (method_to_action (rq_method rq))")
      (simp_all add: rbac_middleware_def)
  have "(if repo_fmt repo = FormatNPM \<and> path_clean (request_path rq) = ''/-/v1/search'' \<and> method_to_action (rq_method rq) = ''read''
         then filter_repos svc (rq_user_id rq) (rq_roles rq) [repo] \<noteq> [] else ok)"
    using assms c sc r ok
    by (simp add: rbac_middleware_def deny_access_def Let_def del: if_split split: if_split_asm)
  then show ?thesis using c sc r ok unfolding filter_repos_single by (metis (full_types))
qed

lemma mw_deny_cases:
  "(rbac_middleware svc repo_get rq = Abort 401 \<longrightarrow> rq_user_id rq = []) \<and>
   rbac_middleware svc repo_get rq \<in> {Next, Abort 400, Abort 401, Abort 403, Abort 500}"
  unfolding rbac_middleware_def deny_access_def Let_def by (simp split: sum.split option.split)

section \<open>Properties\<close>

text \<open>
  C32: the expression evaluator grants exactly what the two clause expressions and their conjunction
  capture: a text of any other shape, such as a negated operator, grants nothing.
\<close>

theorem eval_cel_grants_exactly:
  "eval_cel e r p \<longleftrightarrow>
     (case str_index (trim_space e) '' && '' of
        None \<Rightarrow>
          (\<exists>w1 w2. spaces w1 \<and> spaces w2 \<and> dquote \<notin> set r \<and>
             trim_space e = ''repository'' @ w1 @ ''=='' @ w2 @ [dquote] @ r @ [dquote]) \<or>
          (\<exists>v w1 w2. spaces w1 \<and> spaces w2 \<and> dquote \<notin> set v \<and> has_prefix p v \<and>
             trim_space e = ''path.startsWith('' @ w1 @ [dquote] @ v @ [dquote] @ w2 @ '')'')
      | Some i \<Rightarrow>
          (\<exists>w1 w2. spaces w1 \<and> spaces w2 \<and> dquote \<notin> set r \<and>
             trim_space (take i (trim_space e)) = ''repository'' @ w1 @ ''=='' @ w2 @ [dquote] @ r @ [dquote]) \<and>
          (\<exists>v w1 w2. spaces w1 \<and> spaces w2 \<and> dquote \<notin> set v \<and> has_prefix p v \<and>
             trim_space (drop (i + 4) (trim_space e)) = ''path.startsWith('' @ w1 @ [dquote] @ v @ [dquote] @ w2 @ '')''))"
  unfolding eval_cel_iff repo_clause_iff path_clause_iff by (simp split: option.split) blast

text \<open>
  C1: a request is let through to a repository only for an administrator, for a read of a
  repository open to anonymous readers on an instance that allows them, or for a user with a
  privilege whose actions and expression both match; in particular nobody without a user id and
  without the administrator role may write or delete.
\<close>

theorem access_is_justified:
  assumes "can_access_repo s u roles repo path action = Some True"
  shows "is_admin roles \<or>
         (svc_anonymous_enabled s \<and> repo_allow_anonymous repo \<and> (action = ''read'' \<or> action = ''browse'')) \<or>
         (u \<noteq> [] \<and> (\<exists>ps q. svc_privileges s u = Some ps \<and> q \<in> set ps \<and>
            (priv_actions q = [] \<or> action \<in> set (priv_actions q)) \<and>
            eval_cel (priv_expression q) (repo_name repo)
              (if is_oci_registry (repo_fmt repo) then asset_sample_path path else path)))"
  using assms unfolding can_access_cases match_privileges_iff is_read_action_def action_allowed_def list_ex_iff
  by auto

definition example_hosted :: repository where
  "example_hosted = \<lparr>repo_id = ''2'', repo_name = ''releases'', repo_fmt = FormatMaven2, repo_kind = TypeHosted,
     repo_blob_store_id = None, repo_online = True, repo_format_config = None, repo_http_config = None,
     repo_proxy_config = None, repo_cleanup_policy_ids = [], repo_quota_bytes = None,
     repo_routing_rule_id = None, repo_allow_anonymous = False, repo_description = [], repo_url = [],
     repo_created_at = 0, repo_updated_at = 0\<rparr>"

definition example_priv :: privilege where
  "example_priv = \<lparr>priv_actions = [''write''], priv_expression = ''repository == '' @ [dquote] @ ''releases'' @ [dquote]\<rparr>"

definition example_svc :: rbac_service where
  "example_svc = \<lparr>svc_privileges = (\<lambda>u. if u = ''u1'' then Some [example_priv] else Some []), svc_anonymous_enabled = True\<rparr>"

theorem access_is_justified_witness:
  "eval_cel (priv_expression example_priv) ''releases'' ''/a'' \<and>
   can_access_repo example_svc [] [] example_hosted ''/a'' ''write'' = Some False"
proof -
  have h: "can_access_repo example_svc ''u1'' [] example_hosted ''/a'' ''write'' = Some True" by code_simp
  have "can_access_repo example_svc [] [] example_hosted ''/a'' ''write'' = Some False" by code_simp
  moreover have "\<not> is_admin []" by (simp add: is_admin_def)
  ultimately show ?thesis
    using access_is_justified [OF h]
    by (simp add: example_svc_def example_hosted_def is_oci_registry_def)
qed

text \<open>
  A pull by tag or digest and the stored asset row of the same manifest or blob are judged
  against the same path, the image name between slashes, whenever the image name hides no protocol
  keyword in the stored path.
\<close>

theorem sample_paths_agree:
  assumes "kw = ''/manifests/'' \<or> kw = ''/blobs/''" and "slash \<notin> set ref" and "img \<noteq> []"
    and "\<forall>k \<in> set oci_keywords. str_index (''/'' @ img @ ''/'' @ ref) k = None"
    and "\<not> has_prefix (''/'' @ img) ''/v2/''" and "img \<noteq> ''v2''"
  shows "asset_sample_path (''/'' @ img @ kw @ ref) = ''/'' @ img @ ''/'' \<and>
         asset_sample_path (''/v2/'' @ img @ kw @ ref) = ''/'' @ img @ ''/'' \<and>
         asset_sample_path (kw @ img @ ''/'' @ ref) = ''/'' @ img @ ''/''"
proof -
  have kw: "kw \<in> set oci_keywords" using assms(1) by (auto simp: oci_keywords_def)
  have "\<not> has_prefix ((''/'' @ img) @ kw @ ref) ''/v2/''"
  proof
    assume "has_prefix ((''/'' @ img) @ kw @ ref) ''/v2/''"
    then have p: "has_prefix (img @ kw @ ref) ''v2/''" by (simp add: go_str)
    show False
    proof (cases img rule: list.exhaust [case_names Nil Cons])
      case Nil
      then show False using assms(3) by simp
    next
      case (Cons a as)
      show False
      proof (cases as)
        case Nil
        then show False using p Cons assms(1) by (auto simp: go_str)
      next
        case (Cons b bs)
        then show False using p \<open>img = a # as\<close> assms(1,5,6) by (cases bs) (auto simp: go_str)
      qed
    qed
  qed
  then show ?thesis
    using sample_path_live [OF kw assms(2), of "''/'' @ img"] sample_path_live_v2 [OF kw assms(2), of img]
      sample_path_stored [OF assms(1-4)]
    by simp
qed

theorem sample_paths_agree_witness:
  "asset_sample_path ''/v2/team/blobs-img/manifests/1.0'' = ''/team/blobs-img/'' \<and>
   asset_sample_path ''/manifests/team/blobs-img/1.0'' = ''/team/blobs-img/''"
proof -
  have f: "\<forall>k \<in> set oci_keywords. str_index (''/'' @ ''team/blobs-img'' @ ''/'' @ ''1.0'') k = None"
    by code_simp
  have h: "''/manifests/'' = ''/manifests/'' \<or> ''/manifests/'' = ''/blobs/''" "slash \<notin> set ''1.0''"
    "''team/blobs-img'' \<noteq> []" "\<not> has_prefix (''/'' @ ''team/blobs-img'') ''/v2/''" "''team/blobs-img'' \<noteq> ''v2''"
    by (simp_all add: has_prefix_def)
  show ?thesis using sample_paths_agree [OF h(1-3) f h(4-5)] by simp
qed

text \<open>
  The docker browse list shows an image whole or not at all: for a caller who is neither an
  administrator nor admitted anonymously, the rows of an image are all kept, in order, when a
  privilege lets the caller browse one of them, and all dropped otherwise.
\<close>

theorem docker_rows_all_or_nothing:
  assumes "\<not> is_admin roles" and "\<not> anonymous_allowed s anon"
  shows "filter (\<lambda>row. dr_image_name row = i) (filter_docker_rows s u roles rname anon rows) =
    (if \<exists>row \<in> set rows. dr_image_name row = i \<and>
          match_privileges (load_privileges s u) rname (asset_sample_path (dr_sample_path row)) ''browse''
     then filter (\<lambda>row. dr_image_name row = i) rows else [])"
  unfolding filter_docker_rows_image [OF assms] by (auto simp: list_ex_iff)

definition example_row :: "string \<Rightarrow> string \<Rightarrow> docker_row" where
  "example_row img p = \<lparr>dr_component_id = [], dr_image_name = img, dr_version = [], dr_sample_path = p,
     dr_artifact_type = [], dr_predicate_type = []\<rparr>"

theorem docker_rows_all_or_nothing_witness:
  "filter (\<lambda>row. dr_image_name row = ''x'') (filter_docker_rows example_svc ''nobody'' [] ''r'' False
      [example_row ''x'' ''/blobs/x/sha256:1'', example_row ''y'' ''/blobs/y/sha256:2'']) = []"
proof -
  have h: "\<not> is_admin []" "\<not> anonymous_allowed example_svc False"
    by (simp_all add: is_admin_def anonymous_allowed_def)
  have n: "load_privileges example_svc ''nobody'' = []" by (simp add: load_privileges_def example_svc_def)
  show ?thesis using docker_rows_all_or_nothing [OF h] by (simp add: n)
qed

text \<open>
  C33: the middleware passes a request on only when its path is canonical, its token scopes cover the
  action, the repository exists and the access check (or, for an npm search, the listing check)
  grants it; and a request of a caller with no user id that is refused for lack of access is answered
  401, of any other caller 403.
\<close>

theorem middleware_passes_only_checked:
  assumes "rbac_middleware svc repo_get rq = out"
  shows "(out = Next \<longrightarrow>
           (\<exists>served. canonical_path (request_path rq) = Inr served) \<and>
           scopes_allow (rq_token_scopes rq) (method_to_action (rq_method rq)) \<and>
           (\<exists>repo. repo_get (rq_repo_name rq) = Some repo \<and>
              (can_access_repo svc (rq_user_id rq) (rq_roles rq) repo (request_path rq)
                 (method_to_action (rq_method rq)) = Some True \<or>
               (repo_fmt repo = FormatNPM \<and> path_clean (request_path rq) = ''/-/v1/search'' \<and>
                method_to_action (rq_method rq) = ''read'' \<and>
                filter_repos svc (rq_user_id rq) (rq_roles rq) [repo] = [repo])))) \<and>
         (out = Abort 401 \<longrightarrow> rq_user_id rq = []) \<and>
         (out \<in> {Next, Abort 400, Abort 401, Abort 403, Abort 500})"
  using mw_next_cases [of svc repo_get rq] mw_deny_cases [of svc repo_get rq] unfolding assms by blast

definition example_put :: http_request where
  "example_put = \<lparr>rq_method = ''PUT'', rq_url_path = ''/repository/releases/a'', rq_repo_name = ''releases'',
     rq_path_param = ''/a'', rq_docker_path_param = [], rq_user_id = ''u1'', rq_roles = [], rq_token_scopes = Some [''write'']\<rparr>"

theorem middleware_passes_only_checked_witness:
  "scopes_allow (Some [''write'']) ''write'' \<and>
   rbac_middleware example_svc (\<lambda>_. Some example_hosted) (example_put\<lparr>rq_token_scopes := Some [''read'']\<rparr>) = Abort 403"
proof -
  have h: "rbac_middleware example_svc (\<lambda>_. Some example_hosted) example_put = Next" by code_simp
  have "rbac_middleware example_svc (\<lambda>_. Some example_hosted) (example_put\<lparr>rq_token_scopes := Some [''read'']\<rparr>) = Abort 403"
    by code_simp
  then show ?thesis
    using middleware_passes_only_checked [OF h] by (simp add: example_put_def method_to_action_def)
qed

end
