(* ===== verification/Redis_Kv.thy ===== *)
theory Redis_Kv
  imports Go_Lib
begin

text \<open>
  The Redis client of \<open>internal/redisclient/client.go\<close>. The server is a service the repository
  does not contain, so it is a parameter: a record of its commands on a state of unknown type, with
  the documented behaviour of GET, SET, SET NX, DEL and PEXPIRE as the hypothesis
  \<open>redis_laws\<close>, stated through the entry each key holds (its value and the instant it expires).
  What the client adds is modelled from the source: the two Lua scripts, which the server runs
  atomically, and the three ways a call can end (an answer, a request that never arrived, and a
  reply that was lost after the server had executed the command).
\<close>

section \<open>The server\<close>

record 's redis =
  rd_entry :: "'s \<Rightarrow> string \<Rightarrow> (string \<times> time) option"
  rd_get :: "time \<Rightarrow> 's \<Rightarrow> string \<Rightarrow> string option"
  rd_set :: "time \<Rightarrow> 's \<Rightarrow> string \<Rightarrow> string \<Rightarrow> duration \<Rightarrow> 's"
  rd_setnx :: "time \<Rightarrow> 's \<Rightarrow> string \<Rightarrow> string \<Rightarrow> duration \<Rightarrow> bool \<times> 's"
  rd_del :: "time \<Rightarrow> 's \<Rightarrow> string \<Rightarrow> int \<times> 's"
  rd_pexpire :: "time \<Rightarrow> 's \<Rightarrow> string \<Rightarrow> int \<Rightarrow> int \<times> 's"

text \<open>The entry of a key that has not expired yet: what GET sees.\<close>

definition live_entry :: "'s redis \<Rightarrow> time \<Rightarrow> 's \<Rightarrow> string \<Rightarrow> (string \<times> time) option" where
  "live_entry r now s k =
     (case rd_entry r s k of None \<Rightarrow> None | Some (v, e) \<Rightarrow> if now < e then Some (v, e) else None)"

text \<open>
  The documented behaviour of the commands. PEXPIRE takes milliseconds and counts from now.
\<close>

definition redis_laws :: "'s redis \<Rightarrow> bool" where
  "redis_laws r \<longleftrightarrow>
     (\<forall>now s k. rd_get r now s k = map_option fst (live_entry r now s k)) \<and>
     (\<forall>now s k v ttl. rd_entry r (rd_set r now s k v ttl) = (rd_entry r s)(k \<mapsto> (v, now + ttl))) \<and>
     (\<forall>now s k v ttl.
        fst (rd_setnx r now s k v ttl) = (live_entry r now s k = None) \<and>
        rd_entry r (snd (rd_setnx r now s k v ttl)) =
          (if live_entry r now s k = None then (rd_entry r s)(k \<mapsto> (v, now + ttl)) else rd_entry r s)) \<and>
     (\<forall>now s k.
        fst (rd_del r now s k) = (if live_entry r now s k = None then 0 else 1) \<and>
        rd_entry r (snd (rd_del r now s k)) = (rd_entry r s)(k := None)) \<and>
     (\<forall>now s k ms.
        fst (rd_pexpire r now s k ms) = (if live_entry r now s k = None then 0 else 1) \<and>
        rd_entry r (snd (rd_pexpire r now s k ms)) =
          (case live_entry r now s k of
             None \<Rightarrow> rd_entry r s
           | Some (v, e) \<Rightarrow> (rd_entry r s)(k \<mapsto> (v, now + ms * 1000000))))"

lemma redis_get: "redis_laws r \<Longrightarrow> rd_get r now s k = map_option fst (live_entry r now s k)"
  by (simp add: redis_laws_def)

lemma redis_set:
  "redis_laws r \<Longrightarrow> rd_entry r (rd_set r now s k v ttl) = (rd_entry r s)(k \<mapsto> (v, now + ttl))"
  by (simp add: redis_laws_def)

lemma redis_setnx:
  "redis_laws r \<Longrightarrow> fst (rd_setnx r now s k v ttl) = (live_entry r now s k = None)"
  "redis_laws r \<Longrightarrow> rd_entry r (snd (rd_setnx r now s k v ttl)) =
     (if live_entry r now s k = None then (rd_entry r s)(k \<mapsto> (v, now + ttl)) else rd_entry r s)"
  unfolding redis_laws_def by blast+

lemma redis_del:
  "redis_laws r \<Longrightarrow> fst (rd_del r now s k) = (if live_entry r now s k = None then 0 else 1)"
  "redis_laws r \<Longrightarrow> rd_entry r (snd (rd_del r now s k)) = (rd_entry r s)(k := None)"
  unfolding redis_laws_def by blast+

lemma redis_pexpire:
  "redis_laws r \<Longrightarrow> fst (rd_pexpire r now s k ms) = (if live_entry r now s k = None then 0 else 1)"
  "redis_laws r \<Longrightarrow> rd_entry r (snd (rd_pexpire r now s k ms)) =
     (case live_entry r now s k of
        None \<Rightarrow> rd_entry r s | Some (v, e) \<Rightarrow> (rd_entry r s)(k \<mapsto> (v, now + ms * 1000000)))"
  unfolding redis_laws_def by blast+

section \<open>The client\<close>

datatype net = Answered | Request_Lost | Reply_Lost

text \<open>A call: \<^const>\<open>None\<close> is the error the Go client returns.\<close>

definition net_call :: "net \<Rightarrow> ('s \<Rightarrow> 'a \<times> 's) \<Rightarrow> 's \<Rightarrow> 'a option \<times> 's" where
  "net_call n f s =
     (case n of
        Answered \<Rightarrow> (Some (fst (f s)), snd (f s))
      | Request_Lost \<Rightarrow> (None, s)
      | Reply_Lost \<Rightarrow> (None, snd (f s)))"

text \<open>\<open>Get\<close>: a missing key is the error \<open>redis.Nil\<close>.\<close>

definition client_get :: "'s redis \<Rightarrow> net \<Rightarrow> time \<Rightarrow> 's \<Rightarrow> string \<Rightarrow> string option" where
  "client_get r n now s k = (if n = Answered then rd_get r now s k else None)"

definition client_set :: "'s redis \<Rightarrow> net \<Rightarrow> time \<Rightarrow> 's \<Rightarrow> string \<Rightarrow> string \<Rightarrow> duration \<Rightarrow> unit option \<times> 's" where
  "client_set r n now s k v ttl = net_call n (\<lambda>s. ((), rd_set r now s k v ttl)) s"

definition client_setnx :: "'s redis \<Rightarrow> net \<Rightarrow> time \<Rightarrow> 's \<Rightarrow> string \<Rightarrow> string \<Rightarrow> duration \<Rightarrow> bool option \<times> 's" where
  "client_setnx r n now s k v ttl = net_call n (\<lambda>s. rd_setnx r now s k v ttl) s"

definition client_del :: "'s redis \<Rightarrow> net \<Rightarrow> time \<Rightarrow> 's \<Rightarrow> string \<Rightarrow> unit option \<times> 's" where
  "client_del r n now s k = net_call n (\<lambda>s. ((), snd (rd_del r now s k))) s"

text \<open>The two scripts: \<open>GET\<close> of a missing key is false in Lua, so it matches no argument.\<close>

definition del_if_match_script :: "'s redis \<Rightarrow> time \<Rightarrow> string \<Rightarrow> string \<Rightarrow> 's \<Rightarrow> int \<times> 's" where
  "del_if_match_script r now k v s =
     (if rd_get r now s k = Some v then rd_del r now s k else (0, s))"

definition client_del_if_match :: "'s redis \<Rightarrow> net \<Rightarrow> time \<Rightarrow> 's \<Rightarrow> string \<Rightarrow> string \<Rightarrow> bool option \<times> 's" where
  "client_del_if_match r n now s k v =
     (case net_call n (del_if_match_script r now k v) s of
        (None, s') \<Rightarrow> (None, s')
      | (Some i, s') \<Rightarrow> (Some (i > 0), s'))"

definition expire_if_match_script :: "'s redis \<Rightarrow> time \<Rightarrow> string \<Rightarrow> string \<Rightarrow> int \<Rightarrow> 's \<Rightarrow> int \<times> 's" where
  "expire_if_match_script r now k v ms s =
     (if rd_get r now s k = Some v then rd_pexpire r now s k ms else (0, s))"

text \<open>\<open>ttl.Milliseconds()\<close> truncates towards zero; every caller passes a positive duration.\<close>

definition client_expire_if_match :: "'s redis \<Rightarrow> net \<Rightarrow> time \<Rightarrow> 's \<Rightarrow> string \<Rightarrow> string \<Rightarrow> duration \<Rightarrow> bool option \<times> 's" where
  "client_expire_if_match r n now s k v ttl =
     (case net_call n (expire_if_match_script r now k v (ttl div 1000000)) s of
        (None, s') \<Rightarrow> (None, s')
      | (Some i, s') \<Rightarrow> (Some (i > 0), s'))"

section \<open>What the calls do to the entries\<close>

lemma live_entry_Some: "live_entry r now s k = Some (v, e) \<longleftrightarrow> rd_entry r s k = Some (v, e) \<and> now < e"
  by (auto simp: live_entry_def split: option.splits if_splits)

lemma live_entry_None:
  "live_entry r now s k = None \<longleftrightarrow> (\<forall>v e. rd_entry r s k = Some (v, e) \<longrightarrow> e \<le> now)"
  by (auto simp: live_entry_def split: option.splits)

lemma del_if_match_entry:
  assumes "redis_laws r"
  shows "rd_entry r (snd (del_if_match_script r now k v s)) =
           (if \<exists>e. live_entry r now s k = Some (v, e) then (rd_entry r s)(k := None) else rd_entry r s)"
  using assms by (auto simp: del_if_match_script_def redis_get redis_del)

lemma expire_if_match_entry:
  assumes "redis_laws r"
  shows "rd_entry r (snd (expire_if_match_script r now k v ms s)) =
           (if \<exists>e. live_entry r now s k = Some (v, e)
            then (rd_entry r s)(k \<mapsto> (v, now + ms * 1000000)) else rd_entry r s)"
  using assms by (auto simp: expire_if_match_script_def redis_get redis_pexpire)

lemma expire_if_match_result:
  assumes "redis_laws r"
  shows "fst (expire_if_match_script r now k v ms s) > 0 \<longleftrightarrow> (\<exists>e. live_entry r now s k = Some (v, e))"
  using assms by (auto simp: expire_if_match_script_def redis_get redis_pexpire)

lemma net_call_snd: "snd (net_call n f s) = (if n = Request_Lost then s else snd (f s))"
  by (cases n) (simp_all add: net_call_def)

lemma net_call_Some: "fst (net_call n f s) = Some x \<longleftrightarrow> n = Answered \<and> x = fst (f s)"
  by (cases n) (auto simp: net_call_def)

section \<open>A server that satisfies the laws\<close>

text \<open>One map from keys to entries: it shows that the hypothesis can hold, and the witnesses run on it.\<close>

definition table_live :: "time \<Rightarrow> (string \<rightharpoonup> string \<times> time) \<Rightarrow> string \<Rightarrow> (string \<times> time) option" where
  "table_live now s k = (case s k of None \<Rightarrow> None | Some (v, e) \<Rightarrow> if now < e then Some (v, e) else None)"

definition table_redis :: "(string \<rightharpoonup> string \<times> time) redis" where
  "table_redis =
     \<lparr> rd_entry = (\<lambda>s. s),
       rd_get = (\<lambda>now s k. map_option fst (table_live now s k)),
       rd_set = (\<lambda>now s k v ttl. s(k \<mapsto> (v, now + ttl))),
       rd_setnx = (\<lambda>now s k v ttl.
         if table_live now s k = None then (True, s(k \<mapsto> (v, now + ttl))) else (False, s)),
       rd_del = (\<lambda>now s k. (if table_live now s k = None then 0 else 1, s(k := None))),
       rd_pexpire = (\<lambda>now s k ms.
         case table_live now s k of None \<Rightarrow> (0, s) | Some (v, e) \<Rightarrow> (1, s(k \<mapsto> (v, now + ms * 1000000)))) \<rparr>"

lemma table_redis_laws: "redis_laws table_redis"
proof -
  have live: "live_entry table_redis = table_live"
    by (intro ext) (simp add: live_entry_def table_live_def table_redis_def)
  show ?thesis
    unfolding redis_laws_def live by (auto simp: table_redis_def split: option.split)
qed

end
