(* ===== verification/Login_Guard.thy ===== *)
theory Login_Guard
  imports Redis_Kv
begin

text \<open>
  The login guard of \<open>internal/auth/loginguard\<close>: per-account throttling of password guesses
  (\<open>loginguard.go\<close>) and the store that shares the counts between nodes (\<open>redis_store.go\<close>). The Go
  interface \<open>Store\<close> is the record \<open>login_store\<close> of its methods; its contract is the locale
  \<open>login_store_laws\<close>, inside which the guard's behaviour over several nodes is proved, and which
  the Redis store satisfies whenever its server does what Redis documents.
\<close>

section \<open>The store interface and the guard\<close>

record 'st login_store =
  st_load :: "time \<Rightarrow> 'st \<Rightarrow> string \<Rightarrow> (int \<times> time) option"
  st_save :: "time \<Rightarrow> 'st \<Rightarrow> string \<Rightarrow> int \<Rightarrow> time \<Rightarrow> duration \<Rightarrow> 'st"
  st_delete :: "time \<Rightarrow> 'st \<Rightarrow> string \<Rightarrow> 'st"

definition entry_ttl :: duration where
  "entry_ttl = minutes 30"

record guard_policy =
  pol_threshold :: int
  pol_base_delay :: duration
  pol_max_delay :: duration

definition default_policy :: guard_policy where
  "default_policy = \<lparr> pol_threshold = 5, pol_base_delay = seconds 1, pol_max_delay = minutes 15 \<rparr>"

record guard_state =
  gs_failures :: int
  gs_blocked_until :: time
  gs_last_seen :: time

record guard =
  g_policy :: guard_policy
  g_entries :: "string \<rightharpoonup> guard_state"

definition new_guard :: "guard_policy \<Rightarrow> guard" where
  "new_guard p = \<lparr> g_policy = p, g_entries = Map.empty \<rparr>"

definition normalize_account :: "string \<Rightarrow> string" where
  "normalize_account u = to_lower (trim_space u)"

text \<open>The doubling loop: \<open>for range over - 1\<close>, with \<open>d\<close> an \<open>int64\<close>.\<close>

fun penalty_loop :: "nat \<Rightarrow> duration \<Rightarrow> duration \<Rightarrow> duration" where
  "penalty_loop 0 m d = (if d > m then m else d)"
| "penalty_loop (Suc n) m d =
     (let d' = mul64 d 2 in if d' \<ge> m then m else penalty_loop n m d')"

definition penalty :: "guard_policy \<Rightarrow> int \<Rightarrow> duration" where
  "penalty p failures =
     (let over = sub64 failures (pol_threshold p)
      in if over \<le> 0 then 0 else penalty_loop (nat (over - 1)) (pol_max_delay p) (pol_base_delay p))"

definition sweep :: "time \<Rightarrow> (string \<rightharpoonup> guard_state) \<Rightarrow> (string \<rightharpoonup> guard_state)" where
  "sweep now es =
     (\<lambda>k. case es k of None \<Rightarrow> None
          | Some e \<Rightarrow> if gs_last_seen e < now - entry_ttl then None else Some e)"

definition guard_load :: "'st login_store option \<Rightarrow> guard \<Rightarrow> 'st \<Rightarrow> time \<Rightarrow> string \<Rightarrow> int \<times> time" where
  "guard_load store g s now key =
     (case (case store of None \<Rightarrow> None | Some ops \<Rightarrow> st_load ops now s key) of
        Some r \<Rightarrow> r
      | None \<Rightarrow>
          (case g_entries g key of
             Some e \<Rightarrow> (gs_failures e, gs_blocked_until e)
           | None \<Rightarrow> (0, zero_time)))"

text \<open>A nil guard is \<^const>\<open>None\<close>. \<^typ>\<open>'st\<close> is the state of the shared store.\<close>

definition retry_after :: "'st login_store option \<Rightarrow> guard option \<Rightarrow> 'st \<Rightarrow> time \<Rightarrow> string \<Rightarrow> duration" where
  "retry_after store og s now username =
     (case og of
        None \<Rightarrow> 0
      | Some g \<Rightarrow>
          (let blocked_until = snd (guard_load store g s now (normalize_account username))
           in if blocked_until > now then time_sub blocked_until now else 0))"

text \<open>
  \<open>RecordFailure\<close> reads the count, and only later writes the map and the store: the mutex covers the map alone, and the
  store is read and written by separate calls. Other attempts may come in between (\<open>flight_step\<close> below).
\<close>

definition failure_count :: "'st login_store option \<Rightarrow> guard \<Rightarrow> 'st \<Rightarrow> time \<Rightarrow> string \<Rightarrow> int" where
  "failure_count store g s now key = add64 (fst (guard_load store g s now key)) 1"

definition failure_write :: "'st login_store option \<Rightarrow> guard \<Rightarrow> 'st \<Rightarrow> time \<Rightarrow> string \<Rightarrow> int \<Rightarrow> guard \<times> 'st" where
  "failure_write store g s now key failures =
     (let blocked_until = now + penalty (g_policy g) failures;
          entry = \<lparr> gs_failures = failures, gs_blocked_until = blocked_until, gs_last_seen = now \<rparr>
      in (g\<lparr> g_entries := (sweep now (g_entries g))(key \<mapsto> entry) \<rparr>,
          case store of
            None \<Rightarrow> s
          | Some ops \<Rightarrow> st_save ops now s key failures blocked_until entry_ttl))"

definition record_failure :: "'st login_store option \<Rightarrow> guard option \<Rightarrow> 'st \<Rightarrow> time \<Rightarrow> string \<Rightarrow> guard option \<times> 'st" where
  "record_failure store og s now username =
     (case og of
        None \<Rightarrow> (None, s)
      | Some g \<Rightarrow>
          (let key = normalize_account username
           in case failure_write store g s now key (failure_count store g s now key) of (g', s') \<Rightarrow> (Some g', s')))"

lemma record_failure_eq:
  "record_failure store og s now username =
     (case og of
        None \<Rightarrow> (None, s)
      | Some g \<Rightarrow>
          (let key = normalize_account username;
               failures = add64 (fst (guard_load store g s now key)) 1;
               blocked_until = now + penalty (g_policy g) failures;
               entry = \<lparr> gs_failures = failures, gs_blocked_until = blocked_until, gs_last_seen = now \<rparr>;
               g' = g\<lparr> g_entries := (sweep now (g_entries g))(key \<mapsto> entry) \<rparr>
           in (Some g',
               case store of
                 None \<Rightarrow> s
               | Some ops \<Rightarrow> st_save ops now s key failures blocked_until entry_ttl)))"
  by (simp add: record_failure_def failure_count_def failure_write_def Let_def split: option.split)

definition record_success :: "'st login_store option \<Rightarrow> guard option \<Rightarrow> 'st \<Rightarrow> time \<Rightarrow> string \<Rightarrow> guard option \<times> 'st" where
  "record_success store og s now username =
     (case og of
        None \<Rightarrow> (None, s)
      | Some g \<Rightarrow>
          (let key = normalize_account username
           in (Some (g\<lparr> g_entries := (g_entries g)(key := None) \<rparr>),
               case store of None \<Rightarrow> s | Some ops \<Rightarrow> st_delete ops now s key)))"

section \<open>The Redis store\<close>

definition redis_key :: "string \<Rightarrow> string" where
  "redis_key account = ''nexspence:loginfail:'' @ account"

text \<open>\<open>UnixNano\<close> is the low 64 bits of the count of nanoseconds.\<close>

definition format_entry :: "int \<Rightarrow> time \<Rightarrow> string" where
  "format_entry failures blocked_until = itoa failures @ '':'' @ itoa (wrap64 blocked_until)"

text \<open>\<open>strings.SplitN(raw, ":", 2)\<close> has two parts exactly when there is a colon.\<close>

definition parse_entry :: "string \<Rightarrow> (int \<times> time) option" where
  "parse_entry raw =
     (case str_index raw '':'' of
        None \<Rightarrow> None
      | Some i \<Rightarrow>
          (case atoi (take i raw) of
             None \<Rightarrow> None
           | Some failures \<Rightarrow>
               (case atoi (drop (Suc i) raw) of
                  None \<Rightarrow> None
                | Some nanos \<Rightarrow> Some (failures, nanos))))"

text \<open>The state of the store is the client (its server) and the server's state.\<close>

definition redis_load :: "net \<Rightarrow> time \<Rightarrow> 's redis \<times> 's \<Rightarrow> string \<Rightarrow> (int \<times> time) option" where
  "redis_load n now c key =
     (case client_get (fst c) n now (snd c) (redis_key key) of
        None \<Rightarrow> None
      | Some raw \<Rightarrow> if raw = [] then None else parse_entry raw)"

definition redis_save :: "net \<Rightarrow> time \<Rightarrow> 's redis \<times> 's \<Rightarrow> string \<Rightarrow> int \<Rightarrow> time \<Rightarrow> duration \<Rightarrow> 's redis \<times> 's" where
  "redis_save n now c key failures blocked_until ttl =
     (fst c, snd (client_set (fst c) n now (snd c) (redis_key key) (format_entry failures blocked_until) ttl))"

definition redis_delete :: "net \<Rightarrow> time \<Rightarrow> 's redis \<times> 's \<Rightarrow> string \<Rightarrow> 's redis \<times> 's" where
  "redis_delete n now c key = (fst c, snd (client_del (fst c) n now (snd c) (redis_key key)))"

definition new_redis_store :: "net \<Rightarrow> ('s redis \<times> 's) login_store" where
  "new_redis_store n =
     \<lparr> st_load = redis_load n, st_save = redis_save n, st_delete = redis_delete n \<rparr>"

section \<open>The penalty\<close>

lemma mul64_double: "0 \<le> d \<Longrightarrow> d < 2 ^ 62 \<Longrightarrow> mul64 d 2 = d * 2"
  by (simp add: mul64_def wrap64_id in64_def)

lemma penalty_loop_min:
  assumes "0 < d" "m < 2 ^ 62" "d \<le> m"
  shows "penalty_loop n m d = min m (d * 2 ^ n)"
  using assms
proof (induction n arbitrary: d)
  case 0
  then show ?case by simp
next
  case (Suc n)
  show ?case
  proof (cases "d * 2 \<ge> m")
    case True
    have "d * 2 \<le> d * 2 ^ Suc n" using Suc.prems by simp
    with True have m: "min m (d * 2 ^ Suc n) = m" by linarith
    have "mul64 d 2 \<ge> m" using True Suc.prems by (simp add: mul64_double)
    then show ?thesis using m by (simp add: Let_def)
  next
    case False
    with Suc.prems have "mul64 d 2 = d * 2" by (intro mul64_double) auto
    then show ?thesis using False Suc.IH [of "d * 2"] Suc.prems by (simp add: Let_def mult.assoc)
  qed
qed

definition policy_ok :: "guard_policy \<Rightarrow> bool" where
  "policy_ok p \<longleftrightarrow>
     0 < pol_base_delay p \<and> pol_base_delay p \<le> pol_max_delay p \<and> pol_max_delay p < 2 ^ 62 \<and> 0 \<le> pol_threshold p"

lemma penalty_bounds:
  assumes "policy_ok p"
  shows "0 \<le> penalty p f \<and> penalty p f \<le> pol_max_delay p"
proof -
  have "penalty_loop n (pol_max_delay p) (pol_base_delay p) = min (pol_max_delay p) (pol_base_delay p * 2 ^ n)" for n
    using assms by (intro penalty_loop_min) (auto simp: policy_ok_def)
  moreover have "0 \<le> pol_base_delay p * 2 ^ n" for n using assms by (simp add: policy_ok_def)
  ultimately show ?thesis using assms by (auto simp: penalty_def Let_def policy_ok_def)
qed

section \<open>The entry format\<close>

lemma parse_format_entry:
  assumes "in64 f" "in64 b"
  shows "parse_entry (format_entry f b) = Some (f, b)"
proof -
  let ?raw = "itoa f @ CHR '':'' # itoa b"
  have raw: "format_entry f b = ?raw" using assms by (simp add: format_entry_def wrap64_id)
  obtain i where i: "i \<le> length (itoa f)" "str_index ?raw '':'' = Some i"
    using str_index_first [of "length (itoa f)" ?raw "'':''"] by (auto simp: has_prefix_def)
  obtain t where t: "drop i ?raw = CHR '':'' # t" using str_index_Some [OF i(2)] by auto
  have "i = length (itoa f)"
  proof (rule ccontr)
    assume "i \<noteq> length (itoa f)"
    with i(1) t have "CHR '':'' \<in> set (drop i (itoa f))" by (cases "drop i (itoa f)") auto
    then show False using itoa_no_colon in_set_dropD by metis
  qed
  then show ?thesis using i(2) assms by (simp add: raw parse_entry_def atoi_itoa)
qed

lemma format_entry_nonempty: "format_entry f b \<noteq> []"
  by (simp add: format_entry_def)

section \<open>The contract of the store\<close>

text \<open>
  What the guard relies on: a saved entry is what every node loads until its TTL is over, and a
  deleted one is gone. \<open>good\<close> are the states in which the store answers.
\<close>

locale login_store_laws =
  fixes ops :: "'st login_store" and good :: "'st \<Rightarrow> bool"
  assumes good_save: "good s \<Longrightarrow> good (st_save ops now s k f b ttl)"
    and load_save: "good s \<Longrightarrow> in64 f \<Longrightarrow> in64 b \<Longrightarrow> now' < now + ttl \<Longrightarrow>
          st_load ops now' (st_save ops now s k f b ttl) k = Some (f, b)"
    and load_save_other: "good s \<Longrightarrow> k' \<noteq> k \<Longrightarrow>
          st_load ops now' (st_save ops now s k f b ttl) k' = st_load ops now' s k'"
    and good_delete: "good s \<Longrightarrow> good (st_delete ops now s k)"
    and load_delete: "good s \<Longrightarrow> st_load ops now' (st_delete ops now s k) k = None"

text \<open>
  A cluster: one guard per node over the shared store. An attempt is the node that saw it, the
  instant and the account.
\<close>

record 'st cluster =
  cl_nodes :: "nat \<Rightarrow> guard"
  cl_store :: 'st

definition cluster_fail :: "'st login_store \<Rightarrow> string \<Rightarrow> 'st cluster \<Rightarrow> nat \<times> time \<Rightarrow> 'st cluster" where
  "cluster_fail ops u c a =
     (let (og, s) = record_failure (Some ops) (Some (cl_nodes c (fst a))) (cl_store c) (snd a) u
      in \<lparr> cl_nodes = (cl_nodes c)(fst a := the og), cl_store = s \<rparr>)"

text \<open>
  The two halves of failures that several nodes record at the same time; \<open>k\<close> tells the attempts apart. In flight: the
  node, the instant and the count it read.
\<close>

datatype failure_event = Read_Count nat nat time | Write_Count nat

type_synonym flights = "nat \<rightharpoonup> nat \<times> time \<times> int"

definition flight_step :: "'st login_store \<Rightarrow> string \<Rightarrow> 'st cluster \<times> flights \<Rightarrow> failure_event \<Rightarrow> 'st cluster \<times> flights" where
  "flight_step ops u = (\<lambda>(c, fl) ev.
     (case ev of
        Read_Count k i now \<Rightarrow> (c, fl(k \<mapsto> (i, now, failure_count (Some ops) (cl_nodes c i) (cl_store c) now (normalize_account u))))
      | Write_Count k \<Rightarrow>
          (case fl k of
             None \<Rightarrow> (c, fl)
           | Some (i, now, failures) \<Rightarrow>
               (case failure_write (Some ops) (cl_nodes c i) (cl_store c) now (normalize_account u) failures of
                  (g, s) \<Rightarrow> (\<lparr> cl_nodes = (cl_nodes c)(i := g), cl_store = s \<rparr>, fl(k := None))))))"

definition run_failures :: "'st login_store \<Rightarrow> string \<Rightarrow> 'st cluster \<Rightarrow> failure_event list \<Rightarrow> 'st cluster" where
  "run_failures ops u c evs = fst (foldl (flight_step ops u) (c, Map.empty) evs)"

text \<open>Attempts one after the other, each of them finished before the next begins.\<close>

definition one_by_one :: "(nat \<times> time) list \<Rightarrow> failure_event list" where
  "one_by_one as = concat (map (\<lambda>(i, t). [Read_Count 0 i t, Write_Count 0]) as)"

lemma run_one_by_one: "run_failures ops u c (one_by_one as) = foldl (cluster_fail ops u) c as"
proof -
  have "foldl (flight_step ops u) (c, fl) (one_by_one as) = (foldl (cluster_fail ops u) c as, if as = [] then fl else fl(0 := None))" for fl
  proof (induction as arbitrary: c fl)
    case (Cons a as)
    obtain i t where a: "a = (i, t)" by (cases a)
    have "foldl (flight_step ops u) (c, fl) [Read_Count 0 i t, Write_Count 0] = (cluster_fail ops u c a, fl(0 := None))"
      by (simp add: a flight_step_def cluster_fail_def record_failure_def Let_def split: prod.split)
    then show ?case using Cons.IH by (simp add: one_by_one_def a fun_eq_iff)
  qed (simp add: one_by_one_def)
  then show ?thesis by (simp add: run_failures_def)
qed

text \<open>Attempts in order of time, none later than the TTL after the one before it.\<close>

fun attempts_close :: "time \<Rightarrow> (nat \<times> time) list \<Rightarrow> bool" where
  "attempts_close t [] = True"
| "attempts_close t (a # as) \<longleftrightarrow> t \<le> snd a \<and> snd a < t + entry_ttl \<and> attempts_close (snd a) as"

fun last_time :: "time \<Rightarrow> (nat \<times> time) list \<Rightarrow> time" where
  "last_time t [] = t"
| "last_time t (a # as) = last_time (snd a) as"

lemma attempts_close_last: "attempts_close t as \<Longrightarrow> t \<le> last_time t as"
proof (induction as arbitrary: t)
  case (Cons a as)
  have "t \<le> snd a" "snd a \<le> last_time (snd a) as" using Cons by auto
  then show ?case by simp
qed simp

lemma g_policy_cluster_fail: "g_policy (cl_nodes (cluster_fail ops u c a) i) = g_policy (cl_nodes c i)"
  by (simp add: cluster_fail_def record_failure_eq Let_def)

context login_store_laws
begin

lemma guard_load_store: "st_load ops now s k = Some r \<Longrightarrow> guard_load (Some ops) g s now k = r"
  by (simp add: guard_load_def)

lemma good_cluster_fail: "good (cl_store c) \<Longrightarrow> good (cl_store (cluster_fail ops u c a))"
  by (simp add: cluster_fail_def record_failure_eq Let_def good_save)

text \<open>One failure, seen from every node.\<close>

lemma load_cluster_fail:
  assumes "good (cl_store c)" "policy_ok (g_policy (cl_nodes c i))"
    and "fst (guard_load (Some ops) (cl_nodes c i) (cl_store c) t (normalize_account u)) = f"
    and "0 \<le> f" "f < 2 ^ 62" "0 \<le> t" "t < 2 ^ 62" "now' < t + entry_ttl"
  shows "st_load ops now' (cl_store (cluster_fail ops u c (i, t))) (normalize_account u)
           = Some (f + 1, t + penalty (g_policy (cl_nodes c i)) (f + 1))"
proof -
  have "add64 f 1 = f + 1" using assms(4,5) by (intro add64_id) (simp add: in64_def)
  moreover have "in64 (f + 1)" using assms(4,5) by (simp add: in64_def)
  moreover have "in64 (t + penalty (g_policy (cl_nodes c i)) (f + 1))"
    using penalty_bounds [OF assms(2), of "f + 1"] assms(2,6,7) by (simp add: in64_def policy_ok_def)
  ultimately show ?thesis
    using assms by (simp add: cluster_fail_def record_failure_eq Let_def load_save)
qed

text \<open>A run of failures through any nodes: each node sees all of them.\<close>

lemma cluster_counts:
  assumes "good (cl_store c)" "\<forall>i. g_policy (cl_nodes c i) = p" "policy_ok p"
    and "\<forall>now'. now' < t + entry_ttl \<longrightarrow> st_load ops now' (cl_store c) (normalize_account u) = Some (f, t + penalty p f)"
    and "attempts_close t as" "0 \<le> f" "f + int (length as) < 2 ^ 62" "0 \<le> t" "last_time t as < 2 ^ 62"
    and "now < last_time t as + entry_ttl"
  shows "st_load ops now (cl_store (foldl (cluster_fail ops u) c as)) (normalize_account u)
           = Some (f + int (length as), last_time t as + penalty p (f + int (length as)))"
  using assms
proof (induction as arbitrary: c f t)
  case Nil
  then show ?case by simp
next
  case (Cons a as)
  obtain i t' where a: "a = (i, t')" by (cases a)
  let ?c = "cluster_fail ops u c (i, t')"
  have t': "t \<le> t'" "t' < t + entry_ttl" "attempts_close t' as" using Cons.prems(5) a by auto
  have t'_le: "t' < 2 ^ 62" using attempts_close_last [OF t'(3)] Cons.prems(9) a by simp
  have load: "guard_load (Some ops) (cl_nodes c i) (cl_store c) t' (normalize_account u) = (f, t + penalty p f)"
    using Cons.prems(4) t'(2) by (intro guard_load_store) blast
  have "st_load ops now' (cl_store ?c) (normalize_account u) = Some (f + 1, t' + penalty p (f + 1))"
    if "now' < t' + entry_ttl" for now'
    using load_cluster_fail [of c i t' u f now'] load Cons.prems t' t'_le that by simp
  then have "st_load ops now (cl_store (foldl (cluster_fail ops u) ?c as)) (normalize_account u)
      = Some (f + 1 + int (length as), last_time t' as + penalty p (f + 1 + int (length as)))"
    using Cons.prems t' a by (intro Cons.IH) (simp_all add: good_cluster_fail g_policy_cluster_fail)
  moreover have "f + 1 + int (length as) = f + int (length (a # as))" by simp
  ultimately show ?case by (simp only: a foldl_Cons last_time.simps snd_conv)
qed

lemma success_clears:
  assumes "good s" "record_success (Some ops) (Some g) s now u = (og, s')" "zero_time \<le> now'"
  shows "retry_after (Some ops) og s' now' u = 0"
  using assms
  by (auto simp: record_success_def retry_after_def Let_def guard_load_def load_delete)

end

section \<open>The Redis store satisfies the contract\<close>

lemma redis_key_eq [simp]: "redis_key a = redis_key b \<longleftrightarrow> a = b"
  by (simp add: redis_key_def)

lemma redis_load_answered:
  assumes "redis_laws (fst c)"
  shows "redis_load Answered now c k =
    (case live_entry (fst c) now (snd c) (redis_key k) of
       None \<Rightarrow> None | Some (v, e) \<Rightarrow> if v = [] then None else parse_entry v)"
  using assms by (simp add: redis_load_def client_get_def redis_get split: option.split)

lemma redis_save_entry:
  assumes "redis_laws (fst c)"
  shows "rd_entry (fst c) (snd (redis_save Answered now c k f b ttl)) =
           (rd_entry (fst c) (snd c))(redis_key k \<mapsto> (format_entry f b, now + ttl))"
  using assms by (simp add: redis_save_def client_set_def net_call_snd redis_set)

lemma redis_delete_entry:
  assumes "redis_laws (fst c)"
  shows "rd_entry (fst c) (snd (redis_delete Answered now c k)) =
           (rd_entry (fst c) (snd c))(redis_key k := None)"
  using assms by (simp add: redis_delete_def client_del_def net_call_snd redis_del)

lemma fst_redis_ops [simp]:
  "fst (redis_save n now c k f b ttl) = fst c" "fst (redis_delete n now c k) = fst c"
  by (simp_all add: redis_save_def redis_delete_def)

lemma new_redis_store_ops [simp]:
  "st_load (new_redis_store n) = redis_load n" "st_save (new_redis_store n) = redis_save n"
  "st_delete (new_redis_store n) = redis_delete n"
  by (simp_all add: new_redis_store_def)

interpretation redis_store: login_store_laws "new_redis_store Answered" "\<lambda>c. redis_laws (fst c)"
proof
  fix s :: "'a redis \<times> 'a" and k k' f b now now' ttl
  assume good: "redis_laws (fst s)"
  show "redis_laws (fst (st_save (new_redis_store Answered) now s k f b ttl))" using good by simp
  show "redis_laws (fst (st_delete (new_redis_store Answered) now s k))" using good by simp
  show "st_load (new_redis_store Answered) now' (st_save (new_redis_store Answered) now s k f b ttl) k = Some (f, b)"
    if "in64 f" "in64 b" "now' < now + ttl"
    using good that by (simp add: redis_load_answered redis_save_entry live_entry_def parse_format_entry format_entry_nonempty)
  show "st_load (new_redis_store Answered) now' (st_save (new_redis_store Answered) now s k f b ttl) k'
          = st_load (new_redis_store Answered) now' s k'" if "k' \<noteq> k"
    using good that by (simp add: redis_load_answered redis_save_entry live_entry_def)
  show "st_load (new_redis_store Answered) now' (st_delete (new_redis_store Answered) now s k) k = None"
    using good by (simp add: redis_load_answered redis_delete_entry live_entry_def)
qed

section \<open>Properties\<close>

text \<open>
  The penalty is exactly exponential and capped: with a sensible policy, the first
  \<open>Threshold\<close> failures cost nothing and failure number \<open>f\<close> after them costs
  \<open>min MaxDelay (BaseDelay * 2 ^ (f - Threshold - 1))\<close>; the 64-bit doubling never wraps.
\<close>

theorem penalty_exact:
  assumes "policy_ok p" "0 \<le> f" "f < 2 ^ 63" "pol_threshold p < 2 ^ 63"
  shows "penalty p f =
    (if f \<le> pol_threshold p then 0
     else min (pol_max_delay p) (pol_base_delay p * 2 ^ nat (f - pol_threshold p - 1)))"
proof -
  have "sub64 f (pol_threshold p) = f - pol_threshold p"
    using assms by (intro sub64_id) (simp add: in64_def policy_ok_def)
  then show ?thesis
    using assms penalty_loop_min [of "pol_base_delay p" "pol_max_delay p"]
    by (simp add: penalty_def Let_def policy_ok_def)
qed

theorem penalty_exact_witness:
  "penalty default_policy 5 = 0 \<and> penalty default_policy 8 = seconds 4 \<and> penalty default_policy 40 = minutes 15"
proof -
  have ok: "policy_ok default_policy" by (simp add: policy_ok_def default_policy_def seconds_def minutes_def)
  show ?thesis
    using penalty_exact [OF ok, of 5] penalty_exact [OF ok, of 8] penalty_exact [OF ok, of 40]
    by (simp add: default_policy_def seconds_def minutes_def)
qed

lemma sequential_failures_count:
  fixes c :: "('s redis \<times> 's) cluster"
  assumes "redis_laws (fst (cl_store c))" "policy_ok p"
    and "\<forall>i. g_policy (cl_nodes c i) = p \<and> g_entries (cl_nodes c i) (normalize_account u) = None"
    and "rd_entry (fst (cl_store c)) (snd (cl_store c)) (redis_key (normalize_account u)) = None"
    and "0 \<le> snd a" "attempts_close (snd a) as" "int (length as) < 2 ^ 61"
    and "last_time (snd a) as \<le> now" "now < last_time (snd a) as + entry_ttl" "now < 2 ^ 62"
  shows "(let c' = foldl (cluster_fail (new_redis_store Answered) u) c (a # as) in
          retry_after (Some (new_redis_store Answered)) (Some (cl_nodes c' j)) (cl_store c') now u) =
         max 0 (last_time (snd a) as + penalty p (1 + int (length as)) - now)"
proof -
  let ?ops = "new_redis_store Answered :: ('s redis \<times> 's) login_store"
  let ?c = "cluster_fail ?ops u c a" and ?t = "snd a"
  have t: "?t < 2 ^ 62" using attempts_close_last [OF assms(6)] assms(8,10) by simp
  have "st_load ?ops ?t (cl_store c) (normalize_account u) = None"
    using assms(1,4) by (simp add: redis_load_answered live_entry_def)
  then have "fst (guard_load (Some ?ops) (cl_nodes c (fst a)) (cl_store c) ?t (normalize_account u)) = 0"
    using assms(3) by (simp add: guard_load_def)
  then have load: "st_load ?ops now' (cl_store ?c) (normalize_account u) = Some (1, ?t + penalty p 1)"
    if "now' < ?t + entry_ttl" for now'
    using redis_store.load_cluster_fail [of c "fst a" ?t u 0 now'] assms t that by simp
  have "last_time ?t as < 2 ^ 62" using assms(8,10) by simp
  then have "st_load ?ops now (cl_store (foldl (cluster_fail ?ops u) ?c as)) (normalize_account u)
      = Some (1 + int (length as), last_time ?t as + penalty p (1 + int (length as)))"
    using assms load by (intro redis_store.cluster_counts)
      (simp_all add: g_policy_cluster_fail redis_store.good_cluster_fail)
  moreover have "penalty p (1 + int (length as)) \<le> 2 ^ 62"
    using penalty_bounds [OF assms(2), of "1 + int (length as)"] assms(2) by (simp add: policy_ok_def)
  ultimately show ?thesis
    using assms(8) by (simp add: Let_def retry_after_def guard_load_def time_sub_def)
qed


definition example_cluster :: "((string \<rightharpoonup> string \<times> time) redis \<times> (string \<rightharpoonup> string \<times> time)) cluster" where
  "example_cluster = \<lparr> cl_nodes = (\<lambda>_. new_guard default_policy), cl_store = (table_redis, Map.empty) \<rparr>"


section \<open>Where the code and its comments part\<close>

text \<open>
  The comment on \<open>New\<close> promises that attempts spread over the nodes do not multiply the allowance. Failures that
  two nodes record at the same time count once: both read the same count before either has written.
\<close>

lemma overlapping_failures_lost:
  "redis_load Answered 3
     (cl_store (run_failures (new_redis_store Answered) ''alice'' example_cluster
        [Read_Count 0 0 1, Read_Count 1 1 2, Write_Count 0, Write_Count 1])) ''alice''
     = Some (1, 2)"
  by code_simp

text \<open>
  The comment on \<open>entryTTL\<close> promises that failures of the morning are forgotten by the evening. The
  in-process map does not do that: \<open>load\<close> ignores \<open>lastSeen\<close>, and \<open>RecordFailure\<close> sweeps only after
  it has read the old count, so without a store the next failure counts on from it however old it is.
\<close>

lemma old_failures_still_count:
  assumes "g_entries g (normalize_account u) = Some e" "in64 (gs_failures e + 1)"
  shows "fst (guard_load None (the (fst (record_failure None (Some g) s now u))) s now (normalize_account u))
           = gs_failures e + 1"
  using assms by (simp add: record_failure_eq guard_load_def Let_def add64_id)

text \<open>
  A success clears the store and the map of the node that saw it. A node that counted earlier
  failures itself still finds them in its own map, because \<open>load\<close> falls back to it when the store has
  no entry: it goes on delaying the account.
\<close>

lemma success_elsewhere_is_not_seen:
  assumes "redis_laws (fst s)" "g_entries g (normalize_account u) = Some e" "now < gs_blocked_until e"
    and "record_success (Some (new_redis_store Answered)) (Some g') s t u = (og, s')"
  shows "retry_after (Some (new_redis_store Answered)) (Some g) s' now u > 0"
  using assms
  by (auto simp: record_success_def Let_def retry_after_def guard_load_def
      redis_store.load_delete [simplified] time_sub_def)

end
