(* ===== verification/Dist_Lock.thy ===== *)
theory Dist_Lock
  imports Redis_Kv
begin

text \<open>
  Distributed locks: \<open>internal/distlock\<close> (the \<open>Locker\<close> and \<open>Lock\<close> interfaces, the Redis
  implementation and the no-op one) and \<open>service/lock_deadline.go\<close>. A locker is the record of its
  methods; the contract the services rely on is the locale \<open>locker_laws\<close>. Nodes that acquire,
  refresh, release, lose replies, crash and let locks expire are the step relation \<open>lock_step\<close>, and
  mutual exclusion is an invariant of its reachable states.
\<close>

section \<open>The interfaces\<close>

datatype lock_err = Err_Lock_Held | Err_Lock_Lost | Err_Backend

text \<open>
  A \<open>Lock\<close> is the token it carries (the key is known to the caller). Every call is given the fate of
  its network exchange; \<open>Inr\<close> is success. \<open>lk_acquire\<close> receives the fresh token of \<open>uuid.New\<close>.
\<close>

record 'st locker =
  lk_acquire :: "net \<Rightarrow> time \<Rightarrow> 'st \<Rightarrow> string \<Rightarrow> string \<Rightarrow> duration \<Rightarrow> (lock_err + string) \<times> 'st"
  lk_release :: "net \<Rightarrow> time \<Rightarrow> 'st \<Rightarrow> string \<Rightarrow> string \<Rightarrow> (lock_err + unit) \<times> 'st"
  lk_refresh :: "net \<Rightarrow> time \<Rightarrow> 'st \<Rightarrow> string \<Rightarrow> string \<Rightarrow> duration \<Rightarrow> (lock_err + unit) \<times> 'st"
  lk_force_release :: "net \<Rightarrow> time \<Rightarrow> 'st \<Rightarrow> string \<Rightarrow> (lock_err + unit) \<times> 'st"

definition past_deadline :: "time \<Rightarrow> time \<Rightarrow> bool" where
  "past_deadline now deadline \<longleftrightarrow> deadline \<noteq> zero_time \<and> \<not> now < deadline"

section \<open>RedisLocker\<close>

definition redis_acquire :: "net \<Rightarrow> time \<Rightarrow> 's redis \<times> 's \<Rightarrow> string \<Rightarrow> string \<Rightarrow> duration \<Rightarrow> (lock_err + string) \<times> ('s redis \<times> 's)" where
  "redis_acquire n now c key token ttl =
     (case client_setnx (fst c) n now (snd c) key token ttl of
        (None, s') \<Rightarrow> (Inl Err_Backend, (fst c, s'))
      | (Some ok, s') \<Rightarrow> ((if \<not> ok then Inl Err_Lock_Held else Inr token), (fst c, s')))"

definition redis_release :: "net \<Rightarrow> time \<Rightarrow> 's redis \<times> 's \<Rightarrow> string \<Rightarrow> string \<Rightarrow> (lock_err + unit) \<times> ('s redis \<times> 's)" where
  "redis_release n now c key token =
     (case client_del_if_match (fst c) n now (snd c) key token of
        (None, s') \<Rightarrow> (Inl Err_Backend, (fst c, s'))
      | (Some _, s') \<Rightarrow> (Inr (), (fst c, s')))"

definition redis_refresh :: "net \<Rightarrow> time \<Rightarrow> 's redis \<times> 's \<Rightarrow> string \<Rightarrow> string \<Rightarrow> duration \<Rightarrow> (lock_err + unit) \<times> ('s redis \<times> 's)" where
  "redis_refresh n now c key token ttl =
     (case client_expire_if_match (fst c) n now (snd c) key token ttl of
        (None, s') \<Rightarrow> (Inl Err_Backend, (fst c, s'))
      | (Some ok, s') \<Rightarrow> ((if \<not> ok then Inl Err_Lock_Lost else Inr ()), (fst c, s')))"

definition redis_force_release :: "net \<Rightarrow> time \<Rightarrow> 's redis \<times> 's \<Rightarrow> string \<Rightarrow> (lock_err + unit) \<times> ('s redis \<times> 's)" where
  "redis_force_release n now c key =
     (case client_del (fst c) n now (snd c) key of
        (None, s') \<Rightarrow> (Inl Err_Backend, (fst c, s'))
      | (Some _, s') \<Rightarrow> (Inr (), (fst c, s')))"

definition redis_locker :: "('s redis \<times> 's) locker" where
  "redis_locker =
     \<lparr> lk_acquire = redis_acquire, lk_release = redis_release, lk_refresh = redis_refresh,
       lk_force_release = redis_force_release \<rparr>"

section \<open>NoopLocker\<close>

text \<open>Single-node mode: every call succeeds and nothing is coordinated; a \<open>noopLock\<close> has no \<open>Refresh\<close>.\<close>

definition noop_locker :: "'st locker" where
  "noop_locker =
     \<lparr> lk_acquire = (\<lambda>_ _ s _ token _. (Inr token, s)), lk_release = (\<lambda>_ _ s _ _. (Inr (), s)),
       lk_refresh = (\<lambda>_ _ s _ _ _. (Inr (), s)), lk_force_release = (\<lambda>_ _ s _. (Inr (), s)) \<rparr>"

section \<open>The contract\<close>

text \<open>\<open>entry s k\<close> is the token that has the key and the instant the key expires.\<close>

locale locker_laws =
  fixes ops :: "'st locker" and entry :: "'st \<Rightarrow> string \<Rightarrow> (string \<times> time) option" and good :: "'st \<Rightarrow> bool"
  assumes good_ops:
      "good s \<Longrightarrow> good (snd (lk_acquire ops n now s k t ttl))"
      "good s \<Longrightarrow> good (snd (lk_release ops n now s k t))"
      "good s \<Longrightarrow> good (snd (lk_refresh ops n now s k t ttl))"
      "good s \<Longrightarrow> good (snd (lk_force_release ops n now s k))"
    and acquire_granted:
      "good s \<Longrightarrow> lk_acquire ops n now s k t ttl = (Inr t', s') \<Longrightarrow>
         t' = t \<and> (\<forall>u e. entry s k = Some (u, e) \<longrightarrow> e \<le> now) \<and> entry s' k = Some (t, now + ttl)"
    and acquire_keeps:
      "good s \<Longrightarrow> entry s k' = Some (u, e) \<Longrightarrow> now < e \<Longrightarrow>
         entry (snd (lk_acquire ops n now s k t ttl)) k' = Some (u, e)"
    and release_keeps:
      "good s \<Longrightarrow> entry s k' = Some (u, e) \<Longrightarrow> now < e \<Longrightarrow> k' \<noteq> k \<or> u \<noteq> t \<Longrightarrow>
         entry (snd (lk_release ops n now s k t)) k' = Some (u, e)"
    and force_keeps:
      "good s \<Longrightarrow> entry s k' = Some (u, e) \<Longrightarrow> now < e \<Longrightarrow> k' \<noteq> k \<Longrightarrow>
         entry (snd (lk_force_release ops n now s k)) k' = Some (u, e)"
    and refresh_granted:
      "good s \<Longrightarrow> lk_refresh ops n now s k t ttl = (Inr (), s') \<Longrightarrow>
         (\<exists>e. entry s k = Some (t, e) \<and> now < e) \<and> entry s' k = Some (t, now + ttl div 1000000 * 1000000)"
    and refresh_keeps:
      "good s \<Longrightarrow> entry s k' = Some (u, e) \<Longrightarrow> now < e \<Longrightarrow>
         entry (snd (lk_refresh ops n now s k t ttl)) k' = Some (u, e) \<or>
         k' = k \<and> u = t \<and> entry (snd (lk_refresh ops n now s k t ttl)) k' = Some (u, now + ttl div 1000000 * 1000000)"

section \<open>Nodes that use a locker\<close>

text \<open>
  The world: the clock, the locker's state, what each holder believes (the lock of a key and a token
  with the instant the server granted it to), the tokens drawn so far, and the holders that held a key when someone
  force-released it (\<open>ResumeAll\<close> does on the start of any node).
\<close>

record 'st lock_world =
  lw_now :: time
  lw_store :: 'st
  lw_held :: "string \<times> string \<rightharpoonup> time"
  lw_used :: "string set"
  lw_forced :: "(string \<times> string) set"

inductive lock_step :: "'st locker \<Rightarrow> 'st lock_world \<Rightarrow> 'st lock_world \<Rightarrow> bool" for ops where
  tick: "lw_now w \<le> now' \<Longrightarrow> lock_step ops w (w\<lparr> lw_now := now' \<rparr>)"
| acquire: "t \<notin> lw_used w \<Longrightarrow> lk_acquire ops n (lw_now w) (lw_store w) k t ttl = (Inr t', s') \<Longrightarrow>
    lock_step ops w (w\<lparr> lw_store := s', lw_held := (lw_held w)((k, t') \<mapsto> lw_now w + ttl),
                        lw_used := insert t (lw_used w) \<rparr>)"
| acquire_fail: "t \<notin> lw_used w \<Longrightarrow> lk_acquire ops n (lw_now w) (lw_store w) k t ttl = (Inl err, s') \<Longrightarrow>
    lock_step ops w (w\<lparr> lw_store := s', lw_used := insert t (lw_used w) \<rparr>)"
| release: "lw_held w (k, t) = Some e \<Longrightarrow> lk_release ops n (lw_now w) (lw_store w) k t = (res, s') \<Longrightarrow>
    lock_step ops w (w\<lparr> lw_store := s', lw_held := (lw_held w)((k, t) := None) \<rparr>)"
| refresh: "lw_held w (k, t) = Some e \<Longrightarrow> e \<le> lw_now w + ttl div 1000000 * 1000000 \<Longrightarrow>
    lk_refresh ops n (lw_now w) (lw_store w) k t ttl = (Inr (), s') \<Longrightarrow>
    lock_step ops w (w\<lparr> lw_store := s', lw_held := (lw_held w)((k, t) \<mapsto> lw_now w + ttl div 1000000 * 1000000) \<rparr>)"
| refresh_fail: "lw_held w (k, t) = Some e \<Longrightarrow> e \<le> lw_now w + ttl div 1000000 * 1000000 \<Longrightarrow>
    lk_refresh ops n (lw_now w) (lw_store w) k t ttl = (Inl err, s') \<Longrightarrow>
    lock_step ops w (w\<lparr> lw_store := s',
      lw_held := (if err = Err_Lock_Lost then (lw_held w)((k, t) := None) else lw_held w) \<rparr>)"
| force_release: "lk_force_release ops n (lw_now w) (lw_store w) k = (res, s') \<Longrightarrow>
    lock_step ops w (w\<lparr> lw_store := s', lw_forced := lw_forced w \<union> {(k, t) | t. lw_held w (k, t) \<noteq> None} \<rparr>)"
| crash: "lock_step ops w (w\<lparr> lw_held := (lw_held w)((k, t) := None) \<rparr>)"

inductive_cases lock_stepE: "lock_step ops w w'"

inductive lock_reach :: "'st locker \<Rightarrow> ('st \<Rightarrow> bool) \<Rightarrow> 'st lock_world \<Rightarrow> bool" for ops good where
  start: "good s \<Longrightarrow> lock_reach ops good \<lparr> lw_now = now, lw_store = s, lw_held = Map.empty, lw_used = {}, lw_forced = {} \<rparr>"
| step: "lock_reach ops good w \<Longrightarrow> lock_step ops w w' \<Longrightarrow> lock_reach ops good w'"

text \<open>The tokens whose holders are entitled to work on a key now.\<close>

definition live_holders :: "'st lock_world \<Rightarrow> string \<Rightarrow> string set" where
  "live_holders w k = {t. \<exists>e. lw_held w (k, t) = Some e \<and> lw_now w < e}"

text \<open>
  Every entitled holder has the key in the store, until at least the instant it was told, unless the key was taken from
  it by a forced release.
\<close>

definition held_ok :: "('st \<Rightarrow> string \<Rightarrow> (string \<times> time) option) \<Rightarrow> 'st lock_world \<Rightarrow> bool" where
  "held_ok entry w \<longleftrightarrow>
     (\<forall>k t e. lw_held w (k, t) = Some e \<longrightarrow>
        t \<in> lw_used w \<and> (lw_now w < e \<longrightarrow> (k, t) \<notin> lw_forced w \<longrightarrow> (\<exists>e'. entry (lw_store w) k = Some (t, e') \<and> e \<le> e')))"

lemma held_okD:
  "held_ok entry w \<Longrightarrow> lw_held w (k, t) = Some e \<Longrightarrow> t \<in> lw_used w"
  "held_ok entry w \<Longrightarrow> lw_held w (k, t) = Some e \<Longrightarrow> lw_now w < e \<Longrightarrow> (k, t) \<notin> lw_forced w \<Longrightarrow>
     \<exists>e'. entry (lw_store w) k = Some (t, e') \<and> e \<le> e'"
  unfolding held_ok_def by blast+

lemma held_okI:
  assumes "\<And>k t e. lw_held w (k, t) = Some e \<Longrightarrow> t \<in> lw_used w"
    and "\<And>k t e. lw_held w (k, t) = Some e \<Longrightarrow> lw_now w < e \<Longrightarrow> (k, t) \<notin> lw_forced w \<Longrightarrow>
      \<exists>e'. entry (lw_store w) k = Some (t, e') \<and> e \<le> e'"
  shows "held_ok entry w"
  using assms unfolding held_ok_def by blast

context locker_laws
begin

lemma held_ok_acquire:
  assumes "held_ok entry w" "good (lw_store w)" "lk_acquire ops n (lw_now w) (lw_store w) k t ttl = (Inr t', s')"
  shows "held_ok entry (w\<lparr> lw_store := s', lw_held := (lw_held w)((k, t') \<mapsto> lw_now w + ttl), lw_used := insert t (lw_used w) \<rparr>)"
proof -
  note g = acquire_granted [OF assms(2,3)]
  have s': "s' = snd (lk_acquire ops n (lw_now w) (lw_store w) k t ttl)" using assms(3) by simp
  have keeps: "entry s' j = Some (u, e)" if "entry (lw_store w) j = Some (u, e)" "lw_now w < e" for j u e
    unfolding s' using acquire_keeps [OF assms(2) that] .
  show ?thesis
  proof (rule held_okI, goal_cases)
    case (1 j u e)
    then show ?case using g held_okD(1) [OF assms(1)] by (auto split: if_splits)
  next
    case (2 j u e)
    show ?case
    proof (cases "(j, u) = (k, t')")
      case True
      then show ?thesis using 2 g by simp
    next
      case False
      with 2 obtain e' where "entry (lw_store w) j = Some (u, e')" "e \<le> e'" "lw_now w < e'"
        using held_okD(2) [OF assms(1), of j u e] by auto
      with keeps show ?thesis by auto
    qed
  qed
qed

lemma held_ok_acquire_fail:
  assumes "held_ok entry w" "good (lw_store w)" "lk_acquire ops n (lw_now w) (lw_store w) k t ttl = (r, s')"
  shows "held_ok entry (w\<lparr> lw_store := s', lw_used := insert t (lw_used w) \<rparr>)"
proof (rule held_okI, goal_cases)
  case (1 j u e)
  then show ?case using held_okD(1) [OF assms(1)] by auto
next
  case (2 j u e)
  then obtain e' where "entry (lw_store w) j = Some (u, e')" "e \<le> e'" "lw_now w < e'"
    using held_okD(2) [OF assms(1), of j u e] by auto
  then show ?case using acquire_keeps [OF assms(2), of j u e' "lw_now w" n k t ttl] assms(3) by auto
qed

lemma held_ok_release:
  assumes "held_ok entry w" "good (lw_store w)" "lk_release ops n (lw_now w) (lw_store w) k t = (r, s')"
  shows "held_ok entry (w\<lparr> lw_store := s', lw_held := (lw_held w)((k, t) := None) \<rparr>)"
proof (rule held_okI, goal_cases)
  case (1 j u e)
  then show ?case using held_okD(1) [OF assms(1)] by (auto split: if_splits)
next
  case (2 j u e)
  then have ne: "j \<noteq> k \<or> u \<noteq> t" "lw_held w (j, u) = Some e" by (auto split: if_splits)
  with 2 obtain e' where "entry (lw_store w) j = Some (u, e')" "e \<le> e'" "lw_now w < e'"
    using held_okD(2) [OF assms(1), of j u e] by auto
  then show ?case using release_keeps [OF assms(2), of j u e' "lw_now w" k t n] ne(1) assms(3) by auto
qed

lemma refresh_entry:
  assumes "held_ok entry w" "good (lw_store w)" "lk_refresh ops n (lw_now w) (lw_store w) k t ttl = (r, s')"
    and "lw_held w (k, t) = Some e0" "e0 \<le> lw_now w + ttl div 1000000 * 1000000"
    and "lw_held w (j, u) = Some e" "lw_now w < e" "(j, u) \<notin> lw_forced w"
  shows "\<exists>e'. entry s' j = Some (u, e') \<and> e \<le> e'"
proof -
  obtain e' where e': "entry (lw_store w) j = Some (u, e')" "e \<le> e'" "lw_now w < e'"
    using held_okD(2) [OF assms(1,6,7,8)] assms(7) by auto
  have "entry s' j = Some (u, e') \<or> j = k \<and> u = t \<and> entry s' j = Some (u, lw_now w + ttl div 1000000 * 1000000)"
    using refresh_keeps [OF assms(2) e'(1,3), of n k t ttl] assms(3) by simp
  then show ?thesis using e'(2) assms(4-6) by auto
qed

lemma held_ok_step:
  assumes "lock_step ops w w'" "held_ok entry w" "good (lw_store w)"
  shows "held_ok entry w' \<and> good (lw_store w')"
  using assms(1)
proof (cases rule: lock_step.cases)
  case (tick now')
  then show ?thesis using assms(2,3) by (auto simp: held_ok_def)
next
  case (acquire t n k ttl t' s')
  then show ?thesis using held_ok_acquire [OF assms(2,3)] good_ops(1) [OF assms(3), of n "lw_now w" k t ttl] by simp
next
  case (acquire_fail t n k ttl err s')
  then show ?thesis using held_ok_acquire_fail [OF assms(2,3)] good_ops(1) [OF assms(3), of n "lw_now w" k t ttl] by simp
next
  case (release k t e n res s')
  then show ?thesis using held_ok_release [OF assms(2,3)] good_ops(2) [OF assms(3), of n "lw_now w" k t] by simp
next
  case (refresh k t e ttl n s')
  have "entry s' k = Some (t, lw_now w + ttl div 1000000 * 1000000)"
    using refresh_granted [OF assms(3) refresh(4)] by blast
  then have "held_ok entry w'"
    unfolding refresh(1)
    using refresh_entry [OF assms(2,3) refresh(4,2,3)] held_okD(1) [OF assms(2)] refresh(2)
    by (intro held_okI) (auto split: if_splits)
  then show ?thesis using refresh good_ops(3) [OF assms(3), of n "lw_now w" k t ttl] by simp
next
  case (refresh_fail k t e ttl n err s')
  have "held_ok entry w'"
    unfolding refresh_fail(1)
    using refresh_entry [OF assms(2,3) refresh_fail(4,2,3)] held_okD(1) [OF assms(2)]
    by (intro held_okI) (auto split: if_splits)
  then show ?thesis using refresh_fail good_ops(3) [OF assms(3), of n "lw_now w" k t ttl] by simp
next
  case (force_release n k res s')
  have "held_ok entry w'"
  proof (rule held_okI, goal_cases)
    case (1 j u e)
    then show ?case using held_okD(1) [OF assms(2)] force_release(1) by auto
  next
    case (2 j u e)
    then have ne: "j \<noteq> k" "(j, u) \<notin> lw_forced w" "lw_held w (j, u) = Some e" "lw_now w < e" using force_release(1) by auto
    then obtain e' where "entry (lw_store w) j = Some (u, e')" "e \<le> e'" "lw_now w < e'"
      using held_okD(2) [OF assms(2) ne(3,4,2)] by auto
    then show ?case using force_keeps [OF assms(3), of j u e' "lw_now w" k n] ne(1) force_release by auto
  qed
  then show ?thesis using force_release good_ops(4) [OF assms(3), of n "lw_now w" k] by simp
next
  case (crash k t)
  then show ?thesis using assms(2,3) by (auto simp: held_ok_def)
qed

lemma reach_held_ok: "lock_reach ops good w \<Longrightarrow> held_ok entry w \<and> good (lw_store w)"
proof (induction rule: lock_reach.induct)
  case (start s now)
  then show ?case by (simp add: held_ok_def)
next
  case (step w w')
  then show ?case using held_ok_step by blast
qed

lemma reach_exclusive:
  assumes "lock_reach ops good w" "t \<in> live_holders w k" "u \<in> live_holders w k" "(k, t) \<notin> lw_forced w" "(k, u) \<notin> lw_forced w"
  shows "t = u"
proof -
  have "held_ok entry w" using reach_held_ok [OF assms(1)] ..
  then have "\<exists>e'. entry (lw_store w) k = Some (v, e')" if "v \<in> live_holders w k" "(k, v) \<notin> lw_forced w" for v
    using held_okD(2) [of entry w k v] that unfolding live_holders_def by blast
  from this [OF assms(2,4)] this [OF assms(3,5)] show ?thesis by auto
qed

end

section \<open>RedisLocker satisfies the contract\<close>

lemma redis_locker_ops [simp]:
  "lk_acquire redis_locker = redis_acquire" "lk_release redis_locker = redis_release"
  "lk_refresh redis_locker = redis_refresh" "lk_force_release redis_locker = redis_force_release"
  by (simp_all add: redis_locker_def)

lemma redis_acquire_eqs:
  "redis_acquire Answered now c k t ttl =
     ((if fst (rd_setnx (fst c) now (snd c) k t ttl) then Inr t else Inl Err_Lock_Held),
      (fst c, snd (rd_setnx (fst c) now (snd c) k t ttl)))"
  "redis_acquire Request_Lost now c k t ttl = (Inl Err_Backend, c)"
  "redis_acquire Reply_Lost now c k t ttl = (Inl Err_Backend, (fst c, snd (rd_setnx (fst c) now (snd c) k t ttl)))"
  by (simp_all add: redis_acquire_def client_setnx_def net_call_def)

lemma redis_release_snd:
  "snd (redis_release n now c k t) =
     (fst c, if n = Request_Lost then snd c else snd (del_if_match_script (fst c) now k t (snd c)))"
  by (cases n) (simp_all add: redis_release_def client_del_if_match_def net_call_def)

lemma redis_refresh_snd:
  "snd (redis_refresh n now c k t ttl) =
     (fst c, if n = Request_Lost then snd c
             else snd (expire_if_match_script (fst c) now k t (ttl div 1000000) (snd c)))"
  by (cases n) (simp_all add: redis_refresh_def client_expire_if_match_def net_call_def)

lemma redis_refresh_Inr:
  "fst (redis_refresh n now c k t ttl) = Inr () \<longleftrightarrow>
     n = Answered \<and> fst (expire_if_match_script (fst c) now k t (ttl div 1000000) (snd c)) > 0"
  by (cases n) (simp_all add: redis_refresh_def client_expire_if_match_def net_call_def)

lemma redis_force_release_snd:
  "snd (redis_force_release n now c k) = (fst c, if n = Request_Lost then snd c else snd (rd_del (fst c) now (snd c) k))"
  by (cases n) (simp_all add: redis_force_release_def client_del_def net_call_def)

definition redis_entry :: "'s redis \<times> 's \<Rightarrow> string \<Rightarrow> (string \<times> time) option" where
  "redis_entry c = rd_entry (fst c) (snd c)"

interpretation redis_lock: locker_laws redis_locker redis_entry "\<lambda>c. redis_laws (fst c)"
proof
  fix s s' :: "'a redis \<times> 'a" and n now k k' t t' u e ttl
  assume good: "redis_laws (fst s)"
  show "redis_laws (fst (snd (lk_acquire redis_locker n now s k t ttl)))"
    using good by (cases n) (simp_all add: redis_acquire_eqs)
  show "redis_laws (fst (snd (lk_release redis_locker n now s k t)))"
    using good by (simp add: redis_release_snd)
  show "redis_laws (fst (snd (lk_refresh redis_locker n now s k t ttl)))"
    using good by (simp add: redis_refresh_snd)
  show "t' = t \<and> (\<forall>u e. redis_entry s k = Some (u, e) \<longrightarrow> e \<le> now) \<and> redis_entry s' k = Some (t, now + ttl)"
    if "lk_acquire redis_locker n now s k t ttl = (Inr t', s')"
  proof -
    have n: "n = Answered" using that by (cases n) (auto simp: redis_acquire_eqs)
    then have free: "live_entry (fst s) now (snd s) k = None" and eq: "t' = t"
      "s' = (fst s, snd (rd_setnx (fst s) now (snd s) k t ttl))"
      using that good by (auto simp: redis_acquire_eqs redis_setnx split: if_splits)
    then have "redis_entry s' k = Some (t, now + ttl)"
      using good by (simp add: redis_entry_def redis_setnx(2) [OF good])
    moreover have "\<forall>u e. redis_entry s k = Some (u, e) \<longrightarrow> e \<le> now"
      using free by (simp add: live_entry_None redis_entry_def)
    ultimately show ?thesis using eq(1) by blast
  qed
  show "redis_entry (snd (lk_acquire redis_locker n now s k t ttl)) k' = Some (u, e)"
    if "redis_entry s k' = Some (u, e)" "now < e"
  proof -
    have "live_entry (fst s) now (snd s) k' = Some (u, e)" using that by (simp add: live_entry_Some redis_entry_def)
    then have "rd_entry (fst s) (snd (rd_setnx (fst s) now (snd s) k t ttl)) k' = Some (u, e)"
      using good that by (auto simp: redis_setnx redis_entry_def)
    then show ?thesis using that by (cases n) (simp_all add: redis_acquire_eqs redis_entry_def)
  qed
  show "redis_entry (snd (lk_release redis_locker n now s k t)) k' = Some (u, e)"
    if "redis_entry s k' = Some (u, e)" "now < e" "k' \<noteq> k \<or> u \<noteq> t"
    using good that by (auto simp: redis_release_snd redis_entry_def del_if_match_entry live_entry_Some)
  show "redis_laws (fst (snd (lk_force_release redis_locker n now s k)))" using good by (simp add: redis_force_release_snd)
  show "redis_entry (snd (lk_force_release redis_locker n now s k)) k' = Some (u, e)"
    if "redis_entry s k' = Some (u, e)" "now < e" "k' \<noteq> k"
    using good that by (auto simp: redis_force_release_snd redis_entry_def redis_del)
  show "(\<exists>e. redis_entry s k = Some (t, e) \<and> now < e) \<and>
        redis_entry s' k = Some (t, now + ttl div 1000000 * 1000000)"
    if "lk_refresh redis_locker n now s k t ttl = (Inr (), s')"
  proof -
    have "fst (redis_refresh n now s k t ttl) = Inr ()" "s' = snd (redis_refresh n now s k t ttl)" using that by auto
    then show ?thesis
      using good
      by (auto simp: redis_refresh_Inr redis_refresh_snd expire_if_match_result expire_if_match_entry
          live_entry_Some redis_entry_def)
  qed
  show "redis_entry (snd (lk_refresh redis_locker n now s k t ttl)) k' = Some (u, e) \<or>
        k' = k \<and> u = t \<and>
        redis_entry (snd (lk_refresh redis_locker n now s k t ttl)) k' = Some (u, now + ttl div 1000000 * 1000000)"
    if "redis_entry s k' = Some (u, e)" "now < e"
    using good that by (auto simp: redis_refresh_snd redis_entry_def expire_if_match_entry live_entry_Some)
qed

section \<open>Properties\<close>


text \<open>
  The witness is the run of the regression test: a first holder outlives its TTL, a second one takes
  the key, and the stale release of the first leaves the second one's lock in place.
\<close>

definition world0 :: "((string \<rightharpoonup> string \<times> time) redis \<times> (string \<rightharpoonup> string \<times> time)) lock_world" where
  "world0 = \<lparr> lw_now = 0, lw_store = (table_redis, Map.empty), lw_held = Map.empty, lw_used = {}, lw_forced = {} \<rparr>"

definition world1 where
  "world1 = world0\<lparr> lw_store := snd (redis_acquire Answered 0 (lw_store world0) ''k'' ''a'' 10),
     lw_held := [(''k'', ''a'') \<mapsto> 10], lw_used := {''a''} \<rparr>"

definition world2 where
  "world2 = world1\<lparr> lw_now := 12 \<rparr>"

definition world3 where
  "world3 = world2\<lparr> lw_store := snd (redis_acquire Answered 12 (lw_store world2) ''k'' ''b'' 10),
     lw_held := (lw_held world2)((''k'', ''b'') \<mapsto> 22), lw_used := {''b'', ''a''} \<rparr>"

definition world4 where
  "world4 = world3\<lparr> lw_store := snd (redis_release Answered 12 (lw_store world3) ''k'' ''a''),
     lw_held := (lw_held world3)((''k'', ''a'') := None) \<rparr>"

lemmas world_defs = world4_def world3_def world2_def world1_def world0_def

lemmas table_redis_simps = table_redis_def table_live_def redis_acquire_eqs redis_release_def
  client_del_if_match_def del_if_match_script_def net_call_def

lemma world1_reach: "lock_reach redis_locker (\<lambda>c. redis_laws (fst c)) world1"
proof (rule lock_reach.step)
  show "lock_reach redis_locker (\<lambda>c. redis_laws (fst c)) world0"
    unfolding world0_def by (rule lock_reach.start) (simp add: table_redis_laws)
  have "redis_acquire Answered 0 (lw_store world0) ''k'' ''a'' 10
      = (Inr ''a'', snd (redis_acquire Answered 0 (lw_store world0) ''k'' ''a'' 10))"
    by (simp add: world0_def table_redis_simps)
  then show "lock_step redis_locker world0 world1"
    using lock_step.acquire [of "''a''" world0 redis_locker Answered "''k''" 10 "''a''"]
    by (simp add: world1_def) (simp add: world0_def)
qed

lemma world3_reach: "lock_reach redis_locker (\<lambda>c. redis_laws (fst c)) world3"
proof (rule lock_reach.step)
  show "lock_reach redis_locker (\<lambda>c. redis_laws (fst c)) world2"
    unfolding world2_def using world1_reach
    by (rule lock_reach.step) (rule lock_step.tick, simp add: world1_def world0_def)
  have "redis_acquire Answered 12 (lw_store world2) ''k'' ''b'' 10
      = (Inr ''b'', snd (redis_acquire Answered 12 (lw_store world2) ''k'' ''b'' 10))"
    by (simp add: world2_def world1_def world0_def table_redis_simps)
  then show "lock_step redis_locker world2 world3"
    using lock_step.acquire [of "''b''" world2 redis_locker Answered "''k''" 10 "''b''"]
    by (simp add: world3_def) (simp add: world2_def world1_def world0_def)
qed

lemma world4_reach: "lock_reach redis_locker (\<lambda>c. redis_laws (fst c)) world4"
proof (rule lock_reach.step [OF world3_reach])
  show "lock_step redis_locker world3 world4"
    using lock_step.release [of world3 "''k''" "''a''" 10 redis_locker Answered
        "fst (redis_release Answered 12 (lw_store world3) ''k'' ''a'')"]
    by (simp add: world4_def) (simp add: world3_def world2_def world1_def world0_def)
qed


text \<open>
  \<open>ResumeAll\<close> force-releases the locks of all active migrations on the start of any node, on the ground that their
  holder died. With several nodes it may be alive: here the lock of \<open>a\<close> is taken from it and given to \<open>b\<close> while
  \<open>a\<close> is entitled to work.
\<close>

definition world2f where
  "world2f = world1\<lparr> lw_store := snd (redis_force_release Answered 0 (lw_store world1) ''k''),
     lw_forced := lw_forced world1 \<union> {(''k'', t) | t. lw_held world1 (''k'', t) \<noteq> None} \<rparr>"

definition world3f where
  "world3f = world2f\<lparr> lw_store := snd (redis_acquire Answered 0 (lw_store world2f) ''k'' ''b'' 10),
     lw_held := (lw_held world2f)((''k'', ''b'') \<mapsto> 10), lw_used := {''b'', ''a''} \<rparr>"

lemma forced_release_admits_second:
  "lock_reach redis_locker (\<lambda>c. redis_laws (fst c)) world3f" "{''a'', ''b''} \<subseteq> live_holders world3f ''k''"
proof -
  have "lock_step redis_locker world1 world2f"
    using lock_step.force_release [of redis_locker Answered world1 "''k''"
        "fst (redis_force_release Answered 0 (lw_store world1) ''k'')" "snd (redis_force_release Answered 0 (lw_store world1) ''k'')"]
    by (simp add: world2f_def) (simp add: world1_def world0_def)
  with world1_reach have 2: "lock_reach redis_locker (\<lambda>c. redis_laws (fst c)) world2f" by (rule lock_reach.step)
  have "redis_acquire Answered 0 (lw_store world2f) ''k'' ''b'' 10
      = (Inr ''b'', snd (redis_acquire Answered 0 (lw_store world2f) ''k'' ''b'' 10))"
    by (simp add: world2f_def world1_def world0_def table_redis_simps redis_force_release_def client_del_def)
  then have "lock_step redis_locker world2f world3f"
    using lock_step.acquire [of "''b''" world2f redis_locker Answered "''k''" 10 "''b''"]
    by (simp add: world3f_def) (simp add: world2f_def world1_def world0_def)
  with 2 show "lock_reach redis_locker (\<lambda>c. redis_laws (fst c)) world3f" by (rule lock_reach.step)
  show "{''a'', ''b''} \<subseteq> live_holders world3f ''k''" by (simp add: live_holders_def world3f_def world2f_def world1_def world0_def)
qed

text \<open>Without coordination nothing is excluded: the no-op locker grants every request.\<close>

lemma noop_always_grants: "lk_acquire noop_locker n now s k t ttl = (Inr t, s)"
  by (simp add: noop_locker_def)

text \<open>A crashed holder does not block the key for ever: after its expiry an answered call is granted.\<close>

lemma acquire_after_expiry:
  assumes "redis_laws (fst c)" "\<forall>u e. redis_entry c k = Some (u, e) \<longrightarrow> e \<le> now"
  shows "fst (redis_acquire Answered now c k t ttl) = Inr t"
  using assms by (simp add: redis_acquire_eqs redis_setnx live_entry_None redis_entry_def)

end
