(* ===== verification/Ring_Buffer.thy ===== *)
theory Ring_Buffer
  imports Go_Lib
begin

text \<open>
  The metrics history of \<open>internal/metrics/ring_buffer.go\<close>: a fixed array with a write position and a
  count. Its abstraction is the list of the points added, of which a snapshot is the newest 360.
\<close>

definition ring_size :: nat where
  "ring_size = 360"

record data_point =
  dp_timestamp :: int
  dp_requests_total :: int
  dp_request_errors :: int
  dp_artifacts_stored :: int
  dp_bytes_stored :: int
  dp_downloads_total :: int
  dp_goroutines :: int

record ring_buffer =
  rb_data :: "data_point list"
  rb_head :: nat
  rb_size :: nat

definition zero_point :: data_point where
  "zero_point = \<lparr> dp_timestamp = 0, dp_requests_total = 0, dp_request_errors = 0, dp_artifacts_stored = 0,
     dp_bytes_stored = 0, dp_downloads_total = 0, dp_goroutines = 0 \<rparr>"

definition empty_ring :: ring_buffer where
  "empty_ring = \<lparr> rb_data = replicate ring_size zero_point, rb_head = 0, rb_size = 0 \<rparr>"

definition ring_add :: "ring_buffer \<Rightarrow> data_point \<Rightarrow> ring_buffer" where
  "ring_add r p =
     r\<lparr> rb_data := (rb_data r)[rb_head r := p], rb_head := (rb_head r + 1) mod ring_size,
        rb_size := (if rb_size r < ring_size then rb_size r + 1 else rb_size r) \<rparr>"

definition ring_snapshot :: "ring_buffer \<Rightarrow> data_point list" where
  "ring_snapshot r =
     (if rb_size r = 0 then []
      else (let start = (rb_head r + ring_size - rb_size r) mod ring_size
            in map (\<lambda>i. rb_data r ! ((start + i) mod ring_size)) [0..<rb_size r]))"

text \<open>The points added so far, and the shape of a buffer that holds the newest of them.\<close>

definition ring_rel :: "ring_buffer \<Rightarrow> data_point list \<Rightarrow> bool" where
  "ring_rel r ps \<longleftrightarrow>
     length (rb_data r) = ring_size \<and> rb_head r = length ps mod ring_size \<and>
     rb_size r = min (length ps) ring_size \<and>
     (\<forall>i < length ps. length ps \<le> i + ring_size \<longrightarrow> rb_data r ! (i mod ring_size) = ps ! i)"

lemma ring_size_pos: "0 < ring_size" by (simp add: ring_size_def)

lemma mod_ring_inj:
  assumes "i < n" "n < i + ring_size"
  shows "i mod ring_size \<noteq> n mod ring_size"
proof
  assume "i mod ring_size = n mod ring_size"
  then have "ring_size dvd n - i" using assms(1) by (metis less_imp_le_nat mod_eq_dvd_iff_nat)
  then show False using assms nat_dvd_not_less [of "n - i" ring_size] by simp
qed

lemma ring_rel_empty: "ring_rel empty_ring []"
  by (simp add: ring_rel_def empty_ring_def)

lemma ring_rel_add:
  assumes "ring_rel r ps"
  shows "ring_rel (ring_add r p) (ps @ [p])"
proof -
  let ?n = "length ps"
  have "((rb_data r)[?n mod ring_size := p]) ! (i mod ring_size) = (ps @ [p]) ! i"
    if "i < Suc ?n" "Suc ?n \<le> i + ring_size" for i
  proof (cases "i = ?n")
    case True
    then show ?thesis using assms ring_size_pos by (simp add: ring_rel_def)
  next
    case False
    then have "i < ?n" using that(1) by simp
    then show ?thesis using assms that mod_ring_inj [of i ?n] by (simp add: ring_rel_def nth_append)
  qed
  then show ?thesis using assms by (auto simp: ring_rel_def ring_add_def mod_Suc_eq)
qed

lemma ring_rel_foldl: "ring_rel r ps \<Longrightarrow> ring_rel (foldl ring_add r qs) (ps @ qs)"
proof (induction qs arbitrary: r ps)
  case (Cons q qs)
  then show ?case using Cons.IH [OF ring_rel_add [OF Cons.prems]] by simp
qed simp

lemma ring_start:
  assumes "0 < k" "k \<le> ring_size"
  shows "(n mod ring_size + ring_size - k) mod ring_size = (n + ring_size - k) mod ring_size"
proof -
  have "(n + ring_size - k) mod ring_size = (n + (ring_size - k)) mod ring_size" using assms by simp
  also have "\<dots> = (n mod ring_size + (ring_size - k)) mod ring_size" by (simp add: mod_add_left_eq)
  finally show ?thesis using assms by simp
qed

lemma ring_rel_snapshot:
  assumes "ring_rel r ps"
  shows "ring_snapshot r = drop (length ps - ring_size) ps"
proof (cases "ps = []")
  case True
  then show ?thesis using assms by (simp add: ring_rel_def ring_snapshot_def)
next
  case False
  let ?n = "length ps" and ?k = "rb_size r"
  have k: "0 < ?k" "?k \<le> ring_size" "?k \<le> ?n" "?n - ?k = ?n - ring_size"
    using assms False ring_size_pos by (auto simp: ring_rel_def min_def)
  let ?start = "(rb_head r + ring_size - ?k) mod ring_size"
  have "rb_data r ! ((?start + i) mod ring_size) = ps ! (?n - ?k + i)" if "i < ?k" for i
  proof -
    have "(?start + i) mod ring_size = (?n + ring_size - ?k + i) mod ring_size"
      using assms ring_start [OF k(1,2), of ?n] by (simp add: ring_rel_def mod_add_left_eq)
    also have "\<dots> = (?n - ?k + i + ring_size) mod ring_size" using k(3) by (simp add: add.commute add.left_commute)
    finally have "(?start + i) mod ring_size = (?n - ?k + i) mod ring_size" by simp
    moreover have "rb_data r ! ((?n - ?k + i) mod ring_size) = ps ! (?n - ?k + i)"
      using assms that k by (auto simp: ring_rel_def)
    ultimately show ?thesis by simp
  qed
  then have "ring_snapshot r = map (\<lambda>i. ps ! (?n - ?k + i)) [0..<?k]"
    using k(1) by (simp add: ring_snapshot_def Let_def)
  also have "\<dots> = drop (?n - ?k) ps"
    using k by (intro nth_equalityI) simp_all
  finally show ?thesis using k(4) by simp
qed

section \<open>Property\<close>

text \<open>
  A snapshot is the newest 360 points in the order they were added, all of them while there are
  fewer, however often the write position has wrapped around.
\<close>

theorem ring_snapshot_newest:
  "ring_snapshot (foldl ring_add empty_ring ps) = drop (length ps - 360) ps"
  using ring_rel_snapshot [OF ring_rel_foldl [OF ring_rel_empty]] by (simp add: ring_size_def)

end
