(* ===== verification/Auth_Cache.thy ===== *)
theory Auth_Cache
  imports Domain
begin

text \<open>
  The Basic-auth verification cache of \<open>internal/service/basic_auth_cache.go\<close>. The keyed hash is the
  parameter \<open>bc_mac\<close> (HMAC-SHA256 under the cache's random key, rendered in hex); what the code relies
  on is that no two of the messages it ever hashes collide. The framing of the messages, which makes different
  credentials different messages, is modelled and proved injective. A Go map is an association list,
  so iteration has an order; the order is irrelevant to every result.
\<close>

record auth_entry =
  ae_credential_key :: string
  ae_user_key :: string
  ae_password_hash :: string
  ae_status :: string
  ae_tokens_valid_after :: time
  ae_expires_at :: time

record auth_cache =
  bc_mac :: "string \<Rightarrow> string"
  bc_ttl :: duration
  bc_max_size :: nat
  bc_entries :: "(string \<times> auth_entry) list"
  bc_by_user :: "(string \<times> string list) list"

definition new_auth_cache :: "(string \<Rightarrow> string) \<Rightarrow> duration \<Rightarrow> nat \<Rightarrow> auth_cache" where
  "new_auth_cache mac ttl max_size =
     \<lparr> bc_mac = mac, bc_ttl = ttl, bc_max_size = max_size, bc_entries = [], bc_by_user = [] \<rparr>"

definition basic_auth_cache_ttl :: duration where "basic_auth_cache_ttl = minutes 1"
definition basic_auth_cache_max_entries :: nat where "basic_auth_cache_max_entries = 4096"

section \<open>The keys\<close>

text \<open>\<open>binary.BigEndian.PutUint64\<close>.\<close>

fun be_bytes :: "nat \<Rightarrow> nat \<Rightarrow> string" where
  "be_bytes 0 n = []"
| "be_bytes (Suc k) n = be_bytes k (n div 256) @ [char_of (n mod 256)]"

definition hmac_field :: "string \<Rightarrow> string" where
  "hmac_field v = be_bytes 8 (length v) @ v"

definition credential_message :: "string \<Rightarrow> string \<Rightarrow> string" where
  "credential_message username password =
     ''credential'' @ [CHR 0x00] @ hmac_field username @ hmac_field password"

definition user_message :: "string \<Rightarrow> string" where
  "user_message username = ''user'' @ [CHR 0x00] @ hmac_field username"

definition credential_key :: "auth_cache \<Rightarrow> string \<Rightarrow> string \<Rightarrow> string" where
  "credential_key c username password = bc_mac c (credential_message username password)"

definition user_key :: "auth_cache \<Rightarrow> string \<Rightarrow> string" where
  "user_key c username = bc_mac c (user_message username)"

section \<open>The operations\<close>

definition same_user_state :: "auth_entry \<Rightarrow> user \<Rightarrow> bool" where
  "same_user_state e u \<longleftrightarrow>
     ae_password_hash e = usr_password_hash u \<and> ae_status e = usr_status u \<and>
     ae_tokens_valid_after e = usr_tokens_valid_after u"

definition delete_locked :: "string \<Rightarrow> string \<Rightarrow> auth_cache \<Rightarrow> auth_cache" where
  "delete_locked key ukey c =
     (let c' = c\<lparr> bc_entries := AList.delete key (bc_entries c) \<rparr>
      in case map_of (bc_by_user c) ukey of
           None \<Rightarrow> c'
         | Some keys \<Rightarrow>
             (let keys' = removeAll key keys
              in c'\<lparr> bc_by_user :=
                    (if keys' = [] then AList.delete ukey (bc_by_user c)
                     else AList.update ukey keys' (bc_by_user c)) \<rparr>))"

text \<open>One step of the loop over \<open>c.byUser[userKey]\<close>; a missing entry reads as the zero entry.\<close>

definition evict_stale :: "time \<Rightarrow> user \<Rightarrow> auth_cache \<Rightarrow> string \<Rightarrow> auth_cache" where
  "evict_stale now u c key =
     (case map_of (bc_entries c) key of
        None \<Rightarrow> delete_locked key [] c
      | Some e \<Rightarrow>
          if \<not> ae_expires_at e > now \<or> \<not> same_user_state e u then delete_locked key (ae_user_key e) c else c)"

definition cache_valid :: "auth_cache option \<Rightarrow> time \<Rightarrow> string \<Rightarrow> string \<Rightarrow> user \<Rightarrow> bool \<times> auth_cache option" where
  "cache_valid oc now username password u =
     (case oc of
        None \<Rightarrow> (False, None)
      | Some c \<Rightarrow>
          (let keys = (case map_of (bc_by_user c) (user_key c username) of None \<Rightarrow> [] | Some ks \<Rightarrow> ks);
               c' = foldl (evict_stale now u) c keys
           in ((case map_of (bc_entries c') (credential_key c username password) of
                  None \<Rightarrow> False
                | Some e \<Rightarrow> ae_expires_at e > now \<and> same_user_state e u),
               Some c')))"

definition evict_expired :: "time \<Rightarrow> auth_cache \<Rightarrow> string \<times> auth_entry \<Rightarrow> auth_cache" where
  "evict_expired now c ke =
     (if \<not> ae_expires_at (snd ke) > now then delete_locked (fst ke) (ae_user_key (snd ke)) c else c)"

definition cache_insert :: "auth_cache \<Rightarrow> time \<Rightarrow> string \<Rightarrow> string \<Rightarrow> user \<Rightarrow> auth_cache" where
  "cache_insert c now username password u =
     (let key = credential_key c username password;
          ukey = user_key c username;
          e = \<lparr> ae_credential_key = key, ae_user_key = ukey, ae_password_hash = usr_password_hash u,
                ae_status = usr_status u, ae_tokens_valid_after = usr_tokens_valid_after u,
                ae_expires_at = now + bc_ttl c \<rparr>;
          keys = (case map_of (bc_by_user c) ukey of None \<Rightarrow> [] | Some ks \<Rightarrow> ks)
      in c\<lparr> bc_entries := AList.update key e (bc_entries c),
            bc_by_user := AList.update ukey (List.insert key keys) (bc_by_user c) \<rparr>)"

definition cache_remember :: "auth_cache option \<Rightarrow> time \<Rightarrow> string \<Rightarrow> string \<Rightarrow> user \<Rightarrow> auth_cache option" where
  "cache_remember oc now username password u =
     (case oc of
        None \<Rightarrow> None
      | Some c \<Rightarrow>
          (let c1 = foldl (evict_expired now) c (bc_entries c);
               key = credential_key c username password;
               c2 = (case map_of (bc_entries c1) key of
                       None \<Rightarrow> c1
                     | Some old \<Rightarrow> delete_locked key (ae_user_key old) c1)
           in Some (if length (bc_entries c2) \<ge> bc_max_size c2 then c2
                    else cache_insert c2 now username password u)))"

section \<open>The framing is injective\<close>

lemma length_be_bytes [simp]: "length (be_bytes k n) = k"
  by (induction k arbitrary: n) auto

lemma be_bytes_inj: "n < 256 ^ k \<Longrightarrow> m < 256 ^ k \<Longrightarrow> be_bytes k n = be_bytes k m \<Longrightarrow> n = m"
proof (induction k arbitrary: n m)
  case (Suc k)
  have "n div 256 < 256 ^ k" "m div 256 < 256 ^ k"
    using Suc.prems(1,2) by (simp_all add: less_mult_imp_div_less mult.commute)
  moreover have "be_bytes k (n div 256) = be_bytes k (m div 256)" using Suc.prems(3) by simp
  ultimately have "n div 256 = m div 256" using Suc.IH by blast
  moreover have "n mod 256 = m mod 256"
  proof -
    have "(char_of (n mod 256) :: char) = char_of (m mod 256)" using Suc.prems(3) by simp
    then have "(of_char (char_of (n mod 256) :: char) :: nat) = of_char (char_of (m mod 256) :: char)" by (simp only:)
    then show ?thesis by simp
  qed
  ultimately show ?case by (metis div_mult_mod_eq)
qed simp

definition short :: "string \<Rightarrow> bool" where
  "short s \<longleftrightarrow> length s < 256 ^ 8"

lemma hmac_field_append:
  assumes "short a" "short b" "hmac_field a @ s = hmac_field b @ t"
  shows "a = b \<and> s = t"
proof -
  have "be_bytes 8 (length a) = be_bytes 8 (length b)" "a @ s = b @ t"
    using assms(3) by (simp_all add: hmac_field_def)
  then have "length a = length b" using assms(1,2) be_bytes_inj unfolding short_def by blast
  then show ?thesis using \<open>a @ s = b @ t\<close> by simp
qed

lemma credential_message_inj:
  assumes "short u" "short p" "short u'" "short p'" "credential_message u p = credential_message u' p'"
  shows "u = u' \<and> p = p'"
proof -
  have eq: "hmac_field u @ hmac_field p = hmac_field u' @ hmac_field p'"
    using assms(5) by (simp add: credential_message_def)
  then have "u = u'" "hmac_field p @ [] = hmac_field p' @ []" using hmac_field_append [OF assms(1,3) eq] by simp_all
  then show ?thesis using hmac_field_append [OF assms(2,4), of "[]" "[]"] by blast
qed

section \<open>The cache holds only what was verified\<close>

text \<open>
  Every entry stands for a credential that was verified for it: \<open>ok username password entry\<close>. \<open>M\<close> are the messages
  the process hashes under the cache's key; collision resistance is asked of those alone.
\<close>

definition cache_sound :: "string set \<Rightarrow> (string \<Rightarrow> string \<Rightarrow> auth_entry \<Rightarrow> bool) \<Rightarrow> auth_cache option \<Rightarrow> bool" where
  "cache_sound M ok oc \<longleftrightarrow>
     (case oc of None \<Rightarrow> True
      | Some c \<Rightarrow>
          inj_on (bc_mac c) M \<and>
          (\<forall>k e. map_of (bc_entries c) k = Some e \<longrightarrow>
             (\<exists>u p. short u \<and> short p \<and> credential_message u p \<in> M \<and> k = credential_key c u p \<and> ok u p e)))"

lemma cache_sound_weaken: "cache_sound M ok oc \<Longrightarrow> (\<And>u p e. ok u p e \<Longrightarrow> ok' u p e) \<Longrightarrow> cache_sound M ok' oc"
  unfolding cache_sound_def by (cases oc) (simp_all, metis)

definition cache_bounded :: "auth_cache option \<Rightarrow> bool" where
  "cache_bounded oc \<longleftrightarrow>
     (case oc of None \<Rightarrow> True
      | Some c \<Rightarrow> distinct (map fst (bc_entries c)) \<and> length (bc_entries c) \<le> bc_max_size c)"

lemma delete_locked_fields [simp]:
  "bc_mac (delete_locked k u c) = bc_mac c" "bc_ttl (delete_locked k u c) = bc_ttl c"
  "bc_max_size (delete_locked k u c) = bc_max_size c"
  "bc_entries (delete_locked k u c) = AList.delete k (bc_entries c)"
  by (simp_all add: delete_locked_def Let_def split: option.split)

lemma credential_key_cong: "bc_mac c = bc_mac c' \<Longrightarrow> credential_key c u p = credential_key c' u p"
  by (simp add: credential_key_def)

lemma AList_delete_le: "length (AList.delete k xs) \<le> length xs"
  by (simp add: AList.delete_eq)

lemma cache_sound_delete:
  assumes "cache_sound M ok (Some c)"
  shows "cache_sound M ok (Some (delete_locked k u c))"
  using assms credential_key_cong [of "delete_locked k u c" c]
  by (auto simp: cache_sound_def AList.delete_conv' split: if_splits)

lemma cache_bounded_delete:
  assumes "cache_bounded (Some c)"
  shows "cache_bounded (Some (delete_locked k u c))"
  using assms AList_delete_le [of k "bc_entries c"] by (simp add: cache_bounded_def distinct_delete)

text \<open>What both eviction loops keep: they only ever delete entries.\<close>

definition evicted :: "auth_cache \<Rightarrow> auth_cache \<Rightarrow> bool" where
  "evicted c c' \<longleftrightarrow>
     bc_mac c' = bc_mac c \<and> bc_ttl c' = bc_ttl c \<and> bc_max_size c' = bc_max_size c \<and>
     (\<forall>k e. map_of (bc_entries c') k = Some e \<longrightarrow> map_of (bc_entries c) k = Some e) \<and>
     (distinct (map fst (bc_entries c)) \<longrightarrow> distinct (map fst (bc_entries c'))) \<and>
     length (bc_entries c') \<le> length (bc_entries c)"

lemma evicted_refl: "evicted c c" by (simp add: evicted_def)

lemma evicted_trans: "evicted a b \<Longrightarrow> evicted b c \<Longrightarrow> evicted a c"
  unfolding evicted_def by (metis le_trans)

lemma evicted_delete: "evicted c (delete_locked k u c)"
  by (auto simp: evicted_def AList.delete_conv' AList_delete_le distinct_delete split: if_splits)

lemma evicted_foldl: "(\<And>c x. evicted c (f c x)) \<Longrightarrow> evicted c (foldl f c xs)"
proof (induction xs arbitrary: c)
  case Nil
  then show ?case by (simp add: evicted_refl)
next
  case (Cons x xs)
  then show ?case using evicted_trans [of c "f c x"] by simp
qed

lemma evicted_stale: "evicted c (evict_stale now u c k)"
  by (simp add: evict_stale_def evicted_delete evicted_refl split: option.split)

lemma evicted_expired: "evicted c (evict_expired now c ke)"
  by (simp add: evict_expired_def evicted_delete evicted_refl)

lemma cache_sound_evicted:
  assumes "evicted c c'" "cache_sound M ok (Some c)"
  shows "cache_sound M ok (Some c')"
proof -
  have "bc_mac c' = bc_mac c" using assms(1) by (simp add: evicted_def)
  then show ?thesis
    using assms credential_key_cong [of c' c] unfolding cache_sound_def evicted_def option.case by metis
qed

lemma cache_bounded_evicted: "evicted c c' \<Longrightarrow> cache_bounded (Some c) \<Longrightarrow> cache_bounded (Some c')"
  by (auto simp: evicted_def cache_bounded_def)

lemma cache_valid_cache:
  "\<exists>c'. snd (cache_valid (Some c) now un pw u) = Some c' \<and> evicted c c'"
  using evicted_foldl [of "evict_stale now u"] evicted_stale by (simp add: cache_valid_def Let_def)

lemma cache_valid_sound:
  assumes "cache_sound M ok oc"
  shows "cache_sound M ok (snd (cache_valid oc now un pw u))"
proof (cases oc)
  case None
  then show ?thesis by (simp add: cache_valid_def cache_sound_def)
next
  case (Some c)
  then show ?thesis using cache_valid_cache [of c now un pw u] cache_sound_evicted assms by auto
qed

text \<open>A hit means that this credential was verified, for an account in the user's present state.\<close>

lemma cache_valid_hit:
  assumes "cache_sound M ok oc" "fst (cache_valid oc now un pw u)" "short un" "short pw" "credential_message un pw \<in> M"
  shows "\<exists>e. ok un pw e \<and> same_user_state e u"
proof (cases oc)
  case None
  then show ?thesis using assms(2) by (simp add: cache_valid_def)
next
  case (Some c)
  let ?c = "foldl (evict_stale now u) c (case map_of (bc_by_user c) (user_key c un) of None \<Rightarrow> [] | Some ks \<Rightarrow> ks)"
  have ev: "evicted c ?c" using evicted_foldl evicted_stale by blast
  then have mac: "bc_mac ?c = bc_mac c" by (simp add: evicted_def)
  obtain e where e: "map_of (bc_entries ?c) (credential_key c un pw) = Some e" "same_user_state e u"
    using assms(2) Some by (auto simp: cache_valid_def Let_def split: option.splits)
  have "cache_sound M ok (Some ?c)" using cache_sound_evicted [OF ev] assms(1) Some by simp
  then obtain u' p' where up: "short u'" "short p'" "credential_key c un pw = credential_key ?c u' p'"
      "ok u' p' e" "inj_on (bc_mac c) M" "credential_message u' p' \<in> M"
    using e(1) mac unfolding cache_sound_def option.case by metis
  then have "credential_message un pw = credential_message u' p'"
    using mac assms(5) unfolding credential_key_def by (metis inj_onD)
  then have "un = u'" "pw = p'" using credential_message_inj assms(3,4) up(1,2) by blast+
  then show ?thesis using up(4) e(2) by blast
qed

lemma cache_insert_fields [simp]:
  "bc_mac (cache_insert c now un pw u) = bc_mac c" "bc_max_size (cache_insert c now un pw u) = bc_max_size c"
  by (simp_all add: cache_insert_def Let_def)

lemma cache_insert_sound:
  assumes "cache_sound M ok (Some c)" "\<And>e. ae_password_hash e = usr_password_hash u \<Longrightarrow> ok un pw e" "short un" "short pw"
    "credential_message un pw \<in> M"
  shows "cache_sound M ok (Some (cache_insert c now un pw u))"
proof -
  let ?c = "cache_insert c now un pw u"
  have "\<exists>u' p. short u' \<and> short p \<and> credential_message u' p \<in> M \<and> k = credential_key c u' p \<and> ok u' p e"
    if e: "map_of (bc_entries ?c) k = Some e" for k e
  proof (cases "k = credential_key c un pw")
    case True
    then have "ae_password_hash e = usr_password_hash u" using e by (auto simp: cache_insert_def Let_def AList.update_conv')
    then show ?thesis using True assms(2) [of e] assms(3-5) by blast
  next
    case False
    then have "map_of (bc_entries c) k = Some e" using e by (simp add: cache_insert_def Let_def AList.update_conv')
    then show ?thesis using assms(1) unfolding cache_sound_def option.case by blast
  qed
  then show ?thesis
    using assms(1) credential_key_cong [of ?c c] unfolding cache_sound_def option.case by simp
qed

lemma AList_update_new_length: "map_of xs k = None \<Longrightarrow> length (AList.update k v xs) = Suc (length xs)"
  by (induction xs) (auto split: if_splits)

text \<open>\<open>remember\<close> up to the capacity check.\<close>

lemma cache_remember_cases:
  obtains c' where "evicted c c'" "map_of (bc_entries c') (credential_key c un pw) = None"
    "cache_remember (Some c) now un pw u =
       Some (if length (bc_entries c') \<ge> bc_max_size c' then c' else cache_insert c' now un pw u)"
proof -
  let ?c1 = "foldl (evict_expired now) c (bc_entries c)" and ?k = "credential_key c un pw"
  let ?c2 = "case map_of (bc_entries ?c1) ?k of None \<Rightarrow> ?c1 | Some old \<Rightarrow> delete_locked ?k (ae_user_key old) ?c1"
  have ev: "evicted c ?c1" using evicted_foldl evicted_expired by blast
  have "evicted ?c1 ?c2" by (simp add: evicted_delete evicted_refl split: option.split)
  with ev have "evicted c ?c2" by (rule evicted_trans)
  moreover have "map_of (bc_entries ?c2) ?k = None"
    by (auto simp: AList.delete_conv' split: option.split)
  ultimately show ?thesis using that by (simp add: cache_remember_def Let_def)
qed

lemma cache_remember_sound:
  assumes "cache_sound M ok oc" "\<And>e. ae_password_hash e = usr_password_hash u \<Longrightarrow> ok un pw e" "short un" "short pw"
    "credential_message un pw \<in> M"
  shows "cache_sound M ok (cache_remember oc now un pw u)"
proof (cases oc)
  case None
  then show ?thesis by (simp add: cache_remember_def cache_sound_def)
next
  case (Some c)
  obtain c' where c': "evicted c c'" "cache_remember (Some c) now un pw u =
       Some (if length (bc_entries c') \<ge> bc_max_size c' then c' else cache_insert c' now un pw u)"
    using cache_remember_cases by metis
  have "cache_sound M ok (Some c')" using cache_sound_evicted [OF c'(1)] assms(1) Some by simp
  then show ?thesis using c'(2) Some assms cache_insert_sound by auto
qed

lemma cache_remember_bounded:
  assumes "cache_bounded oc"
  shows "cache_bounded (cache_remember oc now un pw u)"
proof (cases oc)
  case None
  then show ?thesis by (simp add: cache_remember_def cache_bounded_def)
next
  case (Some c)
  obtain c' where c': "evicted c c'" "map_of (bc_entries c') (credential_key c un pw) = None"
      "cache_remember (Some c) now un pw u =
       Some (if length (bc_entries c') \<ge> bc_max_size c' then c' else cache_insert c' now un pw u)"
    using cache_remember_cases by metis
  have b: "cache_bounded (Some c')" using cache_bounded_evicted [OF c'(1)] assms Some by simp
  have "credential_key c' un pw = credential_key c un pw"
    using c'(1) by (intro credential_key_cong) (simp add: evicted_def)
  then show ?thesis
    using c' b Some AList_update_new_length [OF c'(2)]
    by (auto simp: cache_bounded_def cache_insert_def Let_def AList.distinct_update)
qed

end
