(* ===== verification/User_Service.thy ===== *)
theory User_Service
  imports Auth_Cache Go_Path
begin

text \<open>
  Accounts and logins: \<open>internal/service/user_service.go\<close>, \<open>internal/service/token_service.go\<close>, the
  token minting of \<open>internal/auth/auth.go\<close> and the account tables behind them
  (\<open>repository/postgres/user_repo.go\<close>, \<open>user_token_repo.go\<close>, \<open>role_repo.go\<close>). The database is the
  record \<open>user_db\<close>; \<open>ud_down\<close> says which of its calls fail. bcrypt, the JWT library, SHA-256, the
  directory servers and the identity providers are parameters (\<open>auth_env\<close>).
\<close>

section \<open>The database\<close>

datatype db_op =
    Op_Users_Get string | Op_Users_Get_By_Id | Op_Users_Create | Op_Users_Update | Op_Update_Last_Login
  | Op_Update_Password | Op_Bump | Op_Users_Delete | Op_Roles_List | Op_Get_User_Roles | Op_Set_User_Roles
  | Op_Set_Oidc_Tokens | Op_Token_Get | Op_Token_By_Hash | Op_Token_Create | Op_Token_Delete | Op_Touch

datatype auth_err =
    Err_Db | Err_Not_Found | Err_Invalid_Input | Err_Already_Exists | Err_Bad_Password
  | Err_Provisioning_Conflict | Err_Provisioning_Rejected | Err_Password_Too_Short
  | Err_Password_Managed_Externally | Err_Ldap | Err_Sign | Err_Hash | Err_Token string

record user_db =
  ud_users :: "user list"
  ud_roles :: "role list"
  ud_user_roles :: "(string \<times> string) list"
  ud_tokens :: "user_token list"
  ud_oidc_id_tokens :: "string \<rightharpoonup> string"
  ud_now :: time
  ud_next_id :: string
  ud_down :: "db_op \<Rightarrow> bool"

definition user_role_names :: "user_db \<Rightarrow> string \<Rightarrow> string list" where
  "user_role_names db uid =
     map role_name (filter (\<lambda>r. (uid, role_id r) \<in> set (ud_user_roles db)) (ud_roles db))"

definition with_roles :: "user_db \<Rightarrow> user \<Rightarrow> user" where
  "with_roles db u = u\<lparr> usr_roles := user_role_names db (usr_id u) \<rparr>"

definition users_get :: "user_db \<Rightarrow> string \<Rightarrow> auth_err + user" where
  "users_get db username =
     (if ud_down db (Op_Users_Get username) then Inl Err_Db
      else case find (\<lambda>u. usr_username u = username) (ud_users db) of
             None \<Rightarrow> Inl Err_Not_Found
           | Some u \<Rightarrow> Inr (with_roles db u))"

definition users_get_by_id :: "user_db \<Rightarrow> string \<Rightarrow> auth_err + user" where
  "users_get_by_id db uid =
     (if ud_down db Op_Users_Get_By_Id then Inl Err_Db
      else case find (\<lambda>u. usr_id u = uid) (ud_users db) of
             None \<Rightarrow> Inl Err_Not_Found
           | Some u \<Rightarrow> Inr (with_roles db u))"

text \<open>
  The unique constraints on the username and on a non-empty email, and the check constraint on the
  status. A new row's \<open>tokens_valid_after\<close> is the column's default, \<open>now()\<close>.
\<close>

definition status_check :: "user \<Rightarrow> bool" where
  "status_check u \<longleftrightarrow> usr_status u = ''active'' \<or> usr_status u = ''disabled''"

definition users_unique :: "user list \<Rightarrow> user \<Rightarrow> bool" where
  "users_unique us u \<longleftrightarrow>
     (\<forall>v \<in> set us. usr_username v \<noteq> usr_username u \<and> (usr_email u \<noteq> [] \<longrightarrow> usr_email v \<noteq> usr_email u))"

definition users_create :: "user_db \<Rightarrow> user \<Rightarrow> (auth_err + user) \<times> user_db" where
  "users_create db u =
     (if ud_down db Op_Users_Create \<or> \<not> status_check u then (Inl Err_Db, db)
      else if \<not> users_unique (ud_users db) u then (Inl Err_Already_Exists, db)
      else let u' = u\<lparr> usr_id := ud_next_id db, usr_created_at := ud_now db, usr_updated_at := ud_now db \<rparr>
           in (Inr u', db\<lparr> ud_users := ud_users db @
                 [u'\<lparr> usr_roles := [], usr_external_id := [], usr_last_login := None,
                      usr_tokens_valid_after := ud_now db \<rparr>] \<rparr>))"

definition map_users :: "(user \<Rightarrow> user) \<Rightarrow> user_db \<Rightarrow> user_db" where
  "map_users f db = db\<lparr> ud_users := map f (ud_users db) \<rparr>"

definition users_update :: "user_db \<Rightarrow> user \<Rightarrow> (auth_err + unit) \<times> user_db" where
  "users_update db u =
     (if ud_down db Op_Users_Update \<or> \<not> status_check u then (Inl Err_Db, db)
      else if \<exists>v \<in> set (ud_users db). usr_username v \<noteq> usr_username u \<and> usr_email u \<noteq> [] \<and> usr_email v = usr_email u
      then (Inl Err_Already_Exists, db)
      else (Inr (),
            map_users (\<lambda>v. if usr_username v = usr_username u
                           then v\<lparr> usr_email := usr_email u, usr_first_name := usr_first_name u,
                                   usr_last_name := usr_last_name u, usr_status := usr_status u,
                                   usr_updated_at := ud_now db \<rparr>
                           else v) db))"

definition users_update_password :: "user_db \<Rightarrow> string \<Rightarrow> string \<Rightarrow> (auth_err + unit) \<times> user_db" where
  "users_update_password db username hash =
     (if ud_down db Op_Update_Password then (Inl Err_Db, db)
      else (Inr (),
            map_users (\<lambda>v. if usr_username v = username
                           then v\<lparr> usr_password_hash := hash, usr_must_reset_password := False,
                                   usr_updated_at := ud_now db \<rparr>
                           else v) db))"

definition users_delete :: "user_db \<Rightarrow> string \<Rightarrow> (auth_err + unit) \<times> user_db" where
  "users_delete db username =
     (if ud_down db Op_Users_Delete then (Inl Err_Db, db)
      else (Inr (), db\<lparr> ud_users := filter (\<lambda>v. usr_username v \<noteq> username) (ud_users db) \<rparr>))"

text \<open>The result of the best-effort calls is dropped by every caller, so only their effect is kept.\<close>

definition update_last_login :: "user_db \<Rightarrow> string \<Rightarrow> user_db" where
  "update_last_login db username =
     (if ud_down db Op_Update_Last_Login then db
      else map_users (\<lambda>v. if usr_username v = username \<and>
                             (case usr_last_login v of None \<Rightarrow> True | Some t \<Rightarrow> t < ud_now db - minutes 1)
                          then v\<lparr> usr_last_login := Some (ud_now db) \<rparr> else v) db)"

definition bump_tokens_valid_after :: "user_db \<Rightarrow> string \<Rightarrow> user_db" where
  "bump_tokens_valid_after db uid =
     (if ud_down db Op_Bump then db
      else map_users (\<lambda>v. if usr_id v = uid then v\<lparr> usr_tokens_valid_after := ud_now db \<rparr> else v) db)"

definition set_oidc_tokens :: "user_db \<Rightarrow> string \<Rightarrow> string \<Rightarrow> user_db" where
  "set_oidc_tokens db uid id_token =
     (if ud_down db Op_Set_Oidc_Tokens then db
      else db\<lparr> ud_oidc_id_tokens := (ud_oidc_id_tokens db)(uid := (if id_token = [] then None else Some id_token)) \<rparr>)"

definition roles_list :: "user_db \<Rightarrow> role list option" where
  "roles_list db = (if ud_down db Op_Roles_List then None else Some (ud_roles db))"

definition get_user_roles :: "user_db \<Rightarrow> string \<Rightarrow> role list option" where
  "get_user_roles db uid =
     (if ud_down db Op_Get_User_Roles then None
      else Some (filter (\<lambda>r. (uid, role_id r) \<in> set (ud_user_roles db)) (ud_roles db)))"

text \<open>One transaction: delete the user's rows, insert the new ones.\<close>

definition set_user_roles :: "user_db \<Rightarrow> string \<Rightarrow> string list \<Rightarrow> (auth_err + unit) \<times> user_db" where
  "set_user_roles db uid ids =
     (if ud_down db Op_Set_User_Roles then (Inl Err_Db, db)
      else (Inr (), db\<lparr> ud_user_roles :=
              filter (\<lambda>ur. fst ur \<noteq> uid) (ud_user_roles db) @ map (\<lambda>i. (uid, i)) (remdups ids) \<rparr>))"

definition token_get :: "user_db \<Rightarrow> string \<Rightarrow> auth_err + user_token" where
  "token_get db tid =
     (if ud_down db Op_Token_Get then Inl Err_Db
      else case find (\<lambda>t. tok_id t = tid \<and> (\<exists>u \<in> set (ud_users db). usr_id u = tok_user_id t)) (ud_tokens db) of
             None \<Rightarrow> Inl Err_Not_Found | Some t \<Rightarrow> Inr t)"

definition token_by_hash :: "user_db \<Rightarrow> string \<Rightarrow> auth_err + user_token" where
  "token_by_hash db h =
     (if ud_down db Op_Token_By_Hash then Inl Err_Db
      else case find (\<lambda>t. tok_token_hash t = h \<and> (\<exists>u \<in> set (ud_users db). usr_id u = tok_user_id t)) (ud_tokens db) of
             None \<Rightarrow> Inl Err_Not_Found | Some t \<Rightarrow> Inr t)"

definition token_delete :: "user_db \<Rightarrow> string \<Rightarrow> (auth_err + unit) \<times> user_db" where
  "token_delete db tid =
     (if ud_down db Op_Token_Delete then (Inl Err_Db, db)
      else (Inr (), db\<lparr> ud_tokens := filter (\<lambda>t. tok_id t \<noteq> tid) (ud_tokens db) \<rparr>))"

definition touch_last_used :: "user_db \<Rightarrow> string \<Rightarrow> user_db" where
  "touch_last_used db tid =
     (if ud_down db Op_Touch then db
      else db\<lparr> ud_tokens :=
             map (\<lambda>t. if tok_id t = tid then t\<lparr> tok_last_used := Some (ud_now db) \<rparr> else t) (ud_tokens db) \<rparr>)"

section \<open>The environment\<close>

record claims =
  cl_user_id :: string
  cl_username :: string
  cl_roles :: "string list"
  cl_auth_method :: string
  cl_scopes :: "string list"
  cl_token_id :: string
  cl_issued_at :: "time option"
  cl_expires_at :: time

record ldap_user =
  lu_email :: string
  lu_first_name :: string
  lu_last_name :: string
  lu_groups :: "string list"
  lu_groups_searched :: bool
  lu_group_search_err :: string

record oidc_claims =
  oc_username :: string
  oc_email :: string
  oc_first_name :: string
  oc_last_name :: string
  oc_groups :: "string list"
  oc_groups_present :: bool

record saml_claims =
  sc_username :: string
  sc_email :: string
  sc_name :: string
  sc_groups :: "string list"
  sc_groups_present :: bool

record sso_config =
  sso_enabled :: bool
  sso_provisioning :: string
  sso_email_allowlist :: "string list"
  sso_admin_group :: string
  sso_role_mappings :: "(string \<times> string) list"

text \<open>
  \<open>env_check\<close> and \<open>env_hash\<close> are bcrypt; \<open>env_sign\<close> and \<open>env_verify\<close> the JWT library under the
  server's secret; \<open>env_numeric_date\<close> its truncation of an instant to the precision of a claim.
\<close>

record auth_env =
  env_check :: "string \<Rightarrow> string \<Rightarrow> bool"
  env_hash :: "string \<Rightarrow> string option"
  env_min_password :: int
  env_expiry_hours :: int
  env_sign :: "claims \<Rightarrow> string option"
  env_verify :: "time \<Rightarrow> string \<Rightarrow> claims option"
  env_numeric_date :: "time \<Rightarrow> time"
  env_sha256 :: "string \<Rightarrow> string"
  env_ldap :: "(string \<Rightarrow> string \<Rightarrow> ldap_user option) option"
  env_ldap_cfg :: sso_config
  env_oidc_cfg :: sso_config
  env_group_lookup :: "(string \<Rightarrow> string list option) option"
  env_saml_cfg :: sso_config

section \<open>Tokens\<close>

definition generate_token :: "auth_env \<Rightarrow> time \<Rightarrow> string \<Rightarrow> string \<Rightarrow> string list \<Rightarrow> string option" where
  "generate_token env now uid username roles =
     env_sign env
       \<lparr> cl_user_id = uid, cl_username = username, cl_roles = roles, cl_auth_method = [], cl_scopes = [],
         cl_token_id = [], cl_issued_at = Some (env_numeric_date env now),
         cl_expires_at = env_numeric_date env (now + env_expiry_hours env * minutes 60) \<rparr>"

definition generate_token_with_method :: "auth_env \<Rightarrow> time \<Rightarrow> string \<Rightarrow> string \<Rightarrow> string list \<Rightarrow> string \<Rightarrow> string option" where
  "generate_token_with_method env now uid username roles meth =
     env_sign env
       \<lparr> cl_user_id = uid, cl_username = username, cl_roles = roles, cl_auth_method = meth, cl_scopes = [],
         cl_token_id = [], cl_issued_at = Some (env_numeric_date env now),
         cl_expires_at = env_numeric_date env (now + env_expiry_hours env * minutes 60) \<rparr>"

text \<open>The expiry is returned beside the token.\<close>

definition generate_api_token_jwt ::
  "auth_env \<Rightarrow> time \<Rightarrow> string \<Rightarrow> string \<Rightarrow> string list \<Rightarrow> string list \<Rightarrow> string \<Rightarrow> time option \<Rightarrow> (string \<times> time) option" where
  "generate_api_token_jwt env now uid username roles scopes token_id token_expires_at =
     (let exp0 = now + env_expiry_hours env * minutes 60;
          exp = (case token_expires_at of Some t \<Rightarrow> if t < exp0 then t else exp0 | None \<Rightarrow> exp0)
      in map_option (\<lambda>s. (s, exp))
           (env_sign env
             \<lparr> cl_user_id = uid, cl_username = username, cl_roles = roles, cl_auth_method = [],
               cl_scopes = scopes, cl_token_id = token_id, cl_issued_at = Some (env_numeric_date env now),
               cl_expires_at = env_numeric_date env exp \<rparr>))"

definition token_prefix :: string where "token_prefix = ''nxs_''"

definition authenticate_token :: "auth_env \<Rightarrow> user_db \<Rightarrow> string \<Rightarrow> (auth_err + user \<times> user_token) \<times> user_db" where
  "authenticate_token env db raw =
     (if \<not> has_prefix raw token_prefix then (Inl (Err_Token ''not an API token''), db)
      else case token_by_hash db (env_sha256 env raw) of
        Inl e \<Rightarrow> (Inl e, db)
      | Inr tok \<Rightarrow>
          if (case tok_expires_at tok of Some t \<Rightarrow> ud_now db > t | None \<Rightarrow> False)
          then (Inl (Err_Token ''token expired''), db)
          else (case users_get_by_id db (tok_user_id tok) of
                  Inl e \<Rightarrow> (Inl e, db)
                | Inr u \<Rightarrow>
                    if usr_status u \<noteq> ''active'' then (Inl (Err_Token ''user account disabled''), db)
                    else (Inr (u, tok), touch_last_used db (tok_id tok))))"

definition token_active :: "user_db \<Rightarrow> string \<Rightarrow> string \<Rightarrow> bool" where
  "token_active db tid uid =
     (if tid = [] then False
      else case token_get db tid of
             Inl _ \<Rightarrow> False
           | Inr tok \<Rightarrow>
               tok_user_id tok = uid \<and> (case tok_expires_at tok of None \<Rightarrow> True | Some t \<Rightarrow> ud_now db < t))"

text \<open>\<open>TokenService.Create\<close>: \<open>buf\<close> is what \<open>rand.Read\<close> delivered, rendered in hex.\<close>

definition valid_scope :: "string \<Rightarrow> bool" where
  "valid_scope sc \<longleftrightarrow> to_lower (trim_space sc) \<in> {''read'', ''write'', ''delete''}"

definition token_create ::
  "auth_env \<Rightarrow> user_db \<Rightarrow> string option \<Rightarrow> string \<Rightarrow> string \<Rightarrow> string list \<Rightarrow> time option \<Rightarrow> (auth_err + user_token) \<times> user_db" where
  "token_create env db buf uid name scopes expires_at =
     (if trim_space name = [] then (Inl Err_Invalid_Input, db)
      else if \<not> list_all valid_scope scopes then (Inl Err_Invalid_Input, db)
      else case users_get_by_id db uid of
        Inl e \<Rightarrow> (Inl e, db)
      | Inr u \<Rightarrow>
          (case buf of
             None \<Rightarrow> (Inl Err_Hash, db)
           | Some hex \<Rightarrow>
               (let raw = token_prefix @ hex;
                    tok = \<lparr> tok_id = ud_next_id db, tok_user_id = uid, tok_username = [], tok_name = name,
                            tok_token_hash = env_sha256 env raw, tok_scopes = scopes, tok_last_used = None,
                            tok_expires_at = expires_at, tok_created_at = ud_now db, tok_token = [] \<rparr>
                in if ud_down db Op_Token_Create then (Inl Err_Db, db)
                   else (Inr (tok\<lparr> tok_token := raw, tok_username := usr_username u \<rparr>),
                         db\<lparr> ud_tokens := ud_tokens db @ [tok] \<rparr>))))"

section \<open>Group matching\<close>

definition equal_fold :: "string \<Rightarrow> string \<Rightarrow> bool" where
  "equal_fold a b \<longleftrightarrow> to_lower a = to_lower b"

text \<open>The value of the first attribute of a DN: after the first \<open>=\<close>, up to the first \<open>,\<close>.\<close>

definition rdn_value :: "string \<Rightarrow> string option" where
  "rdn_value s =
     (case str_index s ''='' of
        None \<Rightarrow> None
      | Some i \<Rightarrow>
          (let val = drop (Suc i) s
           in Some (case str_index val '','' of None \<Rightarrow> val | Some j \<Rightarrow> take j val)))"

definition strip_cn_prefix :: "string \<Rightarrow> string" where
  "strip_cn_prefix s = (case rdn_value s of None \<Rightarrow> s | Some v \<Rightarrow> v)"

definition oidc_group_match :: "string \<Rightarrow> string \<Rightarrow> bool" where
  "oidc_group_match a b \<longleftrightarrow> equal_fold (strip_cn_prefix a) (strip_cn_prefix b)"

definition ldap_group_match :: "string \<Rightarrow> string \<Rightarrow> bool" where
  "ldap_group_match name configured \<longleftrightarrow>
     equal_fold name configured \<or> (case rdn_value configured of None \<Rightarrow> False | Some v \<Rightarrow> equal_fold name v)"

text \<open>The set \<open>want\<close> the three synchronizations build, as a membership test.\<close>

definition wanted_role :: "(string \<Rightarrow> string \<Rightarrow> bool) \<Rightarrow> sso_config \<Rightarrow> string list \<Rightarrow> string \<Rightarrow> bool" where
  "wanted_role match_group cfg groups rname \<longleftrightarrow>
     (\<exists>g \<in> set groups.
        (rname = ''nx-admin'' \<and> sso_admin_group cfg \<noteq> [] \<and> match_group g (sso_admin_group cfg)) \<or>
        (\<exists>m \<in> set (sso_role_mappings cfg). snd m = rname \<and> snd m \<noteq> [] \<and> match_group g (fst m)))"

definition wanted_role_ids :: "(string \<Rightarrow> bool) \<Rightarrow> role list \<Rightarrow> string list" where
  "wanted_role_ids want roles = map role_id (filter (\<lambda>r. want (role_name r)) roles)"

definition sync_ldap_roles :: "auth_env \<Rightarrow> user_db \<Rightarrow> string \<Rightarrow> string list \<Rightarrow> user_db" where
  "sync_ldap_roles env db uid groups =
     (case roles_list db of
        None \<Rightarrow> db
      | Some roles \<Rightarrow>
          snd (set_user_roles db uid
                (wanted_role_ids (\<lambda>n. wanted_role ldap_group_match (env_ldap_cfg env) groups n \<or> n \<in> set groups) roles)))"

definition sync_oidc_roles :: "auth_env \<Rightarrow> user_db \<Rightarrow> string \<Rightarrow> string list \<Rightarrow> bool \<Rightarrow> user_db" where
  "sync_oidc_roles env db uid groups present =
     (if \<not> present then db
      else case roles_list db of
        None \<Rightarrow> db
      | Some roles \<Rightarrow>
          snd (set_user_roles db uid
                (wanted_role_ids (wanted_role oidc_group_match (env_oidc_cfg env) groups) roles)))"

definition sync_saml_roles :: "auth_env \<Rightarrow> user_db \<Rightarrow> string \<Rightarrow> string list \<Rightarrow> bool \<Rightarrow> user_db" where
  "sync_saml_roles env db uid groups present =
     (if \<not> present then db
      else case roles_list db of
        None \<Rightarrow> db
      | Some roles \<Rightarrow>
          snd (set_user_roles db uid
                (wanted_role_ids (wanted_role equal_fold (env_saml_cfg env) groups) roles)))"

text \<open>\<open>checkProvisioning\<close> and \<open>checkSAMLProvisioning\<close>, the same code over the two configurations.\<close>

definition check_provisioning :: "sso_config \<Rightarrow> string \<Rightarrow> auth_err + unit" where
  "check_provisioning cfg email =
     (let mode = (if sso_provisioning cfg = [] then ''jit'' else sso_provisioning cfg)
      in if mode = ''jit'' then Inr ()
         else if mode = ''allowlist'' then
           (if \<exists>pat \<in> set (sso_email_allowlist cfg). path_match (to_lower pat) email then Inr ()
            else Inl Err_Provisioning_Rejected)
         else if mode = ''manual'' then Inl Err_Provisioning_Rejected
         else Inl Err_Invalid_Input)"

section \<open>Logins\<close>

definition new_user :: "string \<Rightarrow> string \<Rightarrow> string \<Rightarrow> string \<Rightarrow> string \<Rightarrow> user" where
  "new_user username email first_name last_name source =
     \<lparr> usr_id = [], usr_username = username, usr_email = email, usr_password_hash = [],
       usr_first_name = first_name, usr_last_name = last_name, usr_status = ''active'', usr_source = source,
       usr_external_id = [], usr_roles = [], usr_must_reset_password = False, usr_last_login = None,
       usr_tokens_valid_after = zero_time, usr_created_at = zero_time, usr_updated_at = zero_time \<rparr>"

text \<open>The reload of the roles before a token is minted.\<close>

definition reload_roles :: "user_db \<Rightarrow> user \<Rightarrow> user" where
  "reload_roles db u =
     (case get_user_roles db (usr_id u) of
        None \<Rightarrow> u
      | Some rs \<Rightarrow> u\<lparr> usr_roles := map role_name rs \<rparr>)"

definition keep_nonempty :: "string \<Rightarrow> string \<Rightarrow> string" where
  "keep_nonempty new old = (if new \<noteq> [] then new else old)"

definition login_ldap ::
  "auth_env \<Rightarrow> user_db \<Rightarrow> (string \<Rightarrow> string \<Rightarrow> ldap_user option) \<Rightarrow> string \<Rightarrow> string \<Rightarrow> user option \<Rightarrow>
   (auth_err + string \<times> user) \<times> user_db" where
  "login_ldap env db ldap username password existing =
     (case ldap username password of
        None \<Rightarrow> (Inl Err_Ldap, db)
      | Some lu \<Rightarrow>
          (let r1 = (case existing of
                       None \<Rightarrow> users_create db (new_user username (lu_email lu) (lu_first_name lu) (lu_last_name lu) ''ldap'')
                     | Some u \<Rightarrow>
                         (let u' = u\<lparr> usr_email := keep_nonempty (lu_email lu) (usr_email u),
                                      usr_first_name := keep_nonempty (lu_first_name lu) (usr_first_name u),
                                      usr_last_name := keep_nonempty (lu_last_name lu) (usr_last_name u) \<rparr>
                          in (Inr u', snd (users_update db u'))))
           in case fst r1 of
                Inl e \<Rightarrow> (Inl e, snd r1)
              | Inr u \<Rightarrow>
                  if usr_status u \<noteq> ''active'' then (Inl Err_Invalid_Input, snd r1)
                  else
                    (let db2 = (if lu_group_search_err lu \<noteq> [] then snd r1
                                else if \<not> lu_groups_searched lu then snd r1
                                else sync_ldap_roles env (snd r1) (usr_id u) (lu_groups lu));
                         u2 = reload_roles db2 u
                     in case generate_token env (ud_now db2) (usr_id u2) (usr_username u2) (usr_roles u2) of
                          None \<Rightarrow> (Inl Err_Sign, db2)
                        | Some tok \<Rightarrow> (Inr (tok, u2), update_last_login db2 username))))"

text \<open>A lookup that treats \<open>ErrNotFound\<close> as no user, as all callers of \<open>users.Get\<close> do.\<close>

definition users_find :: "user_db \<Rightarrow> string \<Rightarrow> auth_err + user option" where
  "users_find db username =
     (case users_get db username of
        Inr u \<Rightarrow> Inr (Some u)
      | Inl Err_Not_Found \<Rightarrow> Inr None
      | Inl e \<Rightarrow> Inl e)"

definition login_local :: "auth_env \<Rightarrow> user_db \<Rightarrow> string \<Rightarrow> string \<Rightarrow> user option \<Rightarrow> (auth_err + string \<times> user) \<times> user_db" where
  "login_local env db username password ou =
     (case ou of
        None \<Rightarrow> (Inl Err_Not_Found, db)
      | Some u \<Rightarrow>
          if usr_status u \<noteq> ''active'' then (Inl Err_Invalid_Input, db)
          else if \<not> env_check env (usr_password_hash u) password then (Inl Err_Bad_Password, db)
          else (case generate_token env (ud_now db) (usr_id u) (usr_username u) (usr_roles u) of
                  None \<Rightarrow> (Inl Err_Sign, db)
                | Some tok \<Rightarrow> (Inr (tok, u), update_last_login db username)))"

definition login :: "auth_env \<Rightarrow> user_db \<Rightarrow> string \<Rightarrow> string \<Rightarrow> (auth_err + string \<times> user) \<times> user_db" where
  "login env db username password =
     (case users_find db username of
        Inl e \<Rightarrow> (Inl e, db)
      | Inr ou \<Rightarrow>
          (case env_ldap env of
             None \<Rightarrow> login_local env db username password ou
           | Some ldap \<Rightarrow>
               if ou \<noteq> None \<and> usr_source (the ou) \<noteq> ''ldap'' then login_local env db username password ou
               else
                 (let normalized = to_lower username
                  in if ou = None \<and> normalized \<noteq> username then
                       (case users_find db normalized of
                          Inl e \<Rightarrow> (Inl e, db)
                        | Inr ou2 \<Rightarrow>
                            if ou2 \<noteq> None \<and> usr_source (the ou2) \<noteq> ''ldap'' then (Inl Err_Provisioning_Conflict, db)
                            else login_ldap env db ldap normalized password ou2)
                     else login_ldap env db ldap normalized password ou)))"

text \<open>\<open>AuthenticateBasic\<close>; the two caches are threaded through.\<close>

definition touch_login :: "user_db \<Rightarrow> user \<Rightarrow> string \<Rightarrow> user_db" where
  "touch_login db u username =
     (if (case usr_last_login u of None \<Rightarrow> True | Some t \<Rightarrow> ud_now db - t \<ge> minutes 1)
      then update_last_login db username else db)"

record basic_caches =
  bcs_local :: "auth_cache option"
  bcs_ldap :: "auth_cache option"

definition basic_lookup :: "auth_env \<Rightarrow> user_db \<Rightarrow> string \<Rightarrow> auth_err + user option" where
  "basic_lookup env db username =
     (case users_find db username of
        Inl e \<Rightarrow> Inl e
      | Inr (Some u) \<Rightarrow> Inr (Some u)
      | Inr None \<Rightarrow>
          if env_ldap env \<noteq> None \<and> to_lower username \<noteq> username then
            (case users_find db (to_lower username) of
               Inl e \<Rightarrow> Inl e
             | Inr (Some u) \<Rightarrow> Inr (if usr_source u = ''ldap'' then Some u else None)
             | Inr None \<Rightarrow> Inr None)
          else Inr None)"

definition basic_local ::
  "auth_env \<Rightarrow> user_db \<Rightarrow> basic_caches \<Rightarrow> string \<Rightarrow> string \<Rightarrow> user option \<Rightarrow> (auth_err + user) \<times> user_db \<times> basic_caches" where
  "basic_local env db cs username password ou =
     (case ou of
        None \<Rightarrow> (Inl Err_Not_Found, db, cs)
      | Some u \<Rightarrow>
          (let v = cache_valid (bcs_local cs) (ud_now db) username password u;
               cs1 = cs\<lparr> bcs_local := snd v \<rparr>
           in if usr_status u \<noteq> ''active'' then (Inl Err_Invalid_Input, db, cs1)
              else if fst v then (Inr u, touch_login db u username, cs1)
              else if \<not> env_check env (usr_password_hash u) password then (Inl Err_Bad_Password, db, cs1)
              else (Inr u, touch_login db u username,
                    cs1\<lparr> bcs_local := cache_remember (snd v) (ud_now db) username password u \<rparr>)))"

definition basic_ldap ::
  "auth_env \<Rightarrow> user_db \<Rightarrow> basic_caches \<Rightarrow> string \<Rightarrow> string \<Rightarrow> user option \<Rightarrow> (auth_err + user) \<times> user_db \<times> basic_caches" where
  "basic_ldap env db cs username password ou =
     (if ou \<noteq> None \<and> usr_status (the ou) \<noteq> ''active'' then (Inl Err_Invalid_Input, db, cs)
      else
        (let v = (case (bcs_ldap cs, ou) of
                    (Some c, Some u) \<Rightarrow> cache_valid (bcs_ldap cs) (ud_now db) (to_lower username) password u
                  | _ \<Rightarrow> (False, bcs_ldap cs));
             cs1 = cs\<lparr> bcs_ldap := snd v \<rparr>
         in if fst v then (Inr (the ou), touch_login db (the ou) (usr_username (the ou)), cs1)
            else (case login env db username password of
                    (Inl e, db') \<Rightarrow> (Inl e, db', cs1)
                  | (Inr (tok, u), db') \<Rightarrow>
                      (Inr u, db',
                       if usr_source u = ''ldap''
                       then cs1\<lparr> bcs_ldap := cache_remember (bcs_ldap cs1) (ud_now db) (usr_username u) password u \<rparr>
                       else cs1))))"

definition authenticate_basic ::
  "auth_env \<Rightarrow> user_db \<Rightarrow> basic_caches \<Rightarrow> string \<Rightarrow> string \<Rightarrow> (auth_err + user) \<times> user_db \<times> basic_caches" where
  "authenticate_basic env db cs username password =
     (case basic_lookup env db username of
        Inl e \<Rightarrow> (Inl e, db, cs)
      | Inr ou \<Rightarrow>
          if env_ldap env \<noteq> None \<and> (ou = None \<or> usr_source (the ou) = ''ldap'')
          then basic_ldap env db cs username password ou
          else basic_local env db cs username password ou)"

text \<open>
  Single sign-on. Both logins have the same shape: normalize, refuse an account of another source,
  create or update, require an active account, replace the roles, mint the token.
\<close>

definition sso_upsert ::
  "user_db \<Rightarrow> sso_config \<Rightarrow> string \<Rightarrow> string \<Rightarrow> string \<Rightarrow> string \<Rightarrow> string \<Rightarrow> (user \<Rightarrow> user) \<Rightarrow> (auth_err + user) \<times> user_db" where
  "sso_upsert db cfg source username email first_name last_name profile =
     (case users_find db username of
        Inl e \<Rightarrow> (Inl e, db)
      | Inr (Some u) \<Rightarrow>
          if usr_source u \<noteq> source then (Inl Err_Provisioning_Conflict, db)
          else (Inr (profile u), snd (users_update db (profile u)))
      | Inr None \<Rightarrow>
          (case check_provisioning cfg email of
             Inl e \<Rightarrow> (Inl e, db)
           | Inr _ \<Rightarrow> users_create db (new_user username email first_name last_name source)))"

definition login_oidc :: "auth_env \<Rightarrow> user_db \<Rightarrow> oidc_claims \<Rightarrow> string \<Rightarrow> (auth_err + string \<times> user) \<times> user_db" where
  "login_oidc env db oc raw_id_token =
     (let username = to_lower (trim_space (oc_username oc));
          email = to_lower (trim_space (oc_email oc))
      in if \<not> sso_enabled (env_oidc_cfg env) then (Inl Err_Invalid_Input, db)
         else if username = [] \<or> email = [] then (Inl Err_Invalid_Input, db)
         else
           (let r1 = sso_upsert db (env_oidc_cfg env) ''oidc'' username email (oc_first_name oc) (oc_last_name oc)
                       (\<lambda>u. u\<lparr> usr_email := email, usr_first_name := oc_first_name oc, usr_last_name := oc_last_name oc \<rparr>)
            in case fst r1 of
                 Inl e \<Rightarrow> (Inl e, snd r1)
               | Inr u \<Rightarrow>
                   if usr_status u \<noteq> ''active'' then (Inl Err_Invalid_Input, snd r1)
                   else
                     (let gp = (case env_group_lookup env of
                                  None \<Rightarrow> (oc_groups oc, oc_groups_present oc)
                                | Some look \<Rightarrow> (case look email of None \<Rightarrow> ([], False) | Some gs \<Rightarrow> (gs, True)));
                          db2 = sync_oidc_roles env (snd r1) (usr_id u) (fst gp) (snd gp);
                          u2 = reload_roles db2 u
                      in case generate_token_with_method env (ud_now db2) (usr_id u2) (usr_username u2) (usr_roles u2) ''oidc'' of
                           None \<Rightarrow> (Inl Err_Sign, db2)
                         | Some tok \<Rightarrow>
                             (Inr (tok, u2), update_last_login (set_oidc_tokens db2 (usr_id u2) raw_id_token) username))))"

definition login_saml :: "auth_env \<Rightarrow> user_db \<Rightarrow> saml_claims \<Rightarrow> (auth_err + string \<times> user) \<times> user_db" where
  "login_saml env db sc =
     (let username = to_lower (trim_space (sc_username sc));
          email = to_lower (trim_space (sc_email sc))
      in if \<not> sso_enabled (env_saml_cfg env) then (Inl Err_Invalid_Input, db)
         else if username = [] \<or> email = [] then (Inl Err_Invalid_Input, db)
         else
           (let r1 = sso_upsert db (env_saml_cfg env) ''saml'' username email (sc_name sc) []
                       (\<lambda>u. u\<lparr> usr_email := email, usr_first_name := sc_name sc \<rparr>)
            in case fst r1 of
                 Inl e \<Rightarrow> (Inl e, snd r1)
               | Inr u \<Rightarrow>
                   if usr_status u \<noteq> ''active'' then (Inl Err_Invalid_Input, snd r1)
                   else
                     (let db2 = sync_saml_roles env (snd r1) (usr_id u) (sc_groups sc) (sc_groups_present sc);
                          u2 = reload_roles db2 u
                      in case generate_token_with_method env (ud_now db2) (usr_id u2) (usr_username u2) (usr_roles u2) ''saml'' of
                           None \<Rightarrow> (Inl Err_Sign, db2)
                         | Some tok \<Rightarrow> (Inr (tok, u2), update_last_login db2 username))))"

section \<open>Account management\<close>

definition validate_password_length :: "auth_env \<Rightarrow> string \<Rightarrow> auth_err option" where
  "validate_password_length env plain =
     (if env_min_password env \<le> 0 \<or> plain = [] then None
      else if int (length plain) < env_min_password env then Some Err_Password_Too_Short else None)"

definition require_local_password :: "user \<Rightarrow> auth_err option" where
  "require_local_password u = (if usr_source u \<noteq> ''local'' then Some Err_Password_Managed_Externally else None)"

definition user_create :: "auth_env \<Rightarrow> user_db \<Rightarrow> user \<Rightarrow> string \<Rightarrow> (auth_err + user) \<times> user_db" where
  "user_create env db u plain =
     (if usr_username u = [] then (Inl Err_Invalid_Input, db)
      else case validate_password_length env plain of
        Some e \<Rightarrow> (Inl e, db)
      | None \<Rightarrow>
          (case users_find db (usr_username u) of
             Inl e \<Rightarrow> (Inl e, db)
           | Inr (Some _) \<Rightarrow> (Inl Err_Already_Exists, db)
           | Inr None \<Rightarrow>
               (case (if plain = [] then Some (usr_password_hash u) else env_hash env plain) of
                  None \<Rightarrow> (Inl Err_Hash, db)
                | Some hash \<Rightarrow>
                    (let u' = u\<lparr> usr_password_hash := hash,
                                 usr_status := (if usr_status u = [] then ''active'' else usr_status u),
                                 usr_source := (if usr_source u = [] then ''local'' else usr_source u) \<rparr>
                     in case users_create db u' of
                          (Inl e, db') \<Rightarrow> (Inl e, db')
                        | (Inr v, db') \<Rightarrow>
                            if usr_roles u = [] then (Inr v, db')
                            else (case set_user_roles db' (usr_id v) (usr_roles u) of
                                    (Inl e, db'') \<Rightarrow> (Inl e, db'')
                                  | (Inr _, db'') \<Rightarrow> (Inr v, db''))))))"

definition user_update :: "user_db \<Rightarrow> string \<Rightarrow> user \<Rightarrow> (auth_err + user) \<times> user_db" where
  "user_update db username upd =
     (case users_get db username of
        Inl e \<Rightarrow> (Inl e, db)
      | Inr u \<Rightarrow>
          (let disabled = (usr_status upd \<noteq> [] \<and> usr_status u = ''active'' \<and> usr_status upd \<noteq> ''active'');
               u' = u\<lparr> usr_email := keep_nonempty (usr_email upd) (usr_email u),
                       usr_first_name := keep_nonempty (usr_first_name upd) (usr_first_name u),
                       usr_last_name := keep_nonempty (usr_last_name upd) (usr_last_name u),
                       usr_status := keep_nonempty (usr_status upd) (usr_status u) \<rparr>
           in case users_update db u' of
                (Inl e, db') \<Rightarrow> (Inl e, db')
              | (Inr _, db') \<Rightarrow> (Inr u', if disabled then bump_tokens_valid_after db' (usr_id u') else db')))"

text \<open>The common tail of the two password verbs.\<close>

definition store_password :: "auth_env \<Rightarrow> user_db \<Rightarrow> user \<Rightarrow> string \<Rightarrow> string \<Rightarrow> (auth_err + unit) \<times> user_db" where
  "store_password env db u username new_password =
     (case validate_password_length env new_password of
        Some e \<Rightarrow> (Inl e, db)
      | None \<Rightarrow>
          (case env_hash env new_password of
             None \<Rightarrow> (Inl Err_Hash, db)
           | Some hash \<Rightarrow>
               (case users_update_password db username hash of
                  (Inl e, db') \<Rightarrow> (Inl e, db')
                | (Inr _, db') \<Rightarrow> (Inr (), bump_tokens_valid_after db' (usr_id u)))))"

definition change_password :: "auth_env \<Rightarrow> user_db \<Rightarrow> string \<Rightarrow> string \<Rightarrow> string \<Rightarrow> (auth_err + unit) \<times> user_db" where
  "change_password env db username old_password new_password =
     (case users_get db username of
        Inl e \<Rightarrow> (Inl e, db)
      | Inr u \<Rightarrow>
          (case require_local_password u of
             Some e \<Rightarrow> (Inl e, db)
           | None \<Rightarrow>
               if \<not> env_check env (usr_password_hash u) old_password then (Inl Err_Bad_Password, db)
               else store_password env db u username new_password))"

definition set_password :: "auth_env \<Rightarrow> user_db \<Rightarrow> string \<Rightarrow> string \<Rightarrow> (auth_err + unit) \<times> user_db" where
  "set_password env db username new_password =
     (case users_get db username of
        Inl e \<Rightarrow> (Inl e, db)
      | Inr u \<Rightarrow>
          (case require_local_password u of
             Some e \<Rightarrow> (Inl e, db)
           | None \<Rightarrow> store_password env db u username new_password))"

definition user_delete :: "user_db \<Rightarrow> string \<Rightarrow> (auth_err + unit) \<times> user_db" where
  "user_delete db username =
     (case users_get db username of
        Inl e \<Rightarrow> (Inl e, db)
      | Inr _ \<Rightarrow> users_delete db username)"

definition service_set_user_roles :: "user_db \<Rightarrow> string \<Rightarrow> string list \<Rightarrow> (auth_err + unit) \<times> user_db" where
  "service_set_user_roles db uid ids =
     (case set_user_roles db uid ids of
        (Inl e, db') \<Rightarrow> (Inl e, db')
      | (Inr _, db') \<Rightarrow> (Inr (), bump_tokens_valid_after db' uid))"

section \<open>Frame lemmas of the database\<close>

named_theorems udb \<open>what the calls on the account tables leave alone\<close>

text \<open>Usernames and ids are unique and the next id is fresh.\<close>

definition udb_wf :: "user_db \<Rightarrow> bool" where
  "udb_wf db \<longleftrightarrow>
     distinct (map usr_username (ud_users db)) \<and> distinct (map usr_id (ud_users db)) \<and>
     ud_next_id db \<notin> usr_id ` set (ud_users db)"

lemma with_roles_simps [simp]:
  "usr_id (with_roles db u) = usr_id u" "usr_username (with_roles db u) = usr_username u"
  "usr_source (with_roles db u) = usr_source u" "usr_status (with_roles db u) = usr_status u"
  "usr_password_hash (with_roles db u) = usr_password_hash u" "usr_email (with_roles db u) = usr_email u"
  "usr_tokens_valid_after (with_roles db u) = usr_tokens_valid_after u"
  by (simp_all add: with_roles_def)

lemma users_get_Inr:
  "users_get db n = Inr u \<Longrightarrow> usr_username u = n \<and> (\<exists>v \<in> set (ud_users db). u = with_roles db v)"
  by (auto simp: users_get_def split: if_splits option.splits dest: find_SomeD)

lemma users_find_Some:
  "users_find db n = Inr (Some u) \<Longrightarrow> usr_username u = n \<and> (\<exists>v \<in> set (ud_users db). u = with_roles db v)"
  using users_get_Inr [of db n u]
  by (auto simp: users_find_def split: sum.splits auth_err.splits)

lemma users_find_None: "users_find db n = Inr None \<Longrightarrow> \<forall>v \<in> set (ud_users db). usr_username v \<noteq> n"
  by (auto simp: users_find_def users_get_def find_None_all split: sum.splits auth_err.splits if_splits option.splits)

lemma users_get_by_id_Inr:
  "users_get_by_id db i = Inr u \<Longrightarrow> usr_id u = i \<and> (\<exists>v \<in> set (ud_users db). u = with_roles db v)"
  by (auto simp: users_get_by_id_def split: if_splits option.splits dest: find_SomeD)

lemma map_users_simps [simp]:
  "ud_users (map_users f db) = map f (ud_users db)" "ud_user_roles (map_users f db) = ud_user_roles db"
  "ud_roles (map_users f db) = ud_roles db" "ud_tokens (map_users f db) = ud_tokens db"
  "ud_now (map_users f db) = ud_now db" "ud_down (map_users f db) = ud_down db"
  by (simp_all add: map_users_def)

text \<open>Rows that a predicate selects survive unchanged, and so do their role assignments.\<close>

definition rows_kept :: "(user \<Rightarrow> bool) \<Rightarrow> user_db \<Rightarrow> user_db \<Rightarrow> bool" where
  "rows_kept P db db' \<longleftrightarrow>
     (\<forall>v \<in> set (ud_users db). P v \<longrightarrow>
        v \<in> set (ud_users db') \<and>
        (\<forall>i. (usr_id v, i) \<in> set (ud_user_roles db') \<longleftrightarrow> (usr_id v, i) \<in> set (ud_user_roles db)))"

lemma rows_kept_refl [simp]: "rows_kept P db db"
  by (simp add: rows_kept_def)

lemma rows_kept_trans: "rows_kept P a b \<Longrightarrow> rows_kept P b c \<Longrightarrow> rows_kept P a c"
  by (simp add: rows_kept_def)

lemma rows_kept_map:
  assumes "\<And>v. v \<in> set (ud_users db) \<Longrightarrow> P v \<Longrightarrow> f v = v"
  shows "rows_kept P db (map_users f db)"
  unfolding rows_kept_def using assms by (auto intro: rev_image_eqI)

lemma rows_kept_create: "rows_kept P db (snd (users_create db u))"
  by (simp add: users_create_def rows_kept_def Let_def)

lemma rows_kept_update:
  assumes "\<And>v. v \<in> set (ud_users db) \<Longrightarrow> P v \<Longrightarrow> usr_username v \<noteq> usr_username u"
  shows "rows_kept P db (snd (users_update db u))"
  using assms by (auto simp: users_update_def intro!: rows_kept_map)

lemma rows_kept_last_login:
  assumes "\<And>v. v \<in> set (ud_users db) \<Longrightarrow> P v \<Longrightarrow> usr_username v \<noteq> n"
  shows "rows_kept P db (update_last_login db n)"
  using assms by (auto simp: update_last_login_def intro!: rows_kept_map)

lemma rows_kept_set_roles:
  assumes "\<And>v. v \<in> set (ud_users db) \<Longrightarrow> P v \<Longrightarrow> usr_id v \<noteq> uid"
  shows "rows_kept P db (snd (set_user_roles db uid ids))"
  using assms by (auto simp: set_user_roles_def rows_kept_def)

lemma sync_users [simp]:
  "ud_users (snd (set_user_roles db uid ids)) = ud_users db"
  "ud_users (sync_oidc_roles env db uid gs p) = ud_users db"
  "ud_users (sync_saml_roles env db uid gs p) = ud_users db"
  "ud_users (sync_ldap_roles env db uid gs) = ud_users db"
  "ud_users (set_oidc_tokens db uid tok) = ud_users db"
  by (simp_all add: set_user_roles_def sync_oidc_roles_def sync_saml_roles_def sync_ldap_roles_def
      set_oidc_tokens_def split: option.split)

lemma rows_kept_oidc_tokens: "rows_kept P db (set_oidc_tokens db uid tok)"
  by (simp add: rows_kept_def set_oidc_tokens_def)

section \<open>Only active accounts log in\<close>

lemma reload_roles_simps [simp]:
  "usr_status (reload_roles db u) = usr_status u" "usr_source (reload_roles db u) = usr_source u"
  "usr_id (reload_roles db u) = usr_id u" "usr_username (reload_roles db u) = usr_username u"
  by (simp_all add: reload_roles_def split: option.split)

lemma login_ldap_active:
  "login_ldap env db ldap n pw ou = (Inr (tok, u), db') \<Longrightarrow> usr_status u = ''active''"
  by (auto simp: login_ldap_def Let_def split: option.splits sum.splits if_splits)

lemma login_local_active:
  "login_local env db n pw ou = (Inr (tok, u), db') \<Longrightarrow> usr_status u = ''active'' \<and> ou = Some u \<and> env_check env (usr_password_hash u) pw"
  by (auto simp: login_local_def split: option.splits if_splits)

lemma login_active: "login env db n pw = (Inr (tok, u), db') \<Longrightarrow> usr_status u = ''active''"
  unfolding login_def
  by (auto simp: Let_def split: sum.splits option.splits if_splits dest: login_ldap_active login_local_active)

lemma authenticate_basic_active:
  assumes "authenticate_basic env db cs n pw = (Inr u, db', cs')"
  shows "usr_status u = ''active''"
proof -
  obtain ou where "basic_lookup env db n = Inr ou"
    using assms by (cases "basic_lookup env db n") (auto simp: authenticate_basic_def)
  then consider "basic_ldap env db cs n pw ou = (Inr u, db', cs')" | "basic_local env db cs n pw ou = (Inr u, db', cs')"
    using assms by (auto simp: authenticate_basic_def split: if_splits)
  then show ?thesis
  proof cases
    case 1
    then show ?thesis
      by (auto simp: basic_ldap_def Let_def cache_valid_def split: if_splits option.splits sum.splits prod.splits
          dest: login_active)
  next
    case 2
    then show ?thesis by (auto simp: basic_local_def Let_def split: option.splits if_splits)
  qed
qed

lemma authenticate_token_Inr:
  "authenticate_token env db raw = (Inr (u, tok), db') \<Longrightarrow>
     usr_status u = ''active'' \<and> has_prefix raw token_prefix \<and> token_by_hash db (env_sha256 env raw) = Inr tok \<and>
     users_get_by_id db (tok_user_id tok) = Inr u \<and> (\<forall>t. tok_expires_at tok = Some t \<longrightarrow> ud_now db \<le> t)"
  by (auto simp: authenticate_token_def split: if_splits sum.splits option.splits)

section \<open>The Basic-auth cache changes no answer\<close>

definition no_caches :: basic_caches where
  "no_caches = \<lparr> bcs_local = None, bcs_ldap = None \<rparr>"

text \<open>What an entry of either cache stands for: a password checked against its hash, and one the directory accepted.\<close>

definition checked_by :: "auth_env \<Rightarrow> string \<Rightarrow> string \<Rightarrow> auth_entry \<Rightarrow> bool" where
  "checked_by env username password e \<longleftrightarrow> env_check env (ae_password_hash e) password"

definition accepted_in :: "(string \<times> string) set \<Rightarrow> string \<Rightarrow> string \<Rightarrow> auth_entry \<Rightarrow> bool" where
  "accepted_in A username password e \<longleftrightarrow> (to_lower username, password) \<in> A"

definition directory_accepts :: "auth_env \<Rightarrow> string \<Rightarrow> string \<Rightarrow> bool" where
  "directory_accepts env username password \<longleftrightarrow>
     (case env_ldap env of None \<Rightarrow> False | Some ldap \<Rightarrow> ldap (to_lower username) password \<noteq> None)"

text \<open>The caches after any number of requests: \<open>A\<close> are the credentials the directory has accepted so far.\<close>

definition caches_ok :: "string set \<Rightarrow> auth_env \<Rightarrow> (string \<times> string) set \<Rightarrow> basic_caches \<Rightarrow> bool" where
  "caches_ok M env A cs \<longleftrightarrow>
     cache_sound M (checked_by env) (bcs_local cs) \<and> cache_sound M (accepted_in A) (bcs_ldap cs) \<and>
     cache_bounded (bcs_local cs) \<and> cache_bounded (bcs_ldap cs)"

lemma cache_valid_bounded: "cache_bounded oc \<Longrightarrow> cache_bounded (snd (cache_valid oc now n pw u))"
proof (cases oc)
  case None
  then show ?thesis by (simp add: cache_valid_def cache_bounded_def)
next
  case (Some c)
  assume "cache_bounded oc"
  then show ?thesis using Some cache_valid_cache [of c now n pw u] cache_bounded_evicted by auto
qed

lemma basic_local_transparent:
  assumes ok: "caches_ok M env A cs" and sh: "short n" "short pw" and M: "credential_message n pw \<in> M"
  shows "fst (basic_local env db cs n pw ou) = fst (basic_local env db no_caches n pw ou) \<and>
         fst (snd (basic_local env db cs n pw ou)) = fst (snd (basic_local env db no_caches n pw ou)) \<and>
         caches_ok M env A (snd (snd (basic_local env db cs n pw ou)))"
proof (cases ou)
  case None
  then show ?thesis using ok by (simp add: basic_local_def)
next
  case (Some u)
  let ?v = "cache_valid (bcs_local cs) (ud_now db) n pw u"
  have s: "cache_sound M (checked_by env) (bcs_local cs)" "cache_bounded (bcs_local cs)"
    "cache_sound M (accepted_in A) (bcs_ldap cs)" "cache_bounded (bcs_ldap cs)" using ok by (simp_all add: caches_ok_def)
  have sound: "cache_sound M (checked_by env) (snd ?v)" using cache_valid_sound [OF s(1)] .
  have bounded: "cache_bounded (snd ?v)" using cache_valid_bounded [OF s(2)] .
  have hit: "env_check env (usr_password_hash u) pw" if "fst ?v"
    using cache_valid_hit [OF s(1) that sh M] by (auto simp: checked_by_def same_user_state_def)
  have none: "cache_valid None (ud_now db) n pw u = (False, None)" by (simp add: cache_valid_def)
  have remember: "cache_sound M (checked_by env) (cache_remember (snd ?v) (ud_now db) n pw u)" if "env_check env (usr_password_hash u) pw"
    by (rule cache_remember_sound [OF sound _ sh M]) (simp add: checked_by_def that)
  show ?thesis
    using Some sound bounded hit remember cache_remember_bounded [OF bounded] s(3,4)
    by (auto simp: basic_local_def Let_def no_caches_def none caches_ok_def)
qed

text \<open>A login of an account of the directory asked the directory.\<close>

lemma users_find_name: "users_find db n = Inr (Some u) \<Longrightarrow> usr_username u = n"
  using users_find_Some by blast

lemma login_ldap_accepts:
  assumes "login_ldap env db ldap n pw ou = (Inr (tok, u), db')"
  shows "ldap n pw \<noteq> None" "usr_username u = (case ou of None \<Rightarrow> n | Some v \<Rightarrow> usr_username v)"
  using assms
  by (auto simp: login_ldap_def Let_def users_create_def new_user_def reload_roles_def split: option.splits sum.splits if_splits)

lemma basic_ldap_accepts:
  assumes lookup: "basic_lookup env db n = Inr ou" and route: "env_ldap env \<noteq> None" "ou = None \<or> usr_source (the ou) = ''ldap''"
    and l: "login env db n pw = (Inr (tok, u), db')"
  shows "directory_accepts env n pw" "to_lower (usr_username u) = to_lower n" "usr_username u = n \<or> usr_username u = to_lower n"
proof -
  obtain ldap where ldap: "env_ldap env = Some ldap" using route(1) by blast
  obtain fo where f: "users_find db n = Inr fo" using l by (cases "users_find db n") (auto simp: login_def)
  have nolocal: "fo = None \<or> usr_source (the fo) = ''ldap''"
    using lookup route(2) f by (auto simp: basic_lookup_def split: option.splits)
  obtain m vo where m: "login_ldap env db ldap (to_lower n) pw vo = (Inr (tok, u), db')" "case vo of None \<Rightarrow> True | Some v \<Rightarrow> usr_username v \<in> {n, to_lower n}"
  proof (cases "fo = None \<and> to_lower n \<noteq> n")
    case True
    then obtain vo where vo: "users_find db (to_lower n) = Inr vo" "login_ldap env db ldap (to_lower n) pw vo = (Inr (tok, u), db')"
      using l f ldap by (auto simp: login_def Let_def split: sum.splits if_splits)
    then show ?thesis using that users_find_name by (cases vo) auto
  next
    case False
    then have "login_ldap env db ldap (to_lower n) pw fo = (Inr (tok, u), db')"
      using l f ldap nolocal by (auto simp: login_def Let_def split: if_splits)
    then show ?thesis using that f users_find_name by (cases fo) auto
  qed
  note a = login_ldap_accepts [OF m(1)]
  show "directory_accepts env n pw" using a(1) ldap by (simp add: directory_accepts_def)
  show "usr_username u = n \<or> usr_username u = to_lower n" using a(2) m(2) by (auto split: option.splits)
  then show "to_lower (usr_username u) = to_lower n" by auto
qed

text \<open>An account of the directory: asked, or let in on a credential the directory accepted before.\<close>

lemma basic_ldap_cached:
  assumes ok: "caches_ok M env A cs" and sh: "short n" "short pw"
    and M: "credential_message n pw \<in> M" "credential_message (to_lower n) pw \<in> M"
    and lookup: "basic_lookup env db n = Inr ou" and route: "env_ldap env \<noteq> None" "ou = None \<or> usr_source (the ou) = ''ldap''"
  shows "fst (basic_ldap env db cs n pw ou) = fst (basic_ldap env db no_caches n pw ou) \<and>
         fst (snd (basic_ldap env db cs n pw ou)) = fst (snd (basic_ldap env db no_caches n pw ou)) \<or>
         (\<exists>u. ou = Some u \<and> usr_status u = ''active'' \<and> (to_lower n, pw) \<in> A \<and> fst (basic_ldap env db cs n pw ou) = Inr u \<and>
            fst (snd (basic_ldap env db cs n pw ou)) = touch_login db u (usr_username u))"
    "caches_ok M env (if directory_accepts env n pw then insert (to_lower n, pw) A else A) (snd (snd (basic_ldap env db cs n pw ou)))"
proof -
  define B where "B = (if directory_accepts env n pw then insert (to_lower n, pw) A else A)"
  have s: "cache_sound M (checked_by env) (bcs_local cs)" "cache_bounded (bcs_local cs)"
    "cache_sound M (accepted_in A) (bcs_ldap cs)" "cache_bounded (bcs_ldap cs)" using ok by (simp_all add: caches_ok_def)
  have shl: "short (to_lower n)" using sh(1) by (simp add: short_def to_lower_def)
  define v where "v = (case (bcs_ldap cs, ou) of
      (Some c, Some u) \<Rightarrow> cache_valid (bcs_ldap cs) (ud_now db) (to_lower n) pw u | _ \<Rightarrow> (False, bcs_ldap cs))"
  have vs: "cache_sound M (accepted_in A) (snd v)" "cache_bounded (snd v)"
    using s(3,4) cache_valid_sound cache_valid_bounded by (auto simp: v_def split: option.split)
  have vA: "cache_sound M (accepted_in B) (snd v)" by (rule cache_sound_weaken [OF vs(1)]) (auto simp: accepted_in_def B_def)
  have sA: "cache_sound M (accepted_in B) (bcs_ldap cs)" by (rule cache_sound_weaken [OF s(3)]) (auto simp: accepted_in_def B_def)
  have hit: "\<exists>u. ou = Some u \<and> (to_lower n, pw) \<in> A" if "fst v"
  proof -
    from that have "\<exists>c u. bcs_ldap cs = Some c \<and> ou = Some u \<and> fst (cache_valid (bcs_ldap cs) (ud_now db) (to_lower n) pw u)"
      unfolding v_def by (cases "bcs_ldap cs"; cases ou) simp_all
    then obtain c u where cu: "bcs_ldap cs = Some c" "ou = Some u" "fst (cache_valid (bcs_ldap cs) (ud_now db) (to_lower n) pw u)"
      by blast
    show ?thesis using cache_valid_hit [OF s(3) cu(3) shl sh(2) M(2)] cu(2) by (auto simp: accepted_in_def)
  qed
  have new: "cache_sound M (accepted_in B) (cache_remember (snd v) (ud_now db) (usr_username u) pw u)"
    if "login env db n pw = (Inr (tok, u), db')" for tok u db'
  proof -
    note a = basic_ldap_accepts [OF lookup route that]
    have m: "credential_message (usr_username u) pw \<in> M" "short (usr_username u)" using a(3) M sh(1) shl by auto
    show ?thesis by (rule cache_remember_sound [OF vA _ m(2) sh(2) m(1)]) (use a(1,2) in \<open>simp add: accepted_in_def B_def\<close>)
  qed
  have eq: "basic_ldap env db cs n pw ou =
      (if ou \<noteq> None \<and> usr_status (the ou) \<noteq> ''active'' then (Inl Err_Invalid_Input, db, cs)
       else if fst v then (Inr (the ou), touch_login db (the ou) (usr_username (the ou)), cs\<lparr> bcs_ldap := snd v \<rparr>)
       else (case login env db n pw of
               (Inl e, db') \<Rightarrow> (Inl e, db', cs\<lparr> bcs_ldap := snd v \<rparr>)
             | (Inr (tok, u), db') \<Rightarrow>
                 (Inr u, db', if usr_source u = ''ldap''
                    then cs\<lparr> bcs_ldap := cache_remember (snd v) (ud_now db) (usr_username u) pw u \<rparr> else cs\<lparr> bcs_ldap := snd v \<rparr>)))"
    by (cases "bcs_ldap cs"; cases ou) (simp_all add: basic_ldap_def v_def Let_def split: prod.split sum.split)
  have eq0: "fst (basic_ldap env db no_caches n pw ou) = (if ou \<noteq> None \<and> usr_status (the ou) \<noteq> ''active'' then Inl Err_Invalid_Input
      else case login env db n pw of (Inl e, db') \<Rightarrow> Inl e | (Inr (tok, u), db') \<Rightarrow> Inr u) \<and>
    fst (snd (basic_ldap env db no_caches n pw ou)) = (if ou \<noteq> None \<and> usr_status (the ou) \<noteq> ''active'' then db else snd (login env db n pw))"
    by (simp add: basic_ldap_def no_caches_def Let_def split: prod.split sum.split)
  show "fst (basic_ldap env db cs n pw ou) = fst (basic_ldap env db no_caches n pw ou) \<and>
         fst (snd (basic_ldap env db cs n pw ou)) = fst (snd (basic_ldap env db no_caches n pw ou)) \<or>
         (\<exists>u. ou = Some u \<and> usr_status u = ''active'' \<and> (to_lower n, pw) \<in> A \<and> fst (basic_ldap env db cs n pw ou) = Inr u \<and>
            fst (snd (basic_ldap env db cs n pw ou)) = touch_login db u (usr_username u))"
    unfolding eq using eq0 hit by (auto split: prod.split sum.split)
  have rem: "cache_bounded (cache_remember (snd v) (ud_now db) x pw u)" for x u by (rule cache_remember_bounded [OF vs(2)])
  obtain lr db1 where l: "login env db n pw = (lr, db1)" by (metis surj_pair)
  show "caches_ok M env (if directory_accepts env n pw then insert (to_lower n, pw) A else A) (snd (snd (basic_ldap env db cs n pw ou)))"
  proof (cases lr)
    case (Inl e)
    then show ?thesis unfolding eq caches_ok_def B_def [symmetric] using s vs vA sA l by simp
  next
    case (Inr p)
    obtain tok u where p: "p = (tok, u)" by (cases p)
    have "cache_sound M (accepted_in B) (cache_remember (snd v) (ud_now db) (usr_username u) pw u)" by (rule new) (use l Inr p in simp)
    then show ?thesis unfolding eq caches_ok_def B_def [symmetric] using s vs vA sA l Inr p rem by simp
  qed
qed

section \<open>Properties\<close>


text \<open>
  Whichever way a caller identifies itself (password, Basic, API token, OIDC, SAML), a disabled
  account is never authenticated.
\<close>

theorem only_active_accounts:
  "(\<forall>n pw tok u db'. login env db n pw = (Inr (tok, u), db') \<longrightarrow> usr_status u = ''active'') \<and>
   (\<forall>cs n pw u db' cs'. authenticate_basic env db cs n pw = (Inr u, db', cs') \<longrightarrow> usr_status u = ''active'') \<and>
   (\<forall>raw u t db'. authenticate_token env db raw = (Inr (u, t), db') \<longrightarrow> usr_status u = ''active'') \<and>
   (\<forall>oc idt tok u db'. login_oidc env db oc idt = (Inr (tok, u), db') \<longrightarrow> usr_status u = ''active'') \<and>
   (\<forall>sc tok u db'. login_saml env db sc = (Inr (tok, u), db') \<longrightarrow> usr_status u = ''active'')"
proof (intro conjI allI impI)
  fix n pw tok u db'
  show "login env db n pw = (Inr (tok, u), db') \<Longrightarrow> usr_status u = ''active''" by (rule login_active)
next
  fix cs n pw u db' cs'
  show "authenticate_basic env db cs n pw = (Inr u, db', cs') \<Longrightarrow> usr_status u = ''active''"
    by (rule authenticate_basic_active)
next
  fix raw u t db'
  show "authenticate_token env db raw = (Inr (u, t), db') \<Longrightarrow> usr_status u = ''active''"
    using authenticate_token_Inr by blast
next
  fix oc idt tok u db'
  show "login_oidc env db oc idt = (Inr (tok, u), db') \<Longrightarrow> usr_status u = ''active''"
    by (auto simp: login_oidc_def Let_def split: sum.splits option.splits if_splits)
next
  fix sc tok u db'
  show "login_saml env db sc = (Inr (tok, u), db') \<Longrightarrow> usr_status u = ''active''"
    by (auto simp: login_saml_def Let_def split: sum.splits option.splits if_splits)
qed

definition sso_off :: sso_config where
  "sso_off = \<lparr> sso_enabled = False, sso_provisioning = [], sso_email_allowlist = [], sso_admin_group = [],
     sso_role_mappings = [] \<rparr>"

definition example_env :: auth_env where
  "example_env = \<lparr> env_check = (\<lambda>h p. h = ''#'' @ p), env_hash = (\<lambda>p. Some (''#'' @ p)), env_min_password = 8,
     env_expiry_hours = 24, env_sign = (\<lambda>c. Some (cl_user_id c)), env_verify = (\<lambda>_ _. None),
     env_numeric_date = (\<lambda>t. t div seconds 1 * seconds 1), env_sha256 = (\<lambda>s. s), env_ldap = None, env_ldap_cfg = sso_off,
     env_oidc_cfg = sso_off\<lparr> sso_enabled := True, sso_role_mappings := [(''devs'', ''developer'')] \<rparr>,
     env_group_lookup = None, env_saml_cfg = sso_off\<lparr> sso_enabled := True \<rparr> \<rparr>"

definition alice :: user where
  "alice = (new_user ''alice'' ''a@x'' [] [] ''local'')\<lparr> usr_id := ''u1'', usr_password_hash := ''#secret'' \<rparr>"

definition olga :: user where
  "olga = (new_user ''olga'' ''o@x'' [] [] ''oidc'')\<lparr> usr_id := ''u2'' \<rparr>"

definition example_db :: user_db where
  "example_db = \<lparr> ud_users = [alice, olga], ud_roles = [\<lparr> role_id = ''r1'', role_name = ''nx-admin'' \<rparr>, \<lparr> role_id = ''r2'', role_name = ''developer'' \<rparr>],
     ud_user_roles = [(''u1'', ''r1''), (''u2'', ''r1'')], ud_tokens = [], ud_oidc_id_tokens = Map.empty, ud_now = seconds 1000,
     ud_next_id = ''u3'', ud_down = (\<lambda>_. False) \<rparr>"

definition dora :: user where
  "dora = (new_user ''dora'' ''d@x'' [] [] ''ldap'')\<lparr> usr_id := ''u4'' \<rparr>"

definition directory_env :: auth_env where
  "directory_env = example_env\<lparr> env_ldap := Some (\<lambda>_ _. None) \<rparr>"

definition directory_db :: user_db where
  "directory_db = example_db\<lparr> ud_users := [alice, olga, dora] \<rparr>"

text \<open>A hash that is not injective, but keeps the messages of the example apart.\<close>

definition example_mac :: "string \<Rightarrow> string" where
  "example_mac m = take 40 m"

definition example_caches :: basic_caches where
  "example_caches =
     \<lparr> bcs_local = cache_remember (Some (new_auth_cache example_mac (minutes 1) 10)) (seconds 990) ''alice'' ''secret'' alice,
       bcs_ldap = cache_remember (Some (new_auth_cache example_mac (minutes 1) 10)) (seconds 990) ''dora'' ''pw'' dora \<rparr>"

definition example_messages :: "string set" where
  "example_messages = {credential_message ''alice'' ''secret'', credential_message ''dora'' ''pw''}"

lemma new_cache_ok:
  "inj_on mac M \<Longrightarrow> cache_sound M ok (Some (new_auth_cache mac ttl n))" "cache_bounded (Some (new_auth_cache mac ttl n))"
  by (simp_all add: cache_sound_def cache_bounded_def new_auth_cache_def)

lemma example_mac_inj: "inj_on example_mac example_messages"
  unfolding example_messages_def by (rule inj_onI) (auto simp: example_mac_def credential_message_def hmac_field_def)

lemma example_caches_ok: "caches_ok example_messages directory_env {(''dora'', ''pw'')} example_caches"
proof -
  have sh: "short ''alice''" "short ''secret''" "short ''dora''" "short ''pw''" by (simp_all add: short_def)
  have m: "credential_message ''alice'' ''secret'' \<in> example_messages" "credential_message ''dora'' ''pw'' \<in> example_messages"
    by (simp_all add: example_messages_def)
  have "cache_sound example_messages (checked_by directory_env) (bcs_local example_caches)"
    unfolding example_caches_def basic_caches.simps
    by (rule cache_remember_sound [OF new_cache_ok(1) [OF example_mac_inj] _ sh(1,2) m(1)])
       (simp add: checked_by_def directory_env_def example_env_def alice_def)
  moreover have "cache_sound example_messages (accepted_in {(''dora'', ''pw'')}) (bcs_ldap example_caches)"
    unfolding example_caches_def basic_caches.simps
    by (rule cache_remember_sound [OF new_cache_ok(1) [OF example_mac_inj] _ sh(3,4) m(2)])
       (simp add: accepted_in_def to_lower_def lower_char_def)
  moreover have "cache_bounded (bcs_local example_caches)" "cache_bounded (bcs_ldap example_caches)"
    unfolding example_caches_def basic_caches.simps by (intro cache_remember_bounded new_cache_ok(2))+
  ultimately show ?thesis by (simp add: caches_ok_def)
qed


theorem only_active_accounts_witness:
  "\<exists>tok u db'. login example_env example_db ''alice'' ''secret'' = (Inr (tok, u), db') \<and> usr_status u = ''active''"
proof -
  have "fst (login example_env example_db ''alice'' ''secret'') = Inr (''u1'', with_roles example_db alice)"
    by (simp add: login_def users_find_def users_get_def example_db_def alice_def olga_def new_user_def example_env_def
        login_local_def generate_token_def with_roles_def)
  then obtain db' where l: "login example_env example_db ''alice'' ''secret'' = (Inr (''u1'', with_roles example_db alice), db')"
    by (metis prod.collapse)
  have "usr_status (with_roles example_db alice) = ''active''"
    by (rule only_active_accounts [THEN conjunct1, rule_format, OF l])
  with l show ?thesis by blast
qed

section \<open>Single sign-on keeps to its own accounts\<close>

lemma udb_wf_other:
  assumes "udb_wf db" "u \<in> set (ud_users db)" "v \<in> set (ud_users db)" "u \<noteq> v"
  shows "usr_username u \<noteq> usr_username v \<and> usr_id u \<noteq> usr_id v"
  using assms unfolding udb_wf_def by (metis inj_on_contraD distinct_map)

text \<open>What the upsert gives: an account of this source, and all rows of other sources untouched.\<close>

lemma sso_upsert_keeps:
  assumes "udb_wf db" "sso_upsert db cfg src n email fn ln f = (r, db')"
    and f: "\<And>u. usr_username (f u) = usr_username u \<and> usr_id (f u) = usr_id u \<and> usr_source (f u) = usr_source u"
  shows "rows_kept (\<lambda>v. usr_source v \<noteq> src) db db' \<and>
    (\<forall>u. r = Inr u \<longrightarrow> usr_source u = src \<and>
       (\<forall>v \<in> set (ud_users db). usr_source v \<noteq> src \<longrightarrow> usr_username v \<noteq> n \<and> usr_id v \<noteq> usr_id u))"
proof -
  consider e where "r = Inl e" "db' = db" | u where "users_find db n = Inr (Some u)" "usr_source u = src" "r = Inr (f u)" "db' = snd (users_update db (f u))"
    | "users_find db n = Inr None" "(r, db') = users_create db (new_user n email fn ln src)"
    using assms(2) by (auto simp: sso_upsert_def split: sum.splits option.splits if_splits)
  then show ?thesis
  proof cases
    case (2 u)
    from users_find_Some [OF 2(1)] obtain w where w: "usr_username u = n" "w \<in> set (ud_users db)" "u = with_roles db w" by blast
    have other: "usr_username v \<noteq> n \<and> usr_id v \<noteq> usr_id u" if "v \<in> set (ud_users db)" "usr_source v \<noteq> src" for v
      using udb_wf_other [OF assms(1) that(1) w(2)] that w 2(2) by auto
    then have "rows_kept (\<lambda>v. usr_source v \<noteq> src) db db'"
      unfolding 2(4) using f w(1) by (intro rows_kept_update) auto
    then show ?thesis using 2(2,3) other f by auto
  next
    case 3
    have "db' = snd (users_create db (new_user n email fn ln src))" using 3(2) by (metis snd_conv)
    then have "rows_kept (\<lambda>v. usr_source v \<noteq> src) db db'" by (simp add: rows_kept_create)
    moreover have "usr_source u = src \<and> usr_id u = ud_next_id db" if "r = Inr u" for u
      using 3(2) that by (auto simp: users_create_def Let_def new_user_def split: if_splits)
    moreover have "usr_id v \<noteq> ud_next_id db" if "v \<in> set (ud_users db)" for v
      using assms(1) that unfolding udb_wf_def by (metis imageI)
    ultimately show ?thesis using users_find_None [OF 3(1)] by auto
  qed simp
qed

lemma rows_kept_sync:
  assumes "\<And>v. v \<in> set (ud_users db) \<Longrightarrow> P v \<Longrightarrow> usr_id v \<noteq> uid"
  shows "rows_kept P db (sync_oidc_roles env db uid gs p)" "rows_kept P db (sync_saml_roles env db uid gs p)"
  using rows_kept_set_roles [OF assms]
  by (auto simp: sync_oidc_roles_def sync_saml_roles_def split: option.split)

text \<open>Rows a step adds do not satisfy the predicate, or were there before.\<close>

definition rows_from :: "(user \<Rightarrow> bool) \<Rightarrow> user_db \<Rightarrow> user_db \<Rightarrow> bool" where
  "rows_from P db db' \<longleftrightarrow>
     (\<forall>v \<in> set (ud_users db'). P v \<longrightarrow> (\<exists>w \<in> set (ud_users db). P w \<and> usr_id w = usr_id v \<and> usr_username w = usr_username v))"

lemma rows_from_upsert:
  assumes "sso_upsert db cfg src n email fn ln f = (r, db')"
  shows "rows_from (\<lambda>v. usr_source v \<noteq> src) db db'"
proof -
  have upd: "rows_from (\<lambda>v. usr_source v \<noteq> src) db (snd (users_update db x))" for x
    by (auto simp: rows_from_def users_update_def split: if_splits)
  have cr: "rows_from (\<lambda>v. usr_source v \<noteq> src) db (snd (users_create db (new_user n email fn ln src)))"
    by (auto simp: rows_from_def users_create_def new_user_def Let_def)
  have "db' = snd (sso_upsert db cfg src n email fn ln f)" using assms by simp
  then show ?thesis
    using upd cr by (auto simp: sso_upsert_def rows_from_def split: sum.split option.split)
qed

lemma login_sso_tail:
  assumes "rows_from (\<lambda>v. usr_source v \<noteq> src) db db1"
    and "\<forall>v \<in> set (ud_users db). usr_source v \<noteq> src \<longrightarrow> usr_username v \<noteq> n \<and> usr_id v \<noteq> uid"
  shows "rows_kept (\<lambda>v. usr_source v \<noteq> src) db1 (sync_oidc_roles env db1 uid gs p) \<and>
         rows_kept (\<lambda>v. usr_source v \<noteq> src) db1 (sync_saml_roles env db1 uid gs p) \<and>
         rows_kept (\<lambda>v. usr_source v \<noteq> src) db1
           (update_last_login (set_oidc_tokens (sync_oidc_roles env db1 uid gs p) uid tok) n) \<and>
         rows_kept (\<lambda>v. usr_source v \<noteq> src) db1 (update_last_login (sync_saml_roles env db1 uid gs p) n)"
proof -
  have ne: "usr_username v \<noteq> n \<and> usr_id v \<noteq> uid" if "v \<in> set (ud_users db1)" "usr_source v \<noteq> src" for v
    using assms that unfolding rows_from_def by metis
  have 1: "rows_kept (\<lambda>v. usr_source v \<noteq> src) db1 (sync_oidc_roles env db1 uid gs p)"
    "rows_kept (\<lambda>v. usr_source v \<noteq> src) db1 (sync_saml_roles env db1 uid gs p)"
    using ne by (auto intro: rows_kept_sync)
  have 2: "rows_kept (\<lambda>v. usr_source v \<noteq> src) db2 (update_last_login db2 n)" if "ud_users db2 = ud_users db1" for db2
    by (rule rows_kept_last_login) (use ne that in auto)
  have 3: "rows_kept (\<lambda>v. usr_source v \<noteq> src) db1 (set_oidc_tokens (sync_oidc_roles env db1 uid gs p) uid tok)"
    using rows_kept_trans [OF 1(1) rows_kept_oidc_tokens] .
  show ?thesis
    using 1 rows_kept_trans [OF 3 2] rows_kept_trans [OF 1(2) 2] by simp
qed

lemma login_oidc_cases:
  assumes "login_oidc env db oc idt = (r, db')"
  obtains (refused) e where "r = Inl e" "db' = db"
  | (upsert) r1 db1 n email f where "sso_upsert db (env_oidc_cfg env) ''oidc'' n email (oc_first_name oc) (oc_last_name oc) f = (r1, db1)"
      "f = (\<lambda>u. u\<lparr> usr_email := email, usr_first_name := oc_first_name oc, usr_last_name := oc_last_name oc \<rparr>)"
      "(\<exists>e. r = Inl e) \<and> db' = db1 \<or>
       (\<exists>u gs p. r1 = Inr u \<and>
          ((\<exists>e. r = Inl e) \<and> db' = sync_oidc_roles env db1 (usr_id u) gs p \<or>
           (\<exists>tok. r = Inr (tok, reload_roles (sync_oidc_roles env db1 (usr_id u) gs p) u)) \<and>
           db' = update_last_login (set_oidc_tokens (sync_oidc_roles env db1 (usr_id u) gs p) (usr_id u) idt) n))"
proof -
  let ?n = "to_lower (trim_space (oc_username oc))" and ?e = "to_lower (trim_space (oc_email oc))"
  let ?f = "\<lambda>u. u\<lparr> usr_email := ?e, usr_first_name := oc_first_name oc, usr_last_name := oc_last_name oc \<rparr>"
  obtain r1 db1 where u: "sso_upsert db (env_oidc_cfg env) ''oidc'' ?n ?e (oc_first_name oc) (oc_last_name oc) ?f = (r1, db1)"
    by (metis prod.collapse)
  show thesis
  proof (cases "\<not> sso_enabled (env_oidc_cfg env) \<or> ?n = [] \<or> ?e = []")
    case True
    then show ?thesis using assms refused by (auto simp: login_oidc_def Let_def split: if_splits)
  next
    case False
    show ?thesis
      using assms False u
      by (intro upsert [OF u refl])
         (auto simp: login_oidc_def Let_def split: sum.splits option.splits if_splits)
  qed
qed

lemma login_saml_cases:
  assumes "login_saml env db sc = (r, db')"
  obtains (refused) e where "r = Inl e" "db' = db"
  | (upsert) r1 db1 n email f where "sso_upsert db (env_saml_cfg env) ''saml'' n email (sc_name sc) [] f = (r1, db1)"
      "f = (\<lambda>u. u\<lparr> usr_email := email, usr_first_name := sc_name sc \<rparr>)"
      "(\<exists>e. r = Inl e) \<and> db' = db1 \<or>
       (\<exists>u gs p. r1 = Inr u \<and>
          ((\<exists>e. r = Inl e) \<and> db' = sync_saml_roles env db1 (usr_id u) gs p \<or>
           (\<exists>tok. r = Inr (tok, reload_roles (sync_saml_roles env db1 (usr_id u) gs p) u)) \<and>
           db' = update_last_login (sync_saml_roles env db1 (usr_id u) gs p) n))"
proof -
  let ?n = "to_lower (trim_space (sc_username sc))" and ?e = "to_lower (trim_space (sc_email sc))"
  let ?f = "\<lambda>u. u\<lparr> usr_email := ?e, usr_first_name := sc_name sc \<rparr>"
  obtain r1 db1 where u: "sso_upsert db (env_saml_cfg env) ''saml'' ?n ?e (sc_name sc) [] ?f = (r1, db1)"
    by (metis prod.collapse)
  show thesis
  proof (cases "\<not> sso_enabled (env_saml_cfg env) \<or> ?n = [] \<or> ?e = []")
    case True
    then show ?thesis using assms refused by (auto simp: login_saml_def Let_def split: if_splits)
  next
    case False
    show ?thesis
      using assms False u
      by (intro upsert [OF u refl])
         (auto simp: login_saml_def Let_def split: sum.splits option.splits if_splits)
  qed
qed

lemma login_oidc_keeps:
  assumes "udb_wf db" "login_oidc env db oc idt = (r, db')"
  shows "rows_kept (\<lambda>v. usr_source v \<noteq> ''oidc'') db db' \<and> (\<forall>tok u. r = Inr (tok, u) \<longrightarrow> usr_source u = ''oidc'')"
  using assms(2)
proof (cases rule: login_oidc_cases)
  case refused
  then show ?thesis by simp
next
  case (upsert r1 db1 n email f)
  have k: "rows_kept (\<lambda>v. usr_source v \<noteq> ''oidc'') db db1"
    "\<And>u. r1 = Inr u \<Longrightarrow> usr_source u = ''oidc'' \<and>
       (\<forall>v \<in> set (ud_users db). usr_source v \<noteq> ''oidc'' \<longrightarrow> usr_username v \<noteq> n \<and> usr_id v \<noteq> usr_id u)"
    using sso_upsert_keeps [OF assms(1) upsert(1)] upsert(2) by auto
  have tail: "rows_kept (\<lambda>v. usr_source v \<noteq> ''oidc'') db (sync_oidc_roles env db1 (usr_id u) gs p)"
    "rows_kept (\<lambda>v. usr_source v \<noteq> ''oidc'') db (update_last_login (set_oidc_tokens (sync_oidc_roles env db1 (usr_id u) gs p) (usr_id u) idt) n)"
    if "r1 = Inr u" for u gs p
    using login_sso_tail [OF rows_from_upsert [OF upsert(1)] conjunct2 [OF k(2) [OF that]]] rows_kept_trans [OF k(1)] by blast+
  from upsert(3) show ?thesis
  proof (elim disjE exE conjE)
    fix e assume "r = Inl e" "db' = db1"
    then show ?thesis using k by simp
  next
    fix u gs p e assume "r1 = Inr u" "r = Inl e" "db' = sync_oidc_roles env db1 (usr_id u) gs p"
    then show ?thesis using tail by simp
  next
    fix u gs p tok
    assume "r1 = Inr u" "r = Inr (tok, reload_roles (sync_oidc_roles env db1 (usr_id u) gs p) u)"
      "db' = update_last_login (set_oidc_tokens (sync_oidc_roles env db1 (usr_id u) gs p) (usr_id u) idt) n"
    then show ?thesis using k(2) tail by simp
  qed
qed

lemma login_saml_keeps:
  assumes "udb_wf db" "login_saml env db sc = (r, db')"
  shows "rows_kept (\<lambda>v. usr_source v \<noteq> ''saml'') db db' \<and> (\<forall>tok u. r = Inr (tok, u) \<longrightarrow> usr_source u = ''saml'')"
  using assms(2)
proof (cases rule: login_saml_cases)
  case refused
  then show ?thesis by simp
next
  case (upsert r1 db1 n email f)
  have k: "rows_kept (\<lambda>v. usr_source v \<noteq> ''saml'') db db1"
    "\<And>u. r1 = Inr u \<Longrightarrow> usr_source u = ''saml'' \<and>
       (\<forall>v \<in> set (ud_users db). usr_source v \<noteq> ''saml'' \<longrightarrow> usr_username v \<noteq> n \<and> usr_id v \<noteq> usr_id u)"
    using sso_upsert_keeps [OF assms(1) upsert(1)] upsert(2) by auto
  have tail: "rows_kept (\<lambda>v. usr_source v \<noteq> ''saml'') db (sync_saml_roles env db1 (usr_id u) gs p)"
    "rows_kept (\<lambda>v. usr_source v \<noteq> ''saml'') db (update_last_login (sync_saml_roles env db1 (usr_id u) gs p) n)"
    if "r1 = Inr u" for u gs p
    using login_sso_tail [OF rows_from_upsert [OF upsert(1)] conjunct2 [OF k(2) [OF that]]] rows_kept_trans [OF k(1)] by blast+
  from upsert(3) show ?thesis
  proof (elim disjE exE conjE)
    fix e assume "r = Inl e" "db' = db1"
    then show ?thesis using k by simp
  next
    fix u gs p e assume "r1 = Inr u" "r = Inl e" "db' = sync_saml_roles env db1 (usr_id u) gs p"
    then show ?thesis using k(2) tail by simp
  next
    fix u gs p tok
    assume "r1 = Inr u" "r = Inr (tok, reload_roles (sync_saml_roles env db1 (usr_id u) gs p) u)"
      "db' = update_last_login (sync_saml_roles env db1 (usr_id u) gs p) n"
    then show ?thesis using k(2) tail by simp
  qed
qed

text \<open>
  C28: single sign-on cannot take over an account. Whatever name and email an identity provider
  asserts, and whether the login succeeds or fails on the way, every account of another source keeps
  its row and its roles unchanged, and the account logged in is one of the provider's own source.
\<close>

theorem sso_cannot_take_over:
  assumes "udb_wf db"
  shows "(\<forall>oc idt r db'. login_oidc env db oc idt = (r, db') \<longrightarrow>
            rows_kept (\<lambda>v. usr_source v \<noteq> ''oidc'') db db' \<and> (\<forall>tok u. r = Inr (tok, u) \<longrightarrow> usr_source u = ''oidc'')) \<and>
         (\<forall>sc r db'. login_saml env db sc = (r, db') \<longrightarrow>
            rows_kept (\<lambda>v. usr_source v \<noteq> ''saml'') db db' \<and> (\<forall>tok u. r = Inr (tok, u) \<longrightarrow> usr_source u = ''saml''))"
  using login_oidc_keeps [OF assms] login_saml_keeps [OF assms] by blast

definition olga_claims :: oidc_claims where
  "olga_claims = \<lparr> oc_username = '' Olga'', oc_email = ''o@x'', oc_first_name = ''O'', oc_last_name = [],
     oc_groups = [''CN=Devs,DC=x''], oc_groups_present = True \<rparr>"

lemma example_db_wf: "udb_wf example_db"
  by (simp add: udb_wf_def example_db_def alice_def olga_def new_user_def)

theorem sso_cannot_take_over_witness:
  "rows_kept (\<lambda>v. usr_source v \<noteq> ''oidc'') example_db (snd (login_oidc example_env example_db olga_claims ''id'')) \<and>
   alice \<in> set (ud_users (snd (login_oidc example_env example_db olga_claims ''id'')))"
proof -
  have "rows_kept (\<lambda>v. usr_source v \<noteq> ''oidc'') example_db (snd (login_oidc example_env example_db olga_claims ''id''))"
    using sso_cannot_take_over [OF example_db_wf, of example_env] by (metis prod.collapse)
  moreover have "alice \<in> set (ud_users example_db)" "usr_source alice \<noteq> ''oidc''"
    by (simp_all add: example_db_def alice_def new_user_def)
  ultimately show ?thesis unfolding rows_kept_def by blast
qed

end
