(* ===== verification/Auth_Gate.thy ===== *)
theory Auth_Gate
  imports User_Service Login_Guard Rbac
begin

text \<open>
  The authentication handlers of \<open>internal/api/handlers/auth.go\<close> and \<open>docker_token.go\<close>: bearer
  tokens with their revocation, the blocking and the optional middleware, the registry ping and the
  registry token endpoint, each throttled by the login guard. The state they share is the account
  database, the Basic caches, this node's guard and the guard's store.
\<close>

section \<open>State, requests and outcomes\<close>

record 'st gate =
  gt_db :: user_db
  gt_caches :: basic_caches
  gt_guard :: "guard option"
  gt_store :: 'st

text \<open>\<open>ar_basic\<close> is what \<open>Request.BasicAuth\<close> makes of the header, \<open>ar_form\<close> the POST form of the token endpoint.\<close>

record auth_request =
  ar_authorization :: string
  ar_basic :: "(string \<times> string) option"
  ar_query_token :: string
  ar_method :: string
  ar_grant_type :: string
  ar_form :: "string \<times> string"

text \<open>The identity keys of the gin context; an unauthenticated request has \<^term>\<open>anonymous\<close>.\<close>

record identity =
  id_username :: string
  id_user_id :: string
  id_roles :: "string list"
  id_scopes :: "string list option"
  id_api_token :: "string option"
  id_api_token_expires :: "time option"

definition anonymous :: identity where
  "anonymous = \<lparr> id_username = [], id_user_id = [], id_roles = [], id_scopes = None, id_api_token = None,
     id_api_token_expires = None \<rparr>"

text \<open>\<open>Passed\<close> runs the next handler; \<open>Refused\<close> carries the status and the Retry-After seconds.\<close>

datatype gate_outcome = Passed identity | Refused nat int

definition token_scopes :: "string list \<Rightarrow> string list option" where
  "token_scopes scopes = (if scopes \<noteq> [] then Some scopes else None)"

definition api_token_identity :: "user \<Rightarrow> user_token \<Rightarrow> identity" where
  "api_token_identity u tok =
     \<lparr> id_username = usr_username u, id_user_id = usr_id u, id_roles = usr_roles u,
       id_scopes = token_scopes (tok_scopes tok), id_api_token = Some (tok_id tok),
       id_api_token_expires = tok_expires_at tok \<rparr>"

definition user_identity :: "user \<Rightarrow> identity" where
  "user_identity u = anonymous\<lparr> id_username := usr_username u, id_user_id := usr_id u, id_roles := usr_roles u \<rparr>"

text \<open>\<open>Duration.Round(time.Second)\<close> rounds half away from zero and saturates.\<close>

definition retry_after_seconds :: "duration \<Rightarrow> int" where
  "retry_after_seconds d =
     (let r = d mod seconds 1;
          rounded = (if r + r < seconds 1 then d - r
                     else if in64 (d + (seconds 1 - r)) then d + (seconds 1 - r) else 2 ^ 63 - 1);
          s = rounded div seconds 1
      in if s < 1 then 1 else s)"

section \<open>Bearer tokens\<close>

definition jwt_not_revoked :: "user_db \<Rightarrow> claims \<Rightarrow> bool" where
  "jwt_not_revoked db c =
     (case users_get_by_id db (cl_user_id c) of
        Inl _ \<Rightarrow> False
      | Inr u \<Rightarrow> \<not> (case cl_issued_at c of Some iat \<Rightarrow> iat < usr_tokens_valid_after u | None \<Rightarrow> False))"

definition claims_identity :: "claims \<Rightarrow> identity" where
  "claims_identity c = anonymous\<lparr> id_username := cl_username c, id_user_id := cl_user_id c, id_roles := cl_roles c,
     id_scopes := token_scopes (cl_scopes c) \<rparr>"

text \<open>\<open>(ok, revoked)\<close> with the identity set on success; \<open>tokens_on\<close> is \<open>tokens != nil\<close>.\<close>

definition authenticate_bearer ::
  "auth_env \<Rightarrow> bool \<Rightarrow> user_db \<Rightarrow> string \<Rightarrow> ((bool \<times> bool) \<times> identity) \<times> user_db" where
  "authenticate_bearer env tokens_on db raw =
     (case env_verify env (ud_now db) raw of
        Some c \<Rightarrow>
          if cl_user_id c = [] then (((False, False), anonymous), db)
          else if \<not> jwt_not_revoked db c then (((False, True), anonymous), db)
          else if cl_token_id c \<noteq> [] \<and> (\<not> tokens_on \<or> \<not> token_active db (cl_token_id c) (cl_user_id c))
          then (((False, True), anonymous), db)
          else (((True, False), claims_identity c), db)
      | None \<Rightarrow>
          if \<not> tokens_on then (((False, False), anonymous), db)
          else (case authenticate_token env db raw of
                  (Inl _, db') \<Rightarrow> (((False, False), anonymous), db')
                | (Inr (u, tok), db') \<Rightarrow> (((True, False), api_token_identity u tok), db')))"

section \<open>A throttled password attempt\<close>

datatype attempt = Throttled duration | Bad_Credentials | Logged_In string user

text \<open>
  The sequence the four password entry points share: ask the guard, only then check the password,
  and report the outcome to the guard. \<open>AuthHandler.Login\<close> is this with its JSON around it.
\<close>

definition guarded_login ::
  "auth_env \<Rightarrow> 'st login_store option \<Rightarrow> 'st gate \<Rightarrow> string \<Rightarrow> string \<Rightarrow> attempt \<times> 'st gate" where
  "guarded_login env store g username password =
     (let now = ud_now (gt_db g);
          wait = retry_after store (gt_guard g) (gt_store g) now username
      in if wait > 0 then (Throttled wait, g)
         else
           (case login env (gt_db g) username password of
              (Inl _, db') \<Rightarrow>
                (let (og, st) = record_failure store (gt_guard g) (gt_store g) now username
                 in (Bad_Credentials, g\<lparr> gt_db := db', gt_guard := og, gt_store := st \<rparr>))
            | (Inr (tok, u), db') \<Rightarrow>
                (let (og, st) = record_success store (gt_guard g) (gt_store g) now username
                 in (Logged_In tok u, g\<lparr> gt_db := db', gt_guard := og, gt_store := st \<rparr>))))"

definition handler_login ::
  "auth_env \<Rightarrow> 'st login_store option \<Rightarrow> 'st gate \<Rightarrow> (string \<times> string) option \<Rightarrow> gate_outcome \<times> string \<times> 'st gate" where
  "handler_login env store g body =
     (case body of
        None \<Rightarrow> (Refused 400 0, [], g)
      | Some (username, password) \<Rightarrow>
          if username = [] \<or> password = [] then (Refused 400 0, [], g)
          else (case guarded_login env store g username password of
                  (Throttled wait, g') \<Rightarrow> (Refused 429 (retry_after_seconds wait), [], g')
                | (Bad_Credentials, g') \<Rightarrow> (Refused 401 0, [], g')
                | (Logged_In tok u, g') \<Rightarrow> (Passed (user_identity u), tok, g')))"

text \<open>An API token offered as the Basic password, with any username.\<close>

definition basic_api_token ::
  "auth_env \<Rightarrow> bool \<Rightarrow> user_db \<Rightarrow> string \<Rightarrow> (user \<times> user_token) option \<times> user_db" where
  "basic_api_token env tokens_on db password =
     (if tokens_on \<and> has_prefix password token_prefix then
        (case authenticate_token env db password of
           (Inl _, db') \<Rightarrow> (None, db')
         | (Inr r, db') \<Rightarrow> (Some r, db'))
      else (None, db))"

section \<open>The handlers\<close>

text \<open>\<open>enforceTokenScopes\<close> and the call of the next handler.\<close>

definition pass_in_scope :: "auth_request \<Rightarrow> identity \<Rightarrow> gate_outcome" where
  "pass_in_scope rq ident =
     (if scopes_allow (id_scopes ident) (method_to_action (ar_method rq)) then Passed ident else Refused 403 0)"

definition auth_middleware ::
  "auth_env \<Rightarrow> bool \<Rightarrow> 'st login_store option \<Rightarrow> 'st gate \<Rightarrow> auth_request \<Rightarrow> gate_outcome \<times> 'st gate" where
  "auth_middleware env tokens_on store g rq =
     (let raw = (if has_prefix (ar_authorization rq) ''Bearer '' then trim_prefix (ar_authorization rq) ''Bearer '' else [])
      in if raw = [] \<and> ar_basic rq \<noteq> None then
           (let (username, password) = the (ar_basic rq)
            in case basic_api_token env tokens_on (gt_db g) password of
                 (Some (u, tok), db') \<Rightarrow> (pass_in_scope rq (api_token_identity u tok), g\<lparr> gt_db := db' \<rparr>)
               | (None, db') \<Rightarrow>
                   (case guarded_login env store (g\<lparr> gt_db := db' \<rparr>) username password of
                      (Throttled wait, g') \<Rightarrow> (Refused 429 (retry_after_seconds wait), g')
                    | (Bad_Credentials, g') \<Rightarrow> (Refused 401 0, g')
                    | (Logged_In _ u, g') \<Rightarrow> (Passed (user_identity u), g')))
         else if raw = [] then (Refused 401 0, g)
         else
           (case authenticate_bearer env tokens_on (gt_db g) raw of
              (((ok, revoked), ident), db') \<Rightarrow>
                (if \<not> ok then Refused 401 0 else pass_in_scope rq ident, g\<lparr> gt_db := db' \<rparr>)))"

definition query_token_auth ::
  "auth_env \<Rightarrow> bool \<Rightarrow> 'st login_store option \<Rightarrow> 'st gate \<Rightarrow> auth_request \<Rightarrow> gate_outcome \<times> 'st gate" where
  "query_token_auth env tokens_on store g rq =
     auth_middleware env tokens_on store g
       (if ar_authorization rq = [] \<and> ar_query_token rq \<noteq> []
        then rq\<lparr> ar_authorization := ''Bearer '' @ ar_query_token rq, ar_basic := None \<rparr> else rq)"

text \<open>The middleware of the data routes never refuses: a bad credential continues as anonymous.\<close>

definition optional_auth ::
  "auth_env \<Rightarrow> bool \<Rightarrow> 'st login_store option \<Rightarrow> 'st gate \<Rightarrow> auth_request \<Rightarrow> identity \<times> 'st gate" where
  "optional_auth env tokens_on store g rq =
     (if has_prefix (ar_authorization rq) ''Bearer '' then
        (case authenticate_bearer env tokens_on (gt_db g) (trim_prefix (ar_authorization rq) ''Bearer '') of
           (((ok, revoked), ident), db') \<Rightarrow> (ident, g\<lparr> gt_db := db' \<rparr>))
      else case ar_basic rq of
        None \<Rightarrow> (anonymous, g)
      | Some (username, password) \<Rightarrow>
          if username = [] then (anonymous, g)
          else
            (case basic_api_token env tokens_on (gt_db g) password of
               (Some (u, tok), db') \<Rightarrow> (api_token_identity u tok, g\<lparr> gt_db := db' \<rparr>)
             | (None, db0) \<Rightarrow>
                 (let now = ud_now db0
                  in if retry_after store (gt_guard g) (gt_store g) now username > 0 then (anonymous, g\<lparr> gt_db := db0 \<rparr>)
                     else
                       (case authenticate_basic env db0 (gt_caches g) username password of
                          (Inr u, db', cs') \<Rightarrow>
                            (let (og, st) = record_success store (gt_guard g) (gt_store g) now username
                             in (user_identity u, \<lparr> gt_db = db', gt_caches = cs', gt_guard = og, gt_store = st \<rparr>))
                        | (Inl _, db', cs') \<Rightarrow>
                            (let (og, st) = record_failure store (gt_guard g) (gt_store g) now username
                             in (anonymous, \<lparr> gt_db = db', gt_caches = cs', gt_guard = og, gt_store = st \<rparr>))))))"

text \<open>The registry ping; \<open>Refused 401\<close> carries the Bearer challenge.\<close>

definition docker_v2_auth ::
  "auth_env \<Rightarrow> bool \<Rightarrow> 'st login_store option \<Rightarrow> 'st gate \<Rightarrow> auth_request \<Rightarrow> gate_outcome \<times> 'st gate" where
  "docker_v2_auth env tokens_on store g rq =
     (if ar_authorization rq = [] then (Refused 401 0, g)
      else if has_prefix (ar_authorization rq) ''Bearer '' then
        (let raw = trim_prefix (ar_authorization rq) ''Bearer ''
         in if (case env_verify env (ud_now (gt_db g)) raw of Some c \<Rightarrow> cl_user_id c = [] | None \<Rightarrow> False)
            then (Passed anonymous, g)
            else
              (case authenticate_bearer env tokens_on (gt_db g) raw of
                 (((ok, revoked), ident), db') \<Rightarrow>
                   (if ok then Passed ident else Refused 401 0, g\<lparr> gt_db := db' \<rparr>)))
      else if has_prefix (ar_authorization rq) ''Basic '' then
        (case ar_basic rq of
           None \<Rightarrow> (Refused 401 0, g)
         | Some (username, password) \<Rightarrow>
             (case basic_api_token env tokens_on (gt_db g) password of
                (Some (u, tok), db') \<Rightarrow>
                  (Passed (anonymous\<lparr> id_username := usr_username u, id_user_id := usr_id u \<rparr>), g\<lparr> gt_db := db' \<rparr>)
              | (None, db') \<Rightarrow>
                  (case guarded_login env store (g\<lparr> gt_db := db' \<rparr>) username password of
                     (Throttled wait, g') \<Rightarrow> (Refused 429 (retry_after_seconds wait), g')
                   | (Bad_Credentials, g') \<Rightarrow> (Refused 401 0, g')
                   | (Logged_In _ u, g') \<Rightarrow>
                       (Passed (anonymous\<lparr> id_username := usr_username u, id_user_id := usr_id u \<rparr>), g'))))
      else (Refused 401 0, g))"

text \<open>
  The registry token endpoint: the token and its lifetime, or a status. Every issuer the server
  wires can bind a token to an API token.
\<close>

datatype token_answer = Issued string duration | Token_Refused nat

definition docker_token ::
  "auth_env \<Rightarrow> bool \<Rightarrow> bool \<Rightarrow> duration \<Rightarrow> 'st login_store option \<Rightarrow> 'st gate \<Rightarrow> auth_request \<Rightarrow> token_answer \<times> 'st gate" where
  "docker_token env tokens_on anonymous_enabled token_ttl store g rq =
     (let now = ud_now (gt_db g);
          basic = (case ar_basic rq of None \<Rightarrow> ([], []) | Some up \<Rightarrow> up);
          post = (ar_method rq = ''POST'');
          (username, password) = (if post \<and> fst basic = [] then ar_form rq else basic);
          respond = (\<lambda>t. case t of None \<Rightarrow> Token_Refused 503 | Some (tok, ttl) \<Rightarrow> Issued tok ttl)
      in if post \<and> ar_grant_type rq \<noteq> [] \<and> ar_grant_type rq \<noteq> ''password'' then (Token_Refused 404, g)
         else if username \<noteq> [] then
           (case basic_api_token env tokens_on (gt_db g) password of
              (Some (u, tok), db') \<Rightarrow>
                (respond (map_option (\<lambda>(t, exp). (t, time_sub exp now))
                   (generate_api_token_jwt env now (usr_id u) (usr_username u) (usr_roles u) (tok_scopes tok)
                      (tok_id tok) (tok_expires_at tok))), g\<lparr> gt_db := db' \<rparr>)
            | (None, db') \<Rightarrow>
                (case guarded_login env store (g\<lparr> gt_db := db' \<rparr>) username password of
                   (Throttled wait, g') \<Rightarrow> (Token_Refused 429, g')
                 | (Bad_Credentials, g') \<Rightarrow> (Token_Refused 401, g')
                 | (Logged_In _ u, g') \<Rightarrow>
                     (respond (map_option (\<lambda>t. (t, token_ttl))
                        (generate_token env now (usr_id u) (usr_username u) (usr_roles u))), g')))
         else if \<not> anonymous_enabled then (Token_Refused 401, g)
         else (respond (map_option (\<lambda>t. (t, token_ttl)) (generate_token env now [] [] [])), g))"

section \<open>Revocation\<close>

lemma users_get_by_id_row:
  "users_get_by_id db uid = Inr u \<Longrightarrow> \<exists>v \<in> set (ud_users db). usr_id v = uid \<and> usr_tokens_valid_after v = usr_tokens_valid_after u"
  using users_get_by_id_Inr [of db uid u] by auto

text \<open>A claim set is dead once every row of its user has a cutoff after it was issued.\<close>

definition dead_claims :: "user_db \<Rightarrow> claims \<Rightarrow> bool" where
  "dead_claims db c \<longleftrightarrow>
     (\<exists>t. cl_issued_at c = Some t \<and>
        (\<forall>v \<in> set (ud_users db). usr_id v = cl_user_id c \<longrightarrow> t < usr_tokens_valid_after v))"

lemma dead_claims_revoked: "dead_claims db c \<Longrightarrow> \<not> jwt_not_revoked db c"
  using users_get_by_id_row [of db "cl_user_id c"]
  by (fastforce simp: dead_claims_def jwt_not_revoked_def split: sum.splits)

lemma dead_claims_now [simp]: "dead_claims (db\<lparr> ud_now := t \<rparr>) c = dead_claims db c"
  by (simp add: dead_claims_def)

lemma bump_dead:
  assumes "\<not> ud_down db Op_Bump" "cl_issued_at c = Some t" "t < ud_now db"
  shows "dead_claims (bump_tokens_valid_after db (cl_user_id c)) c"
  using assms by (auto simp: dead_claims_def bump_tokens_valid_after_def)

lemma update_password_frame:
  "users_update_password db n h = (r, db') \<Longrightarrow> ud_down db' = ud_down db \<and> ud_now db' = ud_now db"
  by (auto simp: users_update_password_def split: if_splits)

lemma store_password_dead:
  assumes "store_password env db u n pw = (Inr (), db')" "\<not> ud_down db Op_Bump"
    and "cl_user_id c = usr_id u" "cl_issued_at c = Some t" "t < ud_now db"
  shows "dead_claims db' c"
proof -
  obtain h db1 where "users_update_password db n h = (Inr (), db1)" "db' = bump_tokens_valid_after db1 (usr_id u)"
    using assms(1) by (auto simp: store_password_def split: option.splits prod.splits sum.splits)
  then show ?thesis using bump_dead [of db1 c t] update_password_frame assms by auto
qed

text \<open>The operations that revoke the sessions of an account.\<close>

inductive revokes :: "auth_env \<Rightarrow> user_db \<Rightarrow> user \<Rightarrow> user_db \<Rightarrow> bool" for env db u where
  changed: "users_get db n = Inr u \<Longrightarrow> change_password env db n old new = (Inr (), db') \<Longrightarrow> revokes env db u db'"
| reset: "users_get db n = Inr u \<Longrightarrow> set_password env db n new = (Inr (), db') \<Longrightarrow> revokes env db u db'"
| new_roles: "service_set_user_roles db (usr_id u) ids = (Inr (), db') \<Longrightarrow> revokes env db u db'"
| disabled: "users_get db n = Inr u \<Longrightarrow> user_update db n upd = (Inr v, db') \<Longrightarrow> usr_status u = ''active'' \<Longrightarrow>
    usr_status upd = ''disabled'' \<Longrightarrow> revokes env db u db'"
| deleted: "users_get db n = Inr u \<Longrightarrow> user_delete db n = (Inr (), db') \<Longrightarrow> revokes env db u db'"

inductive_cases revokesE: "revokes env db u db'"

lemma revokes_dead:
  assumes "revokes env db u db'" "udb_wf db" "\<not> ud_down db Op_Bump"
    and "cl_user_id c = usr_id u" "cl_issued_at c = Some t" "t < ud_now db"
  shows "dead_claims db' c"
  using assms(1)
proof cases
  case (changed n old new)
  then have "store_password env db u n new = (Inr (), db')"
    by (auto simp: change_password_def split: option.splits if_splits)
  then show ?thesis using store_password_dead assms by blast
next
  case (reset n new)
  then have "store_password env db u n new = (Inr (), db')"
    by (auto simp: set_password_def split: option.splits)
  then show ?thesis using store_password_dead assms by blast
next
  case (new_roles ids)
  then obtain db1 where "set_user_roles db (usr_id u) ids = (Inr (), db1)" "db' = bump_tokens_valid_after db1 (usr_id u)"
    by (auto simp: service_set_user_roles_def split: prod.splits sum.splits)
  then show ?thesis using bump_dead [of db1 c t] assms by (auto simp: set_user_roles_def split: if_splits)
next
  case (disabled n upd v)
  then obtain u' db1 where "users_update db u' = (Inr (), db1)" "db' = bump_tokens_valid_after db1 (usr_id u')"
    "usr_id u' = usr_id u"
    by (auto simp: user_update_def Let_def split: prod.splits sum.splits)
  then show ?thesis using bump_dead [of db1 c t] assms by (auto simp: users_update_def split: if_splits)
next
  case (deleted n)
  from users_get_Inr [OF deleted(1)] obtain w where w: "usr_username u = n" "w \<in> set (ud_users db)" "u = with_roles db w" by blast
  have "db' = db\<lparr> ud_users := filter (\<lambda>v. usr_username v \<noteq> n) (ud_users db) \<rparr>"
    using deleted by (auto simp: user_delete_def users_delete_def split: if_splits)
  moreover have "usr_username v = n" if "v \<in> set (ud_users db)" "usr_id v = usr_id u" for v
    using udb_wf_other [OF assms(2) that(1) w(2)] that(2) w by auto
  ultimately show ?thesis using assms(4,5) by (auto simp: dead_claims_def)
qed


definition alice_claims :: claims where
  "alice_claims = \<lparr> cl_user_id = ''u1'', cl_username = ''alice'', cl_roles = [''nx-admin''], cl_auth_method = [],
     cl_scopes = [], cl_token_id = [], cl_issued_at = Some (seconds 900), cl_expires_at = seconds 90000 \<rparr>"

definition jwt_env :: auth_env where
  "jwt_env = example_env\<lparr> env_verify := (\<lambda>now s. if s = ''jwt'' then Some alice_claims else None) \<rparr>"

definition plain_request :: auth_request where
  "plain_request = \<lparr> ar_authorization = [], ar_basic = None, ar_query_token = [], ar_method = ''GET'',
     ar_grant_type = [], ar_form = ([], []) \<rparr>"

definition gate_of :: "user_db \<Rightarrow> unit gate" where
  "gate_of db = \<lparr> gt_db = db, gt_caches = no_caches, gt_guard = None, gt_store = () \<rparr>"

lemmas example_defs = example_db_def alice_def olga_def new_user_def example_env_def jwt_env_def alice_claims_def


section \<open>What a pass means\<close>

lemma token_identity_scopes [simp]: "id_scopes (user_identity u) = None"
  by (simp add: user_identity_def anonymous_def)

lemma pass_in_scope_Passed:
  "pass_in_scope rq i = Passed ident \<longleftrightarrow> ident = i \<and> scopes_allow (id_scopes i) (method_to_action (ar_method rq))"
  by (auto simp: pass_in_scope_def)

lemma guarded_login_Logged_In:
  "guarded_login env store g n pw = (Logged_In tok u, g') \<Longrightarrow>
     \<not> retry_after store (gt_guard g) (gt_store g) (ud_now (gt_db g)) n > 0 \<and> fst (login env (gt_db g) n pw) = Inr (tok, u)"
  by (auto simp: guarded_login_def Let_def split: if_splits sum.splits prod.splits)

lemma basic_api_token_Some:
  "basic_api_token env on db pw = (Some (u, tok), db') \<Longrightarrow> on \<and> authenticate_token env db pw = (Inr (u, tok), db')"
  by (auto simp: basic_api_token_def split: if_splits prod.splits sum.splits)

lemma basic_api_token_None:
  "basic_api_token env on db pw = (None, db') \<Longrightarrow> db' = db"
  by (auto simp: basic_api_token_def authenticate_token_def split: if_splits sum.splits option.splits)

text \<open>The three ways a request can have proved an identity.\<close>

definition proved ::
  "auth_env \<Rightarrow> bool \<Rightarrow> 'st login_store option \<Rightarrow> 'st gate \<Rightarrow> auth_request \<Rightarrow> identity \<Rightarrow> bool" where
  "proved env tokens_on store g rq ident \<longleftrightarrow>
     (\<exists>c. ar_authorization rq = ''Bearer '' @ trim_prefix (ar_authorization rq) ''Bearer '' \<and>
          env_verify env (ud_now (gt_db g)) (trim_prefix (ar_authorization rq) ''Bearer '') = Some c \<and>
          cl_user_id c \<noteq> [] \<and> jwt_not_revoked (gt_db g) c \<and>
          (cl_token_id c = [] \<or> tokens_on \<and> token_active (gt_db g) (cl_token_id c) (cl_user_id c)) \<and>
          ident = claims_identity c) \<or>
     (\<exists>raw u tok db'. tokens_on \<and> authenticate_token env (gt_db g) raw = (Inr (u, tok), db') \<and>
          (ar_authorization rq = ''Bearer '' @ raw \<or> (\<exists>n. ar_basic rq = Some (n, raw))) \<and>
          ident = api_token_identity u tok) \<or>
     (\<exists>n pw tok u. ar_basic rq = Some (n, pw) \<and> fst (login env (gt_db g) n pw) = Inr (tok, u) \<and>
          \<not> retry_after store (gt_guard g) (gt_store g) (ud_now (gt_db g)) n > 0 \<and> ident = user_identity u)"

lemma bearer_header: "has_prefix h p \<Longrightarrow> h = p @ trim_prefix h p"
  by (auto simp: has_prefix_iff)

text \<open>
  C2: the middleware passes a request on only with an identity the request has proved: a JWT the
  server signed that is neither anonymous nor revoked and whose API token, if it was traded for one,
  is still active; a live API token of an active account; or a correct password of an account the
  guard is not throttling. A token's scopes cover the action.
\<close>

theorem auth_pass_justified:
  assumes "auth_middleware env tokens_on store g rq = (Passed ident, g')"
  shows "proved env tokens_on store g rq ident \<and> scopes_allow (id_scopes ident) (method_to_action (ar_method rq))"
proof -
  let ?bearer = "has_prefix (ar_authorization rq) ''Bearer ''" and ?raw = "trim_prefix (ar_authorization rq) ''Bearer ''"
  consider (basic) n pw where "ar_basic rq = Some (n, pw)" "\<not> ?bearer \<or> ?raw = []" | (bearer) "?bearer" "?raw \<noteq> []"
    using assms by (cases "ar_basic rq") (auto simp: auth_middleware_def Let_def split: if_splits)
  then show ?thesis
  proof cases
    case basic
    obtain r db1 where r: "basic_api_token env tokens_on (gt_db g) pw = (r, db1)" by (metis prod.collapse)
    show ?thesis
    proof (cases r)
      case (Some x)
      obtain u tok where x: "x = (u, tok)" by (cases x)
      have "ident = api_token_identity u tok \<and> scopes_allow (id_scopes ident) (method_to_action (ar_method rq))"
        using assms basic r Some x by (auto simp: auth_middleware_def Let_def pass_in_scope_Passed split: if_splits)
      then show ?thesis using basic_api_token_Some r Some x basic unfolding proved_def by blast
    next
      case None
      have db1: "g\<lparr> gt_db := db1 \<rparr> = g" using basic_api_token_None r None by (cases g) auto
      obtain tok u where "guarded_login env store g n pw = (Logged_In tok u, g')" "ident = user_identity u"
        using assms basic r None db1
        by (auto simp: auth_middleware_def Let_def split: if_splits prod.splits attempt.splits)
      then show ?thesis
        using guarded_login_Logged_In basic unfolding proved_def by (fastforce simp: scopes_allow_def)
    qed
  next
    case bearer
    obtain ok rv i db1 where r: "authenticate_bearer env tokens_on (gt_db g) ?raw = (((ok, rv), i), db1)" by (metis prod.collapse)
    then have ok: "ok" "ident = i" "scopes_allow (id_scopes i) (method_to_action (ar_method rq))"
      using assms bearer by (auto simp: auth_middleware_def Let_def pass_in_scope_Passed split: if_splits)
    have h: "ar_authorization rq = ''Bearer '' @ ?raw" using bearer_header [OF bearer(1)] .
    show ?thesis
    proof (cases "env_verify env (ud_now (gt_db g)) ?raw")
      case (Some c)
      then have "cl_user_id c \<noteq> [] \<and> jwt_not_revoked (gt_db g) c \<and>
          (cl_token_id c = [] \<or> tokens_on \<and> token_active (gt_db g) (cl_token_id c) (cl_user_id c)) \<and> i = claims_identity c"
        using r ok(1) by (auto simp: authenticate_bearer_def split: if_splits)
      then show ?thesis using ok h Some unfolding proved_def by blast
    next
      case None
      then obtain u tok where "authenticate_token env (gt_db g) ?raw = (Inr (u, tok), db1)" "tokens_on" "i = api_token_identity u tok"
        using r ok(1) by (auto simp: authenticate_bearer_def split: if_splits prod.splits sum.splits)
      then show ?thesis using ok h unfolding proved_def by blast
    qed
  qed
qed

theorem auth_pass_justified_witness:
  "\<exists>ident g'. auth_middleware jwt_env True None (gate_of (example_db\<lparr> ud_users := [alice] \<rparr>))
       (plain_request\<lparr> ar_authorization := ''Bearer jwt'' \<rparr>) = (Passed ident, g') \<and> id_username ident = ''alice'' \<and>
     proved jwt_env True None (gate_of (example_db\<lparr> ud_users := [alice] \<rparr>)) (plain_request\<lparr> ar_authorization := ''Bearer jwt'' \<rparr>) ident"
proof -
  let ?g = "gate_of (example_db\<lparr> ud_users := [alice] \<rparr>)" and ?rq = "plain_request\<lparr> ar_authorization := ''Bearer jwt'' \<rparr>"
  have raw: "trim_prefix ''Bearer jwt'' ''Bearer '' = ''jwt''" "has_prefix ''Bearer jwt'' ''Bearer ''"
    by (simp_all add: trim_prefix_def has_prefix_def)
  have "usr_tokens_valid_after alice \<le> seconds 900"
    by (simp add: alice_def new_user_def zero_time_def seconds_def)
  then have nr: "jwt_not_revoked (example_db\<lparr> ud_users := [alice] \<rparr>) alice_claims"
    by (simp add: jwt_not_revoked_def users_get_by_id_def with_roles_def example_db_def alice_claims_def)
       (simp add: alice_def)
  have "authenticate_bearer jwt_env True (example_db\<lparr> ud_users := [alice] \<rparr>) ''jwt''
      = (((True, False), claims_identity alice_claims), example_db\<lparr> ud_users := [alice] \<rparr>)"
    using nr by (simp add: authenticate_bearer_def jwt_env_def) (simp add: alice_claims_def)
  then have "auth_middleware jwt_env True None ?g ?rq = (Passed (claims_identity alice_claims), ?g)"
    by (simp add: auth_middleware_def raw plain_request_def gate_of_def pass_in_scope_def)
       (simp add: scopes_allow_def claims_identity_def token_scopes_def alice_claims_def anonymous_def)
  moreover note auth_pass_justified [OF this, THEN conjunct1]
  moreover have "id_username (claims_identity alice_claims) = ''alice''"
    by (simp add: claims_identity_def alice_claims_def anonymous_def)
  ultimately show ?thesis by blast
qed

section \<open>The throttle\<close>

text \<open>
  After a refused password, no node of the cluster checks another password for the account
  until the penalty for the total number of failures is over: every entry point answers
  \<open>Throttled\<close>, whatever the password, and neither the database nor the guard's state changes.
\<close>

theorem throttled_on_every_node:
  fixes g g2 :: "('s redis \<times> 's) gate"
  assumes "redis_laws (fst (gt_store g))" "gt_guard g = Some gd" "policy_ok (g_policy gd)"
    and "guarded_login env (Some (new_redis_store Answered)) g n pw = (Bad_Credentials, g')"
    and "failures = fst (guard_load (Some (new_redis_store Answered)) gd (gt_store g) (ud_now (gt_db g)) (normalize_account n))"
    and "0 \<le> failures" "failures < 2 ^ 62" "0 \<le> ud_now (gt_db g)" "ud_now (gt_db g) < 2 ^ 62"
    and "gt_store g2 = gt_store g'" "gt_guard g2 \<noteq> None" "now2 = ud_now (gt_db g2)"
    and "ud_now (gt_db g) \<le> now2" "now2 < ud_now (gt_db g) + penalty (g_policy gd) (failures + 1)"
    and "now2 < ud_now (gt_db g) + entry_ttl"
  shows "guarded_login env2 (Some (new_redis_store Answered)) g2 n pw2 =
           (Throttled (ud_now (gt_db g) + penalty (g_policy gd) (failures + 1) - now2), g2)"
proof -
  let ?ops = "new_redis_store Answered :: ('s redis \<times> 's) login_store" and ?now = "ud_now (gt_db g)" and ?k = "normalize_account n"
  let ?until = "?now + penalty (g_policy gd) (failures + 1)"
  obtain gd2 where gd2: "gt_guard g2 = Some gd2" using assms(11) by blast
  have st: "gt_store g' = snd (record_failure (Some ?ops) (gt_guard g) (gt_store g) ?now n)"
    using assms(4) by (auto simp: guarded_login_def Let_def split: if_splits sum.splits prod.splits)
  have p: "penalty (g_policy gd) (failures + 1) < 2 ^ 62"
    using penalty_bounds [OF assms(3), of "failures + 1"] assms(3) by (simp add: policy_ok_def)
  have inr: "in64 (failures + 1)" "in64 ?until"
    using assms(6-9) p penalty_bounds [OF assms(3), of "failures + 1"] by (auto simp: in64_def)
  then have "gt_store g' = st_save ?ops ?now (gt_store g) ?k (failures + 1) ?until entry_ttl"
    using assms(2,5) by (simp add: st record_failure_eq Let_def add64_id)
  then have "st_load ?ops now2 (gt_store g2) ?k = Some (failures + 1, ?until)"
    using redis_store.load_save [OF assms(1) inr, of now2 ?now entry_ttl ?k] assms(10,15) by simp
  then have "retry_after (Some ?ops) (gt_guard g2) (gt_store g2) now2 n = ?until - now2"
    using assms(13,14) p
    by (simp add: gd2 retry_after_def Let_def redis_store.guard_load_store time_sub_def)
  then show ?thesis using assms(12,14) by (simp add: guarded_login_def Let_def)
qed

definition redis_gate :: "time \<Rightarrow> (string \<rightharpoonup> string \<times> time) \<Rightarrow> ((string \<rightharpoonup> string \<times> time) redis \<times> (string \<rightharpoonup> string \<times> time)) gate" where
  "redis_gate now s = \<lparr> gt_db = example_db\<lparr> ud_now := now \<rparr>, gt_caches = no_caches,
     gt_guard = Some (new_guard (default_policy\<lparr> pol_threshold := 0 \<rparr>)), gt_store = (table_redis, s) \<rparr>"

theorem throttled_on_every_node_witness:
  "\<exists>g'. guarded_login example_env (Some (new_redis_store Answered)) (redis_gate (seconds 1000) Map.empty) ''alice'' ''guess'' = (Bad_Credentials, g') \<and>
     guarded_login example_env (Some (new_redis_store Answered)) (redis_gate (seconds 1000 + 1) (snd (gt_store g'))) ''alice'' ''secret''
       = (Throttled (seconds 1 - 1), redis_gate (seconds 1000 + 1) (snd (gt_store g')))"
proof -
  let ?ops = "new_redis_store Answered :: ((string \<rightharpoonup> string \<times> time) redis \<times> (string \<rightharpoonup> string \<times> time)) login_store"
  let ?g = "redis_gate (seconds 1000) Map.empty" and ?gd = "new_guard (default_policy\<lparr> pol_threshold := 0 \<rparr>)"
  have load: "guard_load (Some ?ops) ?gd (table_redis, Map.empty) (seconds 1000) (normalize_account ''alice'') = (0, zero_time)"
    by (simp add: guard_load_def redis_load_answered table_redis_laws live_entry_def new_guard_def) (simp add: table_redis_def)
  have ok: "policy_ok (g_policy ?gd)"
    by (simp add: policy_ok_def new_guard_def default_policy_def seconds_def minutes_def)
  have "fst (guarded_login example_env (Some ?ops) ?g ''alice'' ''guess'') = Bad_Credentials"
  proof -
    have "\<not> retry_after (Some ?ops) (gt_guard ?g) (gt_store ?g) (seconds 1000) ''alice'' > 0"
      by (simp add: retry_after_def redis_gate_def Let_def load) (simp add: zero_time_def seconds_def)
    moreover have "login example_env (gt_db ?g) ''alice'' ''guess'' = (Inl Err_Bad_Password, gt_db ?g)"
      by (simp add: login_def users_find_def users_get_def login_local_def with_roles_def redis_gate_def)
         (simp add: example_defs login_local_def)
    ultimately show ?thesis by (simp add: guarded_login_def Let_def redis_gate_def split: prod.split)
  qed
  then obtain g' where g': "guarded_login example_env (Some ?ops) ?g ''alice'' ''guess'' = (Bad_Credentials, g')"
    by (metis prod.collapse)
  have st: "fst (gt_store g') = table_redis"
    using g' by (auto simp: guarded_login_def Let_def redis_gate_def record_failure_eq split: if_splits sum.splits prod.splits)
  have pen: "penalty (g_policy ?gd) (0 + 1) = seconds 1" by code_simp
  have now: "ud_now (gt_db ?g) = seconds 1000" "gt_store ?g = (table_redis, Map.empty)" "gt_guard ?g = Some ?gd"
    by (simp_all add: redis_gate_def)
  have "guarded_login example_env (Some ?ops) (redis_gate (seconds 1000 + 1) (snd (gt_store g'))) ''alice'' ''secret''
       = (Throttled (seconds 1000 + penalty (g_policy ?gd) (0 + 1) - (seconds 1000 + 1)), redis_gate (seconds 1000 + 1) (snd (gt_store g')))"
    using throttled_on_every_node [OF _ now(3) ok g', where failures = 0 and ?now2.0 = "seconds 1000 + 1"
        and ?g2.0 = "redis_gate (seconds 1000 + 1) (snd (gt_store g'))" and ?env2.0 = example_env and ?pw2.0 = "''secret''"]
      load pen st
    by (simp add: now table_redis_laws)
       (simp add: redis_gate_def seconds_def entry_ttl_def minutes_def prod_eq_iff)
  with g' pen show ?thesis by auto
qed

section \<open>Where the code and its comments part\<close>

text \<open>
  A provisioned account's cutoff is the instant its row was inserted, at full precision, and the
  token minted for it carries the same instant truncated to a second: unless the row was inserted on
  the full second, the first token of a new account, if it is minted within the same second, is
  refused as revoked.
\<close>

lemma first_token_refused:
  assumes "users_create db u = (Inr v, db')" "udb_wf db" "cl_user_id c = usr_id v"
    and "cl_issued_at c = Some (env_numeric_date env (ud_now db))" "env_numeric_date env (ud_now db) < ud_now db"
  shows "\<not> jwt_not_revoked db' c"
proof (rule dead_claims_revoked)
  have "usr_id v = ud_next_id db" using assms(1) by (auto simp: users_create_def Let_def split: if_splits)
  moreover have "w \<in> set (ud_users db) \<Longrightarrow> usr_id w \<noteq> ud_next_id db" for w
    using assms(2) unfolding udb_wf_def by (metis imageI)
  ultimately show "dead_claims db' c"
    using assms by (auto simp: dead_claims_def users_create_def Let_def split: if_splits)
qed

text \<open>
  The comment on the cutoff promises that a role change revokes the sessions issued before. The
  role synchronization of the directory and single sign-on logins replaces the roles without moving
  the cutoff: a JWT that embeds the old roles stays valid.
\<close>

lemma role_sync_revokes_nothing:
  "jwt_not_revoked (sync_oidc_roles env db uid gs p) c = jwt_not_revoked db c"
proof -
  have "ud_down (sync_oidc_roles env db uid gs p) = ud_down db"
    by (simp add: sync_oidc_roles_def set_user_roles_def split: option.split)
  then show ?thesis by (simp add: jwt_not_revoked_def users_get_by_id_def with_roles_def split: option.split)
qed

end
