(* ===== verification/Registry.thy ===== *)
theory Registry
  imports Domain
begin

text \<open>
  The registry of physical stores, \<open>internal/storage/registry.go\<close>: which physical namespace a
  descriptor addresses, the cache of instances, and the choice of a member of a group store. The Azure
  SDK, which resolves a connection string to a URL, is the parameter \<open>azure_url\<close>.
\<close>

record member_info =
  mi_id :: string
  mi_quota_bytes :: "int option"
  mi_used_bytes :: int

record blob_descriptor =
  bd_id :: string
  bd_type :: string
  bd_config :: cfg

definition str_val :: "cfg \<Rightarrow> string \<Rightarrow> string" where
  "str_val c key = as_str (cfg_get c key)"

definition bool_val :: "cfg \<Rightarrow> string \<Rightarrow> bool" where
  "bool_val c key =
     (case cfg_get c key of Some (VBool b) \<Rightarrow> b | Some (VStr s) \<Rightarrow> s = ''true'' | _ \<Rightarrow> False)"

definition trim_right_slashes :: "string \<Rightarrow> string" where
  "trim_right_slashes s = rev (dropWhile (\<lambda>c. c = CHR ''/'') (rev s))"

text \<open>\<open>azure_url\<close> is the whole Azure branch: the canonical URL, \<^const>\<open>None\<close> for an invalid descriptor.\<close>

definition physical_store_identity :: "(cfg \<Rightarrow> string option) \<Rightarrow> blob_descriptor \<Rightarrow> string" where
  "physical_store_identity azure_url d =
     (if bd_type d = ''azure'' then
        (case azure_url (bd_config d) of None \<Rightarrow> [] | Some u \<Rightarrow> ''azure|'' @ u)
      else if bd_type d = ''s3'' then
        ''s3|'' @ to_lower (trim_right_slashes (str_val (bd_config d) ''endpoint'')) @ ''|'' @
        str_val (bd_config d) ''region'' @ ''|'' @ str_val (bd_config d) ''bucket''
      else if bd_type d = ''local'' \<or> bd_type d = [] then
        (let path = str_val (bd_config d) ''path''
         in ''local|'' @ (if path = [] then ''./data/blobs'' else path))
      else bd_type d @ ''|'' @ bd_id d)"

text \<open>\<open>newFromDescriptor\<close>: the descriptors it can build; reaching the backend itself is \<open>reachable\<close>.\<close>

definition new_from_descriptor :: "(cfg \<Rightarrow> string option) \<Rightarrow> (blob_descriptor \<Rightarrow> bool) \<Rightarrow> blob_descriptor \<Rightarrow> string option" where
  "new_from_descriptor azure_url reachable d =
     (if bd_type d = ''s3'' then
        if str_val (bd_config d) ''bucket'' = [] \<or> \<not> reachable d then None else Some (physical_store_identity azure_url d)
      else if bd_type d = ''azure'' then
        if str_val (bd_config d) ''container'' = [] \<or> \<not> reachable d then None else Some (physical_store_identity azure_url d)
      else if bd_type d = ''local'' \<or> bd_type d = [] then
        if \<not> reachable d then None else Some (physical_store_identity azure_url d)
      else None)"

text \<open>
  An instance is named by the physical namespace it writes to. \<open>rg_rr\<close> are the round-robin counters,
  64-bit and unsigned.
\<close>

record registry =
  rg_instances :: "string \<rightharpoonup> string"
  rg_default :: string
  rg_rr :: "string \<Rightarrow> nat"

definition registry_get :: "(cfg \<Rightarrow> string option) \<Rightarrow> (blob_descriptor \<Rightarrow> bool) \<Rightarrow> registry \<Rightarrow> blob_descriptor \<Rightarrow> string option \<times> registry" where
  "registry_get azure_url reachable r d =
     (if bd_id d = [] then (Some (rg_default r), r)
      else case rg_instances r (bd_id d) of
        Some i \<Rightarrow> (Some i, r)
      | None \<Rightarrow>
          (case new_from_descriptor azure_url reachable d of
             None \<Rightarrow> (None, r)
           | Some i \<Rightarrow> (Some i, r\<lparr> rg_instances := (rg_instances r)(bd_id d \<mapsto> i) \<rparr>)))"

definition registry_invalidate :: "registry \<Rightarrow> string \<Rightarrow> registry" where
  "registry_invalidate r i = r\<lparr> rg_instances := (rg_instances r)(i := None) \<rparr>"

definition has_capacity :: "member_info \<Rightarrow> bool" where
  "has_capacity m \<longleftrightarrow> (case mi_quota_bytes m of None \<Rightarrow> True | Some q \<Rightarrow> mi_used_bytes m < q)"

definition rotate_members :: "nat \<Rightarrow> member_info list \<Rightarrow> member_info list" where
  "rotate_members start ms = map (\<lambda>i. ms ! ((start + i) mod 2 ^ 64 mod length ms)) [0..<length ms]"

text \<open>\<^const>\<open>None\<close> is the empty id: no member, or none with capacity.\<close>

definition pick_member :: "registry \<Rightarrow> string \<Rightarrow> string \<Rightarrow> member_info list \<Rightarrow> string option \<times> registry" where
  "pick_member r group_id policy ms =
     (if ms = [] then (None, r)
      else if policy = ''round_robin'' then
        (let start = rg_rr r group_id;
             r' = r\<lparr> rg_rr := (rg_rr r)(group_id := (start + 1) mod 2 ^ 64) \<rparr>
         in (map_option mi_id (find has_capacity (rotate_members start ms)), r'))
      else (map_option mi_id (find has_capacity ms), r))"

section \<open>Choosing a member\<close>

lemma mod_shift_image: "0 < n \<Longrightarrow> (\<lambda>i. (s + i) mod n) ` {0..<n} = {0..<(n::nat)}"
proof
  assume n: "0 < n"
  show "(\<lambda>i. (s + i) mod n) ` {0..<n} \<subseteq> {0..<n}" using n by auto
  show "{0..<n} \<subseteq> (\<lambda>i. (s + i) mod n) ` {0..<n}"
  proof
    fix j assume j: "j \<in> {0..<n}"
    let ?i = "(j + (n - s mod n)) mod n"
    have "(s + ?i) mod n = (s mod n + (j + (n - s mod n))) mod n" by (simp add: mod_simps)
    also have "s mod n + (j + (n - s mod n)) = j + n" using mod_less_divisor [OF n, of s] by arith
    also have "(j + n) mod n = j" using j by simp
    finally have "(s + ?i) mod n = j" .
    moreover have "?i \<in> {0..<n}" using n by simp
    ultimately show "j \<in> (\<lambda>i. (s + i) mod n) ` {0..<n}" by force
  qed
qed

lemma set_rotate_members:
  assumes "ms \<noteq> []" "start + length ms \<le> 2 ^ 64"
  shows "set (rotate_members start ms) = set ms"
proof -
  let ?n = "length ms"
  have "(start + i) mod 2 ^ 64 mod ?n = (start + i) mod ?n" if "i < ?n" for i
    using that assms(2) by simp
  then have "set (rotate_members start ms) = (\<lambda>i. ms ! ((start + i) mod ?n)) ` {0..<?n}"
    unfolding rotate_members_def by (force simp: image_iff)
  also have "\<dots> = (!) ms ` ((\<lambda>i. (start + i) mod ?n) ` {0..<?n})" by (simp add: image_image)
  also have "\<dots> = (!) ms ` {0..<?n}" using mod_shift_image [of ?n start] assms(1) by simp
  also have "\<dots> = set ms" by (simp add: set_conv_nth) force
  finally show ?thesis .
qed

text \<open>
  A group store never writes to a full member, and finds one with room whenever there is one,
  under every fill policy. The round-robin counter is far from its 64-bit limit.
\<close>

theorem pick_member_respects_capacity:
  assumes "rg_rr r gid + length ms \<le> 2 ^ 64"
  shows "(\<forall>i. fst (pick_member r gid policy ms) = Some i \<longrightarrow> (\<exists>m \<in> set ms. mi_id m = i \<and> has_capacity m)) \<and>
         (fst (pick_member r gid policy ms) = None \<longleftrightarrow> (\<forall>m \<in> set ms. \<not> has_capacity m))"
proof (cases "ms = []")
  case True
  then show ?thesis by (simp add: pick_member_def)
next
  case False
  define ms' where "ms' = (if policy = ''round_robin'' then rotate_members (rg_rr r gid) ms else ms)"
  have set: "set ms' = set ms" using set_rotate_members [OF False assms] by (simp add: ms'_def)
  have pick: "fst (pick_member r gid policy ms) = map_option mi_id (find has_capacity ms')"
    using False by (simp add: pick_member_def ms'_def Let_def)
  show ?thesis
    using find_SomeD [of has_capacity ms'] find_None_all [of has_capacity ms'] unfolding pick set by auto
qed

theorem pick_member_respects_capacity_witness:
  "fst (pick_member \<lparr> rg_instances = Map.empty, rg_default = [], rg_rr = (\<lambda>_. 7) \<rparr> ''g'' ''round_robin''
     [\<lparr> mi_id = ''a'', mi_quota_bytes = None, mi_used_bytes = 0 \<rparr>, \<lparr> mi_id = ''b'', mi_quota_bytes = Some 5, mi_used_bytes = 5 \<rparr>]) \<noteq> None"
  using pick_member_respects_capacity [of "\<lparr> rg_instances = Map.empty, rg_default = [], rg_rr = (\<lambda>_. 7) \<rparr>" "''g''"
     "[\<lparr> mi_id = ''a'', mi_quota_bytes = None, mi_used_bytes = 0 \<rparr>, \<lparr> mi_id = ''b'', mi_quota_bytes = Some 5, mi_used_bytes = 5 \<rparr>]" "''round_robin''"]
  by (simp add: has_capacity_def)

end
