(* ===== verification/Blob_Store.thy ===== *)
theory Blob_Store
  imports Go_Path
begin

text \<open>
  The interface of the storage backends, \<open>BlobStore\<close> of \<open>internal/storage/storage.go\<close>, as the record of
  its methods, and the contract the services rely on as the locale \<open>blob_store_laws\<close>: an object is
  replaced as a whole or not at all, and an operation on one key leaves the others alone. Bytes are
  strings; a body is the bytes a reader delivers and whether it ends in an error.
\<close>

type_synonym bytes = string

datatype store_err = Err_No_Space | Err_Io | Err_Invalid_Key | Err_Not_Exist

record body =
  bd_bytes :: bytes
  bd_broken :: bool

record blob_entry =
  be_key :: string
  be_size :: int
  be_mod_time :: time

text \<open>\<open>Put\<close> also takes the declared size, which the backends use only as a hint.\<close>

record 'b blob_ops =
  bo_put :: "'b \<Rightarrow> string \<Rightarrow> body \<Rightarrow> int \<Rightarrow> store_err option \<times> 'b"
  bo_get :: "'b \<Rightarrow> string \<Rightarrow> store_err + bytes \<times> int"
  bo_delete :: "'b \<Rightarrow> string \<Rightarrow> store_err option \<times> 'b"
  bo_exists :: "'b \<Rightarrow> string \<Rightarrow> store_err + bool"
  bo_size :: "'b \<Rightarrow> string \<Rightarrow> store_err + int"
  bo_used_bytes :: "'b \<Rightarrow> store_err + int"
  bo_list_keys :: "'b \<Rightarrow> store_err + string list"
  bo_list_entries :: "'b \<Rightarrow> store_err + blob_entry list"

text \<open>
  \<open>obj s k\<close> is the object of a key with its modification time, \<open>valid\<close> the keys the services generate,
  \<open>entry\<close> the keys a listing can show (leftovers of failed writes among them), \<open>good\<close> the states of a
  well-formed store.
\<close>

locale blob_store_laws =
  fixes ops :: "'b blob_ops" and obj :: "'b \<Rightarrow> string \<Rightarrow> (bytes \<times> time) option"
    and valid :: "string \<Rightarrow> bool" and entry :: "string \<Rightarrow> bool" and good :: "'b \<Rightarrow> bool"
  assumes valid_entry: "valid k \<Longrightarrow> entry k"
    and good_put: "good s \<Longrightarrow> valid k \<Longrightarrow> good (snd (bo_put ops s k b n))"
    and good_delete: "good s \<Longrightarrow> entry k \<Longrightarrow> good (snd (bo_delete ops s k))"
    and put_ok: "good s \<Longrightarrow> valid k \<Longrightarrow> bo_put ops s k b n = (None, s') \<Longrightarrow>
          \<not> bd_broken b \<and> map_option fst (obj s' k) = Some (bd_bytes b)"
    and put_fail: "good s \<Longrightarrow> valid k \<Longrightarrow> bo_put ops s k b n = (Some e, s') \<Longrightarrow> valid k' \<Longrightarrow> obj s' k' = obj s k'"
    and put_other: "good s \<Longrightarrow> valid k \<Longrightarrow> valid k' \<Longrightarrow> k' \<noteq> k \<Longrightarrow> obj (snd (bo_put ops s k b n)) k' = obj s k'"
    and get_obj: "good s \<Longrightarrow> valid k \<Longrightarrow> bo_get ops s k = Inr (c, m) \<Longrightarrow>
          map_option fst (obj s k) = Some c \<and> m = int (length c)"
    and exists_obj: "good s \<Longrightarrow> valid k \<Longrightarrow> bo_exists ops s k = Inr x \<Longrightarrow> x \<longleftrightarrow> obj s k \<noteq> None"
    and delete_ok: "good s \<Longrightarrow> entry k \<Longrightarrow> bo_delete ops s k = (None, s') \<Longrightarrow> obj s' k = None"
    and delete_fail: "good s \<Longrightarrow> entry k \<Longrightarrow> bo_delete ops s k = (Some e, s') \<Longrightarrow> entry k' \<Longrightarrow> obj s' k' = obj s k'"
    and delete_other: "good s \<Longrightarrow> entry k \<Longrightarrow> entry k' \<Longrightarrow> k' \<noteq> k \<Longrightarrow> obj (snd (bo_delete ops s k)) k' = obj s k'"
    and size_obj: "good s \<Longrightarrow> valid k \<Longrightarrow> bo_size ops s k = Inr m \<Longrightarrow>
          \<exists>c t. obj s k = Some (c, t) \<and> m = int (length c)"
    and list_sound: "good s \<Longrightarrow> bo_list_entries ops s = Inr es \<Longrightarrow> en \<in> set es \<Longrightarrow>
          entry (be_key en) \<and> (\<exists>c t. obj s (be_key en) = Some (c, t) \<and> be_size en = int (length c) \<and> be_mod_time en = t)"
    and list_complete: "good s \<Longrightarrow> bo_list_entries ops s = Inr es \<Longrightarrow> entry k \<Longrightarrow> obj s k \<noteq> None \<Longrightarrow>
          \<exists>en \<in> set es. be_key en = k"
begin

text \<open>What is read is what was written, until the key is written or deleted again.\<close>

lemma get_after_put:
  assumes "good s" "valid k" "bo_put ops s k b n = (None, s')" "bo_get ops s' k = Inr (c, m)"
  shows "c = bd_bytes b \<and> m = int (length (bd_bytes b))"
  using put_ok [OF assms(1-3)] good_put [OF assms(1,2), of b n] get_obj [of s' k c m] assms by auto

lemma obj_put:
  assumes "good s" "valid k" "valid k'"
  shows "obj (snd (bo_put ops s k b n)) k' = obj s k' \<or>
         k' = k \<and> fst (bo_put ops s k b n) = None \<and> map_option fst (obj (snd (bo_put ops s k b n)) k') = Some (bd_bytes b)"
proof (cases "fst (bo_put ops s k b n)")
  case None
  then have p: "bo_put ops s k b n = (None, snd (bo_put ops s k b n))" by (metis prod.collapse)
  show ?thesis using None put_ok [OF assms(1,2) p] put_other [OF assms, of b n] by (cases "k' = k") simp_all
next
  case (Some e)
  then have p: "bo_put ops s k b n = (Some e, snd (bo_put ops s k b n))" by (metis prod.collapse)
  show ?thesis using put_fail [OF assms(1,2) p assms(3)] by simp
qed

lemma obj_delete:
  assumes "good s" "entry k" "entry k'"
  shows "obj (snd (bo_delete ops s k)) k' = obj s k' \<or>
         k' = k \<and> fst (bo_delete ops s k) = None \<and> obj (snd (bo_delete ops s k)) k' = None"
proof (cases "fst (bo_delete ops s k)")
  case None
  then have p: "bo_delete ops s k = (None, snd (bo_delete ops s k))" by (metis prod.collapse)
  show ?thesis using None delete_ok [OF assms(1,2) p] delete_other [OF assms] by (cases "k' = k") simp_all
next
  case (Some e)
  then have p: "bo_delete ops s k = (Some e, snd (bo_delete ops s k))" by (metis prod.collapse)
  show ?thesis using delete_fail [OF assms(1,2) p assms(3)] by simp
qed

end

end
