(* ===== verification/Write_Policy.thy ===== *)
theory Write_Policy
  imports Registry Blob_Store
begin

text \<open>
  The state of the artifact store and the first half of \<open>internal/formats/base\<close>: the tables behind it
  (\<open>repository/postgres\<close>: repositories, blob stores, components, assets), the resolution of the store
  a repository writes to (\<open>store.go\<close>, \<open>repository/blobstore_default.go\<close>) and the write policy
  (\<open>write_policy.go\<close>). Every database call can fail: \<open>sw_fail\<close> names the call, and the site where the
  code makes the same call more than once.
\<close>

section \<open>State\<close>

datatype store_call =
    S_Repo_Get | S_Blob_Get | S_Blob_By_Id nat | S_Blob_List | S_Asset_By_Path nat | S_Count nat | S_Sum nat
  | S_Comp_Get | S_Comp_Create | S_Asset_Create | S_Asset_Delete | S_Used | S_Lock string | S_Unlock string
  | S_Blob_Refs | S_Count_In_Store | S_Move_Rows | S_Repo_Update | S_Asset_List nat | S_Orphans | S_Comp_Extra | S_Repo_List | S_Repo_Create | S_Repo_Delete

datatype pub_err =
    Pe_Repo_Not_Found | Pe_Offline | Pe_Quota | Pe_Size_Mismatch | Pe_Redeploy | Pe_Read_Only
  | Pe_Unavailable | Pe_Db | Pe_No_Store | Pe_Blob store_err | Pe_Not_Found

definition http_status_for_error :: "pub_err \<Rightarrow> nat" where
  "http_status_for_error e =
     (if e = Pe_Quota \<or> e = Pe_Blob Err_No_Space then 507
      else if e = Pe_Size_Mismatch \<or> e = Pe_Redeploy \<or> e = Pe_Read_Only then 400
      else 500)"

record coords =
  co_group :: string
  co_name :: string
  co_version :: string

datatype store_event = Ev_Published string string int | Ev_Deleted string string int

text \<open>
  The physical stores are keyed by the namespace the registry resolves them to. \<open>sw_next\<close> numbers the
  ids the database generates.
\<close>

record 'b store_world =
  sw_repos :: "repository list"
  sw_stores :: "blob_store list"
  sw_comps :: "component list"
  sw_assets :: "asset list"
  sw_phys :: "string \<Rightarrow> 'b"
  sw_registry :: registry
  sw_now :: time
  sw_next :: nat
  sw_scans :: "string list"
  sw_publishes :: "(string \<times> string) list"
  sw_events :: "store_event list"
  sw_downloads :: "string list"
  sw_fail :: "store_call \<Rightarrow> bool"

text \<open>
  The backends' methods, the hashes, the Azure resolver, which backends can be reached, and whether
  \<open>d.Registry\<close> is set.
\<close>

record 'b store_env =
  se_ops :: "'b blob_ops"
  se_sha256 :: "bytes \<Rightarrow> string"
  se_sha1 :: "bytes \<Rightarrow> string"
  se_md5 :: "bytes \<Rightarrow> string"
  se_azure_url :: "cfg \<Rightarrow> string option"
  se_reachable :: "blob_descriptor \<Rightarrow> bool"
  se_registry_on :: bool

text \<open>The request context: \<open>WithoutWritePolicy\<close> and the user.\<close>

record write_ctx =
  wc_bypass :: bool
  wc_user :: string

section \<open>The tables\<close>

definition repos_get :: "'b store_world \<Rightarrow> string \<Rightarrow> repository option" where
  "repos_get w rn =
     (if sw_fail w S_Repo_Get then None else find (\<lambda>r. repo_name r = rn) (sw_repos w))"

text \<open>A lookup of a single row: an error (a missing row is one) or the row.\<close>

definition stores_by_id :: "'b store_world \<Rightarrow> nat \<Rightarrow> string \<Rightarrow> blob_store option" where
  "stores_by_id w site i =
     (if sw_fail w (S_Blob_By_Id site) then None else find (\<lambda>b. bs_id b = i) (sw_stores w))"

definition assets_by_path :: "'b store_world \<Rightarrow> nat \<Rightarrow> string \<Rightarrow> string \<Rightarrow> pub_err + asset option" where
  "assets_by_path w site rn path =
     (if sw_fail w (S_Asset_By_Path site) then Inl Pe_Db
      else Inr (find (\<lambda>a. asset_repository a = rn \<and> asset_path a = path) (sw_assets w)))"

definition count_by_blob_key :: "'b store_world \<Rightarrow> nat \<Rightarrow> string \<Rightarrow> string \<Rightarrow> nat option" where
  "count_by_blob_key w site key excl =
     (if sw_fail w (S_Count site) then None
      else Some (length (filter (\<lambda>a. asset_blob_key a = key \<and> (excl = [] \<or> asset_id a \<noteq> excl)) (sw_assets w))))"

text \<open>One size per distinct key, the largest where rows disagree.\<close>

fun sum_distinct_keys :: "asset list \<Rightarrow> int" where
  "sum_distinct_keys [] = 0"
| "sum_distinct_keys (a # as) =
     Max (set (map asset_size (filter (\<lambda>x. asset_blob_key x = asset_blob_key a) (a # as))))
     + sum_distinct_keys (filter (\<lambda>x. asset_blob_key x \<noteq> asset_blob_key a) as)"

definition sum_size_by_repo :: "'b store_world \<Rightarrow> nat \<Rightarrow> string \<Rightarrow> int option" where
  "sum_size_by_repo w site rn =
     (if sw_fail w (S_Sum site) then None
      else Some (sum_distinct_keys (filter (\<lambda>a. asset_repository a = rn) (sw_assets w))))"

definition update_used_bytes :: "'b store_world \<Rightarrow> string \<Rightarrow> int \<Rightarrow> 'b store_world" where
  "update_used_bytes w bname delta =
     (if sw_fail w S_Used then w
      else w\<lparr> sw_stores := map (\<lambda>b. if bs_name b = bname
                                   then b\<lparr> bs_used_bytes := max 0 (bs_used_bytes b + delta) \<rparr> else b) (sw_stores w) \<rparr>)"

definition fresh_id :: "'b store_world \<Rightarrow> string" where
  "fresh_id w = ''id-'' @ itoa (int (sw_next w))"

text \<open>
  The component upsert: an existing row keeps its extra unless the caller gives one or the row has no
  assets left. The caller's record gets the row's id.
\<close>

definition same_component :: "component \<Rightarrow> component \<Rightarrow> bool" where
  "same_component a b \<longleftrightarrow>
     comp_repository_id a = comp_repository_id b \<and> comp_format a = comp_format b \<and> comp_group a = comp_group b \<and>
     comp_name a = comp_name b \<and> comp_version a = comp_version b"

definition components_create :: "'b store_world \<Rightarrow> component \<Rightarrow> component option \<times> 'b store_world" where
  "components_create w c =
     (if sw_fail w S_Comp_Create then (None, w)
      else case find (same_component c) (sw_comps w) of
        Some old \<Rightarrow>
          (let reset = (comp_extra c \<noteq> None \<or> (\<forall>a \<in> set (sw_assets w). asset_component_id a \<noteq> comp_id old));
               new_extra = (case comp_extra c of None \<Rightarrow> Some Map.empty | Some m \<Rightarrow> Some m);
               old' = old\<lparr> comp_extra := (if reset then new_extra else comp_extra old) \<rparr>
           in (Some (c\<lparr> comp_id := comp_id old, comp_created_at := comp_created_at old \<rparr>),
               w\<lparr> sw_comps := map (\<lambda>x. if comp_id x = comp_id old then old' else x) (sw_comps w) \<rparr>))
      | None \<Rightarrow>
          (let c' = c\<lparr> comp_id := fresh_id w, comp_created_at := sw_now w,
                      comp_extra := (case comp_extra c of None \<Rightarrow> Some Map.empty | Some m \<Rightarrow> Some m) \<rparr>
           in (Some (c\<lparr> comp_id := fresh_id w, comp_created_at := sw_now w \<rparr>),
               w\<lparr> sw_comps := sw_comps w @ [c'], sw_next := Suc (sw_next w) \<rparr>)))"

text \<open>The asset upsert on (repository, path): an existing row keeps its id, component and uploader.\<close>

definition replace_asset :: "asset \<Rightarrow> time \<Rightarrow> asset \<Rightarrow> asset" where
  "replace_asset a now old =
     old\<lparr> asset_blob_store_id := asset_blob_store_id a, asset_blob_key := asset_blob_key a,
         asset_size := asset_size a, asset_content_type := asset_content_type a, asset_sha1 := asset_sha1 a,
         asset_sha256 := asset_sha256 a, asset_md5 := asset_md5 a,
         asset_uploader_id := (if asset_uploader_id a = [] then asset_uploader_id old else asset_uploader_id a),
         asset_last_modified := now \<rparr>"

definition assets_create :: "'b store_world \<Rightarrow> asset \<Rightarrow> asset option \<times> 'b store_world" where
  "assets_create w a =
     (if sw_fail w S_Asset_Create then (None, w)
      else case find (\<lambda>x. asset_repository_id x = asset_repository_id a \<and> asset_path x = asset_path a) (sw_assets w) of
        Some old \<Rightarrow>
          (Some (a\<lparr> asset_id := asset_id old, asset_component_id := asset_component_id old,
                   asset_created_at := asset_created_at old, asset_last_modified := sw_now w \<rparr>),
           w\<lparr> sw_assets := map (\<lambda>x. if asset_repository_id x = asset_repository_id a \<and> asset_path x = asset_path a
                                   then replace_asset a (sw_now w) x else x) (sw_assets w) \<rparr>)
      | None \<Rightarrow>
          (let a' = a\<lparr> asset_id := fresh_id w, asset_created_at := sw_now w, asset_last_modified := sw_now w \<rparr>
           in (Some a', w\<lparr> sw_assets := sw_assets w @ [a'], sw_next := Suc (sw_next w) \<rparr>)))"

definition assets_delete :: "'b store_world \<Rightarrow> string \<Rightarrow> bool \<times> 'b store_world" where
  "assets_delete w i =
     (if sw_fail w S_Asset_Delete then (False, w)
      else (True, w\<lparr> sw_assets := filter (\<lambda>a. asset_id a \<noteq> i) (sw_assets w) \<rparr>))"

text \<open>
  \<open>WithBlobKeyLock\<close>: taking the lock can fail, and so can releasing it, which turns the success of a
  callback that has run into an error.
\<close>

definition with_lock :: "string \<Rightarrow> ('b store_world \<Rightarrow> (pub_err + 'a) \<times> 'b store_world) \<Rightarrow> 'b store_world \<Rightarrow> (pub_err + 'a) \<times> 'b store_world" where
  "with_lock key f w =
     (if sw_fail w (S_Lock key) then (Inl Pe_Db, w)
      else case f w of
        (Inl e, w') \<Rightarrow> (Inl e, w')
      | (Inr x, w') \<Rightarrow> if sw_fail w' (S_Unlock key) then (Inl Pe_Db, w') else (Inr x, w'))"

section \<open>Which store\<close>

definition default_blob_store :: "'b store_world \<Rightarrow> pub_err + blob_store" where
  "default_blob_store w =
     (if sw_fail w S_Blob_Get then Inl Pe_Db
      else case find (\<lambda>b. bs_name b = ''default'') (sw_stores w) of
        Some b \<Rightarrow> Inr b
      | None \<Rightarrow>
          if sw_fail w S_Blob_List then Inl Pe_Db
          else (case sw_stores w of [b] \<Rightarrow> Inr b | _ \<Rightarrow> Inl Pe_No_Store))"

definition resolve_store_obj :: "'b store_world \<Rightarrow> nat \<Rightarrow> repository \<Rightarrow> pub_err + blob_store" where
  "resolve_store_obj w site repo =
     (case repo_blob_store_id repo of
        None \<Rightarrow> default_blob_store w
      | Some r \<Rightarrow>
          if trim_space r = [] then default_blob_store w
          else (case stores_by_id w site (trim_space r) of None \<Rightarrow> Inl Pe_Db | Some b \<Rightarrow> Inr b))"

definition group_member_ids :: "blob_store \<Rightarrow> string list" where
  "group_member_ids b =
     (case cfg_get (bs_config b) ''member_ids'' of
        Some (VStrs ss) \<Rightarrow> ss
      | Some (VList vs) \<Rightarrow> list_strings vs
      | _ \<Rightarrow> [])"

definition group_fill_policy :: "blob_store \<Rightarrow> string" where
  "group_fill_policy b =
     (let p = as_str (cfg_get (bs_config b) ''fill_policy'') in if p \<noteq> [] then p else ''round_robin'')"

definition members_of :: "'b store_world \<Rightarrow> string list \<Rightarrow> blob_store list" where
  "members_of w ids = concat (map (\<lambda>i. case stores_by_id w 9 i of None \<Rightarrow> [] | Some b \<Rightarrow> [b]) ids)"

definition member_info_of :: "blob_store \<Rightarrow> member_info" where
  "member_info_of b = \<lparr> mi_id = bs_id b, mi_quota_bytes = bs_quota_bytes b, mi_used_bytes = bs_used_bytes b \<rparr>"

definition resolve_store_ref :: "'b store_env \<Rightarrow> 'b store_world \<Rightarrow> repository \<Rightarrow> (pub_err + string \<times> string) \<times> 'b store_world" where
  "resolve_store_ref env w repo =
     (case resolve_store_obj w 1 repo of
        Inl e \<Rightarrow> (Inl e, w)
      | Inr b \<Rightarrow>
          if bs_type b \<noteq> ''group'' then (Inr (bs_id b, bs_name b), w)
          else
            (let ms = members_of w (group_member_ids b)
             in if group_member_ids b = [] \<or> \<not> se_registry_on env \<or> ms = [] then (Inl Pe_No_Store, w)
                else (case pick_member (sw_registry w) (bs_id b) (group_fill_policy b) (map member_info_of ms) of
                        (None, r') \<Rightarrow> (Inl Pe_Quota, w\<lparr> sw_registry := r' \<rparr>)
                      | (Some mid, r') \<Rightarrow>
                          (Inr (mid, case find (\<lambda>m. bs_id m = mid) ms of Some m \<Rightarrow> bs_name m | None \<Rightarrow> []),
                           w\<lparr> sw_registry := r' \<rparr>))))"

definition descriptor_of :: "blob_store \<Rightarrow> blob_descriptor" where
  "descriptor_of b = \<lparr> bd_id = bs_id b, bd_type = bs_type b, bd_config = bs_config b \<rparr>"

text \<open>The physical store of a row; \<^const>\<open>None\<close> is the nil row.\<close>

definition physical_store :: "'b store_env \<Rightarrow> 'b store_world \<Rightarrow> blob_store option \<Rightarrow> (pub_err + string) \<times> 'b store_world" where
  "physical_store env w ob =
     (case ob of
        None \<Rightarrow> (Inr (rg_default (sw_registry w)), w)
      | Some b \<Rightarrow>
          if \<not> se_registry_on env then
            (if bs_name b = ''default'' then (Inr (rg_default (sw_registry w)), w) else (Inl Pe_Unavailable, w))
          else if trim_space (bs_id b) = [] then
            (if bs_name b = ''default'' then (Inr (rg_default (sw_registry w)), w) else (Inl Pe_Unavailable, w))
          else (case registry_get (se_azure_url env) (se_reachable env) (sw_registry w) (descriptor_of b) of
                  (None, r') \<Rightarrow> (Inl Pe_Unavailable, w\<lparr> sw_registry := r' \<rparr>)
                | (Some p, r') \<Rightarrow> (Inr p, w\<lparr> sw_registry := r' \<rparr>)))"

definition resolve_blob_store :: "'b store_env \<Rightarrow> 'b store_world \<Rightarrow> repository \<Rightarrow> (pub_err + string \<times> string \<times> string) \<times> 'b store_world" where
  "resolve_blob_store env w repo =
     (case resolve_store_ref env w repo of
        (Inl e, w1) \<Rightarrow> (Inl e, w1)
      | (Inr (i, n), w1) \<Rightarrow>
          if i = [] then (Inr (i, n, rg_default (sw_registry w1)), w1)
          else (case stores_by_id w1 2 i of
                  None \<Rightarrow> (Inl Pe_Unavailable, w1)
                | Some b \<Rightarrow>
                    (case physical_store env w1 (Some b) of
                       (Inl e, w2) \<Rightarrow> (Inl e, w2)
                     | (Inr p, w2) \<Rightarrow> (Inr (i, n, p), w2))))"

definition asset_physical_store :: "'b store_env \<Rightarrow> 'b store_world \<Rightarrow> asset \<Rightarrow> (pub_err + string) \<times> 'b store_world" where
  "asset_physical_store env w a =
     (if trim_space (asset_blob_store_id a) = [] then (Inr (rg_default (sw_registry w)), w)
      else case stores_by_id w 3 (asset_blob_store_id a) of
        None \<Rightarrow> (Inl Pe_Unavailable, w)
      | Some b \<Rightarrow> physical_store env w (Some b))"

section \<open>The write policy\<close>

definition redeploy_exempt :: "repository \<Rightarrow> string \<Rightarrow> bool" where
  "redeploy_exempt repo path =
     (if repo_fmt repo = FormatMaven2 then
        path_base path = ''maven-metadata.xml'' \<or> has_suffix (path_base (path_dir path)) ''-SNAPSHOT''
      else if is_oci_registry (repo_fmt repo) then
        (if has_prefix path ''/blobs/'' then True
         else if has_prefix path ''/manifests/'' then
           (let ref = path_base path
            in CHR '':'' \<in> set ref \<or> ref = ''latest'' \<and> repo_allows_redeploy_latest (Some repo))
         else False)
      else False)"

definition check_writable :: "repository \<Rightarrow> pub_err option" where
  "check_writable repo = (if repo_write_policy (Some repo) = WritePolicyDeny then Some Pe_Read_Only else None)"

definition asset_absent :: "'b store_world \<Rightarrow> nat \<Rightarrow> repository \<Rightarrow> string \<Rightarrow> pub_err option" where
  "asset_absent w site repo path =
     (case assets_by_path w site (repo_name repo) path of
        Inl e \<Rightarrow> Some e
      | Inr None \<Rightarrow> None
      | Inr (Some _) \<Rightarrow> Some Pe_Redeploy)"

text \<open>\<open>(guarded, err)\<close>.\<close>

definition check_write_policy :: "'b store_world \<Rightarrow> repository \<Rightarrow> string \<Rightarrow> bool \<times> pub_err option" where
  "check_write_policy w repo path =
     (case repo_write_policy (Some repo) of
        WritePolicyDeny \<Rightarrow> (False, Some Pe_Read_Only)
      | WritePolicyAllowOnce \<Rightarrow>
          if redeploy_exempt repo path then (False, None) else (True, asset_absent w 1 repo path)
      | WritePolicyAllow \<Rightarrow> (False, None))"

definition enforce_write_policy ::
  "write_ctx \<Rightarrow> 'b store_world \<Rightarrow> repository \<Rightarrow> string \<Rightarrow> string \<Rightarrow>
   ('b store_world \<Rightarrow> (pub_err + 'a) \<times> 'b store_world) \<Rightarrow> (pub_err + 'a) \<times> 'b store_world" where
  "enforce_write_policy ctx w repo path blob_key write =
     (if wc_bypass ctx then write w
      else case check_write_policy w repo path of
        (_, Some e) \<Rightarrow> (Inl e, w)
      | (guarded, None) \<Rightarrow>
          if \<not> guarded then write w
          else with_lock blob_key
                 (\<lambda>w. case asset_absent w 2 repo path of Some e \<Rightarrow> (Inl e, w) | None \<Rightarrow> write w) w)"

end
