(* ===== verification/Local_Store.thy ===== *)
theory Local_Store
  imports Blob_Store
begin

text \<open>
  The filesystem backend, \<open>internal/storage/local.go\<close>: blobs are files below a base directory, sharded
  by the first four characters of the key. The filesystem is a map from paths to files (contents and
  modification time) with the calls that fail given by \<open>ls_fault\<close>; \<open>Put\<close> stages to a temporary file and
  renames it. The backend satisfies the contract of \<open>Blob_Store\<close>.
\<close>

section \<open>The filesystem\<close>

record fs_file =
  f_bytes :: bytes
  f_mtime :: time

datatype io_call =
    Io_Mkdir_All string | Io_Create_Temp string | Io_Copy string | Io_Sync string | Io_Close string
  | Io_Rename string | Io_Remove string | Io_Open string | Io_Stat string | Io_Append string | Io_Truncate string | Io_Walk

text \<open>\<open>ls_enospc\<close>: a failing write fails for want of space; \<open>ls_partial\<close> is how
  many bytes it writes before that; \<open>ls_tmp\<close> is the random suffix of the next temporary file.\<close>

record local_store =
  ls_base :: string
  ls_files :: "(string \<times> fs_file) list"
  ls_now :: time
  ls_tmp :: string
  ls_fault :: "io_call \<Rightarrow> bool"
  ls_enospc :: bool
  ls_partial :: nat

definition default_local_base_path :: string where
  "default_local_base_path = ''./data/blobs''"

text \<open>\<open>filepath.Join\<close>: the non-empty elements, joined and cleaned.\<close>

definition path_join :: "string list \<Rightarrow> string" where
  "path_join xs = (let ys = filter (\<lambda>x. x \<noteq> []) xs in if ys = [] then [] else path_clean (str_join ''/'' ys))"

definition key_path :: "string \<Rightarrow> string \<Rightarrow> string option" where
  "key_path base_path key =
     (let p = (if length key \<ge> 4 then path_join [base_path, take 2 key, take 2 (drop 2 key), key]
               else path_join [base_path, key]);
          base = path_clean base_path
      in if p \<noteq> base \<and> \<not> has_prefix p (base @ ''/'') then None else Some p)"

definition classify_write_err :: "local_store \<Rightarrow> store_err" where
  "classify_write_err s = (if ls_enospc s then Err_No_Space else Err_Io)"

definition write_file :: "local_store \<Rightarrow> string \<Rightarrow> bytes \<Rightarrow> local_store" where
  "write_file s p b = s\<lparr> ls_files := AList.update p \<lparr> f_bytes = b, f_mtime = ls_now s \<rparr> (ls_files s) \<rparr>"

definition remove_file :: "local_store \<Rightarrow> string \<Rightarrow> local_store" where
  "remove_file s p = (if ls_fault s (Io_Remove p) then s else s\<lparr> ls_files := AList.delete p (ls_files s) \<rparr>)"

section \<open>The operations\<close>

text \<open>
  A temporary file that a failed \<open>Put\<close> cannot remove stays behind. The copy stops at the reader's error
  or at a write error; what it had written is in the temporary file.
\<close>

definition local_put :: "local_store \<Rightarrow> string \<Rightarrow> body \<Rightarrow> int \<Rightarrow> store_err option \<times> local_store" where
  "local_put s key b declared =
     (case key_path (ls_base s) key of
        None \<Rightarrow> (Some Err_Invalid_Key, s)
      | Some dst \<Rightarrow>
          (let tmp = dst @ ''.tmp.'' @ ls_tmp s;
               s1 = write_file s tmp (bd_bytes b)
           in if ls_fault s (Io_Mkdir_All dst) then (Some Err_Io, s)
              else if ls_fault s (Io_Create_Temp dst) then (Some Err_Io, s)
              else if bd_broken b then (Some Err_Io, remove_file s1 tmp)
              else if ls_fault s (Io_Copy tmp) then (Some (classify_write_err s), remove_file (write_file s tmp (take (ls_partial s) (bd_bytes b))) tmp)
              else if ls_fault s (Io_Sync tmp) then (Some (classify_write_err s), remove_file s1 tmp)
              else if ls_fault s (Io_Close tmp) then (Some Err_Io, remove_file s1 tmp)
              else if ls_fault s (Io_Rename tmp) then (Some Err_Io, remove_file s1 tmp)
              else (None, write_file s dst (bd_bytes b))))"

definition local_get :: "local_store \<Rightarrow> string \<Rightarrow> store_err + bytes \<times> int" where
  "local_get s key =
     (case key_path (ls_base s) key of
        None \<Rightarrow> Inl Err_Invalid_Key
      | Some p \<Rightarrow>
          if ls_fault s (Io_Open p) then Inl Err_Io
          else (case map_of (ls_files s) p of
                  None \<Rightarrow> Inl Err_Not_Exist
                | Some f \<Rightarrow>
                    if ls_fault s (Io_Stat p) then Inl Err_Io else Inr (f_bytes f, int (length (f_bytes f)))))"

definition local_delete :: "local_store \<Rightarrow> string \<Rightarrow> store_err option \<times> local_store" where
  "local_delete s key =
     (case key_path (ls_base s) key of
        None \<Rightarrow> (Some Err_Invalid_Key, s)
      | Some p \<Rightarrow>
          if ls_fault s (Io_Remove p) then (Some Err_Io, s)
          else (None, s\<lparr> ls_files := AList.delete p (ls_files s) \<rparr>))"

definition local_exists :: "local_store \<Rightarrow> string \<Rightarrow> store_err + bool" where
  "local_exists s key =
     (case key_path (ls_base s) key of
        None \<Rightarrow> Inl Err_Invalid_Key
      | Some p \<Rightarrow>
          if ls_fault s (Io_Stat p) then Inl Err_Io else Inr (map_of (ls_files s) p \<noteq> None))"

definition local_size :: "local_store \<Rightarrow> string \<Rightarrow> store_err + int" where
  "local_size s key =
     (case key_path (ls_base s) key of
        None \<Rightarrow> Inl Err_Invalid_Key
      | Some p \<Rightarrow>
          if ls_fault s (Io_Stat p) then Inl Err_Io
          else (case map_of (ls_files s) p of
                  None \<Rightarrow> Inl Err_Not_Exist
                | Some f \<Rightarrow> Inr (int (length (f_bytes f)))))"

text \<open>The files below the base directory, with their paths relative to it.\<close>

definition below_base :: "local_store \<Rightarrow> (string \<times> fs_file) list" where
  "below_base s =
     map (\<lambda>(p, f). (drop (length (path_clean (ls_base s)) + 1) p, f))
       (filter (\<lambda>(p, f). has_prefix p (path_clean (ls_base s) @ ''/'')) (ls_files s))"

text \<open>\<open>strings.SplitN(rel, "/", 3)\<close>: the third part is everything after the two shard directories.\<close>

definition rel_key :: "string \<Rightarrow> string" where
  "rel_key rel = (let parts = str_split slash rel in if length parts \<ge> 3 then str_join ''/'' (drop 2 parts) else rel)"

definition walk_entries :: "local_store \<Rightarrow> store_err + blob_entry list" where
  "walk_entries s =
     (if ls_fault s Io_Walk then Inl Err_Io
      else Inr (map (\<lambda>(rel, f). \<lparr> be_key = rel_key rel, be_size = int (length (f_bytes f)), be_mod_time = f_mtime f \<rparr>)
                  (below_base s)))"

definition local_list_entries :: "local_store \<Rightarrow> store_err + blob_entry list" where
  "local_list_entries s = walk_entries s"

definition local_list_keys :: "local_store \<Rightarrow> store_err + string list" where
  "local_list_keys s =
     (if ls_fault s Io_Walk then Inl Err_Io else Inr (map (\<lambda>(rel, f). rel_key rel) (below_base s)))"

definition local_used_bytes :: "local_store \<Rightarrow> store_err + int" where
  "local_used_bytes s =
     (if ls_fault s Io_Walk then Inl Err_Io
      else Inr (sum_list (map (\<lambda>(rel, f). int (length (f_bytes f))) (below_base s))))"

text \<open>The shard directory of the prefix is walked, and the entries are filtered by the whole prefix.\<close>

definition local_list_entries_with_prefix :: "local_store \<Rightarrow> string \<Rightarrow> store_err + blob_entry list" where
  "local_list_entries_with_prefix s prefix =
     (let root = (if length prefix \<ge> 4 then path_join [ls_base s, take 2 prefix, take 2 (drop 2 prefix)] else path_clean (ls_base s))
      in case walk_entries (s\<lparr> ls_files := filter (\<lambda>(p, f). has_prefix p (root @ ''/'')) (ls_files s) \<rparr>) of
           Inl e \<Rightarrow> Inl e
         | Inr es \<Rightarrow> Inr (filter (\<lambda>e. has_prefix (be_key e) prefix) es))"

definition local_append :: "local_store \<Rightarrow> string \<Rightarrow> body \<Rightarrow> (store_err + int) \<times> local_store" where
  "local_append s key b =
     (case key_path (ls_base s) key of
        None \<Rightarrow> (Inl Err_Invalid_Key, s)
      | Some dst \<Rightarrow>
          if ls_fault s (Io_Mkdir_All dst) then (Inl Err_Io, s)
          else if ls_fault s (Io_Append dst) then (Inl Err_Io, s)
          else
            (let old = (case map_of (ls_files s) dst of None \<Rightarrow> [] | Some f \<Rightarrow> f_bytes f);
                 s1 = write_file s dst (old @ bd_bytes b)
             in if bd_broken b then (Inl Err_Io, s1)
                else if ls_fault s (Io_Copy dst)
                then (Inl (classify_write_err s), write_file s dst (old @ take (ls_partial s) (bd_bytes b)))
                else if ls_fault s (Io_Stat dst) then (Inl Err_Io, s1)
                else if ls_fault s (Io_Close dst) then (Inl Err_Io, s1)
                else (Inr (int (length (old @ bd_bytes b))), s1)))"

text \<open>\<open>os.Truncate\<close> also extends a shorter file, with zero bytes.\<close>

definition local_truncate :: "local_store \<Rightarrow> string \<Rightarrow> nat \<Rightarrow> store_err option \<times> local_store" where
  "local_truncate s key n =
     (case key_path (ls_base s) key of
        None \<Rightarrow> (Some Err_Invalid_Key, s)
      | Some p \<Rightarrow>
          if ls_fault s (Io_Truncate p) then (Some Err_Io, s)
          else (case map_of (ls_files s) p of
                  None \<Rightarrow> (Some Err_Not_Exist, s)
                | Some f \<Rightarrow>
                    (None, write_file s p (take n (f_bytes f) @ replicate (n - length (f_bytes f)) (CHR 0x00)))))"

definition local_appended_size :: "local_store \<Rightarrow> string \<Rightarrow> store_err + (int \<times> bool)" where
  "local_appended_size s key =
     (case local_exists s key of
        Inl e \<Rightarrow> Inl e
      | Inr ex \<Rightarrow>
          if \<not> ex then Inr (0, False)
          else (case local_size s key of Inl e \<Rightarrow> Inl e | Inr n \<Rightarrow> Inr (n, True)))"

definition local_ops :: "local_store blob_ops" where
  "local_ops =
     \<lparr> bo_put = local_put, bo_get = local_get, bo_delete = local_delete, bo_exists = local_exists,
       bo_size = local_size, bo_used_bytes = local_used_bytes, bo_list_keys = local_list_keys,
       bo_list_entries = local_list_entries \<rparr>"

section \<open>Where keys go\<close>

lemma clean_segs_append_plain:
  "\<forall>x \<in> set B. plain_seg x \<Longrightarrow> clean_segs r acc (A @ B) = clean_segs r acc A @ B"
proof (induction A arbitrary: acc)
  case Nil
  then show ?case by (simp add: clean_segs_plain)
next
  case (Cons s A)
  consider "s = [] \<or> s = ''.''" | "s = ''..''" | "s \<noteq> []" "s \<noteq> ''.''" "s \<noteq> ''..''" by blast
  then show ?case
  proof cases
    case 1
    then show ?thesis using Cons by auto
  next
    case 2
    then show ?thesis using Cons by (cases acc) auto
  next
    case 3
    then show ?thesis using Cons by simp
  qed
qed

lemma str_split_cat: "str_split c (a @ c # b) = str_split c a @ str_split c b"
proof (induction a)
  case Nil
  then show ?case by simp
next
  case (Cons x a)
  obtain y ys where "str_split c a = y # ys" by (metis neq_Nil_conv str_split_nonempty)
  then show ?case using Cons by simp
qed

lemma str_join_append:
  "xs \<noteq> [] \<Longrightarrow> ys \<noteq> [] \<Longrightarrow> str_join sep (xs @ ys) = str_join sep xs @ sep @ str_join sep ys"
proof (induction xs)
  case Nil
  then show ?case by simp
next
  case (Cons x xs)
  show ?case
  proof (cases xs)
    case Nil
    then show ?thesis using Cons.prems by (cases ys) auto
  next
    case (Cons y zs)
    then show ?thesis using Cons.IH \<open>ys \<noteq> []\<close> by simp
  qed
qed

text \<open>A base directory that is not the root or the working directory itself.\<close>

definition base_segs :: "string \<Rightarrow> string list" where
  "base_segs b = clean_segs (b \<noteq> [] \<and> hd b = slash) [] (str_split slash b)"

definition base_ok :: "string \<Rightarrow> bool" where
  "base_ok b \<longleftrightarrow> b \<noteq> [] \<and> base_segs b \<noteq> []"

lemma path_clean_base: "base_ok b \<Longrightarrow> path_clean b = (if hd b = slash then [slash] else []) @ str_join [slash] (base_segs b)"
  by (cases "hd b = slash") (simp_all add: path_clean_def base_ok_def base_segs_def Let_def)

lemma path_clean_under:
  assumes "base_ok b" "\<forall>x \<in> set (str_split slash r). plain_seg x"
  shows "path_clean (b @ slash # r) = path_clean b @ slash # r"
proof -
  let ?rt = "hd b = slash"
  have b: "b \<noteq> []" "base_segs b \<noteq> []" using assms(1) by (simp_all add: base_ok_def)
  have segs: "clean_segs ?rt [] (str_split slash (b @ slash # r)) = base_segs b @ str_split slash r"
    using assms(2) b(1) by (simp add: str_split_cat clean_segs_append_plain base_segs_def)
  have "str_join [slash] (base_segs b @ str_split slash r) = str_join [slash] (base_segs b) @ slash # r"
    using b(2) by (simp add: str_join_append)
  then show ?thesis
    using b segs
    by (cases ?rt) (simp_all add: path_clean_base [OF assms(1)] path_clean_def [of "b @ slash # r"] Let_def)
qed

text \<open>
  The keys the services generate: at least four characters, no dot or blank, no empty segment, and no
  slash among the first four characters (a hexadecimal digest, or a word and a digest).
\<close>

definition valid_key :: "string \<Rightarrow> bool" where
  "valid_key k \<longleftrightarrow>
     4 \<le> length k \<and> CHR ''.'' \<notin> set k \<and> CHR '' '' \<notin> set k \<and> slash \<notin> set (take 4 k) \<and> [] \<notin> set (str_split slash k)"

lemma in_split_set: "x \<in> set (str_split c k) \<Longrightarrow> set x \<subseteq> set k"
proof (induction k arbitrary: x)
  case (Cons d k)
  obtain y ys where "str_split c k = y # ys" by (metis neq_Nil_conv str_split_nonempty)
  then show ?case using Cons by (fastforce split: if_splits)
qed simp

lemma no_dot_plain: "CHR ''.'' \<notin> set x \<Longrightarrow> x \<noteq> [] \<Longrightarrow> slash \<notin> set x \<Longrightarrow> plain_seg x"
  by (auto simp: plain_seg_def)

text \<open>
  The keys a listing of such a store can show: generated keys, and the temporary files of a generated
  key that a failed write could not remove.
\<close>

definition entry_key :: "string \<Rightarrow> bool" where
  "entry_key k \<longleftrightarrow>
     4 \<le> length k \<and> CHR ''.'' \<notin> set (take 4 k) \<and> slash \<notin> set (take 4 k) \<and> (\<forall>x \<in> set (str_split slash k). plain_seg x)"

lemma valid_key_entry:
  assumes "valid_key k"
  shows "entry_key k"
proof -
  have "\<forall>x \<in> set (str_split slash k). plain_seg x"
  proof
    fix x assume x: "x \<in> set (str_split slash k)"
    then have "set x \<subseteq> set k" "slash \<notin> set x" "x \<noteq> []"
      using in_split_set str_split_no_sep assms by (auto simp: valid_key_def)
    then show "plain_seg x" using assms by (intro no_dot_plain) (auto simp: valid_key_def)
  qed
  then show ?thesis using assms by (auto simp: valid_key_def entry_key_def dest: in_set_takeD)
qed

lemma entry_key_split:
  assumes "entry_key k"
  shows "\<forall>x \<in> set (str_split slash k). plain_seg x" "plain_seg (take 2 k)" "plain_seg (take 2 (drop 2 k))"
proof -
  show "\<forall>x \<in> set (str_split slash k). plain_seg x" using assms by (simp add: entry_key_def)
  have t4: "take 4 k = take 2 k @ take 2 (drop 2 k)" by (metis add_2_eq_Suc' numeral_Bit0 numeral_2_eq_2 one_add_one take_add)
  then have "slash \<notin> set (take 2 k)" "slash \<notin> set (take 2 (drop 2 k))" "CHR ''.'' \<notin> set (take 2 k)" "CHR ''.'' \<notin> set (take 2 (drop 2 k))"
    using assms unfolding entry_key_def by auto
  moreover have "take 2 k \<noteq> []" "take 2 (drop 2 k) \<noteq> []" using assms by (auto simp: entry_key_def)
  ultimately show "plain_seg (take 2 k)" "plain_seg (take 2 (drop 2 k))" by (auto intro: no_dot_plain)
qed

definition shard_path :: "string \<Rightarrow> string" where
  "shard_path k = take 2 k @ slash # take 2 (drop 2 k) @ slash # k"

lemma shard_path_split:
  assumes "entry_key k"
  shows "str_split slash (shard_path k) = take 2 k # take 2 (drop 2 k) # str_split slash k"
  using entry_key_split(2,3) [OF assms] by (simp add: shard_path_def str_split_append plain_seg_def)

lemma key_path_entry:
  assumes "base_ok b" "entry_key k"
  shows "key_path b k = Some (path_clean b @ slash # shard_path k)"
proof -
  have len: "4 \<le> length k" "b \<noteq> []" using assms by (auto simp: entry_key_def base_ok_def)
  have pl: "\<forall>x \<in> set (str_split slash (shard_path k)). plain_seg x"
    using entry_key_split [OF assms(2)] by (simp add: shard_path_split [OF assms(2)])
  have ne: "take 2 k \<noteq> []" "take 2 (drop 2 k) \<noteq> []" "k \<noteq> []" using len by auto
  have "path_join [b, take 2 k, take 2 (drop 2 k), k] = path_clean (b @ slash # shard_path k)"
    using ne len(2) by (simp add: path_join_def shard_path_def)
  also have "\<dots> = path_clean b @ slash # shard_path k" by (rule path_clean_under [OF assms(1) pl])
  finally show ?thesis
    using len by (simp add: key_path_def Let_def has_prefix_iff)
qed

lemma shard_path_inj: "entry_key k \<Longrightarrow> entry_key k' \<Longrightarrow> shard_path k = shard_path k' \<Longrightarrow> k = k'"
  using shard_path_split [of k] shard_path_split [of k'] by (metis list.inject str_join_split)

lemma rel_key_shard: "entry_key k \<Longrightarrow> rel_key (shard_path k) = k"
  by (cases "str_split slash k") (simp_all add: rel_key_def shard_path_split [of k], metis str_join_split)

section \<open>The backend satisfies the contract\<close>

definition local_obj :: "local_store \<Rightarrow> string \<Rightarrow> (bytes \<times> time) option" where
  "local_obj s k =
     (case key_path (ls_base s) k of
        None \<Rightarrow> None
      | Some p \<Rightarrow> map_option (\<lambda>f. (f_bytes f, f_mtime f)) (map_of (ls_files s) p))"

text \<open>A well-formed tree: one file per path, and every file is where its listed key goes.\<close>

definition tree_ok :: "string \<Rightarrow> string \<Rightarrow> bool" where
  "tree_ok base p \<longleftrightarrow>
     (\<forall>rel. p = path_clean base @ slash # rel \<longrightarrow> entry_key (rel_key rel) \<and> rel = shard_path (rel_key rel))"

definition local_good :: "local_store \<Rightarrow> bool" where
  "local_good s \<longleftrightarrow>
     base_ok (ls_base s) \<and> slash \<notin> set (ls_tmp s) \<and> distinct (map fst (ls_files s)) \<and>
     (\<forall>p \<in> fst ` set (ls_files s). tree_ok (ls_base s) p)"

lemma tree_ok_shard:
  assumes "base_ok b" "entry_key k"
  shows "tree_ok b (path_clean b @ slash # shard_path k)"
  using assms by (simp add: tree_ok_def rel_key_shard)

lemma str_split_last_append:
  "slash \<notin> set t \<Longrightarrow> str_split slash (s @ t) = butlast (str_split slash s) @ [last (str_split slash s) @ t]"
proof (induction s)
  case Nil
  then show ?case by (simp add: str_split_single)
next
  case (Cons x s)
  obtain y ys where sp: "str_split slash s = y # ys" by (metis neq_Nil_conv str_split_nonempty)
  show ?case using Cons sp by (cases ys) auto
qed

text \<open>The temporary file of a generated key.\<close>

lemma entry_key_tmp:
  assumes "valid_key k" "slash \<notin> set t"
  shows "entry_key (k @ ''.tmp.'' @ t)" "shard_path k @ ''.tmp.'' @ t = shard_path (k @ ''.tmp.'' @ t)"
proof -
  have e: "entry_key k" by (rule valid_key_entry [OF assms(1)])
  have len: "4 \<le> length k" using e by (simp add: entry_key_def)
  have "slash \<notin> set (''.tmp.'' @ t)" using assms(2) by simp
  then have sp: "str_split slash (k @ ''.tmp.'' @ t) = butlast (str_split slash k) @ [last (str_split slash k) @ ''.tmp.'' @ t]"
    by (rule str_split_last_append)
  have "last (str_split slash k) \<in> set (str_split slash k)" by (simp add: str_split_nonempty)
  then have "plain_seg (last (str_split slash k))" using entry_key_split(1) [OF e] by blast
  then have "plain_seg (last (str_split slash k) @ ''.tmp.'' @ t)" using assms(2) by (auto simp: plain_seg_def Cons_eq_append_conv)
  moreover have "\<forall>x \<in> set (butlast (str_split slash k)). plain_seg x" using entry_key_split(1) [OF e] by (meson in_set_butlastD)
  ultimately show "entry_key (k @ ''.tmp.'' @ t)" using e len unfolding entry_key_def sp by simp
  show "shard_path k @ ''.tmp.'' @ t = shard_path (k @ ''.tmp.'' @ t)" using len by (simp add: shard_path_def)
qed

lemma tree_ok_tmp:
  assumes "base_ok b" "valid_key k" "slash \<notin> set t"
  shows "tree_ok b (path_clean b @ slash # shard_path k @ ''.tmp.'' @ t)"
  using tree_ok_shard [OF assms(1) entry_key_tmp(1) [OF assms(2,3)]] by (simp only: entry_key_tmp(2) [OF assms(2,3)])

lemma local_obj_entry:
  assumes "local_good s" "entry_key k"
  shows "local_obj s k =
    map_option (\<lambda>f. (f_bytes f, f_mtime f)) (map_of (ls_files s) (path_clean (ls_base s) @ slash # shard_path k))"
  using assms by (simp add: local_obj_def key_path_entry local_good_def)

lemma write_file_fields [simp]:
  "ls_base (write_file s p b) = ls_base s" "ls_tmp (write_file s p b) = ls_tmp s"
  "ls_fault (write_file s p b) = ls_fault s"
  "map_of (ls_files (write_file s p b)) = (map_of (ls_files s))(p \<mapsto> \<lparr> f_bytes = b, f_mtime = ls_now s \<rparr>)"
  by (simp_all add: write_file_def AList.update_conv')

lemma remove_file_fields [simp]:
  "ls_base (remove_file s p) = ls_base s" "ls_tmp (remove_file s p) = ls_tmp s"
  "map_of (ls_files (remove_file s p)) = (if ls_fault s (Io_Remove p) then map_of (ls_files s) else (map_of (ls_files s))(p := None))"
  by (simp_all add: remove_file_def AList.delete_conv')

lemma local_good_write:
  "local_good s \<Longrightarrow> tree_ok (ls_base s) p \<Longrightarrow> local_good (write_file s p b)"
  unfolding local_good_def write_file_def
  by (simp add: distinct_update AList.dom_update flip: dom_map_of_conv_image_fst)
     (auto simp: AList.update_conv' dom_def)

lemma AList_delete_subset: "x \<in> set (AList.delete k xs) \<Longrightarrow> x \<in> set xs"
  by (auto simp: AList.delete_eq)

lemma local_good_remove: "local_good s \<Longrightarrow> local_good (remove_file s p)"
  unfolding local_good_def remove_file_def
  using distinct_delete [of "ls_files s" p] by (auto dest: AList_delete_subset)

lemma local_good_delete:
  "local_good s \<Longrightarrow> local_good (s\<lparr> ls_files := AList.delete p (ls_files s) \<rparr>)"
  unfolding local_good_def using distinct_delete [of "ls_files s" p] by (auto dest: AList_delete_subset)

lemma tmp_not_shard:
  assumes "valid_key k" "valid_key k'"
  shows "shard_path k @ ''.tmp.'' @ t \<noteq> shard_path k'"
proof
  assume e: "shard_path k @ ''.tmp.'' @ t = shard_path k'"
  have "CHR ''.'' \<notin> set (shard_path k')"
    using assms(2) unfolding shard_path_def valid_key_def by (auto dest: in_set_takeD in_set_dropD)
  moreover have "CHR ''.'' \<in> set (shard_path k @ ''.tmp.'' @ t)" by simp
  ultimately show False by (simp only: e)
qed

text \<open>How \<open>Put\<close> ends: with the new file in place, or with at most a temporary file added.\<close>

lemma local_put_cases:
  assumes "local_good s" "valid_key k"
  defines "dst \<equiv> path_clean (ls_base s) @ slash # shard_path k"
  obtains (stored) "local_put s k b n = (None, write_file s dst (bd_bytes b))" "\<not> bd_broken b"
  | (untouched) e where "local_put s k b n = (Some e, s)"
  | (staged) e c where "local_put s k b n = (Some e, remove_file (write_file s (dst @ ''.tmp.'' @ ls_tmp s) c) (dst @ ''.tmp.'' @ ls_tmp s))"
proof -
  have kp: "key_path (ls_base s) k = Some dst" using assms valid_key_entry by (simp add: key_path_entry local_good_def)
  show thesis
  proof (cases "ls_fault s (Io_Mkdir_All dst) \<or> ls_fault s (Io_Create_Temp dst)")
    case True
    then show thesis using untouched by (auto simp: local_put_def kp Let_def split: if_splits)
  next
    case False
    show thesis
    proof (cases "fst (local_put s k b n)")
      case None
      then show thesis using stored False by (simp add: local_put_def kp Let_def split: if_splits)
    next
      case (Some e)
      then obtain c where "local_put s k b n = (Some e, remove_file (write_file s (dst @ ''.tmp.'' @ ls_tmp s) c) (dst @ ''.tmp.'' @ ls_tmp s))"
        using False by (auto simp: local_put_def kp Let_def split: if_splits)
      then show thesis by (rule staged)
    qed
  qed
qed

lemma append_slash_eq: "(a @ slash # b) @ c = a @ slash # (b @ c)" by simp

interpretation local_blobs: blob_store_laws local_ops local_obj valid_key entry_key local_good
proof
  show "entry_key k" if "valid_key k" for k by (rule valid_key_entry [OF that])
next
  fix s s' :: local_store and k k' b n e c m es en
  assume good: "local_good s"
  have base: "base_ok (ls_base s)" and tmp: "slash \<notin> set (ls_tmp s)" using good by (simp_all add: local_good_def)
  let ?p = "\<lambda>j. path_clean (ls_base s) @ slash # shard_path j"
  have ve: "entry_key j" if "valid_key j" for j by (rule valid_key_entry [OF that])
  have obj: "local_obj x j = map_option (\<lambda>f. (f_bytes f, f_mtime f)) (map_of (ls_files x) (?p j))"
    if "entry_key j" "ls_base x = ls_base s" for x j
    using that base by (simp add: local_obj_def key_path_entry)
  have kp: "key_path (ls_base s) j = Some (?p j)" if "entry_key j" for j using key_path_entry [OF base that] .
  have inj: "?p j = ?p i \<longleftrightarrow> j = i" if "entry_key j" "entry_key i" for i j using shard_path_inj [OF that] by auto
  have tmp_ne: "?p j \<noteq> ?p i @ ''.tmp.'' @ t" if "valid_key j" "valid_key i" for i j t
    using tmp_not_shard [OF that(2,1), of t] by (metis append_slash_eq list.inject same_append_eq)
  show "local_good (snd (bo_put local_ops s k b n))" if k: "valid_key k"
    using good k
  proof (cases rule: local_put_cases [where b = b and n = n])
    case stored
    then show ?thesis using good tree_ok_shard [OF base valid_key_entry [OF k]] by (simp add: local_ops_def local_good_write)
  next
    case (untouched e)
    then show ?thesis using good by (simp add: local_ops_def)
  next
    case (staged e c)
    then show ?thesis
      using good tree_ok_tmp [OF base k tmp] by (simp add: local_ops_def local_good_write local_good_remove)
  qed
  show "local_good (snd (bo_delete local_ops s k))" if "entry_key k"
    using good kp [OF that] by (simp add: local_ops_def local_delete_def local_good_delete)
  show "\<not> bd_broken b \<and> map_option fst (local_obj s' k) = Some (bd_bytes b)"
    if k: "valid_key k" and p: "bo_put local_ops s k b n = (None, s')"
    using good k
  proof (cases rule: local_put_cases [where b = b and n = n])
    case stored
    then show ?thesis using p k by (auto simp: local_ops_def obj ve)
  qed (use p in \<open>simp_all add: local_ops_def\<close>)
  show "local_obj s' k' = local_obj s k'"
    if k: "valid_key k" and p: "bo_put local_ops s k b n = (Some e, s')" and k': "valid_key k'"
    using good k
  proof (cases rule: local_put_cases [where b = b and n = n])
    case stored
    then show ?thesis using p by (simp add: local_ops_def)
  next
    case (untouched e)
    then show ?thesis using p by (simp add: local_ops_def)
  next
    case (staged e c)
    then show ?thesis using p k' tmp_ne [OF k' k] by (auto simp: local_ops_def obj ve)
  qed
  show "local_obj (snd (bo_put local_ops s k b n)) k' = local_obj s k'" if k: "valid_key k" and k': "valid_key k'" and "k' \<noteq> k"
    using good k
  proof (cases rule: local_put_cases [where b = b and n = n])
    case stored
    then show ?thesis using that inj [OF ve [OF k'] ve [OF k]] by (simp add: local_ops_def obj ve)
  next
    case (untouched e)
    then show ?thesis by (simp add: local_ops_def)
  next
    case (staged e c)
    then show ?thesis using k' tmp_ne [OF k' k] by (simp add: local_ops_def obj ve)
  qed
  show "map_option fst (local_obj s k) = Some c \<and> m = int (length c)"
    if k: "valid_key k" and "bo_get local_ops s k = Inr (c, m)"
    using that by (auto simp: local_ops_def local_get_def kp obj ve split: if_splits option.splits)
  show "x \<longleftrightarrow> local_obj s k \<noteq> None" if "valid_key k" "bo_exists local_ops s k = Inr x" for x
    using that ve by (auto simp: local_ops_def local_exists_def kp obj ve split: if_splits)
  show "local_obj s' k = None" if "entry_key k" "bo_delete local_ops s k = (None, s')"
    using that by (auto simp: local_ops_def local_delete_def kp obj AList.delete_conv' split: if_splits)
  show "local_obj s' k' = local_obj s k'" if "entry_key k" "bo_delete local_ops s k = (Some e, s')" "entry_key k'"
    using that by (auto simp: local_ops_def local_delete_def kp split: if_splits)
  show "local_obj (snd (bo_delete local_ops s k)) k' = local_obj s k'" if "entry_key k" "entry_key k'" "k' \<noteq> k"
    using that inj [OF that(2,1)] by (simp add: local_ops_def local_delete_def kp obj AList.delete_conv')
  show "\<exists>c t. local_obj s k = Some (c, t) \<and> m = int (length c)" if "valid_key k" "bo_size local_ops s k = Inr m"
    using that by (auto simp: local_ops_def local_size_def kp obj ve split: if_splits option.splits)
  have files: "map_of (ls_files s) p = Some f \<longleftrightarrow> (p, f) \<in> set (ls_files s)" for p f
    using good by (simp add: local_good_def)
  show "entry_key (be_key en) \<and> (\<exists>c t. local_obj s (be_key en) = Some (c, t) \<and> be_size en = int (length c) \<and> be_mod_time en = t)"
    if l: "bo_list_entries local_ops s = Inr es" and en: "en \<in> set es"
  proof -
    obtain p f rel where pf: "(p, f) \<in> set (ls_files s)" "p = path_clean (ls_base s) @ slash # rel"
      "be_key en = rel_key rel" "be_size en = int (length (f_bytes f))" "be_mod_time en = f_mtime f"
      using l en
      by (auto simp: local_ops_def local_list_entries_def walk_entries_def below_base_def has_prefix_iff split: if_splits)
    then have "tree_ok (ls_base s) p" using good unfolding local_good_def by force
    then have rel: "entry_key (rel_key rel)" "rel = shard_path (rel_key rel)" using pf(2) unfolding tree_ok_def by blast+
    then have "map_of (ls_files s) (?p (be_key en)) = Some f" using pf files by metis
    then show ?thesis using obj [OF _ refl] rel(1) pf(3-5) by simp
  qed
  show "\<exists>en \<in> set es. be_key en = k"
    if l: "bo_list_entries local_ops s = Inr es" and v: "entry_key k" and o: "local_obj s k \<noteq> None"
  proof -
    obtain f where f: "(?p k, f) \<in> set (ls_files s)" using o obj [OF v refl] files by auto
    let ?en = "\<lparr> be_key = k, be_size = int (length (f_bytes f)), be_mod_time = f_mtime f \<rparr>"
    have "(shard_path k, f) \<in> set (below_base s)"
      unfolding below_base_def using f by (force simp: has_prefix_iff)
    then have "?en \<in> set es"
      using l rel_key_shard [OF v]
      by (force simp: local_ops_def local_list_entries_def walk_entries_def split: if_splits)
    then show ?thesis by force
  qed
qed

section \<open>Properties\<close>

text \<open>A cleaned path: rooted with plain segments, or relative with its \<open>..\<close> in front, or \<open>.\<close>.\<close>

definition dots_first :: "string list \<Rightarrow> bool" where
  "dots_first ss \<longleftrightarrow> (\<exists>k ps. ss = replicate k ''..'' @ ps \<and> list_all plain_seg ps)"

lemma dots_no_slash:
  assumes "list_all plain_seg ps" "x \<in> set (replicate k ''..'' @ ps)"
  shows "slash \<notin> set x"
proof (cases "x \<in> set ps")
  case True
  then show ?thesis using assms(1) by (simp add: list_all_iff plain_seg_def)
next
  case False
  then have "x = ''..''" using assms(2) by simp
  then show ?thesis by simp
qed

lemma clean_segs_dots_first:
  assumes "\<forall>x \<in> set ss. slash \<notin> set x" "dots_first (rev acc)"
  shows "dots_first (clean_segs False acc ss)"
  using assms
proof (induction ss arbitrary: acc)
  case (Cons s ss)
  have rest: "\<forall>x \<in> set ss. slash \<notin> set x" using Cons.prems(1) by simp
  obtain k ps where acc: "rev acc = replicate k ''..'' @ ps" "list_all plain_seg ps" using Cons.prems(2) by (auto simp: dots_first_def)
  then have a: "acc = rev ps @ replicate k ''..''" by (metis rev_append rev_replicate rev_rev_ident)
  consider "s = [] \<or> s = ''.''" | "s = ''..''" | "s \<noteq> []" "s \<noteq> ''.''" "s \<noteq> ''..''" by blast
  then show ?case
  proof cases
    case 1
    then have "clean_segs False acc (s # ss) = clean_segs False acc ss" by auto
    then show ?thesis using Cons.IH [OF rest Cons.prems(2)] by simp
  next
    case 2
    show ?thesis
    proof (cases "ps = []")
      case True
      have "dots_first (rev (''..'' # acc))"
        unfolding dots_first_def
        by (rule exI [of _ "Suc k"], rule exI [of _ "[]"]) (use acc True in \<open>simp add: replicate_append_same\<close>)
      moreover have "clean_segs False acc (s # ss) = clean_segs False (''..'' # acc) ss"
        using 2 a True by (cases k) simp_all
      ultimately show ?thesis using Cons.IH [OF rest, of "''..'' # acc"] by metis
    next
      case False
      then obtain qs q where ps: "ps = qs @ [q]" by (meson rev_exhaust)
      then have "q \<noteq> ''..''" using acc(2) by (auto simp: plain_seg_def)
      moreover have acc': "acc = q # rev qs @ replicate k ''..''" using a ps by simp
      ultimately have "clean_segs False acc (s # ss) = clean_segs False (rev qs @ replicate k ''..'') ss" using 2 by simp
      moreover have "dots_first (rev (rev qs @ replicate k ''..''))" using acc(2) ps by (auto simp: dots_first_def)
      ultimately show ?thesis using Cons.IH [OF rest] by metis
    qed
  next
    case 3
    have "clean_segs False acc (s # ss) = clean_segs False (s # acc) ss" using 3 by simp
    moreover have "dots_first (rev (s # acc))"
      unfolding dots_first_def
      by (rule exI [of _ k], rule exI [of _ "ps @ [s]"]) (use acc 3 Cons.prems(1) in \<open>simp add: plain_seg_def\<close>)
    ultimately show ?thesis using Cons.IH [OF rest] by metis
  qed
qed simp

lemma path_clean_relative:
  assumes "\<nexists>q. p = slash # q"
  shows "path_clean p = (let s = clean_segs False [] (str_split slash p) in if s = [] then ''.'' else str_join [slash] s)"
proof (cases "p = []")
  case True
  then show ?thesis by (simp add: path_clean_def Let_def)
next
  case False
  then have "hd p \<noteq> slash" using assms by (metis list.collapse)
  then show ?thesis using False by (simp add: path_clean_def Let_def)
qed

lemma str_split_segs: "\<forall>x \<in> set (str_split slash p). slash \<notin> set x"
  by (auto dest: str_split_no_sep)

text \<open>The segments of a cleaned path that does not begin with \<open>..\<close>.\<close>

lemma path_clean_segs:
  assumes "path_clean p \<noteq> ''.''" "hd (str_split slash (path_clean p)) \<noteq> ''..''"
  shows "\<forall>x \<in> set (tl (str_split slash (path_clean p))). x = [] \<and> path_clean p = [slash] \<or> plain_seg x"
    "hd (str_split slash (path_clean p)) = [] \<or> plain_seg (hd (str_split slash (path_clean p)))"
proof -
  have "(\<forall>x \<in> set (tl (str_split slash (path_clean p))). x = [] \<and> path_clean p = [slash] \<or> plain_seg x) \<and>
    (hd (str_split slash (path_clean p)) = [] \<or> plain_seg (hd (str_split slash (path_clean p))))"
  proof (cases "\<exists>q. p = slash # q")
    case True
    then obtain q where q: "p = slash # q" by blast
    let ?s = "clean_segs True [] (str_split slash q)"
    have pl: "list_all plain_seg ?s" by (rule clean_segs_rooted_plain) (auto simp: list_all_iff dest: str_split_no_sep)
    have c: "path_clean p = slash # str_join [slash] ?s" unfolding q by (rule path_clean_rooted)
    show ?thesis
    proof (cases "?s = []")
      case True
      then show ?thesis by (simp add: c)
    next
      case False
      then have "str_split slash (path_clean p) = [] # ?s"
        using pl by (simp add: c str_split_join list_all_iff plain_seg_def)
      then show ?thesis using pl by (simp add: list_all_iff)
    qed
  next
    case False
    let ?s = "clean_segs False [] (str_split slash p)"
    have d: "dots_first ?s" by (rule clean_segs_dots_first [OF str_split_segs]) (auto simp: dots_first_def)
    then obtain k ps where s: "?s = replicate k ''..'' @ ps" "list_all plain_seg ps" by (auto simp: dots_first_def)
    show ?thesis
    proof (cases "?s = []")
      case True
      then show ?thesis using assms(1) path_clean_relative [OF False] by (simp add: Let_def)
    next
      case ne: False
      have c: "path_clean p = str_join [slash] ?s" using path_clean_relative [OF False] ne by (simp add: Let_def)
      have "\<forall>x \<in> set (replicate k ''..'' @ ps). slash \<notin> set x" using dots_no_slash [OF s(2)] by blast
      then have "\<forall>x \<in> set ?s. slash \<notin> set x" unfolding s(1) .
      then have sp: "str_split slash (path_clean p) = ?s" using ne by (simp add: c str_split_join)
      have "k = 0" using assms(2) s ne unfolding sp by (cases k) simp_all
      then have "list_all plain_seg ?s" using s by simp
      then show ?thesis using ne unfolding sp by (cases ?s) (auto simp: list_all_iff)
    qed
  qed
  then show "\<forall>x \<in> set (tl (str_split slash (path_clean p))). x = [] \<and> path_clean p = [slash] \<or> plain_seg x"
    "hd (str_split slash (path_clean p)) = [] \<or> plain_seg (hd (str_split slash (path_clean p)))" by blast+
qed

lemma path_clean_ne: "path_clean p \<noteq> []"
proof (cases "\<exists>q. p = slash # q")
  case True
  then show ?thesis using path_clean_rooted by auto
next
  case False
  let ?s = "clean_segs False [] (str_split slash p)"
  have "dots_first ?s" by (rule clean_segs_dots_first [OF str_split_segs]) (auto simp: dots_first_def)
  then obtain k ps where s: "?s = replicate k ''..'' @ ps" "list_all plain_seg ps" by (auto simp: dots_first_def)
  have c: "path_clean p = (if ?s = [] then ''.'' else str_join [slash] ?s)" using path_clean_relative [OF False] by (simp add: Let_def)
  have "str_join [slash] ?s \<noteq> []" if ne: "?s \<noteq> []"
  proof
    assume "str_join [slash] ?s = []"
    moreover have "\<forall>x \<in> set (replicate k ''..'' @ ps). slash \<notin> set x" using dots_no_slash [OF s(2)] by blast
    then have "\<forall>x \<in> set ?s. slash \<notin> set x" unfolding s(1) .
    ultimately have "?s = str_split slash []" using str_split_join [OF ne] by metis
    then have "replicate k ''..'' @ ps = [[]]" unfolding s(1) by simp
    then show False using s(2) by (cases k) (auto simp: plain_seg_def)
  qed
  then show ?thesis using c by simp
qed

lemma key_path_clean:
  assumes "key_path b key = Some p" "p \<noteq> path_clean b"
  obtains j rel where "p = path_clean j" "p = path_clean b @ slash # rel"
proof -
  obtain rel where rel: "p = path_clean b @ slash # rel"
    using assms by (auto simp: key_path_def Let_def has_prefix_iff split: if_splits)
  have "\<exists>xs. p = path_join xs" using assms(1) by (auto simp: key_path_def Let_def split: if_splits)
  then obtain j where "p = path_clean j" using rel by (auto simp: path_join_def Let_def split: if_splits)
  then show thesis using that rel by blast
qed

text \<open>
  C38: containment. With a base directory that does not begin with \<open>..\<close> once cleaned (absolute or relative, the default
  \<open>./data/blobs\<close> included), whatever key a caller passes (one out of a crafted archive included), the file it
  stands for is the base directory itself or lies below it: what follows the base consists of plain segments, none
  of them empty, \<open>.\<close> or \<open>..\<close>. A base that begins with \<open>..\<close> is not protected (\<open>dotdot_base_escapes\<close>).
\<close>

theorem local_key_contained:
  assumes "hd (str_split slash (path_clean b)) \<noteq> ''..''" "key_path b key = Some p" "p \<noteq> path_clean b"
  shows "\<exists>rel. p = path_clean b @ slash # rel \<and> (\<forall>x \<in> set (str_split slash rel). plain_seg x)"
proof -
  obtain j rel where p: "p = path_clean j" "p = path_clean b @ slash # rel" by (rule key_path_clean [OF assms(2,3)])
  have ne: "path_clean b \<noteq> []" by (rule path_clean_ne)
  have split: "str_split slash p = str_split slash (path_clean b) @ str_split slash rel"
    unfolding p(2) by (rule str_split_cat)
  obtain h t where ht: "str_split slash (path_clean b) = h # t" by (cases "str_split slash (path_clean b)") auto
  have "hd (str_split slash p) \<noteq> ''..''" using assms(1) by (simp add: split ht)
  moreover have "p \<noteq> ''.''" using p(2) ne by (cases "path_clean b") auto
  ultimately have segs: "\<forall>x \<in> set (tl (str_split slash p)). x = [] \<and> p = [slash] \<or> plain_seg x"
    unfolding p(1) by (intro path_clean_segs(1))
  have "p \<noteq> [slash]" using p(2) ne by (cases "path_clean b") auto
  then have "\<forall>x \<in> set (tl (str_split slash p)). plain_seg x" using segs by blast
  moreover have "tl (str_split slash p) = t @ str_split slash rel" by (simp add: split ht)
  ultimately show ?thesis using p(2) by (intro exI [of _ rel]) simp
qed

theorem local_key_contained_witness:
  "\<exists>rel. key_path default_local_base_path ''ab/../../x'' = Some (path_clean default_local_base_path @ slash # rel) \<and>
     (\<forall>x \<in> set (str_split slash rel). plain_seg x)"
proof -
  have k: "key_path default_local_base_path ''ab/../../x'' = Some ''data/blobs/x''" by code_simp
  have "hd (str_split slash (path_clean default_local_base_path)) \<noteq> ''..''" "''data/blobs/x'' \<noteq> path_clean default_local_base_path"
    by code_simp+
  from local_key_contained [OF this(1) k this(2)] show ?thesis by (simp add: k)
qed

lemma dotdot_base_escapes: "key_path ''..'' ''../../x'' = Some ''../../../../x''"
  by code_simp

text \<open>
  C39: writes are atomic. Whatever the outcome of a \<open>Put\<close> (a broken body, a full disk, a failed sync or
  rename), afterwards every generated key holds the object it held before, except that the key
  written holds exactly the new bytes when the call succeeded.
\<close>

theorem local_put_atomic:
  assumes "local_good s" "valid_key k" "valid_key k'"
  shows "(local_obj (snd (local_put s k b n)) k' = local_obj s k' \<or>
          k' = k \<and> fst (local_put s k b n) = None \<and> map_option fst (local_obj (snd (local_put s k b n)) k') = Some (bd_bytes b)) \<and>
         (fst (local_put s k b n) = None \<longrightarrow> \<not> bd_broken b \<and> map_option fst (local_obj (snd (local_put s k b n)) k) = Some (bd_bytes b))"
proof -
  have ops: "bo_put local_ops = local_put" by (simp add: local_ops_def)
  show ?thesis
    using local_blobs.obj_put [OF assms, of b n, unfolded ops]
      local_blobs.put_ok [OF assms(1,2), of b n "snd (local_put s k b n)", unfolded ops]
    by (cases "local_put s k b n") auto
qed

definition example_store :: local_store where
  "example_store = \<lparr> ls_base = ''/b'', ls_files = [], ls_now = 5, ls_tmp = ''1'', ls_fault = (\<lambda>_. False), ls_enospc = False, ls_partial = 0 \<rparr>"

lemma example_store_good: "local_good example_store"
proof -
  have "base_ok ''/b''" by code_simp
  then show ?thesis by (simp add: local_good_def example_store_def)
qed

theorem local_put_atomic_witness:
  "map_option fst (local_obj (snd (local_put example_store ''abcdef'' \<lparr> bd_bytes = ''hi'', bd_broken = False \<rparr> 2)) ''abcdef'') = Some ''hi''"
proof -
  have k: "valid_key ''abcdef''" by code_simp
  have kp: "key_path ''/b'' ''abcdef'' = Some ''/b/ab/cd/abcdef''" by code_simp
  have "fst (local_put example_store ''abcdef'' \<lparr> bd_bytes = ''hi'', bd_broken = False \<rparr> 2) = None"
    by (simp add: local_put_def example_store_def kp Let_def)
  then show ?thesis
    using local_put_atomic [OF example_store_good k k, of "\<lparr> bd_bytes = ''hi'', bd_broken = False \<rparr>" 2] by simp
qed

section \<open>A base directory the guard rejects\<close>

text \<open>
  The containment guard compares against the cleaned base and a separator. For the root and for the
  working directory that prefix never occurs, so a store configured with either rejects every key.
\<close>

lemma root_base_rejects: "key_path ''/'' ''abcdef'' = None" "key_path ''.'' ''abcdef'' = None"
  by code_simp+

end
