(* ===== verification/Store.thy ===== *)
theory Store
  imports Write_Policy Local_Store
begin

text \<open>
  Storing, fetching and deleting artifacts: \<open>internal/formats/base/store.go\<close>. The bytes go to a backend
  through the methods of \<open>Blob_Store\<close>; the rows, the counters and the notifications are the fields of
  \<open>store_world\<close>.
\<close>

section \<open>Quotas\<close>

definition over_limit :: "int \<Rightarrow> int \<Rightarrow> int option \<Rightarrow> bool" where
  "over_limit used delta quota = (case quota of None \<Rightarrow> False | Some q \<Rightarrow> add64 used delta > q)"

definition repo_headroom :: "'b store_world \<Rightarrow> nat \<Rightarrow> repository \<Rightarrow> int \<Rightarrow> pub_err option" where
  "repo_headroom w site repo delta =
     (if repo_quota_bytes repo = None then None
      else case sum_size_by_repo w site (repo_name repo) of
        None \<Rightarrow> Some Pe_Db
      | Some used \<Rightarrow> if over_limit used delta (repo_quota_bytes repo) then Some Pe_Quota else None)"

definition check_quota :: "'b store_world \<Rightarrow> repository \<Rightarrow> int \<Rightarrow> pub_err option" where
  "check_quota w repo sz =
     (case resolve_store_obj w 4 repo of
        Inl e \<Rightarrow> Some e
      | Inr b \<Rightarrow>
          if bs_type b \<noteq> ''group'' \<and> over_limit (bs_used_bytes b) sz (bs_quota_bytes b) then Some Pe_Quota
          else repo_headroom w 1 repo sz)"

definition store_for_quota :: "'b store_world \<Rightarrow> repository \<Rightarrow> string \<Rightarrow> blob_store option" where
  "store_for_quota w repo store_id =
     (if store_id \<noteq> [] then stores_by_id w 5 store_id
      else case resolve_store_obj w 5 repo of Inl _ \<Rightarrow> None | Inr b \<Rightarrow> Some b)"

definition store_quota_configured :: "'b store_world \<Rightarrow> repository \<Rightarrow> string \<Rightarrow> bool" where
  "store_quota_configured w repo store_id =
     (case store_for_quota w repo store_id of
        None \<Rightarrow> False | Some b \<Rightarrow> bs_type b \<noteq> ''group'' \<and> bs_quota_bytes b \<noteq> None)"

definition quota_headroom :: "'b store_world \<Rightarrow> repository \<Rightarrow> string \<Rightarrow> int \<Rightarrow> pub_err option" where
  "quota_headroom w repo store_id delta =
     (if (case store_for_quota w repo store_id of
            None \<Rightarrow> False
          | Some b \<Rightarrow> bs_type b \<noteq> ''group'' \<and> over_limit (bs_used_bytes b) delta (bs_quota_bytes b))
      then Some Pe_Quota else repo_headroom w 2 repo delta)"

definition usage_delta :: "'b store_world \<Rightarrow> asset \<Rightarrow> asset option \<Rightarrow> int" where
  "usage_delta w a prev =
     (case prev of
        Some p \<Rightarrow>
          if asset_blob_key p = asset_blob_key a \<and> asset_blob_store_id p = asset_blob_store_id a
          then asset_size a - asset_size p
          else (case count_by_blob_key w 1 (asset_blob_key a) (asset_id a) of
                  None \<Rightarrow> asset_size a | Some n \<Rightarrow> if n > 0 then 0 else asset_size a)
      | None \<Rightarrow>
          (case count_by_blob_key w 1 (asset_blob_key a) (asset_id a) of
             None \<Rightarrow> asset_size a | Some n \<Rightarrow> if n > 0 then 0 else asset_size a))"

section \<open>Notifications\<close>

definition is_publish_side_file :: "repo_format \<Rightarrow> string \<Rightarrow> bool" where
  "is_publish_side_file fmt path =
     (if fmt \<noteq> FormatMaven2 then False
      else let p = foldl trim_suffix path [''.sha1'', ''.md5'', ''.sha256'', ''.sha512'']
           in path_base p = ''maven-metadata.xml'' \<or> p \<noteq> path)"

definition is_oci_tag_manifest_path :: "string \<Rightarrow> bool" where
  "is_oci_tag_manifest_path path =
     (if \<not> has_prefix path ''/manifests/'' then False
      else let rest = trim_prefix path ''/manifests/''
           in case str_last_index rest ''/'' of
                None \<Rightarrow> False
              | Some i \<Rightarrow> if i = 0 \<or> i = length rest - 1 then False else CHR '':'' \<notin> set (drop (Suc i) rest))"

definition metadata_placeholder_version :: "string \<Rightarrow> bool" where
  "metadata_placeholder_version v \<longleftrightarrow> v = ''metadata'' \<or> v = ''simple-page'' \<or> v = ''index''"

definition notify_published :: "write_ctx \<Rightarrow> repository \<Rightarrow> component \<Rightarrow> string \<Rightarrow> coords \<Rightarrow> 'b store_world \<Rightarrow> 'b store_world" where
  "notify_published ctx repo c path co w =
     (if comp_id c = [] then w
      else if repo_kind repo \<noteq> ''hosted'' \<or> wc_bypass ctx then w
      else if is_oci_registry (repo_fmt repo) \<and> \<not> is_oci_tag_manifest_path path then w
      else if co_name co = [] \<or> is_publish_side_file (repo_fmt repo) path \<or> metadata_placeholder_version (co_version co) then w
      else w\<lparr> sw_publishes := sw_publishes w @ [(repo_name repo, comp_id c)] \<rparr>)"

definition queue_for_scanning :: "component \<Rightarrow> 'b store_world \<Rightarrow> 'b store_world" where
  "queue_for_scanning c w =
     (if comp_id c = [] \<or> has_prefix (comp_version c) ''sha256:'' then w
      else w\<lparr> sw_scans := sw_scans w @ [comp_id c] \<rparr>)"

section \<open>Registration\<close>

definition content_replaced :: "'b store_world \<Rightarrow> component \<Rightarrow> asset option \<Rightarrow> string \<Rightarrow> bool" where
  "content_replaced w c prev sha256sum =
     (case prev of
        None \<Rightarrow> False
      | Some p \<Rightarrow>
          if asset_sha256 p \<noteq> [] \<and> asset_sha256 p = sha256sum then False
          else (case (if sw_fail w S_Comp_Get then None else find (\<lambda>x. comp_id x = asset_component_id p) (sw_comps w)) of
                  None \<Rightarrow> True
                | Some old \<Rightarrow>
                    comp_format old = comp_format c \<and> comp_group old = comp_group c \<and>
                    comp_name old = comp_name c \<and> comp_version old = comp_version c))"

record sums =
  sm_sha256 :: string
  sm_sha1 :: string
  sm_md5 :: string

definition component_for :: "repository \<Rightarrow> string \<Rightarrow> coords \<Rightarrow> component" where
  "component_for repo path co =
     \<lparr> comp_id = [], comp_repository_id = repo_id repo, comp_repository = repo_name repo, comp_format = repo_fmt repo,
       comp_group = co_group co, comp_name = (if co_name co = [] then trim_prefix path ''/'' else co_name co),
       comp_version = (if co_version co = [] then ''1'' else co_version co), comp_tags = [], comp_extra = None,
       comp_last_downloaded = None, comp_download_count = 0, comp_created_at = zero_time \<rparr>"

definition asset_for :: "write_ctx \<Rightarrow> repository \<Rightarrow> string \<Rightarrow> string \<Rightarrow> string \<Rightarrow> string \<Rightarrow> sums \<Rightarrow> int \<Rightarrow> asset" where
  "asset_for ctx repo path ct store_id key sm sz =
     \<lparr> asset_id = [], asset_component_id = [], asset_repository_id = repo_id repo, asset_repository = repo_name repo,
       asset_path = path, asset_blob_store_id = store_id, asset_blob_key = key, asset_size = sz,
       asset_content_type = ct, asset_sha1 = sm_sha1 sm, asset_sha256 = sm_sha256 sm, asset_md5 = sm_md5 sm,
       asset_uploader_id = wc_user ctx, asset_last_modified = zero_time, asset_last_downloaded = None,
       asset_download_count = 0, asset_created_at = zero_time \<rparr>"

text \<open>The function run under the quota locks: check, upsert, count.\<close>

definition register_locked ::
  "repository \<Rightarrow> string \<Rightarrow> string \<Rightarrow> component \<Rightarrow> asset \<Rightarrow> asset option \<Rightarrow> 'b store_world \<Rightarrow>
   (pub_err + component \<times> asset) \<times> 'b store_world" where
  "register_locked repo store_id store_name c a prev w =
     (let probe = (case prev of None \<Rightarrow> a | Some p \<Rightarrow> a\<lparr> asset_id := asset_id p \<rparr>);
          delta = usage_delta w probe prev
      in case (if delta > 0 then quota_headroom w repo store_id delta else None) of
           Some e \<Rightarrow> (Inl e, w)
         | None \<Rightarrow>
             (case components_create w c of
                (None, w1) \<Rightarrow> (Inl Pe_Db, w1)
              | (Some c', w1) \<Rightarrow>
                  (case assets_create w1 (a\<lparr> asset_component_id := comp_id c' \<rparr>) of
                     (None, w2) \<Rightarrow> (Inl Pe_Db, w2)
                   | (Some a', w2) \<Rightarrow>
                       (Inr (c', a'), if delta \<noteq> 0 then update_used_bytes w2 store_name delta else w2))))"

definition register_run ::
  "repository \<Rightarrow> string \<Rightarrow> string \<Rightarrow> component \<Rightarrow> asset \<Rightarrow> asset option \<Rightarrow> 'b store_world \<Rightarrow>
   (pub_err + component \<times> asset) \<times> 'b store_world" where
  "register_run repo store_id store_name c a prev w =
     (let reg = register_locked repo store_id store_name c a prev;
          run1 = (if repo_quota_bytes repo \<noteq> None then with_lock (''quota:repo:'' @ repo_name repo) reg else reg);
          run2 = (if store_quota_configured w repo store_id
                  then with_lock (''quota:store:'' @ (if store_name = [] then ''default'' else store_name)) run1 else run1)
      in run2 w)"

definition register_stored_blob ::
  "'b store_env \<Rightarrow> write_ctx \<Rightarrow> 'b store_world \<Rightarrow> repository \<Rightarrow> string \<Rightarrow> string \<Rightarrow> coords \<Rightarrow> string \<Rightarrow> sums \<Rightarrow> int \<Rightarrow>
   string \<Rightarrow> string \<Rightarrow> (pub_err + asset) \<times> 'b store_world" where
  "register_stored_blob env ctx w0 repo path ct co key sm sz store_id0 store_name0 =
     (case (if store_id0 = [] then resolve_store_ref env w0 repo else (Inr (store_id0, store_name0), w0)) of
        (Inl e, w) \<Rightarrow> (Inl e, w)
      | (Inr (store_id, name1), w) \<Rightarrow>
          (let store_name = (if name1 = [] then (case stores_by_id w 6 store_id of None \<Rightarrow> [] | Some b \<Rightarrow> bs_name b) else name1);
               prev = (case assets_by_path w 3 (repo_name repo) path of Inl _ \<Rightarrow> None | Inr p \<Rightarrow> p);
               c0 = component_for repo path co;
               c = (if content_replaced w c0 prev (sm_sha256 sm) then c0\<lparr> comp_extra := Some Map.empty \<rparr> else c0);
               a = asset_for ctx repo path ct store_id key sm sz
           in case register_run repo store_id store_name c a prev w of
                (Inl e, w') \<Rightarrow> (Inl e, w')
              | (Inr (c', a'), w') \<Rightarrow> (Inr a', queue_for_scanning c' (notify_published ctx repo c' path co w'))))"

section \<open>Writing\<close>

definition phys_put :: "'b store_env \<Rightarrow> string \<Rightarrow> string \<Rightarrow> body \<Rightarrow> int \<Rightarrow> 'b store_world \<Rightarrow> store_err option \<times> 'b store_world" where
  "phys_put env p key b n w =
     (let r = bo_put (se_ops env) (sw_phys w p) key b n in (fst r, w\<lparr> sw_phys := (sw_phys w)(p := snd r) \<rparr>))"

definition phys_delete :: "'b store_env \<Rightarrow> string \<Rightarrow> string \<Rightarrow> 'b store_world \<Rightarrow> store_err option \<times> 'b store_world" where
  "phys_delete env p key w =
     (let r = bo_delete (se_ops env) (sw_phys w p) key in (fst r, w\<lparr> sw_phys := (sw_phys w)(p := snd r) \<rparr>))"

definition blob_key_of :: "'b store_env \<Rightarrow> string \<Rightarrow> string \<Rightarrow> string" where
  "blob_key_of env rn path = se_sha256 env (rn @ '':'' @ path)"

definition blob_key_by_digest :: "string \<Rightarrow> string" where
  "blob_key_by_digest digest = ''digest/'' @ digest"

definition sums_of :: "'b store_env \<Rightarrow> bytes \<Rightarrow> sums" where
  "sums_of env b = \<lparr> sm_sha256 = se_sha256 env b, sm_sha1 = se_sha1 env b, sm_md5 = se_md5 env b \<rparr>"

text \<open>
  The body reaches the backend through a pipe that also hashes and counts it; a backend that accepts
  the put has read it to the end.
\<close>

definition recorded_size :: "'b store_env \<Rightarrow> 'b store_world \<Rightarrow> string \<Rightarrow> string \<Rightarrow> int \<Rightarrow> int" where
  "recorded_size env w p key declared =
     (if declared \<le> 0 then (case bo_size (se_ops env) (sw_phys w p) key of Inl _ \<Rightarrow> declared | Inr s \<Rightarrow> s) else declared)"

definition write_and_register ::
  "'b store_env \<Rightarrow> write_ctx \<Rightarrow> repository \<Rightarrow> string \<Rightarrow> string \<Rightarrow> coords \<Rightarrow> body \<Rightarrow> int \<Rightarrow> string \<Rightarrow>
   string \<Rightarrow> string \<Rightarrow> string \<Rightarrow> 'b store_world \<Rightarrow> (pub_err + asset \<times> sums \<times> int) \<times> 'b store_world" where
  "write_and_register env ctx repo path ct co b declared key store_id store_name p w =
     (case phys_put env p key b declared w of
        (Some e, w1) \<Rightarrow> (Inl (Pe_Blob e), w1)
      | (None, w1) \<Rightarrow>
          (let sm = sums_of env (bd_bytes b);
               written = int (length (bd_bytes b));
               sz = recorded_size env w1 p key declared
           in if declared > 0 \<and> written \<noteq> declared then (Inl Pe_Size_Mismatch, snd (phys_delete env p key w1))
              else case (if sz > 0 \<and> declared \<le> 0 then check_quota w1 repo sz else None) of
                Some e \<Rightarrow> (Inl e, snd (phys_delete env p key w1))
              | None \<Rightarrow>
                  (case register_stored_blob env ctx w1 repo path ct co key sm sz store_id store_name of
                     (Inr a, w2) \<Rightarrow> (Inr (a, sm, sz), w2)
                   | (Inl e, w2) \<Rightarrow>
                       (Inl e, if e = Pe_Quota \<and> count_by_blob_key w2 2 key [] = Some 0
                               then snd (phys_delete env p key w2) else w2))))"

definition store_artifact ::
  "'b store_env \<Rightarrow> write_ctx \<Rightarrow> 'b store_world \<Rightarrow> string \<Rightarrow> string \<Rightarrow> string \<Rightarrow> coords \<Rightarrow> body \<Rightarrow> int \<Rightarrow>
   (pub_err + asset \<times> sums \<times> int) \<times> 'b store_world" where
  "store_artifact env ctx w rn path ct co b declared =
     (case repos_get w rn of
        None \<Rightarrow> (Inl Pe_Repo_Not_Found, w)
      | Some repo \<Rightarrow>
          if \<not> repo_online repo then (Inl Pe_Offline, w)
          else case (if declared > 0 then check_quota w repo declared else None) of
            Some e \<Rightarrow> (Inl e, w)
          | None \<Rightarrow>
              (let key = blob_key_of env rn path
               in case resolve_blob_store env w repo of
                    (Inl e, w1) \<Rightarrow> (Inl e, w1)
                  | (Inr (store_id, store_name, p), w1) \<Rightarrow>
                      (case enforce_write_policy ctx w1 repo path key
                              (write_and_register env ctx repo path ct co b declared key store_id store_name p) of
                         (Inl e, w2) \<Rightarrow> (Inl e, w2)
                       | (Inr r, w2) \<Rightarrow> (Inr r, w2\<lparr> sw_events := sw_events w2 @ [Ev_Published rn path (snd (snd r))] \<rparr>))))"

definition store_pinned_copy ::
  "'b store_env \<Rightarrow> write_ctx \<Rightarrow> 'b store_world \<Rightarrow> repository \<Rightarrow> string \<Rightarrow> string \<Rightarrow> coords \<Rightarrow> bytes \<Rightarrow> asset \<Rightarrow>
   (pub_err + asset) \<times> 'b store_world" where
  "store_pinned_copy env ctx w repo path ct co body pin =
     (case asset_physical_store env w pin of
        (Inl e, w1) \<Rightarrow> (Inl e, w1)
      | (Inr p, w1) \<Rightarrow>
          (let key = blob_key_of env (repo_name repo) path; n = int (length body)
           in case phys_put env p key \<lparr> bd_bytes = body, bd_broken = False \<rparr> n w1 of
                (Some e, w2) \<Rightarrow> (Inl (Pe_Blob e), w2)
              | (None, w2) \<Rightarrow>
                  (case register_stored_blob env ctx w2 repo path ct co key (sums_of env body) n (asset_blob_store_id pin) [] of
                     (Inr a, w3) \<Rightarrow> (Inr a, w3)
                   | (Inl e, w3) \<Rightarrow>
                       (Inl e, if count_by_blob_key w3 3 key [] = Some 0 then snd (phys_delete env p key w3) else w3))))"

section \<open>Reading and deleting\<close>

definition fetch_artifact :: "'b store_env \<Rightarrow> 'b store_world \<Rightarrow> string \<Rightarrow> string \<Rightarrow> (pub_err + bytes \<times> asset) \<times> 'b store_world" where
  "fetch_artifact env w rn path =
     (case assets_by_path w 4 rn path of
        Inl e \<Rightarrow> (Inl e, w)
      | Inr None \<Rightarrow> (Inl Pe_Not_Found, w)
      | Inr (Some a) \<Rightarrow>
          (case asset_physical_store env w a of
             (Inl e, w1) \<Rightarrow> (Inl e, w1)
           | (Inr p, w1) \<Rightarrow>
               (case bo_get (se_ops env) (sw_phys w1 p) (asset_blob_key a) of
                  Inl e \<Rightarrow> (Inl (Pe_Blob e), w1)
                | Inr (c, _) \<Rightarrow> (Inr (c, a), w1\<lparr> sw_downloads := sw_downloads w1 @ [asset_id a] \<rparr>))))"

definition decrement_usage :: "'b store_world \<Rightarrow> asset \<Rightarrow> 'b store_world" where
  "decrement_usage w a =
     (if asset_size a \<le> 0 then w
      else if asset_blob_store_id a = [] then update_used_bytes w ''default'' (- asset_size a)
      else case stores_by_id w 7 (asset_blob_store_id a) of
        None \<Rightarrow> w
      | Some b \<Rightarrow> update_used_bytes w (if bs_name b = [] then ''default'' else bs_name b) (- asset_size a))"

text \<open>\<open>(rowDeleted, freed)\<close> under the blob-key lock: the row goes first, the bytes only if no other row names them.\<close>

definition delete_locked_asset ::
  "'b store_env \<Rightarrow> string \<Rightarrow> string \<Rightarrow> asset \<Rightarrow> string \<Rightarrow> 'b store_world \<Rightarrow> (pub_err + bool \<times> bool) \<times> 'b store_world" where
  "delete_locked_asset env rn path a p w =
     (case assets_by_path w 6 rn path of
        Inl e \<Rightarrow> (Inl e, w)
      | Inr None \<Rightarrow> (Inr (False, False), w)
      | Inr (Some cur) \<Rightarrow>
          if asset_id cur \<noteq> asset_id a \<or> asset_blob_key cur \<noteq> asset_blob_key a \<or> asset_last_modified cur \<noteq> asset_last_modified a
          then (Inr (False, False), w)
          else
            (let others = count_by_blob_key w 4 (asset_blob_key a) (asset_id a)
             in case assets_delete w (asset_id a) of
                  (False, w1) \<Rightarrow> (Inl Pe_Db, w1)
                | (True, w1) \<Rightarrow>
                    if others = Some 0
                    then (let d = phys_delete env p (asset_blob_key a) w1 in (Inr (True, fst d = None), snd d))
                    else (Inr (True, False), w1)))"

definition delete_artifact :: "'b store_env \<Rightarrow> 'b store_world \<Rightarrow> string \<Rightarrow> string \<Rightarrow> (pub_err + unit) \<times> 'b store_world" where
  "delete_artifact env w rn path =
     (case assets_by_path w 5 rn path of
        Inl e \<Rightarrow> (Inl e, w)
      | Inr None \<Rightarrow> (Inr (), w)
      | Inr (Some a) \<Rightarrow>
          (case asset_physical_store env w a of
             (Inl e, w1) \<Rightarrow> (Inl e, w1)
           | (Inr p, w1) \<Rightarrow>
               (case with_lock (asset_blob_key a) (delete_locked_asset env rn path a p) w1 of
                  (Inl e, w2) \<Rightarrow> (Inl e, w2)
                | (Inr (row_deleted, freed), w2) \<Rightarrow>
                    if \<not> row_deleted then (Inr (), w2)
                    else (let w3 = (if freed then decrement_usage w2 a else w2)
                          in (Inr (), w3\<lparr> sw_events := sw_events w3 @ [Ev_Deleted rn path (asset_size a)] \<rparr>)))))"

end
