(* ===== verification/Artifact_Map.thy ===== *)
theory Artifact_Map
  imports Store
begin

text \<open>
  What the artifact store promises: it is a map from (repository, path) to bytes. \<open>content\<close> is that
  abstract view of a \<open>store_world\<close>, \<open>tables_ok\<close> and \<open>registry_ok\<close> are the invariants of the tables and of
  the registry's cache, \<open>intact\<close> says that every row's object is there with the checksum the row
  records. The lemmas are proved once for every backend that satisfies \<open>blob_store_laws\<close>; the
  properties instantiate them with the filesystem backend.
\<close>

section \<open>The abstract view\<close>

definition row_at :: "'b store_world \<Rightarrow> string \<Rightarrow> string \<Rightarrow> asset option" where
  "row_at w rn path = find (\<lambda>a. asset_repository a = rn \<and> asset_path a = path) (sw_assets w)"

text \<open>The physical namespace a store id stands for.\<close>

definition store_space :: "'b store_env \<Rightarrow> 'b store_world \<Rightarrow> string \<Rightarrow> string" where
  "store_space env w i =
     (if trim_space i = [] then rg_default (sw_registry w)
      else case find (\<lambda>d. bd_id d = i) (map descriptor_of (sw_stores w)) of
        None \<Rightarrow> []
      | Some d \<Rightarrow> if se_registry_on env then physical_store_identity (se_azure_url env) d else rg_default (sw_registry w))"

definition row_obj :: "('b \<Rightarrow> string \<Rightarrow> (bytes \<times> time) option) \<Rightarrow> 'b store_env \<Rightarrow> 'b store_world \<Rightarrow> asset \<Rightarrow> (bytes \<times> time) option" where
  "row_obj obj env w a = obj (sw_phys w (store_space env w (asset_blob_store_id a))) (asset_blob_key a)"

definition content :: "('b \<Rightarrow> string \<Rightarrow> (bytes \<times> time) option) \<Rightarrow> 'b store_env \<Rightarrow> 'b store_world \<Rightarrow> string \<Rightarrow> string \<Rightarrow> bytes option" where
  "content obj env w rn path =
     (case row_at w rn path of None \<Rightarrow> None | Some a \<Rightarrow> map_option fst (row_obj obj env w a))"

definition tables_ok :: "'b store_world \<Rightarrow> bool" where
  "tables_ok w \<longleftrightarrow>
     distinct (map asset_id (sw_assets w)) \<and> [] \<notin> set (map asset_id (sw_assets w)) \<and>
     (\<forall>n \<ge> sw_next w. ''id-'' @ itoa (int n) \<notin> set (map asset_id (sw_assets w))) \<and>
     distinct (map (\<lambda>a. (asset_repository a, asset_path a)) (sw_assets w)) \<and>
     (\<forall>r \<in> set (sw_repos w). \<forall>a \<in> set (sw_assets w). repo_id r = asset_repository_id a \<longleftrightarrow> repo_name r = asset_repository a) \<and>
     (\<forall>r \<in> set (sw_repos w). \<forall>r' \<in> set (sw_repos w). repo_id r = repo_id r' \<longleftrightarrow> repo_name r = repo_name r') \<and>
     distinct (map bs_id (sw_stores w)) \<and> [] \<notin> set (map bs_id (sw_stores w)) \<and> distinct (map bs_name (sw_stores w))"

definition registry_ok :: "'b store_env \<Rightarrow> 'b store_world \<Rightarrow> bool" where
  "registry_ok env w \<longleftrightarrow>
     (\<forall>b \<in> set (sw_stores w). \<forall>i. rg_instances (sw_registry w) (bs_id b) = Some i \<longrightarrow>
        i = physical_store_identity (se_azure_url env) (descriptor_of b))"

definition intact ::
  "('b \<Rightarrow> string \<Rightarrow> (bytes \<times> time) option) \<Rightarrow> (string \<Rightarrow> bool) \<Rightarrow> ('b \<Rightarrow> bool) \<Rightarrow> 'b store_env \<Rightarrow> 'b store_world \<Rightarrow> bool" where
  "intact obj valid good env w \<longleftrightarrow>
     (\<forall>p. good (sw_phys w p)) \<and>
     (\<forall>rn path a. row_at w rn path = Some a \<longrightarrow>
        valid (asset_blob_key a) \<and>
        (\<exists>c t. row_obj obj env w a = Some (c, t) \<and> asset_sha256 a = se_sha256 env c))"

text \<open>No other row names the object of this path (a mounted blob would).\<close>

definition key_unshared :: "'b store_world \<Rightarrow> string \<Rightarrow> string \<Rightarrow> string \<Rightarrow> bool" where
  "key_unshared w rn path key \<longleftrightarrow>
     (\<forall>a \<in> set (sw_assets w). asset_blob_key a = key \<longrightarrow> asset_repository a = rn \<and> asset_path a = path)"

definition names_key :: "'b store_world \<Rightarrow> string \<Rightarrow> string \<Rightarrow> string \<Rightarrow> bool" where
  "names_key w rn path key \<longleftrightarrow> (\<exists>a. row_at w rn path = Some a \<and> asset_blob_key a = key)"

section \<open>Frames\<close>

lemma find_map_option: "find P (map f xs) = map_option f (find (\<lambda>x. P (f x)) xs)"
  by (induction xs) simp_all

lemma find_filter_other: "(\<And>x. x \<in> set xs \<Longrightarrow> P x \<Longrightarrow> Q x) \<Longrightarrow> find P (filter Q xs) = find P xs"
  by (induction xs) auto

lemma find_map_same: "(\<And>x. x \<in> set xs \<Longrightarrow> P (f x) = P x) \<Longrightarrow> (\<And>x. x \<in> set xs \<Longrightarrow> P x \<Longrightarrow> f x = x) \<Longrightarrow> find P (map f xs) = find P xs"
  by (induction xs) auto

lemma find_mem: "find P xs = Some x \<Longrightarrow> x \<in> set xs \<and> P x"
  by (auto simp: find_Some_iff)

lemma find_unique:
  "distinct (map f xs) \<Longrightarrow> x \<in> set xs \<Longrightarrow> find (\<lambda>y. f y = f x) xs = Some x"
  by (induction xs) force+

text \<open>Steps that touch nothing but the registry.\<close>

definition registry_step :: "'b store_env \<Rightarrow> 'b store_world \<Rightarrow> 'b store_world \<Rightarrow> bool" where
  "registry_step env w w' \<longleftrightarrow>
     (\<exists>r. w' = w\<lparr> sw_registry := r \<rparr> \<and> rg_default r = rg_default (sw_registry w)) \<and> (registry_ok env w \<longrightarrow> registry_ok env w')"

lemma registry_step_refl [simp]: "registry_step env w w"
  unfolding registry_step_def by (metis store_world.surjective store_world.update_convs(6))

lemma registry_step_trans: "registry_step env w w1 \<Longrightarrow> registry_step env w1 w2 \<Longrightarrow> registry_step env w w2"
  unfolding registry_step_def by auto

lemma registry_step_ok: "registry_step env w w' \<Longrightarrow> registry_ok env w \<Longrightarrow> registry_ok env w'"
  by (simp add: registry_step_def)

lemma registry_step_fields:
  assumes "registry_step env w w'"
  shows "sw_assets w' = sw_assets w" "sw_stores w' = sw_stores w" "sw_phys w' = sw_phys w" "sw_repos w' = sw_repos w"
    "sw_comps w' = sw_comps w" "sw_fail w' = sw_fail w" "sw_next w' = sw_next w" "sw_now w' = sw_now w"
    "sw_events w' = sw_events w" "row_at w' = row_at w" "store_space env w' = store_space env w" "tables_ok w' = tables_ok w"
    "rg_default (sw_registry w') = rg_default (sw_registry w)"
proof -
  obtain r where r: "w' = w\<lparr> sw_registry := r \<rparr>" "rg_default r = rg_default (sw_registry w)"
    using assms by (auto simp: registry_step_def)
  show "sw_assets w' = sw_assets w" "sw_stores w' = sw_stores w" "sw_phys w' = sw_phys w" "sw_repos w' = sw_repos w"
    "sw_comps w' = sw_comps w" "sw_fail w' = sw_fail w" "sw_next w' = sw_next w" "sw_now w' = sw_now w"
    "sw_events w' = sw_events w" "rg_default (sw_registry w') = rg_default (sw_registry w)"
    by (simp_all add: r)
  show "row_at w' = row_at w" by (simp add: r row_at_def fun_eq_iff)
  show "store_space env w' = store_space env w" by (simp add: r store_space_def fun_eq_iff cong: if_cong option.case_cong)
  show "tables_ok w' = tables_ok w" by (simp add: r tables_ok_def)
qed

lemma registry_step_views:
  assumes "registry_step env w w'"
  shows "content obj env w' = content obj env w" "intact obj valid good env w' = intact obj valid good env w"
    "key_unshared w' = key_unshared w"
  using registry_step_fields [OF assms]
  by (auto simp: content_def intact_def row_obj_def key_unshared_def fun_eq_iff split: option.splits)

lemma pick_member_registry:
  "rg_default (snd (pick_member r g p ms)) = rg_default r" "rg_instances (snd (pick_member r g p ms)) = rg_instances r"
  by (simp_all add: pick_member_def Let_def)

lemma resolve_store_ref_step:
  assumes "resolve_store_ref env w repo = (res, w')"
  shows "registry_step env w w'"
proof -
  consider "w' = w" | g p ms where "w' = w\<lparr> sw_registry := snd (pick_member (sw_registry w) g p ms) \<rparr>"
    using assms unfolding resolve_store_ref_def Let_def
    by (auto split: sum.splits if_splits prod.splits option.splits) (metis snd_conv)+
  then show ?thesis
    by cases (auto simp: registry_step_def registry_ok_def pick_member_registry)
qed

lemma tables_ok_stores:
  assumes "tables_ok w"
  shows "distinct (map bs_id (sw_stores w))" "b \<in> set (sw_stores w) \<Longrightarrow> bs_id b \<noteq> []"
    "b \<in> set (sw_stores w) \<Longrightarrow> b' \<in> set (sw_stores w) \<Longrightarrow> bs_id b = bs_id b' \<Longrightarrow> b = b'"
proof -
  show d: "distinct (map bs_id (sw_stores w))" using assms by (simp add: tables_ok_def)
  show "b \<in> set (sw_stores w) \<Longrightarrow> bs_id b \<noteq> []" using assms unfolding tables_ok_def by (metis image_eqI set_map)
  show "b \<in> set (sw_stores w) \<Longrightarrow> b' \<in> set (sw_stores w) \<Longrightarrow> bs_id b = bs_id b' \<Longrightarrow> b = b'"
    using d by (meson distinct_map inj_onD)
qed

lemma registry_get_fresh:
  assumes "registry_get az rc r (descriptor_of b) = (o1, r1)"
  shows "rg_default r1 = rg_default r"
    "bs_id b \<noteq> [] \<Longrightarrow> o1 = Some i \<Longrightarrow> rg_instances r (bs_id b) = Some i \<or> i = physical_store_identity az (descriptor_of b)"
    "rg_instances r1 = rg_instances r \<or> rg_instances r1 = (rg_instances r)(bs_id b \<mapsto> physical_store_identity az (descriptor_of b))"
proof -
  have fresh: "new_from_descriptor az rc (descriptor_of b) = Some i \<Longrightarrow> i = physical_store_identity az (descriptor_of b)" for i
    by (auto simp: new_from_descriptor_def split: if_splits)
  show "rg_default r1 = rg_default r"
    "bs_id b \<noteq> [] \<Longrightarrow> o1 = Some i \<Longrightarrow> rg_instances r (bs_id b) = Some i \<or> i = physical_store_identity az (descriptor_of b)"
    "rg_instances r1 = rg_instances r \<or> rg_instances r1 = (rg_instances r)(bs_id b \<mapsto> physical_store_identity az (descriptor_of b))"
    using assms fresh by (auto simp: registry_get_def descriptor_of_def split: if_splits option.splits)
qed

lemma physical_store_some:
  assumes "physical_store env w (Some b) = (res, w')" "b \<in> set (sw_stores w)" "tables_ok w" "registry_ok env w"
  shows "registry_step env w w' \<and> (\<forall>p. res = Inr p \<longrightarrow> p = store_space env w (bs_id b))"
proof -
  have uniq: "find (\<lambda>x. bs_id x = bs_id b) (sw_stores w) = Some b"
    using tables_ok_stores(1) [OF assms(3)] assms(2) by (rule find_unique)
  have space: "store_space env w (bs_id b) =
      (if trim_space (bs_id b) = [] \<or> \<not> se_registry_on env then rg_default (sw_registry w)
       else physical_store_identity (se_azure_url env) (descriptor_of b))"
    using uniq by (simp add: store_space_def find_map_option descriptor_of_def)
  have ids: "bs_id b \<noteq> []" "\<And>x. x \<in> set (sw_stores w) \<Longrightarrow> bs_id x = bs_id b \<Longrightarrow> x = b"
    using tables_ok_stores [OF assms(3)] assms(2) by blast+
  show ?thesis
  proof (cases "se_registry_on env \<and> trim_space (bs_id b) \<noteq> []")
    case False
    then show ?thesis using assms(1) space by (auto simp: physical_store_def split: if_splits)
  next
    case True
    obtain o1 r1 where g: "registry_get (se_azure_url env) (se_reachable env) (sw_registry w) (descriptor_of b) = (o1, r1)"
      by (cases "registry_get (se_azure_url env) (se_reachable env) (sw_registry w) (descriptor_of b)")
    have cached: "i = physical_store_identity (se_azure_url env) (descriptor_of b)"
      if "rg_instances (sw_registry w) (bs_id b) = Some i" for i
      using assms(2,4) that unfolding registry_ok_def by blast
    have get: "rg_default r1 = rg_default (sw_registry w)"
      "\<And>i. o1 = Some i \<Longrightarrow> i = physical_store_identity (se_azure_url env) (descriptor_of b)"
      "rg_instances r1 = rg_instances (sw_registry w) \<or>
       rg_instances r1 = (rg_instances (sw_registry w))(bs_id b \<mapsto> physical_store_identity (se_azure_url env) (descriptor_of b))"
      using registry_get_fresh [OF g] ids(1) cached by blast+
    have res: "w' = w\<lparr> sw_registry := r1 \<rparr>" "res = (case o1 of None \<Rightarrow> Inl Pe_Unavailable | Some p \<Rightarrow> Inr p)"
      using assms(1) True g by (auto simp: physical_store_def split: option.splits)
    have "registry_ok env w'"
      unfolding registry_ok_def
    proof (intro ballI allI impI)
      fix x i
      assume x: "x \<in> set (sw_stores w')" "rg_instances (sw_registry w') (bs_id x) = Some i"
      show "i = physical_store_identity (se_azure_url env) (descriptor_of x)"
      proof (cases "bs_id x = bs_id b")
        case True
        have xs: "x \<in> set (sw_stores w)" "rg_instances r1 (bs_id b) = Some i" using x True by (simp_all add: res(1))
        have "rg_instances (sw_registry w) (bs_id b) = Some i \<or> i = physical_store_identity (se_azure_url env) (descriptor_of b)"
          using get(3) xs(2) by (elim disjE) simp_all
        then show ?thesis using cached ids(2) [OF xs(1) True] by blast
      next
        case False
        have xs: "x \<in> set (sw_stores w)" "rg_instances r1 (bs_id x) = Some i" using x by (simp_all add: res(1))
        have "rg_instances (sw_registry w) (bs_id x) = Some i"
          using get(3) xs(2) False by (elim disjE) simp_all
        then show ?thesis using assms(4) xs(1) unfolding registry_ok_def by blast
      qed
    qed
    then have "registry_step env w w'" using get(1) res(1) by (auto simp: registry_step_def)
    then show ?thesis using get(2) res(2) space True by (auto split: option.splits)
  qed
qed

lemma asset_physical_store_step:
  assumes "asset_physical_store env w a = (res, w')" "tables_ok w" "registry_ok env w"
  shows "registry_step env w w' \<and> (\<forall>p. res = Inr p \<longrightarrow> p = store_space env w (asset_blob_store_id a))"
proof (cases "trim_space (asset_blob_store_id a) = []")
  case True
  then show ?thesis using assms(1) by (auto simp: asset_physical_store_def store_space_def)
next
  case False
  show ?thesis
  proof (cases "stores_by_id w 3 (asset_blob_store_id a)")
    case None
    then show ?thesis using assms(1) False by (auto simp: asset_physical_store_def)
  next
    case (Some b)
    then have "b \<in> set (sw_stores w)" "bs_id b = asset_blob_store_id a"
      by (auto simp: stores_by_id_def dest!: find_mem split: if_splits)
    then show ?thesis
      using physical_store_some [of env w b res w'] Some assms False by (simp add: asset_physical_store_def)
  qed
qed

lemma resolve_store_obj_mem: "resolve_store_obj w site repo = Inr b \<Longrightarrow> b \<in> set (sw_stores w)"
  by (auto simp: resolve_store_obj_def default_blob_store_def stores_by_id_def dest!: find_mem split: option.splits if_splits list.splits)

lemma resolve_store_ref_id:
  assumes "resolve_store_ref env w repo = (Inr (i, n), w')" "tables_ok w"
  shows "\<exists>b \<in> set (sw_stores w). bs_id b = i \<and> bs_name b = n"
proof -
  obtain b where b: "resolve_store_obj w 1 repo = Inr b" "b \<in> set (sw_stores w)"
    using assms(1) resolve_store_obj_mem by (cases "resolve_store_obj w 1 repo") (auto simp: resolve_store_ref_def)
  show ?thesis
  proof (cases "bs_type b = ''group''")
    case False
    then show ?thesis using assms(1) b by (auto simp: resolve_store_ref_def)
  next
    case True
    define ms where "ms = members_of w (group_member_ids b)"
    have ms: "m \<in> set (sw_stores w)" if "m \<in> set ms" for m
      using that unfolding ms_def members_of_def stores_by_id_def
      by (auto dest!: find_mem [OF sym] split: option.splits if_splits)
    obtain r' where pick: "pick_member (sw_registry w) (bs_id b) (group_fill_policy b) (map member_info_of ms) = (Some i, r')"
      and n: "n = (case find (\<lambda>m. bs_id m = i) ms of Some m \<Rightarrow> bs_name m | None \<Rightarrow> [])"
      using assms(1) b True unfolding resolve_store_ref_def Let_def
      by (auto simp: ms_def split: if_splits prod.splits option.splits)
    have "i \<in> mi_id ` set (rotate_members (rg_rr (sw_registry w) (bs_id b)) (map member_info_of ms)) \<or> i \<in> mi_id ` set (map member_info_of ms)"
      using pick by (auto simp: pick_member_def Let_def dest!: find_mem split: if_splits)
    moreover have "set (rotate_members k xs) \<subseteq> set xs" for k xs
      unfolding rotate_members_def by (cases "xs = []") auto
    ultimately have "i \<in> mi_id ` set (map member_info_of ms)" by blast
    then obtain m where "m \<in> set ms" "bs_id m = i" by (auto simp: member_info_of_def)
    then obtain m' where m': "find (\<lambda>m. bs_id m = i) ms = Some m'"
      by (cases "find (\<lambda>m. bs_id m = i) ms") (auto simp: find_None_iff)
    show ?thesis using n ms [of m'] find_mem [OF m'] m' by auto
  qed
qed

lemma resolve_blob_store_step:
  assumes "resolve_blob_store env w repo = (res, w')" "tables_ok w" "registry_ok env w"
  shows "registry_step env w w' \<and>
         (\<forall>i n p. res = Inr (i, n, p) \<longrightarrow> i \<noteq> [] \<and> p = store_space env w i \<and> (\<exists>b \<in> set (sw_stores w). bs_id b = i \<and> bs_name b = n))"
proof -
  obtain r1 w1 where r: "resolve_store_ref env w repo = (r1, w1)" by (cases "resolve_store_ref env w repo")
  note s1 = resolve_store_ref_step [OF r] and f1 = registry_step_fields [OF resolve_store_ref_step [OF r]]
  have ok1: "tables_ok w1" "registry_ok env w1" using f1(12) registry_step_ok [OF s1] assms(2,3) by simp_all
  show ?thesis
  proof (cases r1)
    case (Inl e)
    then show ?thesis using assms(1) r s1 by (auto simp: resolve_blob_store_def)
  next
    case (Inr x)
    then obtain i n where x: "r1 = Inr (i, n)" by (cases x) auto
    then obtain b0 where b0: "b0 \<in> set (sw_stores w)" "bs_id b0 = i" "bs_name b0 = n"
      using resolve_store_ref_id [of env w repo i n w1] r assms(2) by blast
    have i: "i \<noteq> []" using tables_ok_stores(2) [OF assms(2) b0(1)] b0(2) by simp
    show ?thesis
    proof (cases "stores_by_id w1 2 i")
      case None
      then show ?thesis using assms(1) r x s1 i by (auto simp: resolve_blob_store_def)
    next
      case (Some b)
      then have b: "b \<in> set (sw_stores w1)" "bs_id b = i"
        by (auto simp: stores_by_id_def dest!: find_mem split: if_splits)
      obtain r2 w2 where p: "physical_store env w1 (Some b) = (r2, w2)" by (cases "physical_store env w1 (Some b)")
      note ps = physical_store_some [OF p b(1) ok1]
      have "w' = w2 \<and> res = (case r2 of Inl e \<Rightarrow> Inl e | Inr q \<Rightarrow> Inr (i, n, q))"
        using assms(1) r x i Some p by (auto simp: resolve_blob_store_def split: sum.splits)
      then show ?thesis
        using ps registry_step_trans [OF s1] b(2) b0 i f1(11) by (auto split: sum.splits)
    qed
  qed
qed

section \<open>Registration\<close>

text \<open>What no store operation changes: the repositories, the stores up to their usage, the registry, the clock and the faults.\<close>

definition same_layout :: "'b store_world \<Rightarrow> 'b store_world \<Rightarrow> bool" where
  "same_layout w w' \<longleftrightarrow>
     sw_repos w' = sw_repos w \<and> map (\<lambda>b. b\<lparr> bs_used_bytes := 0 \<rparr>) (sw_stores w') = map (\<lambda>b. b\<lparr> bs_used_bytes := 0 \<rparr>) (sw_stores w) \<and>
     sw_registry w' = sw_registry w \<and> sw_now w' = sw_now w \<and> sw_fail w' = sw_fail w \<and> sw_next w \<le> sw_next w'"

lemma same_layout_refl [simp]: "same_layout w w" by (simp add: same_layout_def)

lemma same_layout_trans: "same_layout w w1 \<Longrightarrow> same_layout w1 w2 \<Longrightarrow> same_layout w w2"
  by (auto simp: same_layout_def)

lemma map_stores_from_layout:
  assumes "same_layout w w'" "\<And>b. f (b\<lparr> bs_used_bytes := 0 \<rparr>) = f b"
  shows "map f (sw_stores w') = map f (sw_stores w)"
proof -
  have "map f xs = map f (map (\<lambda>b. b\<lparr> bs_used_bytes := 0 \<rparr>) xs)" for xs by (simp add: assms(2))
  then show ?thesis using assms(1) by (metis same_layout_def)
qed

lemma same_layout_space: "same_layout w w' \<Longrightarrow> store_space env w' = store_space env w"
  using map_stores_from_layout [of w w' descriptor_of]
  by (simp add: store_space_def fun_eq_iff same_layout_def descriptor_of_def cong: if_cong option.case_cong)

lemma same_layout_registry_ok:
  assumes "same_layout w w'"
  shows "registry_ok env w' = registry_ok env w"
proof -
  have eq: "registry_ok env v \<longleftrightarrow> (\<forall>d \<in> set (map descriptor_of (sw_stores v)). \<forall>i. rg_instances (sw_registry v) (bd_id d) = Some i \<longrightarrow>
      i = physical_store_identity (se_azure_url env) d)" for v
    by (simp add: registry_ok_def descriptor_of_def)
  have "map descriptor_of (sw_stores w') = map descriptor_of (sw_stores w)"
    by (rule map_stores_from_layout [OF assms]) (simp add: descriptor_of_def)
  moreover have "sw_registry w' = sw_registry w" using assms by (simp add: same_layout_def)
  ultimately show ?thesis unfolding eq by metis
qed

lemma update_used_bytes_layout:
  "same_layout w (update_used_bytes w n d)" "sw_assets (update_used_bytes w n d) = sw_assets w"
  "sw_phys (update_used_bytes w n d) = sw_phys w"
  by (simp_all add: update_used_bytes_def same_layout_def)

lemma components_create_layout:
  assumes "components_create w c = (res, w')"
  shows "same_layout w w'" "sw_assets w' = sw_assets w" "sw_phys w' = sw_phys w" "sw_stores w' = sw_stores w"
  using assms by (auto simp: components_create_def same_layout_def Let_def split: if_splits option.splits)

lemma tables_ok_frame:
  assumes "tables_ok w" "same_layout w w'" "sw_assets w' = sw_assets w"
  shows "tables_ok w'"
proof -
  have "map bs_id (sw_stores w') = map bs_id (sw_stores w)" "map bs_name (sw_stores w') = map bs_name (sw_stores w)"
    by (rule map_stores_from_layout [OF assms(2)], simp)+
  then show ?thesis using assms unfolding tables_ok_def same_layout_def by auto
qed

lemma row_at_frame: "sw_assets w' = sw_assets w \<Longrightarrow> row_at w' = row_at w"
  by (simp add: row_at_def fun_eq_iff)

text \<open>The row a registration leaves behind.\<close>

definition row_of :: "asset \<Rightarrow> asset \<Rightarrow> bool" where
  "row_of a r \<longleftrightarrow>
     asset_blob_store_id r = asset_blob_store_id a \<and> asset_blob_key r = asset_blob_key a \<and>
     asset_size r = asset_size a \<and> asset_sha256 r = asset_sha256 a"

lemma find_map_preserve:
  "(\<And>x. P (f x) = P x) \<Longrightarrow> find P (map f xs) = map_option f (find P xs)"
  by (induction xs) simp_all

lemma find_append: "find P (xs @ ys) = (case find P xs of None \<Rightarrow> find P ys | Some x \<Rightarrow> Some x)"
  by (induction xs) simp_all

lemma tables_ok_map:
  assumes "tables_ok w" "\<And>x. asset_id (f x) = asset_id x" "\<And>x. asset_repository (f x) = asset_repository x"
    "\<And>x. asset_repository_id (f x) = asset_repository_id x" "\<And>x. asset_path (f x) = asset_path x"
  shows "tables_ok (w\<lparr> sw_assets := map f (sw_assets w) \<rparr>)"
  using assms unfolding tables_ok_def by (simp add: comp_def image_image)

lemma fresh_id_inj: "''id-'' @ itoa (int m) = ''id-'' @ itoa (int n) \<Longrightarrow> m = n"
proof -
  assume "''id-'' @ itoa (int m) = ''id-'' @ itoa (int n)"
  then have "nat_digits m = nat_digits n" by (simp add: itoa_def)
  then have "Some (int m) = Some (int n)" by (metis digits_val_nat_digits)
  then show "m = n" by simp
qed

lemma tables_ok_append:
  assumes "tables_ok w" "row_at w (asset_repository a) (asset_path a) = None" "asset_id a = fresh_id w"
    "\<And>r. r \<in> set (sw_repos w) \<Longrightarrow> repo_id r = asset_repository_id a \<longleftrightarrow> repo_name r = asset_repository a"
  shows "tables_ok (w\<lparr> sw_assets := sw_assets w @ [a], sw_next := Suc (sw_next w) \<rparr>)"
proof -
  have "fresh_id w \<notin> set (map asset_id (sw_assets w))" using assms(1) by (simp add: tables_ok_def fresh_id_def)
  moreover have "''id-'' @ itoa (int n) \<noteq> fresh_id w" if "Suc (sw_next w) \<le> n" for n
    using fresh_id_inj [of n "sw_next w"] that by (auto simp: fresh_id_def)
  moreover have "(asset_repository a, asset_path a) \<notin> set (map (\<lambda>a. (asset_repository a, asset_path a)) (sw_assets w))"
    using assms(2) by (auto simp: row_at_def find_None_iff)
  moreover have "fresh_id w \<noteq> []" by (simp add: fresh_id_def)
  ultimately show ?thesis using assms(1,3,4) unfolding tables_ok_def by simp
qed

lemma assets_create_ok:
  assumes c: "assets_create w a = (Some a', w')" and ok: "tables_ok w" and repo: "repo \<in> set (sw_repos w)"
    and a: "asset_repository_id a = repo_id repo" "asset_repository a = repo_name repo"
  shows "tables_ok w'" "same_layout w w'" "sw_phys w' = sw_phys w" "sw_stores w' = sw_stores w"
    "(rn, path) \<noteq> (repo_name repo, asset_path a) \<Longrightarrow> row_at w' rn path = row_at w rn path"
    "\<exists>r. row_at w' (repo_name repo) (asset_path a) = Some r \<and> row_of a r"
proof -
  let ?P = "\<lambda>x. asset_repository_id x = asset_repository_id a \<and> asset_path x = asset_path a"
  have ids: "asset_repository_id x = repo_id repo \<longleftrightarrow> asset_repository x = repo_name repo" if "x \<in> set (sw_assets w)" for x
    using ok repo that unfolding tables_ok_def by metis
  have same: "find ?P (sw_assets w) = row_at w (repo_name repo) (asset_path a)"
    unfolding row_at_def by (rule find_cong) (auto simp: a ids)
  have nofail: "\<not> sw_fail w S_Asset_Create" using c by (auto simp: assets_create_def split: if_splits)
  have "tables_ok w' \<and> same_layout w w' \<and> sw_phys w' = sw_phys w \<and> sw_stores w' = sw_stores w \<and>
     ((rn, path) \<noteq> (repo_name repo, asset_path a) \<longrightarrow> row_at w' rn path = row_at w rn path) \<and>
     (\<exists>r. row_at w' (repo_name repo) (asset_path a) = Some r \<and> row_of a r)"
  proof (cases "row_at w (repo_name repo) (asset_path a)")
    case (Some old)
    let ?f = "\<lambda>x. if ?P x then replace_asset a (sw_now w) x else x"
    have w': "w' = w\<lparr> sw_assets := map ?f (sw_assets w) \<rparr>"
      using c Some nofail same by (simp add: assets_create_def)
    define f where "f = ?f"
    have keep: "asset_id (f x) = asset_id x" "asset_repository (f x) = asset_repository x"
      "asset_repository_id (f x) = asset_repository_id x" "asset_path (f x) = asset_path x" for x
      by (simp_all add: f_def replace_asset_def)
    have w'': "w' = w\<lparr> sw_assets := map f (sw_assets w) \<rparr>" using w' by (simp add: f_def)
    have "tables_ok w'" unfolding w'' by (rule tables_ok_map [OF ok keep])
    moreover have map: "row_at w' rn path = map_option f (row_at w rn path)" for rn path
      by (simp add: w'' row_at_def keep find_map_preserve)
    moreover have "row_at w' rn path = row_at w rn path" if "(rn, path) \<noteq> (repo_name repo, asset_path a)"
    proof (cases "row_at w rn path")
      case (Some x)
      then have x: "x \<in> set (sw_assets w)" "asset_repository x = rn" "asset_path x = path"
        by (auto simp: row_at_def dest: find_mem)
      then have "f x = x" using that a(1) ids [OF x(1)] by (auto simp: f_def)
      then show ?thesis using map Some by simp
    qed (simp add: map)
    moreover have "row_of a (f old)"
    proof -
      have "?P old" using Some same find_mem [of ?P "sw_assets w" old] by simp
      then show ?thesis by (simp add: f_def row_of_def replace_asset_def)
    qed
    ultimately show ?thesis using Some by (simp add: w'' same_layout_def)
  next
    case None
    define new where "new = a\<lparr> asset_id := fresh_id w, asset_created_at := sw_now w, asset_last_modified := sw_now w \<rparr>"
    have w': "w' = w\<lparr> sw_assets := sw_assets w @ [new], sw_next := Suc (sw_next w) \<rparr>"
      using c None nofail same by (auto simp: assets_create_def Let_def new_def)
    have repos: "repo_id r = asset_repository_id new \<longleftrightarrow> repo_name r = asset_repository new" if "r \<in> set (sw_repos w)" for r
      using ok repo that a unfolding tables_ok_def new_def by simp
    have "tables_ok w'" unfolding w'
      by (rule tables_ok_append [OF ok _ _ repos]) (use None a in \<open>simp_all add: new_def\<close>)
    then show ?thesis
      using None a by (auto simp: w' same_layout_def row_at_def find_append row_of_def new_def split: option.splits)
  qed
  then show "tables_ok w'" "same_layout w w'" "sw_phys w' = sw_phys w" "sw_stores w' = sw_stores w"
    "(rn, path) \<noteq> (repo_name repo, asset_path a) \<Longrightarrow> row_at w' rn path = row_at w rn path"
    "\<exists>r. row_at w' (repo_name repo) (asset_path a) = Some r \<and> row_of a r"
    by blast+
qed

lemma register_locked_cases:
  assumes r: "register_locked repo sid sname c a prev w = (res, w')" and ok: "tables_ok w" and repo: "repo \<in> set (sw_repos w)"
    and a: "asset_repository_id a = repo_id repo" "asset_repository a = repo_name repo"
  shows "tables_ok w' \<and> same_layout w w' \<and> sw_phys w' = sw_phys w \<and>
     (case res of Inl e \<Rightarrow> sw_assets w' = sw_assets w \<and> sw_stores w' = sw_stores w
      | Inr _ \<Rightarrow> (\<forall>rn path. (rn, path) \<noteq> (repo_name repo, asset_path a) \<longrightarrow> row_at w' rn path = row_at w rn path) \<and>
                (\<exists>r. row_at w' (repo_name repo) (asset_path a) = Some r \<and> row_of a r))"
proof -
  define delta where "delta = usage_delta w (case prev of None \<Rightarrow> a | Some p \<Rightarrow> a\<lparr> asset_id := asset_id p \<rparr>) prev"
  have unfold: "register_locked repo sid sname c a prev w =
      (case (if delta > 0 then quota_headroom w repo sid delta else None) of
         Some e \<Rightarrow> (Inl e, w)
       | None \<Rightarrow>
           (case components_create w c of
              (None, w1) \<Rightarrow> (Inl Pe_Db, w1)
            | (Some c', w1) \<Rightarrow>
                (case assets_create w1 (a\<lparr> asset_component_id := comp_id c' \<rparr>) of
                   (None, w2) \<Rightarrow> (Inl Pe_Db, w2)
                 | (Some a', w2) \<Rightarrow>
                     (Inr (c', a'), if delta \<noteq> 0 then update_used_bytes w2 sname delta else w2))))"
    by (simp only: register_locked_def delta_def Let_def)
  show ?thesis
  proof (cases "if delta > 0 then quota_headroom w repo sid delta else None")
    case (Some e)
    then show ?thesis using r ok by (auto simp: unfold)
  next
    case None
    note q = None
    obtain oc w1 where c: "components_create w c = (oc, w1)" by (cases "components_create w c")
    note l1 = components_create_layout [OF c]
    have ok1: "tables_ok w1" by (rule tables_ok_frame [OF ok l1(1,2)])
    show ?thesis
    proof (cases oc)
      case None
      then show ?thesis using r q c l1 ok1 by (auto simp: unfold)
    next
      case (Some c')
      define a1 where "a1 = a\<lparr> asset_component_id := comp_id c' \<rparr>"
      have a1: "asset_repository_id a1 = repo_id repo" "asset_repository a1 = repo_name repo" "asset_path a1 = asset_path a" "row_of a1 = row_of a"
        using a by (simp_all add: a1_def row_of_def fun_eq_iff)
      have repo1: "repo \<in> set (sw_repos w1)" using repo l1(1) by (simp add: same_layout_def)
      obtain oa w2 where ac: "assets_create w1 a1 = (oa, w2)" by (cases "assets_create w1 a1")
      show ?thesis
      proof (cases oa)
        case None
        have "w2 = w1" using ac None by (auto simp: assets_create_def Let_def split: if_splits option.splits)
        then show ?thesis using r q c Some ac None l1 ok1 by (auto simp: unfold a1_def)
      next
        case (Some a')
        note ok2 = assets_create_ok [OF ac [unfolded Some] ok1 repo1 a1(1,2)]
        define w3 where "w3 = (if delta \<noteq> 0 then update_used_bytes w2 sname delta else w2)"
        have w': "w' = w3" "res = Inr (c', a')"
          using r q c \<open>oc = Some c'\<close> ac Some by (simp_all add: unfold a1_def w3_def Let_def)
        have w3: "same_layout w2 w3" "sw_assets w3 = sw_assets w2" "sw_phys w3 = sw_phys w2"
          by (simp_all add: w3_def update_used_bytes_layout)
        have "row_at w' rn path = row_at w rn path" if "(rn, path) \<noteq> (repo_name repo, asset_path a)" for rn path
          using ok2(5) [of rn path] that row_at_frame [OF w3(2)] row_at_frame [OF l1(2)] by (simp add: w' a1)
        moreover have "\<exists>r. row_at w' (repo_name repo) (asset_path a) = Some r \<and> row_of a r"
          using ok2(6) row_at_frame [OF w3(2)] by (simp add: w' a1)
        moreover have "tables_ok w'" using tables_ok_frame [OF ok2(1) w3(1,2)] by (simp add: w')
        moreover have "same_layout w w'" using same_layout_trans l1(1) ok2(2) w3(1) w' by blast
        ultimately show ?thesis using ok2(3) w3(3) l1(3) w' by simp
      qed
    qed
  qed
qed

text \<open>What a lock can make of a callback: refuse it, pass it on, or hide its success.\<close>

definition lock_outcome :: "(pub_err + 'a) \<times> 'b store_world \<Rightarrow> (pub_err + 'a) \<times> 'b store_world \<Rightarrow> 'b store_world \<Rightarrow> bool" where
  "lock_outcome r f w \<longleftrightarrow> r = (Inl Pe_Db, w) \<or> r = f \<or> (\<exists>x. fst f = Inr x \<and> r = (Inl Pe_Db, snd f))"

lemma with_lock_outcome: "lock_outcome (with_lock k f w) (f w) w"
  by (auto simp: lock_outcome_def with_lock_def split: prod.split sum.split)

lemma lock_outcome_trans: "lock_outcome r f w \<Longrightarrow> lock_outcome f g w \<Longrightarrow> lock_outcome r g w"
  by (auto simp: lock_outcome_def)

lemma lock_outcome_refl [simp]: "lock_outcome f f w"
  by (simp add: lock_outcome_def)

lemma lock_outcome_cases:
  assumes "lock_outcome r f w"
  obtains (refused) "r = (Inl Pe_Db, w)" | (passed) "r = f" | (hidden) x where "fst f = Inr x" "r = (Inl Pe_Db, snd f)"
  using assms by (auto simp: lock_outcome_def)

lemma register_run_outcome:
  fixes w :: "'b store_world"
  shows "lock_outcome (register_run repo sid sname c a prev w) (register_locked repo sid sname c a prev w) w"
proof -
  let ?reg = "register_locked repo sid sname c a prev"
  define run1 :: "'b store_world \<Rightarrow> (pub_err + component \<times> asset) \<times> 'b store_world"
    where "run1 = (if repo_quota_bytes repo \<noteq> None then with_lock (''quota:repo:'' @ repo_name repo) ?reg else ?reg)"
  have "lock_outcome (run1 w) (?reg w) w" using with_lock_outcome by (auto simp: run1_def)
  moreover have "lock_outcome (register_run repo sid sname c a prev w) (run1 w) w"
    unfolding register_run_def Let_def run1_def [symmetric]
    by (cases "store_quota_configured w repo sid") (simp_all only: if_True if_False with_lock_outcome lock_outcome_refl)
  ultimately show ?thesis by (metis lock_outcome_trans)
qed

lemma notify_frame:
  "sw_assets (queue_for_scanning c (notify_published ctx repo c path co w)) = sw_assets w"
  "sw_phys (queue_for_scanning c (notify_published ctx repo c path co w)) = sw_phys w"
  "sw_stores (queue_for_scanning c (notify_published ctx repo c path co w)) = sw_stores w"
  "same_layout w (queue_for_scanning c (notify_published ctx repo c path co w))"
  by (simp_all add: queue_for_scanning_def notify_published_def same_layout_def)

text \<open>What one registration does to the rows.\<close>

definition registered :: "asset \<Rightarrow> string \<Rightarrow> string \<Rightarrow> 'b store_world \<Rightarrow> 'b store_world \<Rightarrow> bool" where
  "registered a rn path w w' \<longleftrightarrow>
     (\<forall>rn' path'. (rn', path') \<noteq> (rn, path) \<longrightarrow> row_at w' rn' path' = row_at w rn' path') \<and>
     (\<exists>r. row_at w' rn path = Some r \<and> row_of a r)"

lemma register_stored_cases:
  assumes r: "register_stored_blob env ctx w repo path ct co key sm sz sid sname = (res, w')"
    and sid: "sid \<noteq> []" and ok: "tables_ok w" and repo: "repo \<in> set (sw_repos w)"
  shows "tables_ok w'" "same_layout w w'" "sw_phys w' = sw_phys w"
    "res = Inl e \<Longrightarrow> sw_assets w' = sw_assets w \<and> sw_stores w' = sw_stores w \<or>
       e = Pe_Db \<and> registered (asset_for ctx repo path ct sid key sm sz) (repo_name repo) path w w'"
    "res = Inr x \<Longrightarrow> registered (asset_for ctx repo path ct sid key sm sz) (repo_name repo) path w w'"
proof -
  let ?a = "asset_for ctx repo path ct sid key sm sz"
  obtain name c prev res1 w1 where run: "register_run repo sid name c ?a prev w = (res1, w1)"
    and res: "res = (case res1 of Inl e \<Rightarrow> Inl e | Inr (c', a') \<Rightarrow> Inr a')"
    and w': "w' = (case res1 of Inl e \<Rightarrow> w1 | Inr (c', a') \<Rightarrow> queue_for_scanning c' (notify_published ctx repo c' path co w1))"
  proof -
    define name where "name = (if sname = [] then (case stores_by_id w 6 sid of None \<Rightarrow> [] | Some b \<Rightarrow> bs_name b) else sname)"
    define prev where "prev = (case assets_by_path w 3 (repo_name repo) path of Inl _ \<Rightarrow> None | Inr p \<Rightarrow> p)"
    define c0 where "c0 = component_for repo path co"
    define c where "c = (if content_replaced w c0 prev (sm_sha256 sm) then c0\<lparr> comp_extra := Some Map.empty \<rparr> else c0)"
    obtain res1 w1 where run: "register_run repo sid name c ?a prev w = (res1, w1)"
      by (cases "register_run repo sid name c ?a prev w")
    have "(res, w') = (case (res1, w1) of
        (Inl e, w') \<Rightarrow> (Inl e, w')
      | (Inr (c', a'), w') \<Rightarrow> (Inr a', queue_for_scanning c' (notify_published ctx repo c' path co w')))"
      using r sid unfolding run [symmetric] name_def prev_def c0_def c_def register_stored_blob_def Let_def by simp
    then show thesis using run by (intro that [of name c prev res1 w1]) (auto split: sum.splits prod.splits)
  qed
  obtain res0 w0 where reg: "register_locked repo sid name c ?a prev w = (res0, w0)" by (cases "register_locked repo sid name c ?a prev w")
  have w0: "tables_ok w0 \<and> same_layout w w0 \<and> sw_phys w0 = sw_phys w \<and>
     (case res0 of Inl e \<Rightarrow> sw_assets w0 = sw_assets w \<and> sw_stores w0 = sw_stores w
      | Inr _ \<Rightarrow> registered ?a (repo_name repo) path w w0)"
    using register_locked_cases [OF reg ok repo] unfolding registered_def by (simp add: asset_for_def split: sum.splits)
  have w1: "tables_ok w1 \<and> same_layout w w1 \<and> sw_phys w1 = sw_phys w \<and>
     (case res1 of Inl e \<Rightarrow> sw_assets w1 = sw_assets w \<and> sw_stores w1 = sw_stores w \<or> e = Pe_Db \<and> registered ?a (repo_name repo) path w w1
      | Inr _ \<Rightarrow> registered ?a (repo_name repo) path w w1)"
    using register_run_outcome [of repo sid name c ?a prev w, unfolded run reg]
    by (cases rule: lock_outcome_cases) (use w0 ok in \<open>auto split: sum.splits\<close>)
  have next1: "same_layout w1 w'" "sw_assets w' = sw_assets w1" "sw_phys w' = sw_phys w1" "sw_stores w' = sw_stores w1"
    unfolding w' by (simp_all add: notify_frame split: sum.split prod.split)
  show "tables_ok w'" using tables_ok_frame next1 w1 by blast
  show "same_layout w w'" using same_layout_trans next1(1) w1 by blast
  show "sw_phys w' = sw_phys w" using next1 w1 by simp
  have fwd: "registered ?a (repo_name repo) path w w1 \<Longrightarrow> registered ?a (repo_name repo) path w w'"
    using row_at_frame [OF next1(2)] by (simp add: registered_def)
  show "sw_assets w' = sw_assets w \<and> sw_stores w' = sw_stores w \<or> e = Pe_Db \<and> registered ?a (repo_name repo) path w w'"
    if "res = Inl e"
  proof -
    have "res1 = Inl e" using that res by (auto split: sum.splits)
    then show ?thesis using w1 next1 fwd by auto
  qed
  show "registered ?a (repo_name repo) path w w'" if "res = Inr x"
    using that w1 res fwd by (auto split: sum.splits)
qed

lemma row_at_mem: "row_at w rn path = Some a \<Longrightarrow> a \<in> set (sw_assets w) \<and> asset_repository a = rn \<and> asset_path a = path"
  by (auto simp: row_at_def dest: find_mem)

lemma row_at_self:
  assumes "tables_ok w" "a \<in> set (sw_assets w)"
  shows "row_at w (asset_repository a) (asset_path a) = Some a"
proof -
  have "distinct (map (\<lambda>a. (asset_repository a, asset_path a)) (sw_assets w))" using assms(1) by (simp add: tables_ok_def)
  from find_unique [OF this assms(2)] show ?thesis by (simp add: row_at_def)
qed

lemma asset_id_unique:
  "tables_ok w \<Longrightarrow> a \<in> set (sw_assets w) \<Longrightarrow> x \<in> set (sw_assets w) \<Longrightarrow> asset_id x = asset_id a \<Longrightarrow> x = a"
  unfolding tables_ok_def by (meson distinct_map inj_onD)

lemma tables_ok_static:
  assumes "tables_ok w"
  shows "\<forall>r \<in> set (sw_repos w). \<forall>r' \<in> set (sw_repos w). repo_id r = repo_id r' \<longleftrightarrow> repo_name r = repo_name r'"
    "distinct (map bs_id (sw_stores w))" "[] \<notin> set (map bs_id (sw_stores w))" "distinct (map bs_name (sw_stores w))"
  using assms unfolding tables_ok_def by (blast, blast, blast, blast)

text \<open>Deleting one row.\<close>

lemma delete_row:
  assumes ok: "tables_ok w" and a: "row_at w rn path = Some a"
    and w': "sw_assets w' = filter (\<lambda>x. asset_id x \<noteq> asset_id a) (sw_assets w)" "same_layout w w'"
  shows "tables_ok w'" "row_at w' rn path = None" "(rn', path') \<noteq> (rn, path) \<Longrightarrow> row_at w' rn' path' = row_at w rn' path'"
proof -
  note m = row_at_mem [OF a]
  have "map bs_id (sw_stores w') = map bs_id (sw_stores w)" "map bs_name (sw_stores w') = map bs_name (sw_stores w)"
    by (rule map_stores_from_layout [OF w'(2)], simp)+
  moreover have "distinct (map asset_id (sw_assets w'))" "distinct (map (\<lambda>a. (asset_repository a, asset_path a)) (sw_assets w'))"
    using ok by (simp_all add: tables_ok_def w'(1) distinct_map_filter)
  moreover have sub: "set (sw_assets w') \<subseteq> set (sw_assets w)" by (simp add: w'(1))
  moreover have "sw_next w \<le> sw_next w'" "sw_repos w' = sw_repos w" using w'(2) by (simp_all add: same_layout_def)
  moreover have "[] \<notin> set (map asset_id (sw_assets w'))" using ok sub unfolding tables_ok_def by auto
  moreover have "''id-'' @ itoa (int n) \<notin> set (map asset_id (sw_assets w'))" if "sw_next w' \<le> n" for n
  proof -
    have "''id-'' @ itoa (int n) \<notin> set (map asset_id (sw_assets w))"
      using ok that \<open>sw_next w \<le> sw_next w'\<close> unfolding tables_ok_def by (meson le_trans)
    then show ?thesis using sub by auto
  qed
  moreover have "repo_id r = asset_repository_id x \<longleftrightarrow> repo_name r = asset_repository x"
    if "r \<in> set (sw_repos w)" "x \<in> set (sw_assets w')" for r x
    using ok that sub unfolding tables_ok_def by blast
  moreover note tables_ok_static [OF ok]
  ultimately show "tables_ok w'"
    unfolding tables_ok_def by (intro conjI ballI allI impI) simp_all
  show "row_at w' rn path = None"
    using row_at_self [OF ok] a by (fastforce simp: row_at_def find_None_iff w'(1))
  show "row_at w' rn' path' = row_at w rn' path'" if "(rn', path') \<noteq> (rn, path)"
    unfolding row_at_def w'(1)
  proof (rule find_filter_other)
    fix x assume x: "x \<in> set (sw_assets w)" "asset_repository x = rn' \<and> asset_path x = path'"
    then show "asset_id x \<noteq> asset_id a" using asset_id_unique [OF ok _ x(1), of a] m that by auto
  qed
qed

lemma decrement_usage_frame:
  "same_layout w (decrement_usage w a)" "sw_assets (decrement_usage w a) = sw_assets w" "sw_phys (decrement_usage w a) = sw_phys w"
  by (simp_all add: decrement_usage_def update_used_bytes_layout split: option.split)

section \<open>Writing, over any backend\<close>

text \<open>At most the object \<open>key\<close> of the namespace \<open>p\<close> differs.\<close>

definition touches ::
  "('b \<Rightarrow> string \<Rightarrow> (bytes \<times> time) option) \<Rightarrow> (string \<Rightarrow> bool) \<Rightarrow> ('b \<Rightarrow> bool) \<Rightarrow> string \<Rightarrow> string \<Rightarrow>
   'b store_world \<Rightarrow> 'b store_world \<Rightarrow> bool" where
  "touches obj valid good p key w w' \<longleftrightarrow>
     (\<forall>q. good (sw_phys w' q)) \<and>
     (\<forall>q k. valid k \<longrightarrow> (q, k) \<noteq> (p, key) \<longrightarrow> obj (sw_phys w' q) k = obj (sw_phys w q) k)"

lemma touches_refl: "(\<And>q. good (sw_phys w q)) \<Longrightarrow> touches obj valid good p key w w"
  by (simp add: touches_def)

lemma touches_trans: "touches obj valid good p key w w1 \<Longrightarrow> touches obj valid good p key w1 w2 \<Longrightarrow> touches obj valid good p key w w2"
  by (simp add: touches_def)

lemma touches_frame:
  "touches obj valid good p key w w1 \<Longrightarrow> sw_phys w' = sw_phys w1 \<Longrightarrow> touches obj valid good p key w w'"
  by (simp add: touches_def)

lemma enforce_cases:
  "(\<exists>e. enforce_write_policy ctx w repo path key write = (Inl e, w)) \<or>
   lock_outcome (enforce_write_policy ctx w repo path key write) (write w) w"
proof -
  let ?f = "\<lambda>w. case asset_absent w 2 repo path of Some e \<Rightarrow> (Inl e, w) | None \<Rightarrow> write w"
  have "(\<exists>e. with_lock key ?f w = (Inl e, w)) \<or> lock_outcome (with_lock key ?f w) (write w) w"
    by (auto simp: with_lock_def lock_outcome_def split: prod.split sum.split option.split)
  then show ?thesis
    unfolding enforce_write_policy_def by (auto split: prod.split option.split)
qed

text \<open>What an upload that got through leaves behind.\<close>

definition landed ::
  "('b \<Rightarrow> string \<Rightarrow> (bytes \<times> time) option) \<Rightarrow> 'b store_env \<Rightarrow> string \<Rightarrow> string \<Rightarrow> string \<Rightarrow> string \<Rightarrow> string \<Rightarrow> body \<Rightarrow> int \<Rightarrow> int \<Rightarrow>
   'b store_world \<Rightarrow> 'b store_world \<Rightarrow> bool" where
  "landed obj env rn path sid p key b declared sz w w' \<longleftrightarrow>
     \<not> bd_broken b \<and> map_option fst (obj (sw_phys w' p) key) = Some (bd_bytes b) \<and>
     (sz = int (length (bd_bytes b)) \<or> sz = declared \<and> declared \<le> 0) \<and>
     (\<forall>rn' path'. (rn', path') \<noteq> (rn, path) \<longrightarrow> row_at w' rn' path' = row_at w rn' path') \<and>
     (\<exists>r. row_at w' rn path = Some r \<and> asset_blob_store_id r = sid \<and> asset_blob_key r = key \<and>
          asset_size r = sz \<and> asset_sha256 r = se_sha256 env (bd_bytes b))"

lemma landed_frame:
  assumes "landed obj env rn path sid p key b declared sz w1 w2" "row_at w1 = row_at w" "sw_assets w' = sw_assets w2" "sw_phys w' = sw_phys w2"
  shows "landed obj env rn path sid p key b declared sz w w'"
  using assms row_at_frame [OF assms(3)] by (simp add: landed_def)

text \<open>The row of a path is gone, every other row and its object are as they were.\<close>

definition removed ::
  "('b \<Rightarrow> string \<Rightarrow> (bytes \<times> time) option) \<Rightarrow> (string \<Rightarrow> bool) \<Rightarrow> 'b store_env \<Rightarrow> string \<Rightarrow> string \<Rightarrow>
   'b store_world \<Rightarrow> 'b store_world \<Rightarrow> bool" where
  "removed obj valid env rn path w w' \<longleftrightarrow>
     row_at w' rn path = None \<and>
     (\<forall>rn' path'. (rn', path') \<noteq> (rn, path) \<longrightarrow> row_at w' rn' path' = row_at w rn' path' \<and>
        (\<forall>x. row_at w rn' path' = Some x \<longrightarrow> valid (asset_blob_key x) \<longrightarrow> row_obj obj env w' x = row_obj obj env w x))"

lemma write_and_register_after_put:
  assumes "phys_put env p key b declared w = (None, w1)"
  defines "sz \<equiv> recorded_size env w1 p key declared"
  shows "write_and_register env ctx repo path ct co b declared key sid sname p w =
      (if declared > 0 \<and> int (length (bd_bytes b)) \<noteq> declared then (Inl Pe_Size_Mismatch, snd (phys_delete env p key w1))
       else case (if sz > 0 \<and> declared \<le> 0 then check_quota w1 repo sz else None) of
         Some e \<Rightarrow> (Inl e, snd (phys_delete env p key w1))
       | None \<Rightarrow>
           (case register_stored_blob env ctx w1 repo path ct co key (sums_of env (bd_bytes b)) sz sid sname of
              (Inr a, w2) \<Rightarrow> (Inr (a, sums_of env (bd_bytes b), sz), w2)
            | (Inl e, w2) \<Rightarrow>
                (Inl e, if e = Pe_Quota \<and> count_by_blob_key w2 2 key [] = Some 0
                        then snd (phys_delete env p key w2) else w2)))"
  by (simp only: write_and_register_def assms(1) option.case prod.case Let_def sz_def)

context blob_store_laws
begin

lemma phys_put_touches:
  assumes "phys_put env p key b n w = (r, w')" "se_ops env = ops" "\<And>q. good (sw_phys w q)" "valid key"
  shows "touches obj valid good p key w w'" "w' = w\<lparr> sw_phys := sw_phys w' \<rparr>"
    "r = None \<Longrightarrow> \<not> bd_broken b \<and> map_option fst (obj (sw_phys w' p) key) = Some (bd_bytes b)"
    "r = Some e \<Longrightarrow> valid k \<Longrightarrow> obj (sw_phys w' q) k = obj (sw_phys w q) k"
proof -
  obtain r1 s1 where put: "bo_put ops (sw_phys w p) key b n = (r1, s1)" by (cases "bo_put ops (sw_phys w p) key b n")
  have w': "w' = w\<lparr> sw_phys := (sw_phys w)(p := s1) \<rparr>" "r = r1"
    using assms(1,2) put by (simp_all add: phys_put_def)
  show "touches obj valid good p key w w'"
    using good_put [OF assms(3,4), of p b n] put_other [OF assms(3,4), of _ p b n] assms(3) put by (simp add: touches_def w')
  show "w' = w\<lparr> sw_phys := sw_phys w' \<rparr>" by (simp add: w')
  show "r = None \<Longrightarrow> \<not> bd_broken b \<and> map_option fst (obj (sw_phys w' p) key) = Some (bd_bytes b)"
    using put_ok [OF assms(3,4), of p b n s1] put by (simp add: w')
  show "r = Some e \<Longrightarrow> valid k \<Longrightarrow> obj (sw_phys w' q) k = obj (sw_phys w q) k"
    using put_fail [OF assms(3,4), of p b n e s1 k] put by (simp add: w')
qed

lemma phys_delete_touches:
  assumes "phys_delete env p key w = (r, w')" "se_ops env = ops" "\<And>q. good (sw_phys w q)" "entry key"
  shows "touches obj valid good p key w w'" "w' = w\<lparr> sw_phys := sw_phys w' \<rparr>"
    "r = None \<Longrightarrow> obj (sw_phys w' p) key = None"
    "r = Some e \<Longrightarrow> entry k \<Longrightarrow> obj (sw_phys w' q) k = obj (sw_phys w q) k"
proof -
  obtain r1 s1 where del: "bo_delete ops (sw_phys w p) key = (r1, s1)" by (cases "bo_delete ops (sw_phys w p) key")
  have w': "w' = w\<lparr> sw_phys := (sw_phys w)(p := s1) \<rparr>" "r = r1"
    using assms(1,2) del by (simp_all add: phys_delete_def)
  show "touches obj valid good p key w w'"
    using good_delete [OF assms(3,4), of p] delete_other [OF assms(3,4), of _ p] valid_entry assms(3) del by (simp add: touches_def w')
  show "w' = w\<lparr> sw_phys := sw_phys w' \<rparr>" by (simp add: w')
  show "r = None \<Longrightarrow> obj (sw_phys w' p) key = None"
    using delete_ok [OF assms(3,4), of p s1] del by (simp add: w')
  show "r = Some e \<Longrightarrow> entry k \<Longrightarrow> obj (sw_phys w' q) k = obj (sw_phys w q) k"
    using delete_fail [OF assms(3,4), of p e s1 k] del by (simp add: w')
qed

lemma phys_delete_other:
  assumes "phys_delete env p key w = (r, w')" "se_ops env = ops" "\<And>q. good (sw_phys w q)" "entry key"
    "entry k" "(q, k) \<noteq> (p, key)"
  shows "obj (sw_phys w' q) k = obj (sw_phys w q) k"
proof -
  obtain r1 s1 where del: "bo_delete ops (sw_phys w p) key = (r1, s1)" by (cases "bo_delete ops (sw_phys w p) key")
  have "w' = w\<lparr> sw_phys := (sw_phys w)(p := s1) \<rparr>" using assms(1,2) del by (simp add: phys_delete_def)
  then show ?thesis using delete_other [OF assms(3,4,5), of p] assms(6) del by auto
qed

lemma phys_only_frame:
  assumes "w' = w\<lparr> sw_phys := sw_phys w' \<rparr>"
  shows "same_layout w w'" "sw_assets w' = sw_assets w" "sw_stores w' = sw_stores w" "sw_repos w' = sw_repos w"
    "tables_ok w' = tables_ok w" "row_at w' = row_at w"
proof -
  obtain f where f: "w' = w\<lparr> sw_phys := f \<rparr>" using assms by blast
  show "same_layout w w'" "sw_assets w' = sw_assets w" "sw_stores w' = sw_stores w" "sw_repos w' = sw_repos w"
    "tables_ok w' = tables_ok w" "row_at w' = row_at w"
    by (simp_all add: f same_layout_def tables_ok_def row_at_def fun_eq_iff)
qed

text \<open>\<open>Put\<close> and the checks after it, then the registration.\<close>

lemma write_and_register_cases:
  assumes r: "write_and_register env ctx repo path ct co b declared key sid sname p w = (res, w')"
    and env: "se_ops env = ops" and good: "\<And>q. good (sw_phys w q)" and v: "valid key"
    and sid: "sid \<noteq> []" and ok: "tables_ok w" and repo: "repo \<in> set (sw_repos w)"
  shows "tables_ok w' \<and> same_layout w w' \<and> touches obj valid good p key w w' \<and>
     (case res of Inl e \<Rightarrow> sw_assets w' = sw_assets w \<and> sw_stores w' = sw_stores w \<or>
          e = Pe_Db \<and> (\<exists>sz. landed obj env (repo_name repo) path sid p key b declared sz w w')
      | Inr (a, sm, sz) \<Rightarrow> sm = sums_of env (bd_bytes b) \<and> landed obj env (repo_name repo) path sid p key b declared sz w w')"
proof -
  obtain r1 w1 where put: "phys_put env p key b declared w = (r1, w1)" by (cases "phys_put env p key b declared w")
  note p1 = phys_put_touches [OF put env good v]
  note f1 = phys_only_frame [OF p1(2)]
  have good1: "\<And>q. good (sw_phys w1 q)" using p1(1) by (simp add: touches_def)
  have ok1: "tables_ok w1" using f1(5) ok by simp
  have dropped: "tables_ok w' \<and> same_layout w w' \<and> touches obj valid good p key w w' \<and> sw_assets w' = sw_assets w \<and> sw_stores w' = sw_stores w"
    if "w' = snd (phys_delete env p key w2)" "tables_ok w2" "same_layout w w2" "touches obj valid good p key w w2"
      "sw_assets w2 = sw_assets w" "sw_stores w2 = sw_stores w" for w2
  proof -
    note t = that
    obtain r2 where d: "phys_delete env p key w2 = (r2, w')" using t(1) by (cases "phys_delete env p key w2") simp
    have "\<And>q. good (sw_phys w2 q)" using t(4) by (simp add: touches_def)
    note p2 = phys_delete_touches [OF d env this valid_entry [OF v]]
    note f2 = phys_only_frame [OF p2(2)]
    show ?thesis
      using f2 that touches_trans [OF that(4) p2(1)] same_layout_trans [OF that(3) f2(1)] by simp
  qed
  show ?thesis
  proof (cases r1)
    case (Some e)
    then show ?thesis using r put p1(1) f1 ok1 by (auto simp: write_and_register_def)
  next
    case None
    define sz where "sz = recorded_size env w1 p key declared"
    note put_ok = p1(3) [OF None]
    note unfold = write_and_register_after_put [OF put [unfolded None], of ctx repo path ct co sid sname, unfolded r, folded sz_def]
    show ?thesis
    proof (cases "declared > 0 \<and> int (length (bd_bytes b)) \<noteq> declared")
      case True
      then have "res = Inl Pe_Size_Mismatch" "w' = snd (phys_delete env p key w1)"
        using unfold [unfolded if_P [OF True]] by simp_all
      then show ?thesis using dropped [of w1] f1 ok1 p1(1) by simp
    next
      case False
      note sized = False
      have sz: "sz = int (length (bd_bytes b)) \<or> sz = declared \<and> declared \<le> 0"
        using sized size_obj [OF good1 v, of p] put_ok by (auto simp: sz_def recorded_size_def env split: sum.split)
      show ?thesis
      proof (cases "if sz > 0 \<and> declared \<le> 0 then check_quota w1 repo sz else None")
        case (Some e)
        then have "res = Inl e" "w' = snd (phys_delete env p key w1)"
          using unfold [unfolded if_not_P [OF sized] Some] by simp_all
        then show ?thesis using dropped [of w1] f1 ok1 p1(1) by simp
      next
        case None
        obtain r2 w2 where reg: "register_stored_blob env ctx w1 repo path ct co key (sums_of env (bd_bytes b)) sz sid sname = (r2, w2)"
          by (cases "register_stored_blob env ctx w1 repo path ct co key (sums_of env (bd_bytes b)) sz sid sname")
        have repo1: "repo \<in> set (sw_repos w1)" using repo f1(4) by simp
        note g = register_stored_cases [OF reg sid ok1 repo1]
        have l2: "same_layout w w2" using same_layout_trans f1(1) g(2) by blast
        have t2: "touches obj valid good p key w w2" using touches_frame [OF p1(1) g(3)] .
        have res: "(res, w') = (case (r2, w2) of
            (Inr a, w2) \<Rightarrow> (Inr (a, sums_of env (bd_bytes b), sz), w2)
          | (Inl e, w2) \<Rightarrow>
              (Inl e, if e = Pe_Quota \<and> count_by_blob_key w2 2 key [] = Some 0 then snd (phys_delete env p key w2) else w2))"
          using unfold [unfolded if_not_P [OF sized] None] by (simp add: reg)
        have lands: "landed obj env (repo_name repo) path sid p key b declared sz w w2"
          if "registered (asset_for ctx repo path ct sid key (sums_of env (bd_bytes b)) sz) (repo_name repo) path w1 w2"
          using that put_ok sz g(3) f1(6) by (auto simp: landed_def registered_def row_of_def asset_for_def sums_of_def)
        show ?thesis
        proof (cases r2)
          case (Inl e)
          show ?thesis
          proof (cases "sw_assets w2 = sw_assets w \<and> sw_stores w2 = sw_stores w")
            case True
            then show ?thesis
              using res Inl dropped [of w2] g(1) l2 t2 by (cases "e = Pe_Quota \<and> count_by_blob_key w2 2 key [] = Some 0") auto
          next
            case False
            then have "e = Pe_Db" "landed obj env (repo_name repo) path sid p key b declared sz w w2"
              using g(4) [OF Inl] f1 lands by auto
            then show ?thesis using res Inl g(1) l2 t2 by auto
          qed
        next
          case (Inr a)
          then show ?thesis using res g(1) l2 t2 lands [OF g(5) [OF Inr]] by auto
        qed
      qed
    qed
  qed
qed

text \<open>A whole upload.\<close>

lemma store_artifact_cases:
  assumes r: "store_artifact env ctx w rn path ct co b declared = (res, w')"
    and env: "se_ops env = ops" and good: "\<And>q. good (sw_phys w q)" and v: "valid (blob_key_of env rn path)"
    and ok: "tables_ok w" and reg: "registry_ok env w"
  defines "key \<equiv> blob_key_of env rn path"
  shows "tables_ok w' \<and> registry_ok env w' \<and> store_space env w' = store_space env w \<and> sw_repos w' = sw_repos w \<and> sw_fail w' = sw_fail w \<and>
     (\<exists>sid. touches obj valid good (store_space env w sid) key w w' \<and>
        (case res of Inl e \<Rightarrow> row_at w' = row_at w \<or>
             e = Pe_Db \<and> (\<exists>sz. landed obj env rn path sid (store_space env w sid) key b declared sz w w')
         | Inr (a, sm, sz) \<Rightarrow> sm = sums_of env (bd_bytes b) \<and> landed obj env rn path sid (store_space env w sid) key b declared sz w w'))"
proof -
  have idle: ?thesis if "res = Inl e" "registry_step env w w'" for e
    using registry_step_fields [OF that(2)] registry_step_ok [OF that(2) reg] ok good that(1)
    by (auto simp: touches_def)
  show ?thesis
  proof (cases "repos_get w rn")
    case None
    then show ?thesis using r idle [of Pe_Repo_Not_Found] by (simp add: store_artifact_def)
  next
    case (Some repo)
    then have repo: "repo \<in> set (sw_repos w)" "repo_name repo = rn"
      by (auto simp: repos_get_def dest: find_mem split: if_splits)
    show ?thesis
    proof (cases "repo_online repo \<and> (if declared > 0 then check_quota w repo declared else None) = None")
      case False
      then obtain e where "res = Inl e" "w' = w" using r Some by (auto simp: store_artifact_def split: if_splits option.splits)
      then show ?thesis using idle by simp
    next
      case True
      note pre = True
      obtain r1 w1 where rs: "resolve_blob_store env w repo = (r1, w1)" by (cases "resolve_blob_store env w repo")
      note s1 = resolve_blob_store_step [OF rs ok reg, THEN conjunct1] and id1 = resolve_blob_store_step [OF rs ok reg, THEN conjunct2]
      note f1 = registry_step_fields [OF s1]
      show ?thesis
      proof (cases r1)
        case (Inl e)
        then have "res = Inl e" "w' = w1" using r Some pre rs by (auto simp: store_artifact_def Let_def split: if_splits)
        then show ?thesis using idle s1 by simp
      next
        case (Inr x)
        obtain sid sname p where x: "x = (sid, sname, p)" by (cases x) auto
        have p: "sid \<noteq> []" "p = store_space env w sid" using id1 Inr x by simp_all
        obtain r2 w2 where e: "enforce_write_policy ctx w1 repo path key
            (write_and_register env ctx repo path ct co b declared key sid sname p) = (r2, w2)"
          by (cases "enforce_write_policy ctx w1 repo path key (write_and_register env ctx repo path ct co b declared key sid sname p)")
        have res: "(res, w') = (case (r2, w2) of (Inl e, w2) \<Rightarrow> (Inl e, w2)
            | (Inr y, w2) \<Rightarrow> (Inr y, w2\<lparr> sw_events := sw_events w2 @ [Ev_Published rn path (snd (snd y))] \<rparr>))"
          using r Some pre rs Inr x e by (auto simp: store_artifact_def key_def Let_def split: if_splits)
        obtain r3 w3 where wr: "write_and_register env ctx repo path ct co b declared key sid sname p w1 = (r3, w3)"
          by (cases "write_and_register env ctx repo path ct co b declared key sid sname p w1")
        have pre1: "\<And>q. good (sw_phys w1 q)" "valid key" "tables_ok w1" "repo \<in> set (sw_repos w1)"
          using good v ok repo f1 by (simp_all add: key_def)
        note c = write_and_register_cases [OF wr env pre1(1,2) p(1) pre1(3,4)]
        show ?thesis
        proof (cases "(\<exists>e. r2 = Inl e) \<and> w2 = w1")
          case True
          then show ?thesis using res idle s1 by auto
        next
          case False
          then have out: "w2 = w3" "r2 = r3 \<or> r2 = Inl Pe_Db \<and> (\<exists>x. r3 = Inr x)"
            using enforce_cases [of ctx w1 repo path key "write_and_register env ctx repo path ct co b declared key sid sname p", unfolded e wr]
            by (auto simp: lock_outcome_def)
          have l: "same_layout w1 w2" "tables_ok w2" using c out(1) by simp_all
          have t: "touches obj valid good p key w w2" using c f1(3) out(1) by (simp add: touches_def)
          have w': "sw_assets w' = sw_assets w2" "sw_phys w' = sw_phys w2" "same_layout w2 w'"
            using res by (auto simp: same_layout_def split: sum.splits)
          have "registry_ok env w'"
            using same_layout_registry_ok [OF same_layout_trans [OF l(1) w'(3)]] registry_step_ok [OF s1 reg] by simp
          moreover have "store_space env w' = store_space env w"
            using same_layout_space [OF same_layout_trans [OF l(1) w'(3)]] f1(11) by simp
          moreover have "sw_repos w' = sw_repos w" "sw_fail w' = sw_fail w"
            using same_layout_trans [OF l(1) w'(3)] f1(4,6) by (simp_all add: same_layout_def)
          moreover have "tables_ok w'" using tables_ok_frame [OF l(2) w'(3,1)] .
          moreover have "touches obj valid good (store_space env w sid) key w w'" using t touches_frame w'(2) p(2) by metis
          moreover have fwd: "landed obj env rn path sid (store_space env w sid) key b declared sz w w'"
            if "landed obj env (repo_name repo) path sid p key b declared sz w1 w3" for sz
            using landed_frame [OF that f1(10)] w'(1,2) out(1) repo(2) p(2) by simp
          have "case res of Inl e \<Rightarrow> row_at w' = row_at w \<or>
             e = Pe_Db \<and> (\<exists>sz. landed obj env rn path sid (store_space env w sid) key b declared sz w w')
         | Inr (a, sm, sz) \<Rightarrow> sm = sums_of env (bd_bytes b) \<and> landed obj env rn path sid (store_space env w sid) key b declared sz w w'"
          proof (cases r3)
            case (Inl e)
            then have "res = Inl e" "r2 = r3" using res out(2) by auto
            then show ?thesis using c Inl fwd row_at_frame [of w' w1] w'(1) f1(10) out(1) by auto
          next
            case (Inr y)
            then obtain a sm sz where y: "r3 = Inr (a, sm, sz)" by (cases y) auto
            then have "sm = sums_of env (bd_bytes b)" "landed obj env (repo_name repo) path sid p key b declared sz w1 w3"
              using c by simp_all
            then show ?thesis using res out(2) y fwd [of sz] by auto
          qed
          ultimately show ?thesis by blast
        qed
      qed
    qed
  qed
qed

text \<open>A deletion.\<close>

lemma delete_locked_cases:
  assumes r: "delete_locked_asset env rn path a p w = (res, w')"
    and env: "se_ops env = ops" and good: "\<And>q. good (sw_phys w q)" and v: "valid (asset_blob_key a)"
    and ok: "tables_ok w" and a: "row_at w rn path = Some a"
  shows "(\<exists>e. res = Inl e \<and> w' = w) \<or>
     (\<exists>freed. res = Inr (True, freed) \<and> tables_ok w' \<and> same_layout w w' \<and> touches obj valid good p (asset_blob_key a) w w' \<and>
        row_at w' rn path = None \<and> (\<forall>rn' path'. (rn', path') \<noteq> (rn, path) \<longrightarrow> row_at w' rn' path' = row_at w rn' path') \<and>
        (sw_phys w' = sw_phys w \<or> (\<forall>x \<in> set (sw_assets w). asset_blob_key x = asset_blob_key a \<longrightarrow> x = a)))"
proof (cases "sw_fail w (S_Asset_By_Path 6)")
  case True
  then show ?thesis using r by (auto simp: delete_locked_asset_def assets_by_path_def)
next
  case False
  have read: "assets_by_path w 6 rn path = Inr (Some a)" using a False by (simp add: assets_by_path_def row_at_def)
  show ?thesis
  proof (cases "sw_fail w S_Asset_Delete")
    case True
    then show ?thesis using r read by (auto simp: delete_locked_asset_def assets_delete_def Let_def)
  next
    case False
    define w1 where "w1 = w\<lparr> sw_assets := filter (\<lambda>x. asset_id x \<noteq> asset_id a) (sw_assets w) \<rparr>"
    have w1: "sw_assets w1 = filter (\<lambda>x. asset_id x \<noteq> asset_id a) (sw_assets w)" "same_layout w w1" "sw_phys w1 = sw_phys w"
      by (simp_all add: w1_def same_layout_def)
    note d1 = delete_row [OF ok a w1(1,2)]
    have unfold: "(res, w') = (if count_by_blob_key w 4 (asset_blob_key a) (asset_id a) = Some 0
        then (let d = phys_delete env p (asset_blob_key a) w1 in (Inr (True, fst d = None), snd d)) else (Inr (True, False), w1))"
      using r read False by (auto simp: delete_locked_asset_def assets_delete_def w1_def)
    show ?thesis
    proof (cases "count_by_blob_key w 4 (asset_blob_key a) (asset_id a) = Some 0")
      case False
      have "touches obj valid good p (asset_blob_key a) w w1" using good w1(3) by (simp add: touches_def)
      then show ?thesis using unfold False d1 w1 by (intro disjI2 exI [of _ False]) simp
    next
      case True
      obtain r2 w2 where d: "phys_delete env p (asset_blob_key a) w1 = (r2, w2)" by (cases "phys_delete env p (asset_blob_key a) w1")
      have w': "w' = w2" "res = Inr (True, r2 = None)" using unfold True d by (simp_all add: Let_def)
      have good1: "\<And>q. good (sw_phys w1 q)" using good w1(3) by simp
      note t = phys_delete_touches [OF d env good1 valid_entry [OF v]]
      note f = phys_only_frame [OF t(2)]
      have alone: "x = a" if "x \<in> set (sw_assets w)" "asset_blob_key x = asset_blob_key a" for x
      proof (rule ccontr)
        assume "x \<noteq> a"
        then have "asset_id x \<noteq> asset_id a" using asset_id_unique [OF ok, of a x] row_at_mem [OF a] that(1) by blast
        then have "x \<in> set (filter (\<lambda>x. asset_blob_key x = asset_blob_key a \<and> (asset_id a = [] \<or> asset_id x \<noteq> asset_id a)) (sw_assets w))"
          using that by simp
        then show False using True by (auto simp: count_by_blob_key_def filter_empty_conv split: if_splits)
      qed
      have "touches obj valid good p (asset_blob_key a) w w2" using t(1) w1(3) by (simp add: touches_def)
      then show ?thesis
        using d1 f same_layout_trans [OF w1(2) f(1)] alone w' by auto
    qed
  qed
qed

lemma delete_artifact_cases:
  assumes r: "delete_artifact env w rn path = (res, w')"
    and env: "se_ops env = ops" and good: "\<And>q. good (sw_phys w q)" and v: "\<And>a. row_at w rn path = Some a \<Longrightarrow> valid (asset_blob_key a)"
    and ok: "tables_ok w" and reg: "registry_ok env w"
  shows "tables_ok w' \<and> registry_ok env w' \<and> store_space env w' = store_space env w \<and> (\<forall>q. good (sw_phys w' q)) \<and>
     (case res of Inl e \<Rightarrow> row_at w' = row_at w \<and> sw_phys w' = sw_phys w \<or> e = Pe_Db \<and> removed obj valid env rn path w w'
      | Inr _ \<Rightarrow> removed obj valid env rn path w w')"
proof (cases "row_at w rn path")
  case None
  then show ?thesis
    using r good ok reg by (auto simp: delete_artifact_def assets_by_path_def row_at_def removed_def split: if_splits)
next
  case (Some a)
  note a = Some
  show ?thesis
  proof (cases "sw_fail w (S_Asset_By_Path 5)")
    case True
    then show ?thesis using r good ok reg by (auto simp: delete_artifact_def assets_by_path_def)
  next
    case False
    have read: "assets_by_path w 5 rn path = Inr (Some a)" using a False by (simp add: assets_by_path_def row_at_def)
    obtain r1 w1 where ps: "asset_physical_store env w a = (r1, w1)" by (cases "asset_physical_store env w a")
    note s1 = asset_physical_store_step [OF ps ok reg, THEN conjunct1] and p1 = asset_physical_store_step [OF ps ok reg, THEN conjunct2]
    note f1 = registry_step_fields [OF s1] and reg1 = registry_step_ok [OF s1 reg]
    show ?thesis
    proof (cases r1)
      case (Inl e)
      then show ?thesis using r read ps f1 reg1 good ok by (auto simp: delete_artifact_def)
    next
      case (Inr p)
      obtain r2 w2 where l: "with_lock (asset_blob_key a) (delete_locked_asset env rn path a p) w1 = (r2, w2)"
        by (cases "with_lock (asset_blob_key a) (delete_locked_asset env rn path a p) w1")
      have unfold: "(res, w') = (case (r2, w2) of (Inl e, w2) \<Rightarrow> (Inl e, w2)
          | (Inr (row_deleted, freed), w2) \<Rightarrow>
              if \<not> row_deleted then (Inr (), w2)
              else (let w3 = (if freed then decrement_usage w2 a else w2)
                    in (Inr (), w3\<lparr> sw_events := sw_events w3 @ [Ev_Deleted rn path (asset_size a)] \<rparr>)))"
        using r read ps Inr l by (simp add: delete_artifact_def)
      have pre: "\<And>q. good (sw_phys w1 q)" "tables_ok w1" "row_at w1 rn path = Some a" using good ok a f1 by simp_all
      obtain r3 w3 where d: "delete_locked_asset env rn path a p w1 = (r3, w3)" by (cases "delete_locked_asset env rn path a p w1")
      have out: "r2 = Inl Pe_Db \<and> w2 = w1 \<or> w2 = w3 \<and> (r2 = r3 \<or> r2 = Inl Pe_Db \<and> (\<exists>x. r3 = Inr x))"
        using with_lock_outcome [of "asset_blob_key a" "delete_locked_asset env rn path a p" w1, unfolded l d] by (auto simp: lock_outcome_def)
      consider (err) e where "r2 = Inl e" "w2 = w1" | (gone) freed where "r2 = Inr (True, freed) \<or> r2 = Inl Pe_Db" "tables_ok w2" "same_layout w1 w2"
          "touches obj valid good p (asset_blob_key a) w1 w2" "row_at w2 rn path = None"
          "\<And>rn' path'. (rn', path') \<noteq> (rn, path) \<Longrightarrow> row_at w2 rn' path' = row_at w1 rn' path'"
          "sw_phys w2 = sw_phys w1 \<or> (\<forall>x \<in> set (sw_assets w1). asset_blob_key x = asset_blob_key a \<longrightarrow> x = a)"
      proof (cases "w2 = w1 \<and> (\<exists>e. r2 = Inl e)")
        case True
        then show thesis using that(1) by auto
      next
        case False
        then have o: "w2 = w3" "r2 = r3 \<or> r2 = Inl Pe_Db \<and> (\<exists>x. r3 = Inr x)" using out by auto
        have "\<not> (\<exists>e. r3 = Inl e \<and> w3 = w1)" using False o by auto
        then obtain freed where "r3 = Inr (True, freed)" "tables_ok w3" "same_layout w1 w3"
          "touches obj valid good p (asset_blob_key a) w1 w3" "row_at w3 rn path = None"
          "\<forall>rn' path'. (rn', path') \<noteq> (rn, path) \<longrightarrow> row_at w3 rn' path' = row_at w1 rn' path'"
          "sw_phys w3 = sw_phys w1 \<or> (\<forall>x \<in> set (sw_assets w1). asset_blob_key x = asset_blob_key a \<longrightarrow> x = a)"
          using delete_locked_cases [OF d env pre(1) v [OF a] pre(2,3)] by blast
        then show thesis using that(2) [of freed] o by auto
      qed
      then show ?thesis
      proof cases
        case err
        then show ?thesis using unfold f1 reg1 good ok by auto
      next
        case gone
        have w': "res = Inr () \<or> res = Inl Pe_Db" "sw_assets w' = sw_assets w2" "sw_phys w' = sw_phys w2" "same_layout w2 w'"
          using unfold gone(1) decrement_usage_frame [of w2 a] by (auto simp: Let_def same_layout_def split: if_splits)
        have lay: "same_layout w1 w'" using same_layout_trans gone(3) w'(4) by blast
        have space: "store_space env w' = store_space env w" using same_layout_space [OF lay] f1(11) by simp
        have rows: "row_at w' = row_at w2" by (rule row_at_frame [OF w'(2)])
        have "row_obj obj env w' x = row_obj obj env w x"
          if "(rn', path') \<noteq> (rn, path)" "row_at w rn' path' = Some x" "valid (asset_blob_key x)" for rn' path' x
        proof -
          have "x \<noteq> a" "x \<in> set (sw_assets w1)" using row_at_mem [OF that(2)] row_at_mem [OF a] that(1) f1(1) by auto
          then have "sw_phys w2 = sw_phys w1 \<or> asset_blob_key x \<noteq> asset_blob_key a" using gone(7) by blast
          then show ?thesis using gone(4) that(3) space f1(3) w'(3) by (auto simp: row_obj_def touches_def)
        qed
        moreover have "tables_ok w'" by (rule tables_ok_frame [OF gone(2) w'(4,2)])
        moreover have "registry_ok env w'" using same_layout_registry_ok [OF lay] reg1 by simp
        moreover have "removed obj valid env rn path w w'" unfolding removed_def
          using gone(5,6) rows f1(10) calculation(1) by simp
        ultimately show ?thesis
          using gone(4) space w'(1,3) by (auto simp: touches_def)
      qed
    qed
  qed
qed

text \<open>A download.\<close>

lemma fetch_artifact_cases:
  assumes r: "fetch_artifact env w rn path = (res, w')"
    and env: "se_ops env = ops" and good: "\<And>q. good (sw_phys w q)" and v: "\<And>a. row_at w rn path = Some a \<Longrightarrow> valid (asset_blob_key a)"
    and ok: "tables_ok w" and reg: "registry_ok env w"
  shows "row_at w' = row_at w \<and> sw_phys w' = sw_phys w \<and> store_space env w' = store_space env w \<and>
     (\<forall>c a. res = Inr (c, a) \<longrightarrow> row_at w rn path = Some a \<and> content obj env w rn path = Some c)"
proof (cases "assets_by_path w 4 rn path")
  case (Inl e)
  then show ?thesis using r by (auto simp: fetch_artifact_def)
next
  case (Inr oa)
  then have oa: "oa = row_at w rn path" by (simp add: assets_by_path_def row_at_def split: if_splits)
  show ?thesis
  proof (cases oa)
    case None
    then show ?thesis using r Inr by (auto simp: fetch_artifact_def)
  next
    case (Some a)
    obtain r1 w1 where ps: "asset_physical_store env w a = (r1, w1)" by (cases "asset_physical_store env w a")
    note s1 = asset_physical_store_step [OF ps ok reg, THEN conjunct1] and p1 = asset_physical_store_step [OF ps ok reg, THEN conjunct2]
    note f1 = registry_step_fields [OF s1]
    show ?thesis
    proof (cases r1)
      case (Inl e)
      then show ?thesis using r Inr Some ps f1 by (auto simp: fetch_artifact_def)
    next
      case r1: (Inr p)
      have va: "valid (asset_blob_key a)" using v oa Some by simp
      show ?thesis
      proof (cases "bo_get ops (sw_phys w1 p) (asset_blob_key a)")
        case (Inl e)
        then show ?thesis using r Inr Some ps r1 env f1 by (auto simp: fetch_artifact_def)
      next
        case g: (Inr cm)
        obtain c m where cm: "cm = (c, m)" by (cases cm)
        have "map_option fst (obj (sw_phys w1 p) (asset_blob_key a)) = Some c" using get_obj [OF _ va g [unfolded cm]] good f1(3) by simp
        then have "content obj env w rn path = Some c" using Some oa p1 r1 f1(3) by (simp add: content_def row_obj_def)
        moreover have "res = Inr (c, a)" "w' = w1\<lparr> sw_downloads := sw_downloads w1 @ [asset_id a] \<rparr>"
          using r Inr Some ps r1 env g cm by (simp_all add: fetch_artifact_def)
        moreover have "row_at (w1\<lparr> sw_downloads := d \<rparr>) = row_at w1" "store_space env (w1\<lparr> sw_downloads := d \<rparr>) = store_space env w1" for d
          by (simp_all add: row_at_def store_space_def fun_eq_iff cong: if_cong option.case_cong)
        ultimately show ?thesis using Some oa f1 by simp
      qed
    qed
  qed
qed

text \<open>What an upload does whether or not other rows name the object of its path.\<close>

lemma upload_frame:
  assumes r: "store_artifact env ctx w rn path ct co b declared = (res, w')"
    and env: "se_ops env = ops" and int: "intact obj valid good env w" and v: "valid (blob_key_of env rn path)"
    and ok: "tables_ok w" and reg: "registry_ok env w"
  shows "tables_ok w' \<and> registry_ok env w' \<and>
     (\<forall>rn' path'. (rn', path') \<noteq> (rn, path) \<longrightarrow> row_at w' rn' path' = row_at w rn' path' \<and>
        (\<not> names_key w rn' path' (blob_key_of env rn path) \<longrightarrow> content obj env w' rn' path' = content obj env w rn' path')) \<and>
     (case res of
        Inl e \<Rightarrow> row_at w' rn path = row_at w rn path \<or> e = Pe_Db \<and> content obj env w' rn path = Some (bd_bytes b)
      | Inr (a, sm, sz) \<Rightarrow> content obj env w' rn path = Some (bd_bytes b) \<and> \<not> bd_broken b \<and>
          (sz = int (length (bd_bytes b)) \<or> sz = declared \<and> declared \<le> 0) \<and> sm = sums_of env (bd_bytes b))"
proof -
  let ?key = "blob_key_of env rn path"
  have good: "\<And>q. good (sw_phys w q)" using int by (simp add: intact_def)
  note c = store_artifact_cases [OF r env good v ok reg]
  obtain sid where t: "touches obj valid good (store_space env w sid) ?key w w'" and cs: "case res of Inl e \<Rightarrow> row_at w' = row_at w \<or>
             e = Pe_Db \<and> (\<exists>sz. landed obj env rn path sid (store_space env w sid) ?key b declared sz w w')
         | Inr (a, sm, sz) \<Rightarrow> sm = sums_of env (bd_bytes b) \<and> landed obj env rn path sid (store_space env w sid) ?key b declared sz w w'"
    using c by blast
  have space: "store_space env w' = store_space env w" using c by simp
  have rows: "row_at w' rn' path' = row_at w rn' path'" if "(rn', path') \<noteq> (rn, path)" for rn' path'
    using cs that by (cases res) (auto simp: landed_def)
  have others: "content obj env w' rn' path' = content obj env w rn' path'"
    if p: "(rn', path') \<noteq> (rn, path)" and n: "\<not> names_key w rn' path' ?key" for rn' path'
  proof (cases "row_at w rn' path'")
    case None
    then show ?thesis using rows [OF p] by (simp add: content_def)
  next
    case (Some x)
    have "asset_blob_key x \<noteq> ?key" using n Some by (auto simp: names_key_def)
    moreover have "valid (asset_blob_key x)" using int Some by (auto simp: intact_def)
    ultimately have "row_obj obj env w' x = row_obj obj env w x" using t space by (simp add: row_obj_def touches_def)
    then show ?thesis using rows [OF p] Some by (simp add: content_def)
  qed
  have land: "content obj env w' rn path = Some (bd_bytes b)"
    if l: "landed obj env rn path sid (store_space env w sid) ?key b declared sz w w'" for sz
  proof -
    obtain r where r: "row_at w' rn path = Some r" "asset_blob_store_id r = sid" "asset_blob_key r = ?key"
      using l by (auto simp: landed_def)
    have "map_option fst (row_obj obj env w' r) = Some (bd_bytes b)" using l r space by (simp add: row_obj_def landed_def)
    then show ?thesis using r(1) by (simp add: content_def)
  qed
  have own: "case res of
        Inl e \<Rightarrow> row_at w' rn path = row_at w rn path \<or> e = Pe_Db \<and> content obj env w' rn path = Some (bd_bytes b)
      | Inr (a, sm, sz) \<Rightarrow> content obj env w' rn path = Some (bd_bytes b) \<and> \<not> bd_broken b \<and>
          (sz = int (length (bd_bytes b)) \<or> sz = declared \<and> declared \<le> 0) \<and> sm = sums_of env (bd_bytes b)"
  proof (cases res)
    case (Inl e)
    then show ?thesis using cs land by auto
  next
    case (Inr y)
    then show ?thesis using cs land by (cases y) (auto simp: landed_def)
  qed
  then show ?thesis using c rows others by blast
qed

text \<open>The abstract view after an upload and after a deletion.\<close>

lemma upload_view:
  assumes r: "store_artifact env ctx w rn path ct co b declared = (res, w')"
    and env: "se_ops env = ops" and int: "intact obj valid good env w" and v: "valid (blob_key_of env rn path)"
    and ok: "tables_ok w" and reg: "registry_ok env w" and un: "key_unshared w rn path (blob_key_of env rn path)"
  shows "tables_ok w' \<and> registry_ok env w' \<and>
     (\<forall>rn' path'. (rn', path') \<noteq> (rn, path) \<longrightarrow> content obj env w' rn' path' = content obj env w rn' path') \<and>
     (case res of
        Inl e \<Rightarrow> row_at w' rn path = row_at w rn path \<and> (row_at w rn path = None \<longrightarrow> intact obj valid good env w') \<or>
                 e = Pe_Db \<and> content obj env w' rn path = Some (bd_bytes b) \<and> intact obj valid good env w'
      | Inr (a, sm, sz) \<Rightarrow> content obj env w' rn path = Some (bd_bytes b) \<and> intact obj valid good env w' \<and> \<not> bd_broken b \<and>
          (sz = int (length (bd_bytes b)) \<or> sz = declared \<and> declared \<le> 0) \<and> sm = sums_of env (bd_bytes b))"
proof -
  let ?key = "blob_key_of env rn path"
  have good: "\<And>q. good (sw_phys w q)" using int by (simp add: intact_def)
  note c = store_artifact_cases [OF r env good v ok reg]
  obtain sid where t: "touches obj valid good (store_space env w sid) ?key w w'" and cs: "case res of Inl e \<Rightarrow> row_at w' = row_at w \<or>
             e = Pe_Db \<and> (\<exists>sz. landed obj env rn path sid (store_space env w sid) ?key b declared sz w w')
         | Inr (a, sm, sz) \<Rightarrow> sm = sums_of env (bd_bytes b) \<and> landed obj env rn path sid (store_space env w sid) ?key b declared sz w w'"
    using c by blast
  have space: "store_space env w' = store_space env w" using c by simp
  have rows: "row_at w' rn' path' = row_at w rn' path'" if "(rn', path') \<noteq> (rn, path)" for rn' path'
    using cs that by (cases res) (auto simp: landed_def)
  have objs: "row_obj obj env w' x = row_obj obj env w x" if "(rn', path') \<noteq> (rn, path)" "row_at w rn' path' = Some x" for rn' path' x
  proof -
    note m = row_at_mem [OF that(2)]
    have "asset_blob_key x \<noteq> ?key" using m that(1) un by (auto simp: key_unshared_def)
    moreover have "valid (asset_blob_key x)" using int that(2) by (auto simp: intact_def)
    ultimately show ?thesis using t space by (simp add: row_obj_def touches_def)
  qed
  have others: "content obj env w' rn' path' = content obj env w rn' path'" if "(rn', path') \<noteq> (rn, path)" for rn' path'
    using rows [OF that] objs [OF that] by (simp add: content_def split: option.split)
  have keep: "intact obj valid good env w'"
    if own: "\<And>a. row_at w' rn path = Some a \<Longrightarrow>
        valid (asset_blob_key a) \<and> (\<exists>c t. row_obj obj env w' a = Some (c, t) \<and> asset_sha256 a = se_sha256 env c)"
    unfolding intact_def
  proof (intro conjI allI impI)
    show "good (sw_phys w' p)" for p using t by (simp add: touches_def)
    fix rn' path' a assume a: "row_at w' rn' path' = Some a"
    show "valid (asset_blob_key a)"
      using own a int rows by (cases "(rn', path') = (rn, path)") (auto simp: intact_def)
    show "\<exists>c t. row_obj obj env w' a = Some (c, t) \<and> asset_sha256 a = se_sha256 env c"
    proof (cases "(rn', path') = (rn, path)")
      case True
      then show ?thesis using own a by auto
    next
      case False
      then show ?thesis using int a rows [OF False] objs [OF False, of a] unfolding intact_def by auto
    qed
  qed
  have land: "content obj env w' rn path = Some (bd_bytes b) \<and> intact obj valid good env w'"
    if l: "landed obj env rn path sid (store_space env w sid) ?key b declared sz w w'" for sz
  proof -
    obtain r where r: "row_at w' rn path = Some r" "asset_blob_store_id r = sid" "asset_blob_key r = ?key"
      "asset_sha256 r = se_sha256 env (bd_bytes b)"
      using l by (auto simp: landed_def)
    have o: "map_option fst (row_obj obj env w' r) = Some (bd_bytes b)" using l r space by (simp add: row_obj_def landed_def)
    have "intact obj valid good env w'" by (rule keep) (use r v o in auto)
    then show ?thesis using r(1) o by (simp add: content_def)
  qed
  show ?thesis
  proof (cases res)
    case (Inl e)
    show ?thesis
    proof (cases "row_at w' = row_at w")
      case True
      then show ?thesis using c others keep Inl by auto
    next
      case False
      then show ?thesis using c others cs Inl land by auto
    qed
  next
    case (Inr y)
    then show ?thesis using c others cs land by (cases y) (auto simp: landed_def)
  qed
qed

lemma delete_view:
  assumes r: "delete_artifact env w rn path = (res, w')"
    and env: "se_ops env = ops" and int: "intact obj valid good env w" and ok: "tables_ok w" and reg: "registry_ok env w"
  shows "tables_ok w' \<and> registry_ok env w' \<and> intact obj valid good env w' \<and>
     (\<forall>rn' path'. (rn', path') \<noteq> (rn, path) \<longrightarrow> content obj env w' rn' path' = content obj env w rn' path') \<and>
     (case res of Inl e \<Rightarrow> content obj env w' rn path = content obj env w rn path \<or> e = Pe_Db \<and> row_at w' rn path = None
      | Inr _ \<Rightarrow> row_at w' rn path = None)"
proof -
  have good: "\<And>q. good (sw_phys w q)" using int by (simp add: intact_def)
  have v: "\<And>rn path a. row_at w rn path = Some a \<Longrightarrow> valid (asset_blob_key a)" using int by (auto simp: intact_def)
  note c = delete_artifact_cases [OF r env good v [of rn path] ok reg]
  show ?thesis
  proof (cases "row_at w' = row_at w \<and> sw_phys w' = sw_phys w \<and> (\<exists>e. res = Inl e)")
    case True
    then have eqs: "row_at w' = row_at w" "sw_phys w' = sw_phys w" "store_space env w' = store_space env w" using c by simp_all
    have ro: "row_obj obj env w' = row_obj obj env w" by (intro ext) (simp add: row_obj_def eqs)
    have "content obj env w' = content obj env w" "intact obj valid good env w' = intact obj valid good env w"
      unfolding content_def intact_def ro eqs by (rule refl)+
    then show ?thesis using c True int by auto
  next
    case False
    then have rm: "removed obj valid env rn path w w'" and res: "\<And>e. res = Inl e \<Longrightarrow> e = Pe_Db" using c by (auto split: sum.splits)
    have gone: "row_at w' rn path = None" and space: "store_space env w' = store_space env w" and good': "\<And>q. good (sw_phys w' q)"
      and rest: "\<And>rn' path'. (rn', path') \<noteq> (rn, path) \<Longrightarrow> row_at w' rn' path' = row_at w rn' path' \<and>
             (\<forall>x. row_at w rn' path' = Some x \<longrightarrow> valid (asset_blob_key x) \<longrightarrow> row_obj obj env w' x = row_obj obj env w x)"
      using c rm unfolding removed_def by blast+
    have "intact obj valid good env w'"
      unfolding intact_def
    proof (intro conjI allI impI good')
      fix rn' path' a assume a: "row_at w' rn' path' = Some a"
      then have ne: "(rn', path') \<noteq> (rn, path)" using gone by auto
      then have aw: "row_at w rn' path' = Some a" using rest a by simp
      then show "valid (asset_blob_key a)" by (rule v)
      then have "row_obj obj env w' a = row_obj obj env w a" using rest [OF ne] aw by simp
      then show "\<exists>c t. row_obj obj env w' a = Some (c, t) \<and> asset_sha256 a = se_sha256 env c"
        using int aw by (simp add: intact_def)
    qed
    moreover have "content obj env w' rn' path' = content obj env w rn' path'" if "(rn', path') \<noteq> (rn, path)" for rn' path'
      using rest [OF that] v [of rn' path'] by (simp add: content_def split: option.split)
    ultimately show ?thesis using c gone res by (cases res) auto
  qed
qed

end

end
