(* ===== verification/Store_Example.thy ===== *)
theory Store_Example
  imports Artifact_Map
begin

text \<open>
  A concrete store on the filesystem backend, with one repository and one blob store, and the worlds
  the witnesses evaluate: before and after an upload.
\<close>

section \<open>An example store\<close>

definition demo_sha :: "bytes \<Rightarrow> string" where
  "demo_sha s = ''0123'' @ itoa (int (length s))"

definition demo_env :: "local_store store_env" where
  "demo_env = \<lparr> se_ops = local_ops, se_sha256 = demo_sha, se_sha1 = demo_sha, se_md5 = demo_sha,
     se_azure_url = (\<lambda>_. None), se_reachable = (\<lambda>_. True), se_registry_on = True \<rparr>"

definition demo_repo :: "string \<Rightarrow> repository" where
  "demo_repo policy =
     \<lparr> repo_id = ''r1'', repo_name = ''libs'', repo_fmt = ''raw'', repo_kind = TypeHosted, repo_blob_store_id = None,
       repo_online = True, repo_format_config = Some [''write_policy'' \<mapsto> VStr policy], repo_http_config = None,
       repo_proxy_config = None, repo_cleanup_policy_ids = [], repo_quota_bytes = None, repo_routing_rule_id = None,
       repo_allow_anonymous = False, repo_description = [], repo_url = [], repo_created_at = 0, repo_updated_at = 0 \<rparr>"

definition demo_store :: "int option \<Rightarrow> int \<Rightarrow> blob_store" where
  "demo_store quota used =
     \<lparr> bs_id = ''s1'', bs_name = ''default'', bs_type = ''local'', bs_config = None, bs_quota_bytes = quota,
       bs_used_bytes = used, bs_created_at = 0, bs_updated_at = 0 \<rparr>"

definition demo_world :: "string \<Rightarrow> int option \<Rightarrow> local_store store_world" where
  "demo_world policy quota =
     \<lparr> sw_repos = [demo_repo policy], sw_stores = [demo_store quota 0], sw_comps = [], sw_assets = [],
       sw_phys = (\<lambda>_. example_store),
       sw_registry = \<lparr> rg_instances = Map.empty, rg_default = ''default'', rg_rr = (\<lambda>_. 0) \<rparr>,
       sw_now = 9, sw_next = 0, sw_scans = [], sw_publishes = [], sw_events = [], sw_downloads = [], sw_fail = (\<lambda>_. False) \<rparr>"

definition demo_ctx :: write_ctx where
  "demo_ctx = \<lparr> wc_bypass = False, wc_user = ''u1'' \<rparr>"

definition demo_body :: "bytes \<Rightarrow> body" where
  "demo_body b = \<lparr> bd_bytes = b, bd_broken = False \<rparr>"

definition demo_coords :: coords where
  "demo_coords = \<lparr> co_group = [], co_name = ''a'', co_version = ''1'' \<rparr>"

definition demo_put :: "local_store store_world \<Rightarrow> bytes \<Rightarrow> int \<Rightarrow> (pub_err + asset \<times> sums \<times> int) \<times> local_store store_world" where
  "demo_put w b n = store_artifact demo_env demo_ctx w ''libs'' ''/a'' ''text'' demo_coords (demo_body b) n"

lemma demo_invariants:
  "tables_ok (demo_world p q)" "registry_ok demo_env (demo_world p q)" "intact local_obj valid_key local_good demo_env (demo_world p q)"
  "key_unshared (demo_world p q) rn path k"
  by (simp_all add: demo_world_def tables_ok_def registry_ok_def intact_def row_at_def key_unshared_def demo_store_def
      example_store_good)

lemma demo_key: "valid_key (blob_key_of demo_env ''libs'' ''/a'')"
  by code_simp


lemma demo_frame:
  "sw_repos (snd (demo_put (demo_world p q) b n)) = sw_repos (demo_world p q)"
  "sw_fail (snd (demo_put (demo_world p q) b n)) = sw_fail (demo_world p q)"
proof -
  obtain res w' where r: "demo_put (demo_world p q) b n = (res, w')" by (cases "demo_put (demo_world p q) b n")
  have env: "se_ops demo_env = local_ops" by (simp add: demo_env_def)
  have good: "\<And>x. local_good (sw_phys (demo_world p q) x)" using demo_invariants(3) by (simp add: intact_def)
  show "sw_repos (snd (demo_put (demo_world p q) b n)) = sw_repos (demo_world p q)"
    "sw_fail (snd (demo_put (demo_world p q) b n)) = sw_fail (demo_world p q)"
    using local_blobs.store_artifact_cases [OF r [unfolded demo_put_def] env good demo_key demo_invariants(1,2)] r by simp_all
qed

lemma demo_put_ok:
  assumes "\<not> isl (fst (demo_put (demo_world p q) b n))"
  shows "tables_ok (snd (demo_put (demo_world p q) b n))" "registry_ok demo_env (snd (demo_put (demo_world p q) b n))"
    "intact local_obj valid_key local_good demo_env (snd (demo_put (demo_world p q) b n))"
proof -
  obtain res w' where r: "demo_put (demo_world p q) b n = (res, w')" by (cases "demo_put (demo_world p q) b n")
  have env: "se_ops demo_env = local_ops" by (simp add: demo_env_def)
  note v = local_blobs.upload_view [OF r [unfolded demo_put_def] env demo_invariants(3) demo_key demo_invariants(1,2,4)]
  show "tables_ok (snd (demo_put (demo_world p q) b n))" "registry_ok demo_env (snd (demo_put (demo_world p q) b n))"
    "intact local_obj valid_key local_good demo_env (snd (demo_put (demo_world p q) b n))"
    using v assms r by (cases res, auto)+
qed

lemma demo_after_put:
  "tables_ok (snd (demo_put (demo_world ''allow'' None) ''hello'' 5))"
  "registry_ok demo_env (snd (demo_put (demo_world ''allow'' None) ''hello'' 5))"
  "intact local_obj valid_key local_good demo_env (snd (demo_put (demo_world ''allow'' None) ''hello'' 5))"
proof -
  have "\<not> isl (fst (demo_put (demo_world ''allow'' None) ''hello'' 5))" by code_simp
  from demo_put_ok [OF this] show
    "tables_ok (snd (demo_put (demo_world ''allow'' None) ''hello'' 5))"
    "registry_ok demo_env (snd (demo_put (demo_world ''allow'' None) ''hello'' 5))"
    "intact local_obj valid_key local_good demo_env (snd (demo_put (demo_world ''allow'' None) ''hello'' 5))" .
qed

end
