(* ===== verification/Store_Contract.thy ===== *)
theory Store_Contract
  imports Store_Example
begin

text \<open>
  The properties of the artifact store on the filesystem backend: it refines a map from (repository,
  path) to bytes, the write policy and the quotas hold, and what a refused re-upload leaves behind.
\<close>

section \<open>A map from paths to bytes\<close>



text \<open>
  C6: a deletion is one map update. A deletion that succeeds leaves no row at the path, one that fails
  changes no content unless only the release of the lock failed; every other path keeps its content,
  mounted copies of the same object included, and the invariants are kept.
\<close>

theorem delete_refines_map:
  assumes "delete_artifact env w rn path = (res, w')" "se_ops env = local_ops"
    "tables_ok w" "registry_ok env w" "intact local_obj valid_key local_good env w"
  shows "tables_ok w' \<and> registry_ok env w' \<and> intact local_obj valid_key local_good env w' \<and>
     (\<forall>rn' path'. (rn', path') \<noteq> (rn, path) \<longrightarrow> content local_obj env w' rn' path' = content local_obj env w rn' path') \<and>
     (case res of Inl e \<Rightarrow> content local_obj env w' rn path = content local_obj env w rn path \<or> e = Pe_Db \<and> row_at w' rn path = None
      | Inr _ \<Rightarrow> row_at w' rn path = None)"
  by (rule local_blobs.delete_view [OF assms(1,2,5,3,4)])

theorem delete_refines_map_witness:
  "content local_obj demo_env (snd (delete_artifact demo_env (snd (demo_put (demo_world ''allow'' None) ''hello'' 5)) ''libs'' ''/a'')) ''libs'' ''/a'' = None"
proof -
  let ?w = "snd (demo_put (demo_world ''allow'' None) ''hello'' 5)"
  have ok: "\<not> isl (fst (delete_artifact demo_env ?w ''libs'' ''/a''))" by code_simp
  obtain res w' where r: "delete_artifact demo_env ?w ''libs'' ''/a'' = (res, w')"
    by (cases "delete_artifact demo_env ?w ''libs'' ''/a''")
  have env: "se_ops demo_env = local_ops" by (simp add: demo_env_def)
  show ?thesis using delete_refines_map [OF r env demo_after_put] ok r by (cases res) (auto simp: content_def)
qed

text \<open>
  A download returns the content. What a fetch answers is the content of the map at that path,
  with the row that describes it and its checksum, and the fetch changes neither rows nor objects.
\<close>

theorem fetch_reads_map:
  assumes "fetch_artifact env w rn path = (res, w')" "se_ops env = local_ops"
    "tables_ok w" "registry_ok env w" "intact local_obj valid_key local_good env w"
  shows "(case res of Inl e \<Rightarrow> True
     | Inr (c, a) \<Rightarrow> content local_obj env w rn path = Some c \<and> row_at w rn path = Some a \<and> asset_sha256 a = se_sha256 env c) \<and>
     row_at w' = row_at w \<and> content local_obj env w' = content local_obj env w"
proof -
  have good: "\<And>q. local_good (sw_phys w q)" and v: "\<And>a. row_at w rn path = Some a \<Longrightarrow> valid_key (asset_blob_key a)"
    using assms(5) by (auto simp: intact_def)
  note c = local_blobs.fetch_artifact_cases [OF assms(1,2) good v assms(3,4)]
  have eqs: "row_at w' = row_at w" "sw_phys w' = sw_phys w" "store_space env w' = store_space env w"
    and hit: "\<And>x a. res = Inr (x, a) \<Longrightarrow> row_at w rn path = Some a \<and> content local_obj env w rn path = Some x"
    using c by blast+
  have ro: "row_obj local_obj env w' = row_obj local_obj env w" by (intro ext) (simp add: row_obj_def eqs)
  have "content local_obj env w' = content local_obj env w" unfolding content_def ro eqs by (rule refl)
  moreover have "asset_sha256 a = se_sha256 env x" if "row_at w rn path = Some a" "content local_obj env w rn path = Some x" for a x
  proof -
    obtain y t where "row_obj local_obj env w a = Some (y, t)" "asset_sha256 a = se_sha256 env y"
      using assms(5) \<open>row_at w rn path = Some a\<close> unfolding intact_def by blast
    then show ?thesis using that by (simp add: content_def)
  qed
  ultimately show ?thesis using eqs(1) hit by (cases res) auto
qed

theorem fetch_reads_map_witness:
  "map_option fst (case fst (fetch_artifact demo_env (snd (demo_put (demo_world ''allow'' None) ''hello'' 5)) ''libs'' ''/a'') of Inr x \<Rightarrow> Some x | _ \<Rightarrow> None) =
   content local_obj demo_env (snd (demo_put (demo_world ''allow'' None) ''hello'' 5)) ''libs'' ''/a''"
proof -
  let ?w = "snd (demo_put (demo_world ''allow'' None) ''hello'' 5)"
  have ok: "\<not> isl (fst (fetch_artifact demo_env ?w ''libs'' ''/a''))" by code_simp
  obtain res w' where r: "fetch_artifact demo_env ?w ''libs'' ''/a'' = (res, w')"
    by (cases "fetch_artifact demo_env ?w ''libs'' ''/a''")
  have env: "se_ops demo_env = local_ops" by (simp add: demo_env_def)
  show ?thesis using fetch_reads_map [OF r env demo_after_put] ok r by (cases res) auto
qed

section \<open>The write policy\<close>

lemma resolve_blob_store_registry:
  assumes "resolve_blob_store env w repo = (res, w')"
  shows "\<exists>r. w' = w\<lparr> sw_registry := r \<rparr>"
proof -
  obtain r1 w1 where r: "resolve_store_ref env w repo = (r1, w1)" by (cases "resolve_store_ref env w repo")
  obtain g where g: "w1 = w\<lparr> sw_registry := g \<rparr>" using resolve_store_ref_step [OF r] by (auto simp: registry_step_def)
  have "\<exists>r. snd (physical_store env v ob) = v\<lparr> sw_registry := r \<rparr>" for v ob
  proof -
    have self: "v = v\<lparr> sw_registry := sw_registry v \<rparr>" by simp
    show ?thesis
      unfolding physical_store_def
      by (auto split: option.split prod.split intro: self)
  qed
  moreover have "w' = w1 \<or> (\<exists>b. w' = snd (physical_store env w1 (Some b)))"
    using assms r by (auto simp: resolve_blob_store_def split: sum.splits prod.splits if_splits option.splits) (metis snd_conv)+
  ultimately have "w' = w1 \<or> (\<exists>r. w' = w1\<lparr> sw_registry := r \<rparr>)" by metis
  then show ?thesis using g by auto
qed

text \<open>
  C7: disable-redeploy and read-only repositories keep what they hold. A client upload to a read-only
  repository, or one to a path of a disable-redeploy repository that already holds an asset and is
  not exempt, is refused, whatever fails underneath, and changes no row, no object, no counter and
  notifies nobody; only the registry's cache of stores may have moved.
\<close>

theorem write_policy_protects:
  assumes "repos_get w rn = Some repo" "\<not> wc_bypass ctx"
    "repo_write_policy (Some repo) = WritePolicyDeny \<or>
     repo_write_policy (Some repo) = WritePolicyAllowOnce \<and> \<not> redeploy_exempt repo path \<and> row_at w rn path \<noteq> None"
  shows "isl (fst (store_artifact env ctx w rn path ct co b declared)) \<and>
     (\<exists>r. snd (store_artifact env ctx w rn path ct co b declared) = w\<lparr> sw_registry := r \<rparr>)"
proof -
  have name: "repo_name repo = rn" using assms(1) by (auto simp: repos_get_def dest: find_mem split: if_splits)
  show ?thesis
  proof (cases "repo_online repo \<and> (if declared > 0 then check_quota w repo declared else None) = None")
    case False
    then have "\<exists>e. store_artifact env ctx w rn path ct co b declared = (Inl e, w)"
      using assms(1) by (cases "if declared > 0 then check_quota w repo declared else None") (auto simp: store_artifact_def)
    then show ?thesis by (auto intro!: exI [of _ "sw_registry w"])
  next
    case True
    obtain r1 w1 where rs: "resolve_blob_store env w repo = (r1, w1)" by (cases "resolve_blob_store env w repo")
    obtain g where g: "w1 = w\<lparr> sw_registry := g \<rparr>" using resolve_blob_store_registry [OF rs] by blast
    have chk: "\<exists>e. snd (check_write_policy w1 repo path) = Some e"
      using assms(3) name g
      by (auto simp: check_write_policy_def asset_absent_def assets_by_path_def row_at_def split: sum.split option.split)
    have enf: "\<exists>e. enforce_write_policy ctx w1 repo path key wr = (Inl e, w1)" for key and wr :: "'a store_world \<Rightarrow> (pub_err + asset \<times> sums \<times> int) \<times> 'a store_world"
      using chk assms(2) unfolding enforce_write_policy_def by (cases "check_write_policy w1 repo path") auto
    show ?thesis
    proof (cases r1)
      case (Inl e)
      then have "store_artifact env ctx w rn path ct co b declared = (Inl e, w1)"
        using assms(1) True rs by (auto simp: store_artifact_def Let_def split: if_splits)
      then show ?thesis using g by auto
    next
      case (Inr x)
      obtain sid sname p where x: "x = (sid, sname, p)" by (cases x) auto
      obtain e where "enforce_write_policy ctx w1 repo path (blob_key_of env rn path)
          (write_and_register env ctx repo path ct co b declared (blob_key_of env rn path) sid sname p) = (Inl e, w1)"
        using enf by blast
      then have "store_artifact env ctx w rn path ct co b declared = (Inl e, w1)"
        using assms(1) True rs Inr x by (auto simp: store_artifact_def Let_def split: if_splits)
      then show ?thesis using g by auto
    qed
  qed
qed

theorem write_policy_protects_witness:
  "isl (fst (demo_put (snd (demo_put (demo_world ''allow_once'' None) ''hello'' 5)) ''other'' 5))"
proof -
  let ?w = "snd (demo_put (demo_world ''allow_once'' None) ''hello'' 5)"
  have w: "sw_repos ?w = [demo_repo ''allow_once'']" "\<not> sw_fail ?w S_Repo_Get"
    using demo_frame [of "''allow_once''"] by (simp_all add: demo_world_def)
  have "repos_get ?w ''libs'' = Some (demo_repo ''allow_once'')" using w by (simp add: repos_get_def demo_repo_def)
  moreover have "repo_write_policy (Some (demo_repo ''allow_once'')) = WritePolicyAllowOnce \<and> \<not> redeploy_exempt (demo_repo ''allow_once'') ''/a''"
    by code_simp
  moreover have "row_at ?w ''libs'' ''/a'' \<noteq> None" by code_simp
  moreover have "\<not> wc_bypass demo_ctx" by (simp add: demo_ctx_def)
  ultimately show ?thesis using write_policy_protects [of ?w "''libs''"] unfolding demo_put_def by blast
qed

section \<open>Quotas\<close>

text \<open>The used bytes of every store after a registration.\<close>

lemma update_used_by_name:
  assumes "distinct (map bs_name (sw_stores w))" "b0 \<in> set (sw_stores w)" "b' \<in> set (sw_stores (update_used_bytes w (bs_name b0) d))"
  shows "b' \<in> set (sw_stores w) \<or> b' = b0\<lparr> bs_used_bytes := max 0 (bs_used_bytes b0 + d) \<rparr>"
proof -
  have "b = b0" if "b \<in> set (sw_stores w)" "bs_name b = bs_name b0" for b
    using assms(1,2) that by (meson distinct_map inj_onD)
  then show ?thesis using assms(3) by (auto simp: update_used_bytes_def split: if_splits)
qed

definition moderate :: "int \<Rightarrow> bool" where
  "moderate n \<longleftrightarrow> 0 \<le> n \<and> n < 2 ^ 62"

lemma add64_moderate: "moderate m \<Longrightarrow> moderate n \<Longrightarrow> add64 m n = m + n"
  by (simp add: moderate_def add64_def wrap64_def)

text \<open>No store beyond its quota, unless it already was.\<close>

definition within_quota :: "'b store_world \<Rightarrow> 'b store_world \<Rightarrow> bool" where
  "within_quota w w' \<longleftrightarrow>
     (\<forall>b' \<in> set (sw_stores w'). \<exists>b \<in> set (sw_stores w). bs_id b = bs_id b' \<and> bs_quota_bytes b = bs_quota_bytes b' \<and>
        (\<forall>q. bs_type b \<noteq> ''group'' \<longrightarrow> bs_quota_bytes b = Some q \<longrightarrow> bs_used_bytes b' \<le> max (bs_used_bytes b) q))"

lemma within_quota_same: "sw_stores w' = sw_stores w \<Longrightarrow> within_quota w w'"
  unfolding within_quota_def by (intro ballI bexI) auto

lemma register_locked_quota:
  assumes r: "register_locked repo sid (bs_name b0) c a prev w = (res, w')" and b0: "b0 \<in> set (sw_stores w)" "bs_id b0 = sid"
    and ok: "tables_ok w" and sid: "sid \<noteq> []" and read: "\<not> sw_fail w (S_Blob_By_Id 5)"
    and used: "moderate (bs_used_bytes b0)" and sz: "asset_size a < 2 ^ 62" and prev: "\<And>p. prev = Some p \<Longrightarrow> 0 \<le> asset_size p"
  shows "within_quota w w'"
proof -
  define probe where "probe = (case prev of None \<Rightarrow> a | Some p \<Rightarrow> a\<lparr> asset_id := asset_id p \<rparr>)"
  define delta where "delta = usage_delta w probe prev"
  have delta: "delta < 2 ^ 62" if "delta > 0"
    using that sz prev by (auto simp: delta_def usage_delta_def probe_def split: option.splits if_splits)
  have names: "distinct (map bs_name (sw_stores w))" using tables_ok_static(4) [OF ok] .
  show ?thesis
  proof (cases "if delta > 0 then quota_headroom w repo sid delta else None")
    case (Some e)
    then have "w' = w" using r unfolding register_locked_def probe_def [symmetric] delta_def [symmetric] Let_def by simp
    then show ?thesis by (simp add: within_quota_same)
  next
    case None
    obtain w2 where w2: "sw_stores w2 = sw_stores w"
      and w': "w' = w2 \<or> w' = update_used_bytes w2 (bs_name b0) delta"
    proof -
      obtain oc w1 where c: "components_create w c = (oc, w1)" by (cases "components_create w c")
      have s1: "sw_stores w1 = sw_stores w" using components_create_layout(4) [OF c] .
      show thesis
      proof (cases oc)
        case None
        then show thesis using that [of w1] s1 r c \<open>(if delta > 0 then quota_headroom w repo sid delta else None) = None\<close>
          unfolding register_locked_def probe_def [symmetric] delta_def [symmetric] Let_def by simp
      next
        case (Some c')
        obtain oa w2 where ac: "assets_create w1 (a\<lparr> asset_component_id := comp_id c' \<rparr>) = (oa, w2)"
          by (cases "assets_create w1 (a\<lparr> asset_component_id := comp_id c' \<rparr>)")
        have "sw_stores w2 = sw_stores w1" using ac by (auto simp: assets_create_def Let_def split: if_splits option.splits)
        moreover have "w' = w2 \<or> w' = update_used_bytes w2 (bs_name b0) delta"
          using r c Some ac None unfolding register_locked_def probe_def [symmetric] delta_def [symmetric] Let_def
          by (auto split: option.splits if_splits)
        ultimately show thesis using that [of w2] s1 by simp
      qed
    qed
    have grown: "bs_type b0 \<noteq> ''group'' \<Longrightarrow> bs_quota_bytes b0 = Some q \<Longrightarrow> max 0 (bs_used_bytes b0 + delta) \<le> max (bs_used_bytes b0) q" for q
    proof -
      assume t: "bs_type b0 \<noteq> ''group''" "bs_quota_bytes b0 = Some q"
      have "find (\<lambda>b. bs_id b = sid) (sw_stores w) = Some b0"
        using find_unique [OF tables_ok_stores(1) [OF ok] b0(1)] b0(2) by simp
      then have st: "store_for_quota w repo sid = Some b0" using sid read by (simp add: store_for_quota_def stores_by_id_def)
      show ?thesis
      proof (cases "delta > 0")
        case False
        then show ?thesis using used by (auto simp: moderate_def max_def)
      next
        case True
        then have "\<not> over_limit (bs_used_bytes b0) delta (bs_quota_bytes b0)"
          using None t st by (auto simp: quota_headroom_def split: if_splits)
        moreover have "moderate delta" using True delta by (simp add: moderate_def)
        ultimately show ?thesis using add64_moderate [OF used] t used by (simp add: over_limit_def moderate_def)
      qed
    qed
    show ?thesis
      unfolding within_quota_def
    proof
      fix b' assume "b' \<in> set (sw_stores w')"
      then have "b' \<in> set (sw_stores w) \<or> b' = b0\<lparr> bs_used_bytes := max 0 (bs_used_bytes b0 + delta) \<rparr>"
        using w' w2 update_used_by_name [of w2 b0 b' delta] names b0(1) by auto
      then show "\<exists>b \<in> set (sw_stores w). bs_id b = bs_id b' \<and> bs_quota_bytes b = bs_quota_bytes b' \<and>
        (\<forall>q. bs_type b \<noteq> ''group'' \<longrightarrow> bs_quota_bytes b = Some q \<longrightarrow> bs_used_bytes b' \<le> max (bs_used_bytes b) q)"
      proof
        assume "b' \<in> set (sw_stores w)"
        then show ?thesis by (intro bexI [of _ b']) auto
      next
        assume "b' = b0\<lparr> bs_used_bytes := max 0 (bs_used_bytes b0 + delta) \<rparr>"
        then show ?thesis using b0(1) grown by (intro bexI [of _ b0]) auto
      qed
    qed
  qed
qed

lemma within_quota_cong: "sw_stores w1 = sw_stores w \<Longrightarrow> sw_stores w2 = sw_stores w' \<Longrightarrow> within_quota w w' \<Longrightarrow> within_quota w1 w2"
  by (simp add: within_quota_def)

text \<open>Sizes and counters far from the 64-bit limit.\<close>

definition moderate_world :: "'b store_world \<Rightarrow> bool" where
  "moderate_world w \<longleftrightarrow> (\<forall>b \<in> set (sw_stores w). moderate (bs_used_bytes b)) \<and> (\<forall>a \<in> set (sw_assets w). 0 \<le> asset_size a)"

lemma register_stored_quota:
  assumes r: "register_stored_blob env ctx w repo path ct co key sm sz sid (bs_name b0) = (res, w')"
    and b0: "b0 \<in> set (sw_stores w)" "bs_id b0 = sid" and ok: "tables_ok w" and read: "\<not> sw_fail w (S_Blob_By_Id 5)"
    and m: "moderate_world w" "sz < 2 ^ 62"
  shows "within_quota w w'"
proof -
  have sid: "sid \<noteq> []" using tables_ok_stores(2) [OF ok b0(1)] b0(2) by simp
  let ?a = "asset_for ctx repo path ct sid key sm sz"
  define name where "name = (if bs_name b0 = [] then (case stores_by_id w 6 sid of None \<Rightarrow> [] | Some b \<Rightarrow> bs_name b) else bs_name b0)"
  define prev where "prev = (case assets_by_path w 3 (repo_name repo) path of Inl _ \<Rightarrow> None | Inr p \<Rightarrow> p)"
  define c0 where "c0 = component_for repo path co"
  define c where "c = (if content_replaced w c0 prev (sm_sha256 sm) then c0\<lparr> comp_extra := Some Map.empty \<rparr> else c0)"
  have "b = b0" if "stores_by_id w 6 sid = Some b" for b
    using that tables_ok_stores(3) [OF ok, of b b0] b0 by (auto simp: stores_by_id_def dest!: find_mem split: if_splits)
  then have name: "name = bs_name b0" by (auto simp: name_def split: option.split)
  obtain res1 w1 where run: "register_run repo sid name c ?a prev w = (res1, w1)" by (cases "register_run repo sid name c ?a prev w")
  have "(res, w') = (case (res1, w1) of
      (Inl e, w') \<Rightarrow> (Inl e, w')
    | (Inr (c', a'), w') \<Rightarrow> (Inr a', queue_for_scanning c' (notify_published ctx repo c' path co w')))"
    using r sid unfolding run [symmetric] name_def prev_def c0_def c_def register_stored_blob_def Let_def by simp
  then have st: "sw_stores w' = sw_stores w1" by (auto simp: notify_frame split: sum.splits)
  obtain res0 w0 where reg: "register_locked repo sid (bs_name b0) c ?a prev w = (res0, w0)"
    by (cases "register_locked repo sid (bs_name b0) c ?a prev w")
  have prev: "0 \<le> asset_size p" if "prev = Some p" for p
    using m(1) that by (auto simp: prev_def moderate_world_def assets_by_path_def dest!: find_mem split: if_splits)
  have "within_quota w w0"
    by (rule register_locked_quota [OF reg b0 ok sid read _ _ prev]) (use m b0 in \<open>auto simp: moderate_world_def asset_for_def\<close>)
  moreover have "w1 = w \<or> w1 = w0"
    using register_run_outcome [of repo sid name c ?a prev w, unfolded run] reg name by (auto simp: lock_outcome_def)
  ultimately have "within_quota w w1" by (auto simp: within_quota_same)
  then show ?thesis using within_quota_cong [of w w w' w1] st by simp
qed

lemma write_and_register_quota:
  assumes r: "write_and_register env ctx repo path ct co b declared key sid (bs_name b0) p w = (res, w')"
    and env: "se_ops env = local_ops" and good: "\<And>q. local_good (sw_phys w q)" and v: "valid_key key"
    and b0: "b0 \<in> set (sw_stores w)" "bs_id b0 = sid" and ok: "tables_ok w" and read: "\<not> sw_fail w (S_Blob_By_Id 5)"
    and m: "moderate_world w" "int (length (bd_bytes b)) < 2 ^ 62"
  shows "within_quota w w'"
proof -
  have del: "sw_stores (snd (phys_delete env p key v)) = sw_stores v" for v :: "local_store store_world" by (simp add: phys_delete_def Let_def)
  obtain r1 w1 where put: "phys_put env p key b declared w = (r1, w1)" by (cases "phys_put env p key b declared w")
  note p1 = local_blobs.phys_put_touches [OF put env good v]
  have w1: "w1 = w\<lparr> sw_phys := sw_phys w1 \<rparr>" by (rule p1(2))
  have f: "sw_stores w1 = sw_stores w" "tables_ok w1" "sw_fail w1 = sw_fail w" "moderate_world w1"
    using ok m by (subst w1, simp add: tables_ok_def moderate_world_def)+
  define sz where "sz = recorded_size env w1 p key declared"
  show ?thesis
  proof (cases r1)
    case (Some e)
    then show ?thesis using r put f(1) by (auto simp: write_and_register_def within_quota_same)
  next
    case None
    note unfold = write_and_register_after_put [OF put [unfolded None], of ctx repo path ct co sid "bs_name b0", unfolded r, folded sz_def]
    obtain r2 w2 where reg: "register_stored_blob env ctx w1 repo path ct co key (sums_of env (bd_bytes b)) sz sid (bs_name b0) = (r2, w2)"
      by (cases "register_stored_blob env ctx w1 repo path ct co key (sums_of env (bd_bytes b)) sz sid (bs_name b0)")
    have good1: "local_good (sw_phys w1 p)" using p1(1) by (simp add: touches_def)
    have "sw_stores w' = sw_stores w \<or> sz < 2 ^ 62 \<and> sw_stores w' = sw_stores w2"
    proof (cases "declared > 0 \<and> int (length (bd_bytes b)) \<noteq> declared")
      case True
      then show ?thesis using unfold f(1) by (simp add: del)
    next
      case False
      have "sz < 2 ^ 62"
        using False m(2) local_blobs.size_obj [OF good1 v] p1(3) [OF None] by (auto simp: sz_def recorded_size_def env split: sum.split)
      then show ?thesis
        using unfold [unfolded if_not_P [OF False] reg] f(1) by (auto simp: del split: option.splits sum.splits if_splits)
    qed
    moreover have "within_quota w1 w2" if "sz < 2 ^ 62"
      by (rule register_stored_quota [OF reg _ b0(2) f(2) _ f(4) that]) (use b0 f read in auto)
    ultimately show ?thesis using within_quota_cong [of w w1 w' w2] within_quota_same f(1) by auto
  qed
qed



text \<open>
  The enforcing check fails open: when the store's row cannot be read, only the repository's own quota is
  checked.
\<close>

lemma unreadable_store_unchecked:
  "sw_fail w (S_Blob_By_Id 5) \<Longrightarrow> sid \<noteq> [] \<Longrightarrow> quota_headroom w repo sid delta = repo_headroom w 2 repo delta"
  by (simp add: quota_headroom_def store_for_quota_def stores_by_id_def)

section \<open>What a refused re-upload leaves\<close>

text \<open>
  C37: once the bytes have reached the backend, a refusal does not bring the old ones back. The row of
  the path is unchanged, but its object is missing or holds the refused bytes: the key is derived from
  the path alone, so the put has replaced it before the size and quota checks run.
\<close>

theorem refused_upload_loses_old_bytes:
  assumes "write_and_register env ctx repo path ct co b declared key sid sname p w = (Inl e, w')" "\<And>x. e \<noteq> Pe_Blob x" "e \<noteq> Pe_Db"
    "se_ops env = local_ops" "\<And>q. local_good (sw_phys w q)" "valid_key key" "sid \<noteq> []" "tables_ok w" "repo \<in> set (sw_repos w)"
  shows "row_at w' = row_at w \<and>
     (map_option fst (local_obj (sw_phys w' p) key) = None \<or> map_option fst (local_obj (sw_phys w' p) key) = Some (bd_bytes b))"
proof -
  have rows: "row_at w' = row_at w"
    using local_blobs.write_and_register_cases [OF assms(1,4-9)] assms(3) row_at_frame [of w' w] by auto
  obtain r1 w1 where put: "phys_put env p key b declared w = (r1, w1)" by (cases "phys_put env p key b declared w")
  note p1 = local_blobs.phys_put_touches [OF put assms(4-6)]
  have r1: "r1 = None" using assms(1,2) put by (cases r1) (auto simp: write_and_register_def)
  have o1: "map_option fst (local_obj (sw_phys w1 p) key) = Some (bd_bytes b)" using p1(3) [OF r1] by simp
  have good1: "\<And>q. local_good (sw_phys w1 q)" using p1(1) by (simp add: touches_def)
  have ok1: "tables_ok w1" "sw_repos w1 = sw_repos w" using assms(8) by (subst p1(2), simp add: tables_ok_def)+
  have del: "map_option fst (local_obj (sw_phys (snd (phys_delete env p key v)) p) key) = None \<or>
      map_option fst (local_obj (sw_phys (snd (phys_delete env p key v)) p) key) = map_option fst (local_obj (sw_phys v p) key)"
    if g: "\<And>q. local_good (sw_phys v q)" for v
  proof -
    obtain r2 v2 where d: "phys_delete env p key v = (r2, v2)" by (cases "phys_delete env p key v")
    show ?thesis using local_blobs.phys_delete_touches(3,4) [OF d assms(4) g valid_key_entry [OF assms(6)]] valid_key_entry [OF assms(6)] d by (cases r2) auto
  qed
  define sz where "sz = recorded_size env w1 p key declared"
  obtain r2 w2 where reg: "register_stored_blob env ctx w1 repo path ct co key (sums_of env (bd_bytes b)) sz sid sname = (r2, w2)"
    by (cases "register_stored_blob env ctx w1 repo path ct co key (sums_of env (bd_bytes b)) sz sid sname")
  have ph: "sw_phys w2 = sw_phys w1"
    using register_stored_cases(3) [OF reg assms(7) ok1(1)] assms(9) ok1(2) by simp
  have "w' \<in> {snd (phys_delete env p key w1), w2, snd (phys_delete env p key w2)}"
    using write_and_register_after_put [OF put [unfolded r1], of ctx repo path ct co sid sname, unfolded assms(1), folded sz_def, unfolded reg]
    by (cases r2) (auto split: if_splits option.splits)
  then show ?thesis using rows del [OF good1] del [of w2] good1 ph o1 by auto
qed

text \<open>A streaming re-upload of eleven bytes into a store with ten.\<close>

definition demo_reupload :: "(pub_err + asset \<times> sums \<times> int) \<times> local_store store_world" where
  "demo_reupload =
     write_and_register demo_env demo_ctx (demo_repo ''allow'') ''/a'' ''text'' demo_coords (demo_body ''hello world'') (-1)
       (blob_key_of demo_env ''libs'' ''/a'') ''s1'' ''default'' ''local|./data/blobs''
       (snd (demo_put (demo_world ''allow'' (Some 10)) ''hello'' 5))"

theorem refused_upload_loses_old_bytes_witness:
  "row_at (snd demo_reupload) = row_at (snd (demo_put (demo_world ''allow'' (Some 10)) ''hello'' 5)) \<and>
   row_at (snd demo_reupload) ''libs'' ''/a'' \<noteq> None \<and> isl (fst (fetch_artifact demo_env (snd demo_reupload) ''libs'' ''/a''))"
proof (intro conjI)
  let ?w = "snd (demo_put (demo_world ''allow'' (Some 10)) ''hello'' 5)"
  have "\<not> isl (fst (demo_put (demo_world ''allow'' (Some 10)) ''hello'' 5))" by code_simp
  note ok = demo_put_ok [OF this]
  have "case fst demo_reupload of Inl e \<Rightarrow> e = Pe_Quota | Inr _ \<Rightarrow> False" by code_simp
  then have "fst demo_reupload = Inl Pe_Quota" by (auto split: sum.splits)
  then have r: "demo_reupload = (Inl Pe_Quota, snd demo_reupload)" by (metis prod.collapse)
  have "repo \<in> set (sw_repos ?w)" if "repo = demo_repo ''allow''" for repo
    using demo_frame(1) [of "''allow''" "Some 10"] that by (simp add: demo_world_def)
  then show "row_at (snd demo_reupload) = row_at ?w"
    using refused_upload_loses_old_bytes [OF r [unfolded demo_reupload_def], THEN conjunct1] ok demo_key
    unfolding demo_reupload_def [symmetric] by (simp add: demo_env_def intact_def)
  show "row_at (snd demo_reupload) ''libs'' ''/a'' \<noteq> None" by code_simp
  show "isl (fst (fetch_artifact demo_env (snd demo_reupload) ''libs'' ''/a''))" by code_simp
qed

end
