(* ===== verification/Placement.thy ===== *)
theory Placement
  imports Artifact_Map
begin

text \<open>
  Where the rows of the artifact store lie: the identity of a store row, rows whose store is known, and
  the frame of the operations that leave the layout of the stores alone. Shared by the services that
  work on whole stores.
\<close>

definition identity_of :: "'b store_env \<Rightarrow> blob_store \<Rightarrow> string" where
  "identity_of env b = physical_store_identity (se_azure_url env) (descriptor_of b)"

text \<open>
  Every row names no store, or a row of the table of stores that has a known physical namespace (a foreign
  key, and a descriptor that was accepted).
\<close>

definition rows_placed :: "'b store_env \<Rightarrow> 'b store_world \<Rightarrow> bool" where
  "rows_placed env w \<longleftrightarrow>
     se_registry_on env \<and> (\<forall>b \<in> set (sw_stores w). trim_space (bs_id b) \<noteq> [] \<and> identity_of env b \<noteq> []) \<and>
     (\<forall>a \<in> set (sw_assets w). asset_blob_store_id a = [] \<or> (\<exists>b \<in> set (sw_stores w). bs_id b = asset_blob_store_id a))"

lemma store_space_eq:
  assumes "tables_ok w" "rows_placed env w" "b \<in> set (sw_stores w)"
  shows "store_space env w (bs_id b) = identity_of env b"
proof -
  have "find (\<lambda>x. bs_id x = bs_id b) (sw_stores w) = Some b"
    using find_unique [OF tables_ok_stores(1) [OF assms(1)] assms(3)] .
  then show ?thesis using assms(2,3) by (simp add: store_space_def find_map_option identity_of_def descriptor_of_def rows_placed_def)
qed

lemma registry_get_space:
  assumes "registry_get (se_azure_url env) (se_reachable env) (sw_registry w) (descriptor_of b) = (o1, r')"
    "b \<in> set (sw_stores w)" "tables_ok w" "registry_ok env w" "se_registry_on env" "trim_space (bs_id b) \<noteq> []"
  shows "registry_step env w (w\<lparr> sw_registry := r' \<rparr>)" "o1 = Some p \<Longrightarrow> p = store_space env w (bs_id b)"
proof -
  have "physical_store env w (Some b) = (case o1 of None \<Rightarrow> Inl Pe_Unavailable | Some p \<Rightarrow> Inr p, w\<lparr> sw_registry := r' \<rparr>)"
    using assms(1,5,6) by (simp add: physical_store_def split: option.split)
  from physical_store_some [OF this assms(2-4)]
  show "registry_step env w (w\<lparr> sw_registry := r' \<rparr>)" "o1 = Some p \<Longrightarrow> p = store_space env w (bs_id b)" by auto
qed

lemma registry_get_step:
  assumes "registry_get (se_azure_url env) (se_reachable env) (sw_registry w) (descriptor_of b) = (o1, r')"
    "b \<in> set (sw_stores w)" "tables_ok w" "registry_ok env w" "rows_placed env w"
  shows "registry_step env w (w\<lparr> sw_registry := r' \<rparr>)" "o1 = Some p \<Longrightarrow> p = identity_of env b"
proof -
  have on: "se_registry_on env" "trim_space (bs_id b) \<noteq> []" using assms(2,5) by (auto simp: rows_placed_def)
  show "registry_step env w (w\<lparr> sw_registry := r' \<rparr>)" "o1 = Some p \<Longrightarrow> p = identity_of env b"
    using registry_get_space [OF assms(1-4) on] store_space_eq [OF assms(3,5,2)] by simp_all
qed

text \<open>
  The frame: repositories keep their ids and names, stores keep all but their usage, the registry's
  default stays and its cache stays sound.
\<close>

definition same_frame :: "'b store_env \<Rightarrow> 'b store_world \<Rightarrow> 'b store_world \<Rightarrow> bool" where
  "same_frame env w w' \<longleftrightarrow>
     map (\<lambda>r. (repo_id r, repo_name r)) (sw_repos w') = map (\<lambda>r. (repo_id r, repo_name r)) (sw_repos w) \<and>
     map (\<lambda>b. b\<lparr> bs_used_bytes := 0 \<rparr>) (sw_stores w') = map (\<lambda>b. b\<lparr> bs_used_bytes := 0 \<rparr>) (sw_stores w) \<and>
     rg_default (sw_registry w') = rg_default (sw_registry w) \<and> sw_next w \<le> sw_next w' \<and>
     (registry_ok env w \<longrightarrow> registry_ok env w')"

lemma same_frame_refl [simp]: "same_frame env w w" by (simp add: same_frame_def)

lemma same_frame_trans: "same_frame env w w1 \<Longrightarrow> same_frame env w1 w2 \<Longrightarrow> same_frame env w w2"
  by (auto simp: same_frame_def)

lemma same_layout_frame: "same_layout w w' \<Longrightarrow> same_frame env w w'"
  using same_layout_registry_ok by (auto simp: same_frame_def same_layout_def)

lemma registry_step_frame:
  assumes "registry_step env w w'"
  shows "same_frame env w w'"
  using registry_step_fields [OF assms] registry_step_ok [OF assms] by (simp add: same_frame_def)

lemma same_frame_stores:
  assumes "same_frame env w w'"
  shows "map bs_id (sw_stores w') = map bs_id (sw_stores w)" "map bs_name (sw_stores w') = map bs_name (sw_stores w)"
    "map descriptor_of (sw_stores w') = map descriptor_of (sw_stores w)"
proof -
  have st: "map (\<lambda>b. b\<lparr> bs_used_bytes := 0 \<rparr>) (sw_stores w') = map (\<lambda>b. b\<lparr> bs_used_bytes := 0 \<rparr>) (sw_stores w)"
    using assms by (simp add: same_frame_def)
  have f: "map g (sw_stores w') = map g (sw_stores w)" if "\<And>b. g (b\<lparr> bs_used_bytes := 0 \<rparr>) = g b" for g :: "blob_store \<Rightarrow> 'z"
  proof -
    have "map g xs = map g (map (\<lambda>b. b\<lparr> bs_used_bytes := 0 \<rparr>) xs)" for xs by (simp add: that)
    then show ?thesis using st by metis
  qed
  show "map bs_id (sw_stores w') = map bs_id (sw_stores w)" "map bs_name (sw_stores w') = map bs_name (sw_stores w)"
    "map descriptor_of (sw_stores w') = map descriptor_of (sw_stores w)"
    by (rule f, simp add: descriptor_of_def)+
qed

lemma same_frame_space: "same_frame env w w' \<Longrightarrow> store_space env w' = store_space env w"
  using same_frame_stores(3) [of env w w']
  by (simp add: store_space_def fun_eq_iff same_frame_def cong: if_cong option.case_cong)

text \<open>Rows that only change their store.\<close>

lemma tables_ok_moved:
  assumes ok: "tables_ok w" and fr: "same_frame env w w'" and as: "sw_assets w' = map f (sw_assets w)"
    and f: "\<And>a. asset_id (f a) = asset_id a" "\<And>a. asset_repository (f a) = asset_repository a"
      "\<And>a. asset_path (f a) = asset_path a" "\<And>a. asset_repository_id (f a) = asset_repository_id a"
  shows "tables_ok w'"
proof -
  have ids: "map asset_id (sw_assets w') = map asset_id (sw_assets w)"
    "map (\<lambda>a. (asset_repository a, asset_path a)) (sw_assets w') = map (\<lambda>a. (asset_repository a, asset_path a)) (sw_assets w)"
    by (simp_all add: as f)
  have eq: "tables_ok v \<longleftrightarrow>
     distinct (map asset_id (sw_assets v)) \<and> [] \<notin> set (map asset_id (sw_assets v)) \<and>
     (\<forall>n \<ge> sw_next v. ''id-'' @ itoa (int n) \<notin> set (map asset_id (sw_assets v))) \<and>
     distinct (map (\<lambda>a. (asset_repository a, asset_path a)) (sw_assets v)) \<and>
     (\<forall>(i, n) \<in> set (map (\<lambda>r. (repo_id r, repo_name r)) (sw_repos v)). \<forall>a \<in> set (sw_assets v). i = asset_repository_id a \<longleftrightarrow> n = asset_repository a) \<and>
     (\<forall>(i, n) \<in> set (map (\<lambda>r. (repo_id r, repo_name r)) (sw_repos v)). \<forall>(i', n') \<in> set (map (\<lambda>r. (repo_id r, repo_name r)) (sw_repos v)). i = i' \<longleftrightarrow> n = n') \<and>
     distinct (map bs_id (sw_stores v)) \<and> [] \<notin> set (map bs_id (sw_stores v)) \<and> distinct (map bs_name (sw_stores v))" for v
    by (simp add: tables_ok_def split_beta)
  have rp: "map (\<lambda>r. (repo_id r, repo_name r)) (sw_repos w') = map (\<lambda>r. (repo_id r, repo_name r)) (sw_repos w)" "sw_next w \<le> sw_next w'"
    using fr by (simp_all add: same_frame_def)
  have t1: "\<forall>n \<ge> sw_next w'. ''id-'' @ itoa (int n) \<notin> set (map asset_id (sw_assets w))"
    using ok rp(2) unfolding eq by (meson le_trans)
  have t2: "\<forall>(i, n) \<in> set (map (\<lambda>r. (repo_id r, repo_name r)) (sw_repos w)). \<forall>a \<in> set (sw_assets w'). i = asset_repository_id a \<longleftrightarrow> n = asset_repository a"
    using ok f unfolding eq as by fastforce
  show ?thesis
    unfolding eq ids rp(1) same_frame_stores [OF fr]
    using t1 t2 ok [unfolded eq] by blast
qed

end
