(* ===== verification/Blob_Gc.thy ===== *)
theory Blob_Gc
  imports Store_Example Placement Dist_Lock
begin

text \<open>
  Garbage collection of blobs: \<open>internal/service/gc_service.go\<close>, over the tables and backends of
  \<open>Write_Policy\<close> and \<open>Store\<close>. A run lists the references of every asset, then walks the entries of each
  store and deletes the old ones nothing refers to.
\<close>

section \<open>References\<close>

record gc_options =
  go_dry_run :: bool
  go_min_age :: duration

datatype gc_error = Gc_List store_err | Gc_Delete string store_err | Gc_Used | Gc_Resolve

record gc_result =
  gr_store :: string
  gr_scanned :: nat
  gr_orphans :: nat
  gr_freed :: int
  gr_dry :: bool
  gr_errors :: "gc_error list"
  gr_aborted :: bool

text \<open>\<open>refIndex\<close>: the maps of sets as lists of pairs.\<close>

record ref_index =
  ri_by_store :: "(string \<times> string) list"
  ri_by_physical :: "(string \<times> string) list"
  ri_any :: "string list"

definition ref_has :: "ref_index \<Rightarrow> string \<Rightarrow> string \<Rightarrow> string \<Rightarrow> bool" where
  "ref_has ix sid pid key \<longleftrightarrow>
     key \<in> set (ri_any ix) \<or> (pid, key) \<in> set (ri_by_physical ix) \<or> (sid, key) \<in> set (ri_by_store ix)"

text \<open>\<open>ListAllBlobRefs\<close>: the distinct keys with their store, blank keys left out.\<close>

definition list_all_blob_refs :: "'b store_world \<Rightarrow> (string \<times> string) list option" where
  "list_all_blob_refs w =
     (if sw_fail w S_Blob_Refs then None
      else Some (remdups (map (\<lambda>a. (asset_blob_key a, asset_blob_store_id a))
                    (filter (\<lambda>a. \<exists>c \<in> set (asset_blob_key a). c \<noteq> CHR '' '') (sw_assets w)))))"

definition physical_by_id :: "'b store_env \<Rightarrow> blob_store list \<Rightarrow> string \<Rightarrow> string" where
  "physical_by_id env stores i = (case find (\<lambda>b. bs_id b = i) (rev stores) of None \<Rightarrow> [] | Some b \<Rightarrow> identity_of env b)"

definition index_refs :: "'b store_env \<Rightarrow> blob_store list \<Rightarrow> (string \<times> string) list \<Rightarrow> ref_index" where
  "index_refs env stores refs =
     \<lparr> ri_by_store = map (\<lambda>(k, s). (s, k)) (filter (\<lambda>(k, s). s \<noteq> []) refs),
       ri_by_physical = map (\<lambda>(k, s). (physical_by_id env stores s, k))
                          (filter (\<lambda>(k, s). s \<noteq> [] \<and> physical_by_id env stores s \<noteq> []) refs),
       ri_any = map fst (filter (\<lambda>(k, s). s = []) refs) \<rparr>"

definition referenced_set :: "'b store_env \<Rightarrow> 'b store_world \<Rightarrow> blob_store list \<Rightarrow> ref_index option" where
  "referenced_set env w stores = map_option (index_refs env stores) (list_all_blob_refs w)"

section \<open>One store\<close>

definition backup_key_prefix :: string where
  "backup_key_prefix = ''backups/''"

text \<open>The age gate of one entry at time \<open>now\<close>.\<close>

definition too_young :: "time \<Rightarrow> duration \<Rightarrow> blob_entry \<Rightarrow> bool" where
  "too_young now min_age e \<longleftrightarrow> min_age > 0 \<and> be_mod_time e \<noteq> zero_time \<and> time_sub now (be_mod_time e) < min_age"

text \<open>
  The loop over the entries. The \<open>n\<close>-th reading of the clock is \<open>clk n\<close>; each entry has two, for the
  deadline and for the age.
\<close>

fun gc_loop ::
  "'b store_env \<Rightarrow> (nat \<Rightarrow> time) \<Rightarrow> ref_index \<Rightarrow> string \<Rightarrow> string \<Rightarrow> string \<Rightarrow> duration \<Rightarrow> bool \<Rightarrow> time \<Rightarrow> nat \<Rightarrow>
   blob_entry list \<Rightarrow> gc_result \<times> int \<times> 'b store_world \<Rightarrow> gc_result \<times> int \<times> 'b store_world" where
  "gc_loop env clk ix sid pid p min_age dry deadline n [] st = st"
| "gc_loop env clk ix sid pid p min_age dry deadline n (e # es) (r, freed, w) =
     (if past_deadline (clk n) deadline then (r\<lparr> gr_aborted := True \<rparr>, freed, w)
      else gc_loop env clk ix sid pid p min_age dry deadline (n + 2) es
        (if ref_has ix sid pid (be_key e) then (r, freed, w)
         else if has_prefix (be_key e) backup_key_prefix then (r, freed, w)
         else if too_young (clk (n + 1)) min_age e then (r, freed, w)
         else
           (let r1 = r\<lparr> gr_orphans := Suc (gr_orphans r), gr_freed := add64 (gr_freed r) (be_size e) \<rparr>
            in if dry then (r1, freed, w)
               else case phys_delete env p (be_key e) w of
                 (Some x, w1) \<Rightarrow> (r1\<lparr> gr_errors := gr_errors r1 @ [Gc_Delete (be_key e) x] \<rparr>, freed, w1)
               | (None, w1) \<Rightarrow> (r1, add64 freed (be_size e), w1))))"

definition gc_min_age :: "gc_options \<Rightarrow> duration \<Rightarrow> duration" where
  "gc_min_age opts default_min_age = (if go_min_age opts \<le> 0 then default_min_age else go_min_age opts)"

definition gc_compact ::
  "'b store_env \<Rightarrow> (nat \<Rightarrow> time) \<Rightarrow> duration \<Rightarrow> string \<Rightarrow> string \<Rightarrow> string \<Rightarrow> string \<Rightarrow> ref_index \<Rightarrow> gc_options \<Rightarrow> time \<Rightarrow>
   'b store_world \<Rightarrow> gc_result \<times> 'b store_world" where
  "gc_compact env clk default_min_age name sid pid p ix opts deadline w =
     (let r0 = \<lparr> gr_store = name, gr_scanned = 0, gr_orphans = 0, gr_freed = 0, gr_dry = go_dry_run opts, gr_errors = [], gr_aborted = False \<rparr>
      in case bo_list_entries (se_ops env) (sw_phys w p) of
           Inl e \<Rightarrow> (r0\<lparr> gr_errors := [Gc_List e] \<rparr>, w)
         | Inr es \<Rightarrow>
             (case gc_loop env clk ix sid pid p (gc_min_age opts default_min_age) (go_dry_run opts) deadline 0 es
                     (r0\<lparr> gr_scanned := length es \<rparr>, 0, w) of
                (r, freed, w1) \<Rightarrow>
                  if freed > 0
                  then (if sw_fail w1 S_Used then r\<lparr> gr_errors := gr_errors r @ [Gc_Used] \<rparr> else r, update_used_bytes w1 name (- freed))
                  else (r, w1)))"

section \<open>Runs\<close>

datatype gc_failure = Gf_Store | Gf_Group_Store | Gf_Resolver | Gf_Stores | Gf_Refs | Gf_Lock

definition compact_store ::
  "'b store_env \<Rightarrow> (nat \<Rightarrow> time) \<Rightarrow> duration \<Rightarrow> string \<Rightarrow> gc_options \<Rightarrow> 'b store_world \<Rightarrow> (gc_failure + gc_result) \<times> 'b store_world" where
  "compact_store env clk default_min_age name opts w =
     (case (if sw_fail w S_Blob_Get then None else find (\<lambda>b. bs_name b = name) (sw_stores w)) of
        None \<Rightarrow> (Inl Gf_Store, w)
      | Some row \<Rightarrow>
          if bs_type row = ''group'' then (Inl Gf_Group_Store, w)
          else case registry_get (se_azure_url env) (se_reachable env) (sw_registry w) (descriptor_of row) of
            (None, r') \<Rightarrow> (Inl Gf_Resolver, w\<lparr> sw_registry := r' \<rparr>)
          | (Some p, r') \<Rightarrow>
              (let w1 = w\<lparr> sw_registry := r' \<rparr>
               in if sw_fail w1 S_Blob_List then (Inl Gf_Stores, w1)
                  else case referenced_set env w1 (sw_stores w1) of
                    None \<Rightarrow> (Inl Gf_Refs, w1)
                  | Some ix \<Rightarrow>
                      (let res = gc_compact env clk default_min_age name (bs_id row) (identity_of env row) p ix opts zero_time w1
                       in (Inr (fst res), snd res))))"

definition gc_lock_ttl :: duration where
  "gc_lock_ttl = minutes 30"

text \<open>The rows of one run; the \<open>i\<close>-th store is compacted with the clock \<open>clks i\<close>.\<close>

fun compact_rows ::
  "'b store_env \<Rightarrow> (nat \<Rightarrow> nat \<Rightarrow> time) \<Rightarrow> duration \<Rightarrow> ref_index \<Rightarrow> gc_options \<Rightarrow> time \<Rightarrow> nat \<Rightarrow> blob_store list \<Rightarrow>
   'b store_world \<Rightarrow> gc_result list \<times> 'b store_world" where
  "compact_rows env clks dma ix opts deadline i [] w = ([], w)"
| "compact_rows env clks dma ix opts deadline i (row # rows) w =
     (if bs_type row = ''group'' then compact_rows env clks dma ix opts deadline (Suc i) rows w
      else case registry_get (se_azure_url env) (se_reachable env) (sw_registry w) (descriptor_of row) of
        (None, r') \<Rightarrow>
          (let res = compact_rows env clks dma ix opts deadline (Suc i) rows (w\<lparr> sw_registry := r' \<rparr>)
           in (\<lparr> gr_store = bs_name row, gr_scanned = 0, gr_orphans = 0, gr_freed = 0, gr_dry = go_dry_run opts,
                 gr_errors = [Gc_Resolve], gr_aborted = False \<rparr> # fst res, snd res))
      | (Some p, r') \<Rightarrow>
          (let c = gc_compact env (clks i) dma (bs_name row) (bs_id row) (identity_of env row) p ix opts deadline (w\<lparr> sw_registry := r' \<rparr>);
               res = compact_rows env clks dma ix opts deadline (Suc i) rows (snd c)
           in (fst c # fst res, snd res)))"

text \<open>
  \<open>CompactAll\<close>: \<open>lock\<close> is the locker's answer (\<^const>\<open>None\<close> without a locker); \<open>now0\<close> is the time at which the
  deadline is set. \<open>Inr None\<close> is the skipped run.
\<close>

definition compact_all ::
  "'b store_env \<Rightarrow> (nat \<Rightarrow> nat \<Rightarrow> time) \<Rightarrow> duration \<Rightarrow> (lock_err + string) option \<Rightarrow> time \<Rightarrow> gc_options \<Rightarrow> 'b store_world \<Rightarrow>
   (gc_failure + gc_result list option) \<times> 'b store_world" where
  "compact_all env clks dma lock now0 opts w =
     (case lock of
        Some (Inl e) \<Rightarrow> (if e = Err_Lock_Held then (Inr None, w) else (Inl Gf_Lock, w))
      | _ \<Rightarrow>
          if sw_fail w S_Blob_List then (Inl Gf_Stores, w)
          else case referenced_set env w (sw_stores w) of
            None \<Rightarrow> (Inl Gf_Refs, w)
          | Some ix \<Rightarrow>
              (let res = compact_rows env clks dma ix opts (case lock of None \<Rightarrow> zero_time | Some _ \<Rightarrow> now0 + gc_lock_ttl) 0 (sw_stores w) w
               in (Inr (Some (fst res)), snd res)))"

section \<open>Nothing referenced is touched\<close>

lemma physical_by_id_eq:
  assumes "tables_ok w" "b \<in> set (sw_stores w)"
  shows "physical_by_id env (sw_stores w) (bs_id b) = identity_of env b"
proof -
  have "distinct (map bs_id (rev (sw_stores w)))" using tables_ok_stores(1) [OF assms(1)] by (simp flip: rev_map)
  from find_unique [OF this, of b] show ?thesis using assms(2) by (simp add: physical_by_id_def)
qed

text \<open>An index protects every row's object in the namespace where it lies.\<close>

definition protects :: "'b store_env \<Rightarrow> 'b store_world \<Rightarrow> ref_index \<Rightarrow> bool" where
  "protects env w ix \<longleftrightarrow>
     (\<forall>a \<in> set (sw_assets w). \<forall>sid. ref_has ix sid (store_space env w (asset_blob_store_id a)) (asset_blob_key a))"

lemma referenced_set_protects:
  assumes "referenced_set env w (sw_stores w) = Some ix" "tables_ok w" "rows_placed env w"
    "\<And>a. a \<in> set (sw_assets w) \<Longrightarrow> asset_blob_key a \<noteq> [] \<and> CHR '' '' \<notin> set (asset_blob_key a)"
  shows "protects env w ix"
  unfolding protects_def
proof (intro ballI allI)
  fix a sid assume a: "a \<in> set (sw_assets w)"
  have "\<exists>c \<in> set (asset_blob_key a). c \<noteq> CHR '' ''" using assms(4) [OF a] by (metis hd_in_set)
  then have r: "(asset_blob_key a, asset_blob_store_id a) \<in>
      set (remdups (map (\<lambda>a. (asset_blob_key a, asset_blob_store_id a)) (filter (\<lambda>a. \<exists>c \<in> set (asset_blob_key a). c \<noteq> CHR '' '') (sw_assets w))))"
    using a by force
  then obtain refs where refs: "list_all_blob_refs w = Some refs" "(asset_blob_key a, asset_blob_store_id a) \<in> set refs" "ix = index_refs env (sw_stores w) refs"
    using assms(1) unfolding referenced_set_def list_all_blob_refs_def by (auto split: if_splits)
  show "ref_has ix sid (store_space env w (asset_blob_store_id a)) (asset_blob_key a)"
  proof (cases "asset_blob_store_id a = []")
    case True
    then have "asset_blob_key a \<in> set (ri_any ix)" using refs(2,3) by (force simp: index_refs_def)
    then show ?thesis by (simp add: ref_has_def)
  next
    case False
    then obtain b where b: "b \<in> set (sw_stores w)" "bs_id b = asset_blob_store_id a"
      using assms(3) a unfolding rows_placed_def by blast
    have id: "identity_of env b \<noteq> []" using assms(3) b(1) by (simp add: rows_placed_def)
    have ph: "physical_by_id env (sw_stores w) (asset_blob_store_id a) = identity_of env b"
      using physical_by_id_eq [OF assms(2) b(1)] b(2) by simp
    have "(identity_of env b, asset_blob_key a) \<in> set (ri_by_physical ix)"
      using refs(2) False id by (auto simp: refs(3) index_refs_def ph intro!: image_eqI [where x = "(asset_blob_key a, asset_blob_store_id a)"])
    then show ?thesis using store_space_eq [OF assms(2,3) b(1)] b(2) by (simp add: ref_has_def)
  qed
qed

text \<open>What a collection may do: only the objects of unreferenced keys change; the tables keep all but the usage.\<close>

definition collects ::
  "('b \<Rightarrow> string \<Rightarrow> (bytes \<times> time) option) \<Rightarrow> (string \<Rightarrow> bool) \<Rightarrow> ('b \<Rightarrow> bool) \<Rightarrow> ref_index \<Rightarrow> string \<Rightarrow> string \<Rightarrow>
   'b store_world \<Rightarrow> 'b store_world \<Rightarrow> bool" where
  "collects obj entry good ix sid pid w w' \<longleftrightarrow>
     same_layout w w' \<and> sw_assets w' = sw_assets w \<and> (\<forall>q. good (sw_phys w' q)) \<and>
     (\<forall>q k. entry k \<longrightarrow> obj (sw_phys w' q) k = obj (sw_phys w q) k \<or>
        q = pid \<and> \<not> ref_has ix sid pid k \<and> obj (sw_phys w' q) k = None)"

lemma collects_refl: "(\<And>q. good (sw_phys w q)) \<Longrightarrow> collects obj entry good ix sid pid w w"
  by (simp add: collects_def)

lemma collects_trans:
  "collects obj entry good ix sid pid w w1 \<Longrightarrow> collects obj entry good ix sid pid w1 w2 \<Longrightarrow> collects obj entry good ix sid pid w w2"
  unfolding collects_def by (metis same_layout_trans)

text \<open>A world after a collection: the same rows with the same objects.\<close>

definition unharmed ::
  "('b \<Rightarrow> string \<Rightarrow> (bytes \<times> time) option) \<Rightarrow> (string \<Rightarrow> bool) \<Rightarrow> ('b \<Rightarrow> bool) \<Rightarrow> 'b store_env \<Rightarrow> 'b store_world \<Rightarrow> 'b store_world \<Rightarrow> bool" where
  "unharmed obj entry good env w w' \<longleftrightarrow>
     tables_ok w' \<and> registry_ok env w' \<and> sw_assets w' = sw_assets w \<and> map descriptor_of (sw_stores w') = map descriptor_of (sw_stores w) \<and>
     store_space env w' = store_space env w \<and> (\<forall>q. good (sw_phys w' q)) \<and>
     (\<forall>a \<in> set (sw_assets w). entry (asset_blob_key a) \<longrightarrow> row_obj obj env w' a = row_obj obj env w a)"

lemma unharmed_trans:
  "unharmed obj entry good env w w1 \<Longrightarrow> unharmed obj entry good env w1 w2 \<Longrightarrow> unharmed obj entry good env w w2"
  by (simp add: unharmed_def)

lemma unharmed_registry:
  assumes "registry_step env w w'" "tables_ok w" "registry_ok env w" "\<And>q. good (sw_phys w q)"
  shows "unharmed obj entry good env w w'"
  using registry_step_fields [OF assms(1)] registry_step_ok [OF assms(1,3)] assms(2,4) by (simp add: unharmed_def row_obj_def)

lemma unharmed_placed:
  assumes "unharmed obj entry good env w w'" "rows_placed env w"
  shows "rows_placed env w'"
proof -
  have eq: "rows_placed env v \<longleftrightarrow> se_registry_on env \<and>
      (\<forall>d \<in> set (map descriptor_of (sw_stores v)). trim_space (bd_id d) \<noteq> [] \<and> physical_store_identity (se_azure_url env) d \<noteq> []) \<and>
      (\<forall>a \<in> set (sw_assets v). asset_blob_store_id a = [] \<or> (\<exists>d \<in> set (map descriptor_of (sw_stores v)). bd_id d = asset_blob_store_id a))" for v
    by (simp add: rows_placed_def identity_of_def descriptor_of_def)
  show ?thesis using assms unfolding eq unharmed_def by metis
qed

lemma unharmed_protects: "unharmed obj entry good env w w' \<Longrightarrow> protects env w ix \<Longrightarrow> protects env w' ix"
  by (simp add: unharmed_def protects_def)

lemma collects_unharmed:
  assumes "collects obj entry good ix sid pid w w'" "protects env w ix" "tables_ok w" "registry_ok env w"
  shows "unharmed obj entry good env w w'"
proof -
  have l: "same_layout w w'" and a: "sw_assets w' = sw_assets w" and g: "\<forall>q. good (sw_phys w' q)"
    using assms(1) by (simp_all add: collects_def)
  have space: "store_space env w' = store_space env w" by (rule same_layout_space [OF l])
  have "row_obj obj env w' x = row_obj obj env w x" if "x \<in> set (sw_assets w)" "entry (asset_blob_key x)" for x
    using assms(1,2) that unfolding collects_def protects_def row_obj_def space by metis
  then show ?thesis
    using tables_ok_frame [OF assms(3) l a] same_layout_registry_ok [OF l] assms(4) a g space
      map_stores_from_layout [OF l, of descriptor_of] by (simp add: unharmed_def descriptor_of_def)
qed

lemma gc_compact_unfold:
  "gc_compact env clk dma name sid pid p ix opts deadline w =
     (case bo_list_entries (se_ops env) (sw_phys w p) of
        Inl e \<Rightarrow> (\<lparr> gr_store = name, gr_scanned = 0, gr_orphans = 0, gr_freed = 0, gr_dry = go_dry_run opts, gr_errors = [Gc_List e], gr_aborted = False \<rparr>, w)
      | Inr es \<Rightarrow>
          (case gc_loop env clk ix sid pid p (gc_min_age opts dma) (go_dry_run opts) deadline 0 es
                  (\<lparr> gr_store = name, gr_scanned = length es, gr_orphans = 0, gr_freed = 0, gr_dry = go_dry_run opts, gr_errors = [], gr_aborted = False \<rparr>, 0, w) of
             (r, freed, w1) \<Rightarrow>
               if freed > 0
               then (if sw_fail w1 S_Used then r\<lparr> gr_errors := gr_errors r @ [Gc_Used] \<rparr> else r, update_used_bytes w1 name (- freed))
               else (r, w1)))"
  by (simp add: gc_compact_def Let_def cong: sum.case_cong)

context blob_store_laws
begin

lemma gc_loop_collects:
  assumes "se_ops env = ops" "\<And>q. good (sw_phys w q)" "\<And>e. e \<in> set es \<Longrightarrow> entry (be_key e)"
    "gc_loop env clk ix sid p p min_age dry deadline n es (r, freed, w) = (r', freed', w')"
  shows "collects obj entry good ix sid p w w'"
  using assms(2-4)
proof (induction es arbitrary: n r freed w)
  case Nil
  then show ?case by (simp add: collects_refl)
next
  case (Cons e es)
  show ?case
  proof (cases "past_deadline (clk n) deadline")
    case True
    then show ?thesis using Cons.prems by (simp add: collects_refl)
  next
    case False
    obtain r1 f1 w1 where st: "(if ref_has ix sid p (be_key e) then (r, freed, w)
         else if has_prefix (be_key e) backup_key_prefix then (r, freed, w)
         else if too_young (clk (n + 1)) min_age e then (r, freed, w)
         else
           (let r1 = r\<lparr> gr_orphans := Suc (gr_orphans r), gr_freed := add64 (gr_freed r) (be_size e) \<rparr>
            in if dry then (r1, freed, w)
               else case phys_delete env p (be_key e) w of
                 (Some x, w1) \<Rightarrow> (r1\<lparr> gr_errors := gr_errors r1 @ [Gc_Delete (be_key e) x] \<rparr>, freed, w1)
               | (None, w1) \<Rightarrow> (r1, add64 freed (be_size e), w1))) = (r1, f1, w1)" (is "?step = _")
      by (cases ?step)
    have rest: "gc_loop env clk ix sid p p min_age dry deadline (n + 2) es (r1, f1, w1) = (r', freed', w')"
      using Cons.prems(3) False st by simp
    have "collects obj entry good ix sid p w w1"
    proof (cases "w1 = w")
      case True
      then show ?thesis using Cons.prems(1) by (simp add: collects_refl)
    next
      case changed: False
      obtain o1 v where d: "phys_delete env p (be_key e) w = (o1, v)" by (cases "phys_delete env p (be_key e) w")
      have ent: "entry (be_key e)" using Cons.prems(2) by simp
      have nr: "\<not> ref_has ix sid p (be_key e)" and v: "w1 = v"
        using st changed d by (auto simp: Let_def split: if_splits option.splits)
      note t = phys_delete_touches [OF d assms(1) Cons.prems(1) ent]
      have other: "obj (sw_phys v q) k = obj (sw_phys w q) k" if "entry k" "(q, k) \<noteq> (p, be_key e)" for q k
        using phys_delete_other [OF d assms(1) Cons.prems(1) ent that] .
      show ?thesis
        unfolding collects_def v
      proof (intro conjI allI impI)
        show "same_layout w v" "sw_assets v = sw_assets w" using phys_only_frame [OF t(2)] by simp_all
        show "good (sw_phys v q)" for q using t(1) by (simp add: touches_def)
        show "obj (sw_phys v q) k = obj (sw_phys w q) k \<or> q = p \<and> \<not> ref_has ix sid p k \<and> obj (sw_phys v q) k = None"
          if "entry k" for q k
        proof (cases "(q, k) = (p, be_key e)")
          case False
          then show ?thesis using other [OF that False] by simp
        next
          case True
          then have qk: "q = p" "k = be_key e" by simp_all
          show ?thesis
          proof (cases o1)
            case None
            then show ?thesis using t(3) nr qk by simp
          next
            case (Some x)
            then show ?thesis using t(4) [OF Some that] by blast
          qed
        qed
      qed
    qed
    moreover have "collects obj entry good ix sid p w1 w'"
      by (rule Cons.IH [OF _ _ rest]) (use calculation Cons.prems(2) in \<open>auto simp: collects_def\<close>)
    ultimately show ?thesis by (rule collects_trans)
  qed
qed

lemma gc_compact_collects:
  assumes "se_ops env = ops" "\<And>q. good (sw_phys w q)" "gc_compact env clk dma name sid p p ix opts deadline w = (r, w')"
  shows "collects obj entry good ix sid p w w'"
proof (cases "bo_list_entries ops (sw_phys w p)")
  case (Inl e)
  then show ?thesis using assms by (simp add: gc_compact_unfold collects_refl)
next
  case (Inr es)
  let ?r0 = "\<lparr> gr_store = name, gr_scanned = length es, gr_orphans = 0, gr_freed = 0, gr_dry = go_dry_run opts, gr_errors = [], gr_aborted = False \<rparr>"
  obtain r1 freed w1 where l: "gc_loop env clk ix sid p p (gc_min_age opts dma) (go_dry_run opts) deadline 0 es (?r0, 0, w) = (r1, freed, w1)"
    by (cases "gc_loop env clk ix sid p p (gc_min_age opts dma) (go_dry_run opts) deadline 0 es (?r0, 0, w)")
  have ent: "\<And>e. e \<in> set es \<Longrightarrow> entry (be_key e)" using list_sound [OF assms(2) Inr] by blast
  have c: "collects obj entry good ix sid p w w1" by (rule gc_loop_collects [OF assms(1,2) ent l])
  have "w' = w1 \<or> w' = update_used_bytes w1 name (- freed)"
    using assms(1,3) Inr l by (auto simp: gc_compact_unfold split: if_splits)
  moreover have "collects obj entry good ix sid p w1 (update_used_bytes w1 name (- freed))"
    using c update_used_bytes_layout [of w1 name "- freed"] by (simp add: collects_def)
  ultimately show ?thesis using c collects_trans [OF c] by blast
qed

lemma compact_rows_unharmed:
  assumes "se_ops env = ops" "tables_ok w" "registry_ok env w" "rows_placed env w" "\<And>q. good (sw_phys w q)" "protects env w ix"
    "\<And>row. row \<in> set rows \<Longrightarrow> descriptor_of row \<in> set (map descriptor_of (sw_stores w))"
    "compact_rows env clks dma ix opts deadline i rows w = (rs, w')"
  shows "unharmed obj entry good env w w'"
  using assms(2-)
proof (induction rows arbitrary: i w rs)
  case Nil
  then show ?case by (simp add: unharmed_registry)
next
  case (Cons row rows)
  have step: ?case
    if u: "unharmed obj entry good env w w1" and rest: "compact_rows env clks dma ix opts deadline (Suc i) rows w1 = (rs1, w')" for w1 rs1
  proof -
    have "unharmed obj entry good env w1 w'"
      by (rule Cons.IH [OF _ _ unharmed_placed [OF u Cons.prems(3)] _ unharmed_protects [OF u Cons.prems(5)] _ rest])
        (use u Cons.prems(6) in \<open>auto simp: unharmed_def\<close>)
    then show ?thesis using unharmed_trans [OF u] by blast
  qed
  show ?case
  proof (cases "bs_type row = ''group''")
    case True
    then show ?thesis
      using step [of w] Cons.prems unharmed_registry [of env w w good obj entry] by auto
  next
    case False
    obtain b where b: "b \<in> set (sw_stores w)" "descriptor_of b = descriptor_of row" using Cons.prems(6) [of row] by force
    obtain o1 r' where g: "registry_get (se_azure_url env) (se_reachable env) (sw_registry w) (descriptor_of row) = (o1, r')"
      by (cases "registry_get (se_azure_url env) (se_reachable env) (sw_registry w) (descriptor_of row)")
    note rg = registry_get_step [OF g [folded b(2)] b(1) Cons.prems(1-3)]
    have id: "identity_of env b = identity_of env row" using b(2) by (simp add: identity_of_def)
    note u1 = unharmed_registry [where obj = obj and entry = entry and good = good, OF rg(1) Cons.prems(1,2,4)]
    show ?thesis
    proof (cases o1)
      case None
      then show ?thesis using Cons.prems(7) False g step [OF u1]
        by (cases "compact_rows env clks dma ix opts deadline (Suc i) rows (w\<lparr> sw_registry := r' \<rparr>)") (simp add: Let_def)
    next
      case (Some p)
      have p: "p = identity_of env row" using rg(2) Some id by simp
      obtain c w2 where c: "gc_compact env (clks i) dma (bs_name row) (bs_id row) p p ix opts deadline (w\<lparr> sw_registry := r' \<rparr>) = (c, w2)"
        by (cases "gc_compact env (clks i) dma (bs_name row) (bs_id row) p p ix opts deadline (w\<lparr> sw_registry := r' \<rparr>)")
      have good1: "\<And>q. good (sw_phys (w\<lparr> sw_registry := r' \<rparr>) q)" using Cons.prems(4) by simp
      have "unharmed obj entry good env (w\<lparr> sw_registry := r' \<rparr>) w2"
        using collects_unharmed [OF gc_compact_collects [OF assms(1) good1 c] unharmed_protects [OF u1 Cons.prems(5)]]
          u1 by (auto simp: unharmed_def)
      then have u2: "unharmed obj entry good env w w2" using unharmed_trans [OF u1] by blast
      show ?thesis using Cons.prems(7) False g Some c p step [OF u2]
        by (cases "compact_rows env clks dma ix opts deadline (Suc i) rows w2") (simp add: Let_def)
    qed
  qed
qed

lemma gc_view:
  assumes u: "unharmed obj entry good env w w'" and int: "intact obj valid good env w"
  shows "intact obj valid good env w' \<and> row_at w' = row_at w \<and> content obj env w' = content obj env w"
proof -
  have rows: "row_at w' = row_at w" using u by (intro row_at_frame) (simp add: unharmed_def)
  have v: "entry (asset_blob_key a)" if "row_at w rn path = Some a" for rn path a
    using int that valid_entry by (auto simp: intact_def)
  have objs: "row_obj obj env w' a = row_obj obj env w a" if "row_at w rn path = Some a" for rn path a
    using u v [OF that] row_at_mem [OF that] by (simp add: unharmed_def)
  have "content obj env w' = content obj env w"
    by (intro ext) (simp add: content_def rows objs split: option.split)
  moreover have "intact obj valid good env w'"
    unfolding intact_def rows
  proof (intro conjI allI impI)
    show "good (sw_phys w' p)" for p using u by (simp add: unharmed_def)
    fix rn path a assume a: "row_at w rn path = Some a"
    show "valid (asset_blob_key a)" "\<exists>c t. row_obj obj env w' a = Some (c, t) \<and> asset_sha256 a = se_sha256 env c"
      using int a objs [OF a] by (simp_all add: intact_def)
  qed
  ultimately show ?thesis using rows by simp
qed

lemma compact_all_unharmed:
  assumes "se_ops env = ops" "tables_ok w" "registry_ok env w" "rows_placed env w" "intact obj valid good env w"
    "\<And>a. a \<in> set (sw_assets w) \<Longrightarrow> asset_blob_key a \<noteq> [] \<and> CHR '' '' \<notin> set (asset_blob_key a)"
  shows "unharmed obj entry good env w (snd (compact_all env clks dma lock now0 opts w))"
proof -
  have good: "\<And>q. good (sw_phys w q)" using assms(5) by (simp add: intact_def)
  have same: "unharmed obj entry good env w w" using unharmed_registry [where obj = obj and entry = entry and good = good, OF registry_step_refl assms(2,3) good] .
  show ?thesis
  proof (cases "referenced_set env w (sw_stores w)")
    case None
    then show ?thesis using same by (auto simp: compact_all_def split: option.split sum.split)
  next
    case (Some ix)
    have pr: "protects env w ix" by (rule referenced_set_protects [OF Some assms(2,4,6)])
    have "unharmed obj entry good env w (snd (compact_rows env clks dma ix opts dl 0 (sw_stores w) w))" for dl
      by (rule compact_rows_unharmed [OF assms(1-4) good pr _ prod.collapse [symmetric]]) simp
    then show ?thesis using same Some by (auto simp: compact_all_def Let_def split: option.split sum.split)
  qed
qed

lemma compact_store_unharmed:
  assumes "se_ops env = ops" "tables_ok w" "registry_ok env w" "rows_placed env w" "intact obj valid good env w"
    "\<And>a. a \<in> set (sw_assets w) \<Longrightarrow> asset_blob_key a \<noteq> [] \<and> CHR '' '' \<notin> set (asset_blob_key a)"
  shows "unharmed obj entry good env w (snd (compact_store env clk dma name opts w))"
proof -
  have good: "\<And>q. good (sw_phys w q)" using assms(5) by (simp add: intact_def)
  have same: "unharmed obj entry good env w w" using unharmed_registry [where obj = obj and entry = entry and good = good, OF registry_step_refl assms(2,3) good] .
  show ?thesis
  proof (cases "(if sw_fail w S_Blob_Get then None else find (\<lambda>b. bs_name b = name) (sw_stores w))")
    case None
    then show ?thesis using same by (simp add: compact_store_def)
  next
    case (Some row)
    then have row: "row \<in> set (sw_stores w)" by (auto dest: find_mem split: if_splits)
    obtain o1 r' where g: "registry_get (se_azure_url env) (se_reachable env) (sw_registry w) (descriptor_of row) = (o1, r')"
      by (cases "registry_get (se_azure_url env) (se_reachable env) (sw_registry w) (descriptor_of row)")
    note rg = registry_get_step [OF g row assms(2-4)]
    note u1 = unharmed_registry [where obj = obj and entry = entry and good = good, OF rg(1) assms(2,3) good]
    let ?w1 = "w\<lparr> sw_registry := r' \<rparr>"
    have compacted: "unharmed obj entry good env w (snd (gc_compact env clk dma name (bs_id row) (identity_of env row) p ix opts zero_time ?w1))"
      if "o1 = Some p" "referenced_set env ?w1 (sw_stores ?w1) = Some ix" for p ix
    proof -
      have p: "p = identity_of env row" by (rule rg(2) [OF that(1)])
      have ok1: "tables_ok ?w1" "registry_ok env ?w1" using u1 by (simp_all add: unharmed_def)
      have pr: "protects env ?w1 ix"
        by (rule referenced_set_protects [OF that(2) ok1(1) unharmed_placed [OF u1 assms(4)]]) (use assms(6) in auto)
      have good1: "\<And>q. good (sw_phys ?w1 q)" using good by simp
      have "collects obj entry good ix (bs_id row) p ?w1 (snd (gc_compact env clk dma name (bs_id row) p p ix opts zero_time ?w1))"
        by (rule gc_compact_collects [OF assms(1) good1 prod.collapse [symmetric]])
      from collects_unharmed [OF this pr ok1] show ?thesis using unharmed_trans [OF u1] p by simp
    qed
    show ?thesis
      using Some g same u1 compacted by (auto simp: compact_store_def Let_def split: option.split)
  qed
qed

text \<open>A loop without errors has deleted every old orphan.\<close>

lemma gc_loop_complete:
  assumes "se_ops env = ops" "\<And>q. good (sw_phys w q)" "\<And>e. e \<in> set es \<Longrightarrow> entry (be_key e)"
    "gc_loop env clk ix sid p p min_age False zero_time n es (r, freed, w) = (r', freed', w')" "gr_errors r' = []"
  shows "gr_errors r = [] \<and> (\<forall>e \<in> set es. \<not> ref_has ix sid p (be_key e) \<longrightarrow> \<not> has_prefix (be_key e) backup_key_prefix \<longrightarrow>
     (\<forall>m. \<not> too_young (clk m) min_age e) \<longrightarrow> obj (sw_phys w' p) (be_key e) = None)"
  using assms(2-5)
proof (induction es arbitrary: n r freed w)
  case Nil
  then show ?case by simp
next
  case (Cons e es)
  obtain r1 f1 w1 where st: "(if ref_has ix sid p (be_key e) then (r, freed, w)
         else if has_prefix (be_key e) backup_key_prefix then (r, freed, w)
         else if too_young (clk (n + 1)) min_age e then (r, freed, w)
         else
           (let r1 = r\<lparr> gr_orphans := Suc (gr_orphans r), gr_freed := add64 (gr_freed r) (be_size e) \<rparr>
            in if False then (r1, freed, w)
               else case phys_delete env p (be_key e) w of
                 (Some x, w1) \<Rightarrow> (r1\<lparr> gr_errors := gr_errors r1 @ [Gc_Delete (be_key e) x] \<rparr>, freed, w1)
               | (None, w1) \<Rightarrow> (r1, add64 freed (be_size e), w1))) = (r1, f1, w1)" (is "?step = _")
    by (cases ?step)
  have rest: "gc_loop env clk ix sid p p min_age False zero_time (n + 2) es (r1, f1, w1) = (r', freed', w')"
    using Cons.prems(3) st by (simp add: past_deadline_def)
  have one: "gc_loop env clk ix sid p p min_age False zero_time n [e] (r, freed, w) = (r1, f1, w1)"
    using st by (simp add: past_deadline_def)
  have c1: "collects obj entry good ix sid p w w1"
    by (rule gc_loop_collects [OF assms(1) Cons.prems(1) _ one]) (use Cons.prems(2) in auto)
  have good1: "\<And>q. good (sw_phys w1 q)" using c1 by (simp add: collects_def)
  have ents: "\<And>x. x \<in> set es \<Longrightarrow> entry (be_key x)" using Cons.prems(2) by simp
  note ih = Cons.IH [OF good1 ents rest Cons.prems(4)]
  have c2: "collects obj entry good ix sid p w1 w'" by (rule gc_loop_collects [OF assms(1) good1 ents rest])
  have ent: "entry (be_key e)" using Cons.prems(2) by simp
  obtain o1 v where d: "phys_delete env p (be_key e) w = (o1, v)" by (cases "phys_delete env p (be_key e) w")
  have errs: "gr_errors r = []" using ih st by (auto simp: Let_def d split: if_splits option.splits)
  have "obj (sw_phys w' p) (be_key e) = None"
    if c: "\<not> ref_has ix sid p (be_key e)" "\<not> has_prefix (be_key e) backup_key_prefix" "\<forall>m. \<not> too_young (clk m) min_age e"
  proof -
    have "o1 = None \<and> w1 = v" using ih st c by (auto simp: Let_def d split: option.splits)
    then have "obj (sw_phys w1 p) (be_key e) = None" using phys_delete_touches(3) [OF d assms(1) Cons.prems(1) ent] by simp
    then show ?thesis using c2 ent unfolding collects_def by metis
  qed
  then show ?case using ih errs by auto
qed

lemma compact_store_complete:
  assumes "compact_store env clk dma name opts w = (Inr r, w')" "se_ops env = ops" "tables_ok w" "registry_ok env w" "rows_placed env w"
    "\<And>q. good (sw_phys w q)" "b \<in> set (sw_stores w)" "bs_name b = name" "\<not> go_dry_run opts" "gr_errors r = []"
    "entry k" "obj (sw_phys w (identity_of env b)) k = Some (c, t)" "\<not> has_prefix k backup_key_prefix"
    "\<And>a. a \<in> set (sw_assets w) \<Longrightarrow> asset_blob_key a = k \<Longrightarrow>
       asset_blob_store_id a \<noteq> [] \<and> store_space env w (asset_blob_store_id a) \<noteq> identity_of env b"
    "\<And>m. \<not> too_young (clk m) (gc_min_age opts dma) \<lparr> be_key = k, be_size = int (length c), be_mod_time = t \<rparr>"
  shows "obj (sw_phys w' (identity_of env b)) k = None"
proof -
  have f: "\<not> sw_fail w S_Blob_Get" using assms(1) by (auto simp: compact_store_def split: if_splits)
  have "distinct (map bs_name (sw_stores w))" using tables_ok_static(4) [OF assms(3)] .
  from find_unique [OF this assms(7)] have row: "find (\<lambda>b. bs_name b = name) (sw_stores w) = Some b" using assms(8) by simp
  have ng: "bs_type b \<noteq> ''group''" using assms(1) row f by (auto simp: compact_store_def)
  obtain o1 r' where g: "registry_get (se_azure_url env) (se_reachable env) (sw_registry w) (descriptor_of b) = (o1, r')"
    by (cases "registry_get (se_azure_url env) (se_reachable env) (sw_registry w) (descriptor_of b)")
  note rg = registry_get_step [OF g assms(7,3-5)]
  let ?w1 = "w\<lparr> sw_registry := r' \<rparr>"
  let ?p = "identity_of env b"
  obtain p ix where p: "o1 = Some p" and ix: "referenced_set env ?w1 (sw_stores ?w1) = Some ix"
    and res: "gc_compact env clk dma name (bs_id b) ?p ?p ix opts zero_time ?w1 = (r, w')"
    using assms(1) row f ng g rg(2) by (auto simp: compact_store_def Let_def split: option.splits if_splits)
  obtain es where es: "bo_list_entries ops (sw_phys w ?p) = Inr es"
    using res assms(2,10) by (cases "bo_list_entries ops (sw_phys w ?p)") (auto simp: gc_compact_unfold)
  let ?r0 = "\<lparr> gr_store = name, gr_scanned = length es, gr_orphans = 0, gr_freed = 0, gr_dry = False, gr_errors = [], gr_aborted = False \<rparr>"
  obtain r1 freed w2 where l: "gc_loop env clk ix (bs_id b) ?p ?p (gc_min_age opts dma) False zero_time 0 es (?r0, 0, ?w1) = (r1, freed, w2)"
    by (cases "gc_loop env clk ix (bs_id b) ?p ?p (gc_min_age opts dma) False zero_time 0 es (?r0, 0, ?w1)")
  have fin: "gr_errors r1 = []" "sw_phys w' = sw_phys w2"
    using res assms(2,9,10) es l by (auto simp: gc_compact_unfold update_used_bytes_layout split: if_splits)
  obtain en where en: "en \<in> set es" "be_key en = k" using list_complete [OF assms(6) es assms(11)] assms(12) by auto
  then have "en = \<lparr> be_key = k, be_size = int (length c), be_mod_time = t \<rparr>"
    using list_sound [OF assms(6) es en(1)] assms(12) by (cases en) auto
  then have old: "\<And>m. \<not> too_young (clk m) (gc_min_age opts dma) en" using assms(15) by simp
  have "\<not> ref_has ix (bs_id b) ?p k"
  proof
    assume "ref_has ix (bs_id b) ?p k"
    moreover obtain refs where refs: "ix = index_refs env (sw_stores w) refs"
      "\<And>k s. (k, s) \<in> set refs \<Longrightarrow> \<exists>a \<in> set (sw_assets w). asset_blob_key a = k \<and> asset_blob_store_id a = s"
    proof (rule that)
      show "ix = index_refs env (sw_stores w) (remdups (map (\<lambda>a. (asset_blob_key a, asset_blob_store_id a))
          (filter (\<lambda>a. \<exists>c \<in> set (asset_blob_key a). c \<noteq> CHR '' '') (sw_assets w))))"
        using ix by (auto simp: referenced_set_def list_all_blob_refs_def split: if_splits)
    qed auto
    ultimately obtain a where a: "a \<in> set (sw_assets w)" "asset_blob_key a = k"
      "asset_blob_store_id a = [] \<or> asset_blob_store_id a = bs_id b \<or> physical_by_id env (sw_stores w) (asset_blob_store_id a) = ?p"
      by (fastforce simp: ref_has_def index_refs_def)
    then have nz: "asset_blob_store_id a \<noteq> []" "store_space env w (asset_blob_store_id a) \<noteq> ?p" using assms(14) by auto
    then obtain b' where b': "b' \<in> set (sw_stores w)" "bs_id b' = asset_blob_store_id a"
      using assms(5) a(1) unfolding rows_placed_def by blast
    have sp: "store_space env w (asset_blob_store_id a) = physical_by_id env (sw_stores w) (asset_blob_store_id a)"
      using store_space_eq [OF assms(3,5) b'(1)] physical_by_id_eq [OF assms(3) b'(1), of env] b'(2) by simp
    show False using a(3) nz sp store_space_eq [OF assms(3,5,7)] by auto
  qed
  then have nr: "\<not> ref_has ix (bs_id b) ?p (be_key en)" using en(2) by simp
  have good1: "\<And>q. good (sw_phys ?w1 q)" using assms(6) by simp
  have ents: "\<And>e. e \<in> set es \<Longrightarrow> entry (be_key e)" using list_sound [OF assms(6) es] by blast
  have "\<not> has_prefix (be_key en) backup_key_prefix" using assms(13) en(2) by simp
  then have "obj (sw_phys w2 ?p) (be_key en) = None"
    using gc_loop_complete [OF assms(2) good1 ents l fin(1), THEN conjunct2] en(1) nr old by simp
  then show ?thesis using en(2) fin(2) by simp
qed

end

section \<open>Properties\<close>

lemma intact_keys:
  assumes "intact local_obj valid_key local_good env w" "tables_ok w" "a \<in> set (sw_assets w)"
  shows "asset_blob_key a \<noteq> [] \<and> CHR '' '' \<notin> set (asset_blob_key a)"
proof -
  have "valid_key (asset_blob_key a)" using assms(1) row_at_self [OF assms(2,3)] unfolding intact_def by blast
  then show ?thesis by (auto simp: valid_key_def)
qed

text \<open>
  In the model every identity of a store has a disk of its own. So it is in the program when different identities
  are different directories, none inside another. Identities are made of the configured path as written; the paths
  \<open>./data/blobs\<close> and \<open>./data/blobs/\<close> are two identities of one directory, which \<open>dirs_apart\<close> excludes.
\<close>

definition disk_dir :: "string \<Rightarrow> string option" where
  "disk_dir p = (if has_prefix p ''local|'' then Some (path_clean (trim_prefix p ''local|'')) else None)"

definition dir_prefix :: "string \<Rightarrow> string" where
  "dir_prefix d = (if d = ''.'' then [] else if d = [slash] then d else d @ [slash])"

definition dirs_apart :: "'b store_env \<Rightarrow> 'b store_world \<Rightarrow> bool" where
  "dirs_apart env w \<longleftrightarrow>
     (let ps = rg_default (sw_registry w) # map (identity_of env) (sw_stores w)
      in \<forall>p \<in> set ps. \<forall>q \<in> set ps. p \<noteq> q \<longrightarrow>
           (case (disk_dir p, disk_dir q) of (Some a, Some b) \<Rightarrow> a \<noteq> b \<and> \<not> has_prefix b (dir_prefix a) | _ \<Rightarrow> True))"


lemma demo_placed: "rows_placed demo_env (snd (demo_put (demo_world ''allow'' None) ''hello'' 5))"
proof -
  let ?w = "snd (demo_put (demo_world ''allow'' None) ''hello'' 5)"
  have "map bs_id (sw_stores ?w) = [''s1'']" "map (identity_of demo_env) (sw_stores ?w) = [''local|./data/blobs'']"
    "map asset_blob_store_id (sw_assets ?w) = [''s1'']"
    by code_simp+
  moreover have "trim_space ''s1'' \<noteq> []" by code_simp
  ultimately show ?thesis by (auto simp: rows_placed_def demo_env_def map_eq_Cons_conv)
qed


text \<open>
  C9: garbage collection reclaims. After a real run over one store that reports no error, no old object
  of the store's namespace is left that no row refers to, backups apart.
\<close>

theorem gc_collects_orphans:
  assumes "compact_store env clk dma name opts w = (Inr r, w')" "se_ops env = local_ops" "tables_ok w" "registry_ok env w" "rows_placed env w"
    "\<And>q. local_good (sw_phys w q)" "b \<in> set (sw_stores w)" "bs_name b = name" "\<not> go_dry_run opts" "gr_errors r = []"
    "entry_key k" "local_obj (sw_phys w (identity_of env b)) k = Some (c, t)" "\<not> has_prefix k backup_key_prefix"
    "\<And>a. a \<in> set (sw_assets w) \<Longrightarrow> asset_blob_key a = k \<Longrightarrow>
       asset_blob_store_id a \<noteq> [] \<and> store_space env w (asset_blob_store_id a) \<noteq> identity_of env b"
    "\<And>m. \<not> too_young (clk m) (gc_min_age opts dma) \<lparr> be_key = k, be_size = int (length c), be_mod_time = t \<rparr>"
  shows "local_obj (sw_phys w' (identity_of env b)) k = None"
  by (rule local_blobs.compact_store_complete [OF assms])

text \<open>The example store with an object nothing refers to.\<close>

definition demo_orphan :: "local_store store_world" where
  "demo_orphan = snd (phys_put demo_env ''local|./data/blobs'' ''feed00'' (demo_body ''old'') 3 (demo_world ''allow'' None))"

theorem gc_collects_orphans_witness:
  "local_obj (sw_phys (snd (compact_store demo_env (\<lambda>_. 10 ^ 18) (minutes 60) ''default'' \<lparr> go_dry_run = False, go_min_age = 0 \<rparr> demo_orphan))
     ''local|./data/blobs'') ''feed00'' = None"
proof -
  let ?run = "compact_store demo_env (\<lambda>_. 10 ^ 18) (minutes 60) ''default'' \<lparr> go_dry_run = False, go_min_age = 0 \<rparr> demo_orphan"
  have env: "se_ops demo_env = local_ops" by (simp add: demo_env_def)
  have good: "\<And>q. local_good (sw_phys (demo_world ''allow'' None) q)" using demo_invariants(3) by (simp add: intact_def)
  have v: "valid_key ''feed00''" "entry_key ''feed00''" by code_simp+
  note t = local_blobs.phys_put_touches [OF prod.collapse [symmetric] env good v(1), of "''local|./data/blobs''" "demo_body ''old''" 3, folded demo_orphan_def]
  note f = local_blobs.phys_only_frame [OF t(2)]
  have ok: "tables_ok demo_orphan" "registry_ok demo_env demo_orphan" "\<And>q. local_good (sw_phys demo_orphan q)"
    using demo_invariants(1) f(5) demo_invariants(2) same_layout_registry_ok [OF f(1)] t(1) by (simp_all add: touches_def)
  have "trim_space ''s1'' \<noteq> []" by code_simp
  then have pl: "rows_placed demo_env demo_orphan"
    using f(2,3) by (simp add: rows_placed_def demo_world_def demo_env_def demo_store_def identity_of_def descriptor_of_def
        physical_store_identity_def str_val_def Let_def)
  have b: "demo_store None 0 \<in> set (sw_stores demo_orphan)" "bs_name (demo_store None 0) = ''default''"
    using f(3) by (simp_all add: demo_world_def demo_store_def)
  have id: "identity_of demo_env (demo_store None 0) = ''local|./data/blobs''" by code_simp
  have o: "local_obj (sw_phys demo_orphan ''local|./data/blobs'') ''feed00'' = Some (''old'', 5)" by code_simp
  have "case fst ?run of Inl _ \<Rightarrow> False | Inr r \<Rightarrow> gr_errors r = []" by code_simp
  then obtain r where r: "?run = (Inr r, snd ?run)" "gr_errors r = []" by (cases "fst ?run") (auto simp: prod_eq_iff)
  have as: "sw_assets demo_orphan = []" using f(2) by (simp add: demo_world_def)
  show ?thesis
    using gc_collects_orphans [OF r(1) env ok(1,2) pl ok(3) b _ r(2) v(2), unfolded id, OF _ o] as
    by (simp add: too_young_def gc_min_age_def minutes_def time_sub_def zero_time_def has_prefix_def backup_key_prefix_def)
qed

end
