(* ===== verification/Blob_Migration.thy ===== *)
theory Blob_Migration
  imports Store_Example Placement Dist_Lock "HOL-Library.List_Lexorder" "HOL-Library.Char_ord"
begin

text \<open>
  Moving a repository's blobs from one store to another: \<open>internal/service/blob_store_migration_service.go\<close>
  with the job table of \<open>repository/postgres/blob_store_migration_repo.go\<close> and the asset queries it makes.
  The store keeps serving requests during a run: \<open>others\<close> is what they do to the world at the three
  points of each row where the code lets go of it.
\<close>

section \<open>The job table\<close>

datatype mig_msg =
    Mm_Target_Gone | Mm_Interrupted | Mm_Panic | Mm_Rows | Mm_Target | Mm_Open_Target | Mm_Deadline nat nat
  | Mm_Source string | Mm_Open_Source | Mm_Check string store_err | Mm_Read string store_err | Mm_Write string store_err
  | Mm_Recheck string store_err | Mm_Changed string int int | Mm_Flip_Recheck string store_err
  | Mm_Flip_Changed string int int | Mm_Flip_Rows string | Mm_Flip_Lock

record migration =
  mg_id :: string
  mg_repository :: string
  mg_source :: string
  mg_target :: string
  mg_status :: string
  mg_total_assets :: nat
  mg_done_assets :: nat
  mg_total_bytes :: int
  mg_done_bytes :: int
  mg_error :: "mig_msg option"
  mg_started_at :: "time option"
  mg_finished_at :: "time option"

datatype mig_call =
    M_Create | M_Active | M_Get | M_Status | M_Rows | M_Totals | M_Progress | M_Finish nat | M_List_Active | M_Release | M_Force

text \<open>
  The service over the artifact store: the jobs in the order of their insertion, the ids whose cancel
  function is registered, and the distributed locks held.
\<close>

record 'b mig_world =
  mw_store :: "'b store_world"
  mw_jobs :: "migration list"
  mw_next :: nat
  mw_cancels :: "string list"
  mw_locks :: "string list"
  mw_fail :: "mig_call \<Rightarrow> bool"

definition is_active :: "migration \<Rightarrow> bool" where
  "is_active m \<longleftrightarrow> mg_status m = ''pending'' \<or> mg_status m = ''running''"

definition active_by_repo :: "'b mig_world \<Rightarrow> string \<Rightarrow> migration option" where
  "active_by_repo w rn = find (\<lambda>m. mg_repository m = rn \<and> is_active m) (rev (mw_jobs w))"

definition latest_by_repo :: "'b mig_world \<Rightarrow> string \<Rightarrow> migration option" where
  "latest_by_repo w rn = find (\<lambda>m. mg_repository m = rn) (rev (mw_jobs w))"

definition list_active :: "'b mig_world \<Rightarrow> migration list" where
  "list_active w = filter is_active (mw_jobs w)"

datatype create_err = Ce_Target | Ce_Db | Ce_Exists

text \<open>The insert: the partial unique index allows one active job of a repository.\<close>

definition mig_create :: "'b mig_world \<Rightarrow> migration \<Rightarrow> (create_err + migration) \<times> 'b mig_world" where
  "mig_create w m =
     (if mg_target m = [] then (Inl Ce_Target, w)
      else if mw_fail w M_Create then (Inl Ce_Db, w)
      else if active_by_repo w (mg_repository m) \<noteq> None \<and> is_active m then (Inl Ce_Exists, w)
      else (let m' = m\<lparr> mg_id := ''mig-'' @ itoa (int (mw_next w)) \<rparr>
            in (Inr m', w\<lparr> mw_jobs := mw_jobs w @ [m'], mw_next := Suc (mw_next w) \<rparr>)))"

definition update_job :: "string \<Rightarrow> (migration \<Rightarrow> migration) \<Rightarrow> 'b mig_world \<Rightarrow> 'b mig_world" where
  "update_job i f w = w\<lparr> mw_jobs := map (\<lambda>m. if mg_id m = i then f m else m) (mw_jobs w) \<rparr>"

definition set_totals :: "string \<Rightarrow> nat \<Rightarrow> int \<Rightarrow> 'b mig_world \<Rightarrow> 'b mig_world" where
  "set_totals i n b w =
     (if mw_fail w M_Totals then w else update_job i (\<lambda>m. m\<lparr> mg_total_assets := n, mg_total_bytes := b \<rparr>) w)"

definition update_progress :: "string \<Rightarrow> nat \<Rightarrow> int \<Rightarrow> 'b mig_world \<Rightarrow> 'b mig_world" where
  "update_progress i n b w =
     (if mw_fail w M_Progress then w else update_job i (\<lambda>m. m\<lparr> mg_done_assets := n, mg_done_bytes := b \<rparr>) w)"

definition update_status :: "string \<Rightarrow> string \<Rightarrow> mig_msg option \<Rightarrow> 'b mig_world \<Rightarrow> 'b mig_world option" where
  "update_status i st msg w =
     (if mw_fail w M_Status then None
      else Some (update_job i (\<lambda>m. m\<lparr> mg_status := st, mg_error := msg,
             mg_started_at := (case mg_started_at m of Some t \<Rightarrow> Some t
                               | None \<Rightarrow> if st = ''running'' then Some (sw_now (mw_store w)) else None) \<rparr>) w))"

text \<open>The caller ignores a failure; \<open>site\<close> tells the callers apart.\<close>

definition finish_migration :: "nat \<Rightarrow> string \<Rightarrow> string \<Rightarrow> mig_msg option \<Rightarrow> 'b mig_world \<Rightarrow> 'b mig_world" where
  "finish_migration site i st msg w =
     (if mw_fail w (M_Finish site) then w
      else update_job i (\<lambda>m. m\<lparr> mg_status := st, mg_error := msg, mg_finished_at := Some (sw_now (mw_store w)) \<rparr>) w)"

section \<open>Rows to move\<close>

record mig_row =
  mr_key :: string
  mr_source :: string
  mr_size :: int

definition list_for_migration :: "'b store_world \<Rightarrow> string \<Rightarrow> string \<Rightarrow> mig_row list" where
  "list_for_migration w rn target =
     sort_key mr_key (remdups (map (\<lambda>a. \<lparr> mr_key = asset_blob_key a, mr_source = asset_blob_store_id a, mr_size = asset_size a \<rparr>)
       (filter (\<lambda>a. (\<exists>r \<in> set (sw_repos w). repo_id r = asset_repository_id a \<and> repo_name r = rn) \<and>
                    asset_blob_key a \<noteq> [] \<and> asset_blob_store_id a \<noteq> [] \<and> asset_blob_store_id a \<noteq> target) (sw_assets w))))"

definition move_rows :: "'b store_world \<Rightarrow> string \<Rightarrow> string \<Rightarrow> string \<Rightarrow> 'b store_world option" where
  "move_rows w key rn target =
     (if sw_fail w S_Move_Rows then None
      else Some (w\<lparr> sw_assets := map (\<lambda>a. if asset_blob_key a = key \<and> (\<exists>r \<in> set (sw_repos w). repo_id r = asset_repository_id a \<and> repo_name r = rn)
                                           then a\<lparr> asset_blob_store_id := target \<rparr> else a) (sw_assets w) \<rparr>))"

definition count_in_store :: "'b store_world \<Rightarrow> string \<Rightarrow> string \<Rightarrow> nat option" where
  "count_in_store w key sid =
     (if sw_fail w S_Count_In_Store then None
      else Some (length (filter (\<lambda>a. asset_blob_key a = key \<and> asset_blob_store_id a = sid) (sw_assets w))))"

definition repos_update :: "'b store_world \<Rightarrow> repository \<Rightarrow> 'b store_world" where
  "repos_update w repo =
     (if sw_fail w S_Repo_Update then w
      else w\<lparr> sw_repos := map (\<lambda>r. if repo_name r = repo_name repo
              then r\<lparr> repo_online := repo_online repo, repo_format_config := repo_format_config repo,
                      repo_http_config := repo_http_config repo, repo_proxy_config := repo_proxy_config repo,
                      repo_cleanup_policy_ids := repo_cleanup_policy_ids repo, repo_quota_bytes := repo_quota_bytes repo,
                      repo_routing_rule_id := repo_routing_rule_id repo, repo_allow_anonymous := repo_allow_anonymous repo,
                      repo_description := repo_description repo, repo_blob_store_id := repo_blob_store_id repo,
                      repo_updated_at := sw_now w \<rparr>
              else r) (sw_repos w) \<rparr>)"

section \<open>One row\<close>

text \<open>\<open>copyBlob\<close>; \<open>others\<close> acts while the bytes stream.\<close>

definition copy_blob ::
  "'b store_env \<Rightarrow> ('b store_world \<Rightarrow> 'b store_world) \<Rightarrow> string \<Rightarrow> string \<Rightarrow> string \<Rightarrow> 'b store_world \<Rightarrow> (mig_msg + int) \<times> 'b store_world" where
  "copy_blob env others sp tp key w =
     (case bo_get (se_ops env) (sw_phys w sp) key of
        Inl e \<Rightarrow> (Inl (Mm_Read key e), w)
      | Inr (c, n) \<Rightarrow>
          (case phys_put env tp key \<lparr> bd_bytes = c, bd_broken = False \<rparr> n (others w) of
             (Some e, w1) \<Rightarrow> (Inl (Mm_Write key e), w1)
           | (None, w1) \<Rightarrow>
               (case bo_size (se_ops env) (sw_phys w1 sp) key of
                  Inl e \<Rightarrow> (Inl (Mm_Recheck key e), snd (phys_delete env tp key w1))
                | Inr after \<Rightarrow>
                    if after \<noteq> n then (Inl (Mm_Changed key n after), snd (phys_delete env tp key w1))
                    else (Inr n, w1))))"

definition drop_source_copy :: "'b store_env \<Rightarrow> string \<Rightarrow> string \<Rightarrow> mig_row \<Rightarrow> 'b store_world \<Rightarrow> 'b store_world" where
  "drop_source_copy env sp sname row w =
     (if count_in_store w (mr_key row) (mr_source row) \<noteq> Some 0 then w
      else
        (let sz = (case bo_size (se_ops env) (sw_phys w sp) (mr_key row) of
                     Inl _ \<Rightarrow> mr_size row | Inr s \<Rightarrow> if s \<le> 0 then mr_size row else s)
         in case phys_delete env sp (mr_key row) w of
              (Some _, w1) \<Rightarrow> w1
            | (None, w1) \<Rightarrow> if sz > 0 then update_used_bytes w1 sname (- sz) else w1))"

text \<open>The flip under the blob-key lock; the callback's own errors are kept in its result.\<close>

definition flip_row ::
  "'b store_env \<Rightarrow> string \<Rightarrow> string \<Rightarrow> string \<Rightarrow> string \<Rightarrow> mig_row \<Rightarrow> int \<Rightarrow> 'b store_world \<Rightarrow> mig_msg option \<times> 'b store_world" where
  "flip_row env rn target sp sname row expected w =
     (case bo_size (se_ops env) (sw_phys w sp) (mr_key row) of
        Inl e \<Rightarrow> (Some (Mm_Flip_Recheck (mr_key row) e), w)
      | Inr cur \<Rightarrow>
          if cur \<noteq> expected then (Some (Mm_Flip_Changed (mr_key row) expected cur), w)
          else case move_rows w (mr_key row) rn target of
            None \<Rightarrow> (Some (Mm_Flip_Rows (mr_key row)), w)
          | Some w1 \<Rightarrow> (None, drop_source_copy env sp sname row w1))"

definition flip_locked ::
  "'b store_env \<Rightarrow> string \<Rightarrow> string \<Rightarrow> string \<Rightarrow> string \<Rightarrow> mig_row \<Rightarrow> int \<Rightarrow> 'b store_world \<Rightarrow> mig_msg option \<times> 'b store_world" where
  "flip_locked env rn target sp sname row expected w =
     (if sw_fail w (S_Lock (mr_key row)) then (Some Mm_Flip_Lock, w)
      else case flip_row env rn target sp sname row expected w of
        (Some e, w1) \<Rightarrow> (Some e, w1)
      | (None, w1) \<Rightarrow> (if sw_fail w1 (S_Unlock (mr_key row)) then Some Mm_Flip_Lock else None, w1))"

definition move_row ::
  "'b store_env \<Rightarrow> (nat \<Rightarrow> 'b store_world \<Rightarrow> 'b store_world) \<Rightarrow> string \<Rightarrow> string \<Rightarrow> string \<Rightarrow> string \<Rightarrow> mig_row \<Rightarrow>
   'b store_world \<Rightarrow> mig_msg option \<times> 'b store_world" where
  "move_row env others rn target tname tp row w0 =
     (let w = others 0 w0
      in case stores_by_id w 12 (mr_source row) of
           None \<Rightarrow> (Some (Mm_Source (mr_source row)), w)
         | Some sb \<Rightarrow>
             (case registry_get (se_azure_url env) (se_reachable env) (sw_registry w) (descriptor_of sb) of
                (None, r') \<Rightarrow> (Some Mm_Open_Source, w\<lparr> sw_registry := r' \<rparr>)
              | (Some sp, r') \<Rightarrow>
                  (let w1 = w\<lparr> sw_registry := r' \<rparr>
                   in case bo_exists (se_ops env) (sw_phys w1 tp) (mr_key row) of
                        Inl e \<Rightarrow> (Some (Mm_Check (mr_key row) e), w1)
                      | Inr True \<Rightarrow> flip_locked env rn target sp (bs_name sb) row (mr_size row) (others 2 w1)
                      | Inr False \<Rightarrow>
                          (case copy_blob env (others 1) sp tp (mr_key row) w1 of
                             (Inl msg, w2) \<Rightarrow> (Some msg, w2)
                           | (Inr copied, w2) \<Rightarrow>
                               flip_locked env rn target sp (bs_name sb) row copied (others 2 (update_used_bytes w2 tname copied))))))"

text \<open>
  The states of the store between the calls of one row, for a panic in the middle of it: nothing is taken back, the
  key lock is a session lock and no transaction.
\<close>

definition flip_stages ::
  "'b store_env \<Rightarrow> string \<Rightarrow> string \<Rightarrow> string \<Rightarrow> mig_row \<Rightarrow> int \<Rightarrow> 'b store_world \<Rightarrow> 'b store_world list" where
  "flip_stages env rn target sp row expected w =
     w # (if sw_fail w (S_Lock (mr_key row)) \<or> bo_size (se_ops env) (sw_phys w sp) (mr_key row) \<noteq> Inr expected then []
          else case move_rows w (mr_key row) rn target of
            None \<Rightarrow> []
          | Some w1 \<Rightarrow>
              w1 # (if count_in_store w1 (mr_key row) (mr_source row) = Some 0 then [snd (phys_delete env sp (mr_key row) w1)] else []))"

definition row_stages ::
  "'b store_env \<Rightarrow> (nat \<Rightarrow> 'b store_world \<Rightarrow> 'b store_world) \<Rightarrow> string \<Rightarrow> string \<Rightarrow> string \<Rightarrow> string \<Rightarrow> mig_row \<Rightarrow>
   'b store_world \<Rightarrow> 'b store_world list" where
  "row_stages env others rn target tname tp row w0 =
     (let w = others 0 w0
      in w # (case stores_by_id w 12 (mr_source row) of
                None \<Rightarrow> []
              | Some sb \<Rightarrow>
                  (case registry_get (se_azure_url env) (se_reachable env) (sw_registry w) (descriptor_of sb) of
                     (None, r') \<Rightarrow> [w\<lparr> sw_registry := r' \<rparr>]
                   | (Some sp, r') \<Rightarrow>
                       (let w1 = w\<lparr> sw_registry := r' \<rparr>
                        in w1 # (case bo_exists (se_ops env) (sw_phys w1 tp) (mr_key row) of
                             Inl e \<Rightarrow> []
                           | Inr True \<Rightarrow> flip_stages env rn target sp row (mr_size row) (others 2 w1)
                           | Inr False \<Rightarrow>
                               (case bo_get (se_ops env) (sw_phys w1 sp) (mr_key row) of
                                  Inl e \<Rightarrow> []
                                | Inr (c, n) \<Rightarrow>
                                    snd (phys_put env tp (mr_key row) \<lparr> bd_bytes = c, bd_broken = False \<rparr> n (others 1 w1)) #
                                    (case copy_blob env (others 1) sp tp (mr_key row) w1 of
                                       (Inl msg, w2) \<Rightarrow> [w2]
                                     | (Inr copied, w2) \<Rightarrow>
                                         w2 # flip_stages env rn target sp row copied (others 2 (update_used_bytes w2 tname copied))))))))
         @ [snd (move_row env others rn target tname tp row w0)])"

definition row_panic ::
  "'b store_env \<Rightarrow> (nat \<Rightarrow> 'b store_world \<Rightarrow> 'b store_world) \<Rightarrow> string \<Rightarrow> string \<Rightarrow> string \<Rightarrow> string \<Rightarrow> mig_row \<Rightarrow> nat \<Rightarrow>
   'b store_world \<Rightarrow> 'b store_world" where
  "row_panic env others rn target tname tp row k w0 =
     (let st = row_stages env others rn target tname tp row w0 in st ! min k (length st - 1))"

section \<open>A run\<close>

text \<open>
  What the \<open>i\<close>-th iteration finds: the time, and whether the context is cancelled or the goroutine panics, after how
  many calls of the row. \<open>ms_setup\<close> is a panic before the loop; one after it is the signal behind the last row.
\<close>

datatype mig_signal = Sig_None | Sig_Cancel | Sig_Panic nat

record 'b mig_sched =
  ms_time :: "nat \<Rightarrow> time"
  ms_signal :: "nat \<Rightarrow> mig_signal"
  ms_setup :: "nat option"
  ms_others :: "nat \<Rightarrow> nat \<Rightarrow> 'b store_world \<Rightarrow> 'b store_world"

fun move_loop ::
  "'b store_env \<Rightarrow> 'b mig_sched \<Rightarrow> time \<Rightarrow> migration \<Rightarrow> nat \<Rightarrow> string \<Rightarrow> string \<Rightarrow> nat \<Rightarrow> int \<Rightarrow> mig_row list \<Rightarrow> 'b mig_world \<Rightarrow>
   bool \<times> 'b mig_world" where
  "move_loop env sch deadline m n_rows tname tp i bytes [] w = (True, w)"
| "move_loop env sch deadline m n_rows tname tp i bytes (row # rows) w =
     (if past_deadline (ms_time sch i) deadline
      then (False, finish_migration 0 (mg_id m) ''cancelled'' (Some (Mm_Deadline i n_rows)) w)
      else case ms_signal sch i of
        Sig_Cancel \<Rightarrow> (False, finish_migration 0 (mg_id m) ''cancelled'' None w)
      | Sig_Panic k \<Rightarrow>
          (False, w\<lparr> mw_store := row_panic env (ms_others sch i) (mg_repository m) (mg_target m) tname tp row k (mw_store w) \<rparr>)
      | Sig_None \<Rightarrow>
          (case move_row env (ms_others sch i) (mg_repository m) (mg_target m) tname tp row (mw_store w) of
             (Some msg, s) \<Rightarrow> (False, finish_migration 0 (mg_id m) ''failed'' (Some msg) (w\<lparr> mw_store := s \<rparr>))
           | (None, s) \<Rightarrow>
               move_loop env sch deadline m n_rows tname tp (Suc i) (add64 bytes (mr_size row)) rows
                 (update_progress (mg_id m) (Suc i) (add64 bytes (mr_size row)) (w\<lparr> mw_store := s \<rparr>))))"

definition sum_sizes :: "mig_row list \<Rightarrow> int" where
  "sum_sizes rows = foldl (\<lambda>s r. add64 s (mr_size r)) 0 rows"

definition repoint_repository :: "migration \<Rightarrow> 'b store_world \<Rightarrow> 'b store_world" where
  "repoint_repository m w =
     (case repos_get w (mg_repository m) of
        None \<Rightarrow> w | Some r \<Rightarrow> repos_update w (r\<lparr> repo_blob_store_id := Some (mg_target m) \<rparr>))"

definition run_body :: "'b store_env \<Rightarrow> 'b mig_sched \<Rightarrow> time \<Rightarrow> migration \<Rightarrow> 'b mig_world \<Rightarrow> 'b mig_world" where
  "run_body env sch deadline m w0 =
     (let fail = (\<lambda>msg. finish_migration 0 (mg_id m) ''failed'' (Some msg))
      in if mg_target m = [] then fail Mm_Target_Gone w0
         else case update_status (mg_id m) ''running'' None w0 of
           None \<Rightarrow> w0
         | Some w \<Rightarrow>
             if ms_setup sch = Some 0 then w
             else if mw_fail w M_Rows then fail Mm_Rows w
             else
               (let rows = list_for_migration (mw_store w) (mg_repository m) (mg_target m);
                    w1 = set_totals (mg_id m) (length rows) (sum_sizes rows) w
                in if ms_setup sch = Some 1 then w1
                   else case stores_by_id (mw_store w1) 11 (mg_target m) of
                     None \<Rightarrow> fail Mm_Target w1
                   | Some tb \<Rightarrow>
                       (case registry_get (se_azure_url env) (se_reachable env) (sw_registry (mw_store w1)) (descriptor_of tb) of
                          (None, r') \<Rightarrow> fail Mm_Open_Target (w1\<lparr> mw_store := (mw_store w1)\<lparr> sw_registry := r' \<rparr> \<rparr>)
                        | (Some tp, r') \<Rightarrow>
                            if ms_setup sch = Some 2 then w1\<lparr> mw_store := (mw_store w1)\<lparr> sw_registry := r' \<rparr> \<rparr>
                            else (case move_loop env sch deadline m (length rows) (bs_name tb) tp 0 0 rows
                                    (w1\<lparr> mw_store := (mw_store w1)\<lparr> sw_registry := r' \<rparr> \<rparr>) of
                               (False, w2) \<Rightarrow> w2
                             | (True, w2) \<Rightarrow>
                                 (let w3 = w2\<lparr> mw_store := repoint_repository m (mw_store w2) \<rparr>
                                  in case ms_signal sch (length rows) of
                                       Sig_Panic k \<Rightarrow> (if k = 0 then w2 else w3)
                                     | _ \<Rightarrow> finish_migration 0 (mg_id m) ''done'' None w3)))))"

text \<open>The deferred calls, in the order they run.\<close>

definition close_stuck :: "string \<Rightarrow> 'b mig_world \<Rightarrow> 'b mig_world" where
  "close_stuck i w =
     (case (if mw_fail w M_Get then None else find (\<lambda>m. mg_id m = i) (mw_jobs w)) of
        None \<Rightarrow> w
      | Some cur \<Rightarrow> if \<not> is_active cur then w else finish_migration 1 i ''failed'' (Some Mm_Panic) w)"

definition blob_mig_lock_key :: "string \<Rightarrow> string" where
  "blob_mig_lock_key rn = ''nexspence:lock:blobmig:'' @ rn"

definition release_lock :: "bool \<Rightarrow> mig_call \<Rightarrow> string \<Rightarrow> 'b mig_world \<Rightarrow> 'b mig_world" where
  "release_lock locked call rn w =
     (if locked \<and> \<not> mw_fail w call then w\<lparr> mw_locks := removeAll (blob_mig_lock_key rn) (mw_locks w) \<rparr> else w)"

definition run_migration :: "'b store_env \<Rightarrow> 'b mig_sched \<Rightarrow> bool \<Rightarrow> time \<Rightarrow> migration \<Rightarrow> 'b mig_world \<Rightarrow> 'b mig_world" where
  "run_migration env sch locked deadline m w =
     (let w1 = close_stuck (mg_id m) (run_body env sch deadline m w);
          w2 = w1\<lparr> mw_cancels := removeAll (mg_id m) (mw_cancels w1) \<rparr>
      in release_lock locked M_Release (mg_repository m) w2)"

section \<open>Starting and resuming\<close>

datatype mig_start_err = Se_Repo | Se_Target | Se_Same | Se_Db | Se_Running | Se_Elsewhere | Se_Lock | Se_Create

definition blob_mig_lock_ttl :: duration where
  "blob_mig_lock_ttl = minutes 120"

text \<open>
  \<open>Start\<close>: \<open>lock\<close> is the locker's answer (\<^const>\<open>None\<close> without a locker). The result is the job and the
  deadline of the goroutine it launches.
\<close>

definition start_migration ::
  "'b mig_world \<Rightarrow> (lock_err + string) option \<Rightarrow> time \<Rightarrow> string \<Rightarrow> string \<Rightarrow> (mig_start_err + migration \<times> time) \<times> 'b mig_world" where
  "start_migration w lock now0 rn target =
     (case repos_get (mw_store w) rn of
        None \<Rightarrow> (Inl Se_Repo, w)
      | Some repo \<Rightarrow>
          if stores_by_id (mw_store w) 10 target = None then (Inl Se_Target, w)
          else if repo_blob_store_id repo = Some target then (Inl Se_Same, w)
          else if mw_fail w M_Active then (Inl Se_Db, w)
          else if active_by_repo w rn \<noteq> None then (Inl Se_Running, w)
          else case lock of
            Some (Inl e) \<Rightarrow> (Inl (if e = Err_Lock_Held then Se_Elsewhere else Se_Lock), w)
          | _ \<Rightarrow>
              (let locked = (lock \<noteq> None);
                   w1 = (if locked then w\<lparr> mw_locks := blob_mig_lock_key rn # mw_locks w \<rparr> else w);
                   m = \<lparr> mg_id = [], mg_repository = rn,
                         mg_source = (case repo_blob_store_id repo of None \<Rightarrow> [] | Some s \<Rightarrow> s), mg_target = target,
                         mg_status = ''pending'', mg_total_assets = 0, mg_done_assets = 0, mg_total_bytes = 0, mg_done_bytes = 0,
                         mg_error = None, mg_started_at = None, mg_finished_at = None \<rparr>
               in case mig_create w1 m of
                    (Inl e, w2) \<Rightarrow> (Inl (if e = Ce_Exists then Se_Running else Se_Create), release_lock locked M_Release rn w2)
                  | (Inr m', w2) \<Rightarrow>
                      (Inr (m', if locked then now0 + blob_mig_lock_ttl else zero_time),
                       w2\<lparr> mw_cancels := mg_id m' # mw_cancels w2 \<rparr>)))"

definition resume_step :: "bool \<Rightarrow> 'b mig_world \<Rightarrow> migration \<Rightarrow> 'b mig_world" where
  "resume_step locker w m =
     release_lock locker M_Force (mg_repository m)
       (if mg_target m = [] then finish_migration 2 (mg_id m) ''failed'' (Some Mm_Target_Gone) w
        else finish_migration 2 (mg_id m) ''cancelled'' (Some Mm_Interrupted) w)"

definition resume_all :: "bool \<Rightarrow> 'b mig_world \<Rightarrow> bool \<times> 'b mig_world" where
  "resume_all locker w =
     (if mw_fail w M_List_Active then (False, w) else (True, foldl (resume_step locker) w (list_active w)))"

end
