(* ===== verification/Migration_Contract.thy ===== *)
theory Migration_Contract
  imports Blob_Migration
begin

text \<open>
  What a migration run guarantees: it moves rows without changing what any path reads, as long as the
  stores are separate and nothing writes meanwhile; every run ends in a final status with its lock given
  back; and what goes wrong when the target already holds an object under the key.
\<close>

section \<open>Rows and their bytes\<close>

definition row_bytes :: "('b \<Rightarrow> string \<Rightarrow> (bytes \<times> time) option) \<Rightarrow> 'b store_env \<Rightarrow> 'b store_world \<Rightarrow> asset \<Rightarrow> bytes option" where
  "row_bytes obj env w a = map_option fst (row_obj obj env w a)"

text \<open>Some rows of the repository now lie on the target; every row reads as before.\<close>

definition moved ::
  "('b \<Rightarrow> string \<Rightarrow> (bytes \<times> time) option) \<Rightarrow> 'b store_env \<Rightarrow> string \<Rightarrow> string \<Rightarrow> 'b store_world \<Rightarrow> 'b store_world \<Rightarrow> bool" where
  "moved obj env rn target w w' \<longleftrightarrow>
     (\<exists>f. sw_assets w' = map f (sw_assets w) \<and>
        (\<forall>a. f a = a \<or> asset_repository a = rn \<and> f a = a\<lparr> asset_blob_store_id := target \<rparr>) \<and>
        (\<forall>a \<in> set (sw_assets w). row_bytes obj env w' (f a) = row_bytes obj env w a))"

lemma moved_same: "sw_assets w' = sw_assets w \<Longrightarrow> (\<And>a. a \<in> set (sw_assets w) \<Longrightarrow> row_bytes obj env w' a = row_bytes obj env w a) \<Longrightarrow> moved obj env rn target w w'"
  unfolding moved_def by (rule exI [of _ id]) simp

lemma moved_refl [simp]: "moved obj env rn target w w"
  by (rule moved_same) simp_all

lemma moved_trans:
  assumes "moved obj env rn target w w1" "moved obj env rn target w1 w2"
  shows "moved obj env rn target w w2"
proof -
  obtain f where f: "sw_assets w1 = map f (sw_assets w)" "\<And>a. f a = a \<or> asset_repository a = rn \<and> f a = a\<lparr> asset_blob_store_id := target \<rparr>"
    "\<And>a. a \<in> set (sw_assets w) \<Longrightarrow> row_bytes obj env w1 (f a) = row_bytes obj env w a"
    using assms(1) unfolding moved_def by blast
  obtain g where g: "sw_assets w2 = map g (sw_assets w1)" "\<And>a. g a = a \<or> asset_repository a = rn \<and> g a = a\<lparr> asset_blob_store_id := target \<rparr>"
    "\<And>a. a \<in> set (sw_assets w1) \<Longrightarrow> row_bytes obj env w2 (g a) = row_bytes obj env w1 a"
    using assms(2) unfolding moved_def by blast
  have "g (f a) = a \<or> asset_repository a = rn \<and> g (f a) = a\<lparr> asset_blob_store_id := target \<rparr>" for a
    using f(2) [of a] g(2) [of "f a"] by auto
  moreover have "row_bytes obj env w2 (g (f a)) = row_bytes obj env w a" if "a \<in> set (sw_assets w)" for a
    using f(3) [OF that] g(3) [of "f a"] f(1) that by simp
  moreover have "sw_assets w2 = map (g \<circ> f) (sw_assets w)" by (simp add: f(1) g(1))
  ultimately show ?thesis unfolding moved_def by (intro exI [of _ "g \<circ> f"]) simp
qed

lemma moved_fields:
  assumes "moved obj env rn target w w'" "a' \<in> set (sw_assets w')"
  obtains a where "a \<in> set (sw_assets w)" "asset_blob_key a' = asset_blob_key a" "asset_repository a' = asset_repository a"
    "asset_sha256 a' = asset_sha256 a" "asset_blob_store_id a' = asset_blob_store_id a \<or> asset_blob_store_id a' = target \<and> asset_repository a = rn"
    "row_bytes obj env w' a' = row_bytes obj env w a"
proof -
  obtain f where f: "sw_assets w' = map f (sw_assets w)" "\<And>a. f a = a \<or> asset_repository a = rn \<and> f a = a\<lparr> asset_blob_store_id := target \<rparr>"
    "\<And>a. a \<in> set (sw_assets w) \<Longrightarrow> row_bytes obj env w' (f a) = row_bytes obj env w a"
    using assms(1) unfolding moved_def by blast
  obtain a where a: "a \<in> set (sw_assets w)" "a' = f a" using assms(2) f(1) by auto
  show ?thesis using that [OF a(1)] f(2) [of a] f(3) [OF a(1)] a(2) by auto
qed

lemma moved_rows:
  assumes "moved obj env rn target w w'" "a \<in> set (sw_assets w)"
  obtains a' where "a' \<in> set (sw_assets w')" "asset_blob_key a' = asset_blob_key a" "asset_repository a' = asset_repository a"
    "asset_blob_store_id a' = asset_blob_store_id a \<or> asset_blob_store_id a' = target"
proof -
  obtain f where f: "sw_assets w' = map f (sw_assets w)" "\<And>a. f a = a \<or> asset_repository a = rn \<and> f a = a\<lparr> asset_blob_store_id := target \<rparr>"
    using assms(1) unfolding moved_def by blast
  show ?thesis using that [of "f a"] f(2) [of a] assms(2) by (auto simp: f(1))
qed

text \<open>The abstract map is the same.\<close>

lemma moved_content:
  assumes "moved obj env rn target w w'"
  shows "content obj env w' = content obj env w"
proof -
  obtain f where f: "sw_assets w' = map f (sw_assets w)" "\<And>a. f a = a \<or> asset_repository a = rn \<and> f a = a\<lparr> asset_blob_store_id := target \<rparr>"
    "\<And>a. a \<in> set (sw_assets w) \<Longrightarrow> row_bytes obj env w' (f a) = row_bytes obj env w a"
    using assms unfolding moved_def by blast
  have same: "asset_repository (f a) = asset_repository a" "asset_path (f a) = asset_path a" for a using f(2) [of a] by auto
  have row: "row_at w' r p = map_option f (row_at w r p)" for r p
    by (simp add: row_at_def f(1) find_map_option same)
  show ?thesis
    by (intro ext) (auto simp: content_def row f(3) [unfolded row_bytes_def] dest: row_at_mem split: option.split)
qed

section \<open>Ready to migrate\<close>

text \<open>
  The invariant of a run: the tables are sound, every row lies on a known store of its own namespace and
  its object is intact, and the rows of the repository agree with each other, and with what the target
  already holds, on the bytes of a key.
\<close>

definition mig_ready ::
  "('b \<Rightarrow> string \<Rightarrow> (bytes \<times> time) option) \<Rightarrow> (string \<Rightarrow> bool) \<Rightarrow> ('b \<Rightarrow> bool) \<Rightarrow> 'b store_env \<Rightarrow> string \<Rightarrow> string \<Rightarrow> 'b store_world \<Rightarrow> bool" where
  "mig_ready obj valid good env rn target w \<longleftrightarrow>
     tables_ok w \<and> registry_ok env w \<and> se_registry_on env \<and>
     (\<forall>i \<in> set (map bs_id (sw_stores w)). trim_space i \<noteq> []) \<and>
     inj_on (store_space env w) (set (map bs_id (sw_stores w))) \<and>
     target \<in> set (map bs_id (sw_stores w)) \<and>
     (\<forall>a \<in> set (sw_assets w). asset_blob_store_id a \<in> set (map bs_id (sw_stores w))) \<and>
     (\<forall>q. good (sw_phys w q)) \<and>
     (\<forall>a \<in> set (sw_assets w). valid (asset_blob_key a) \<and>
        (\<exists>c. row_bytes obj env w a = Some c \<and> asset_sha256 a = se_sha256 env c)) \<and>
     (\<forall>a \<in> set (sw_assets w). \<forall>c t. asset_repository a = rn \<longrightarrow>
        obj (sw_phys w (store_space env w target)) (asset_blob_key a) = Some (c, t) \<longrightarrow> row_bytes obj env w a = Some c) \<and>
     (\<forall>a \<in> set (sw_assets w). \<forall>a' \<in> set (sw_assets w). asset_repository a = rn \<longrightarrow> asset_repository a' = rn \<longrightarrow>
        asset_blob_key a = asset_blob_key a' \<longrightarrow> row_bytes obj env w a = row_bytes obj env w a')"

lemma mig_ready_row:
  assumes "mig_ready obj valid good env rn target w" "a \<in> set (sw_assets w)"
  shows "valid (asset_blob_key a)" "\<exists>c. row_bytes obj env w a = Some c \<and> asset_sha256 a = se_sha256 env c" "row_bytes obj env w a \<noteq> None"
proof -
  show "valid (asset_blob_key a)" "\<exists>c. row_bytes obj env w a = Some c \<and> asset_sha256 a = se_sha256 env c"
    using assms unfolding mig_ready_def by blast+
  then show "row_bytes obj env w a \<noteq> None" by auto
qed

lemma mig_ready_step:
  assumes r: "mig_ready obj valid good env rn target w" and fr: "same_frame env w w'" and mv: "moved obj env rn target w w'"
    and good: "\<And>q. good (sw_phys w' q)"
    and tgt: "\<And>a c t. a \<in> set (sw_assets w) \<Longrightarrow> asset_repository a = rn \<Longrightarrow>
        obj (sw_phys w' (store_space env w target)) (asset_blob_key a) = Some (c, t) \<Longrightarrow> row_bytes obj env w a = Some c"
  shows "mig_ready obj valid good env rn target w'"
proof -
  note st = same_frame_stores [OF fr] and sp = same_frame_space [OF fr]
  obtain f where f: "sw_assets w' = map f (sw_assets w)" "\<And>a. f a = a \<or> asset_repository a = rn \<and> f a = a\<lparr> asset_blob_store_id := target \<rparr>"
    using mv unfolding moved_def by blast
  have same: "asset_id (f a) = asset_id a" "asset_repository (f a) = asset_repository a" "asset_path (f a) = asset_path a"
    "asset_repository_id (f a) = asset_repository_id a" for a using f(2) [of a] by auto
  have "tables_ok w'" by (rule tables_ok_moved [OF _ fr f(1) same]) (use r in \<open>simp add: mig_ready_def\<close>)
  moreover have "registry_ok env w'" using r fr by (simp add: mig_ready_def same_frame_def)
  moreover have "asset_blob_store_id a' \<in> set (map bs_id (sw_stores w))" if "a' \<in> set (sw_assets w')" for a'
    using moved_fields [OF mv that] r unfolding mig_ready_def by metis
  moreover have "valid (asset_blob_key a') \<and> (\<exists>c. row_bytes obj env w' a' = Some c \<and> asset_sha256 a' = se_sha256 env c)"
    if "a' \<in> set (sw_assets w')" for a'
    using moved_fields [OF mv that] r unfolding mig_ready_def by metis
  moreover have "row_bytes obj env w' a' = Some c"
    if "a' \<in> set (sw_assets w')" "asset_repository a' = rn"
      "obj (sw_phys w' (store_space env w' target)) (asset_blob_key a') = Some (c, t)" for a' c t
    using moved_fields [OF mv that(1)] tgt that(2,3) unfolding sp by metis
  moreover have "row_bytes obj env w' a' = row_bytes obj env w' a''"
    if "a' \<in> set (sw_assets w')" "a'' \<in> set (sw_assets w')" "asset_repository a' = rn" "asset_repository a'' = rn" "asset_blob_key a' = asset_blob_key a''" for a' a''
  proof -
    note t = that
    obtain a b where "a \<in> set (sw_assets w)" "b \<in> set (sw_assets w)" "asset_repository a = rn" "asset_repository b = rn"
      "asset_blob_key a = asset_blob_key b" "row_bytes obj env w' a' = row_bytes obj env w a" "row_bytes obj env w' a'' = row_bytes obj env w b"
      using moved_fields [OF mv t(1)] moved_fields [OF mv t(2)] t(3-5) by metis
    then show ?thesis using r unfolding mig_ready_def by metis
  qed
  ultimately show ?thesis
    using r good unfolding mig_ready_def st sp by blast
qed

section \<open>One row\<close>

text \<open>Other requests that change no row and no object: they only make calls fail or succeed.\<close>

definition quiet :: "('b store_world \<Rightarrow> 'b store_world) \<Rightarrow> bool" where
  "quiet others \<longleftrightarrow> (\<forall>w. \<exists>f. others w = w\<lparr> sw_fail := f \<rparr>)"

lemma quiet_frame:
  assumes "quiet others"
  shows "same_frame env w (others w)" "sw_assets (others w) = sw_assets w" "sw_phys (others w) = sw_phys w"
    "sw_stores (others w) = sw_stores w" "sw_registry (others w) = sw_registry w" "sw_repos (others w) = sw_repos w"
proof -
  obtain f where f: "others w = w\<lparr> sw_fail := f \<rparr>" using assms unfolding quiet_def by blast
  show "same_frame env w (others w)" "sw_assets (others w) = sw_assets w" "sw_phys (others w) = sw_phys w"
    "sw_stores (others w) = sw_stores w" "sw_registry (others w) = sw_registry w" "sw_repos (others w) = sw_repos w"
    by (simp_all add: f same_frame_def registry_ok_def)
qed

lemma row_bytes_frame:
  "sw_phys w' = sw_phys w \<Longrightarrow> store_space env w' = store_space env w \<Longrightarrow> row_bytes obj env w' = row_bytes obj env w"
  by (simp add: row_bytes_def row_obj_def fun_eq_iff)

lemma mig_ready_frame:
  assumes "mig_ready obj valid good env rn target w" "same_frame env w w'" "sw_assets w' = sw_assets w" "sw_phys w' = sw_phys w"
  shows "mig_ready obj valid good env rn target w'" "moved obj env rn target w w'"
proof -
  show m: "moved obj env rn target w w'"
    by (rule moved_same [OF assms(3)]) (simp add: row_bytes_frame [OF assms(4) same_frame_space [OF assms(2)]])
  show "mig_ready obj valid good env rn target w'"
    by (rule mig_ready_step [OF assms(1,2) m]) (use assms in \<open>simp_all add: mig_ready_def\<close>)
qed

lemma update_used_bytes_frame: "same_frame env w (update_used_bytes w n d)"
  by (rule same_layout_frame [OF update_used_bytes_layout(1)])

text \<open>The job table and the final update of the repository leave rows and objects alone.\<close>

lemma job_calls_store [simp]:
  "mw_store (update_job i f w) = mw_store w" "mw_store (set_totals i n b w) = mw_store w"
  "mw_store (update_progress i n b w) = mw_store w" "mw_store (finish_migration site i st msg w) = mw_store w"
  "mw_store (close_stuck i w) = mw_store w" "mw_store (release_lock locked call rn w) = mw_store w"
  by (simp_all add: update_job_def set_totals_def update_progress_def finish_migration_def close_stuck_def release_lock_def split: option.split)

lemma job_calls_fail [simp]:
  "mw_fail (update_job i f w) = mw_fail w" "mw_fail (set_totals i n b w) = mw_fail w"
  "mw_fail (update_progress i n b w) = mw_fail w" "mw_fail (finish_migration site i st msg w) = mw_fail w"
  by (simp_all add: update_job_def set_totals_def update_progress_def finish_migration_def)

lemma repoint_frame:
  "same_frame env w (repoint_repository m w)" "sw_assets (repoint_repository m w) = sw_assets w"
  "sw_phys (repoint_repository m w) = sw_phys w"
proof -
  have *: "same_frame env w (repos_update w r)" "sw_assets (repos_update w r) = sw_assets w" "sw_phys (repos_update w r) = sw_phys w" for r
    by (auto simp: repos_update_def same_frame_def registry_ok_def)
  show "same_frame env w (repoint_repository m w)" "sw_assets (repoint_repository m w) = sw_assets w"
    "sw_phys (repoint_repository m w) = sw_phys w"
    by (simp_all add: repoint_repository_def * split: option.split)
qed

text \<open>A listed row stands for an asset of the repository, moved or not.\<close>

definition to_move :: "string \<Rightarrow> string \<Rightarrow> 'b store_world \<Rightarrow> mig_row \<Rightarrow> bool" where
  "to_move rn target w row \<longleftrightarrow> mr_source row \<noteq> target \<and>
     (\<exists>a \<in> set (sw_assets w). asset_repository a = rn \<and> asset_blob_key a = mr_key row \<and>
        (asset_blob_store_id a = mr_source row \<or> asset_blob_store_id a = target))"

lemma to_move_moved: "to_move rn target w row \<Longrightarrow> moved obj env rn target w w' \<Longrightarrow> to_move rn target w' row"
  unfolding to_move_def by (metis moved_rows)

lemma list_for_migration_to_move:
  assumes "tables_ok w" "row \<in> set (list_for_migration w rn target)"
  shows "to_move rn target w row"
proof -
  obtain a where a: "a \<in> set (sw_assets w)" "\<exists>r \<in> set (sw_repos w). repo_id r = asset_repository_id a \<and> repo_name r = rn"
    "asset_blob_store_id a \<noteq> target" "row = \<lparr> mr_key = asset_blob_key a, mr_source = asset_blob_store_id a, mr_size = asset_size a \<rparr>"
    using assms(2) unfolding list_for_migration_def by auto
  then have "asset_repository a = rn" using assms(1) unfolding tables_ok_def by metis
  then show ?thesis using a by (auto simp: to_move_def)
qed

context blob_store_laws
begin

text \<open>The copy once it is written, and after the re-check.\<close>

lemma copy_put_effect:
  assumes get: "bo_get ops (sw_phys w sp) key = Inr (d, n)"
    and put: "phys_put env tp key \<lparr> bd_bytes = d, bd_broken = False \<rparr> n (others w) = (r1, w1)" and env: "se_ops env = ops"
    and good: "\<And>q. good (sw_phys w q)" and v: "valid key" and q: "quiet others" and none: "obj (sw_phys w tp) key = None"
  shows "same_frame env w w1 \<and> sw_assets w1 = sw_assets w \<and> touches obj valid good tp key w w1 \<and>
     (\<forall>d t. obj (sw_phys w1 tp) key = Some (d, t) \<longrightarrow> map_option fst (obj (sw_phys w sp) key) = Some d)"
    "r1 = None \<Longrightarrow> map_option fst (obj (sw_phys w1 tp) key) = Some d" "r1 = Some e \<Longrightarrow> obj (sw_phys w1 tp) key = None"
proof -
  have d: "map_option fst (obj (sw_phys w sp) key) = Some d" using get_obj [OF good v] get by blast
  note f0 = quiet_frame(1) [OF q, of env w] quiet_frame(2-) [OF q, of w]
  have good0: "\<And>q. good (sw_phys (others w) q)" using good f0(3) by simp
  note p1 = phys_put_touches [OF put env good0 v] and f1 = phys_only_frame [OF phys_put_touches(2) [OF put env good0 v]]
  have t1: "touches obj valid good tp key w w1" using p1(1) f0(3) by (simp add: touches_def)
  have fr1: "same_frame env w w1" using same_frame_trans [OF f0(1) same_layout_frame [OF f1(1)]] .
  have a1: "sw_assets w1 = sw_assets w" using f0(2) f1(2) by simp
  show e: "obj (sw_phys w1 tp) key = None" if "r1 = Some e" for e using p1(4) [OF that v, of tp] none f0(3) by simp
  show o1: "map_option fst (obj (sw_phys w1 tp) key) = Some d" if "r1 = None" using p1(3) [OF that] by simp
  show "same_frame env w w1 \<and> sw_assets w1 = sw_assets w \<and> touches obj valid good tp key w w1 \<and>
     (\<forall>d t. obj (sw_phys w1 tp) key = Some (d, t) \<longrightarrow> map_option fst (obj (sw_phys w sp) key) = Some d)"
    using t1 fr1 a1 d e o1 by (cases r1) auto
qed

lemma copy_blob_effect:
  assumes c: "copy_blob env others sp tp key w = (res, w')" and env: "se_ops env = ops" and good: "\<And>q. good (sw_phys w q)"
    and v: "valid key" and q: "quiet others" and none: "obj (sw_phys w tp) key = None"
  shows "same_frame env w w' \<and> sw_assets w' = sw_assets w \<and> touches obj valid good tp key w w' \<and>
     (\<forall>d t. obj (sw_phys w' tp) key = Some (d, t) \<longrightarrow> map_option fst (obj (sw_phys w sp) key) = Some d) \<and>
     (\<forall>n. res = Inr n \<longrightarrow> obj (sw_phys w' tp) key \<noteq> None)"
proof (cases "bo_get ops (sw_phys w sp) key")
  case (Inl e)
  then show ?thesis using c env none good by (auto simp: copy_blob_def touches_def)
next
  case (Inr x)
  obtain d n where x: "x = (d, n)" by (cases x)
  let ?b = "\<lparr> bd_bytes = d, bd_broken = False \<rparr>" and ?w0 = "others w"
  obtain r1 w1 where put: "phys_put env tp key ?b n ?w0 = (r1, w1)" by (cases "phys_put env tp key ?b n ?w0")
  note keep = copy_put_effect(1) [OF Inr [unfolded x] put env good v q none]
  have t1: "touches obj valid good tp key w w1" and fr1: "same_frame env w w1" and a1: "sw_assets w1 = sw_assets w" using keep by blast+
  have good1: "\<And>q. good (sw_phys w1 q)" using t1 by (simp add: touches_def)
  show ?thesis
  proof (cases r1)
    case (Some e)
    then have "obj (sw_phys w1 tp) key = None" by (rule copy_put_effect(3) [OF Inr [unfolded x] put env good v q none])
    then show ?thesis using c env Inr x put Some keep by (auto simp: copy_blob_def)
  next
    case None
    have o1: "map_option fst (obj (sw_phys w1 tp) key) = Some d"
      by (rule copy_put_effect(2) [OF Inr [unfolded x] put env good v q none None])
    obtain r2 w2 where del: "phys_delete env tp key w1 = (r2, w2)" by (cases "phys_delete env tp key w1")
    note p2 = phys_delete_touches [OF del env good1 valid_entry [OF v]]
    note f2 = phys_only_frame [OF p2(2)]
    have "obj (sw_phys w2 tp) key = None \<or> obj (sw_phys w2 tp) key = obj (sw_phys w1 tp) key"
      using p2(3) p2(4) [OF _ valid_entry [OF v]] by (cases r2) auto
    then have dropped: "same_frame env w w2 \<and> sw_assets w2 = sw_assets w \<and> touches obj valid good tp key w w2 \<and>
       (\<forall>d t. obj (sw_phys w2 tp) key = Some (d, t) \<longrightarrow> map_option fst (obj (sw_phys w sp) key) = Some d)"
      using same_frame_trans [OF fr1 same_layout_frame [OF f2(1)]] f2(2) a1 touches_trans [OF t1 p2(1)] keep by auto
    have "(w' = w1 \<and> res = Inr n) \<or> (w' = w2 \<and> (\<exists>m. res = Inl m))"
      using c env Inr x put None del by (auto simp: copy_blob_def split: sum.splits if_splits)
    then show ?thesis using keep dropped o1 by auto
  qed
qed

text \<open>The flip: rows of the key move to the target, and the source copy goes if nothing lies on it.\<close>

lemma move_rows_effect:
  assumes m: "move_rows w key rn target = Some w'" and r: "mig_ready obj valid good env rn target w"
    and there: "obj (sw_phys w (store_space env w target)) key \<noteq> None"
  shows "same_frame env w w' \<and> sw_phys w' = sw_phys w \<and> moved obj env rn target w w'"
proof -
  let ?in = "\<lambda>a. asset_blob_key a = key \<and> (\<exists>r \<in> set (sw_repos w). repo_id r = asset_repository_id a \<and> repo_name r = rn)"
  let ?f = "\<lambda>a. if ?in a \<and> a \<in> set (sw_assets w) then a\<lparr> asset_blob_store_id := target \<rparr> else a"
  have w': "w' = w\<lparr> sw_assets := map (\<lambda>a. if ?in a then a\<lparr> asset_blob_store_id := target \<rparr> else a) (sw_assets w) \<rparr>"
    using m by (simp add: move_rows_def split: if_splits)
  have as: "sw_assets w' = map ?f (sw_assets w)" by (simp add: w')
  have fr: "same_frame env w w'" by (simp add: w' same_frame_def registry_ok_def)
  have ph: "sw_phys w' = sw_phys w" by (simp add: w')
  have rb: "row_bytes obj env w' = row_bytes obj env w" by (rule row_bytes_frame [OF ph same_frame_space [OF fr]])
  have inrn: "asset_repository a = rn" if "?in a" "a \<in> set (sw_assets w)" for a
    using r that unfolding mig_ready_def tables_ok_def by metis
  obtain c t where ct: "obj (sw_phys w (store_space env w target)) key = Some (c, t)" using there by (cases "obj (sw_phys w (store_space env w target)) key") auto
  have b: "row_bytes obj env w (?f a) = row_bytes obj env w a" if a: "a \<in> set (sw_assets w)" for a
  proof (cases "?in a")
    case True
    then have "row_bytes obj env w a = Some c" using r inrn [OF True a] a ct unfolding mig_ready_def by metis
    moreover have "row_bytes obj env w (?f a) = Some c" using True a ct by (simp add: row_bytes_def row_obj_def)
    ultimately show ?thesis by simp
  next
    case False
    then show ?thesis by (auto simp: row_bytes_def)
  qed
  have "moved obj env rn target w w'"
    unfolding moved_def rb by (rule exI [of _ ?f]) (use as inrn b in auto)
  then show ?thesis using fr ph by simp
qed

lemma drop_object_effect:
  assumes count: "count_in_store w (mr_key row) sid = Some 0" and del: "phys_delete env (store_space env w sid) (mr_key row) w = (r1, w1)"
    and w': "w' = w1 \<or> w' = update_used_bytes w1 sname n" and env: "se_ops env = ops"
    and r: "mig_ready obj valid good env rn target w" and row: "mr_source row = sid" "sid \<noteq> target" "sid \<in> set (map bs_id (sw_stores w))"
    and v: "valid (mr_key row)"
  shows "same_frame env w w' \<and> moved obj env rn target w w' \<and> mig_ready obj valid good env rn target w'"
proof -
  let ?sp = "store_space env w sid"
  have nobody: "asset_blob_key a = mr_key row \<Longrightarrow> asset_blob_store_id a \<noteq> sid" if "a \<in> set (sw_assets w)" for a
    using count that by (auto simp: count_in_store_def filter_empty_conv split: if_splits)
  have inj: "store_space env w i = ?sp \<Longrightarrow> i \<in> set (map bs_id (sw_stores w)) \<Longrightarrow> i = sid" for i
    using r row(3) unfolding mig_ready_def inj_on_def by blast
  have good: "\<And>q. good (sw_phys w q)" using r by (simp add: mig_ready_def)
  note p1 = phys_delete_touches [OF del env good valid_entry [OF v]]
  note f1 = phys_only_frame [OF p1(2)]
  have fr: "same_frame env w w'" and as: "sw_assets w' = sw_assets w" and ph: "sw_phys w' = sw_phys w1"
    using w' f1(2) same_layout_frame [OF f1(1)] same_frame_trans [OF same_layout_frame [OF f1(1)] update_used_bytes_frame]
    by (auto simp: update_used_bytes_layout)
  have t: "\<And>q. good (sw_phys w' q)" "\<And>q k. valid k \<Longrightarrow> (q, k) \<noteq> (?sp, mr_key row) \<Longrightarrow> obj (sw_phys w' q) k = obj (sw_phys w q) k"
    using p1(1) by (simp_all add: ph touches_def)
  have vk: "valid (asset_blob_key a)" if "a \<in> set (sw_assets w)" for a using r that unfolding mig_ready_def by blast
  have mv: "moved obj env rn target w w'"
  proof (rule moved_same [OF as])
    fix a assume a: "a \<in> set (sw_assets w)"
    have "asset_blob_store_id a \<in> set (map bs_id (sw_stores w))" using r a unfolding mig_ready_def by blast
    then have "(store_space env w (asset_blob_store_id a), asset_blob_key a) \<noteq> (?sp, mr_key row)" using nobody [OF a] inj by auto
    then show "row_bytes obj env w' a = row_bytes obj env w a"
      using t(2) [OF vk [OF a]] by (simp add: row_bytes_def row_obj_def same_frame_space [OF fr])
  qed
  have tgt: "store_space env w target \<noteq> ?sp" using inj [of target] r row(2) unfolding mig_ready_def by blast
  have "mig_ready obj valid good env rn target w'"
  proof (rule mig_ready_step [OF r fr mv t(1)])
    fix a c u assume a: "a \<in> set (sw_assets w)" "asset_repository a = rn"
      "obj (sw_phys w' (store_space env w target)) (asset_blob_key a) = Some (c, u)"
    then have "obj (sw_phys w (store_space env w target)) (asset_blob_key a) = Some (c, u)" using t(2) vk tgt by auto
    then show "row_bytes obj env w a = Some c" using r a unfolding mig_ready_def by metis
  qed
  then show ?thesis using fr mv by simp
qed

lemma drop_source_effect:
  assumes d: "drop_source_copy env (store_space env w sid) sname row w = w'" and env: "se_ops env = ops"
    and r: "mig_ready obj valid good env rn target w" and row: "mr_source row = sid" "sid \<noteq> target" "sid \<in> set (map bs_id (sw_stores w))"
    and v: "valid (mr_key row)"
  shows "same_frame env w w' \<and> moved obj env rn target w w' \<and> mig_ready obj valid good env rn target w'"
proof (cases "count_in_store w (mr_key row) sid = Some 0")
  case False
  then have "w' = w" using d row(1) by (simp add: drop_source_copy_def)
  then show ?thesis using r by simp
next
  case True
  obtain r1 w1 where del: "phys_delete env (store_space env w sid) (mr_key row) w = (r1, w1)" by (cases "phys_delete env (store_space env w sid) (mr_key row) w")
  obtain n where "w' = w1 \<or> w' = update_used_bytes w1 sname n"
    using d row(1) True del by (auto simp: drop_source_copy_def Let_def split: option.splits if_splits)
  from drop_object_effect [OF True del this env r row v] show ?thesis .
qed

lemma flip_effect:
  assumes fl: "flip_locked env rn target (store_space env w sid) sname row n w = (res, w')" and env: "se_ops env = ops"
    and r: "mig_ready obj valid good env rn target w" and row: "mr_source row = sid" "sid \<noteq> target" "sid \<in> set (map bs_id (sw_stores w))"
    and v: "valid (mr_key row)" and there: "obj (sw_phys w (store_space env w target)) (mr_key row) \<noteq> None"
  shows "same_frame env w w' \<and> moved obj env rn target w w' \<and> mig_ready obj valid good env rn target w'"
proof -
  obtain r1 w1 where f: "flip_row env rn target (store_space env w sid) sname row n w = (r1, w1)"
    by (cases "flip_row env rn target (store_space env w sid) sname row n w")
  have "w' = w \<or> w' = w1" using fl f by (auto simp: flip_locked_def split: if_splits option.splits)
  moreover have "same_frame env w w1 \<and> moved obj env rn target w w1 \<and> mig_ready obj valid good env rn target w1"
  proof (cases "w1 = w")
    case True
    then show ?thesis using r by simp
  next
    case False
    then obtain w2 where m: "move_rows w (mr_key row) rn target = Some w2" and d: "drop_source_copy env (store_space env w sid) sname row w2 = w1"
      using f by (auto simp: flip_row_def split: sum.splits if_splits option.splits)
    note e2 = move_rows_effect [OF m r there]
    have r2: "mig_ready obj valid good env rn target w2"
      by (rule mig_ready_step [OF r]) (use e2 r in \<open>auto simp: mig_ready_def\<close>)
    have sp: "store_space env w2 = store_space env w" "map bs_id (sw_stores w2) = map bs_id (sw_stores w)"
      using e2 same_frame_space same_frame_stores(1) by blast+
    have "sid \<in> set (map bs_id (sw_stores w2))" using row(3) sp(2) by simp
    from drop_source_effect [OF _ env r2 row(1,2) this v, of sname w1] d
    have "same_frame env w2 w1 \<and> moved obj env rn target w2 w1 \<and> mig_ready obj valid good env rn target w1" by (simp add: sp)
    then show ?thesis using e2 same_frame_trans moved_trans by blast
  qed
  ultimately show ?thesis using r by auto
qed

lemma flip_stages_effect:
  assumes s: "s \<in> set (flip_stages env rn target (store_space env w sid) row n w)" and env: "se_ops env = ops"
    and r: "mig_ready obj valid good env rn target w" and row: "mr_source row = sid" "sid \<noteq> target" "sid \<in> set (map bs_id (sw_stores w))"
    and v: "valid (mr_key row)" and there: "obj (sw_phys w (store_space env w target)) (mr_key row) \<noteq> None"
  shows "same_frame env w s \<and> moved obj env rn target w s \<and> mig_ready obj valid good env rn target s"
proof (cases "s = w")
  case True
  then show ?thesis using r by simp
next
  case False
  have "\<exists>w1. move_rows w (mr_key row) rn target = Some w1 \<and>
      (s = w1 \<or> count_in_store w1 (mr_key row) sid = Some 0 \<and> s = snd (phys_delete env (store_space env w sid) (mr_key row) w1))"
    using s row(1) False by (cases "move_rows w (mr_key row) rn target") (auto simp: flip_stages_def split: if_splits)
  then obtain w1 where m: "move_rows w (mr_key row) rn target = Some w1"
    and s1: "s = w1 \<or> count_in_store w1 (mr_key row) sid = Some 0 \<and> s = snd (phys_delete env (store_space env w sid) (mr_key row) w1)"
    by blast
  note e1 = move_rows_effect [OF m r there]
  have r1: "mig_ready obj valid good env rn target w1"
    by (rule mig_ready_step [OF r]) (use e1 r in \<open>auto simp: mig_ready_def\<close>)
  have sp: "store_space env w1 = store_space env w" "map bs_id (sw_stores w1) = map bs_id (sw_stores w)"
    using e1 same_frame_space same_frame_stores(1) by blast+
  have sid: "sid \<in> set (map bs_id (sw_stores w1))" using row(3) sp(2) by simp
  have "same_frame env w1 s \<and> moved obj env rn target w1 s \<and> mig_ready obj valid good env rn target s"
    using s1
  proof (elim disjE conjE)
    assume c: "count_in_store w1 (mr_key row) sid = Some 0" and d: "s = snd (phys_delete env (store_space env w sid) (mr_key row) w1)"
    obtain x s' where "phys_delete env (store_space env w1 sid) (mr_key row) w1 = (x, s')"
      by (cases "phys_delete env (store_space env w1 sid) (mr_key row) w1")
    from drop_object_effect [OF c this disjI1 [OF refl] env r1 row(1,2) sid v] this d show ?thesis by (simp add: sp)
  qed (use r1 in simp)
  then show ?thesis using e1 same_frame_trans moved_trans by blast
qed

text \<open>An object staged in the target, where there was none, is that of the rows.\<close>

lemma staged_ready:
  assumes r: "mig_ready obj valid good env rn target w1" and fr: "same_frame env w1 w2" and as: "sw_assets w2 = sw_assets w1"
    and t: "touches obj valid good (store_space env w1 target) key w1 w2"
    and cp: "\<And>d t. obj (sw_phys w2 (store_space env w1 target)) key = Some (d, t) \<Longrightarrow>
        map_option fst (obj (sw_phys w1 (store_space env w1 src)) key) = Some d"
    and none: "obj (sw_phys w1 (store_space env w1 target)) key = None"
    and a0: "a0 \<in> set (sw_assets w1)" "asset_repository a0 = rn" "asset_blob_key a0 = key" "asset_blob_store_id a0 = src \<or> asset_blob_store_id a0 = target"
  shows "moved obj env rn target w1 w2" "mig_ready obj valid good env rn target w2"
proof -
  let ?tp = "store_space env w1 target"
  have sp2: "store_space env w2 = store_space env w1" by (rule same_frame_space [OF fr])
  have rb: "row_bytes obj env w2 a = row_bytes obj env w1 a" if a: "a \<in> set (sw_assets w1)" for a
  proof -
    have "valid (asset_blob_key a)" "row_obj obj env w1 a \<noteq> None" using mig_ready_row [OF r a] by (auto simp: row_bytes_def)
    moreover from this have "(store_space env w1 (asset_blob_store_id a), asset_blob_key a) \<noteq> (?tp, key)"
      using none by (auto simp: row_obj_def)
    ultimately show ?thesis using t by (simp add: row_bytes_def row_obj_def sp2 touches_def)
  qed
  show mv: "moved obj env rn target w1 w2" by (rule moved_same [OF as rb])
  show "mig_ready obj valid good env rn target w2"
  proof (rule mig_ready_step [OF r fr mv])
    show "good (sw_phys w2 q)" for q using t by (simp add: touches_def)
    fix a d u assume a: "a \<in> set (sw_assets w1)" "asset_repository a = rn" "obj (sw_phys w2 ?tp) (asset_blob_key a) = Some (d, u)"
    show "row_bytes obj env w1 a = Some d"
    proof (cases "asset_blob_key a = key")
      case True
      have "row_bytes obj env w1 a0 \<noteq> None" by (rule mig_ready_row(3) [OF r a0(1)])
      then have "asset_blob_store_id a0 = src" using a0(3,4) none by (auto simp: row_bytes_def row_obj_def)
      moreover have "map_option fst (obj (sw_phys w1 (store_space env w1 src)) key) = Some d" by (rule cp) (use a(3) True in simp)
      ultimately have "row_bytes obj env w1 a0 = Some d" by (simp only: row_bytes_def row_obj_def a0(3))
      then show ?thesis using r a(1,2) a0(1-3) True unfolding mig_ready_def by metis
    next
      case False
      have "valid (asset_blob_key a)" using r a(1) unfolding mig_ready_def by blast
      then have "obj (sw_phys w1 ?tp) (asset_blob_key a) = Some (d, u)" using a(3) False t by (simp add: touches_def)
      then show ?thesis using r a(1,2) unfolding mig_ready_def by metis
    qed
  qed
qed

text \<open>The row moved, or stopped anywhere: every state in between is as good as the first.\<close>

lemma row_stages_effect:
  assumes mr: "w' \<in> set (row_stages env others rn target tname (store_space env w target) row w)" and env: "se_ops env = ops"
    and r: "mig_ready obj valid good env rn target w" and q: "\<And>j. quiet (others j)" and src: "mr_source row \<noteq> target"
    and a0: "a0 \<in> set (sw_assets w)" "asset_repository a0 = rn" "asset_blob_key a0 = mr_key row"
      "asset_blob_store_id a0 = mr_source row \<or> asset_blob_store_id a0 = target"
  shows "same_frame env w w' \<and> moved obj env rn target w w' \<and> mig_ready obj valid good env rn target w'"
proof -
  define w0 where "w0 = others 0 w"
  note f0 = quiet_frame(1) [OF q [of 0], of env w, folded w0_def] quiet_frame(2-) [OF q [of 0], of w, folded w0_def]
  note r0 = mig_ready_frame [OF r f0(1-3)]
  note fin = same_frame_trans [OF f0(1)] moved_trans [OF r0(2)]
  show ?thesis
  proof (cases "stores_by_id w0 12 (mr_source row)")
    case None
    then show ?thesis using mr f0(1) r0 by (auto simp: row_stages_def move_row_def w0_def Let_def)
  next
    case (Some sb)
    then have sb: "sb \<in> set (sw_stores w0)" "bs_id sb = mr_source row"
      by (auto simp: stores_by_id_def dest!: find_mem split: if_splits)
    obtain o1 r' where g: "registry_get (se_azure_url env) (se_reachable env) (sw_registry w0) (descriptor_of sb) = (o1, r')"
      by (cases "registry_get (se_azure_url env) (se_reachable env) (sw_registry w0) (descriptor_of sb)")
    have pre: "tables_ok w0" "registry_ok env w0" "se_registry_on env" "trim_space (bs_id sb) \<noteq> []"
      using r0(1) sb(1) unfolding mig_ready_def by auto
    define w1 where "w1 = w0\<lparr> sw_registry := r' \<rparr>"
    note rs = registry_get_space [OF g sb(1) pre, folded w1_def]
    have f1: "same_frame env w0 w1" "sw_assets w1 = sw_assets w0" "sw_phys w1 = sw_phys w0"
      using registry_step_frame [OF rs(1)] by (simp_all add: w1_def)
    note r1 = mig_ready_frame [OF r0(1) f1]
    show ?thesis
    proof (cases o1)
      case None
      then have "w' = w0 \<or> w' = w1"
        using mr Some g by (auto simp: row_stages_def move_row_def w0_def w1_def Let_def)
      then show ?thesis using fin(1) [OF f1(1)] fin(2) [OF r1(2)] r1(1) f0(1) r0 by auto
    next
      case p: (Some sp)
      let ?tp = "store_space env w target" and ?key = "mr_key row"
      have space: "store_space env w1 = store_space env w" using same_frame_space f0(1) f1(1) by metis
      have sp: "sp = store_space env w1 (mr_source row)" using rs(2) [OF p] sb(2) same_frame_space [OF f1(1)] by simp
      have a1: "a0 \<in> set (sw_assets w1)" using a0(1) f0(2) f1(2) by simp
      have v: "valid ?key" using r1(1) a1 a0(3) unfolding mig_ready_def by metis
      have sid: "mr_source row \<in> set (map bs_id (sw_stores w1))" using sb by (force simp: w1_def)
      have good1: "\<And>q. good (sw_phys w1 q)" using r1(1) by (simp add: mig_ready_def)
      have fin1: "?thesis" if "same_frame env w1 w'" "moved obj env rn target w1 w'" "mig_ready obj valid good env rn target w'"
        using that fin(1) [OF same_frame_trans [OF f1(1) that(1)]] fin(2) [OF moved_trans [OF r1(2) that(2)]] by simp
      have flip: "?thesis"
        if u: "same_frame env w1 u" "moved obj env rn target w1 u" "mig_ready obj valid good env rn target u"
          and there: "obj (sw_phys u ?tp) ?key \<noteq> None"
          and fl: "w' \<in> set (flip_stages env rn target sp row n (others 2 u)) \<or> w' = snd (flip_locked env rn target sp sname row n (others 2 u))" for u sname n
      proof -
        note f2 = quiet_frame(1) [OF q [of 2], of env u] quiet_frame(2-) [OF q [of 2], of u]
        note r2 = mig_ready_frame [OF u(3) f2(1-3)]
        have sp2: "store_space env (others 2 u) = store_space env w1" "map bs_id (sw_stores (others 2 u)) = map bs_id (sw_stores w1)"
          using same_frame_space same_frame_stores(1) same_frame_trans [OF u(1) f2(1)] by blast+
        have t2: "obj (sw_phys (others 2 u) (store_space env (others 2 u) target)) ?key \<noteq> None" using there f2(3) sp2(1) space by simp
        have sid2: "mr_source row \<in> set (map bs_id (sw_stores (others 2 u)))" using sid sp2(2) by simp
        have spu: "sp = store_space env (others 2 u) (mr_source row)" by (simp add: sp sp2)
        obtain x v2 where fx: "flip_locked env rn target sp sname row n (others 2 u) = (x, v2)" by (cases "flip_locked env rn target sp sname row n (others 2 u)")
        have "same_frame env (others 2 u) w' \<and> moved obj env rn target (others 2 u) w' \<and> mig_ready obj valid good env rn target w'"
          using fl
        proof
          assume "w' \<in> set (flip_stages env rn target sp row n (others 2 u))"
          from flip_stages_effect [OF this [unfolded spu] env r2(1) refl src sid2 v t2] show ?thesis .
        next
          assume "w' = snd (flip_locked env rn target sp sname row n (others 2 u))"
          then have "w' = v2" by (simp add: fx)
          then show ?thesis using flip_effect [OF fx [unfolded spu] env r2(1) refl src sid2 v t2] by simp
        qed
        then show ?thesis using fin1 same_frame_trans [OF u(1)] moved_trans [OF u(2)] same_frame_trans [OF f2(1)] moved_trans [OF r2(2)] by blast
      qed
      have early: "?thesis" if "w' = w0 \<or> w' = w1" using that fin(1) [OF f1(1)] fin(2) [OF r1(2)] r1(1) f0(1) r0 by auto
      consider e where "bo_exists ops (sw_phys w1 ?tp) ?key = Inl e" | "bo_exists ops (sw_phys w1 ?tp) ?key = Inr True"
        | "bo_exists ops (sw_phys w1 ?tp) ?key = Inr False" by (metis (full_types) old.sum.exhaust)
      then show ?thesis
      proof cases
        case 1
        have "w' = w0 \<or> w' = w1"
          using mr Some g p env 1 by (auto simp: row_stages_def move_row_def w0_def w1_def Let_def)
        then show ?thesis by (rule early)
      next
        case 2
        have "w' = w0 \<or> w' = w1 \<or> w' \<in> set (flip_stages env rn target sp row (mr_size row) (others 2 w1)) \<or>
            w' = snd (flip_locked env rn target sp (bs_name sb) row (mr_size row) (others 2 w1))"
          using mr Some g p env 2 by (auto simp: row_stages_def move_row_def w0_def w1_def Let_def)
        then show ?thesis using early flip [of w1 "mr_size row" "bs_name sb"] r1(1) exists_obj [OF good1 v 2] by auto
      next
        case 3
        have none: "obj (sw_phys w1 ?tp) ?key = None" using exists_obj [OF good1 v 3] by blast
        have tgt1: "store_space env w1 target = ?tp" using space by simp
        obtain r2 w2 where c: "copy_blob env (others 1) sp ?tp ?key w1 = (r2, w2)" by (cases "copy_blob env (others 1) sp ?tp ?key w1")
        note e2 = copy_blob_effect [OF c env good1 v q none]
        have fr2: "same_frame env w1 w2" and as2: "sw_assets w2 = sw_assets w1" using e2 by blast+
        have staged: "moved obj env rn target w1 x \<and> mig_ready obj valid good env rn target x"
          if x: "same_frame env w1 x \<and> sw_assets x = sw_assets w1 \<and> touches obj valid good ?tp ?key w1 x \<and>
             (\<forall>d t. obj (sw_phys x ?tp) ?key = Some (d, t) \<longrightarrow> map_option fst (obj (sw_phys w1 sp) ?key) = Some d)" for x
          using staged_ready [OF r1(1), of x ?key "mr_source row" a0, unfolded tgt1, folded sp] x none a1 a0 by blast
        have ready2: "moved obj env rn target w1 w2" "mig_ready obj valid good env rn target w2" using staged [of w2] e2 by blast+
        show ?thesis
        proof (cases "bo_get ops (sw_phys w1 sp) ?key")
          case (Inl e)
          then have "w' = w0 \<or> w' = w1"
            using mr Some g p env 3 c by (auto simp: row_stages_def move_row_def copy_blob_def w0_def w1_def Let_def)
          then show ?thesis by (rule early)
        next
          case get: (Inr y)
          obtain d n where y: "y = (d, n)" by (cases y)
          obtain r3 w3 where put: "phys_put env ?tp ?key \<lparr> bd_bytes = d, bd_broken = False \<rparr> n (others 1 w1) = (r3, w3)"
            by (cases "phys_put env ?tp ?key \<lparr> bd_bytes = d, bd_broken = False \<rparr> n (others 1 w1)")
          note e3 = copy_put_effect(1) [OF get [unfolded y] put env good1 v q none]
          have put3: "?thesis" if "w' = w3" using that fin1 e3 staged [OF e3] by blast
          show ?thesis
          proof (cases r2)
            case (Inl e)
            then have "w' = w0 \<or> w' = w1 \<or> w' = w3 \<or> w' = w2"
              using mr Some g p env 3 c get put by (auto simp: y row_stages_def move_row_def w0_def w1_def Let_def)
            then show ?thesis using early put3 fin1 fr2 ready2 by blast
          next
            case (Inr m)
            define u where "u = update_used_bytes w2 tname m"
            have opts: "w' = w0 \<or> w' = w1 \<or> w' = w3 \<or> w' = w2 \<or> w' \<in> set (flip_stages env rn target sp row m (others 2 u)) \<or>
                w' = snd (flip_locked env rn target sp (bs_name sb) row m (others 2 u))"
              using mr Some g p env 3 c get put Inr
              by (auto simp: y row_stages_def move_row_def w0_def w1_def u_def Let_def)
            have fu: "same_frame env w2 u" "sw_assets u = sw_assets w2" "sw_phys u = sw_phys w2"
              unfolding u_def by (rule update_used_bytes_frame, simp_all add: update_used_bytes_layout)
            note ru = mig_ready_frame [OF ready2(2) fu]
            have "obj (sw_phys u ?tp) ?key \<noteq> None" using e2 Inr fu(3) by simp
            note fl = flip [OF same_frame_trans [OF fr2 fu(1)] moved_trans [OF ready2(1) ru(2)] ru(1) this]
            show ?thesis using opts early put3 fin1 fr2 ready2 fl by blast
          qed
        qed
      qed
    qed
  qed
qed

lemma move_row_effect:
  assumes mr: "move_row env others rn target tname (store_space env w target) row w = (res, w')" and env: "se_ops env = ops"
    and r: "mig_ready obj valid good env rn target w" and q: "\<And>j. quiet (others j)" and src: "mr_source row \<noteq> target"
    and a0: "a0 \<in> set (sw_assets w)" "asset_repository a0 = rn" "asset_blob_key a0 = mr_key row"
      "asset_blob_store_id a0 = mr_source row \<or> asset_blob_store_id a0 = target"
  shows "same_frame env w w' \<and> moved obj env rn target w w' \<and> mig_ready obj valid good env rn target w'"
proof -
  have "w' \<in> set (row_stages env others rn target tname (store_space env w target) row w)" by (simp add: row_stages_def Let_def mr)
  from row_stages_effect [OF this env r q src a0] show ?thesis .
qed

lemma row_panic_mem: "row_panic env others rn target tname tp row k w \<in> set (row_stages env others rn target tname tp row w)"
  unfolding row_panic_def Let_def by (rule nth_mem) (simp add: row_stages_def Let_def)

lemma move_loop_effect:
  assumes "move_loop env sch deadline m n tname (store_space env (mw_store w) (mg_target m)) i bytes rows w = (d, w')" "se_ops env = ops"
    "mig_ready obj valid good env (mg_repository m) (mg_target m) (mw_store w)" "\<And>i j. quiet (ms_others sch i j)"
    "\<And>row. row \<in> set rows \<Longrightarrow> to_move (mg_repository m) (mg_target m) (mw_store w) row"
  shows "same_frame env (mw_store w) (mw_store w') \<and> moved obj env (mg_repository m) (mg_target m) (mw_store w) (mw_store w') \<and>
     mig_ready obj valid good env (mg_repository m) (mg_target m) (mw_store w')"
  using assms(1,3,5)
proof (induction rows arbitrary: i bytes w)
  case Nil
  then show ?case by simp
next
  case (Cons row rows)
  let ?tp = "store_space env (mw_store w) (mg_target m)"
  have idle: ?case if "mw_store w' = mw_store w" using that Cons.prems(2) by simp
  obtain a0 where a0: "a0 \<in> set (sw_assets (mw_store w))" "asset_repository a0 = mg_repository m" "asset_blob_key a0 = mr_key row"
      "asset_blob_store_id a0 = mr_source row \<or> asset_blob_store_id a0 = mg_target m" and src: "mr_source row \<noteq> mg_target m"
    using Cons.prems(3) [of row] unfolding to_move_def by auto
  show ?case
  proof (cases "past_deadline (ms_time sch i) deadline \<or> ms_signal sch i \<noteq> Sig_None")
    case True
    have at: "mw_store w' = mw_store w \<or> mw_store w' \<in> set (row_stages env (ms_others sch i) (mg_repository m) (mg_target m) tname ?tp row (mw_store w))"
      using True Cons.prems(1) by (auto simp: row_panic_mem split: if_splits mig_signal.splits)
    show ?thesis
      using at
    proof
      assume "mw_store w' \<in> set (row_stages env (ms_others sch i) (mg_repository m) (mg_target m) tname ?tp row (mw_store w))"
      from row_stages_effect [OF this assms(2) Cons.prems(2) assms(4) src a0] show ?thesis .
    qed (rule idle)
  next
    case False
    obtain r s where mr: "move_row env (ms_others sch i) (mg_repository m) (mg_target m) tname ?tp row (mw_store w) = (r, s)"
      by (cases "move_row env (ms_others sch i) (mg_repository m) (mg_target m) tname ?tp row (mw_store w)")
    note e = move_row_effect [OF mr assms(2) Cons.prems(2) assms(4) src a0]
    show ?thesis
    proof (cases r)
      case (Some msg)
      then have "mw_store w' = s" using Cons.prems(1) False mr by auto
      then show ?thesis using e by simp
    next
      case None
      define w1 where "w1 = update_progress (mg_id m) (Suc i) (add64 bytes (mr_size row)) (w\<lparr> mw_store := s \<rparr>)"
      have s: "mw_store w1 = s" by (simp add: w1_def)
      have sp: "store_space env (mw_store w1) (mg_target m) = ?tp" using e same_frame_space s by metis
      have rest: "move_loop env sch deadline m n tname (store_space env (mw_store w1) (mg_target m)) (Suc i) (add64 bytes (mr_size row)) rows w1 = (d, w')"
        unfolding sp using Cons.prems(1) False mr None by (simp add: w1_def)
      have "to_move (mg_repository m) (mg_target m) (mw_store w1) row'" if "row' \<in> set rows" for row'
        proof -
        have "to_move (mg_repository m) (mg_target m) (mw_store w) row'" using Cons.prems(3) that by simp
        then show ?thesis using to_move_moved e s by blast
      qed
      from Cons.IH [OF rest _ this] e s show ?thesis
        using same_frame_trans moved_trans by (metis (no_types, lifting))
    qed
  qed
qed

lemma run_migration_effect:
  assumes "se_ops env = ops" "\<And>i j. quiet (ms_others sch i j)"
    "mig_ready obj valid good env (mg_repository m) (mg_target m) (mw_store w)"
    "w' = run_migration env sch locked deadline m w"
  shows "moved obj env (mg_repository m) (mg_target m) (mw_store w) (mw_store w') \<and>
     mig_ready obj valid good env (mg_repository m) (mg_target m) (mw_store w')"
proof -
  let ?ok = "\<lambda>v. moved obj env (mg_repository m) (mg_target m) (mw_store w) (mw_store v) \<and>
     mig_ready obj valid good env (mg_repository m) (mg_target m) (mw_store v)"
  have idle: "?ok v" if "mw_store v = mw_store w" for v using that assms(3) by simp
  have "?ok (run_body env sch deadline m w)"
  proof (cases "mg_target m = [] \<or> mw_fail w M_Status \<or> mw_fail w M_Rows \<or> stores_by_id (mw_store w) 11 (mg_target m) = None \<or>
      ms_setup sch = Some 0 \<or> ms_setup sch = Some 1")
    case True
    then show ?thesis by (intro idle) (auto simp: run_body_def Let_def update_status_def split: option.splits)
  next
    case False
    then obtain tb where tb: "stores_by_id (mw_store w) 11 (mg_target m) = Some tb" by auto
    then have b: "tb \<in> set (sw_stores (mw_store w))" "bs_id tb = mg_target m"
      by (auto simp: stores_by_id_def dest!: find_mem split: if_splits)
    define rows where "rows = list_for_migration (mw_store w) (mg_repository m) (mg_target m)"
    define w1 where "w1 = set_totals (mg_id m) (length rows) (sum_sizes rows) (update_job (mg_id m)
        (\<lambda>m. m\<lparr> mg_status := ''running'', mg_error := None,
             mg_started_at := (case mg_started_at m of Some t \<Rightarrow> Some t | None \<Rightarrow> Some (sw_now (mw_store w))) \<rparr>) w)"
    have s1: "mw_store w1 = mw_store w" by (simp add: w1_def)
    obtain o1 r' where g: "registry_get (se_azure_url env) (se_reachable env) (sw_registry (mw_store w)) (descriptor_of tb) = (o1, r')"
      by (cases "registry_get (se_azure_url env) (se_reachable env) (sw_registry (mw_store w)) (descriptor_of tb)")
    have pre: "tables_ok (mw_store w)" "registry_ok env (mw_store w)" "se_registry_on env" "trim_space (bs_id tb) \<noteq> []"
      using assms(3) b(1) unfolding mig_ready_def by auto
    note rs = registry_get_space [OF g b(1) pre]
    define w2 where "w2 = w1\<lparr> mw_store := (mw_store w)\<lparr> sw_registry := r' \<rparr> \<rparr>"
    have f2: "same_frame env (mw_store w) (mw_store w2)" "sw_assets (mw_store w2) = sw_assets (mw_store w)"
      "sw_phys (mw_store w2) = sw_phys (mw_store w)" "sw_repos (mw_store w2) = sw_repos (mw_store w)"
      using registry_step_frame [OF rs(1)] by (simp_all add: w2_def)
    note r2 = mig_ready_frame [OF assms(3) f2(1-3)]
    have body: "run_body env sch deadline m w =
        (case o1 of None \<Rightarrow> finish_migration 0 (mg_id m) ''failed'' (Some Mm_Open_Target) w2
         | Some tp \<Rightarrow>
             if ms_setup sch = Some 2 then w2
             else (case move_loop env sch deadline m (length rows) (bs_name tb) tp 0 0 rows w2 of
                (False, w3) \<Rightarrow> w3
              | (True, w3) \<Rightarrow>
                  (let w4 = w3\<lparr> mw_store := repoint_repository m (mw_store w3) \<rparr>
                   in case ms_signal sch (length rows) of Sig_Panic k \<Rightarrow> (if k = 0 then w3 else w4)
                      | _ \<Rightarrow> finish_migration 0 (mg_id m) ''done'' None w4)))"
      using False tb g s1
      by (simp add: run_body_def update_status_def Let_def rows_def [symmetric] w1_def [symmetric] w2_def [symmetric]
          cong: option.case_cong if_cong prod.case_cong bool.case_cong mig_signal.case_cong)
    show ?thesis
    proof (cases o1)
      case None
      then show ?thesis using body r2 by simp
    next
      case (Some tp)
      have tp: "tp = store_space env (mw_store w2) (mg_target m)" using rs(2) [OF Some] b(2) same_frame_space [OF f2(1)] by simp
      obtain d w3 where l: "move_loop env sch deadline m (length rows) (bs_name tb) tp 0 0 rows w2 = (d, w3)"
        by (cases "move_loop env sch deadline m (length rows) (bs_name tb) tp 0 0 rows w2")
      have "to_move (mg_repository m) (mg_target m) (mw_store w2) row" if "row \<in> set rows" for row
        using list_for_migration_to_move [OF pre(1) that [unfolded rows_def]] by (simp add: to_move_def f2)
      note e = move_loop_effect [OF l [unfolded tp] assms(1) r2(1) assms(2) this]
      have r3: "?ok w3" using moved_trans [OF r2(2)] e by blast
      have r4: "?ok (w3\<lparr> mw_store := repoint_repository m (mw_store w3) \<rparr>)"
      proof -
        let ?s = "repoint_repository m (mw_store w3)"
        note f4 = repoint_frame(1) [of env "mw_store w3" m] repoint_frame(2-) [where w = "mw_store w3" and m = m]
        show ?thesis
          using mig_ready_frame [OF r3 [THEN conjunct2] f4] moved_trans [OF r3 [THEN conjunct1]] by simp
      qed
      then show ?thesis using body Some l r3 r4 r2 by (cases d) (simp_all add: Let_def split: mig_signal.split)
    qed
  qed
  then show ?thesis by (simp add: assms(4) run_migration_def Let_def)
qed

end

section \<open>The job table\<close>

text \<open>At most one active job of a repository, and ids that are not reused.\<close>

definition jobs_ok :: "'b mig_world \<Rightarrow> bool" where
  "jobs_ok w \<longleftrightarrow>
     distinct (map mg_id (mw_jobs w)) \<and> (\<forall>n \<ge> mw_next w. ''mig-'' @ itoa (int n) \<notin> set (map mg_id (mw_jobs w))) \<and>
     (\<forall>m \<in> set (mw_jobs w). \<forall>m' \<in> set (mw_jobs w). is_active m \<and> is_active m' \<and> mg_repository m = mg_repository m' \<longrightarrow> m = m')"

text \<open>What a run may do to the table: rewrite its own row.\<close>

definition job_step :: "string \<Rightarrow> 'b mig_world \<Rightarrow> 'b mig_world \<Rightarrow> bool" where
  "job_step i w w' \<longleftrightarrow>
     (\<exists>f. mw_jobs w' = map f (mw_jobs w) \<and> (\<forall>m. mg_id (f m) = mg_id m \<and> mg_repository (f m) = mg_repository m \<and> (mg_id m \<noteq> i \<longrightarrow> f m = m))) \<and>
     mw_fail w' = mw_fail w \<and> mw_locks w' = mw_locks w \<and> mw_cancels w' = mw_cancels w \<and> mw_next w' = mw_next w"

lemma job_step_refl [simp]: "job_step i w w"
  unfolding job_step_def by (intro conjI exI [of _ id]) simp_all

lemma job_step_store: "job_step i w (w\<lparr> mw_store := s \<rparr>)"
  unfolding job_step_def by (intro conjI exI [of _ id]) simp_all

lemma job_step_trans:
  assumes "job_step i w w1" "job_step i w1 w2"
  shows "job_step i w w2"
proof -
  obtain f where f: "mw_jobs w1 = map f (mw_jobs w)"
    "\<And>m. mg_id (f m) = mg_id m \<and> mg_repository (f m) = mg_repository m \<and> (mg_id m \<noteq> i \<longrightarrow> f m = m)"
    using assms(1) unfolding job_step_def by blast
  obtain g where g: "mw_jobs w2 = map g (mw_jobs w1)"
    "\<And>m. mg_id (g m) = mg_id m \<and> mg_repository (g m) = mg_repository m \<and> (mg_id m \<noteq> i \<longrightarrow> g m = m)"
    using assms(2) unfolding job_step_def by blast
  have "mw_jobs w2 = map (g \<circ> f) (mw_jobs w)" by (simp add: f(1) g(1))
  moreover have "mg_id ((g \<circ> f) m) = mg_id m \<and> mg_repository ((g \<circ> f) m) = mg_repository m \<and> (mg_id m \<noteq> i \<longrightarrow> (g \<circ> f) m = m)" for m
    using f(2) [of m] g(2) [of "f m"] by simp
  ultimately show ?thesis using assms unfolding job_step_def by (intro conjI exI [of _ "g \<circ> f"]) simp_all
qed

lemma job_step_update:
  "(\<And>m. mg_id (f m) = mg_id m \<and> mg_repository (f m) = mg_repository m) \<Longrightarrow> job_step i w (update_job i f w)"
  unfolding job_step_def update_job_def by (intro conjI exI [of _ "\<lambda>m. if mg_id m = i then f m else m"]) auto

lemma job_step_calls:
  "job_step i w (set_totals i n b w)" "job_step i w (update_progress i n b w)" "job_step i w (finish_migration site i st msg w)"
  "update_status i st msg w = Some w' \<Longrightarrow> job_step i w w'"
  by (auto simp: set_totals_def update_progress_def finish_migration_def update_status_def intro!: job_step_update split: if_splits)

lemma job_step_loop:
  "move_loop env sch deadline m n tname tp i bytes rows w = (d, w') \<Longrightarrow> job_step (mg_id m) w w'"
proof (induction rows arbitrary: i bytes w)
  case Nil
  then show ?case by simp
next
  case (Cons row rows)
  let ?id = "mg_id m"
  show ?case
  proof (cases "past_deadline (ms_time sch i) deadline \<or> ms_signal sch i \<noteq> Sig_None")
    case True
    then show ?thesis using Cons.prems by (auto simp: job_step_calls job_step_store split: if_splits mig_signal.splits)
  next
    case False
    obtain r s where mr: "move_row env (ms_others sch i) (mg_repository m) (mg_target m) tname tp row (mw_store w) = (r, s)"
      by (cases "move_row env (ms_others sch i) (mg_repository m) (mg_target m) tname tp row (mw_store w)")
    show ?thesis
    proof (cases r)
      case (Some msg)
      then have "w' = finish_migration 0 ?id ''failed'' (Some msg) (w\<lparr> mw_store := s \<rparr>)" using Cons.prems False mr by auto
      then show ?thesis using job_step_trans [OF job_step_store job_step_calls(3)] by blast
    next
      case None
      then have "job_step ?id (update_progress ?id (Suc i) (add64 bytes (mr_size row)) (w\<lparr> mw_store := s \<rparr>)) w'"
        using Cons.prems False mr by (intro Cons.IH [of "Suc i" "add64 bytes (mr_size row)"]) simp
      then show ?thesis using job_step_trans [OF job_step_trans [OF job_step_store job_step_calls(2)]] by blast
    qed
  qed
qed

lemma job_step_body: "job_step (mg_id m) w (run_body env sch deadline m w)"
proof -
  let ?id = "mg_id m"
  have loop: "job_step ?id v (case move_loop env sch deadline m n tname tp i bytes rows v of
      (False, w2) \<Rightarrow> w2
    | (True, w2) \<Rightarrow>
        (let w3 = w2\<lparr> mw_store := repoint_repository m (mw_store w2) \<rparr>
         in case ms_signal sch (length rows) of Sig_Panic k \<Rightarrow> (if k = 0 then w2 else w3) | _ \<Rightarrow> finish_migration 0 ?id ''done'' None w3))"
    for v n tname tp i bytes rows
  proof -
    obtain d w3 where l: "move_loop env sch deadline m n tname tp i bytes rows v = (d, w3)" by (cases "move_loop env sch deadline m n tname tp i bytes rows v")
    note s = job_step_loop [OF l]
    show ?thesis
      using l s job_step_trans [OF s job_step_store] job_step_trans [OF s job_step_trans [OF job_step_store job_step_calls(3)]]
      by (cases d) (simp_all add: Let_def split: mig_signal.split)
  qed
  have to: "job_step ?id w v \<Longrightarrow> job_step ?id v v' \<Longrightarrow> job_step ?id w v'" for v v' by (rule job_step_trans)
  note fin = job_step_calls(3) [of ?id]
  show ?thesis
  proof (cases "mg_target m = [] \<or> update_status ?id ''running'' None w = None")
    case True
    then show ?thesis by (auto simp: run_body_def Let_def fin split: option.split)
  next
    case False
    then obtain w1 where us: "update_status ?id ''running'' None w = Some w1" and t: "mg_target m \<noteq> []" by auto
    note s1 = job_step_calls(4) [OF us]
    define rows where "rows = list_for_migration (mw_store w1) (mg_repository m) (mg_target m)"
    define w2 where "w2 = set_totals ?id (length rows) (sum_sizes rows) w1"
    have s2: "job_step ?id w w2" using to [OF s1 job_step_calls(1)] by (simp add: w2_def)
    note s3 = to [OF to [OF s2 job_step_store]]
    show ?thesis
      unfolding run_body_def Let_def us option.case if_not_P [OF t] rows_def [symmetric] w2_def [symmetric]
      using s1 s2 to [OF s1 fin] to [OF s2 fin] to [OF s2 job_step_store] s3 [OF fin] s3 [OF loop [unfolded Let_def]] by (simp split: option.split prod.split)
  qed
qed

lemma job_step_jobs:
  assumes "job_step i w w'" "jobs_ok w" "\<And>m. m \<in> set (mw_jobs w') \<Longrightarrow> mg_id m = i \<Longrightarrow> \<not> is_active m"
  shows "jobs_ok w'"
proof -
  obtain f where f: "mw_jobs w' = map f (mw_jobs w)" "\<And>m. mg_id (f m) = mg_id m \<and> mg_repository (f m) = mg_repository m \<and> (mg_id m \<noteq> i \<longrightarrow> f m = m)"
    "mw_next w' = mw_next w"
    using assms(1) unfolding job_step_def by blast
  have ids: "map mg_id (mw_jobs w') = map mg_id (mw_jobs w)" using f(2) by (simp add: f(1))
  have "m \<in> set (mw_jobs w)" if "m \<in> set (mw_jobs w')" "is_active m" for m
    using that assms(3) [of m] f(1) f(2) by (metis (no_types, lifting) imageE set_map)
  then show ?thesis using assms(2) unfolding jobs_ok_def ids f(3) by blast
qed

section \<open>A key that the target already holds\<close>

context blob_store_laws
begin

lemma drop_source_other:
  assumes "drop_source_copy env sp sname row w = w'" "se_ops env = ops" "\<And>q. good (sw_phys w q)" "valid (mr_key row)"
    "valid k" "q \<noteq> sp"
  shows "obj (sw_phys w' q) k = obj (sw_phys w q) k" "sw_assets w' = sw_assets w" "same_layout w w'"
proof -
  obtain r1 w1 where del: "phys_delete env sp (mr_key row) w = (r1, w1)" by (cases "phys_delete env sp (mr_key row) w")
  note f = phys_only_frame [OF phys_delete_touches(2) [OF del assms(2,3) valid_entry [OF assms(4)]]]
  have o: "obj (sw_phys w1 q) k = obj (sw_phys w q) k"
    using phys_delete_other [OF del assms(2,3) valid_entry [OF assms(4)] valid_entry [OF assms(5)]] assms(6) by simp
  obtain n where "w' = w \<or> w' = w1 \<or> w' = update_used_bytes w1 sname n"
    using assms(1) del by (auto simp: drop_source_copy_def Let_def split: option.splits if_splits)
  then show "obj (sw_phys w' q) k = obj (sw_phys w q) k" "sw_assets w' = sw_assets w" "same_layout w w'"
    using o f(1,2) same_layout_trans [OF f(1) update_used_bytes_layout(1)] by (auto simp: update_used_bytes_layout)
qed

lemma move_row_open:
  assumes "stores_by_id (others 0 w) 12 (mr_source row) = Some sb"
    "registry_get (se_azure_url env) (se_reachable env) (sw_registry (others 0 w)) (descriptor_of sb) = (Some sp, r')"
    "w1 = (others 0 w)\<lparr> sw_registry := r' \<rparr>"
  shows "move_row env others rn target tname tp row w =
     (case bo_exists (se_ops env) (sw_phys w1 tp) (mr_key row) of
        Inl e \<Rightarrow> (Some (Mm_Check (mr_key row) e), w1)
      | Inr True \<Rightarrow> flip_locked env rn target sp (bs_name sb) row (mr_size row) (others 2 w1)
      | Inr False \<Rightarrow>
          (case copy_blob env (others 1) sp tp (mr_key row) w1 of
             (Inl msg, w2) \<Rightarrow> (Some msg, w2)
           | (Inr copied, w2) \<Rightarrow>
               flip_locked env rn target sp (bs_name sb) row copied (others 2 (update_used_bytes w2 tname copied))))"
  by (simp only: move_row_def Let_def assms option.case prod.case)

lemma move_row_trusts_target:
  assumes mr: "move_row env others rn target tname tp row w = (None, w')" and env: "se_ops env = ops" and q: "\<And>j. quiet (others j)"
    and good: "\<And>q. good (sw_phys w q)" and ok: "tables_ok w" "registry_ok env w" "se_registry_on env" "trim_space (mr_source row) \<noteq> []"
    and tp: "tp = store_space env w target" "store_space env w (mr_source row) \<noteq> tp" and v: "valid (mr_key row)"
    and held: "obj (sw_phys w tp) (mr_key row) = Some (d, t)"
    and a: "row_at w rn path = Some a" "asset_blob_key a = mr_key row" "\<exists>r \<in> set (sw_repos w). repo_name r = rn"
  shows "content obj env w' rn path = Some d"
proof -
  define w0 where "w0 = others 0 w"
  note f0 = quiet_frame(1) [OF q [of 0], of env w, folded w0_def] quiet_frame(2-) [OF q [of 0], of w, folded w0_def]
  have ok0: "tables_ok w0" "registry_ok env w0"
    using tables_ok_moved [OF ok(1) f0(1), of id] f0(2) ok(2) f0(1) by (simp_all add: same_frame_def)
  obtain sb where by_id: "stores_by_id w0 12 (mr_source row) = Some sb"
    using mr by (cases "stores_by_id w0 12 (mr_source row)") (simp_all add: move_row_def w0_def [symmetric])
  then have sb: "sb \<in> set (sw_stores w0)" "bs_id sb = mr_source row" by (auto simp: stores_by_id_def dest!: find_mem split: if_splits)
  obtain o1 r' where g: "registry_get (se_azure_url env) (se_reachable env) (sw_registry w0) (descriptor_of sb) = (o1, r')"
    by (cases "registry_get (se_azure_url env) (se_reachable env) (sw_registry w0) (descriptor_of sb)")
  have trim: "trim_space (bs_id sb) \<noteq> []" using ok(4) sb(2) by simp
  define w1 where "w1 = w0\<lparr> sw_registry := r' \<rparr>"
  note rs = registry_get_space [OF g sb(1) ok0 ok(3) trim, folded w1_def]
  have f1: "same_frame env w0 w1" "sw_assets w1 = sw_assets w" "sw_phys w1 = sw_phys w" "sw_repos w1 = sw_repos w"
    using registry_step_frame [OF rs(1)] f0 by (simp_all add: w1_def)
  obtain sp where sp: "o1 = Some sp" using mr by_id g by (cases o1) (simp_all add: move_row_def w0_def [symmetric])
  have ne: "tp \<noteq> sp" using rs(2) [OF sp] sb(2) same_frame_space [OF f0(1)] tp(2) by simp
  have good1: "\<And>q. good (sw_phys w1 q)" using good f1(3) by simp
  note open1 = move_row_open [where others = others and w = w, OF by_id [unfolded w0_def] g [unfolded sp w0_def] w1_def [unfolded w0_def],
      of rn target tname tp, unfolded mr env]
  obtain x where "bo_exists ops (sw_phys w1 tp) (mr_key row) = Inr x"
    using open1 by (cases "bo_exists ops (sw_phys w1 tp) (mr_key row)") simp_all
  moreover from exists_obj [OF good1 v this] have x using held f1(3) by simp
  ultimately have ex: "bo_exists ops (sw_phys w1 tp) (mr_key row) = Inr True" by simp
  define u where "u = others 2 w1"
  note f2 = quiet_frame(1) [OF q [of 2], of env w1, folded u_def] quiet_frame(2-) [OF q [of 2], of w1, folded u_def]
  have "flip_locked env rn target sp (bs_name sb) row (mr_size row) u = (None, w')"
    using open1 ex by (simp add: u_def)
  then have "flip_row env rn target sp (bs_name sb) row (mr_size row) u = (None, w')"
    by (cases "flip_row env rn target sp (bs_name sb) row (mr_size row) u") (auto simp: flip_locked_def split: if_splits option.splits)
  then obtain w2 where m: "move_rows u (mr_key row) rn target = Some w2" and dr: "drop_source_copy env sp (bs_name sb) row w2 = w'"
    by (auto simp: flip_row_def split: sum.splits if_splits option.splits)
  let ?in = "\<lambda>a. asset_blob_key a = mr_key row \<and> (\<exists>r \<in> set (sw_repos u). repo_id r = asset_repository_id a \<and> repo_name r = rn)"
  let ?f = "\<lambda>a. if ?in a then a\<lparr> asset_blob_store_id := target \<rparr> else a"
  have w2: "w2 = u\<lparr> sw_assets := map ?f (sw_assets u) \<rparr>" using m by (simp add: move_rows_def split: if_splits)
  have good2: "\<And>q. good (sw_phys w2 q)" using good1 f2(3) by (simp add: w2)
  note dr' = drop_source_other [OF dr env good2 v v ne]
  have fr2: "same_frame env u w2" by (simp add: w2 same_frame_def registry_ok_def)
  have "same_frame env w w'"
    by (intro same_frame_trans [OF f0(1)] same_frame_trans [OF f1(1)] same_frame_trans [OF f2(1)] same_frame_trans [OF fr2]
        same_layout_frame [OF dr'(3)])
  then have space: "store_space env w' target = tp" using same_frame_space tp(1) by metis
  have as: "sw_assets w' = map ?f (sw_assets w)" unfolding dr'(2) w2 by (simp add: f2(2) f1(2) del: if_split)
  have keep: "asset_repository (?f x) = asset_repository x" "asset_path (?f x) = asset_path x" for x by simp_all
  have row: "row_at w' rn path = map_option ?f (row_at w rn path)"
    by (simp only: row_at_def as find_map_option keep)
  have "?in a" using a row_at_mem [OF a(1)] ok(1) f2(6) f1(4) unfolding tables_ok_def by metis
  then have "row_at w' rn path = Some (a\<lparr> asset_blob_store_id := target \<rparr>)" using row a(1) by simp
  then show ?thesis using held dr'(1) a(2) space by (simp add: content_def row_obj_def w2 f2(3) f1(3))
qed

end

end
