(* ===== verification/Migration_Guarantees.thy ===== *)
theory Migration_Guarantees
  imports Migration_Contract
begin

text \<open>
  The properties of the migration service on the filesystem backend, and an example with two stores that
  shows both sides: a run that moves an artifact, and runs that lose one because the target already
  answered \<open>Exists\<close>.
\<close>

section \<open>Jobs\<close>

lemma close_stuck_closes:
  assumes "mg_id m \<in> set (map mg_id (mw_jobs w))" "distinct (map mg_id (mw_jobs w))" "\<not> mw_fail w M_Get" "\<not> mw_fail w (M_Finish 1)"
  shows "job_step (mg_id m) w (close_stuck (mg_id m) w)" "x \<in> set (mw_jobs (close_stuck (mg_id m) w)) \<Longrightarrow> mg_id x = mg_id m \<Longrightarrow> \<not> is_active x"
proof -
  obtain cur where cur: "cur \<in> set (mw_jobs w)" "mg_id cur = mg_id m" using assms(1) by auto
  have f: "find (\<lambda>j. mg_id j = mg_id m) (mw_jobs w) = Some cur" using find_unique [OF assms(2) cur(1)] cur(2) by simp
  have c: "close_stuck (mg_id m) w = (if \<not> is_active cur then w else finish_migration 1 (mg_id m) ''failed'' (Some Mm_Panic) w)"
    using assms(3) f by (simp add: close_stuck_def)
  show "job_step (mg_id m) w (close_stuck (mg_id m) w)" by (simp add: c job_step_calls)
  have uniq: "y = cur" if "y \<in> set (mw_jobs w)" "mg_id y = mg_id m" for y
    using that cur assms(2) by (metis distinct_map inj_onD)
  show "\<not> is_active x" if "x \<in> set (mw_jobs (close_stuck (mg_id m) w))" "mg_id x = mg_id m"
  proof (cases "is_active cur")
    case False
    then show ?thesis using that c uniq by auto
  next
    case True
    then show ?thesis using that c assms(4) by (auto simp: finish_migration_def update_job_def is_active_def)
  qed
qed

lemma start_migration_jobs_ok:
  assumes "jobs_ok w"
  shows "jobs_ok (snd (start_migration w lock now0 rn target))"
proof -
  have rel: "jobs_ok (release_lock b c r v) = jobs_ok v" "jobs_ok (v\<lparr> mw_cancels := x \<rparr>) = jobs_ok v" "jobs_ok (v\<lparr> mw_locks := y \<rparr>) = jobs_ok v" for b c r x y and v :: "'a mig_world"
    by (simp_all add: jobs_ok_def release_lock_def)
  have create: "jobs_ok (snd (mig_create v m))" if v: "jobs_ok v" for v :: "'a mig_world" and m
  proof -
    have fresh: "mg_repository x = mg_repository m \<Longrightarrow> \<not> is_active x"
      if "active_by_repo v (mg_repository m) = None" "x \<in> set (mw_jobs v)" for x
      using that by (auto simp: active_by_repo_def find_None_iff)
    have ids: "''mig-'' @ itoa (int (mw_next v)) \<notin> mg_id ` set (mw_jobs v)"
      "\<And>n. n \<ge> Suc (mw_next v) \<Longrightarrow> ''mig-'' @ itoa (int n) \<notin> mg_id ` set (mw_jobs v)"
      using v by (auto simp: jobs_ok_def)
    have ne: "n \<ge> Suc (mw_next v) \<Longrightarrow> itoa (int n) \<noteq> itoa (int (mw_next v))" for n
      using fresh_id_inj [of n "mw_next v"] by auto
    show ?thesis
      using v fresh ids ne unfolding mig_create_def jobs_ok_def by (auto simp: Let_def is_active_def)
  qed
  have create': "jobs_ok v'" if "mig_create v m = (r, v')" "jobs_ok v" for v v' :: "'a mig_world" and m r
    using create [OF that(2), of m] that(1) by simp
  show ?thesis
    using assms by (auto simp: start_migration_def Let_def rel split: option.split sum.split prod.split elim!: create')
qed

text \<open>A run of an active job leaves the table sound even where its last calls failed.\<close>

lemma job_step_active:
  assumes "job_step (mg_id m) w w'" "jobs_ok w" "m \<in> set (mw_jobs w)" "is_active m"
  shows "jobs_ok w'"
proof -
  obtain f where f: "mw_jobs w' = map f (mw_jobs w)"
    "\<And>y. mg_id (f y) = mg_id y \<and> mg_repository (f y) = mg_repository y \<and> (mg_id y \<noteq> mg_id m \<longrightarrow> f y = y)" "mw_next w' = mw_next w"
    using assms(1) unfolding job_step_def by blast
  have ids: "map mg_id (mw_jobs w') = map mg_id (mw_jobs w)" using f(2) by (simp add: f(1))
  have was: "\<exists>y \<in> set (mw_jobs w). is_active y \<and> x = f y" if x: "x \<in> set (mw_jobs w')" "is_active x" for x
  proof -
    obtain y where y: "y \<in> set (mw_jobs w)" "x = f y" using x(1) f(1) by auto
    show ?thesis
    proof (cases "mg_id y = mg_id m")
      case True
      then have "y = m" using y(1) assms(2,3) unfolding jobs_ok_def by (metis distinct_map inj_onD)
      then show ?thesis using assms(3,4) y(2) by blast
    next
      case False
      then show ?thesis using f(2) [of y] y x(2) by auto
    qed
  qed
  have "x = x'" if a: "x \<in> set (mw_jobs w')" "x' \<in> set (mw_jobs w')" "is_active x" "is_active x'" "mg_repository x = mg_repository x'" for x x'
  proof -
    obtain y y' where y: "y \<in> set (mw_jobs w)" "is_active y" "x = f y" "y' \<in> set (mw_jobs w)" "is_active y'" "x' = f y'"
      using was a by meson
    then have "mg_repository y = mg_repository y'" using f(2) a(5) by metis
    then show ?thesis using y assms(2) unfolding jobs_ok_def by metis
  qed
  then show ?thesis using assms(2) unfolding jobs_ok_def ids f(3) by blast
qed

text \<open>The next start of the service closes what is active.\<close>

lemma resume_step_closes:
  assumes "\<not> mw_fail w (M_Finish 2)"
  shows "mw_fail (resume_step locker w m) = mw_fail w"
    "x \<in> set (mw_jobs (resume_step locker w m)) \<Longrightarrow> is_active x \<Longrightarrow> x \<in> set (mw_jobs w) \<and> mg_id x \<noteq> mg_id m"
  using assms(1) by (auto simp: resume_step_def release_lock_def finish_migration_def update_job_def is_active_def split: if_splits)

lemma resume_closes:
  assumes "\<not> mw_fail w M_List_Active" "\<not> mw_fail w (M_Finish 2)"
  shows "list_active (snd (resume_all locker w)) = []"
proof -
  have go: "x \<in> set (mw_jobs v) \<and> mg_id x \<notin> mg_id ` set ms"
    if "\<not> mw_fail v (M_Finish 2)" "x \<in> set (mw_jobs (foldl (resume_step locker) v ms))" "is_active x" for v ms x
    using that
  proof (induction ms arbitrary: v)
    case (Cons m ms)
    note one = resume_step_closes [OF Cons.prems(1), where locker = locker and m = m]
    have "x \<in> set (mw_jobs (resume_step locker v m)) \<and> mg_id x \<notin> mg_id ` set ms"
      by (rule Cons.IH) (use Cons.prems one(1) in simp_all)
    then show ?case using one(2) Cons.prems(3) by auto
  qed simp
  define v where "v = foldl (resume_step locker) w (list_active w)"
  have kept: "x \<in> set (list_active w) \<and> mg_id x \<notin> mg_id ` set (list_active w)" if "x \<in> set (mw_jobs v)" "is_active x" for x
    using go [OF assms(2), of x "list_active w"] that by (simp add: v_def list_active_def)
  have "\<not> is_active x" if "x \<in> set (mw_jobs v)" for x using kept [OF that] by blast
  then have "list_active v = []" by (simp add: list_active_def filter_empty_conv)
  moreover have "snd (resume_all locker w) = v" using assms(1) by (simp add: resume_all_def v_def)
  ultimately show ?thesis by simp
qed

text \<open>
  C11: every run ends and gives back what it holds. However a run of an active job goes (any failing call, a deadline,
  a cancellation, a panic between any two of its calls, a vanished target), it ends, its cancel function is forgotten
  and the table of jobs stays sound. Its job has a final status afterwards and its repository can be migrated
  again, unless the last read of the job or the last write of its status failed; its lock is given back unless the
  release failed (it expires then). A job these failures leave active is closed by the next start of the service that
  can read and write the table.
\<close>

theorem migration_always_ends:
  assumes "jobs_ok w" "m \<in> set (mw_jobs w)" "is_active m"
    "locked \<or> blob_mig_lock_key (mg_repository m) \<notin> set (mw_locks w)"
    "w' = run_migration env sch locked deadline m w"
  shows "jobs_ok w' \<and> mg_id m \<notin> set (mw_cancels w') \<and>
     (\<not> mw_fail w M_Get \<and> \<not> mw_fail w (M_Finish 1) \<longrightarrow> active_by_repo w' (mg_repository m) = None) \<and>
     (\<not> mw_fail w M_Release \<longrightarrow> blob_mig_lock_key (mg_repository m) \<notin> set (mw_locks w')) \<and>
     (\<forall>f locker. \<not> f M_List_Active \<longrightarrow> \<not> f (M_Finish 2) \<longrightarrow> list_active (snd (resume_all locker (w'\<lparr> mw_fail := f \<rparr>))) = [])"
proof -
  define w1 where "w1 = run_body env sch deadline m w"
  have s1: "job_step (mg_id m) w w1" unfolding w1_def by (rule job_step_body)
  define w2 where "w2 = close_stuck (mg_id m) w1"
  have "job_step (mg_id m) w1 w2" by (auto simp: w2_def close_stuck_def job_step_calls split: option.split)
  then have s2: "job_step (mg_id m) w w2" by (rule job_step_trans [OF s1])
  have w': "mw_jobs w' = mw_jobs w2" "mw_cancels w' = removeAll (mg_id m) (mw_cancels w2)"
    "mw_locks w' = (if locked \<and> \<not> mw_fail w M_Release then removeAll (blob_mig_lock_key (mg_repository m)) (mw_locks w2) else mw_locks w2)"
    "mw_next w' = mw_next w2"
    using assms(5) s2 by (simp_all add: run_migration_def Let_def release_lock_def w1_def w2_def job_step_def)
  have ok: "jobs_ok w2" by (rule job_step_active [OF s2 assms(1-3)])
  have closed: "active_by_repo w2 (mg_repository m) = None" if up: "\<not> mw_fail w M_Get" "\<not> mw_fail w (M_Finish 1)"
  proof (rule ccontr)
    have ids: "map mg_id (mw_jobs w1) = map mg_id (mw_jobs w)" and fl: "mw_fail w1 = mw_fail w" using s1 unfolding job_step_def by auto
    have "mg_id m \<in> set (map mg_id (mw_jobs w1))" "distinct (map mg_id (mw_jobs w1))"
      unfolding ids using assms(1,2) by (auto simp: jobs_ok_def)
    note c = close_stuck_closes [OF this, unfolded fl, OF up, folded w2_def]
    assume "active_by_repo w2 (mg_repository m) \<noteq> None"
    then obtain x where x: "x \<in> set (mw_jobs w2)" "mg_repository x = mg_repository m" "is_active x"
      unfolding active_by_repo_def by (auto dest: find_mem)
    then have ne: "mg_id x \<noteq> mg_id m" using c(2) by blast
    obtain f where f: "mw_jobs w2 = map f (mw_jobs w)" "\<And>y. mg_id (f y) = mg_id y \<and> (mg_id y \<noteq> mg_id m \<longrightarrow> f y = y)"
      using s2 unfolding job_step_def by metis
    obtain y where "y \<in> set (mw_jobs w)" "x = f y" using x(1) f(1) by auto
    then have "x \<in> set (mw_jobs w)" using f(2) [of y] ne by simp
    then show False using assms(1-3) x(2,3) ne unfolding jobs_ok_def by metis
  qed
  have "list_active (snd (resume_all locker (w'\<lparr> mw_fail := f \<rparr>))) = []" if "\<not> f M_List_Active" "\<not> f (M_Finish 2)" for f locker
    by (rule resume_closes) (use that in simp_all)
  moreover have "jobs_ok w'" using ok w' by (simp add: jobs_ok_def)
  moreover have "active_by_repo w' (mg_repository m) = active_by_repo w2 (mg_repository m)" using w' by (simp add: active_by_repo_def)
  moreover have "mw_locks w2 = mw_locks w" using s2 by (simp add: job_step_def)
  ultimately show ?thesis using w' closed assms(4) by auto
qed

section \<open>An example with two stores\<close>

definition demo_cold :: "string \<Rightarrow> blob_store" where
  "demo_cold path =
     \<lparr> bs_id = ''s2'', bs_name = ''cold'', bs_type = ''local'', bs_config = Some [''path'' \<mapsto> VStr path], bs_quota_bytes = None,
       bs_used_bytes = 0, bs_created_at = 0, bs_updated_at = 0 \<rparr>"

definition demo_two_empty :: "string \<Rightarrow> local_store store_world" where
  "demo_two_empty path = (demo_world ''allow'' None)\<lparr> sw_stores := [demo_store None 0, demo_cold path] \<rparr>"

definition demo_two :: "string \<Rightarrow> local_store store_world" where
  "demo_two path = snd (demo_put (demo_two_empty path) ''hello'' 5)"

definition demo_service :: "local_store store_world \<Rightarrow> local_store mig_world" where
  "demo_service s = \<lparr> mw_store = s, mw_jobs = [], mw_next = 0, mw_cancels = [], mw_locks = [], mw_fail = (\<lambda>_. False) \<rparr>"

definition demo_job :: migration where
  "demo_job = \<lparr> mg_id = ''mig-0'', mg_repository = ''libs'', mg_source = [], mg_target = ''s2'', mg_status = ''pending'',
     mg_total_assets = 0, mg_done_assets = 0, mg_total_bytes = 0, mg_done_bytes = 0, mg_error = None, mg_started_at = None, mg_finished_at = None \<rparr>"

definition demo_sched :: "(nat \<Rightarrow> nat \<Rightarrow> local_store store_world \<Rightarrow> local_store store_world) \<Rightarrow> local_store mig_sched" where
  "demo_sched others = \<lparr> ms_time = (\<lambda>_. 0), ms_signal = (\<lambda>_. Sig_None), ms_setup = None, ms_others = others \<rparr>"

text \<open>\<open>Start\<close> and the run it launches.\<close>

definition demo_run :: "(nat \<Rightarrow> nat \<Rightarrow> local_store store_world \<Rightarrow> local_store store_world) \<Rightarrow> local_store store_world \<Rightarrow> local_store mig_world" where
  "demo_run others s = run_migration demo_env (demo_sched others) False zero_time demo_job (snd (start_migration (demo_service s) None 0 ''libs'' ''s2''))"

lemma quiet_id: "quiet (\<lambda>s. s)"
  unfolding quiet_def by (metis store_world.surjective store_world.update_convs(13))

lemma demo_two_ok:
  "tables_ok (demo_two ''/mnt/cold'')" "registry_ok demo_env (demo_two ''/mnt/cold'')"
  "intact local_obj valid_key local_good demo_env (demo_two ''/mnt/cold'')"
proof -
  let ?v = "demo_two_empty ''/mnt/cold''"
  obtain res w' where r: "demo_put ?v ''hello'' 5 = (res, w')" by (cases "demo_put ?v ''hello'' 5")
  have inv: "tables_ok ?v" "registry_ok demo_env ?v" "intact local_obj valid_key local_good demo_env ?v" "key_unshared ?v rn path k" for rn path k
    by (simp_all add: demo_two_empty_def demo_world_def tables_ok_def registry_ok_def intact_def row_at_def key_unshared_def
        demo_store_def demo_cold_def example_store_good)
  have env: "se_ops demo_env = local_ops" by (simp add: demo_env_def)
  have "\<not> isl (fst (demo_put ?v ''hello'' 5))" by code_simp
  then show "tables_ok (demo_two ''/mnt/cold'')" "registry_ok demo_env (demo_two ''/mnt/cold'')"
    "intact local_obj valid_key local_good demo_env (demo_two ''/mnt/cold'')"
    using local_blobs.upload_view [OF r [unfolded demo_put_def] env inv(3) demo_key inv(1,2,4)] r
    by (cases res, auto simp: demo_two_def)+
qed

lemma demo_two_ready: "mig_ready local_obj valid_key local_good demo_env ''libs'' ''s2'' (demo_two ''/mnt/cold'')"
proof -
  let ?w = "demo_two ''/mnt/cold''"
  note ok = demo_two_ok
  have as: "map asset_blob_store_id (sw_assets ?w) = [''s1'']" by code_simp
  then obtain a where a: "sw_assets ?w = [a]" "asset_blob_store_id a = ''s1''" by auto
  have key: "map asset_blob_key (sw_assets ?w) = [blob_key_of demo_env ''libs'' ''/a'']" by code_simp
  have none: "local_obj (sw_phys ?w (store_space demo_env ?w ''s2'')) (blob_key_of demo_env ''libs'' ''/a'') = None" by code_simp
  have st: "map bs_id (sw_stores ?w) = [''s1'', ''s2'']" by code_simp
  have sp: "store_space demo_env ?w ''s1'' = ''local|./data/blobs''" "store_space demo_env ?w ''s2'' = ''local|/mnt/cold''" by code_simp+
  have tr: "trim_space ''s1'' \<noteq> []" "trim_space ''s2'' \<noteq> []" by code_simp+
  have row: "valid_key (asset_blob_key a) \<and> (\<exists>c t. row_obj local_obj demo_env ?w a = Some (c, t) \<and> asset_sha256 a = se_sha256 demo_env c)"
    using ok(3) row_at_self [OF ok(1), of a] a(1) unfolding intact_def by auto
  have on: "se_registry_on demo_env" by (simp add: demo_env_def)
  have good: "\<forall>q. local_good (sw_phys ?w q)" using ok(3) by (simp add: intact_def)
  have "inj_on (store_space demo_env ?w) (set (map bs_id (sw_stores ?w)))" unfolding st by (simp add: sp)
  then show ?thesis
    unfolding mig_ready_def st using ok(1,2) on tr good row none key a by (auto simp: row_bytes_def)
qed

section \<open>Artifacts\<close>

lemma ready_intact:
  assumes "mig_ready obj valid good env rn target w"
  shows "intact obj valid good env w"
proof -
  have "good (sw_phys w q)" for q using assms unfolding mig_ready_def by blast
  moreover have "valid (asset_blob_key a) \<and> (\<exists>c t. row_obj obj env w a = Some (c, t) \<and> asset_sha256 a = se_sha256 env c)"
    if "row_at w rn' path = Some a" for rn' path a
    using mig_ready_row [OF assms] row_at_mem [OF that] by (auto simp: row_bytes_def)
  ultimately show ?thesis by (simp add: intact_def)
qed



theorem migration_always_ends_witness:
  "active_by_repo (demo_run (\<lambda>_ _ s. s) (demo_two ''/mnt/cold'')) ''libs'' = None"
proof -
  let ?w = "snd (start_migration (demo_service (demo_two ''/mnt/cold'')) None 0 ''libs'' ''s2'')"
  have ok: "jobs_ok ?w" by (rule start_migration_jobs_ok) (simp add: jobs_ok_def demo_service_def)
  have "map (\<lambda>m. (mg_id m, mg_repository m, mg_source m, mg_target m, mg_status m)) (mw_jobs ?w) = [(''mig-0'', ''libs'', [], ''s2'', ''pending'')]"
    "map (\<lambda>m. (mg_total_assets m, mg_done_assets m, mg_total_bytes m, mg_done_bytes m)) (mw_jobs ?w) = [(0, 0, 0, 0)]"
    "map (\<lambda>m. (mg_error m, mg_started_at m, mg_finished_at m)) (mw_jobs ?w) = [(None, None, None)]"
    by code_simp+
  then have m: "demo_job \<in> set (mw_jobs ?w)" by (auto simp: demo_job_def map_eq_Cons_conv)
  have f: "\<not> mw_fail ?w c" for c
    by (auto simp: start_migration_def demo_service_def mig_create_def release_lock_def Let_def split: option.split sum.split prod.split)
  have l: "mw_locks ?w = []"
    by (auto simp: start_migration_def demo_service_def mig_create_def release_lock_def Let_def split: option.split sum.split prod.split)
  show ?thesis
    using migration_always_ends [OF ok m _ _ refl, of False demo_env "demo_sched (\<lambda>_ _ s. s)" zero_time, folded demo_run_def] l f
    by (simp add: is_active_def demo_job_def)
qed

text \<open>
  A key the target already holds is trusted. If the target has any object under the key of a row, a
  step that succeeds makes the path read that object, whatever the row's own object was: the copy left by
  an earlier run that failed after a re-upload replaces the newer artifact when the migration is run again.
\<close>

theorem migration_trusts_target:
  assumes "move_row env others rn target tname tp row w = (None, w')" "se_ops env = local_ops" "\<And>j. quiet (others j)"
    "\<And>q. local_good (sw_phys w q)" "tables_ok w" "registry_ok env w" "se_registry_on env" "trim_space (mr_source row) \<noteq> []"
    "tp = store_space env w target" "store_space env w (mr_source row) \<noteq> tp" "valid_key (mr_key row)"
    "local_obj (sw_phys w tp) (mr_key row) = Some (d, t)"
    "row_at w rn path = Some a" "asset_blob_key a = mr_key row" "\<exists>r \<in> set (sw_repos w). repo_name r = rn"
  shows "content local_obj env w' rn path = Some d"
  by (rule local_blobs.move_row_trusts_target [OF assms])

text \<open>The target holds the bytes of an older version of the same length.\<close>

definition demo_stale :: "local_store store_world" where
  "demo_stale = snd (phys_put demo_env ''local|/mnt/cold'' (blob_key_of demo_env ''libs'' ''/a'') (demo_body ''older'') 5 (demo_two ''/mnt/cold''))"

definition demo_row :: mig_row where
  "demo_row = \<lparr> mr_key = blob_key_of demo_env ''libs'' ''/a'', mr_source = ''s1'', mr_size = 5 \<rparr>"

definition demo_moved :: "mig_msg option \<times> local_store store_world" where
  "demo_moved = move_row demo_env (\<lambda>_ s. s) ''libs'' ''s2'' ''cold'' ''local|/mnt/cold'' demo_row demo_stale"

theorem migration_trusts_target_witness:
  "content local_obj demo_env demo_stale ''libs'' ''/a'' = Some ''hello'' \<and>
   content local_obj demo_env (snd demo_moved) ''libs'' ''/a'' = Some ''older''"
proof -
  have env: "se_ops demo_env = local_ops" by (simp add: demo_env_def)
  have good: "\<And>q. local_good (sw_phys (demo_two ''/mnt/cold'') q)" using demo_two_ok(3) by (simp add: intact_def)
  note t = local_blobs.phys_put_touches [OF prod.collapse [symmetric] env good demo_key, of "''local|/mnt/cold''" "demo_body ''older''" 5, folded demo_stale_def]
  note f = local_blobs.phys_only_frame [OF t(2)]
  have ok: "tables_ok demo_stale" "registry_ok demo_env demo_stale" "\<And>q. local_good (sw_phys demo_stale q)"
    using demo_two_ok f(5) same_layout_registry_ok [OF f(1)] t(1) by (simp_all add: touches_def)
  have on: "se_registry_on demo_env" by (simp add: demo_env_def)
  have c: "content local_obj demo_env demo_stale ''libs'' ''/a'' = Some ''hello''" by code_simp
  then obtain a where a: "row_at demo_stale ''libs'' ''/a'' = Some a" by (auto simp: content_def split: option.splits)
  have "map_option asset_blob_key (row_at demo_stale ''libs'' ''/a'') = Some (mr_key demo_row)" by code_simp
  then have k: "asset_blob_key a = mr_key demo_row" using a by simp
  have r: "\<exists>r \<in> set (sw_repos demo_stale). repo_name r = ''libs''"
  proof -
    have "''libs'' \<in> set (map repo_name (sw_repos demo_stale))" by code_simp
    then show ?thesis by auto
  qed
  have sp: "''local|/mnt/cold'' = store_space demo_env demo_stale ''s2''" "store_space demo_env demo_stale (mr_source demo_row) \<noteq> ''local|/mnt/cold''"
    "trim_space (mr_source demo_row) \<noteq> []" "valid_key (mr_key demo_row)" by code_simp+
  have o: "local_obj (sw_phys demo_stale ''local|/mnt/cold'') (mr_key demo_row) = Some (''older'', 5)" by code_simp
  have "fst demo_moved = None" by code_simp
  then have m: "move_row demo_env (\<lambda>_ s. s) ''libs'' ''s2'' ''cold'' ''local|/mnt/cold'' demo_row demo_stale = (None, snd demo_moved)"
    unfolding demo_moved_def [symmetric] by (metis prod.collapse)
  show ?thesis
    using c migration_trusts_target [OF m env quiet_id ok(3,1,2) on sp(3,1,2,4) o a k r] by simp
qed

text \<open>
  Two store rows may address one namespace. A migration between them answers \<open>Exists\<close> for every key,
  flips the rows and then deletes the only copy, and reports success.
\<close>

lemma aliased_migration_loses_objects:
  "content local_obj demo_env (demo_two ''./data/blobs'') ''libs'' ''/a'' = Some ''hello'' \<and>
   map mg_status (mw_jobs (demo_run (\<lambda>_ _ s. s) (demo_two ''./data/blobs''))) = [''done''] \<and>
   content local_obj demo_env (mw_store (demo_run (\<lambda>_ _ s. s) (demo_two ''./data/blobs''))) ''libs'' ''/a'' = None"
  by (intro conjI; code_simp)

end
