(* ===== verification/Oci_Upload.thy ===== *)
theory Oci_Upload
  imports Store_Example Rbac
begin

text \<open>
  Pushing blobs over the OCI distribution protocol: \<open>internal/formats/oci/uploads.go\<close> (upload sessions,
  staged in the default blob store) and the blob handlers of \<open>internal/formats/oci/handler.go\<close> (start,
  chunk, finalize, mount, pull, delete). A reply is its HTTP status and error code.
\<close>

section \<open>Appending backends\<close>

text \<open>The optional \<open>AppendableBlobStore\<close> extension.\<close>

record 'b append_ops =
  ap_append :: "'b \<Rightarrow> string \<Rightarrow> body \<Rightarrow> (store_err + int) \<times> 'b"
  ap_truncate :: "'b \<Rightarrow> string \<Rightarrow> nat \<Rightarrow> store_err option \<times> 'b"
  ap_size :: "'b \<Rightarrow> string \<Rightarrow> store_err + (int \<times> bool)"
  ap_finalize :: "'b \<Rightarrow> string \<Rightarrow> store_err option \<times> 'b"
  ap_abort :: "'b \<Rightarrow> string \<Rightarrow> store_err option \<times> 'b"

definition local_append_ops :: "local_store append_ops" where
  "local_append_ops =
     \<lparr> ap_append = local_append, ap_truncate = local_truncate, ap_size = local_appended_size,
       ap_finalize = (\<lambda>s _. (None, s)), ap_abort = (\<lambda>s _. (None, s)) \<rparr>"

text \<open>The handler's dependencies: the store, the extension if the default store has it, and \<open>MaxUploadBytes\<close>.\<close>

record 'b oci_env =
  oe_store :: "'b store_env"
  oe_append :: "'b append_ops option"
  oe_max_upload :: int
  oe_rbac :: "rbac_service option"

text \<open>The caller: the write context, the user id and the roles.\<close>

record oci_caller =
  oc_write :: write_ctx
  oc_user_id :: string
  oc_roles :: "string list"

type_synonym reply = "nat \<times> string"

section \<open>Upload sessions\<close>

definition upload_key_prefix :: string where
  "upload_key_prefix = ''_uploads/docker/''"

definition is_hex_digit :: "char \<Rightarrow> bool" where
  "is_hex_digit c \<longleftrightarrow> c \<in> set ''0123456789abcdefABCDEF''"

definition valid_upload_id :: "string \<Rightarrow> bool" where
  "valid_upload_id i \<longleftrightarrow> length i = 32 \<and> (\<forall>c \<in> set i. is_hex_digit c)"

definition upload_key :: "string \<Rightarrow> string" where
  "upload_key i = upload_key_prefix @ i"

datatype 'a up_result = Up_Unknown | Up_Too_Large | Up_Err store_err | Up_Done 'a

text \<open>The default store.\<close>

definition default_space :: "'b store_world \<Rightarrow> string" where
  "default_space w = rg_default (sw_registry w)"

definition on_default :: "('b \<Rightarrow> 'r \<times> 'b) \<Rightarrow> 'b store_world \<Rightarrow> 'r \<times> 'b store_world" where
  "on_default f w =
     (let r = f (sw_phys w (default_space w)) in (fst r, w\<lparr> sw_phys := (sw_phys w)(default_space w := snd r) \<rparr>))"

text \<open>\<open>create\<close> with the id that \<open>crypto/rand\<close> gave, or its failure.\<close>

definition upload_create :: "'b oci_env \<Rightarrow> string option \<Rightarrow> 'b store_world \<Rightarrow> string option \<times> 'b store_world" where
  "upload_create oe new_id w =
     (case new_id of
        None \<Rightarrow> (None, w)
      | Some i \<Rightarrow>
          (case phys_put (oe_store oe) (default_space w) (upload_key i) \<lparr> bd_bytes = [], bd_broken = False \<rparr> 0 w of
             (Some _, w1) \<Rightarrow> (None, w1)
           | (None, w1) \<Rightarrow> (Some i, w1)))"

definition upload_size :: "'b oci_env \<Rightarrow> string \<Rightarrow> 'b store_world \<Rightarrow> int option" where
  "upload_size oe i w =
     (if \<not> valid_upload_id i then None
      else case oe_append oe of
        Some ap \<Rightarrow>
          (case ap_size ap (sw_phys w (default_space w)) (upload_key i) of
             Inl _ \<Rightarrow> None
           | Inr (n, ok) \<Rightarrow> if ok then Some n else None)
      | None \<Rightarrow>
          (case bo_exists (se_ops (oe_store oe)) (sw_phys w (default_space w)) (upload_key i) of
             Inl _ \<Rightarrow> None
           | Inr ex \<Rightarrow>
               if \<not> ex then None
               else (case bo_size (se_ops (oe_store oe)) (sw_phys w (default_space w)) (upload_key i) of
                       Inl _ \<Rightarrow> None | Inr n \<Rightarrow> Some n)))"

definition upload_open :: "'b oci_env \<Rightarrow> string \<Rightarrow> 'b store_world \<Rightarrow> (bytes \<times> int) up_result \<times> 'b store_world" where
  "upload_open oe i w =
     (if upload_size oe i w = None then (Up_Unknown, w)
      else case (case oe_append oe of
                   None \<Rightarrow> (None, w)
                 | Some ap \<Rightarrow> on_default (\<lambda>s. ap_finalize ap s (upload_key i)) w) of
             (Some e, w1) \<Rightarrow> (Up_Err e, w1)
           | (None, w1) \<Rightarrow>
               (case bo_get (se_ops (oe_store oe)) (sw_phys w1 (default_space w1)) (upload_key i) of
                  Inl e \<Rightarrow> (Up_Err e, w1)
                | Inr (c, n) \<Rightarrow> (Up_Done (c, n), w1)))"

text \<open>\<open>io.LimitReader\<close>: at most \<open>n\<close> bytes, and no error behind them.\<close>

definition limit_body :: "int \<Rightarrow> body \<Rightarrow> body" where
  "limit_body n b = (if n \<le> int (length (bd_bytes b)) then \<lparr> bd_bytes = take (nat n) (bd_bytes b), bd_broken = False \<rparr> else b)"

definition append_streaming ::
  "'b append_ops \<Rightarrow> string \<Rightarrow> body \<Rightarrow> int \<Rightarrow> int \<Rightarrow> 'b store_world \<Rightarrow> int up_result \<times> 'b store_world" where
  "append_streaming ap i b stored limit w =
     (case on_default (\<lambda>s. ap_append ap s (upload_key i) b) w of
        (Inl e, w1) \<Rightarrow> (Up_Err e, w1)
      | (Inr n, w1) \<Rightarrow>
          if limit > 0 \<and> n > limit
          then (Up_Too_Large, snd (on_default (\<lambda>s. ap_truncate ap s (upload_key i) (nat stored)) w1))
          else (Up_Done n, w1))"

definition upload_append :: "'b oci_env \<Rightarrow> string \<Rightarrow> body \<Rightarrow> 'b store_world \<Rightarrow> int up_result \<times> 'b store_world" where
  "upload_append oe i b0 w =
     (case upload_size oe i w of
        None \<Rightarrow> (Up_Unknown, w)
      | Some stored \<Rightarrow>
          (let limit = oe_max_upload oe
           in if limit > 0 \<and> stored \<ge> limit then (Up_Too_Large, w)
              else
                (let b = (if limit > 0 then limit_body (add64 (limit - stored) 1) b0 else b0)
                 in case oe_append oe of
                      Some ap \<Rightarrow> append_streaming ap i b stored limit w
                    | None \<Rightarrow>
                        if bd_broken b then (Up_Err Err_Io, w)
                        else if limit > 0 \<and> stored + int (length (bd_bytes b)) > limit then (Up_Too_Large, w)
                        else (case upload_open oe i w of
                                (Up_Done (c, n), w1) \<Rightarrow>
                                  (case phys_put (oe_store oe) (default_space w1) (upload_key i)
                                          \<lparr> bd_bytes = c @ bd_bytes b, bd_broken = False \<rparr> (int (length (c @ bd_bytes b))) w1 of
                                     (Some e, w2) \<Rightarrow> (Up_Err e, w2)
                                   | (None, w2) \<Rightarrow> (Up_Done (int (length (c @ bd_bytes b))), w2))
                              | (Up_Unknown, w1) \<Rightarrow> (Up_Unknown, w1)
                              | (Up_Too_Large, w1) \<Rightarrow> (Up_Too_Large, w1)
                              | (Up_Err e, w1) \<Rightarrow> (Up_Err e, w1)))))"

definition upload_remove :: "'b oci_env \<Rightarrow> string \<Rightarrow> 'b store_world \<Rightarrow> 'b store_world" where
  "upload_remove oe i w =
     (if \<not> valid_upload_id i then w
      else
        (let w1 = (case oe_append oe of None \<Rightarrow> w | Some ap \<Rightarrow> snd (on_default (\<lambda>s. ap_abort ap s (upload_key i)) w))
         in snd (phys_delete (oe_store oe) (default_space w1) (upload_key i) w1)))"

section \<open>Digests\<close>

text \<open>\<open>strings.Cut\<close> at the first colon.\<close>

definition cut_colon :: "string \<Rightarrow> (string \<times> string) option" where
  "cut_colon s =
     (if CHR '':'' \<in> set s then Some (takeWhile (\<lambda>c. c \<noteq> CHR '':'') s, tl (dropWhile (\<lambda>c. c \<noteq> CHR '':'') s)) else None)"

definition valid_digest :: "string \<Rightarrow> bool" where
  "valid_digest s =
     (case cut_colon s of
        None \<Rightarrow> False
      | Some (algo, hx) \<Rightarrow>
          (algo = ''sha256'' \<and> length hx = 64 \<or> algo = ''sha512'' \<and> length hx = 128) \<and> (\<forall>c \<in> set hx. c \<in> set ''0123456789abcdef''))"

definition digest_mismatch :: "'b oci_env \<Rightarrow> string \<Rightarrow> bytes \<Rightarrow> bool" where
  "digest_mismatch oe claimed c \<longleftrightarrow>
     (case cut_colon claimed of
        None \<Rightarrow> True
      | Some (algo, hx) \<Rightarrow> algo \<noteq> ''sha256'' \<or> se_sha256 (oe_store oe) c \<noteq> hx)"

definition manifest_path :: "string \<Rightarrow> string \<Rightarrow> string" where
  "manifest_path img reference = ''/manifests/'' @ img @ ''/'' @ reference"

definition blob_path :: "string \<Rightarrow> string \<Rightarrow> string" where
  "blob_path img digest = ''/blobs/'' @ img @ ''/'' @ digest"

definition store_error :: "pub_err \<Rightarrow> reply" where
  "store_error e = (http_status_for_error e, if e = Pe_Redeploy \<or> e = Pe_Read_Only then ''DENIED'' else ''UNKNOWN'')"

section \<open>Handlers\<close>

definition require_docker_auth :: "oci_caller \<Rightarrow> bool" where
  "require_docker_auth oc \<longleftrightarrow> oc_user_id oc \<noteq> []"

text \<open>\<open>content_length\<close> is the declared length, \<open>-1\<close> for a chunked transfer.\<close>

definition patch_upload ::
  "'b oci_env \<Rightarrow> string \<Rightarrow> string \<Rightarrow> int \<Rightarrow> body \<Rightarrow> 'b store_world \<Rightarrow> reply \<times> 'b store_world" where
  "patch_upload oe rn i content_length b w =
     (case (if content_length > 0
            then (case repos_get w rn of
                    None \<Rightarrow> None
                  | Some repo \<Rightarrow>
                      (case upload_size oe i w of
                         None \<Rightarrow> Some (404, ''BLOB_UPLOAD_UNKNOWN'')
                       | Some stored \<Rightarrow>
                           (case check_quota w repo (add64 stored content_length) of
                              None \<Rightarrow> None
                            | Some e \<Rightarrow> Some (if e = Pe_Quota then 413 else 500, ''BLOB_UPLOAD_INVALID''))))
            else None) of
        Some r \<Rightarrow> (r, w)
      | None \<Rightarrow>
          (case upload_append oe i b w of
             (Up_Unknown, w1) \<Rightarrow> ((404, ''BLOB_UPLOAD_UNKNOWN''), w1)
           | (Up_Too_Large, w1) \<Rightarrow> ((413, ''BLOB_UPLOAD_INVALID''), w1)
           | (Up_Err _, w1) \<Rightarrow> ((500, ''UNKNOWN''), w1)
           | (Up_Done _, w1) \<Rightarrow> ((202, []), w1)))"

text \<open>The finalizing request after the body is staged: verify the whole session, store it, drop it.\<close>

definition commit_upload ::
  "'b oci_env \<Rightarrow> oci_caller \<Rightarrow> string \<Rightarrow> string \<Rightarrow> string \<Rightarrow> string \<Rightarrow> 'b store_world \<Rightarrow> reply \<times> 'b store_world" where
  "commit_upload oe oc rn img i digest w =
     (case upload_open oe i w of
        (Up_Done (c, n), w1) \<Rightarrow>
          if digest_mismatch oe digest c then ((400, ''DIGEST_INVALID''), w1)
          else (case upload_open oe i w1 of
                  (Up_Done (c2, _), w2) \<Rightarrow>
                    (case store_artifact (oe_store oe) (oc_write oc) w2 rn (blob_path img digest) ''application/octet-stream''
                            \<lparr> co_group = [], co_name = img, co_version = digest \<rparr> \<lparr> bd_bytes = c2, bd_broken = False \<rparr> n of
                       (Inl e, w3) \<Rightarrow> (store_error e, w3)
                     | (Inr _, w3) \<Rightarrow> ((201, []), upload_remove oe i w3))
                | (Up_Unknown, w2) \<Rightarrow> ((404, ''BLOB_UPLOAD_UNKNOWN''), w2)
                | (_, w2) \<Rightarrow> ((500, ''UNKNOWN''), w2))
      | (Up_Unknown, w1) \<Rightarrow> ((404, ''BLOB_UPLOAD_UNKNOWN''), w1)
      | (_, w1) \<Rightarrow> ((500, ''UNKNOWN''), w1))"

definition finalize_upload ::
  "'b oci_env \<Rightarrow> oci_caller \<Rightarrow> string \<Rightarrow> string \<Rightarrow> string \<Rightarrow> string \<Rightarrow> int \<Rightarrow> body \<Rightarrow> 'b store_world \<Rightarrow> reply \<times> 'b store_world" where
  "finalize_upload oe oc rn img i digest content_length b w =
     (if digest = [] then ((400, ''DIGEST_INVALID''), w)
      else if content_length > 0 then
        (case upload_append oe i b w of
           (Up_Unknown, w1) \<Rightarrow> ((404, ''BLOB_UPLOAD_UNKNOWN''), w1)
         | (Up_Too_Large, w1) \<Rightarrow> ((413, ''BLOB_UPLOAD_INVALID''), w1)
         | (Up_Err _, w1) \<Rightarrow> ((500, ''UNKNOWN''), w1)
         | (Up_Done _, w1) \<Rightarrow> commit_upload oe oc rn img i digest w1)
      else commit_upload oe oc rn img i digest w)"

definition pull_blob :: "'b oci_env \<Rightarrow> string \<Rightarrow> string \<Rightarrow> string \<Rightarrow> 'b store_world \<Rightarrow> (reply + bytes) \<times> 'b store_world" where
  "pull_blob oe rn img digest w =
     (case fetch_artifact (oe_store oe) w rn (blob_path img digest) of
        (Inl _, w1) \<Rightarrow> (Inl (404, ''BLOB_UNKNOWN''), w1)
      | (Inr (c, _), w1) \<Rightarrow> (Inr c, w1))"

definition delete_blob :: "'b oci_env \<Rightarrow> string \<Rightarrow> string \<Rightarrow> string \<Rightarrow> 'b store_world \<Rightarrow> reply \<times> 'b store_world" where
  "delete_blob oe rn img digest w =
     (case delete_artifact (oe_store oe) w rn (blob_path img digest) of
        (Inl _, w1) \<Rightarrow> ((500, ''UNKNOWN''), w1)
      | (Inr _, w1) \<Rightarrow> ((202, []), w1))"

section \<open>Mounting\<close>

text \<open>\<open>strings.Trim(from, "/")\<close>.\<close>

definition trim_slashes :: "string \<Rightarrow> string" where
  "trim_slashes s = trim_right_slashes (dropWhile (\<lambda>c. c = slash) s)"

definition mount_source_images :: "string \<Rightarrow> string \<Rightarrow> string list" where
  "mount_source_images rn from0 =
     (let src = trim_slashes from0
      in if src = [] then []
         else src # concat (map (\<lambda>p. let rest = trim_prefix src p in if rest \<noteq> src \<and> rest \<noteq> [] then [rest] else [])
                [rn @ ''/'', ''repository/'' @ rn @ ''/'']))"

definition caller_may_read :: "'b oci_env \<Rightarrow> oci_caller \<Rightarrow> repository \<Rightarrow> string \<Rightarrow> bool" where
  "caller_may_read oe oc repo path \<longleftrightarrow>
     (case oe_rbac oe of
        None \<Rightarrow> True
      | Some s \<Rightarrow> can_access_repo s (oc_user_id oc) (oc_roles oc) repo path ''read'' = Some True)"

text \<open>\<open>(storeName, present)\<close>; a failure on a row that names its store is \<open>ErrBlobStoreUnavailable\<close>.\<close>

definition locate_blob :: "'b store_env \<Rightarrow> asset \<Rightarrow> 'b store_world \<Rightarrow> (pub_err + string \<times> bool) \<times> 'b store_world" where
  "locate_blob env a w =
     (case (if asset_blob_store_id a = [] then (Inr ([], default_space w), w)
            else case stores_by_id w 13 (asset_blob_store_id a) of
              None \<Rightarrow> (Inl Pe_Unavailable, w)
            | Some meta \<Rightarrow>
                (case physical_store env w (Some meta) of
                   (Inl _, w1) \<Rightarrow> (Inl Pe_Unavailable, w1)
                 | (Inr p, w1) \<Rightarrow> (Inr (bs_name meta, p), w1))) of
        (Inl e, w1) \<Rightarrow> (Inl e, w1)
      | (Inr (name, p), w1) \<Rightarrow>
          (case bo_exists (se_ops env) (sw_phys w1 p) (asset_blob_key a) of
             Inl e \<Rightarrow> (Inl (if asset_blob_store_id a \<noteq> [] then Pe_Unavailable else Pe_Blob e), w1)
           | Inr ex \<Rightarrow> (if ex then Inr (name, True) else Inr ([], False), w1)))"

definition mount_locked ::
  "'b oci_env \<Rightarrow> oci_caller \<Rightarrow> repository \<Rightarrow> string \<Rightarrow> string \<Rightarrow> asset \<Rightarrow> 'b store_world \<Rightarrow> (pub_err + bool) \<times> 'b store_world" where
  "mount_locked oe oc repo img dgst src w =
     (case locate_blob (oe_store oe) src w of
        (Inl e, w1) \<Rightarrow> (Inl e, w1)
      | (Inr (name, present), w1) \<Rightarrow>
          if \<not> present then (Inr False, w1)
          else (case register_stored_blob (oe_store oe) (oc_write oc) w1 repo (blob_path img dgst) ''application/octet-stream''
                       \<lparr> co_group = [], co_name = img, co_version = dgst \<rparr> (asset_blob_key src)
                       \<lparr> sm_sha256 = asset_sha256 src, sm_sha1 = asset_sha1 src, sm_md5 = asset_md5 src \<rparr> (asset_size src)
                       (asset_blob_store_id src) name of
                  (Inl e, w2) \<Rightarrow> (Inl e, w2)
                | (Inr _, w2) \<Rightarrow> (Inr True, w2)))"

text \<open>\<^const>\<open>None\<close>: not answered, a normal upload starts.\<close>

fun mount_from :: "'b oci_env \<Rightarrow> oci_caller \<Rightarrow> repository \<Rightarrow> string \<Rightarrow> string \<Rightarrow> string list \<Rightarrow> 'b store_world \<Rightarrow> reply option \<times> 'b store_world" where
  "mount_from oe oc repo img dgst [] w = (None, w)"
| "mount_from oe oc repo img dgst (src_image # rest) w =
     (if src_image = img then mount_from oe oc repo img dgst rest w
      else case assets_by_path w 8 (repo_name repo) (blob_path src_image dgst) of
        Inl _ \<Rightarrow> mount_from oe oc repo img dgst rest w
      | Inr None \<Rightarrow> mount_from oe oc repo img dgst rest w
      | Inr (Some src) \<Rightarrow>
          if \<not> caller_may_read oe oc repo (blob_path src_image dgst) then mount_from oe oc repo img dgst rest w
          else (case with_lock (asset_blob_key src) (mount_locked oe oc repo img dgst src) w of
                  (Inl e, w1) \<Rightarrow> (if e = Pe_Unavailable then Some (500, ''UNKNOWN'') else None, w1)
                | (Inr mounted, w1) \<Rightarrow> if mounted then (Some (201, []), w1) else mount_from oe oc repo img dgst rest w1))"

definition mount_blob :: "'b oci_env \<Rightarrow> oci_caller \<Rightarrow> string \<Rightarrow> string \<Rightarrow> string \<Rightarrow> string \<Rightarrow> 'b store_world \<Rightarrow> reply option \<times> 'b store_world" where
  "mount_blob oe oc rn img dgst from0 w =
     (if \<not> valid_digest dgst then (None, w)
      else case repos_get w rn of
        None \<Rightarrow> (None, w)
      | Some repo \<Rightarrow> mount_from oe oc repo img dgst (mount_source_images rn from0) w)"

definition initiate_upload ::
  "'b oci_env \<Rightarrow> oci_caller \<Rightarrow> string \<Rightarrow> string \<Rightarrow> string \<Rightarrow> string \<Rightarrow> string option \<Rightarrow> 'b store_world \<Rightarrow>
   (reply \<times> string option) \<times> 'b store_world" where
  "initiate_upload oe oc rn img dgst from0 new_id w =
     (if \<not> require_docker_auth oc then (((401, ''UNAUTHORIZED''), None), w)
      else case (case repos_get w rn of None \<Rightarrow> None | Some repo \<Rightarrow> check_writable repo) of
        Some e \<Rightarrow> ((store_error e, None), w)
      | None \<Rightarrow>
          (case (if dgst \<noteq> [] \<and> from0 \<noteq> [] then mount_blob oe oc rn img dgst from0 w else (None, w)) of
             (Some r, w1) \<Rightarrow> ((r, None), w1)
           | (None, w1) \<Rightarrow>
               (case upload_create oe new_id w1 of
                  (None, w2) \<Rightarrow> (((500, ''UNKNOWN''), None), w2)
                | (Some i, w2) \<Rightarrow> (((202, []), Some i), w2))))"

end
