(* ===== verification/Oci_Session.thy ===== *)
theory Oci_Session
  imports Oci_Upload
begin

text \<open>
  The contract of an appending backend (\<open>append_laws\<close>, an extension of \<open>blob_store_laws\<close>), its
  interpretation on the filesystem backend, and what the session operations of \<open>Oci_Upload\<close> do to the
  bytes staged under a session, on a backend with the extension or without it.
\<close>

section \<open>The contract\<close>

definition held :: "('b \<Rightarrow> string \<Rightarrow> (bytes \<times> time) option) \<Rightarrow> 'b \<Rightarrow> string \<Rightarrow> bytes" where
  "held obj s k = (case obj s k of None \<Rightarrow> [] | Some (c, _) \<Rightarrow> c)"

locale append_laws = blob_store_laws +
  fixes ap :: "'a append_ops"
  assumes append_good: "good s \<Longrightarrow> valid k \<Longrightarrow> good (snd (ap_append ap s k b))"
    and append_ok: "good s \<Longrightarrow> valid k \<Longrightarrow> ap_append ap s k b = (Inr n, s') \<Longrightarrow>
          \<not> bd_broken b \<and> map_option fst (obj s' k) = Some (held obj s k @ bd_bytes b) \<and> n = int (length (held obj s k @ bd_bytes b))"
    and append_fail: "good s \<Longrightarrow> valid k \<Longrightarrow> ap_append ap s k b = (Inl e, s') \<Longrightarrow>
          obj s' k = obj s k \<or> (\<exists>j. map_option fst (obj s' k) = Some (held obj s k @ take j (bd_bytes b)))"
    and append_other: "good s \<Longrightarrow> valid k \<Longrightarrow> valid k' \<Longrightarrow> k' \<noteq> k \<Longrightarrow> obj (snd (ap_append ap s k b)) k' = obj s k'"
    and trunc_good: "good s \<Longrightarrow> valid k \<Longrightarrow> good (snd (ap_truncate ap s k m))"
    and trunc_ok: "good s \<Longrightarrow> valid k \<Longrightarrow> ap_truncate ap s k m = (None, s') \<Longrightarrow> m \<le> length (held obj s k) \<Longrightarrow>
          map_option fst (obj s' k) = Some (take m (held obj s k))"
    and trunc_fail: "good s \<Longrightarrow> valid k \<Longrightarrow> ap_truncate ap s k m = (Some e, s') \<Longrightarrow> obj s' k = obj s k"
    and trunc_other: "good s \<Longrightarrow> valid k \<Longrightarrow> valid k' \<Longrightarrow> k' \<noteq> k \<Longrightarrow> obj (snd (ap_truncate ap s k m)) k' = obj s k'"
    and ap_size_obj: "good s \<Longrightarrow> valid k \<Longrightarrow> ap_size ap s k = Inr (n, True) \<Longrightarrow>
          \<exists>c t. obj s k = Some (c, t) \<and> n = int (length c)"
    and finalize_good: "good s \<Longrightarrow> valid k \<Longrightarrow> good (snd (ap_finalize ap s k))"
    and finalize_obj: "good s \<Longrightarrow> valid k \<Longrightarrow> valid k' \<Longrightarrow> obj (snd (ap_finalize ap s k)) k' = obj s k'"
    and abort_good: "good s \<Longrightarrow> valid k \<Longrightarrow> good (snd (ap_abort ap s k))"
    and abort_other: "good s \<Longrightarrow> valid k \<Longrightarrow> valid k' \<Longrightarrow> k' \<noteq> k \<Longrightarrow> obj (snd (ap_abort ap s k)) k' = obj s k'"

text \<open>The filesystem backend appends to the file of the key.\<close>

lemma local_append_writes:
  assumes "local_good s" "valid_key k"
  defines "p \<equiv> path_clean (ls_base s) @ slash # shard_path k"
  obtains e where "local_append s k b = (Inl e, s)"
  | e j where "local_append s k b = (Inl e, write_file s p (held local_obj s k @ take j (bd_bytes b)))"
  | "local_append s k b = (Inr (int (length (held local_obj s k @ bd_bytes b))), write_file s p (held local_obj s k @ bd_bytes b))" "\<not> bd_broken b"
proof -
  have base: "base_ok (ls_base s)" using assms(1) by (simp add: local_good_def)
  have kp: "key_path (ls_base s) k = Some p" unfolding p_def by (rule key_path_entry [OF base valid_key_entry [OF assms(2)]])
  have old: "(case map_of (ls_files s) p of None \<Rightarrow> [] | Some f \<Rightarrow> f_bytes f) = held local_obj s k"
    by (simp add: held_def local_obj_def kp split: option.split)
  let ?old = "held local_obj s k"
  have u: "local_append s k b =
      (if ls_fault s (Io_Mkdir_All p) then (Inl Err_Io, s)
       else if ls_fault s (Io_Append p) then (Inl Err_Io, s)
       else if bd_broken b then (Inl Err_Io, write_file s p (?old @ bd_bytes b))
       else if ls_fault s (Io_Copy p) then (Inl (classify_write_err s), write_file s p (?old @ take (ls_partial s) (bd_bytes b)))
       else if ls_fault s (Io_Stat p) then (Inl Err_Io, write_file s p (?old @ bd_bytes b))
       else if ls_fault s (Io_Close p) then (Inl Err_Io, write_file s p (?old @ bd_bytes b))
       else (Inr (int (length (?old @ bd_bytes b))), write_file s p (?old @ bd_bytes b)))"
    by (simp only: local_append_def kp option.case Let_def old)
  have all: "bd_bytes b = take (length (bd_bytes b)) (bd_bytes b)" by simp
  show thesis
    using that u all by (metis (no_types, lifting))
qed

interpretation local_appends: append_laws local_ops local_obj valid_key entry_key local_good local_append_ops
proof unfold_locales
  fix s s' :: local_store and k k' b n e m
  assume good: "local_good s" and v: "valid_key k"
  have base: "base_ok (ls_base s)" using good by (simp add: local_good_def)
  let ?p = "\<lambda>j. path_clean (ls_base s) @ slash # shard_path j"
  have kp: "key_path (ls_base s) j = Some (?p j)" if "valid_key j" for j by (rule key_path_entry [OF base valid_key_entry [OF that]])
  have obj: "local_obj x j = map_option (\<lambda>f. (f_bytes f, f_mtime f)) (map_of (ls_files x) (?p j))"
    if "valid_key j" "ls_base x = ls_base s" for x j using kp [OF that(1)] that(2) by (simp add: local_obj_def)
  have inj: "?p j \<noteq> ?p k" if "valid_key j" "j \<noteq> k" for j
    using shard_path_inj [OF valid_key_entry [OF that(1)] valid_key_entry [OF v]] that(2) by auto
  have wr: "local_good (write_file s (?p k) c)" "map_option fst (local_obj (write_file s (?p k) c) k) = Some c"
    "valid_key j \<Longrightarrow> j \<noteq> k \<Longrightarrow> local_obj (write_file s (?p k) c) j = local_obj s j" for c j
    using local_good_write [OF good tree_ok_shard [OF base valid_key_entry [OF v]]] inj [of j] by (simp_all add: obj v)
  have ap: "ap_append local_append_ops = local_append" "ap_truncate local_append_ops = local_truncate"
    "ap_size local_append_ops = local_appended_size" "ap_finalize local_append_ops = (\<lambda>s _. (None, s))" "ap_abort local_append_ops = (\<lambda>s _. (None, s))"
    by (simp_all add: local_append_ops_def)
  show "local_good (snd (ap_append local_append_ops s k b))"
    using good v unfolding ap by (cases rule: local_append_writes [where b = b]) (simp_all add: good wr)
  show "\<not> bd_broken b \<and> map_option fst (local_obj s' k) = Some (held local_obj s k @ bd_bytes b) \<and> n = int (length (held local_obj s k @ bd_bytes b))"
    if "ap_append local_append_ops s k b = (Inr n, s')"
    using good v that unfolding ap by (cases rule: local_append_writes [where b = b]) (auto simp: wr iff del: map_option_eq_Some)
  show "local_obj s' k = local_obj s k \<or> (\<exists>j. map_option fst (local_obj s' k) = Some (held local_obj s k @ take j (bd_bytes b)))"
    if "ap_append local_append_ops s k b = (Inl e, s')"
    using good v that unfolding ap by (cases rule: local_append_writes [where b = b]) (auto simp: wr iff del: map_option_eq_Some)
  show "local_obj (snd (ap_append local_append_ops s k b)) k' = local_obj s k'" if "valid_key k'" "k' \<noteq> k"
    using good v unfolding ap by (cases rule: local_append_writes [where b = b]) (use that in \<open>simp_all add: wr\<close>)
  have tr: "local_truncate s k m = (if ls_fault s (Io_Truncate (?p k)) then (Some Err_Io, s)
      else if local_obj s k = None then (Some Err_Not_Exist, s)
      else (None, write_file s (?p k) (take m (held local_obj s k) @ replicate (m - length (held local_obj s k)) (CHR 0x00))))" for m
    by (auto simp: local_truncate_def kp [OF v] obj v held_def split: option.split)
  show "local_good (snd (ap_truncate local_append_ops s k m))" unfolding ap tr using good wr by simp
  show "map_option fst (local_obj s' k) = Some (take m (held local_obj s k))"
    if "ap_truncate local_append_ops s k m = (None, s')" "m \<le> length (held local_obj s k)"
    using that wr(2) unfolding ap tr by (auto split: if_splits)
  show "local_obj s' k = local_obj s k" if "ap_truncate local_append_ops s k m = (Some e, s')"
    using that unfolding ap tr by (auto split: if_splits)
  show "local_obj (snd (ap_truncate local_append_ops s k m)) k' = local_obj s k'" if "valid_key k'" "k' \<noteq> k"
    unfolding ap tr using wr(3) that by simp
  show "\<exists>c t. local_obj s k = Some (c, t) \<and> n = int (length c)" if "ap_size local_append_ops s k = Inr (n, True)"
    using that unfolding ap
    by (auto simp: local_appended_size_def local_exists_def local_size_def kp [OF v] obj v split: if_splits option.splits)
qed (simp_all add: local_append_ops_def)

section \<open>What is staged\<close>

definition staged :: "('b \<Rightarrow> string \<Rightarrow> (bytes \<times> time) option) \<Rightarrow> string \<Rightarrow> 'b store_world \<Rightarrow> bytes option" where
  "staged obj i w = map_option fst (obj (sw_phys w (default_space w)) (upload_key i))"

text \<open>Only the object of the session may differ.\<close>

definition stages ::
  "('b \<Rightarrow> string \<Rightarrow> (bytes \<times> time) option) \<Rightarrow> (string \<Rightarrow> bool) \<Rightarrow> ('b \<Rightarrow> bool) \<Rightarrow> string \<Rightarrow> 'b store_world \<Rightarrow> 'b store_world \<Rightarrow> bool" where
  "stages obj valid good i w w' \<longleftrightarrow>
     touches obj valid good (default_space w) (upload_key i) w w' \<and> w' = w\<lparr> sw_phys := sw_phys w' \<rparr>"

lemma stages_refl: "(\<And>q. good (sw_phys w q)) \<Longrightarrow> stages obj valid good i w w"
  by (simp add: stages_def touches_def)

lemma stages_fields:
  assumes "stages obj valid good i w w'"
  shows "default_space w' = default_space w" "sw_assets w' = sw_assets w" "sw_repos w' = sw_repos w" "sw_stores w' = sw_stores w"
    "sw_registry w' = sw_registry w" "same_layout w w'" "row_at w' = row_at w" "tables_ok w' = tables_ok w" "good (sw_phys w' q)"
proof -
  obtain f where f: "w' = w\<lparr> sw_phys := f \<rparr>" using assms unfolding stages_def by blast
  show "default_space w' = default_space w" "sw_assets w' = sw_assets w" "sw_repos w' = sw_repos w" "sw_stores w' = sw_stores w"
    "sw_registry w' = sw_registry w" "same_layout w w'" "row_at w' = row_at w" "tables_ok w' = tables_ok w"
    by (simp_all add: f default_space_def same_layout_def row_at_def tables_ok_def fun_eq_iff)
  show "good (sw_phys w' q)" using assms by (simp add: stages_def touches_def)
qed

lemma stages_trans:
  assumes "stages obj valid good i w w1" "stages obj valid good i w1 w2"
  shows "stages obj valid good i w w2"
proof -
  obtain f g where "w1 = w\<lparr> sw_phys := f \<rparr>" "w2 = w1\<lparr> sw_phys := g \<rparr>" using assms unfolding stages_def by blast
  then have "w2 = w\<lparr> sw_phys := sw_phys w2 \<rparr>" by simp
  then show ?thesis using assms stages_fields(1) [OF assms(1)] touches_trans unfolding stages_def by metis
qed

text \<open>Rows that do not lie on the session's key do not notice.\<close>

lemma stages_rows:
  assumes st: "stages obj valid good i w w'" and int: "intact obj valid good env w"
    and keys: "\<And>rn path a. row_at w rn path = Some a \<Longrightarrow> asset_blob_key a \<noteq> upload_key i"
  shows "intact obj valid good env w'" "content obj env w' = content obj env w"
proof -
  note f = stages_fields [OF st]
  have sp: "store_space env w' = store_space env w" by (rule same_layout_space [OF f(6)])
  have row: "row_obj obj env w' a = row_obj obj env w a" if "row_at w rn path = Some a" for rn path a
  proof -
    have "valid (asset_blob_key a)" using int that unfolding intact_def by blast
    moreover have "asset_blob_key a \<noteq> upload_key i" using keys [OF that] .
    ultimately show ?thesis using st by (simp add: row_obj_def sp stages_def touches_def)
  qed
  show "content obj env w' = content obj env w"
    by (intro ext) (simp add: content_def f(7) row split: option.split)
  show "intact obj valid good env w'"
    unfolding intact_def f(7) using int f(9) row unfolding intact_def by metis
qed

lemma phys_only_stages:
  assumes "touches obj valid good (default_space w) (upload_key i) w w'" "w' = w\<lparr> sw_phys := sw_phys w' \<rparr>"
  shows "stages obj valid good i w w'"
  using assms by (simp add: stages_def)

lemma on_default_stages:
  assumes "on_default f w = (r, w')" "\<And>q. good (sw_phys w q)"
    "good (snd (f (sw_phys w (default_space w))))"
    "\<And>k. valid k \<Longrightarrow> k \<noteq> upload_key i \<Longrightarrow> obj (snd (f (sw_phys w (default_space w)))) k = obj (sw_phys w (default_space w)) k"
  shows "stages obj valid good i w w'" "f (sw_phys w (default_space w)) = (r, sw_phys w' (default_space w))"
  using assms by (auto simp: on_default_def stages_def touches_def Let_def)

text \<open>A chunk within the limit is not cut.\<close>

lemma limit_body_within:
  assumes "int (length (bd_bytes (limit_body n b))) < n"
  shows "limit_body n b = b"
  using assms by (auto simp: limit_body_def split: if_splits)

lemma limit_body_prefix: "\<exists>j. bd_bytes (limit_body n b) = take j (bd_bytes b)"
  by (auto simp: limit_body_def intro: exI [of _ "length (bd_bytes b)"])

section \<open>The operations on a session\<close>

text \<open>
  What an append leaves: the whole chunk, or nothing of it when the session is unknown or the chunk is
  too large and could be rolled back, or a prefix of it after a failure.
\<close>

definition appended :: "int up_result \<Rightarrow> bytes \<Rightarrow> body \<Rightarrow> bytes option \<Rightarrow> bool" where
  "appended r c b after \<longleftrightarrow>
     (case r of
        Up_Done n \<Rightarrow> after = Some (c @ bd_bytes b) \<and> n = int (length (c @ bd_bytes b)) \<and> \<not> bd_broken b
      | _ \<Rightarrow> \<exists>j. after = Some (c @ take j (bd_bytes b)))"

context append_laws
begin

lemma staged_at: "staged obj i w = Some c \<Longrightarrow> held obj (sw_phys w (default_space w)) (upload_key i) = c"
  by (auto simp: staged_def held_def)

lemma upload_size_staged:
  assumes "upload_size oe i w = Some n" "se_ops (oe_store oe) = ops" "oe_append oe = None \<or> oe_append oe = Some ap"
    "\<And>q. good (sw_phys w q)" "valid (upload_key i)"
  shows "\<exists>c. staged obj i w = Some c \<and> n = int (length c)"
proof (cases "oe_append oe")
  case None
  have "bo_size ops (sw_phys w (default_space w)) (upload_key i) = Inr n"
    using assms(1,2) None by (auto simp: upload_size_def split: if_splits sum.splits)
  from size_obj [OF assms(4,5) this] show ?thesis by (auto simp: staged_def)
next
  case (Some a)
  then have "ap_size ap (sw_phys w (default_space w)) (upload_key i) = Inr (n, True)"
    using assms(1,3) by (auto simp: upload_size_def split: if_splits sum.splits)
  from ap_size_obj [OF assms(4,5) this] show ?thesis by (auto simp: staged_def)
qed

lemma upload_open_cases:
  assumes "upload_open oe i w = (r, w')" "se_ops (oe_store oe) = ops" "oe_append oe = None \<or> oe_append oe = Some ap"
    "\<And>q. good (sw_phys w q)" "valid (upload_key i)"
  shows "stages obj valid good i w w'" "staged obj i w' = staged obj i w"
    "r = Up_Done (c, n) \<Longrightarrow> staged obj i w = Some c \<and> n = int (length c)"
proof -
  let ?d = "default_space w"
  define fin where "fin = (case oe_append oe of None \<Rightarrow> (None, w) | Some a \<Rightarrow> on_default (\<lambda>s. ap_finalize a s (upload_key i)) w)"
  obtain e w1 where f: "fin = (e, w1)" by (cases fin)
  have w1: "stages obj valid good i w w1 \<and> staged obj i w1 = staged obj i w"
  proof (cases "oe_append oe")
    case None
    then show ?thesis using f stages_refl [of good w] assms(4) by (simp add: fin_def)
  next
    case (Some a)
    then have od: "on_default (\<lambda>s. ap_finalize ap s (upload_key i)) w = (e, w1)" using f assms(3) by (simp add: fin_def)
    note o = on_default_stages [where obj = obj and valid = valid and good = good and i = i, OF od assms(4) finalize_good [OF assms(4,5)] finalize_obj [OF assms(4,5)]]
    have "obj (sw_phys w1 ?d) (upload_key i) = obj (sw_phys w ?d) (upload_key i)"
      using finalize_obj [OF assms(4,5,5), of ?d] o(2) by simp
    then show ?thesis using o(1) stages_fields(1) [OF o(1)] by (simp add: staged_def)
  qed
  have w': "w' = w \<or> w' = w1" and got: "r = Up_Done (c, n) \<Longrightarrow> bo_get ops (sw_phys w1 (default_space w1)) (upload_key i) = Inr (c, n)"
    using assms(1,2) f by (auto simp: upload_open_def fin_def [symmetric] split: if_splits option.splits sum.splits)
  show "stages obj valid good i w w'" "staged obj i w' = staged obj i w"
    using w' w1 stages_refl [of good w] assms(4) by auto
  show "staged obj i w = Some c \<and> n = int (length c)" if "r = Up_Done (c, n)"
  proof -
    from get_obj [OF stages_fields(9) [OF w1 [THEN conjunct1]] assms(5) got [OF that]] have "staged obj i w1 = Some c" "n = int (length c)"
      by (auto simp: staged_def)
    then show ?thesis using w1 by simp
  qed
qed

lemma append_streaming_cases:
  assumes a: "append_streaming ap i b (int (length c)) limit w = (r, w')" and c: "staged obj i w = Some c"
    and good: "\<And>q. good (sw_phys w q)" and v: "valid (upload_key i)"
  shows "stages obj valid good i w w' \<and> appended r c b (staged obj i w') \<and> (\<forall>n. r = Up_Done n \<longrightarrow> limit > 0 \<longrightarrow> n \<le> limit)"
proof -
  let ?d = "default_space w" and ?k = "upload_key i"
  note h = staged_at [OF c]
  obtain r1 w1 where od: "on_default (\<lambda>s. ap_append ap s ?k b) w = (r1, w1)" by (cases "on_default (\<lambda>s. ap_append ap s ?k b) w")
  note o = on_default_stages [where obj = obj and valid = valid and good = good and i = i, OF od good append_good [OF good v] append_other [OF good v]]
  note f1 = stages_fields [OF o(1)]
  have ap1: "ap_append ap (sw_phys w ?d) ?k b = (r1, sw_phys w1 ?d)" using o(2) by simp
  show ?thesis
  proof (cases r1)
    case (Inl e)
    then have "r = Up_Err e" "w' = w1" using a od by (auto simp: append_streaming_def)
    moreover have "\<exists>j. staged obj i w1 = Some (c @ take j (bd_bytes b))"
      using append_fail [OF good v ap1 [unfolded Inl]] c h f1(1) by (auto simp: staged_def intro: exI [of _ 0])
    ultimately show ?thesis using o(1) by (simp add: appended_def)
  next
    case (Inr n)
    note ok = append_ok [OF good v ap1 [unfolded Inr], unfolded h]
    have st1: "staged obj i w1 = Some (c @ bd_bytes b)" using ok f1(1) by (simp add: staged_def)
    show ?thesis
    proof (cases "limit > 0 \<and> n > limit")
      case False
      then have "r = Up_Done n" "w' = w1" using a od Inr by (auto simp: append_streaming_def)
      then show ?thesis using o(1) st1 ok False by (auto simp: appended_def)
    next
      case True
      obtain e w2 where od2: "on_default (\<lambda>s. ap_truncate ap s ?k (length c)) w1 = (e, w2)"
        by (cases "on_default (\<lambda>s. ap_truncate ap s ?k (length c)) w1")
      have r: "r = Up_Too_Large" "w' = w2" using a od Inr True od2 by (auto simp: append_streaming_def)
      have good1: "\<And>q. good (sw_phys w1 q)" by (rule f1(9))
      note o2 = on_default_stages [where obj = obj and valid = valid and good = good and i = i, OF od2 good1 trunc_good [OF good1 v] trunc_other [OF good1 v]]
      note f2 = stages_fields [OF o2(1)]
      have tr: "ap_truncate ap (sw_phys w1 (default_space w1)) ?k (length c) = (e, sw_phys w2 (default_space w1))" using o2(2) by simp
      have h1: "held obj (sw_phys w1 (default_space w1)) ?k = c @ bd_bytes b" by (rule staged_at [OF st1])
      have "staged obj i w2 = Some c \<or> staged obj i w2 = staged obj i w1"
      proof (cases e)
        case None
        then show ?thesis using trunc_ok [OF good1 v tr [unfolded None]] h1 f2(1) by (simp add: staged_def)
      next
        case (Some x)
        then show ?thesis using trunc_fail [OF good1 v tr [unfolded Some]] f2(1) by (simp add: staged_def)
      qed
      then have "\<exists>j. staged obj i w2 = Some (c @ take j (bd_bytes b))"
        using st1 by (auto intro: exI [of _ 0] exI [of _ "length (bd_bytes b)"])
      then show ?thesis using r stages_trans [OF o(1) o2(1)] by (simp add: appended_def)
    qed
  qed
qed

lemma cut_within:
  assumes "limit < 2 ^ 63 - 1" "stored < limit" "stored = int m"
  shows "bd_bytes (limit_body (add64 (limit - stored) 1) b) = take (nat (limit - stored + 1)) (bd_bytes b)"
    "stored + int (length (bd_bytes (limit_body (add64 (limit - stored) 1) b))) \<le> limit \<Longrightarrow> limit_body (add64 (limit - stored) 1) b = b"
proof -
  have a: "add64 (limit - stored) 1 = limit - stored + 1" by (rule add64_id) (use assms in \<open>simp add: in64_def\<close>)
  show "bd_bytes (limit_body (add64 (limit - stored) 1) b) = take (nat (limit - stored + 1)) (bd_bytes b)"
    unfolding a using assms(2) by (auto simp: limit_body_def)
  show "limit_body (add64 (limit - stored) 1) b = b"
    if "stored + int (length (bd_bytes (limit_body (add64 (limit - stored) 1) b))) \<le> limit"
    using that unfolding a using assms(2) by (auto simp: limit_body_def split: if_splits)
qed

lemma appended_cut:
  assumes "appended r c (limit_body (add64 (limit - stored) 1) b) after" "limit < 2 ^ 63 - 1" "stored < limit" "stored = int (length c)"
    "\<And>n. r = Up_Done n \<Longrightarrow> n \<le> limit"
  shows "appended r c b after"
proof (cases r)
  case (Up_Done n)
  have "limit_body (add64 (limit - stored) 1) b = b"
    by (rule cut_within(2) [OF assms(2-4)]) (use assms(1,4) assms(5) [OF Up_Done] Up_Done in \<open>simp add: appended_def\<close>)
  then show ?thesis using assms(1) by simp
qed (use assms(1) cut_within(1) [OF assms(2-4), of b] in \<open>auto simp: appended_def\<close>)

text \<open>The path that rewrites the whole session, for a backend without the extension.\<close>

lemma append_buffered_cases:
  assumes r: "(case upload_open oe i w of
          (Up_Done (c, n), w1) \<Rightarrow>
            (case phys_put (oe_store oe) (default_space w1) (upload_key i)
                    \<lparr> bd_bytes = c @ bd_bytes b, bd_broken = False \<rparr> (int (length (c @ bd_bytes b))) w1 of
               (Some e, w2) \<Rightarrow> (Up_Err e, w2)
             | (None, w2) \<Rightarrow> (Up_Done (int (length (c @ bd_bytes b))), w2))
        | (Up_Unknown, w1) \<Rightarrow> (Up_Unknown, w1)
        | (Up_Too_Large, w1) \<Rightarrow> (Up_Too_Large, w1)
        | (Up_Err e, w1) \<Rightarrow> (Up_Err e, w1)) = (r, w')"
    and env: "se_ops (oe_store oe) = ops" and ap: "oe_append oe = None \<or> oe_append oe = Some ap"
    and good: "\<And>q. good (sw_phys w q)" and v: "valid (upload_key i)" and c: "staged obj i w = Some c" and b: "\<not> bd_broken b"
  shows "stages obj valid good i w w' \<and> appended r c b (staged obj i w')"
proof -
  obtain r1 w1 where op: "upload_open oe i w = (r1, w1)" by (cases "upload_open oe i w")
  note o = upload_open_cases [OF op env ap good v]
  have same: "appended x c b (Some c)" if "\<And>n. x \<noteq> Up_Done n" for x
    using that by (auto simp: appended_def split: up_result.split intro: exI [of _ 0])
  show ?thesis
  proof (cases "\<exists>cn. r1 = Up_Done cn")
    case False
    then have "w' = w1" "\<And>n. r \<noteq> Up_Done n" using r op by (auto split: up_result.splits)
    then show ?thesis using same [of r] o(1,2) c by simp
  next
    case True
    then obtain c1 n1 where r1: "r1 = Up_Done (c1, n1)" by auto
    have c1: "c1 = c" using o(3) [OF r1] c by simp
    define put where "put = phys_put (oe_store oe) (default_space w1) (upload_key i)
        \<lparr> bd_bytes = c @ bd_bytes b, bd_broken = False \<rparr> (int (length (c @ bd_bytes b))) w1"
    obtain r2 w2 where pp: "put = (r2, w2)" by (cases put)
    note p = phys_put_touches [OF pp [unfolded put_def] env stages_fields(9) [OF o(1)] v]
    have st2: "stages obj valid good i w1 w2" using p(1,2) by (rule phys_only_stages)
    have "(case put of (Some e, w2) \<Rightarrow> (Up_Err e, w2) | (None, w2) \<Rightarrow> (Up_Done (int (length (c @ bd_bytes b))), w2)) = (r, w')"
      using r by (simp only: op r1 c1 put_def prod.case up_result.case)
    then have w': "w' = w2" and rr: "r = (case r2 of Some e \<Rightarrow> Up_Err e | None \<Rightarrow> Up_Done (int (length (c @ bd_bytes b))))"
      unfolding pp by (auto split: option.splits)
    have "appended r c b (staged obj i w2)"
    proof (cases r2)
      case None
      then show ?thesis using p(3) rr b stages_fields(1) [OF st2] by (auto simp: appended_def staged_def)
    next
      case (Some e)
      have "staged obj i w2 = staged obj i w1" using p(4) [OF Some v] stages_fields(1) [OF st2] by (simp add: staged_def)
      then show ?thesis using same [of r] Some rr o(2) c by simp
    qed
    then show ?thesis using w' stages_trans [OF o(1) st2] by simp
  qed
qed

lemma upload_append_cases:
  assumes r: "upload_append oe i b w = (r, w')" and env: "se_ops (oe_store oe) = ops" and ap: "oe_append oe = None \<or> oe_append oe = Some ap"
    and good: "\<And>q. good (sw_phys w q)" and v: "valid (upload_key i)" and lim: "oe_max_upload oe < 2 ^ 63 - 1"
  shows "stages obj valid good i w w' \<and>
    (r = Up_Unknown \<and> w' = w \<or> (\<exists>c. staged obj i w = Some c \<and> appended r c b (staged obj i w') \<and>
       (\<forall>n. r = Up_Done n \<longrightarrow> oe_max_upload oe > 0 \<longrightarrow> n \<le> oe_max_upload oe)))"
proof (cases "upload_size oe i w")
  case None
  then show ?thesis using r stages_refl [of good w] good by (simp add: upload_append_def)
next
  case (Some stored)
  obtain c where c: "staged obj i w = Some c" "stored = int (length c)" using upload_size_staged [OF Some env ap good v] by blast
  let ?limit = "oe_max_upload oe"
  define b' where "b' = (if ?limit > 0 then limit_body (add64 (?limit - stored) 1) b else b)"
  show ?thesis
  proof (cases "?limit > 0 \<and> stored \<ge> ?limit")
    case True
    then have "r = Up_Too_Large" "w' = w" using r Some by (simp_all add: upload_append_def)
    then show ?thesis using c stages_refl [of good w] good by (auto simp: appended_def intro: exI [of _ 0])
  next
    case room: False
    have cut: "appended r c b (staged obj i w')"
      if "appended r c b' (staged obj i w')" "\<And>n. r = Up_Done n \<Longrightarrow> ?limit > 0 \<Longrightarrow> n \<le> ?limit"
      using that appended_cut [OF _ lim _ c(2), of r b "staged obj i w'"] room by (cases "?limit > 0") (simp_all add: b'_def)
    show ?thesis
    proof (cases "oe_append oe")
      case (Some a)
      then have "append_streaming ap i b' (int (length c)) ?limit w = (r, w')"
        using r \<open>upload_size oe i w = Some stored\<close> room ap c(2) unfolding upload_append_def b'_def by (auto simp: Let_def)
      from append_streaming_cases [OF this c(1) good v] show ?thesis using cut c(1) by auto
    next
      case None
      have u: "(if bd_broken b' then (Up_Err Err_Io, w)
          else if ?limit > 0 \<and> stored + int (length (bd_bytes b')) > ?limit then (Up_Too_Large, w)
          else (case upload_open oe i w of
                  (Up_Done (c, n), w1) \<Rightarrow>
                    (case phys_put (oe_store oe) (default_space w1) (upload_key i)
                            \<lparr> bd_bytes = c @ bd_bytes b', bd_broken = False \<rparr> (int (length (c @ bd_bytes b'))) w1 of
                       (Some e, w2) \<Rightarrow> (Up_Err e, w2)
                     | (None, w2) \<Rightarrow> (Up_Done (int (length (c @ bd_bytes b'))), w2))
                | (Up_Unknown, w1) \<Rightarrow> (Up_Unknown, w1)
                | (Up_Too_Large, w1) \<Rightarrow> (Up_Too_Large, w1)
                | (Up_Err e, w1) \<Rightarrow> (Up_Err e, w1))) = (r, w')"
        using r room unfolding upload_append_def Let_def Some None option.case b'_def [symmetric] by (simp only: if_False)
      have same: "appended x c b' (Some c)" if "\<And>n. x \<noteq> Up_Done n" for x
        using that by (auto simp: appended_def split: up_result.split intro: exI [of _ 0])
      show ?thesis
      proof (cases "bd_broken b' \<or> ?limit > 0 \<and> stored + int (length (bd_bytes b')) > ?limit")
        case True
        then have "w' = w" "\<And>n. r \<noteq> Up_Done n" using u by (auto split: if_splits)
        then show ?thesis using c(1) cut same [of r] stages_refl [of good w] good by auto
      next
        case fits: False
        have nb: "\<not> bd_broken b'" and room': "\<not> (?limit > 0 \<and> stored + int (length (bd_bytes b')) > ?limit)" using fits by simp_all
        note bf = append_buffered_cases [OF u [unfolded if_not_P [OF nb] if_not_P [OF room']] env ap good v c(1) nb]
        have "n \<le> ?limit" if "r = Up_Done n" "?limit > 0" for n
          using that fits bf c(2) by (simp add: appended_def)
        then show ?thesis using bf fits cut c(1) by auto
      qed
    qed
  qed
qed

end

end
