(* ===== verification/Oci_Push.thy ===== *)
theory Oci_Push
  imports Oci_Session
begin

text \<open>
  A whole blob push over the OCI protocol: a session is opened, chunks are sent to it, a finalizing
  request stores it under its digest. What was pushed is what a pull returns.
\<close>

section \<open>Digests and keys\<close>

lemma cut_colon_some: "cut_colon s = Some (a, h) \<Longrightarrow> s = a @ '':'' @ h"
proof (induction s arbitrary: a)
  case (Cons c s)
  then show ?case by (cases "c = CHR '':''") (auto simp: cut_colon_def split: if_splits)
qed (simp add: cut_colon_def)

lemma digest_match: "\<not> digest_mismatch oe d c \<Longrightarrow> d = ''sha256:'' @ se_sha256 (oe_store oe) c"
  by (auto simp: digest_mismatch_def split: option.splits dest!: cut_colon_some)

lemma valid_upload_key: "valid_upload_id i \<Longrightarrow> valid_key (upload_key i)"
proof -
  assume v: "valid_upload_id i"
  have c: "is_hex_digit c \<Longrightarrow> c \<noteq> CHR ''.'' \<and> c \<noteq> CHR '' '' \<and> c \<noteq> slash" for c by (auto simp: is_hex_digit_def)
  have no: "slash \<notin> set i" "CHR ''.'' \<notin> set i" "CHR '' '' \<notin> set i" "i \<noteq> []" using v c by (auto simp: valid_upload_id_def)
  then have "str_split slash i = [i]" by (simp add: str_split_single)
  then show ?thesis using no by (simp add: valid_key_def upload_key_def upload_key_prefix_def)
qed

section \<open>The steps of a push\<close>

definition push_rows_apart :: "'b store_world \<Rightarrow> string \<Rightarrow> bool" where
  "push_rows_apart w i \<longleftrightarrow> (\<forall>rn path a. row_at w rn path = Some a \<longrightarrow> asset_blob_key a \<noteq> upload_key i)"

text \<open>The chunks of a client, sent until one is not answered \<open>202\<close>.\<close>

fun push_chunks :: "'b oci_env \<Rightarrow> string \<Rightarrow> string \<Rightarrow> (int \<times> body) list \<Rightarrow> 'b store_world \<Rightarrow> bool \<times> 'b store_world" where
  "push_chunks oe rn i [] w = (True, w)"
| "push_chunks oe rn i ((n, b) # rest) w =
     (case patch_upload oe rn i n b w of
        (r, w1) \<Rightarrow> if fst r = 202 then push_chunks oe rn i rest w1 else (False, w1))"

context append_laws
begin

lemma upload_create_stages:
  assumes "upload_create oe (Some i) w = (Some j, w')" "se_ops (oe_store oe) = ops" "\<And>q. good (sw_phys w q)" "valid (upload_key i)"
  shows "stages obj valid good i w w'" "staged obj i w' = Some []" "j = i"
proof -
  have pp: "phys_put (oe_store oe) (default_space w) (upload_key i) \<lparr> bd_bytes = [], bd_broken = False \<rparr> 0 w = (None, w')" and j: "j = i"
    using assms(1) by (auto simp: upload_create_def split: prod.splits option.splits)
  note p = phys_put_touches [OF pp assms(2-4)]
  show st: "stages obj valid good i w w'" using p(1,2) by (rule phys_only_stages)
  show "staged obj i w' = Some []" using p(3) stages_fields(1) [OF st] by (simp add: staged_def)
  show "j = i" by (rule j)
qed

lemma upload_remove_stages:
  assumes env: "se_ops (oe_store oe) = ops" and ap: "oe_append oe = None \<or> oe_append oe = Some ap"
    and good: "\<And>q. good (sw_phys w q)" and v: "valid (upload_key i)"
  shows "stages obj valid good i w (upload_remove oe i w)"
proof (cases "valid_upload_id i")
  case False
  then show ?thesis using stages_refl [of good w] good by (simp add: upload_remove_def)
next
  case True
  define w1 where "w1 = (case oe_append oe of None \<Rightarrow> w | Some ap \<Rightarrow> snd (on_default (\<lambda>s. ap_abort ap s (upload_key i)) w))"
  have s1: "stages obj valid good i w w1"
  proof (cases "oe_append oe")
    case None
    then show ?thesis using stages_refl [of good w] good by (simp add: w1_def)
  next
    case (Some a)
    obtain e v1 where od: "on_default (\<lambda>s. ap_abort ap s (upload_key i)) w = (e, v1)"
      by (cases "on_default (\<lambda>s. ap_abort ap s (upload_key i)) w")
    have "w1 = v1" using Some ap od by (simp add: w1_def)
    then show ?thesis
      using on_default_stages(1) [where obj = obj and valid = valid and good = good and i = i,
          OF od good abort_good [OF good v] abort_other [OF good v]] by simp
  qed
  obtain e w2 where d: "phys_delete (oe_store oe) (default_space w1) (upload_key i) w1 = (e, w2)"
    by (cases "phys_delete (oe_store oe) (default_space w1) (upload_key i) w1")
  have "stages obj valid good i w1 w2"
    by (rule phys_only_stages [OF phys_delete_touches(1,2) [OF d env stages_fields(9) [OF s1] valid_entry [OF v]]])
  moreover have "upload_remove oe i w = w2" using True d by (simp add: upload_remove_def w1_def [symmetric])
  ultimately show ?thesis using stages_trans [OF s1] by simp
qed

lemma patch_upload_accepted:
  assumes "patch_upload oe rn i n b w = (r, w')" "fst r = 202" "se_ops (oe_store oe) = ops" "oe_append oe = None \<or> oe_append oe = Some ap"
    "\<And>q. good (sw_phys w q)" "valid (upload_key i)" "oe_max_upload oe < 2 ^ 63 - 1" "staged obj i w = Some c"
  shows "stages obj valid good i w w' \<and> staged obj i w' = Some (c @ bd_bytes b)"
proof -
  obtain x w1 where ua: "upload_append oe i b w = (x, w1)" by (cases "upload_append oe i b w")
  obtain m where "x = Up_Done m" "w' = w1"
    using assms(1,2) ua unfolding patch_upload_def by (auto split: if_splits option.splits up_result.splits)
  then show ?thesis using upload_append_cases [OF ua assms(3-7)] assms(8) by (auto simp: appended_def)
qed

lemma push_chunks_accepted:
  assumes "push_chunks oe rn i chunks w = (True, w')" "se_ops (oe_store oe) = ops" "oe_append oe = None \<or> oe_append oe = Some ap"
    "\<And>q. good (sw_phys w q)" "valid (upload_key i)" "oe_max_upload oe < 2 ^ 63 - 1" "staged obj i w = Some c"
  shows "stages obj valid good i w w' \<and> staged obj i w' = Some (c @ concat (map (\<lambda>x. bd_bytes (snd x)) chunks))"
  using assms(1,4,7)
proof (induction chunks arbitrary: w c)
  case Nil
  then show ?case using stages_refl [of good w] by simp
next
  case (Cons x rest)
  obtain n b where x: "x = (n, b)" by (cases x)
  obtain r w1 where p: "patch_upload oe rn i n b w = (r, w1)" by (cases "patch_upload oe rn i n b w")
  have r: "fst r = 202" "push_chunks oe rn i rest w1 = (True, w')" using Cons.prems(1) x p by (auto split: if_splits)
  note s1 = patch_upload_accepted [OF p r(1) assms(2,3) Cons.prems(2) assms(5,6) Cons.prems(3)]
  have g1: "\<And>q. good (sw_phys w1 q)" using stages_fields(9) s1 by blast
  show ?case using Cons.IH [OF r(2) g1 s1 [THEN conjunct2]] s1 stages_trans [of obj valid good i w w1 w'] x by simp
qed

text \<open>A commit that is answered \<open>201\<close> verified and stored what was staged.\<close>

lemma commit_upload_created:
  assumes r: "commit_upload oe oc rn img i digest w = (rep, w')" "fst rep = 201"
    and env: "se_ops (oe_store oe) = ops" and ap: "oe_append oe = None \<or> oe_append oe = Some ap"
    and v: "valid (upload_key i)" and int: "intact obj valid good (oe_store oe) w" and ok: "tables_ok w" and reg: "registry_ok (oe_store oe) w"
    and vb: "valid (blob_key_of (oe_store oe) rn (blob_path img digest))"
    and un: "key_unshared w rn (blob_path img digest) (blob_key_of (oe_store oe) rn (blob_path img digest))"
    and apart: "push_rows_apart w i" "blob_key_of (oe_store oe) rn (blob_path img digest) \<noteq> upload_key i"
    and c: "staged obj i w = Some c"
  shows "digest = ''sha256:'' @ se_sha256 (oe_store oe) c \<and> content obj (oe_store oe) w' rn (blob_path img digest) = Some c \<and>
    intact obj valid good (oe_store oe) w' \<and> tables_ok w' \<and> registry_ok (oe_store oe) w' \<and>
    (\<forall>rn' path. (rn', path) \<noteq> (rn, blob_path img digest) \<longrightarrow> content obj (oe_store oe) w' rn' path = content obj (oe_store oe) w rn' path)"
proof -
  let ?env = "oe_store oe" and ?path = "blob_path img digest"
  have good: "\<And>q. good (sw_phys w q)" using int by (simp add: intact_def)
  have ne: "fst (store_error e) \<noteq> 201" for e by (simp add: store_error_def http_status_for_error_def split: pub_err.split)
  obtain c1 n w1 c2 n2 w2 y w3 where o1: "upload_open oe i w = (Up_Done (c1, n), w1)" and dm: "\<not> digest_mismatch oe digest c1"
    and o2: "upload_open oe i w1 = (Up_Done (c2, n2), w2)"
    and sa: "store_artifact ?env (oc_write oc) w2 rn ?path ''application/octet-stream''
        \<lparr> co_group = [], co_name = img, co_version = digest \<rparr> \<lparr> bd_bytes = c2, bd_broken = False \<rparr> n = (Inr y, w3)"
    and w': "w' = upload_remove oe i w3"
    using r ne unfolding commit_upload_def by (auto split: up_result.splits prod.splits sum.splits if_splits)
  note s1 = upload_open_cases [OF o1 env ap good v]
  note s2 = upload_open_cases [OF o2 env ap stages_fields(9) [OF s1(1)] v]
  have cs: "c1 = c" "c2 = c" using s1(2,3) s2(3) c by simp_all
  have s12: "stages obj valid good i w w2" by (rule stages_trans [OF s1(1) s2(1)])
  note f = stages_fields [OF s12]
  have keys: "\<And>rn path a. row_at w rn path = Some a \<Longrightarrow> asset_blob_key a \<noteq> upload_key i" using apart(1) by (simp add: push_rows_apart_def)
  note i2 = stages_rows [OF s12 int keys]
  have ok2: "tables_ok w2" "registry_ok ?env w2" "key_unshared w2 rn ?path (blob_key_of ?env rn ?path)"
    using ok f same_layout_registry_ok [OF f(6), of ?env] reg un by (simp_all add: key_unshared_def)
  obtain a sm sz where y: "y = (a, sm, sz)" by (cases y) auto
  note u = upload_view [OF sa env i2(1) vb ok2]
  have u3: "tables_ok w3" "registry_ok ?env w3" "intact obj valid good ?env w3" "content obj ?env w3 rn ?path = Some c"
    "\<And>rn' path. (rn', path) \<noteq> (rn, ?path) \<Longrightarrow> content obj ?env w3 rn' path = content obj ?env w2 rn' path"
    using u y cs by auto
  have g2: "\<And>q. good (sw_phys w2 q)" by (rule f(9))
  obtain sid where l: "landed obj ?env rn ?path sid (store_space ?env w2 sid) (blob_key_of ?env rn ?path) \<lparr> bd_bytes = c2, bd_broken = False \<rparr> n sz w2 w3"
    using store_artifact_cases [OF sa env g2 vb ok2(1,2)] y by auto
  have keys3: "asset_blob_key x \<noteq> upload_key i" if "row_at w3 rn' path = Some x" for rn' path x
    using that l keys apart(2) f(7) by (cases "(rn', path) = (rn, ?path)") (auto simp: landed_def)
  have g3: "\<And>q. good (sw_phys w3 q)" using u3(3) by (simp add: intact_def)
  note s3 = upload_remove_stages [OF env ap g3 v, folded w']
  note f3 = stages_fields [OF s3] and i3 = stages_rows [OF s3 u3(3) keys3]
  have "tables_ok w'" "registry_ok ?env w'" using f3 u3 same_layout_registry_ok [OF f3(6), of ?env] by simp_all
  then show ?thesis using digest_match [OF dm] cs u3 i2(2) i3 by simp
qed

text \<open>
  A finalizing request with a body and a wrong digest is refused after its body was staged: the session
  now ends in that body, and the same request sent again with the right digest appends it once more.
\<close>

lemma wrong_digest_keeps_body:
  assumes "finalize_upload oe oc rn img i digest n b w = ((400, ''DIGEST_INVALID''), w')" "digest \<noteq> []" "n > 0"
    "se_ops (oe_store oe) = ops" "oe_append oe = None \<or> oe_append oe = Some ap"
    "\<And>q. good (sw_phys w q)" "valid (upload_key i)" "oe_max_upload oe < 2 ^ 63 - 1" "staged obj i w = Some c"
  shows "staged obj i w' = Some (c @ bd_bytes b)"
proof -
  obtain x w1 where ua: "upload_append oe i b w = (x, w1)" by (cases "upload_append oe i b w")
  obtain m where m: "x = Up_Done m" "commit_upload oe oc rn img i digest w1 = ((400, ''DIGEST_INVALID''), w')"
    using assms(1-3) ua unfolding finalize_upload_def by (auto split: up_result.splits)
  note a = upload_append_cases [OF ua assms(4-8)]
  have st: "staged obj i w1 = Some (c @ bd_bytes b)" using a m(1) assms(9) by (auto simp: appended_def)
  have ne: "store_error e \<noteq> (400, ''DIGEST_INVALID'')" for e by (simp add: store_error_def)
  obtain y w2 where o: "upload_open oe i w1 = (y, w2)" by (cases "upload_open oe i w1")
  have "w' = w2"
    using m(2) o ne by (auto simp: commit_upload_def split: up_result.splits prod.splits sum.splits if_splits)
  then show ?thesis using upload_open_cases(2) [OF o assms(4,5) stages_fields(9) [OF a [THEN conjunct1]] assms(7)] st by simp
qed

end

section \<open>A push and its pull\<close>

text \<open>
  C23: what was pushed is what is pulled. When a session was opened, every chunk was answered \<open>202\<close> and
  the finalizing request \<open>201\<close>, the digest the client named is the SHA-256 of the concatenation of the
  chunks and of the final body, the blob's path holds exactly those bytes and a pull that answers bytes
  answers those; every other path keeps its content and the invariants are kept. This holds with the
  appending extension of the filesystem backend and without it, for upload limits below the largest
  int64 (there \<open>limit - stored + 1\<close> would wrap) and a final body whose length is declared.
\<close>

theorem pushed_blob_is_pulled:
  assumes "upload_create oe (Some i) w = (Some i, w1)"
    and "push_chunks oe rn i chunks w1 = (True, w2)"
    and "finalize_upload oe oc rn img i digest n b w2 = (rep, w3)" "fst rep = 201"
    and "se_ops (oe_store oe) = local_ops" "oe_append oe = None \<or> oe_append oe = Some local_append_ops" "oe_max_upload oe < 2 ^ 63 - 1"
    and "tables_ok w" "registry_ok (oe_store oe) w" "intact local_obj valid_key local_good (oe_store oe) w"
    and "valid_upload_id i" "push_rows_apart w i" "blob_key_of (oe_store oe) rn (blob_path img digest) \<noteq> upload_key i"
    and "valid_key (blob_key_of (oe_store oe) rn (blob_path img digest))"
    and "key_unshared w rn (blob_path img digest) (blob_key_of (oe_store oe) rn (blob_path img digest))"
    and "pull_blob oe rn img digest w3 = (pulled, w4)"
  defines "pushed \<equiv> concat (map (\<lambda>x. bd_bytes (snd x)) chunks) @ (if n > 0 then bd_bytes b else [])"
  shows "digest = ''sha256:'' @ se_sha256 (oe_store oe) pushed \<and>
    content local_obj (oe_store oe) w3 rn (blob_path img digest) = Some pushed \<and> pulled \<in> {Inr pushed, Inl (404, ''BLOB_UNKNOWN'')} \<and>
    intact local_obj valid_key local_good (oe_store oe) w3 \<and> tables_ok w3 \<and> registry_ok (oe_store oe) w3 \<and>
    (\<forall>rn' path. (rn', path) \<noteq> (rn, blob_path img digest) \<longrightarrow>
       content local_obj (oe_store oe) w3 rn' path = content local_obj (oe_store oe) w rn' path)"
proof -
  let ?env = "oe_store oe" and ?path = "blob_path img digest"
  have v: "valid_key (upload_key i)" by (rule valid_upload_key [OF assms(11)])
  have good: "\<And>q. local_good (sw_phys w q)" using assms(10) by (simp add: intact_def)
  note c1 = local_appends.upload_create_stages [OF assms(1,5) good v]
  note p = local_appends.push_chunks_accepted [OF assms(2,5,6) stages_fields(9) [OF c1(1)] v assms(7) c1(2)]
  have s2: "stages local_obj valid_key local_good i w w2" using stages_trans [OF c1(1)] p by blast
  define w2' where "w2' = (if n > 0 then snd (upload_append oe i b w2) else w2)"
  have fin: "commit_upload oe oc rn img i digest w2' = (rep, w3) \<and> stages local_obj valid_key local_good i w2 w2' \<and>
      staged local_obj i w2' = Some pushed"
  proof (cases "n > 0")
    case False
    then show ?thesis using assms(3,4) p s2 stages_refl [of local_good w2] stages_fields(9) [OF s2]
      by (auto simp: finalize_upload_def w2'_def pushed_def split: if_splits)
  next
    case True
    obtain x v2 where ua: "upload_append oe i b w2 = (x, v2)" by (cases "upload_append oe i b w2")
    obtain m where "x = Up_Done m" "commit_upload oe oc rn img i digest v2 = (rep, w3)"
      using assms(3,4) True ua unfolding finalize_upload_def by (auto split: if_splits up_result.splits)
    then show ?thesis using local_appends.upload_append_cases [OF ua assms(5,6) stages_fields(9) [OF s2] v assms(7)] p ua True
      by (auto simp: w2'_def pushed_def appended_def)
  qed
  have s: "stages local_obj valid_key local_good i w w2'" using stages_trans [OF s2] fin by blast
  note f = stages_fields [OF s]
  have keys: "\<And>rn path a. row_at w rn path = Some a \<Longrightarrow> asset_blob_key a \<noteq> upload_key i" using assms(12) by (simp add: push_rows_apart_def)
  have i2: "intact local_obj valid_key local_good ?env w2'" "content local_obj ?env w2' = content local_obj ?env w"
    using stages_rows [OF s assms(10)] keys by blast+
  have pre: "tables_ok w2'" "registry_ok ?env w2'" "key_unshared w2' rn ?path (blob_key_of ?env rn ?path)" "push_rows_apart w2' i"
    using f assms(8,12,15) same_layout_registry_ok [OF f(6), of ?env] assms(9) by (simp_all add: key_unshared_def push_rows_apart_def)
  note cc = local_appends.commit_upload_created [OF fin [THEN conjunct1] assms(4-6) v i2(1) pre(1,2) assms(14) pre(3,4) assms(13)
      fin [THEN conjunct2, THEN conjunct2]]
  obtain r4 v4 where fe: "fetch_artifact ?env w3 rn ?path = (r4, v4)" by (cases "fetch_artifact ?env w3 rn ?path")
  have g3: "\<And>q. local_good (sw_phys w3 q)" and v3: "\<And>a. row_at w3 rn ?path = Some a \<Longrightarrow> valid_key (asset_blob_key a)"
    using cc by (auto simp: intact_def)
  have inv3: "tables_ok w3" "registry_ok ?env w3" and at: "content local_obj ?env w3 rn ?path = Some pushed" using cc by blast+
  note fc = local_blobs.fetch_artifact_cases [OF fe assms(5) g3 v3 inv3]
  have "pulled \<in> {Inr pushed, Inl (404, ''BLOB_UNKNOWN'')}"
  proof (cases r4)
    case (Inl e)
    then show ?thesis using assms(16) fe by (simp add: pull_blob_def)
  next
    case (Inr x)
    then have "pulled = Inr (fst x)" using assms(16) fe by (cases x) (simp add: pull_blob_def)
    moreover have "fst x = pushed" using fc Inr at by (cases x) simp
    ultimately show ?thesis by simp
  qed
  then show ?thesis using cc [unfolded i2(2)] by blast
qed

text \<open>A push of two chunks and an empty finalizing request into an empty store.\<close>

definition demo_oci :: "local_store oci_env" where
  "demo_oci = \<lparr> oe_store = demo_env, oe_append = Some local_append_ops, oe_max_upload = 100, oe_rbac = None \<rparr>"

definition demo_caller :: oci_caller where
  "demo_caller = \<lparr> oc_write = demo_ctx, oc_user_id = ''u1'', oc_roles = [] \<rparr>"

definition demo_id :: string where
  "demo_id = replicate 32 (CHR ''a'')"

definition demo_opened :: "local_store store_world" where
  "demo_opened = snd (upload_create demo_oci (Some demo_id) (demo_world ''allow'' None))"

definition demo_sent :: "local_store store_world" where
  "demo_sent = snd (push_chunks demo_oci ''libs'' demo_id [(3, demo_body ''hel''), (-1, demo_body ''lo'')] demo_opened)"

definition demo_pushed :: "reply \<times> local_store store_world" where
  "demo_pushed = finalize_upload demo_oci demo_caller ''libs'' ''img'' demo_id ''sha256:01235'' 0 (demo_body []) demo_sent"

theorem pushed_blob_is_pulled_witness:
  "content local_obj demo_env (snd demo_pushed) ''libs'' ''/blobs/img/sha256:01235'' = Some ''hello'' \<and> fst demo_pushed = (201, [])"
proof -
  have a: "fst (upload_create demo_oci (Some demo_id) (demo_world ''allow'' None)) = Some demo_id" by code_simp
  have b: "fst (push_chunks demo_oci ''libs'' demo_id [(3, demo_body ''hel''), (-1, demo_body ''lo'')] demo_opened)" by code_simp
  have c: "fst demo_pushed = (201, [])" by code_simp
  obtain x w1 where w1: "upload_create demo_oci (Some demo_id) (demo_world ''allow'' None) = (x, w1)"
    by (cases "upload_create demo_oci (Some demo_id) (demo_world ''allow'' None)")
  obtain y w2 where w2: "push_chunks demo_oci ''libs'' demo_id [(3, demo_body ''hel''), (-1, demo_body ''lo'')] w1 = (y, w2)"
    by (cases "push_chunks demo_oci ''libs'' demo_id [(3, demo_body ''hel''), (-1, demo_body ''lo'')] w1")
  have xy: "x = Some demo_id" "demo_opened = w1" "y" "demo_sent = w2"
    using a b w1 w2 by (simp_all add: demo_opened_def demo_sent_def)
  obtain rep w3 where w3: "demo_pushed = (rep, w3)" by (cases demo_pushed)
  have rep: "fst rep = 201" using c unfolding w3 by (cases rep) simp_all
  obtain pulled w4 where w4: "pull_blob demo_oci ''libs'' ''img'' ''sha256:01235'' w3 = (pulled, w4)"
    by (cases "pull_blob demo_oci ''libs'' ''img'' ''sha256:01235'' w3")
  have env: "oe_store demo_oci = demo_env" "se_ops demo_env = local_ops" "oe_append demo_oci = Some local_append_ops" "oe_max_upload demo_oci = 100"
    by (simp_all add: demo_oci_def demo_env_def)
  have "valid_upload_id demo_id" "valid_key (blob_key_of demo_env ''libs'' (blob_path ''img'' ''sha256:01235''))"
    "blob_key_of demo_env ''libs'' (blob_path ''img'' ''sha256:01235'') \<noteq> upload_key demo_id" by code_simp+
  moreover have "push_rows_apart (demo_world ''allow'' None) demo_id" by (simp add: push_rows_apart_def row_at_def demo_world_def)
  ultimately have "content local_obj demo_env w3 ''libs'' (blob_path ''img'' ''sha256:01235'') = Some ''hello''"
    using pushed_blob_is_pulled [OF w1 [unfolded xy(1)] w2 [unfolded eqTrueI [OF xy(3)]] w3 [unfolded demo_pushed_def xy(4)] rep _ _ _ _ _ _ _ _ _ _ _ w4, THEN conjunct2, THEN conjunct1]
      demo_invariants env by (simp add: demo_body_def)
  then show ?thesis using c unfolding w3 by (simp add: blob_path_def)
qed

end
