(* ===== verification/Oci_Release.thy ===== *)
theory Oci_Release
  imports Oci_Push "HOL-Library.List_Lexorder" "HOL-Library.Char_ord"
begin

text \<open>
  Deleting a manifest: \<open>internal/formats/oci/release.go\<close> (what of an image is left without a user) and
  \<open>deleteManifest\<close>, \<open>tagsResolvingTo\<close>, \<open>readAsset\<close> of \<open>internal/formats/oci/handler.go\<close>. The JSON decoder is
  the parameter \<open>dec\<close>: the document a manifest's bytes stand for, if they parse.
\<close>

section \<open>What a manifest names\<close>

record manifest_doc =
  md_config :: string
  md_layers :: "string list"
  md_manifests :: "string list"
  md_subject :: "string option"

record manifest_refs =
  mr_blobs :: "string list"
  mr_manifests :: "string list"

definition no_refs :: manifest_refs where
  "no_refs = \<lparr> mr_blobs = [], mr_manifests = [] \<rparr>"

definition parse_manifest_refs :: "(bytes \<Rightarrow> manifest_doc option) \<Rightarrow> bytes \<Rightarrow> manifest_refs" where
  "parse_manifest_refs dec body =
     (case dec body of
        None \<Rightarrow> no_refs
      | Some m \<Rightarrow>
          \<lparr> mr_blobs = filter (\<lambda>d. d \<noteq> []) (md_config m # md_layers m),
            mr_manifests = filter (\<lambda>d. d \<noteq> []) (md_manifests m @ (case md_subject m of None \<Rightarrow> [] | Some d \<Rightarrow> [d])) \<rparr>)"

section \<open>The plan\<close>

text \<open>An entry is known by its position; the map of removed entries holds positions.\<close>

record release_entry =
  re_asset :: asset
  re_ref :: string
  re_refs :: manifest_refs

record release_plan =
  rp_prefix :: string
  rp_entries :: "release_entry list"
  rp_removed :: "nat list"
  rp_candidates :: "string list"
  rp_blobs :: "string list"

definition plan_by_path :: "release_plan \<Rightarrow> string \<Rightarrow> nat option" where
  "plan_by_path p path =
     find (\<lambda>i. asset_path (re_asset (rp_entries p ! i)) = path) (rev [0..<length (rp_entries p)])"

definition plan_release :: "manifest_refs \<Rightarrow> release_plan \<Rightarrow> release_plan" where
  "plan_release refs p =
     p\<lparr> rp_blobs := rp_blobs p @ mr_blobs refs, rp_candidates := rp_candidates p @ mr_manifests refs \<rparr>"

definition plan_needed :: "release_plan \<Rightarrow> string \<Rightarrow> nat \<Rightarrow> bool" where
  "plan_needed p digest self \<longleftrightarrow>
     (\<exists>i \<in> set [0..<length (rp_entries p)].
        i \<noteq> self \<and> i \<notin> set (rp_removed p) \<and>
        (let o' = rp_entries p ! i
         in CHR '':'' \<notin> set (re_ref o') \<and> ''sha256:'' @ asset_sha256 (re_asset o') = digest \<or>
            digest \<in> set (mr_manifests (re_refs o'))))"

text \<open>One pass over the candidates: the plan and whether it changed.\<close>

fun drop_pass :: "string list \<Rightarrow> release_plan \<Rightarrow> release_plan \<times> bool" where
  "drop_pass [] p = (p, False)"
| "drop_pass (d # ds) p =
     (case plan_by_path p (rp_prefix p @ d) of
        None \<Rightarrow> drop_pass ds p
      | Some e \<Rightarrow>
          if e \<in> set (rp_removed p) \<or> plan_needed p d e then drop_pass ds p
          else (fst (drop_pass ds (plan_release (re_refs (rp_entries p ! e)) (p\<lparr> rp_removed := e # rp_removed p \<rparr>))), True))"

lemma plan_release_fields [simp]:
  "rp_prefix (plan_release r p) = rp_prefix p" "rp_entries (plan_release r p) = rp_entries p" "rp_removed (plan_release r p) = rp_removed p"
  "rp_blobs (plan_release r p) = rp_blobs p @ mr_blobs r" "rp_candidates (plan_release r p) = rp_candidates p @ mr_manifests r"
  by (simp_all add: plan_release_def)

lemma plan_by_path_some:
  assumes "plan_by_path p path = Some e"
  shows "e < length (rp_entries p)" "asset_path (re_asset (rp_entries p ! e)) = path"
  using find_mem [OF assms [unfolded plan_by_path_def]] by simp_all

lemma drop_pass_frame:
  "rp_prefix (fst (drop_pass ds p)) = rp_prefix p \<and> rp_entries (fst (drop_pass ds p)) = rp_entries p \<and>
   set (rp_removed p) \<subseteq> set (rp_removed (fst (drop_pass ds p)))"
  by (induction ds p rule: drop_pass.induct) (auto split: option.split)

lemma drop_pass_progress:
  "snd (drop_pass ds p) \<Longrightarrow> \<exists>i < length (rp_entries p). i \<notin> set (rp_removed p) \<and> i \<in> set (rp_removed (fst (drop_pass ds p)))"
proof (induction ds p rule: drop_pass.induct)
  case (2 d ds p)
  show ?case
  proof (cases "plan_by_path p (rp_prefix p @ d)")
    case None
    then show ?thesis using 2 by simp
  next
    case (Some e)
    show ?thesis
    proof (cases "e \<in> set (rp_removed p) \<or> plan_needed p d e")
      case True
      then show ?thesis using 2 Some by simp
    next
      case False
      let ?q = "plan_release (re_refs (rp_entries p ! e)) (p\<lparr> rp_removed := e # rp_removed p \<rparr>)"
      have "e \<in> set (rp_removed (fst (drop_pass ds ?q)))" using drop_pass_frame [of ds ?q] by auto
      then show ?thesis using Some False plan_by_path_some(1) [OF Some] by auto
    qed
  qed
qed simp

function drop_unneeded :: "release_plan \<Rightarrow> release_plan" where
  "drop_unneeded p =
     (let r = drop_pass (sort (remdups (rp_candidates p))) p
      in if snd r then drop_unneeded (fst r) else fst r)"
  by pat_completeness auto

text \<open>Every changing pass removes an entry that was not removed before.\<close>

termination
proof (relation "measure (\<lambda>p. card ({0..<length (rp_entries p)} - set (rp_removed p)))")
  fix p r
  assume r: "r = drop_pass (sort (remdups (rp_candidates p))) p" and ch: "snd r"
  obtain i where i: "i < length (rp_entries p)" "i \<notin> set (rp_removed p)" "i \<in> set (rp_removed (fst r))"
    using drop_pass_progress ch r by blast
  have "{0..<length (rp_entries (fst r))} - set (rp_removed (fst r)) \<subset> {0..<length (rp_entries p)} - set (rp_removed p)"
    using i drop_pass_frame [of "sort (remdups (rp_candidates p))" p] r by auto
  then show "(fst r, p) \<in> measure (\<lambda>p. card ({0..<length (rp_entries p)} - set (rp_removed p)))"
    by (simp add: psubset_card_mono)
qed simp

declare drop_unneeded.simps [simp del]

definition unused_blobs :: "release_plan \<Rightarrow> string list" where
  "unused_blobs p =
     filter (\<lambda>b. \<forall>i \<in> set [0..<length (rp_entries p)]. i \<notin> set (rp_removed p) \<longrightarrow> b \<notin> set (mr_blobs (re_refs (rp_entries p ! i))))
       (remdups (rp_blobs p))"

section \<open>Reading the image\<close>

definition list_by_repo_and_path :: "'b store_world \<Rightarrow> nat \<Rightarrow> string \<Rightarrow> string \<Rightarrow> asset list option" where
  "list_by_repo_and_path w site rn prefix =
     (if sw_fail w (S_Asset_List site) then None
      else Some (sort_key asset_path (filter (\<lambda>a. asset_repository a = rn \<and> has_prefix (asset_path a) prefix) (sw_assets w))))"

definition read_asset :: "'b store_env \<Rightarrow> asset \<Rightarrow> 'b store_world \<Rightarrow> bytes option \<times> 'b store_world" where
  "read_asset env a w =
     (case (if asset_blob_store_id a = [] then (Inr (default_space w), w)
            else case stores_by_id w 14 (asset_blob_store_id a) of
              None \<Rightarrow> (Inl Pe_Db, w)
            | Some b \<Rightarrow> physical_store env w (Some b)) of
        (Inl _, w1) \<Rightarrow> (None, w1)
      | (Inr p, w1) \<Rightarrow>
          (case bo_get (se_ops env) (sw_phys w1 p) (asset_blob_key a) of
             Inl _ \<Rightarrow> (None, w1)
           | Inr (c, _) \<Rightarrow> (Some c, w1)))"

fun plan_load ::
  "(asset \<Rightarrow> 's \<Rightarrow> bytes option \<times> 's) \<Rightarrow> (bytes \<Rightarrow> manifest_doc option) \<Rightarrow> string \<Rightarrow> asset list \<Rightarrow> 's \<Rightarrow> release_entry list option \<times> 's" where
  "plan_load read dec prefix [] s = (Some [], s)"
| "plan_load read dec prefix (a # rest) s =
     (let ref = trim_prefix (asset_path a) prefix
      in if ref = [] \<or> slash \<in> set ref then plan_load read dec prefix rest s
         else case read a s of
           (None, s1) \<Rightarrow> (None, s1)
         | (Some body, s1) \<Rightarrow>
             (case plan_load read dec prefix rest s1 of
                (None, s2) \<Rightarrow> (None, s2)
              | (Some es, s2) \<Rightarrow> (Some (\<lparr> re_asset = a, re_ref = ref, re_refs = parse_manifest_refs dec body \<rparr> # es), s2)))"

definition start_plan :: "(bytes \<Rightarrow> manifest_doc option) \<Rightarrow> string \<Rightarrow> release_entry list \<Rightarrow> (string \<times> bytes) list \<Rightarrow> release_plan" where
  "start_plan dec img es released =
     fold (\<lambda>(sha, body) p. plan_release (parse_manifest_refs dec body) (p\<lparr> rp_candidates := rp_candidates p @ [''sha256:'' @ sha] \<rparr>)) released
       \<lparr> rp_prefix = manifest_path img [], rp_entries = es, rp_removed = [], rp_candidates = [], rp_blobs = [] \<rparr>"

definition plan_paths :: "release_plan \<Rightarrow> string list" where
  "plan_paths p = sort (map (\<lambda>i. asset_path (re_asset (rp_entries p ! i))) (rp_removed p))"

definition plan_image_release ::
  "(asset \<Rightarrow> 'b store_world \<Rightarrow> bytes option \<times> 'b store_world) \<Rightarrow> (bytes \<Rightarrow> manifest_doc option) \<Rightarrow> string \<Rightarrow> string \<Rightarrow>
   (string \<times> bytes) list \<Rightarrow> 'b store_world \<Rightarrow> string list option \<times> 'b store_world" where
  "plan_image_release read dec rn img released w =
     (case list_by_repo_and_path w 1 rn (manifest_path img []) of
        None \<Rightarrow> (None, w)
      | Some listed \<Rightarrow>
          (case plan_load read dec (manifest_path img []) listed w of
             (None, w1) \<Rightarrow> (None, w1)
           | (Some es, w1) \<Rightarrow>
               (let p = drop_unneeded (start_plan dec img es released);
                    blobs = filter (\<lambda>path. case assets_by_path w1 9 rn path of Inr (Some _) \<Rightarrow> True | _ \<Rightarrow> False) (map (blob_path img) (unused_blobs p))
                in (Some (plan_paths p @ sort blobs), w1))))"

section \<open>Deleting a manifest\<close>

definition tags_resolving_to :: "'b store_world \<Rightarrow> string \<Rightarrow> string \<Rightarrow> string \<Rightarrow> string list option" where
  "tags_resolving_to w rn img sha =
     (case list_by_repo_and_path w 2 rn (manifest_path img []) of
        None \<Rightarrow> None
      | Some listed \<Rightarrow>
          Some (map asset_path (filter (\<lambda>a. let ref = trim_prefix (asset_path a) (manifest_path img [])
                                            in ref \<noteq> [] \<and> slash \<notin> set ref \<and> CHR '':'' \<notin> set ref \<and> asset_sha256 a = sha) listed)))"

text \<open>The manifests that go, with the bytes read before each deletion; \<^const>\<open>None\<close> after an error.\<close>

fun delete_targets ::
  "'b store_env \<Rightarrow> string \<Rightarrow> string list \<Rightarrow> (string \<times> bytes) list \<Rightarrow> 'b store_world \<Rightarrow> (string \<times> bytes) list option \<times> 'b store_world" where
  "delete_targets env rn [] released w = (Some released, w)"
| "delete_targets env rn (path # rest) released w =
     (case assets_by_path w 10 rn path of
        Inl _ \<Rightarrow> delete_targets env rn rest released w
      | Inr None \<Rightarrow> delete_targets env rn rest released w
      | Inr (Some a) \<Rightarrow>
          (case read_asset env a w of
             (None, w1) \<Rightarrow> (None, w1)
           | (Some body, w1) \<Rightarrow>
               (case delete_artifact env w1 rn path of
                  (Inl _, w2) \<Rightarrow> (None, w2)
                | (Inr _, w2) \<Rightarrow> delete_targets env rn rest (AList.update (asset_sha256 a) body released) w2)))"

fun delete_paths :: "'b store_env \<Rightarrow> string \<Rightarrow> string list \<Rightarrow> 'b store_world \<Rightarrow> bool \<times> 'b store_world" where
  "delete_paths env rn [] w = (True, w)"
| "delete_paths env rn (path # rest) w =
     (case delete_artifact env w rn path of
        (Inl _, w1) \<Rightarrow> (False, w1)
      | (Inr _, w1) \<Rightarrow> delete_paths env rn rest w1)"

definition delete_orphans :: "'b store_world \<Rightarrow> string \<Rightarrow> 'b store_world" where
  "delete_orphans w rn =
     (if sw_fail w S_Orphans then w
      else w\<lparr> sw_comps := filter (\<lambda>c. \<not> ((\<exists>r \<in> set (sw_repos w). repo_id r = comp_repository_id c \<and> repo_name r = rn) \<and>
             (\<forall>a \<in> set (sw_assets w). asset_component_id a \<noteq> comp_id c))) (sw_comps w) \<rparr>)"

definition delete_manifest ::
  "'b store_env \<Rightarrow> (bytes \<Rightarrow> manifest_doc option) \<Rightarrow> string \<Rightarrow> string \<Rightarrow> string \<Rightarrow> 'b store_world \<Rightarrow> reply \<times> 'b store_world" where
  "delete_manifest env dec rn img reference w =
     (let path = manifest_path img reference
      in if CHR '':'' \<notin> set reference then
           (case delete_artifact env w rn path of
              (Inl _, w1) \<Rightarrow> ((500, ''UNKNOWN''), w1)
            | (Inr _, w1) \<Rightarrow> ((202, []), w1))
         else
           (case tags_resolving_to w rn img (trim_prefix reference ''sha256:'') of
              None \<Rightarrow> ((500, ''UNKNOWN''), w)
            | Some tags \<Rightarrow>
                (case delete_targets env rn (tags @ [path]) [] w of
                   (None, w1) \<Rightarrow> ((500, ''UNKNOWN''), w1)
                 | (Some released, w1) \<Rightarrow>
                     if released = [] then ((202, []), w1)
                     else (case plan_image_release (read_asset env) dec rn img released w1 of
                             (None, w2) \<Rightarrow> ((500, ''UNKNOWN''), w2)
                           | (Some paths, w2) \<Rightarrow>
                               (case delete_paths env rn paths w2 of
                                  (False, w3) \<Rightarrow> ((500, ''UNKNOWN''), w3)
                                | (True, w3) \<Rightarrow> ((202, []), delete_orphans w3 rn))))))"

end
