(* ===== verification/Oci_Release_Plan.thy ===== *)
theory Oci_Release_Plan
  imports Oci_Release
begin

text \<open>
  What the release plan of an image contains: exactly the candidate manifests no other remaining
  manifest uses, and the blobs none of the remaining manifests is built from.
\<close>

section \<open>Users of a digest\<close>

definition uses_digest :: "release_entry \<Rightarrow> string \<Rightarrow> bool" where
  "uses_digest e d \<longleftrightarrow>
     CHR '':'' \<notin> set (re_ref e) \<and> ''sha256:'' @ asset_sha256 (re_asset e) = d \<or> d \<in> set (mr_manifests (re_refs e))"

definition kept :: "release_plan \<Rightarrow> nat set" where
  "kept p = {i. i < length (rp_entries p) \<and> i \<notin> set (rp_removed p)}"

lemma plan_needed_iff: "plan_needed p d e \<longleftrightarrow> (\<exists>i \<in> kept p. i \<noteq> e \<and> uses_digest (rp_entries p ! i) d)"
  by (auto simp: plan_needed_def kept_def uses_digest_def Let_def)

lemma manifest_prefix: "manifest_path img [] @ d = manifest_path img d"
  by (simp add: manifest_path_def)

section \<open>The loop\<close>

text \<open>What holds of a plan between two steps: only unneeded candidates are removed, and what they named is a candidate.\<close>

definition plan_sound :: "release_plan \<Rightarrow> bool" where
  "plan_sound p \<longleftrightarrow>
     (\<forall>e \<in> set (rp_removed p). e < length (rp_entries p) \<and>
        (\<exists>d. asset_path (re_asset (rp_entries p ! e)) = rp_prefix p @ d \<and> d \<in> set (rp_candidates p) \<and> \<not> plan_needed p d e))"

definition grows_from :: "release_plan \<Rightarrow> release_plan \<Rightarrow> bool" where
  "grows_from p q \<longleftrightarrow>
     rp_prefix q = rp_prefix p \<and> rp_entries q = rp_entries p \<and> set (rp_removed p) \<subseteq> set (rp_removed q) \<and>
     set (rp_candidates q) = set (rp_candidates p) \<union>
       (\<Union>e \<in> set (rp_removed q) - set (rp_removed p). set (mr_manifests (re_refs (rp_entries p ! e)))) \<and>
     set (rp_blobs q) = set (rp_blobs p) \<union> (\<Union>e \<in> set (rp_removed q) - set (rp_removed p). set (mr_blobs (re_refs (rp_entries p ! e))))"

lemma grows_refl [simp]: "grows_from p p"
  by (simp add: grows_from_def)

lemma grows_trans: "grows_from p q \<Longrightarrow> grows_from q r \<Longrightarrow> grows_from p r"
  unfolding grows_from_def by auto

definition drop_entry :: "release_plan \<Rightarrow> nat \<Rightarrow> release_plan" where
  "drop_entry p e = plan_release (re_refs (rp_entries p ! e)) (p\<lparr> rp_removed := e # rp_removed p \<rparr>)"

lemma drop_entry_grows: "e \<notin> set (rp_removed p) \<Longrightarrow> grows_from p (drop_entry p e)"
  by (auto simp: grows_from_def drop_entry_def)

lemma needed_antimono: "grows_from p q \<Longrightarrow> plan_needed q d e \<Longrightarrow> plan_needed p d e"
  unfolding plan_needed_iff by (auto simp: grows_from_def kept_def)

lemma drop_entry_sound:
  assumes "plan_sound p" "plan_by_path p (rp_prefix p @ d) = Some e" "d \<in> set (rp_candidates p)" "e \<notin> set (rp_removed p)" "\<not> plan_needed p d e"
  shows "plan_sound (drop_entry p e)"
proof -
  note g = drop_entry_grows [OF assms(4)] and b = plan_by_path_some [OF assms(2)]
  have "\<exists>d. asset_path (re_asset (rp_entries p ! j)) = rp_prefix p @ d \<and> d \<in> set (rp_candidates (drop_entry p e)) \<and> \<not> plan_needed (drop_entry p e) d j"
    if "j = e \<or> j \<in> set (rp_removed p)" for j
  proof -
    note j = that
    obtain d' where "asset_path (re_asset (rp_entries p ! j)) = rp_prefix p @ d'" "d' \<in> set (rp_candidates p)" "\<not> plan_needed p d' j"
    proof (cases "j = e")
      case True
      show ?thesis by (rule that [of d]) (simp_all add: True b(2) assms(3,5))
    next
      case False
      then have "j \<in> set (rp_removed p)" using j by simp
      then show ?thesis using assms(1) that unfolding plan_sound_def by blast
    qed
    then show ?thesis using needed_antimono [OF g] by (intro exI [of _ d']) (auto simp: drop_entry_def)
  qed
  note w = this
  have f: "rp_removed (drop_entry p e) = e # rp_removed p" "rp_prefix (drop_entry p e) = rp_prefix p" "rp_entries (drop_entry p e) = rp_entries p"
    by (simp_all add: drop_entry_def)
  show ?thesis unfolding plan_sound_def f using w b(1) assms(1) unfolding plan_sound_def by (metis list.set_intros(1) set_ConsD)
qed

lemma drop_pass_grows:
  "plan_sound p \<Longrightarrow> set ds \<subseteq> set (rp_candidates p) \<Longrightarrow> grows_from p (fst (drop_pass ds p)) \<and> plan_sound (fst (drop_pass ds p))"
proof (induction ds p rule: drop_pass.induct)
  case (2 d ds p)
  show ?case
  proof (cases "plan_by_path p (rp_prefix p @ d)")
    case None
    then show ?thesis using 2 by simp
  next
    case (Some e)
    show ?thesis
    proof (cases "e \<in> set (rp_removed p) \<or> plan_needed p d e")
      case True
      then show ?thesis using 2 Some by simp
    next
      case False
      have g: "grows_from p (drop_entry p e)" using drop_entry_grows False by blast
      have s: "plan_sound (drop_entry p e)" using drop_entry_sound [OF 2(4) Some] False 2(5) by simp
      have "set ds \<subseteq> set (rp_candidates (drop_entry p e))" using 2(5) by (auto simp: drop_entry_def)
      then show ?thesis
        using 2(3) [OF Some False s [unfolded drop_entry_def]] grows_trans [OF g] Some False by (simp add: drop_entry_def)
    qed
  qed
qed simp

lemma drop_pass_unchanged:
  "\<not> snd (drop_pass ds p) \<Longrightarrow>
   fst (drop_pass ds p) = p \<and> (\<forall>d \<in> set ds. \<forall>e. plan_by_path p (rp_prefix p @ d) = Some e \<longrightarrow> e \<in> set (rp_removed p) \<or> plan_needed p d e)"
  by (induction ds p rule: drop_pass.induct) (auto split: option.splits if_splits)

lemma drop_unneeded_result:
  "plan_sound p \<Longrightarrow>
   grows_from p (drop_unneeded p) \<and> plan_sound (drop_unneeded p) \<and>
   (\<forall>d \<in> set (rp_candidates (drop_unneeded p)). \<forall>e. plan_by_path (drop_unneeded p) (rp_prefix p @ d) = Some e \<longrightarrow>
      e \<in> set (rp_removed (drop_unneeded p)) \<or> plan_needed (drop_unneeded p) d e)"
proof (induction p rule: drop_unneeded.induct)
  case (1 p)
  define r where "r = drop_pass (sort (remdups (rp_candidates p))) p"
  have u: "drop_unneeded p = (if snd r then drop_unneeded (fst r) else fst r)"
    by (simp add: drop_unneeded.simps [of p] r_def [symmetric] Let_def)
  have g: "grows_from p (fst r)" "plan_sound (fst r)" using drop_pass_grows [OF 1(2), of "sort (remdups (rp_candidates p))"] by (simp_all add: r_def)
  show ?case
  proof (cases "snd r")
    case True
    have "rp_prefix (fst r) = rp_prefix p" using g by (simp add: grows_from_def)
    then show ?thesis using 1(1) [OF r_def True g(2)] grows_trans [OF g(1)] True u by simp
  next
    case False
    then have "fst r = p" "\<forall>d \<in> set (rp_candidates p). \<forall>e. plan_by_path p (rp_prefix p @ d) = Some e \<longrightarrow> e \<in> set (rp_removed p) \<or> plan_needed p d e"
      using drop_pass_unchanged [of "sort (remdups (rp_candidates p))" p] by (simp_all add: r_def)
    then show ?thesis using u False 1(2) by simp
  qed
qed

section \<open>The start\<close>

lemma start_plan_fields:
  "rp_prefix (start_plan dec img es released) = manifest_path img []" "rp_entries (start_plan dec img es released) = es"
  "rp_removed (start_plan dec img es released) = []"
  "set (rp_candidates (start_plan dec img es released)) =
     (\<Union>(sha, body) \<in> set released. insert (''sha256:'' @ sha) (set (mr_manifests (parse_manifest_refs dec body))))"
  "set (rp_blobs (start_plan dec img es released)) = (\<Union>(sha, body) \<in> set released. set (mr_blobs (parse_manifest_refs dec body)))"
proof -
  define f where "f = (\<lambda>(sha, body) p. plan_release (parse_manifest_refs dec body) (p\<lparr> rp_candidates := rp_candidates p @ [''sha256:'' @ sha] \<rparr>))"
  have "rp_prefix (fold f released p) = rp_prefix p \<and> rp_entries (fold f released p) = rp_entries p \<and> rp_removed (fold f released p) = rp_removed p \<and>
      set (rp_candidates (fold f released p)) = set (rp_candidates p) \<union>
        (\<Union>(sha, body) \<in> set released. insert (''sha256:'' @ sha) (set (mr_manifests (parse_manifest_refs dec body)))) \<and>
      set (rp_blobs (fold f released p)) = set (rp_blobs p) \<union> (\<Union>(sha, body) \<in> set released. set (mr_blobs (parse_manifest_refs dec body)))" for p
  proof (induction released arbitrary: p)
    case (Cons x released)
    obtain sha body where x: "x = (sha, body)" by (cases x)
    have "f x p = plan_release (parse_manifest_refs dec body) (p\<lparr> rp_candidates := rp_candidates p @ [''sha256:'' @ sha] \<rparr>)" by (simp add: f_def x)
    then show ?case using Cons.IH [of "f x p"] x by auto
  qed simp
  note this [of "\<lparr> rp_prefix = manifest_path img [], rp_entries = es, rp_removed = [], rp_candidates = [], rp_blobs = [] \<rparr>"]
  then show "rp_prefix (start_plan dec img es released) = manifest_path img []" "rp_entries (start_plan dec img es released) = es"
    "rp_removed (start_plan dec img es released) = []"
    "set (rp_candidates (start_plan dec img es released)) =
       (\<Union>(sha, body) \<in> set released. insert (''sha256:'' @ sha) (set (mr_manifests (parse_manifest_refs dec body))))"
    "set (rp_blobs (start_plan dec img es released)) = (\<Union>(sha, body) \<in> set released. set (mr_blobs (parse_manifest_refs dec body)))"
    unfolding start_plan_def f_def [symmetric] by (simp_all only: release_plan.simps list.set(1) Un_empty_left)
qed

lemma plan_by_path_distinct:
  assumes "distinct (map (\<lambda>e. asset_path (re_asset e)) (rp_entries p))" "j < length (rp_entries p)"
  shows "plan_by_path p (asset_path (re_asset (rp_entries p ! j))) = Some j"
proof -
  let ?P = "\<lambda>i. asset_path (re_asset (rp_entries p ! i)) = asset_path (re_asset (rp_entries p ! j))"
  have u: "?P i \<Longrightarrow> i < length (rp_entries p) \<Longrightarrow> i = j" for i
    using assms nth_eq_iff_index_eq [OF assms(1), of i j] by simp
  have "find ?P (rev [0..<length (rp_entries p)]) \<noteq> None" using assms(2) by (auto simp: find_None_iff)
  then obtain i where i: "find ?P (rev [0..<length (rp_entries p)]) = Some i" by blast
  from find_mem [OF this] have "i = j" by (intro u) simp_all
  then show ?thesis using i by (simp add: plan_by_path_def)
qed

lemma release_plan_facts:
  assumes "q = drop_unneeded (start_plan dec img es released)" "distinct (map (\<lambda>e. asset_path (re_asset e)) es)"
  shows "rp_entries q = es \<and>
    (\<forall>j. j \<in> set (rp_removed q) \<longleftrightarrow> j < length es \<and> (\<exists>d \<in> set (rp_candidates q). asset_path (re_asset (es ! j)) = manifest_path img d \<and>
       (\<forall>i \<in> kept q. i \<noteq> j \<longrightarrow> \<not> uses_digest (es ! i) d))) \<and>
    set (rp_candidates q) =
      (\<Union>(sha, body) \<in> set released. insert (''sha256:'' @ sha) (set (mr_manifests (parse_manifest_refs dec body)))) \<union>
      (\<Union>j \<in> set (rp_removed q). set (mr_manifests (re_refs (es ! j)))) \<and>
    set (unused_blobs q) =
      ((\<Union>(sha, body) \<in> set released. set (mr_blobs (parse_manifest_refs dec body))) \<union>
       (\<Union>j \<in> set (rp_removed q). set (mr_blobs (re_refs (es ! j))))) - (\<Union>i \<in> kept q. set (mr_blobs (re_refs (es ! i))))"
proof -
  let ?p = "start_plan dec img es released"
  have "plan_sound ?p" by (simp add: plan_sound_def start_plan_fields)
  note r = drop_unneeded_result [OF this, folded assms(1)]
  have gr: "grows_from ?p q" and so: "plan_sound q"
    and full: "\<And>d e. d \<in> set (rp_candidates q) \<Longrightarrow> plan_by_path q (manifest_path img [] @ d) = Some e \<Longrightarrow> e \<in> set (rp_removed q) \<or> plan_needed q d e"
    using r unfolding start_plan_fields(1) by blast+
  have g: "rp_entries q = es" "rp_prefix q = manifest_path img []"
    "set (rp_candidates q) = set (rp_candidates ?p) \<union> (\<Union>j \<in> set (rp_removed q). set (mr_manifests (re_refs (es ! j))))"
    "set (rp_blobs q) = set (rp_blobs ?p) \<union> (\<Union>j \<in> set (rp_removed q). set (mr_blobs (re_refs (es ! j))))"
    using gr unfolding grows_from_def start_plan_fields(1-3) by simp_all
  have "j \<in> set (rp_removed q) \<longleftrightarrow> j < length es \<and> (\<exists>d \<in> set (rp_candidates q). asset_path (re_asset (es ! j)) = manifest_path img d \<and>
       (\<forall>i \<in> kept q. i \<noteq> j \<longrightarrow> \<not> uses_digest (es ! i) d))" (is "?l \<longleftrightarrow> ?r") for j
  proof
    assume ?l
    then obtain d where "j < length es" "asset_path (re_asset (es ! j)) = manifest_path img d" "d \<in> set (rp_candidates q)" "\<not> plan_needed q d j"
      using so unfolding plan_sound_def g(1,2) manifest_prefix by blast
    then show ?r using g(1) by (auto simp: plan_needed_iff)
  next
    assume ?r
    then obtain d where d: "j < length es" "d \<in> set (rp_candidates q)" "asset_path (re_asset (es ! j)) = manifest_path img d" "\<not> plan_needed q d j"
      using g(1) by (auto simp: plan_needed_iff)
    have "plan_by_path q (rp_prefix q @ d) = Some j"
      using plan_by_path_distinct [of q j] assms(2) d(1,3) g(1,2) by (simp add: manifest_prefix)
    then show ?l using full [OF d(2)] d(4) g(2) by simp
  qed
  moreover have "set (unused_blobs q) = set (rp_blobs q) - (\<Union>i \<in> kept q. set (mr_blobs (re_refs (es ! i))))"
    using g(1) by (auto simp: unused_blobs_def kept_def)
  ultimately show ?thesis using g(1) unfolding g(3,4) start_plan_fields(4,5) by blast
qed

lemma release_plan_removed:
  assumes "q = drop_unneeded (start_plan dec img es released)" "distinct (map (\<lambda>e. asset_path (re_asset e)) es)"
  shows "rp_entries q = es" "j \<in> set (rp_removed q) \<Longrightarrow> j < length es"
    "j \<in> set (rp_removed q) \<Longrightarrow> \<exists>d \<in> set (rp_candidates q). asset_path (re_asset (es ! j)) = manifest_path img d \<and>
       (\<forall>i \<in> kept q. i \<noteq> j \<longrightarrow> \<not> uses_digest (es ! i) d)"
    "set (plan_paths q) = (\<lambda>j. asset_path (re_asset (es ! j))) ` set (rp_removed q)"
proof -
  note f = release_plan_facts [OF assms]
  show eq: "rp_entries q = es" using f by (rule conjunct1)
  note r = f [THEN conjunct2, THEN conjunct1, rule_format, THEN iffD1]
  show "j \<in> set (rp_removed q) \<Longrightarrow> j < length es" using r by (rule conjunct1)
  show "j \<in> set (rp_removed q) \<Longrightarrow> \<exists>d \<in> set (rp_candidates q). asset_path (re_asset (es ! j)) = manifest_path img d \<and>
       (\<forall>i \<in> kept q. i \<noteq> j \<longrightarrow> \<not> uses_digest (es ! i) d)" using r by (rule conjunct2)
  show "set (plan_paths q) = (\<lambda>j. asset_path (re_asset (es ! j))) ` set (rp_removed q)" by (simp add: plan_paths_def eq)
qed

text \<open>
  C25: the release plan is exact. An entry of the image is dropped if and only if its reference is a
  candidate digest (one that was deleted, or that a deleted or dropped manifest names) and no other entry
  that stays uses it, as a tag that resolves to it or as a manifest that names it; and the blobs it gives
  up are exactly those a deleted or dropped manifest is built from and no entry that stays is.
\<close>

theorem release_plan_exact:
  assumes "q = drop_unneeded (start_plan dec img es released)" "distinct (map (\<lambda>e. asset_path (re_asset e)) es)"
  shows "rp_entries q = es \<and>
    (\<forall>j. j \<in> set (rp_removed q) \<longleftrightarrow> j < length es \<and> (\<exists>d \<in> set (rp_candidates q). asset_path (re_asset (es ! j)) = manifest_path img d \<and>
       (\<forall>i \<in> kept q. i \<noteq> j \<longrightarrow> \<not> uses_digest (es ! i) d))) \<and>
    set (rp_candidates q) =
      (\<Union>(sha, body) \<in> set released. insert (''sha256:'' @ sha) (set (mr_manifests (parse_manifest_refs dec body)))) \<union>
      (\<Union>j \<in> set (rp_removed q). set (mr_manifests (re_refs (es ! j)))) \<and>
    set (unused_blobs q) =
      ((\<Union>(sha, body) \<in> set released. set (mr_blobs (parse_manifest_refs dec body))) \<union>
       (\<Union>j \<in> set (rp_removed q). set (mr_blobs (re_refs (es ! j))))) - (\<Union>i \<in> kept q. set (mr_blobs (re_refs (es ! i))))"
  by (rule release_plan_facts [OF assms])

text \<open>An index and its child: the index's manifest was deleted, the child and the child's layer are given up.\<close>

definition demo_docs :: "bytes \<Rightarrow> manifest_doc option" where
  "demo_docs b =
     (if b = ''index'' then Some \<lparr> md_config = [], md_layers = [], md_manifests = [''sha256:c''], md_subject = None \<rparr>
      else if b = ''child'' then Some \<lparr> md_config = ''sha256:cfg'', md_layers = [''sha256:l1'', ''sha256:l2''], md_manifests = [], md_subject = None \<rparr>
      else if b = ''other'' then Some \<lparr> md_config = ''sha256:cfg2'', md_layers = [''sha256:l2''], md_manifests = [], md_subject = None \<rparr>
      else None)"

definition demo_entry :: "string \<Rightarrow> string \<Rightarrow> bytes \<Rightarrow> release_entry" where
  "demo_entry ref sha body =
     \<lparr> re_asset = (asset_for demo_ctx (demo_repo ''allow'') (manifest_path ''img'' ref) ''m'' ''s1'' ref
         \<lparr> sm_sha256 = sha, sm_sha1 = [], sm_md5 = [] \<rparr> 5), re_ref = ref, re_refs = parse_manifest_refs demo_docs body \<rparr>"

definition demo_plan :: release_plan where
  "demo_plan = drop_unneeded (start_plan demo_docs ''img'' [demo_entry ''sha256:c'' ''c'' ''child'', demo_entry ''v2'' ''o'' ''other''] [(''i'', ''index'')])"

theorem release_plan_exact_witness:
  "rp_removed demo_plan = [0] \<and> set (unused_blobs demo_plan) = {''sha256:cfg'', ''sha256:l1''} \<and>
   set (rp_candidates demo_plan) = {''sha256:i'', ''sha256:c''}"
proof -
  have d: "distinct (map (\<lambda>e. asset_path (re_asset e)) [demo_entry ''sha256:c'' ''c'' ''child'', demo_entry ''v2'' ''o'' ''other''])" by code_simp
  note t = release_plan_exact [OF demo_plan_def d]
  have 0: "rp_removed demo_plan = [0]" by code_simp
  have k: "kept demo_plan = {1}" using t [THEN conjunct1] unfolding kept_def 0 by auto
  have "set (unused_blobs demo_plan) = {''sha256:cfg'', ''sha256:l1''}"
    using t [THEN conjunct2, THEN conjunct2, THEN conjunct2] unfolding k 0
    by (simp add: demo_entry_def parse_manifest_refs_def demo_docs_def) blast
  moreover have "set (rp_candidates demo_plan) = {''sha256:i'', ''sha256:c''}"
    using t [THEN conjunct2, THEN conjunct2, THEN conjunct1] unfolding 0
    by (simp add: demo_entry_def parse_manifest_refs_def demo_docs_def)
  ultimately show ?thesis using 0 by simp
qed

end
