(* ===== verification/Oci_Delete.thy ===== *)
theory Oci_Delete
  imports Oci_Release_Plan
begin

text \<open>
  What deleting a manifest by digest leaves: the manifests that stay keep everything they name.
\<close>

section \<open>Frames\<close>

lemma intact_content: "intact obj valid good env w \<Longrightarrow> content obj env w rn path = None \<longleftrightarrow> row_at w rn path = None"
  unfolding intact_def content_def by (auto split: option.split) (metis option.distinct(1))

lemma manifest_path_eq [simp]: "manifest_path img r = manifest_path img r' \<longleftrightarrow> r = r'"
  by (simp add: manifest_path_def)

lemma blob_path_eq [simp]: "blob_path img r = blob_path img r' \<longleftrightarrow> r = r'"
  by (simp add: blob_path_def)

lemma blob_manifest_path [simp]: "blob_path img r \<noteq> manifest_path img' r'" "manifest_path img' r' \<noteq> blob_path img r"
  by (simp_all add: blob_path_def manifest_path_def)

lemma delete_artifact_fail: "sw_fail (snd (delete_artifact env w rn path)) = sw_fail w"
proof -
  have p: "sw_fail (snd (physical_store env v ob)) = sw_fail v" for v ob
    by (auto simp: physical_store_def split: option.split prod.split if_splits)
  then have aps: "sw_fail (snd (asset_physical_store env v a)) = sw_fail v" for v a
    by (auto simp: asset_physical_store_def split: option.split)
  have del: "sw_fail (snd (delete_locked_asset env rn path a q v)) = sw_fail v" for a q v
    by (auto simp: delete_locked_asset_def assets_delete_def phys_delete_def Let_def split: sum.split option.split)
  have lock: "sw_fail (snd (with_lock k (delete_locked_asset env rn path a q) v)) = sw_fail v" for k a q v
    using del [of a q v] by (auto simp: with_lock_def split: sum.split prod.split)
  have dec: "sw_fail (decrement_usage v a) = sw_fail v" for v a
    by (auto simp: decrement_usage_def update_used_bytes_def split: option.split)
  have "sw_fail v2 = sw_fail w"
    if "asset_physical_store env w a = (r1, v1)" "with_lock (asset_blob_key a) (delete_locked_asset env rn path a q) v1 = (r2, v2)" for a q r1 r2 v1 v2
    using aps [of w a] lock [of "asset_blob_key a" a q v1] that by simp
  then show ?thesis
    using aps unfolding delete_artifact_def by (auto simp: dec Let_def split: sum.split prod.split option.split) (metis snd_conv)+
qed

context blob_store_laws
begin

lemma read_asset_row:
  assumes "read_asset env a w = (r, w')" "row_at w rn path = Some a" "se_ops env = ops" "intact obj valid good env w" "tables_ok w" "registry_ok env w"
  shows "registry_step env w w' \<and> (\<forall>c. r = Some c \<longrightarrow> content obj env w rn path = Some c)"
proof -
  let ?i = "asset_blob_store_id a"
  obtain p w1 where ps: "(if ?i = [] then (Inr (default_space w), w)
      else case stores_by_id w 14 ?i of None \<Rightarrow> (Inl Pe_Db, w) | Some b \<Rightarrow> physical_store env w (Some b)) = (p, w1)"
    by (metis surj_pair)
  have s: "registry_step env w w1 \<and> (\<forall>q. p = Inr q \<longrightarrow> q = store_space env w ?i)"
  proof (cases "?i = []")
    case True
    then show ?thesis using ps by (auto simp: store_space_def default_space_def trim_space_def)
  next
    case False
    show ?thesis
    proof (cases "stores_by_id w 14 ?i")
      case None
      then show ?thesis using ps False by auto
    next
      case (Some b)
      then have "b \<in> set (sw_stores w)" "bs_id b = ?i" by (auto simp: stores_by_id_def dest!: find_mem split: if_splits)
      then show ?thesis using physical_store_some [of env w b p w1] ps Some False assms(5,6) by simp
    qed
  qed
  have w': "w' = w1" using assms(1) unfolding read_asset_def ps by (auto split: sum.splits)
  have "content obj env w rn path = Some c" if rc: "r = Some c" for c
  proof -
    obtain q n where q: "p = Inr q" "bo_get ops (sw_phys w1 q) (asset_blob_key a) = Inr (c, n)"
      using assms(1,3) rc unfolding read_asset_def ps by (auto split: sum.splits)
    have "sw_phys w1 = sw_phys w" using registry_step_fields(3) s by blast
    moreover have "valid (asset_blob_key a)" "good (sw_phys w q)" using assms(2,4) by (auto simp: intact_def)
    ultimately show ?thesis using get_obj [OF _ _ q(2)] s q(1) assms(2) by (simp add: content_def row_obj_def)
  qed
  then show ?thesis using s w' by simp
qed

text \<open>Deleting a list of paths.\<close>

lemma delete_paths_view:
  assumes "delete_paths env rn paths w = (ok, w')" "se_ops env = ops" "intact obj valid good env w" "tables_ok w" "registry_ok env w"
  shows "tables_ok w' \<and> registry_ok env w' \<and> intact obj valid good env w' \<and>
    (\<forall>rn' path. (rn', path) \<notin> {rn} \<times> set paths \<longrightarrow> content obj env w' rn' path = content obj env w rn' path) \<and>
    (\<forall>path. content obj env w rn path = None \<longrightarrow> content obj env w' rn path = None) \<and>
    (ok \<longrightarrow> (\<forall>path \<in> set paths. content obj env w' rn path = None))"
  using assms(1,3-5)
proof (induction paths arbitrary: w)
  case (Cons path rest)
  obtain r w1 where d: "delete_artifact env w rn path = (r, w1)" by (cases "delete_artifact env w rn path")
  note v = delete_view [OF d assms(2) Cons.prems(2-4)]
  have none: "content obj env w rn p = None \<Longrightarrow> content obj env w1 rn p = None" for p
    using v by (cases "p = path") (auto simp: content_def split: sum.splits)
  show ?case
  proof (cases r)
    case (Inl e)
    then have "w' = w1" "\<not> ok" using Cons.prems(1) d by auto
    then show ?thesis using v none by auto
  next
    case (Inr u)
    then have rest: "delete_paths env rn rest w1 = (ok, w')" using Cons.prems(1) d by simp
    have pre: "intact obj valid good env w1" "tables_ok w1" "registry_ok env w1" using v by simp_all
    note IH = Cons.IH [OF rest pre]
    have "content obj env w1 rn path = None" using v Inr by (simp add: content_def)
    then show ?thesis using IH v none by auto
  qed
qed simp

lemma delete_targets_view:
  assumes "delete_targets env rn paths released w = (r, w')" "se_ops env = ops" "intact obj valid good env w" "tables_ok w" "registry_ok env w"
  shows "tables_ok w' \<and> registry_ok env w' \<and> intact obj valid good env w' \<and> sw_fail w' = sw_fail w \<and>
    (\<forall>rn' path. (rn', path) \<notin> {rn} \<times> set paths \<longrightarrow> content obj env w' rn' path = content obj env w rn' path) \<and>
    (\<forall>path. content obj env w' rn path = None \<or> content obj env w' rn path = content obj env w rn path) \<and>
    (\<forall>rel. r = Some rel \<longrightarrow> (\<forall>x \<in> set rel. x \<in> set released \<or> (\<exists>path \<in> set paths. content obj env w rn path = Some (snd x))) \<and>
       (\<not> sw_fail w (S_Asset_By_Path 10) \<longrightarrow> (\<forall>path \<in> set paths. content obj env w' rn path = None)))"
  using assms(1,3-5)
proof (induction paths arbitrary: w released)
  case (Cons path rest)
  show ?case
  proof (cases "assets_by_path w 10 rn path")
    case (Inl e)
    then have "sw_fail w (S_Asset_By_Path 10)" "delete_targets env rn rest released w = (r, w')"
      using Cons.prems(1) by (auto simp: assets_by_path_def split: if_splits)
    then show ?thesis using Cons.IH [OF _ Cons.prems(2-4)] by auto
  next
    case (Inr oa)
    then have oa: "oa = row_at w rn path" by (simp add: assets_by_path_def row_at_def split: if_splits)
    show ?thesis
    proof (cases oa)
      case None
      then have d: "delete_targets env rn rest released w = (r, w')" using Cons.prems(1) Inr by simp
      note IH = Cons.IH [OF d Cons.prems(2-4)]
      have "content obj env w rn path = None" using None oa by (simp add: content_def)
      then have "content obj env w' rn path = None" using IH by metis
      then show ?thesis using IH by auto
    next
      case (Some a)
      obtain b w1 where ra: "read_asset env a w = (b, w1)" by (cases "read_asset env a w")
      note s = read_asset_row [OF ra oa [symmetric, unfolded Some] assms(2) Cons.prems(2-4)]
      have s1: "registry_step env w w1" using s by simp
      note f = registry_step_fields [OF s1] and v1 = registry_step_views [OF s1]
      have pre1: "intact obj valid good env w1" "tables_ok w1" "registry_ok env w1"
        using Cons.prems(2-4) v1(2) f(12) registry_step_ok [OF s1] by simp_all
      show ?thesis
      proof (cases b)
        case None
        then have "r = None" "w' = w1" using Cons.prems(1) Inr Some ra by simp_all
        then show ?thesis using pre1 v1(1) f(6) by simp
      next
        case b: (Some body)
        obtain r2 w2 where d: "delete_artifact env w1 rn path = (r2, w2)" by (cases "delete_artifact env w1 rn path")
        note v2 = delete_view [OF d assms(2) pre1, unfolded v1(1)]
        have fl: "sw_fail w2 = sw_fail w" using delete_artifact_fail [of env w1 rn path] d f(6) by simp
        have cn: "content obj env w2 rn p = None \<or> content obj env w2 rn p = content obj env w rn p" for p
          using v2 by (cases "p = path") (auto simp: content_def split: sum.splits)
        have pre2: "intact obj valid good env w2" "tables_ok w2" "registry_ok env w2" using v2 by simp_all
        show ?thesis
        proof (cases r2)
          case (Inl e)
          then have "r = None" "w' = w2" using Cons.prems(1) Inr Some ra b d by simp_all
          then show ?thesis using pre2 v2 fl cn by auto
        next
          case (Inr u)
          then have t: "delete_targets env rn rest (AList.update (asset_sha256 a) body released) w2 = (r, w')"
            using Cons.prems(1) \<open>assets_by_path w 10 rn path = Inr oa\<close> Some ra b d by simp
          note IH = Cons.IH [OF t pre2]
          have gone: "content obj env w2 rn path = None" using v2 Inr by (simp add: content_def)
          have body: "content obj env w rn path = Some body" using s b by simp
          have upd: "x \<in> set (AList.update (asset_sha256 a) body released) \<Longrightarrow> x \<in> set released \<or> snd x = body" for x
            by (induction released) (auto split: if_splits)
          have rel: "x \<in> set released \<or> (\<exists>p \<in> set (path # rest). content obj env w rn p = Some (snd x))" if "r = Some rel" "x \<in> set rel" for rel x
            using IH that upd [of x] body cn by (metis list.set_intros option.distinct(1))
          have "content obj env w' rn p = None \<or> content obj env w' rn p = content obj env w rn p" for p
            using IH cn [of p] by metis
          moreover have "content obj env w' rn' p = content obj env w rn' p" if "(rn', p) \<notin> {rn} \<times> set (path # rest)" for rn' p
            using IH v2 that by auto
          moreover have "content obj env w' rn path = None" using IH gone by metis
          ultimately show ?thesis using IH rel fl by auto
        qed
      qed
    qed
  qed
qed auto

end

section \<open>The manifests that stay\<close>

text \<open>The image's own manifests: a reference is one segment.\<close>

definition one_segment :: "string \<Rightarrow> bool" where
  "one_segment r \<longleftrightarrow> r \<noteq> [] \<and> slash \<notin> set r"

text \<open>
  A \<open>ManifestReader\<close>: on worlds it is usable in, it changes nothing but the registry and answers the
  content of the row. The handler and the cleanup service each have one.
\<close>

locale manifest_reader = blob_store_laws +
  fixes read :: "'a store_env \<Rightarrow> asset \<Rightarrow> 'a store_world \<Rightarrow> bytes option \<times> 'a store_world"
    and usable :: "'a store_env \<Rightarrow> 'a store_world \<Rightarrow> bool"
  assumes read_row: "read env a w = (r, w') \<Longrightarrow> row_at w rn path = Some a \<Longrightarrow> se_ops env = ops \<Longrightarrow> intact obj valid good env w \<Longrightarrow>
      tables_ok w \<Longrightarrow> registry_ok env w \<Longrightarrow> usable env w \<Longrightarrow>
      registry_step env w w' \<and> usable env w' \<and> (\<forall>c. r = Some c \<longrightarrow> content obj env w rn path = Some c)"
begin

lemma plan_load_reads:
  assumes "plan_load (read env) dec prefix listed w = (r, w')" "\<And>a. a \<in> set listed \<Longrightarrow> row_at w rn (asset_path a) = Some a"
    "se_ops env = ops" "intact obj valid good env w" "tables_ok w" "registry_ok env w" "usable env w"
  shows "registry_step env w w' \<and> usable env w' \<and>
    (\<forall>es. r = Some es \<longrightarrow> map re_asset es = filter (\<lambda>a. let ref = trim_prefix (asset_path a) prefix in ref \<noteq> [] \<and> slash \<notin> set ref) listed \<and>
       (\<forall>e \<in> set es. re_ref e = trim_prefix (asset_path (re_asset e)) prefix \<and>
          (\<exists>body. content obj env w rn (asset_path (re_asset e)) = Some body \<and> re_refs e = parse_manifest_refs dec body)))"
  using assms(1,2,4-7)
proof (induction listed arbitrary: w w' r)
  case (Cons a rest)
  let ?ref = "trim_prefix (asset_path a) prefix"
  show ?case
  proof (cases "?ref = [] \<or> slash \<in> set ?ref")
    case True
    then have "plan_load (read env) dec prefix rest w = (r, w')" using Cons.prems(1) by (simp add: Let_def)
    from Cons.IH [OF this Cons.prems(2-6)] True show ?thesis by (auto simp: Let_def)
  next
    case False
    obtain b w1 where ra: "read env a w = (b, w1)" by (cases "read env a w")
    have "row_at w rn (asset_path a) = Some a" using Cons.prems(2) by simp
    note s = read_row [OF ra this assms(3) Cons.prems(3-6)]
    have s1: "registry_step env w w1" using s by simp
    note f = registry_step_fields [OF s1] and v = registry_step_views [OF s1]
    show ?thesis
    proof (cases b)
      case None
      then show ?thesis using Cons.prems(1) ra False s1 s [THEN conjunct2, THEN conjunct1] by (simp add: Let_def)
    next
      case (Some body)
      obtain r2 w2 where rest: "plan_load (read env) dec prefix rest w1 = (r2, w2)" by (cases "plan_load (read env) dec prefix rest w1")
      have pre: "intact obj valid good env w1" "tables_ok w1" "registry_ok env w1" "usable env w1"
        using s Cons.prems(3-5) v(2) f(12) registry_step_ok [OF s1] by simp_all
      note IH = Cons.IH [OF rest _ pre, unfolded f(10) v(1)]
      have r: "w' = w2" "r = map_option (\<lambda>es. \<lparr> re_asset = a, re_ref = ?ref, re_refs = parse_manifest_refs dec body \<rparr> # es) r2"
        using Cons.prems(1) ra False Some rest by (auto simp: Let_def split: option.splits)
      have "content obj env w rn (asset_path a) = Some body" using s Some by simp
      then show ?thesis using IH Cons.prems(2) r registry_step_trans [OF s1] False by (auto simp: Let_def)
    qed
  qed
qed auto

lemma planned_entries:
  assumes "plan_image_release (read env) dec rn img released w = (Some paths, w')"
    "se_ops env = ops" "intact obj valid good env w" "tables_ok w" "registry_ok env w" "usable env w"
  obtains es q where "registry_step env w w'" "q = drop_unneeded (start_plan dec img es released)"
    "distinct (map (\<lambda>e. asset_path (re_asset e)) es)"
    "set paths = set (plan_paths q) \<union> {blob_path img b |b. b \<in> set (unused_blobs q) \<and> row_at w rn (blob_path img b) \<noteq> None \<and> \<not> sw_fail w (S_Asset_By_Path 9)}"
    "\<And>e. e \<in> set es \<Longrightarrow> one_segment (re_ref e) \<and> asset_path (re_asset e) = manifest_path img (re_ref e) \<and>
       row_at w rn (manifest_path img (re_ref e)) = Some (re_asset e) \<and>
       (\<exists>body. content obj env w rn (manifest_path img (re_ref e)) = Some body \<and> re_refs e = parse_manifest_refs dec body)"
    "\<And>r a. one_segment r \<Longrightarrow> row_at w rn (manifest_path img r) = Some a \<Longrightarrow> \<exists>e \<in> set es. re_ref e = r"
proof -
  let ?pre = "manifest_path img []"
  obtain listed where l: "list_by_repo_and_path w 1 rn ?pre = Some listed"
    using assms(1) by (auto simp: plan_image_release_def split: option.splits)
  have mem: "a \<in> set listed \<longleftrightarrow> a \<in> set (sw_assets w) \<and> asset_repository a = rn \<and> has_prefix (asset_path a) ?pre" for a
    using l by (auto simp: list_by_repo_and_path_def split: if_splits)
  have rows: "row_at w rn (asset_path a) = Some a" if "a \<in> set listed" for a
    using that row_at_self [OF assms(4), of a] unfolding mem by auto
  obtain es w1 where pl: "plan_load (read env) dec ?pre listed w = (Some es, w1)"
    using assms(1) l by (auto simp: plan_image_release_def Let_def split: option.splits prod.splits)
  note s = plan_load_reads [OF pl rows assms(2-6)]
  have s1: "registry_step env w w1" and s2: "map re_asset es = filter (\<lambda>a. one_segment (trim_prefix (asset_path a) ?pre)) listed"
    using s by (simp_all add: one_segment_def Let_def)
  note f = registry_step_fields [OF s1]
  define q where "q = drop_unneeded (start_plan dec img es released)"
  have p: "paths = plan_paths q @ sort (filter (\<lambda>path. case assets_by_path w1 9 rn path of Inr (Some _) \<Rightarrow> True | _ \<Rightarrow> False) (map (blob_path img) (unused_blobs q)))" "w' = w1"
    using assms(1) unfolding plan_image_release_def l option.case pl prod.case Let_def q_def by auto
  have look: "(case assets_by_path w1 9 rn path of Inr (Some _) \<Rightarrow> True | _ \<Rightarrow> False) \<longleftrightarrow> row_at w rn path \<noteq> None \<and> \<not> sw_fail w (S_Asset_By_Path 9)" for path
    using f(1,6) by (auto simp: assets_by_path_def row_at_def split: option.splits)
  have "distinct (map asset_path listed)"
  proof -
    have "distinct (map (\<lambda>a. (asset_repository a, asset_path a)) (sw_assets w))" using assms(4) by (simp add: tables_ok_def)
    then have "distinct (map (\<lambda>a. (asset_repository a, asset_path a)) (filter (\<lambda>a. asset_repository a = rn \<and> has_prefix (asset_path a) ?pre) (sw_assets w)))"
      by (rule distinct_map_filter)
    then have d: "distinct (map asset_path (filter (\<lambda>a. asset_repository a = rn \<and> has_prefix (asset_path a) ?pre) (sw_assets w)))"
      by (auto simp: distinct_map inj_on_def)
    have "listed = sort_key asset_path (filter (\<lambda>a. asset_repository a = rn \<and> has_prefix (asset_path a) ?pre) (sw_assets w))"
      using l by (simp add: list_by_repo_and_path_def split: if_splits)
    then show ?thesis using d by (simp add: distinct_map)
  qed
  then have dist: "distinct (map (\<lambda>e. asset_path (re_asset e)) es)"
  proof -
    have "map (\<lambda>e. asset_path (re_asset e)) es = map asset_path (map re_asset es)" by simp
    then show ?thesis using \<open>distinct (map asset_path listed)\<close> unfolding s2 by (simp add: distinct_map_filter)
  qed
  have ent: "one_segment (re_ref e) \<and> asset_path (re_asset e) = manifest_path img (re_ref e) \<and>
       row_at w rn (manifest_path img (re_ref e)) = Some (re_asset e) \<and>
       (\<exists>body. content obj env w rn (manifest_path img (re_ref e)) = Some body \<and> re_refs e = parse_manifest_refs dec body)"
    if "e \<in> set es" for e
  proof -
    have "re_asset e \<in> set (map re_asset es)" using that by simp
    then have m: "re_asset e \<in> set listed" "one_segment (trim_prefix (asset_path (re_asset e)) ?pre)" unfolding s2 by simp_all
    have r: "re_ref e = trim_prefix (asset_path (re_asset e)) ?pre" and c: "\<exists>body. content obj env w rn (asset_path (re_asset e)) = Some body \<and> re_refs e = parse_manifest_refs dec body"
      using s that by auto
    have "asset_path (re_asset e) = ?pre @ re_ref e" using m(1) r unfolding mem by (auto simp: has_prefix_iff trim_prefix_def)
    then have path: "asset_path (re_asset e) = manifest_path img (re_ref e)" by (simp add: manifest_prefix)
    then show ?thesis using rows [OF m(1)] m(2) r c by simp
  qed
  have all: "\<exists>e \<in> set es. re_ref e = r" if "one_segment r" "row_at w rn (manifest_path img r) = Some a" for r a
  proof -
    note m = row_at_mem [OF that(2)]
    have path: "asset_path a = ?pre @ r" using m by (simp add: manifest_prefix)
    then have "a \<in> set listed" "trim_prefix (asset_path a) ?pre = r" using m unfolding mem by (auto simp: trim_prefix_def)
    then have "a \<in> set (map re_asset es)" using that(1) unfolding s2 by simp
    then obtain e where e: "e \<in> set es" "re_asset e = a" by auto
    have "manifest_path img (re_ref e) = manifest_path img r" using ent [OF e(1)] e(2) m by simp
    then show ?thesis using e(1) by auto
  qed
  show thesis
    by (rule that [OF s1 [folded p(2)] q_def dist _ ent all]) (auto simp: p(1) look)
qed

text \<open>What such a release leaves of the image, given that named digests contain a colon.\<close>

lemma planned_release_keeps:
  assumes pl: "plan_image_release (read env) dec rn img released w = (Some paths, w')"
    and st: "se_ops env = ops" "intact obj valid good env w" "tables_ok w" "registry_ok env w" "usable env w"
    and del: "delete_paths env rn paths w' = (True, w2)"
    and r: "one_segment r" "content obj env w2 rn (manifest_path img r) = Some body"
  shows "content obj env w rn (manifest_path img r) = Some body"
    "b \<in> set (mr_blobs (parse_manifest_refs dec body)) \<Longrightarrow> content obj env w2 rn (blob_path img b) = content obj env w rn (blob_path img b)"
    "m \<in> set (mr_manifests (parse_manifest_refs dec body)) \<Longrightarrow> m \<noteq> r \<Longrightarrow>
       content obj env w2 rn (manifest_path img m) = content obj env w rn (manifest_path img m)"
proof -
  obtain es q where s: "registry_step env w w'" and q: "q = drop_unneeded (start_plan dec img es released)"
    and d: "distinct (map (\<lambda>e. asset_path (re_asset e)) es)"
    and ps: "set paths = set (plan_paths q) \<union> {blob_path img b |b. b \<in> set (unused_blobs q) \<and> row_at w rn (blob_path img b) \<noteq> None \<and> \<not> sw_fail w (S_Asset_By_Path 9)}"
    and ent: "\<And>e. e \<in> set es \<Longrightarrow> one_segment (re_ref e) \<and> asset_path (re_asset e) = manifest_path img (re_ref e) \<and>
       row_at w rn (manifest_path img (re_ref e)) = Some (re_asset e) \<and>
       (\<exists>body. content obj env w rn (manifest_path img (re_ref e)) = Some body \<and> re_refs e = parse_manifest_refs dec body)"
    and all: "\<And>r a. one_segment r \<Longrightarrow> row_at w rn (manifest_path img r) = Some a \<Longrightarrow> \<exists>e \<in> set es. re_ref e = r"
    by (rule planned_entries [OF pl st]) (rule that; assumption)
  note v = registry_step_views [OF s] and f = registry_step_fields [OF s]
  have pre: "intact obj valid good env w'" "tables_ok w'" "registry_ok env w'" using st v(2) f(12) registry_step_ok [OF s] by simp_all
  note dv = delete_paths_view [OF del st(1) pre, unfolded v(1)]
  note ex = release_plan_facts [OF q d] and rm = release_plan_removed [OF q d]
  have same: "content obj env w2 rn path = content obj env w rn path" if "path \<notin> set paths" for path using dv that by blast
  have out: "manifest_path img r \<notin> set paths" using dv r(2) by auto
  show c: "content obj env w rn (manifest_path img r) = Some body" using same [OF out] r(2) by simp
  then obtain a where "row_at w rn (manifest_path img r) = Some a" by (auto simp: content_def split: option.splits)
  from all [OF r(1) this] obtain e where e: "e \<in> set es" "re_ref e = r" by blast
  then obtain i where i: "i < length es" "es ! i = e" by (auto simp: in_set_conv_nth)
  obtain body' where "content obj env w rn (manifest_path img (re_ref e)) = Some body'" "re_refs e = parse_manifest_refs dec body'"
    using ent [OF e(1)] by blast
  then have refs: "re_refs e = parse_manifest_refs dec body" using c e(2) by simp
  note eq = rm(1) and rl = rm(2)
  note pp = rm(4)
  have ki: "i \<in> kept q"
  proof -
    have "i \<notin> set (rp_removed q)"
    proof
      assume "i \<in> set (rp_removed q)"
      then have "asset_path (re_asset (es ! i)) \<in> set paths" unfolding ps pp by blast
      then show False using out ent [OF e(1)] i(2) e(2) by simp
    qed
    then show ?thesis using i(1) by (simp add: kept_def eq)
  qed
  have un: "set (unused_blobs q) \<inter> set (mr_blobs (re_refs e)) = {}" using ex ki i(2) by blast
  have mans: "manifest_path img x \<in> set paths \<longleftrightarrow> manifest_path img x \<in> set (plan_paths q)" for x unfolding ps by auto
  show "content obj env w2 rn (blob_path img b) = content obj env w rn (blob_path img b)"
    if "b \<in> set (mr_blobs (parse_manifest_refs dec body))"
  proof (rule same)
    have "blob_path img b \<notin> set (plan_paths q)"
    proof
      assume "blob_path img b \<in> set (plan_paths q)"
      then obtain j where "j \<in> set (rp_removed q)" "blob_path img b = asset_path (re_asset (es ! j))" unfolding pp by auto
      then show False using ent [OF nth_mem [OF rl [of j]]] by (metis blob_manifest_path(1))
    qed
    then show "blob_path img b \<notin> set paths" using un that refs unfolding ps by auto
  qed
  show "content obj env w2 rn (manifest_path img m) = content obj env w rn (manifest_path img m)"
    if m: "m \<in> set (mr_manifests (parse_manifest_refs dec body))" "m \<noteq> r"
  proof (rule same)
    show "manifest_path img m \<notin> set paths"
    proof
      assume "manifest_path img m \<in> set paths"
      then obtain j where j: "j \<in> set (rp_removed q)" "manifest_path img m = asset_path (re_asset (es ! j))" unfolding mans pp by auto
      obtain d' where d': "asset_path (re_asset (es ! j)) = manifest_path img d'" "\<forall>i \<in> kept q. i \<noteq> j \<longrightarrow> \<not> uses_digest (es ! i) d'"
        using rm(3) [OF j(1)] by blast
      have "d' = m" using d'(1) j(2) by simp
      moreover have "i \<noteq> j" using j(2) m(2) ent [OF e(1)] i(2) e(2) by auto
      ultimately show False using d'(2) ki m(1) refs i(2) by (auto simp: uses_digest_def)
    qed
  qed
qed

text \<open>A tag is never planned, as long as the digests that manifests name contain a colon.\<close>

lemma planned_release_keeps_tag:
  assumes pl: "plan_image_release (read env) dec rn img released w = (Some paths, w')"
    and st: "se_ops env = ops" "intact obj valid good env w" "tables_ok w" "registry_ok env w" "usable env w"
    and named: "\<And>sha body m. (sha, body) \<in> set released \<Longrightarrow> m \<in> set (mr_manifests (parse_manifest_refs dec body)) \<Longrightarrow> CHR '':'' \<in> set m"
      "\<And>r body m. content obj env w rn (manifest_path img r) = Some body \<Longrightarrow> m \<in> set (mr_manifests (parse_manifest_refs dec body)) \<Longrightarrow> CHR '':'' \<in> set m"
    and t: "CHR '':'' \<notin> set t"
  shows "manifest_path img t \<notin> set paths"
proof
  assume "manifest_path img t \<in> set paths"
  moreover obtain es q where q: "q = drop_unneeded (start_plan dec img es released)"
    and d: "distinct (map (\<lambda>e. asset_path (re_asset e)) es)"
    and ps: "set paths = set (plan_paths q) \<union> {blob_path img b |b. b \<in> set (unused_blobs q) \<and> row_at w rn (blob_path img b) \<noteq> None \<and> \<not> sw_fail w (S_Asset_By_Path 9)}"
    and ent: "\<And>e. e \<in> set es \<Longrightarrow> one_segment (re_ref e) \<and> asset_path (re_asset e) = manifest_path img (re_ref e) \<and>
       row_at w rn (manifest_path img (re_ref e)) = Some (re_asset e) \<and>
       (\<exists>body. content obj env w rn (manifest_path img (re_ref e)) = Some body \<and> re_refs e = parse_manifest_refs dec body)"
    by (rule planned_entries [OF pl st]) (rule that; assumption)
  note ex = release_plan_facts [OF q d] and rm = release_plan_removed [OF q d]
  note eq = rm(1) and rl = rm(2)
  ultimately obtain j where j: "j \<in> set (rp_removed q)" "manifest_path img t = asset_path (re_asset (es ! j))"
    unfolding ps rm(4) by auto
  obtain d' where d': "d' \<in> set (rp_candidates q)" "asset_path (re_asset (es ! j)) = manifest_path img d'"
    using rm(3) [OF j(1)] by blast
  have "\<exists>body. content obj env w rn (manifest_path img (re_ref (es ! k))) = Some body \<and> re_refs (es ! k) = parse_manifest_refs dec body"
    if "k \<in> set (rp_removed q)" for k
    using ent [OF nth_mem [OF rl [OF that]]] by blast
  then have "CHR '':'' \<in> set m" if "k \<in> set (rp_removed q)" "m \<in> set (mr_manifests (re_refs (es ! k)))" for k m
    using named(2) that by metis
  then have "CHR '':'' \<in> set d'"
    using d'(1) named(1) unfolding ex [THEN conjunct2, THEN conjunct2, THEN conjunct1] by fastforce
  moreover have "d' = t" using d'(2) j(2) by simp
  ultimately show False using t by simp
qed

end

interpretation handler_reader: manifest_reader local_ops local_obj valid_key entry_key local_good read_asset "\<lambda>_ _. True"
  by unfold_locales (use local_blobs.read_asset_row in blast)

lemma delete_orphans_views:
  "content obj env (delete_orphans w rn) = content obj env w" "intact obj valid good env (delete_orphans w rn) = intact obj valid good env w"
  "tables_ok (delete_orphans w rn) = tables_ok w" "registry_ok env (delete_orphans w rn) = registry_ok env w"
proof -
  obtain cs where c: "delete_orphans w rn = w\<lparr> sw_comps := cs \<rparr>"
    by (cases "sw_fail w S_Orphans") (auto simp: delete_orphans_def intro: that [of "sw_comps w"])
  have r: "row_at (w\<lparr> sw_comps := cs \<rparr>) = row_at w" "row_obj obj env (w\<lparr> sw_comps := cs \<rparr>) = row_obj obj env w"
    by (simp_all add: row_at_def row_obj_def store_space_def fun_eq_iff cong: if_cong option.case_cong)
  show "content obj env (delete_orphans w rn) = content obj env w" "intact obj valid good env (delete_orphans w rn) = intact obj valid good env w"
    "tables_ok (delete_orphans w rn) = tables_ok w" "registry_ok env (delete_orphans w rn) = registry_ok env w"
    by (simp_all add: c content_def intact_def r tables_ok_def registry_ok_def fun_eq_iff cong: option.case_cong)
qed

section \<open>Deleting a manifest by digest\<close>

lemma tags_resolving_paths:
  assumes "tags_resolving_to w rn img sha = Some tags" "tables_ok w"
  shows "manifest_path img x \<in> set tags \<longleftrightarrow> one_segment x \<and> CHR '':'' \<notin> set x \<and> (\<exists>a. row_at w rn (manifest_path img x) = Some a \<and> asset_sha256 a = sha)"
    and "path \<in> set tags \<Longrightarrow> \<exists>x. path = manifest_path img x"
proof -
  let ?pre = "manifest_path img []"
  have mem: "path \<in> set tags \<longleftrightarrow> (\<exists>a \<in> set (sw_assets w). asset_repository a = rn \<and> has_prefix (asset_path a) ?pre \<and> asset_path a = path \<and>
      one_segment (trim_prefix path ?pre) \<and> CHR '':'' \<notin> set (trim_prefix path ?pre) \<and> asset_sha256 a = sha)" for path
    using assms(1) by (auto simp: tags_resolving_to_def list_by_repo_and_path_def one_segment_def Let_def split: option.splits if_splits)
  show "\<exists>x. path = manifest_path img x" if "path \<in> set tags"
    using that manifest_prefix unfolding mem has_prefix_iff by metis
  have tr: "trim_prefix (manifest_path img x) ?pre = x" "has_prefix (manifest_path img x) ?pre"
    by (simp_all add: trim_prefix_def manifest_prefix [of img x, symmetric])
  show "manifest_path img x \<in> set tags \<longleftrightarrow> one_segment x \<and> CHR '':'' \<notin> set x \<and> (\<exists>a. row_at w rn (manifest_path img x) = Some a \<and> asset_sha256 a = sha)"
    unfolding mem tr using row_at_self [OF assms(2)] row_at_mem [of w rn "manifest_path img x"] tr(2) by (metis (no_types, lifting))
qed

text \<open>
  C24: deleting a manifest by digest takes the manifest and the tags that resolve to it, and nothing a
  remaining manifest uses. After a reply \<open>202\<close> the digest answers nothing, a tag is gone if and only if it
  resolved to the digest, and every manifest of the image that is still there has its old bytes, every
  blob it is built from and every manifest it names, the deleted one apart; nothing outside the image's
  manifests and blobs changes. The digests that stored manifests name must contain a colon (one that
  equals a tag's name would take the tag), and the lookup before each deletion must not fail (the code
  skips the path then, and still answers \<open>202\<close>).
\<close>

theorem manifest_delete_keeps_users:
  assumes "delete_manifest env dec rn img reference w = ((202, []), w')" "CHR '':'' \<in> set reference" "\<not> sw_fail w (S_Asset_By_Path 10)"
    "se_ops env = local_ops" "tables_ok w" "registry_ok env w" "intact local_obj valid_key local_good env w"
    and named: "\<And>r body m. content local_obj env w rn (manifest_path img r) = Some body \<Longrightarrow>
      m \<in> set (mr_manifests (parse_manifest_refs dec body)) \<Longrightarrow> CHR '':'' \<in> set m"
  shows "content local_obj env w' rn (manifest_path img reference) = None \<and>
    (\<forall>r body. one_segment r \<longrightarrow> content local_obj env w' rn (manifest_path img r) = Some body \<longrightarrow>
       content local_obj env w rn (manifest_path img r) = Some body \<and>
       (\<forall>b \<in> set (mr_blobs (parse_manifest_refs dec body)). content local_obj env w' rn (blob_path img b) = content local_obj env w rn (blob_path img b)) \<and>
       (\<forall>m \<in> set (mr_manifests (parse_manifest_refs dec body)). m \<noteq> r \<longrightarrow> m \<noteq> reference \<longrightarrow>
          content local_obj env w' rn (manifest_path img m) = content local_obj env w rn (manifest_path img m))) \<and>
    (\<forall>t a. one_segment t \<longrightarrow> CHR '':'' \<notin> set t \<longrightarrow> row_at w rn (manifest_path img t) = Some a \<longrightarrow>
       content local_obj env w' rn (manifest_path img t) =
         (if asset_sha256 a = trim_prefix reference ''sha256:'' then None else content local_obj env w rn (manifest_path img t))) \<and>
    (\<forall>rn' path. rn' \<noteq> rn \<or> (\<forall>x. path \<noteq> manifest_path img x \<and> path \<noteq> blob_path img x) \<longrightarrow>
       content local_obj env w' rn' path = content local_obj env w rn' path) \<and>
    tables_ok w' \<and> registry_ok env w' \<and> intact local_obj valid_key local_good env w'"
proof -
  let ?c = "\<lambda>w. content local_obj env w" and ?mp = "manifest_path img"
  obtain tags where tg: "tags_resolving_to w rn img (trim_prefix reference ''sha256:'') = Some tags"
    using assms(1,2) by (auto simp: delete_manifest_def Let_def split: option.splits)
  obtain released w1 where dt: "delete_targets env rn (tags @ [?mp reference]) [] w = (Some released, w1)"
    using assms(1,2) tg by (auto simp: delete_manifest_def Let_def split: option.splits prod.splits)
  note t0 = local_blobs.delete_targets_view [OF dt assms(4,7,5,6)]
  note t1 = t0 [THEN conjunct2, THEN conjunct2, THEN conjunct2, THEN conjunct2]
  note t2 = t1 [THEN conjunct2, THEN conjunct2, rule_format, OF refl]
  have tag: "?mp x \<in> set tags \<longleftrightarrow> one_segment x \<and> CHR '':'' \<notin> set x \<and>
      (\<exists>a. row_at w rn (?mp x) = Some a \<and> asset_sha256 a = trim_prefix reference ''sha256:'')" for x
    using tags_resolving_paths [OF tg assms(5)] by blast
  have tag_path: "\<exists>x. path = ?mp x" if "path \<in> set tags" for path using tags_resolving_paths(2) [OF tg assms(5) that] .
  have pre: "intact local_obj valid_key local_good env w1" "tables_ok w1" "registry_ok env w1" using t0 by blast+
  have w1: "?c w1 rn' path = ?c w rn' path" if "rn' \<noteq> rn \<or> path \<notin> set tags \<and> path \<noteq> ?mp reference" for rn' path
    by (rule t1 [THEN conjunct1, rule_format]) (use that in auto)
  have old: "?c w1 rn path = None \<or> ?c w1 rn path = ?c w rn path" for path using t1 by blast
  have gone: "?c w1 rn path = None" if "path \<in> set tags \<or> path = ?mp reference" for path
    by (rule t2 [THEN conjunct2, rule_format, OF assms(3)]) (use that in auto)
  have from_w: "\<exists>x. ?c w rn (?mp x) = Some body" if "(sha, body) \<in> set released" for sha body
  proof -
    note rel = that
    obtain path where path: "path \<in> set (tags @ [?mp reference])" "?c w rn path = Some body"
      using t2 [THEN conjunct1, rule_format, OF rel] by auto
    then obtain x where "path = ?mp x" using tag_path by auto
    then show ?thesis using path(2) by blast
  qed
  have rest: "(\<forall>r body. one_segment r \<longrightarrow> ?c w' rn (?mp r) = Some body \<longrightarrow> ?c w1 rn (?mp r) = Some body \<and>
        (\<forall>b \<in> set (mr_blobs (parse_manifest_refs dec body)). ?c w' rn (blob_path img b) = ?c w1 rn (blob_path img b)) \<and>
        (\<forall>m \<in> set (mr_manifests (parse_manifest_refs dec body)). m \<noteq> r \<longrightarrow> ?c w' rn (?mp m) = ?c w1 rn (?mp m))) \<and>
      (\<forall>t. CHR '':'' \<notin> set t \<longrightarrow> ?c w' rn (?mp t) = ?c w1 rn (?mp t)) \<and> (\<forall>path. ?c w1 rn path = None \<longrightarrow> ?c w' rn path = None) \<and>
      (\<forall>rn' path. rn' \<noteq> rn \<or> (\<forall>x. path \<noteq> ?mp x \<and> path \<noteq> blob_path img x) \<longrightarrow> ?c w' rn' path = ?c w1 rn' path) \<and>
      tables_ok w' \<and> registry_ok env w' \<and> intact local_obj valid_key local_good env w'"
  proof (cases "released = []")
    case True
    then have "w' = w1" using assms(1,2) tg dt by (simp add: delete_manifest_def Let_def)
    then show ?thesis using pre by simp
  next
    case False
    obtain paths w2 where pl: "plan_image_release (read_asset env) dec rn img released w1 = (Some paths, w2)"
      using assms(1,2) tg dt False by (auto simp: delete_manifest_def Let_def split: option.splits prod.splits)
    obtain w3 where dp: "delete_paths env rn paths w2 = (True, w3)" "w' = delete_orphans w3 rn"
      using assms(1,2) tg dt False pl by (auto simp: delete_manifest_def Let_def split: prod.splits bool.splits)
    obtain es q where s: "registry_step env w1 w2"
      and ps: "set paths = set (plan_paths q) \<union> {blob_path img b |b. b \<in> set (unused_blobs q) \<and> row_at w1 rn (blob_path img b) \<noteq> None \<and> \<not> sw_fail w1 (S_Asset_By_Path 9)}"
      and q: "q = drop_unneeded (start_plan dec img es released)" "distinct (map (\<lambda>e. asset_path (re_asset e)) es)"
      and ent: "\<And>e. e \<in> set es \<Longrightarrow> asset_path (re_asset e) = ?mp (re_ref e)"
      by (rule handler_reader.planned_entries [OF pl assms(4) pre TrueI]) (rule that, assumption+, blast)
    note sv = registry_step_views [OF s]
    have pre2: "intact local_obj valid_key local_good env w2" "tables_ok w2" "registry_ok env w2"
      using pre sv(2) registry_step_fields(12) [OF s] registry_step_ok [OF s] by simp_all
    note dv = local_blobs.delete_paths_view [OF dp(1) assms(4) pre2, unfolded sv(1)]
    have kinds: "\<exists>x. path = ?mp x \<or> path = blob_path img x" if "path \<in> set paths" for path
    proof (cases "path \<in> set (plan_paths q)")
      case True
      then show ?thesis using release_plan_removed(3,4) [OF q] by fastforce
    next
      case False
      then show ?thesis using that unfolding ps by blast
    qed
    have tags_kept: "?mp t \<notin> set paths" if "CHR '':'' \<notin> set t" for t
    proof (rule handler_reader.planned_release_keeps_tag [OF pl assms(4) pre TrueI _ _ that])
      show "CHR '':'' \<in> set m" if "(sha, body) \<in> set released" "m \<in> set (mr_manifests (parse_manifest_refs dec body))" for sha body m
        using from_w [OF that(1)] named that(2) by blast
      show "CHR '':'' \<in> set m" if "?c w1 rn (?mp r) = Some body" "m \<in> set (mr_manifests (parse_manifest_refs dec body))" for r body m
        using old [of "?mp r"] named [of r body m] that by simp
    qed
    note keep = handler_reader.planned_release_keeps [OF pl assms(4) pre TrueI dp(1)]
    have same: "?c w3 rn' path = ?c w1 rn' path" if "rn' \<noteq> rn \<or> path \<notin> set paths" for rn' path
      by (rule dv [THEN conjunct2, THEN conjunct2, THEN conjunct2, THEN conjunct1, rule_format]) (use that in auto)
    show ?thesis
      unfolding dp(2) delete_orphans_views
    proof (intro conjI allI impI ballI)
      fix r body assume r: "one_segment r" "?c w3 rn (?mp r) = Some body"
      show "?c w1 rn (?mp r) = Some body" by (rule keep(1) [OF r])
      show "b \<in> set (mr_blobs (parse_manifest_refs dec body)) \<Longrightarrow> ?c w3 rn (blob_path img b) = ?c w1 rn (blob_path img b)" for b
        by (rule keep(2) [OF r])
      show "m \<in> set (mr_manifests (parse_manifest_refs dec body)) \<Longrightarrow> m \<noteq> r \<Longrightarrow> ?c w3 rn (?mp m) = ?c w1 rn (?mp m)" for m
        by (rule keep(3) [OF r])
    next
      show "CHR '':'' \<notin> set t \<Longrightarrow> ?c w3 rn (?mp t) = ?c w1 rn (?mp t)" for t using same tags_kept by blast
      show "?c w1 rn path = None \<Longrightarrow> ?c w3 rn path = None" for path
        using dv [THEN conjunct2, THEN conjunct2, THEN conjunct2, THEN conjunct2, THEN conjunct1] by blast
      show "?c w3 rn' path = ?c w1 rn' path" if "rn' \<noteq> rn \<or> (\<forall>x. path \<noteq> ?mp x \<and> path \<noteq> blob_path img x)" for rn' path
        using same kinds that by blast
    qed (use dv in blast)+
  qed
  have stay: "?c w1 rn (?mp r) = ?c w rn (?mp r)" if "?c w1 rn (?mp r) \<noteq> None" for r using old [of "?mp r"] that by auto
  have blobs: "?c w1 rn (blob_path img b) = ?c w rn (blob_path img b)" for b by (rule w1) (use tag_path in fastforce)
  have man: "?c w1 rn (?mp m) = ?c w rn (?mp m)" if "CHR '':'' \<in> set m" "m \<noteq> reference" for m
    by (rule w1) (use tag [of m] that in auto)
  show ?thesis
  proof (intro conjI allI impI ballI)
    show "?c w' rn (?mp reference) = None" using gone [of "?mp reference"] rest by blast
    fix r body assume r: "one_segment r" "?c w' rn (?mp r) = Some body"
    then have 1: "?c w1 rn (?mp r) = Some body" using rest by blast
    then show 2: "?c w rn (?mp r) = Some body" using stay [of r] by simp
    show "?c w' rn (blob_path img b) = ?c w rn (blob_path img b)" if "b \<in> set (mr_blobs (parse_manifest_refs dec body))" for b
      using rest r that blobs by metis
    show "?c w' rn (?mp m) = ?c w rn (?mp m)" if "m \<in> set (mr_manifests (parse_manifest_refs dec body))" "m \<noteq> r" "m \<noteq> reference" for m
      using rest r that man [of m] named [OF 2 that(1)] by metis
  next
    fix t a assume t: "one_segment t" "CHR '':'' \<notin> set t" "row_at w rn (?mp t) = Some a"
    have "?c w' rn (?mp t) = ?c w1 rn (?mp t)" using rest t(2) by blast
    moreover have "?c w1 rn (?mp t) = None" if "asset_sha256 a = trim_prefix reference ''sha256:''"
      using gone [of "?mp t"] tag [of t] t that by blast
    moreover have "?c w1 rn (?mp t) = ?c w rn (?mp t)" if "asset_sha256 a \<noteq> trim_prefix reference ''sha256:''"
      by (rule w1) (use tag [of t] t that assms(2) in auto)
    ultimately show "?c w' rn (?mp t) = (if asset_sha256 a = trim_prefix reference ''sha256:'' then None else ?c w rn (?mp t))" by simp
  next
    fix rn' path assume o: "rn' \<noteq> rn \<or> (\<forall>x. path \<noteq> ?mp x \<and> path \<noteq> blob_path img x)"
    then have "?c w1 rn' path = ?c w rn' path" by (intro w1) (use tag_path in blast)
    then show "?c w' rn' path = ?c w rn' path" using rest o by metis
  qed (use rest in blast)+
qed

text \<open>A tag over a five byte manifest, deleted through its digest.\<close>

definition demo_layers :: "bytes \<Rightarrow> manifest_doc option" where
  "demo_layers b = Some \<lparr> md_config = ''sha256:cfg'', md_layers = [''sha256:l1''], md_manifests = [], md_subject = None \<rparr>"

definition demo_tag :: "(pub_err + asset \<times> sums \<times> int) \<times> local_store store_world" where
  "demo_tag = store_artifact demo_env demo_ctx (demo_world ''allow'' None) ''libs'' ''/manifests/img/v1'' ''m'' demo_coords (demo_body ''hello'') 5"

definition demo_untag :: "reply \<times> local_store store_world" where
  "demo_untag = delete_manifest demo_env demo_layers ''libs'' ''img'' ''sha256:01235'' (snd demo_tag)"

theorem manifest_delete_keeps_users_witness:
  "content local_obj demo_env (snd demo_tag) ''libs'' ''/manifests/img/v1'' = Some ''hello'' \<and>
   content local_obj demo_env (snd demo_untag) ''libs'' ''/manifests/img/v1'' = None"
proof -
  have 0: "\<not> isl (fst demo_tag)" "fst demo_untag = (202, [])" by code_simp+
  have 1: "case row_at (snd demo_tag) ''libs'' ''/manifests/img/v1'' of None \<Rightarrow> False | Some a \<Rightarrow> asset_sha256 a = ''01235''" by code_simp
  have v: "valid_key (blob_key_of demo_env ''libs'' ''/manifests/img/v1'')" by code_simp
  obtain res w where w: "demo_tag = (res, w)" by (cases demo_tag)
  have env: "se_ops demo_env = local_ops" by (simp add: demo_env_def)
  note u = local_blobs.upload_view [OF w [unfolded demo_tag_def] env demo_invariants(3) v demo_invariants(1,2,4)]
  have inv: "tables_ok w" "registry_ok demo_env w" "intact local_obj valid_key local_good demo_env w"
    "content local_obj demo_env w ''libs'' ''/manifests/img/v1'' = Some ''hello''"
  proof -
    obtain a sm sz where "res = Inr (a, sm, sz)" using 0(1) unfolding w by (cases res) auto
    note u [unfolded this sum.case prod.case demo_body_def body.simps]
    then show "tables_ok w" "registry_ok demo_env w" "intact local_obj valid_key local_good demo_env w"
      "content local_obj demo_env w ''libs'' ''/manifests/img/v1'' = Some ''hello''" by blast+
  qed
  have good: "\<And>x. local_good (sw_phys (demo_world p q) x)" for p q using demo_invariants(3) by (simp add: intact_def)
  have fl: "\<not> sw_fail w (S_Asset_By_Path 10)"
    using local_blobs.store_artifact_cases [OF w [unfolded demo_tag_def] env good v demo_invariants(1,2)] by (simp add: demo_world_def)
  obtain rep w' where w': "demo_untag = (rep, w')" by (cases demo_untag)
  have rep: "delete_manifest demo_env demo_layers ''libs'' ''img'' ''sha256:01235'' w = ((202, []), w')"
    using w' 0(2) unfolding demo_untag_def w by simp
  obtain a where a: "row_at w ''libs'' ''/manifests/img/v1'' = Some a" "asset_sha256 a = ''01235''"
    using 1 unfolding w by (auto split: option.splits)
  have tr: "trim_prefix ''sha256:01235'' ''sha256:'' = ''01235''" "manifest_path ''img'' ''v1'' = ''/manifests/img/v1''" "one_segment ''v1''"
    by code_simp+
  note t = manifest_delete_keeps_users [OF rep _ fl env inv(1-3)]
  have "content local_obj demo_env w' ''libs'' ''/manifests/img/v1'' = None"
    using t [THEN conjunct2, THEN conjunct2, THEN conjunct1, rule_format, of "''v1''" a] a tr
    by (simp add: demo_layers_def parse_manifest_refs_def)
  then show ?thesis using inv(4) unfolding w w' by simp
qed

end
