(* ===== verification/Sql_Like.thy ===== *)
theory Sql_Like
  imports Go_Lib
begin

text \<open>
  Path filters as SQL patterns: \<open>likePrefix\<close> and \<open>globToLike\<close> of \<open>repository/postgres/asset_repo.go\<close>, against
  PostgreSQL's \<open>LIKE\<close> with the escape character \<open>\\<close>. Strings are read character by character.
\<close>

section \<open>LIKE\<close>

definition backslash :: char where
  "backslash = CHR 0x5C"

datatype like_tok = Lk_Char char | Lk_One | Lk_Many

text \<open>A pattern must not end with the escape character; such a query is an error.\<close>

fun like_tokens :: "string \<Rightarrow> like_tok list option" where
  "like_tokens [] = Some []"
| "like_tokens (c # p) =
     (if c = backslash then
        (case p of [] \<Rightarrow> None | d # q \<Rightarrow> map_option (\<lambda>ts. Lk_Char d # ts) (like_tokens q))
      else map_option (\<lambda>ts. (if c = CHR ''%'' then Lk_Many else if c = CHR ''_'' then Lk_One else Lk_Char c) # ts) (like_tokens p))"

fun toks_match :: "like_tok list \<Rightarrow> string \<Rightarrow> bool" where
  "toks_match [] s = (s = [])"
| "toks_match (Lk_Char c # ts) s = (case s of [] \<Rightarrow> False | x # xs \<Rightarrow> x = c \<and> toks_match ts xs)"
| "toks_match (Lk_One # ts) s = (case s of [] \<Rightarrow> False | x # xs \<Rightarrow> toks_match ts xs)"
| "toks_match (Lk_Many # ts) [] = toks_match ts []"
| "toks_match (Lk_Many # ts) (x # xs) = (toks_match ts (x # xs) \<or> toks_match (Lk_Many # ts) xs)"

definition sql_like :: "string \<Rightarrow> string \<Rightarrow> bool option" where
  "sql_like s p = map_option (\<lambda>ts. toks_match ts s) (like_tokens p)"

section \<open>The translations\<close>

text \<open>\<open>strings.ReplaceAll\<close> of one character, three times in this order.\<close>

definition replace_char :: "char \<Rightarrow> string \<Rightarrow> string \<Rightarrow> string" where
  "replace_char c by s = concat (map (\<lambda>x. if x = c then by else [x]) s)"

definition like_prefix :: "string \<Rightarrow> string" where
  "like_prefix prefix =
     replace_char (CHR ''_'') [backslash, CHR ''_'']
       (replace_char (CHR ''%'') [backslash, CHR ''%''] (replace_char backslash [backslash, backslash] prefix)) @ ''%''"

definition glob_to_like :: "string \<Rightarrow> string" where
  "glob_to_like glob =
     concat (map (\<lambda>c. if c = CHR ''%'' \<or> c = CHR ''_'' then [backslash, c]
                      else if c = CHR ''*'' then ''%'' else if c = CHR ''?'' then ''_'' else [c]) glob)"

section \<open>They match what they name\<close>

lemma many_rest: "toks_match [Lk_Many] s"
  by (induction s) simp_all

lemma tokens_escaped: "like_tokens (backslash # d # q) = map_option (\<lambda>ts. Lk_Char d # ts) (like_tokens q)"
  by simp

lemma replace_char_simps [simp]:
  "replace_char c by [] = []" "replace_char c by (x # s) = (if x = c then by else [x]) @ replace_char c by s"
  by (simp_all add: replace_char_def)

lemma special_distinct [simp]:
  "CHR ''%'' \<noteq> backslash" "CHR ''_'' \<noteq> backslash" "backslash \<noteq> CHR ''%''" "backslash \<noteq> CHR ''_''"
  "CHR ''*'' \<noteq> backslash" "CHR ''?'' \<noteq> backslash" "backslash \<noteq> CHR ''*''" "backslash \<noteq> CHR ''?''"
  by (simp_all add: backslash_def)

lemma like_prefix_Cons:
  "like_prefix (x # s) = (if x = backslash \<or> x = CHR ''%'' \<or> x = CHR ''_'' then [backslash, x] else [x]) @ like_prefix s"
  by (simp add: like_prefix_def)

lemma like_prefix_tokens: "like_tokens (like_prefix p) = Some (map Lk_Char p @ [Lk_Many])"
proof (induction p)
  case Nil
  then show ?case by (simp add: like_prefix_def)
next
  case (Cons x p)
  then show ?case by (auto simp: like_prefix_Cons)
qed

lemma chars_match: "toks_match (map Lk_Char p @ ts) s \<longleftrightarrow> (\<exists>t. s = p @ t \<and> toks_match ts t)"
proof (induction p arbitrary: s)
  case (Cons c p)
  show ?case using Cons by (cases s) auto
qed simp

lemma like_prefix_exact: "sql_like s (like_prefix p) = Some (has_prefix s p)"
  by (auto simp: sql_like_def like_prefix_tokens chars_match many_rest has_prefix_iff)

text \<open>The shell pattern: \<open>*\<close> any run of characters, \<open>?\<close> one character, anything else itself.\<close>

fun glob_match :: "string \<Rightarrow> string \<Rightarrow> bool" where
  "glob_match [] s = (s = [])"
| "glob_match (g # gs) s =
     (if g = CHR ''*'' then (\<exists>i \<in> set [0..<Suc (length s)]. glob_match gs (drop i s))
      else case s of [] \<Rightarrow> False | x # xs \<Rightarrow> (g = CHR ''?'' \<or> x = g) \<and> glob_match gs xs)"

definition glob_tok :: "char \<Rightarrow> like_tok" where
  "glob_tok c = (if c = CHR ''*'' then Lk_Many else if c = CHR ''?'' then Lk_One else Lk_Char c)"

lemma glob_tokens: "backslash \<notin> set g \<Longrightarrow> like_tokens (glob_to_like g) = Some (map glob_tok g)"
  by (induction g) (auto simp: glob_to_like_def glob_tok_def)

lemma many_match: "toks_match (Lk_Many # ts) s \<longleftrightarrow> (\<exists>i \<le> length s. toks_match ts (drop i s))"
proof (induction s)
  case (Cons x s)
  have "(\<exists>i \<le> length (x # s). toks_match ts (drop i (x # s))) \<longleftrightarrow> toks_match ts (x # s) \<or> (\<exists>i \<le> length s. toks_match ts (drop i s))"
  proof
    assume "\<exists>i \<le> length (x # s). toks_match ts (drop i (x # s))"
    then obtain i where "i \<le> length (x # s)" "toks_match ts (drop i (x # s))" by blast
    then show "toks_match ts (x # s) \<or> (\<exists>i \<le> length s. toks_match ts (drop i s))" by (cases i) auto
  next
    assume "toks_match ts (x # s) \<or> (\<exists>i \<le> length s. toks_match ts (drop i s))"
    then show "\<exists>i \<le> length (x # s). toks_match ts (drop i (x # s))"
    proof
      assume "toks_match ts (x # s)"
      then show ?thesis by (intro exI [of _ 0]) simp
    next
      assume "\<exists>i \<le> length s. toks_match ts (drop i s)"
      then obtain i where "i \<le> length s" "toks_match ts (drop i s)" by blast
      then show ?thesis by (intro exI [of _ "Suc i"]) simp
    qed
  qed
  then show ?case using Cons by simp
qed simp

lemma glob_toks_match: "toks_match (map glob_tok g) s = glob_match g s"
proof (induction g arbitrary: s)
  case (Cons c g)
  show ?case
  proof (cases "c = CHR ''*''")
    case True
    have "set [0..<Suc (length s)] = {i. i \<le> length s}" by auto
    moreover have "glob_tok c = Lk_Many" using True by (simp add: glob_tok_def)
    ultimately show ?thesis using True many_match [of "map glob_tok g" s] Cons.IH by (simp del: upt_Suc)
  next
    case False
    then have "glob_tok c = (if c = CHR ''?'' then Lk_One else Lk_Char c)" by (simp add: glob_tok_def)
    then show ?thesis using False Cons.IH by (auto split: list.split)
  qed
qed simp

lemma glob_to_like_exact: "backslash \<notin> set g \<Longrightarrow> sql_like s (glob_to_like g) = Some (glob_match g s)"
  by (simp add: sql_like_def glob_tokens glob_toks_match)

text \<open>
  A backslash of the pattern is not escaped: before a star it makes the star a literal percent sign, at
  the end it is an error of the query.
\<close>

lemma glob_backslash:
  "sql_like ''a%'' (glob_to_like [CHR ''a'', backslash, CHR ''*'']) = Some True"
  "sql_like [CHR ''a'', backslash, CHR ''b''] (glob_to_like [CHR ''a'', backslash, CHR ''*'']) = Some False"
  "sql_like ''a'' (glob_to_like [CHR ''a'', backslash]) = None"
  by (simp_all add: sql_like_def glob_to_like_def backslash_def)

text \<open>
  The path filters of a staleness query select what they name. A literal prefix, whatever percent signs,
  underscores and backslashes it contains, matches exactly the paths that begin with it; a glob without a
  backslash matches exactly the paths the shell pattern describes. Neither makes the query an error.
\<close>

theorem path_filters_exact:
  assumes "backslash \<notin> set glob"
  shows "sql_like path (like_prefix prefix) = Some (has_prefix path prefix) \<and> sql_like path (glob_to_like glob) = Some (glob_match glob path)"
  using like_prefix_exact glob_to_like_exact [OF assms] by blast

theorem path_filters_exact_witness:
  "sql_like ''/a_b/x.jar'' (like_prefix ''/a_b/'') = Some True \<and> sql_like ''/aXb/x.jar'' (like_prefix ''/a_b/'') = Some False \<and>
   sql_like ''/a_b/x.jar'' (glob_to_like ''*.jar'') = Some True"
proof -
  have "backslash \<notin> set ''*.jar''" by (simp add: backslash_def)
  note t = path_filters_exact [OF this]
  have "has_prefix ''/a_b/x.jar'' ''/a_b/''" "\<not> has_prefix ''/aXb/x.jar'' ''/a_b/''" "glob_match ''*.jar'' ''/a_b/x.jar''" by code_simp+
  then show ?thesis using t [of "''/a_b/x.jar''" "''/a_b/''"] t [of "''/aXb/x.jar''" "''/a_b/''"] by simp
qed

end
