(* ===== verification/Cleanup.thy ===== *)
theory Cleanup
  imports Oci_Delete Sql_Like Dist_Lock
begin

text \<open>
  The runs of the cleanup service: \<open>internal/service/cleanup_service.go\<close> with its queries (\<open>ListStale\<close>,
  \<open>DeleteIfUnchanged\<close> of \<open>asset_repo.go\<close>). The rows and the bytes are a \<open>store_world\<close>. The policies and their
  schedule are in \<open>Cleanup_Schedule\<close>.
\<close>

section \<open>Policies\<close>

record cleanup_policy =
  cp_id :: string
  cp_name :: string
  cp_description :: string
  cp_format :: string
  cp_criteria :: cfg
  cp_schedule_cron :: string
  cp_enabled :: bool
  cp_dry_run :: bool
  cp_retain :: int
  cp_scope_repository :: string
  cp_scope_prefix :: string
  cp_last_run_at :: "time option"
  cp_last_run_freed :: int
  cp_last_run_count :: nat
  cp_created_at :: time
  cp_updated_at :: time

record cleanup_result =
  cr_policy :: string
  cr_deleted :: nat
  cr_freed :: int
  cr_dry_run :: bool
  cr_skipped :: bool
  cr_aborted :: bool

definition str_criteria :: "cfg \<Rightarrow> string \<Rightarrow> string" where
  "str_criteria m key = as_str (cfg_get m key)"

definition int_criteria :: "cfg \<Rightarrow> string \<Rightarrow> int" where
  "int_criteria m key = (case cfg_get m key of Some (VNum n) \<Rightarrow> n | _ \<Rightarrow> 0)"

section \<open>The staleness query\<close>

text \<open>A row of a hosted docker or oci repository that is no tag manifest.\<close>

definition hosted_oci_non_tag :: "repository \<Rightarrow> component \<Rightarrow> string option \<Rightarrow> bool" where
  "hosted_oci_non_tag rep c path \<longleftrightarrow>
     repo_kind rep = TypeHosted \<and> (comp_format c = ''docker'' \<or> comp_format c = ''oci'') \<and>
     (has_prefix (comp_version c) ''sha256:'' \<or> (case path of None \<Rightarrow> False | Some p \<Rightarrow> has_prefix p ''/blobs/''))"

definition repo_of_id :: "'b store_world \<Rightarrow> string \<Rightarrow> repository option" where
  "repo_of_id w i = find (\<lambda>r. repo_id r = i) (sw_repos w)"

definition comp_of_id :: "'b store_world \<Rightarrow> string \<Rightarrow> component option" where
  "comp_of_id w i = find (\<lambda>c. comp_id c = i) (sw_comps w)"

text \<open>
  The \<open>n\<close> newest versions of each package. The query orders by \<open>version_sort\<close>, a column no statement ever
  fills, and then by the creation time.
\<close>

definition same_package :: "component \<Rightarrow> component \<Rightarrow> bool" where
  "same_package c d \<longleftrightarrow> comp_repository_id c = comp_repository_id d \<and> comp_group c = comp_group d \<and> comp_name c = comp_name d"

definition retained_comps :: "'b store_world \<Rightarrow> string list \<Rightarrow> int \<Rightarrow> string list" where
  "retained_comps w names n =
     (let cs = filter (\<lambda>c. case repo_of_id w (comp_repository_id c) of
                             None \<Rightarrow> False
                           | Some r \<Rightarrow> repo_name r \<in> set names \<and> \<not> hosted_oci_non_tag r c None) (sw_comps w)
      in map comp_id (filter (\<lambda>c. comp_id c \<in> set (map comp_id (take (nat n) (sort_key (\<lambda>d. - comp_created_at d) (filter (same_package c) cs))))) cs))"

definition days_ago :: "time \<Rightarrow> int \<Rightarrow> time" where
  "days_ago now n = now - seconds (86400 * n)"

record stale_query =
  sq_format :: string
  sq_repos :: "string list"
  sq_last_downloaded :: int
  sq_age :: int
  sq_prefix :: string
  sq_glob :: string
  sq_retain :: int

definition is_stale :: "'b store_world \<Rightarrow> stale_query \<Rightarrow> asset \<Rightarrow> bool" where
  "is_stale w q a \<longleftrightarrow>
     (case (repo_of_id w (asset_repository_id a), comp_of_id w (asset_component_id a)) of
        (Some r, Some c) \<Rightarrow>
          \<not> hosted_oci_non_tag r c (Some (asset_path a)) \<and>
          (sq_repos q = [] \<or> repo_name r \<in> set (sq_repos q)) \<and>
          (sq_format q = [] \<or> sq_format q = ''*'' \<or> comp_format c = sq_format q) \<and>
          (sq_last_downloaded q \<le> 0 \<or>
             (case asset_last_downloaded a of None \<Rightarrow> True | Some t \<Rightarrow> t < days_ago (sw_now w) (sq_last_downloaded q))) \<and>
          (sq_age q \<le> 0 \<or> asset_created_at a < days_ago (sw_now w) (sq_age q)) \<and>
          (sq_prefix q = [] \<or> sql_like (asset_path a) (like_prefix (sq_prefix q)) = Some True) \<and>
          (sq_glob q = [] \<or> sql_like (asset_path a) (glob_to_like (sq_glob q)) = Some True) \<and>
          (sq_retain q \<le> 0 \<or> sq_repos q = [] \<or> comp_id c \<notin> set (retained_comps w (sq_repos q) (sq_retain q)))
      | _ \<Rightarrow> False)"

definition list_stale :: "'b store_world \<Rightarrow> stale_query \<Rightarrow> nat \<Rightarrow> asset list option" where
  "list_stale w q limit =
     (if sw_fail w (S_Asset_List 3) \<or> sq_glob q \<noteq> [] \<and> like_tokens (glob_to_like (sq_glob q)) = None then None
      else Some (take (if limit = 0 then 500 else limit) (sort_key asset_created_at (filter (is_stale w q) (sw_assets w)))))"

definition delete_if_unchanged :: "'b store_world \<Rightarrow> asset \<Rightarrow> bool option \<times> 'b store_world" where
  "delete_if_unchanged w a =
     (if sw_fail w S_Asset_Delete then (None, w)
      else let hit = (\<lambda>x. asset_id x = asset_id a \<and> asset_blob_key x = asset_blob_key a \<and>
                          asset_last_downloaded x = asset_last_downloaded a \<and> asset_last_modified x = asset_last_modified a)
           in (Some (\<exists>x \<in> set (sw_assets w). hit x), w\<lparr> sw_assets := filter (\<lambda>x. \<not> hit x) (sw_assets w) \<rparr>))"

section \<open>Deleting one asset\<close>

text \<open>The store an asset lives on; any failure falls back to the default store.\<close>

definition store_for_asset :: "'b store_env \<Rightarrow> asset \<Rightarrow> 'b store_world \<Rightarrow> string \<times> 'b store_world" where
  "store_for_asset env a w =
     (if \<not> se_registry_on env \<or> asset_blob_store_id a = [] then (default_space w, w)
      else case stores_by_id w 15 (asset_blob_store_id a) of
        None \<Rightarrow> (default_space w, w)
      | Some b \<Rightarrow>
          (case registry_get (se_azure_url env) (se_reachable env) (sw_registry w) (descriptor_of b) of
             (None, r') \<Rightarrow> (default_space w, w\<lparr> sw_registry := r' \<rparr>)
           | (Some p, r') \<Rightarrow> (p, w\<lparr> sw_registry := r' \<rparr>)))"

text \<open>
  \<open>(rowDeleted, freed)\<close>. The callback assigns them before the lock is given back, so a failing release
  changes neither.
\<close>

definition delete_stale_locked :: "'b store_env \<Rightarrow> asset \<Rightarrow> 'b store_world \<Rightarrow> (bool \<times> int) \<times> 'b store_world" where
  "delete_stale_locked env a w =
     (case delete_if_unchanged w a of
        (None, w1) \<Rightarrow> ((False, 0), w1)
      | (Some ok, w1) \<Rightarrow>
          if \<not> ok then ((False, 0), w1)
          else case count_by_blob_key w1 5 (asset_blob_key a) (asset_id a) of
            None \<Rightarrow> ((True, 0), w1)
          | Some others \<Rightarrow>
              if others = 0
              then (case store_for_asset env a w1 of
                      (p, w2) \<Rightarrow>
                        (case phys_delete env p (asset_blob_key a) w2 of
                           (Some _, w3) \<Rightarrow> ((True, 0), w3)
                         | (None, w3) \<Rightarrow> ((True, asset_size a), decrement_usage w3 a)))
              else ((True, 0), w1))"

definition delete_stale_asset :: "'b store_env \<Rightarrow> asset \<Rightarrow> 'b store_world \<Rightarrow> (bool \<times> int) \<times> 'b store_world" where
  "delete_stale_asset env a w =
     (if sw_fail w (S_Lock (asset_blob_key a)) then ((False, 0), w) else delete_stale_locked env a w)"

definition cleanup_read :: "'b store_env \<Rightarrow> asset \<Rightarrow> 'b store_world \<Rightarrow> bytes option \<times> 'b store_world" where
  "cleanup_read env a w =
     (case store_for_asset env a w of
        (p, w1) \<Rightarrow>
          (case bo_get (se_ops env) (sw_phys w1 p) (asset_blob_key a) of
             Inl _ \<Rightarrow> (None, w1)
           | Inr (c, _) \<Rightarrow> (Some c, w1)))"

text \<open>The image and the bytes of a hosted tag; the repositories do not change while a run caches them.\<close>

definition oci_tag_body :: "'b store_env \<Rightarrow> asset \<Rightarrow> 'b store_world \<Rightarrow> (string \<times> bytes) option \<times> 'b store_world" where
  "oci_tag_body env a w =
     (case repos_get w (asset_repository a) of
        None \<Rightarrow> (None, w)
      | Some repo \<Rightarrow>
          if repo_kind repo \<noteq> TypeHosted \<or> \<not> is_oci_registry (repo_fmt repo) then (None, w)
          else if \<not> has_prefix (asset_path a) ''/manifests/'' then (None, w)
          else (let rest = trim_prefix (asset_path a) ''/manifests/''
                in case str_last_index rest ''/'' of
                     None \<Rightarrow> (None, w)
                   | Some i \<Rightarrow>
                       if i = 0 \<or> CHR '':'' \<in> set (drop (Suc i) rest) then (None, w)
                       else (case cleanup_read env a w of
                               (None, w1) \<Rightarrow> (None, w1)
                             | (Some b, w1) \<Rightarrow> (Some (take i rest, b), w1))))"

section \<open>One run\<close>

text \<open>The counters of a run and the manifests of the tags it expired, by repository and image.\<close>

type_synonym released_tags = "(string \<times> (string \<times> bytes) list) list"

definition tag_key :: "string \<Rightarrow> string \<Rightarrow> string" where
  "tag_key rn image_name = rn @ CHR 0x00 # image_name"

definition cut_key :: "string \<Rightarrow> string \<times> string" where
  "cut_key k = (takeWhile (\<lambda>c. c \<noteq> CHR 0x00) k, tl (dropWhile (\<lambda>c. c \<noteq> CHR 0x00) k))"

definition add_tag :: "string \<Rightarrow> string \<Rightarrow> bytes \<Rightarrow> released_tags \<Rightarrow> released_tags" where
  "add_tag key sha body tags =
     AList.update key (AList.update sha body (case map_of tags key of None \<Rightarrow> [] | Some m \<Rightarrow> m)) tags"

fun delete_batch ::
  "'b store_env \<Rightarrow> asset list \<Rightarrow> nat \<times> int \<times> released_tags \<times> 'b store_world \<Rightarrow> nat \<times> int \<times> released_tags \<times> 'b store_world" where
  "delete_batch env [] st = st"
| "delete_batch env (a # rest) (deleted, freed, tags, w) =
     (case oci_tag_body env a w of
        (tag, w1) \<Rightarrow>
          (case delete_stale_asset env a w1 of
             ((row_deleted, bytes_freed), w2) \<Rightarrow>
               delete_batch env rest
                 (if \<not> row_deleted then (deleted, freed, tags, w2)
                  else (Suc deleted, add64 freed bytes_freed,
                        (case tag of None \<Rightarrow> tags
                         | Some (img, body) \<Rightarrow> add_tag (tag_key (asset_repository a) img) (asset_sha256 a) body tags), w2))))"

definition batch_limit :: nat where
  "batch_limit = 500"

definition max_no_progress :: nat where
  "max_no_progress = 3"

text \<open>Steps never add rows; a deleted row is one less.\<close>

lemma delete_if_unchanged_rows:
  "length (sw_assets (snd (delete_if_unchanged w a))) \<le> length (sw_assets w)"
  "fst (delete_if_unchanged w a) = Some True \<Longrightarrow> length (sw_assets (snd (delete_if_unchanged w a))) < length (sw_assets w)"
  by (auto simp: delete_if_unchanged_def Let_def length_filter_less split: if_splits)

lemma store_for_asset_world: "\<exists>r. snd (store_for_asset env a w) = w\<lparr> sw_registry := r \<rparr>"
  by (auto simp: store_for_asset_def split: option.split prod.split intro: exI [of _ "sw_registry w"])

lemma cleanup_read_world: "\<exists>r. snd (cleanup_read env a w) = w\<lparr> sw_registry := r \<rparr>"
  using store_for_asset_world [of env a w] by (auto simp: cleanup_read_def split: prod.split sum.split)

lemma oci_tag_body_world: "\<exists>r. snd (oci_tag_body env a w) = w\<lparr> sw_registry := r \<rparr>"
proof -
  have id: "\<exists>r. w = w\<lparr> sw_registry := r \<rparr>" by (rule exI [of _ "sw_registry w"]) simp
  show ?thesis
    using cleanup_read_world [of env a w] id
    by (auto simp: oci_tag_body_def Let_def split: option.split prod.split)
qed

lemma decrement_usage_assets: "sw_assets (decrement_usage w a) = sw_assets w"
  by (auto simp: decrement_usage_def update_used_bytes_def split: option.split)

lemma phys_delete_assets: "sw_assets (snd (phys_delete env p k w)) = sw_assets w"
  by (simp add: phys_delete_def Let_def)

lemma delete_stale_rows:
  assumes "delete_stale_asset env a w = ((rd, fr), w')"
  shows "length (sw_assets w') \<le> length (sw_assets w)" "rd \<Longrightarrow> length (sw_assets w') < length (sw_assets w)"
proof -
  obtain ok w1 where d: "delete_if_unchanged w a = (ok, w1)" by (cases "delete_if_unchanged w a")
  obtain q w2 where s: "store_for_asset env a w1 = (q, w2)" by (cases "store_for_asset env a w1")
  obtain e w3 where p: "phys_delete env q (asset_blob_key a) w2 = (e, w3)" by (cases "phys_delete env q (asset_blob_key a) w2")
  note r = delete_if_unchanged_rows [of w a, unfolded d]
  have "sw_assets w2 = sw_assets w1" using store_for_asset_world [of env a w1] s by auto
  moreover have "sw_assets w3 = sw_assets w2" using phys_delete_assets [of env q "asset_blob_key a" w2] p by simp
  ultimately have eqs: "sw_assets w2 = sw_assets w1" "sw_assets w3 = sw_assets w1" "sw_assets (decrement_usage w3 a) = sw_assets w1"
    by (simp_all add: decrement_usage_assets)
  show "length (sw_assets w') \<le> length (sw_assets w)" "rd \<Longrightarrow> length (sw_assets w') < length (sw_assets w)"
    using assms d s p r eqs
    by (auto simp: delete_stale_asset_def delete_stale_locked_def split: if_splits option.splits)
qed

lemma delete_batch_rows:
  assumes "delete_batch env as (d, f, tags, w) = (d', f', tags', w')"
  shows "length (sw_assets w') + d' \<le> length (sw_assets w) + d" "d \<le> d'"
proof -
  have "length (sw_assets w') + d' \<le> length (sw_assets w) + d \<and> d \<le> d'"
    using assms
  proof (induction as arbitrary: d f tags w)
    case (Cons a rest)
    obtain tag w1 where t: "oci_tag_body env a w = (tag, w1)" by (cases "oci_tag_body env a w")
    obtain rd fr w2 where s: "delete_stale_asset env a w1 = ((rd, fr), w2)" by (metis surj_pair)
    have "sw_assets w1 = sw_assets w" using oci_tag_body_world [of env a w] t by auto
    then have r: "length (sw_assets w2) \<le> length (sw_assets w)" "rd \<Longrightarrow> length (sw_assets w2) < length (sw_assets w)"
      using delete_stale_rows [OF s] by simp_all
    show ?case
    proof (cases rd)
      case True
      then show ?thesis using Cons.IH Cons.prems t s r(2) [OF True] by (fastforce split: option.splits)
    next
      case False
      then show ?thesis using Cons.IH Cons.prems t s r(1) by fastforce
    qed
  qed simp
  then show "length (sw_assets w') + d' \<le> length (sw_assets w) + d" "d \<le> d'" by simp_all
qed

text \<open>
  The loop of a run that deletes: \<open>clk n\<close> is the clock at its \<open>n\<close>-th pass. \<^const>\<open>None\<close> is a query that failed;
  the last component says that the lock's lifetime ended the loop.
\<close>

function cleanup_loop ::
  "'b store_env \<Rightarrow> stale_query \<Rightarrow> (nat \<Rightarrow> time) \<Rightarrow> time \<Rightarrow> nat \<Rightarrow> nat \<Rightarrow> nat \<times> int \<times> released_tags \<times> 'b store_world \<Rightarrow>
   bool option \<times> nat \<times> int \<times> released_tags \<times> 'b store_world" where
  "cleanup_loop env q clk deadline n no_progress (deleted, freed, tags, w) =
     (if past_deadline (clk n) deadline then (Some True, deleted, freed, tags, w)
      else case list_stale w q batch_limit of
        None \<Rightarrow> (None, deleted, freed, tags, w)
      | Some stale \<Rightarrow>
          if stale = [] then (Some False, deleted, freed, tags, w)
          else
            (let st = delete_batch env stale (deleted, freed, tags, w)
             in if fst st = deleted
                then (if Suc no_progress \<ge> max_no_progress then (Some False, st)
                      else cleanup_loop env q clk deadline (Suc n) (Suc no_progress) st)
                else cleanup_loop env q clk deadline (Suc n) 0 st))"
  by pat_completeness auto

text \<open>A pass that deletes shortens the table, and there are at most three fruitless ones in a row.\<close>

termination
proof (relation "measures [\<lambda>(env, q, clk, deadline, n, k, d, f, tags, w). length (sw_assets w), \<lambda>(env, q, clk, deadline, n, k, st). max_no_progress - k]")
  fix env :: "'b store_env" and q clk deadline n no_progress deleted freed tags and w :: "'b store_world" and stale st
  assume st: "st = delete_batch env stale (deleted, freed, tags, w)"
  obtain d f t v where v: "st = (d, f, t, v)" by (cases st) auto
  note r = delete_batch_rows [OF st [unfolded v, symmetric]]
  show "fst st = deleted \<Longrightarrow> \<not> max_no_progress \<le> Suc no_progress \<Longrightarrow>
      ((env, q, clk, deadline, Suc n, Suc no_progress, st), env, q, clk, deadline, n, no_progress, deleted, freed, tags, w)
      \<in> measures [\<lambda>(env, q, clk, deadline, n, k, d, f, tags, w). length (sw_assets w), \<lambda>(env, q, clk, deadline, n, k, st). max_no_progress - k]"
    using r v by auto
  show "fst st \<noteq> deleted \<Longrightarrow>
      ((env, q, clk, deadline, Suc n, 0, st), env, q, clk, deadline, n, no_progress, deleted, freed, tags, w)
      \<in> measures [\<lambda>(env, q, clk, deadline, n, k, d, f, tags, w). length (sw_assets w), \<lambda>(env, q, clk, deadline, n, k, st). max_no_progress - k]"
    using r v by auto
qed simp

declare cleanup_loop.simps [simp del]

fun release_paths :: "'b store_env \<Rightarrow> string \<Rightarrow> string list \<Rightarrow> nat \<times> int \<times> 'b store_world \<Rightarrow> nat \<times> int \<times> 'b store_world" where
  "release_paths env rn [] st = st"
| "release_paths env rn (path # rest) (deleted, freed, w) =
     (case assets_by_path w 11 rn path of
        Inr (Some a) \<Rightarrow>
          (case delete_stale_asset env a w of
             ((ok, f), w1) \<Rightarrow> release_paths env rn rest (if ok then (Suc deleted, add64 freed f, w1) else (deleted, freed, w1)))
      | _ \<Rightarrow> release_paths env rn rest (deleted, freed, w))"

fun release_images ::
  "'b store_env \<Rightarrow> (bytes \<Rightarrow> manifest_doc option) \<Rightarrow> released_tags \<Rightarrow> nat \<times> int \<times> 'b store_world \<Rightarrow> nat \<times> int \<times> 'b store_world" where
  "release_images env dec [] st = st"
| "release_images env dec ((key, manifests) # rest) (deleted, freed, w) =
     (case plan_image_release (cleanup_read env) dec (fst (cut_key key)) (snd (cut_key key)) manifests w of
        (None, w1) \<Rightarrow> release_images env dec rest (deleted, freed, w1)
      | (Some paths, w1) \<Rightarrow> release_images env dec rest (release_paths env (fst (cut_key key)) paths (deleted, freed, w1)))"

definition delete_orphans_of :: "string list \<Rightarrow> 'b store_world \<Rightarrow> 'b store_world" where
  "delete_orphans_of names w = fold (\<lambda>rn w. delete_orphans w rn) names w"

text \<open>What a policy selects; \<^const>\<open>None\<close> if the attached repositories cannot be listed.\<close>

definition repos_of_policy :: "'b store_world \<Rightarrow> cleanup_policy \<Rightarrow> string list option" where
  "repos_of_policy w p =
     (if cp_scope_repository p \<noteq> [] then Some [cp_scope_repository p]
      else if sw_fail w S_Repo_List then None
      else Some (sort (map repo_name (filter (\<lambda>r. cp_id p \<in> set (repo_cleanup_policy_ids r)) (sw_repos w)))))"

definition query_of_policy :: "cleanup_policy \<Rightarrow> string list \<Rightarrow> stale_query" where
  "query_of_policy p names =
     \<lparr> sq_format = cp_format p, sq_repos = names, sq_last_downloaded = int_criteria (cp_criteria p) ''lastDownloadedDays'',
       sq_age = int_criteria (cp_criteria p) ''artifactAgeDays'',
       sq_prefix = (if cp_scope_repository p \<noteq> [] \<and> cp_scope_prefix p \<noteq> [] then cp_scope_prefix p
                    else str_criteria (cp_criteria p) ''pathPrefix''),
       sq_glob = str_criteria (cp_criteria p) ''nameGlob'', sq_retain = cp_retain p \<rparr>"

definition result_of :: "cleanup_policy \<Rightarrow> nat \<Rightarrow> int \<Rightarrow> bool \<Rightarrow> bool \<Rightarrow> cleanup_result" where
  "result_of p deleted freed skipped aborted =
     \<lparr> cr_policy = cp_id p, cr_deleted = deleted, cr_freed = freed, cr_dry_run = cp_dry_run p, cr_skipped = skipped, cr_aborted = aborted \<rparr>"

text \<open>
  \<open>prune\<close>: the service was given the component table. The statistics of the run go to \<open>RecordRun\<close>, the
  second component of the answer.
\<close>

definition run_policy ::
  "'b store_env \<Rightarrow> (bytes \<Rightarrow> manifest_doc option) \<Rightarrow> bool \<Rightarrow> (nat \<Rightarrow> time) \<Rightarrow> time \<Rightarrow> cleanup_policy \<Rightarrow> 'b store_world \<Rightarrow>
   (cleanup_result \<times> (nat \<times> int) option) option \<times> 'b store_world" where
  "run_policy env dec prune clk deadline p w =
     (case repos_of_policy w p of
        None \<Rightarrow> (None, w)
      | Some names \<Rightarrow>
          if names = [] then (Some (result_of p 0 0 True False, None), w)
          else let q = query_of_policy p names
               in if cp_dry_run p then
                    (if past_deadline (clk 0) deadline then (Some (result_of p 0 0 False True, Some (0, 0)), w)
                     else case list_stale w q batch_limit of
                       None \<Rightarrow> (None, w)
                     | Some stale \<Rightarrow>
                         (let f = foldl (\<lambda>f a. add64 f (asset_size a)) 0 stale
                          in (Some (result_of p (length stale) f False False, Some (length stale, f)), w)))
                  else (case cleanup_loop env q clk deadline 0 0 (0, 0, [], w) of
                          (None, deleted, freed, tags, w1) \<Rightarrow> (None, w1)
                        | (Some aborted, deleted, freed, tags, w1) \<Rightarrow>
                            (case (if aborted then (deleted, freed, w1) else release_images env dec (sort_key fst tags) (deleted, freed, w1)) of
                               (d, f, w2) \<Rightarrow>
                                 (Some (result_of p d f False aborted, Some (d, f)),
                                  if prune \<and> d > 0 then delete_orphans_of names w2 else w2))))"

text \<open>\<open>lock\<close> is the locker's answer, \<^const>\<open>None\<close> without a locker; \<open>now0\<close> is the time its deadline is counted from.\<close>

definition cleanup_lock_ttl :: duration where
  "cleanup_lock_ttl = minutes 30"

definition run_policy_locked ::
  "'b store_env \<Rightarrow> (bytes \<Rightarrow> manifest_doc option) \<Rightarrow> bool \<Rightarrow> (nat \<Rightarrow> time) \<Rightarrow> (lock_err + string) option \<Rightarrow> time \<Rightarrow> cleanup_policy \<Rightarrow>
   'b store_world \<Rightarrow> (cleanup_result \<times> (nat \<times> int) option) option \<times> 'b store_world" where
  "run_policy_locked env dec prune clk lock now0 p w =
     (case lock of
        None \<Rightarrow> run_policy env dec prune clk zero_time p w
      | Some (Inl e) \<Rightarrow> (if e = Err_Lock_Held then Some (result_of p 0 0 True False, None) else None, w)
      | Some (Inr _) \<Rightarrow> run_policy env dec prune clk (now0 + cleanup_lock_ttl) p w)"

text \<open>
  \<open>PreviewPolicy\<close>: the first two hundred rows, with their sizes added up. Unlike a run it does not stop when the
  policy is attached to no repository: the query then looks at all of them.
\<close>

record preview_asset =
  pv_path :: string
  pv_repository :: string
  pv_size :: int
  pv_last_downloaded :: "time option"
  pv_created_at :: time
  pv_reason :: string

definition preview_reason :: "cleanup_policy \<Rightarrow> string" where
  "preview_reason p =
     (let dl = int_criteria (cp_criteria p) ''lastDownloadedDays''; age = int_criteria (cp_criteria p) ''artifactAgeDays''
      in if dl > 0 then ''not dl '' @ itoa dl @ ''d'' else if age > 0 then ''age '' @ itoa age @ ''d'' else ''stale'')"

definition preview_policy :: "cleanup_policy \<Rightarrow> 'b store_world \<Rightarrow> (preview_asset list \<times> int) option" where
  "preview_policy p w =
     (case repos_of_policy w p of
        None \<Rightarrow> None
      | Some names \<Rightarrow>
          (case list_stale w (query_of_policy p names) 200 of
             None \<Rightarrow> None
           | Some stale \<Rightarrow>
               Some (map (\<lambda>a. \<lparr> pv_path = asset_path a, pv_repository = asset_repository a, pv_size = asset_size a,
                              pv_last_downloaded = asset_last_downloaded a, pv_created_at = asset_created_at a, pv_reason = preview_reason p \<rparr>) stale,
                     foldl (\<lambda>t a. add64 t (asset_size a)) 0 stale)))"

text \<open>A policy attached to nothing deletes nothing, and yet its preview lists rows of every repository.\<close>

lemma unattached_run: "repos_of_policy w p = Some [] \<Longrightarrow> run_policy env dec prune clk deadline p w = (Some (result_of p 0 0 True False, None), w)"
  by (simp add: run_policy_def)

lemma unattached_preview:
  assumes "repos_of_policy w p = Some []" "preview_policy p w = Some (rows, bytes)" "length (filter (is_stale w (query_of_policy p [])) (sw_assets w)) \<le> 200"
    "a \<in> set (sw_assets w)" "is_stale w (query_of_policy p []) a"
  shows "asset_path a \<in> set (map pv_path rows)"
proof -
  have "rows = map (\<lambda>a. \<lparr> pv_path = asset_path a, pv_repository = asset_repository a, pv_size = asset_size a,
      pv_last_downloaded = asset_last_downloaded a, pv_created_at = asset_created_at a, pv_reason = preview_reason p \<rparr>)
      (sort_key asset_created_at (filter (is_stale w (query_of_policy p [])) (sw_assets w)))"
    using assms(1-3) by (auto simp: preview_policy_def list_stale_def split: if_splits)
  then show ?thesis using assms(4,5) by (auto simp: image_image)
qed

end
