(* ===== verification/Cleanup_Safety.thy ===== *)
theory Cleanup_Safety
  imports Cleanup Placement
begin

text \<open>
  What a cleanup run deletes: rows its policy selects and, of hosted OCI images whose tags it expired,
  digest aliases and blobs. Every other path keeps its content, and the counter is the number of rows gone.
\<close>

section \<open>Steps that only take rows away\<close>

definition thins ::
  "('b \<Rightarrow> string \<Rightarrow> (bytes \<times> time) option) \<Rightarrow> (string \<Rightarrow> bool) \<Rightarrow> ('b \<Rightarrow> bool) \<Rightarrow> 'b store_env \<Rightarrow> (string \<times> string) set \<Rightarrow>
   'b store_world \<Rightarrow> 'b store_world \<Rightarrow> bool" where
  "thins obj valid good env gone w w' \<longleftrightarrow>
     tables_ok w' \<and> registry_ok env w' \<and> intact obj valid good env w' \<and> same_frame env w w' \<and>
     set (sw_assets w') \<subseteq> set (sw_assets w) \<and> sw_repos w' = sw_repos w \<and> sw_comps w' = sw_comps w \<and> sw_now w' = sw_now w \<and> sw_fail w' = sw_fail w \<and>
     (\<forall>rn path. content obj env w' rn path = content obj env w rn path \<or> (rn, path) \<in> gone \<and> content obj env w' rn path = None)"

lemma thinsD:
  assumes "thins obj valid good env gone w w'"
  shows "tables_ok w'" "registry_ok env w'" "intact obj valid good env w'" "same_frame env w w'" "set (sw_assets w') \<subseteq> set (sw_assets w)"
    "sw_repos w' = sw_repos w" "sw_comps w' = sw_comps w" "sw_now w' = sw_now w" "sw_fail w' = sw_fail w"
    "content obj env w' rn path = content obj env w rn path \<or> (rn, path) \<in> gone \<and> content obj env w' rn path = None"
  using assms by (simp_all add: thins_def)

lemma thins_refl: "tables_ok w \<Longrightarrow> registry_ok env w \<Longrightarrow> intact obj valid good env w \<Longrightarrow> thins obj valid good env gone w w"
  by (simp add: thins_def)

lemma thins_trans:
  assumes "thins obj valid good env g1 w w1" "thins obj valid good env g2 w1 w2" "g1 \<subseteq> g" "g2 \<subseteq> g"
  shows "thins obj valid good env g w w2"
proof -
  note a = thinsD [OF assms(1)] and b = thinsD [OF assms(2)]
  have "content obj env w2 rn path = content obj env w rn path \<or> (rn, path) \<in> g \<and> content obj env w2 rn path = None" for rn path
    using a(10) [of rn path] b(10) [of rn path] assms(3,4) by auto
  then show ?thesis using a b same_frame_trans [OF a(4) b(4)] by (auto simp: thins_def)
qed

lemma thins_mono: "thins obj valid good env g w w' \<Longrightarrow> g \<subseteq> g' \<Longrightarrow> thins obj valid good env g' w w'"
  unfolding thins_def by blast

lemma thins_registry:
  assumes "registry_step env w w'" "tables_ok w" "registry_ok env w" "intact obj valid good env w"
  shows "thins obj valid good env gone w w'"
proof -
  note f = registry_step_fields [OF assms(1)]
  have "sw_comps w' = sw_comps w" "sw_now w' = sw_now w" using f by simp_all
  then show ?thesis
    using f registry_step_views [OF assms(1)] registry_step_frame [OF assms(1)] registry_step_ok [OF assms(1,3)] assms(2,4)
    by (simp add: thins_def)
qed

text \<open>Stores can be resolved: no read or deletion falls back to the default store.\<close>

definition stores_usable :: "'b store_env \<Rightarrow> 'b store_world \<Rightarrow> bool" where
  "stores_usable env w \<longleftrightarrow>
     se_registry_on env \<and> \<not> sw_fail w (S_Blob_By_Id 15) \<and>
     (\<forall>d \<in> set (map descriptor_of (sw_stores w)). trim_space (bd_id d) \<noteq> [] \<and> new_from_descriptor (se_azure_url env) (se_reachable env) d \<noteq> None) \<and>
     (\<forall>a \<in> set (sw_assets w). asset_blob_store_id a = [] \<or> asset_blob_store_id a \<in> set (map bs_id (sw_stores w)))"

lemma thins_usable: "thins obj valid good env gone w w' \<Longrightarrow> stores_usable env w \<Longrightarrow> stores_usable env w'"
  using same_frame_stores [of env w w'] unfolding thins_def stores_usable_def by (auto simp: subset_iff)

lemma registry_usable: "registry_step env w w' \<Longrightarrow> stores_usable env w \<Longrightarrow> stores_usable env w'"
  using registry_step_fields [of env w w'] by (simp add: stores_usable_def)

lemma store_for_asset_usable:
  assumes "store_for_asset env a w = (p, w')" "tables_ok w" "registry_ok env w" "stores_usable env w"
    "asset_blob_store_id a = [] \<or> asset_blob_store_id a \<in> set (map bs_id (sw_stores w))"
  shows "registry_step env w w'" "p = store_space env w (asset_blob_store_id a)"
proof -
  have "registry_step env w w' \<and> p = store_space env w (asset_blob_store_id a)"
  proof (cases "asset_blob_store_id a = []")
    case True
    then show ?thesis using assms(1) by (auto simp: store_for_asset_def store_space_def default_space_def trim_space_def)
  next
    case False
    then obtain b where b: "b \<in> set (sw_stores w)" "bs_id b = asset_blob_store_id a" using assms(5) by auto
    then have f: "stores_by_id w 15 (asset_blob_store_id a) = Some b"
      using find_unique [OF tables_ok_stores(1) [OF assms(2)] b(1)] assms(4) by (simp add: stores_by_id_def stores_usable_def)
    have on: "se_registry_on env" "trim_space (bs_id b) \<noteq> []" "new_from_descriptor (se_azure_url env) (se_reachable env) (descriptor_of b) \<noteq> None"
      using assms(4) b(1) by (auto simp: stores_usable_def descriptor_of_def)
    obtain o1 r' where g: "registry_get (se_azure_url env) (se_reachable env) (sw_registry w) (descriptor_of b) = (o1, r')"
      by (cases "registry_get (se_azure_url env) (se_reachable env) (sw_registry w) (descriptor_of b)")
    have "o1 \<noteq> None" using g on(3) by (auto simp: registry_get_def split: if_splits option.splits) metis+
    then obtain q where q: "o1 = Some q" by blast
    note s = registry_get_space [OF g b(1) assms(2,3) on(1,2)]
    show ?thesis using assms(1) f False on(1) g q s b(2) by (simp add: store_for_asset_def)
  qed
  then show "registry_step env w w'" "p = store_space env w (asset_blob_store_id a)" by simp_all
qed

context blob_store_laws
begin

lemma cleanup_read_row:
  assumes "cleanup_read env a w = (r, w')" "row_at w rn path = Some a" "se_ops env = ops" "intact obj valid good env w" "tables_ok w" "registry_ok env w"
    "stores_usable env w"
  shows "registry_step env w w' \<and> stores_usable env w' \<and> (\<forall>c. r = Some c \<longrightarrow> content obj env w rn path = Some c)"
proof -
  obtain p w1 where s: "store_for_asset env a w = (p, w1)" by (cases "store_for_asset env a w")
  have "asset_blob_store_id a = [] \<or> asset_blob_store_id a \<in> set (map bs_id (sw_stores w))"
    using assms(7) row_at_mem [OF assms(2)] by (simp add: stores_usable_def)
  note u = store_for_asset_usable [OF s assms(5,6,7) this]
  have w': "w' = w1" using assms(1) s by (auto simp: cleanup_read_def split: sum.splits)
  have "content obj env w rn path = Some c" if rc: "r = Some c" for c
  proof -
    obtain n where "bo_get ops (sw_phys w1 p) (asset_blob_key a) = Inr (c, n)"
      using assms(1,3) s rc by (auto simp: cleanup_read_def split: sum.splits)
    moreover have "sw_phys w1 = sw_phys w" by (rule registry_step_fields(3) [OF u(1)])
    moreover have "valid (asset_blob_key a)" "good (sw_phys w p)" using assms(2,4) by (auto simp: intact_def)
    ultimately show ?thesis using get_obj [of "sw_phys w p" "asset_blob_key a" c n] u(2) assms(2) by (simp add: content_def row_obj_def)
  qed
  then show ?thesis using w' u(1) registry_usable [OF u(1) assms(7)] by simp
qed

text \<open>Rows that stay keep their objects: then nothing but the removed row's content changed.\<close>

lemma content_frame:
  assumes int: "intact obj valid good env w" and good: "\<And>q. good (sw_phys w' q)"
    and gone: "row_at w' rn path = None"
    and rows: "\<And>rn' path'. (rn', path') \<noteq> (rn, path) \<Longrightarrow> row_at w' rn' path' = row_at w rn' path'"
    and objs: "\<And>rn' path' x. row_at w' rn' path' = Some x \<Longrightarrow> row_obj obj env w' x = row_obj obj env w x"
  shows "intact obj valid good env w'" "(rn', path') \<noteq> (rn, path) \<Longrightarrow> content obj env w' rn' path' = content obj env w rn' path'"
    "content obj env w' rn path = None"
proof -
  have old: "row_at w rn' path' = Some x" if "row_at w' rn' path' = Some x" for rn' path' x
    using that rows [of rn' path'] gone by (cases "(rn', path') = (rn, path)") auto
  show "intact obj valid good env w'"
    unfolding intact_def
  proof (intro conjI allI impI good)
    fix rn' path' x assume x: "row_at w' rn' path' = Some x"
    show "valid (asset_blob_key x)" using int old [OF x] by (auto simp: intact_def)
    show "\<exists>c t. row_obj obj env w' x = Some (c, t) \<and> asset_sha256 x = se_sha256 env c"
      using int old [OF x] unfolding objs [OF x] intact_def by blast
  qed
  show "content obj env w' rn' path' = content obj env w rn' path'" if "(rn', path') \<noteq> (rn, path)"
    using rows [OF that] objs [of rn' path'] by (auto simp: content_def split: option.split)
  show "content obj env w' rn path = None" using gone by (simp add: content_def)
qed

lemma delete_stale_view:
  assumes d: "delete_stale_asset env a w = ((rd, fr), w')" and env: "se_ops env = ops" and ok: "tables_ok w" and reg: "registry_ok env w"
    and int: "intact obj valid good env w" and us: "stores_usable env w" and a: "a \<in> set (sw_assets w)"
  shows "thins obj valid good env {(asset_repository a, asset_path a)} w w'"
    "sw_assets w' = (if rd then filter (\<lambda>x. x \<noteq> a) (sw_assets w) else sw_assets w)"
proof -
  note row = row_at_self [OF ok a]
  let ?T = "thins obj valid good env {(asset_repository a, asset_path a)} w w'"
  let ?A = "sw_assets w' = (if rd then filter (\<lambda>x. x \<noteq> a) (sw_assets w) else sw_assets w)"
  have hit: "asset_id x = asset_id a \<and> asset_blob_key x = asset_blob_key a \<and>
      asset_last_downloaded x = asset_last_downloaded a \<and> asset_last_modified x = asset_last_modified a \<longleftrightarrow> x = a" if "x \<in> set (sw_assets w)" for x
    using asset_id_unique [OF ok a that] by auto
  define w1 where "w1 = w\<lparr> sw_assets := filter (\<lambda>x. x \<noteq> a) (sw_assets w) \<rparr>"
  have flt: "filter (\<lambda>x. \<not> (asset_id x = asset_id a \<and> asset_blob_key x = asset_blob_key a \<and>
      asset_last_downloaded x = asset_last_downloaded a \<and> asset_last_modified x = asset_last_modified a)) (sw_assets w) = filter (\<lambda>x. x \<noteq> a) (sw_assets w)"
    by (rule filter_cong [OF refl]) (use hit in blast)
  have ids: "filter (\<lambda>x. x \<noteq> a) (sw_assets w) = filter (\<lambda>x. asset_id x \<noteq> asset_id a) (sw_assets w)"
    by (rule filter_cong [OF refl]) (use asset_id_unique [OF ok a] in blast)
  show ?T ?A
  proof (atomize (full), cases "sw_fail w (S_Lock (asset_blob_key a)) \<or> sw_fail w S_Asset_Delete")
    case True
    then have "w' = w" "\<not> rd" using d by (auto simp: delete_stale_asset_def delete_stale_locked_def delete_if_unchanged_def split: if_splits)
    then show "?T \<and> ?A" using thins_refl [OF ok reg int] by simp
  next
    case False
    have du: "delete_if_unchanged w a = (Some True, w1)"
      using False a unfolding delete_if_unchanged_def Let_def flt w1_def by auto
    have w1: "sw_assets w1 = filter (\<lambda>x. asset_id x \<noteq> asset_id a) (sw_assets w)" "same_layout w w1" "sw_phys w1 = sw_phys w"
      "sw_fail w1 = sw_fail w" "sw_comps w1 = sw_comps w" "sw_now w1 = sw_now w" "sw_repos w1 = sw_repos w" "sw_stores w1 = sw_stores w"
      "sw_registry w1 = sw_registry w"
      by (simp_all add: w1_def same_layout_def ids)
    note d1 = delete_row [OF ok row w1(1,2)]
    have fin: "?T \<and> ?A" if v: "rd" "same_frame env w w'" "sw_assets w' = sw_assets w1" "sw_repos w' = sw_repos w" "sw_comps w' = sw_comps w"
        "sw_now w' = sw_now w" "sw_fail w' = sw_fail w" "tables_ok w'"
        and good: "\<And>q. good (sw_phys w' q)"
        and objs: "\<And>x. x \<in> set (sw_assets w1) \<Longrightarrow> valid (asset_blob_key x) \<Longrightarrow>
          obj (sw_phys w' (store_space env w (asset_blob_store_id x))) (asset_blob_key x) = obj (sw_phys w (store_space env w (asset_blob_store_id x))) (asset_blob_key x)"
    proof -
      have rows: "row_at w' = row_at w1" by (rule row_at_frame [OF v(3)])
      have keys: "row_obj obj env w' x = row_obj obj env w x" if x: "row_at w' rn path = Some x" for rn path x
      proof -
        have m: "x \<in> set (sw_assets w1)" using row_at_mem [OF x] v(3) by simp
        then have "row_at w (asset_repository x) (asset_path x) = Some x" using row_at_self [OF ok] by (simp add: w1_def)
        then have "valid (asset_blob_key x)" using int by (auto simp: intact_def)
        from objs [OF m this] show ?thesis by (simp add: row_obj_def same_frame_space [OF v(2)])
      qed
      note c = content_frame [OF int good d1(2) [folded rows] d1(3) [folded rows] keys]
      have cont: "content obj env w' rn path = content obj env w rn path \<or>
          (rn, path) \<in> {(asset_repository a, asset_path a)} \<and> content obj env w' rn path = None" for rn path
        using c(2) [where rn' = rn and path' = path] c(3) by (cases "(rn, path) = (asset_repository a, asset_path a)") auto
      have "intact obj valid good env w'" by (rule c(1)) assumption+
      moreover have "set (sw_assets w') \<subseteq> set (sw_assets w)" using v(3) by (auto simp: w1_def)
      moreover have "registry_ok env w'" using v(2) reg by (simp add: same_frame_def)
      ultimately have ?T unfolding thins_def using v cont by blast
      then show ?thesis using v(1,3) by (simp add: w1_def)
    qed
    have good: "\<And>q. good (sw_phys w1 q)" using int w1(3) by (simp add: intact_def)
    show "?T \<and> ?A"
    proof (cases "count_by_blob_key w1 5 (asset_blob_key a) (asset_id a) = Some 0")
      case False
      then have "w' = w1" "rd"
        using d du \<open>\<not> (_ \<or> _)\<close> by (auto simp: delete_stale_asset_def delete_stale_locked_def split: option.splits if_splits)
      then show ?thesis using fin same_layout_frame [OF w1(2)] w1 d1(1) good by simp
    next
      case True
      obtain p w2 where s: "store_for_asset env a w1 = (p, w2)" by (cases "store_for_asset env a w1")
      obtain e w3 where p: "phys_delete env p (asset_blob_key a) w2 = (e, w3)" by (cases "phys_delete env p (asset_blob_key a) w2")
      have w': "rd" "w' = (if e = None then decrement_usage w3 a else w3)"
        using d du True s p \<open>\<not> (_ \<or> _)\<close> by (auto simp: delete_stale_asset_def delete_stale_locked_def split: option.splits)
      have sp: "store_space env w1 = store_space env w" by (rule same_layout_space [OF w1(2)])
      have us1: "stores_usable env w1" "registry_ok env w1" using us reg same_layout_registry_ok [OF w1(2)]
        by (simp_all add: stores_usable_def w1(4,8) w1_def)
      have "asset_blob_store_id a = [] \<or> asset_blob_store_id a \<in> set (map bs_id (sw_stores w1))"
        using us a w1(8) by (simp add: stores_usable_def)
      note s1 = store_for_asset_usable [OF s d1(1) us1(2,1) this]
      note f2 = registry_step_fields [OF s1(1)]
      have good2: "\<And>q. good (sw_phys w2 q)" using good f2(3) by simp
      have va: "valid (asset_blob_key a)" using int row by (auto simp: intact_def)
      note t = phys_delete_touches [OF p env good2 valid_entry [OF va]]
      note f3 = phys_only_frame [OF t(2)]
      have alone: "asset_blob_key x \<noteq> asset_blob_key a" if "x \<in> set (sw_assets w1)" for x
        using True that asset_id_unique [OF ok a, of x] by (auto simp: count_by_blob_key_def filter_empty_conv w1_def split: if_splits)
      have lay: "same_layout w2 w'" "sw_assets w' = sw_assets w3" "sw_phys w' = sw_phys w3" "sw_repos w' = sw_repos w3"
          "sw_comps w' = sw_comps w3" "sw_now w' = sw_now w3" "sw_fail w' = sw_fail w3"
        using same_layout_trans [OF f3(1) decrement_usage_frame(1)] f3(1) decrement_usage_frame [of w3 a]
        by (auto simp: w'(2) decrement_usage_def update_used_bytes_def split: option.splits)
      obtain f where f: "w3 = w2\<lparr> sw_phys := f \<rparr>" using t(2) by blast
      have w3: "sw_repos w3 = sw_repos w2" "sw_comps w3 = sw_comps w2" "sw_now w3 = sw_now w2" "sw_fail w3 = sw_fail w2"
        by (simp_all add: f)
      show ?thesis
      proof (rule fin)
        show "same_frame env w w'"
          by (rule same_frame_trans [OF same_layout_frame [OF w1(2)] same_frame_trans [OF registry_step_frame [OF s1(1)] same_layout_frame [OF lay(1)]]])
        show "sw_assets w' = sw_assets w1" using lay(2) f3(2) f2(1) by simp
        show "tables_ok w'" by (rule tables_ok_frame [OF _ lay(1)]) (use d1(1) f2(12) lay(2) f3(2) in simp_all)
        show "good (sw_phys w' q)" for q using t(1) lay(3) by (simp add: touches_def)
        show "obj (sw_phys w' (store_space env w (asset_blob_store_id x))) (asset_blob_key x) = obj (sw_phys w (store_space env w (asset_blob_store_id x))) (asset_blob_key x)"
          if "x \<in> set (sw_assets w1)" "valid (asset_blob_key x)" for x
          using t(1) alone [OF that(1)] that(2) lay(3) f2(3) w1(3) by (simp add: touches_def)
      qed (use w' lay w3 f2 w1 in simp_all)
    qed
  qed
qed

end

interpretation cleanup_reader: manifest_reader local_ops local_obj valid_key entry_key local_good cleanup_read stores_usable
  by unfold_locales (rule local_blobs.cleanup_read_row)

section \<open>Batches and passes\<close>

lemma is_stale_frame: "sw_repos w' = sw_repos w \<Longrightarrow> sw_comps w' = sw_comps w \<Longrightarrow> sw_now w' = sw_now w \<Longrightarrow> is_stale w' q a = is_stale w q a"
proof -
  assume a: "sw_repos w' = sw_repos w" "sw_comps w' = sw_comps w" "sw_now w' = sw_now w"
  have e: "repo_of_id w' = repo_of_id w" "comp_of_id w' = comp_of_id w" by (simp_all add: fun_eq_iff repo_of_id_def comp_of_id_def a)
  have r: "retained_comps w' = retained_comps w" unfolding fun_eq_iff retained_comps_def e a by simp
  show ?thesis unfolding is_stale_def e r a ..
qed

definition selected :: "'b store_world \<Rightarrow> stale_query \<Rightarrow> (string \<times> string) set" where
  "selected w q = {(asset_repository a, asset_path a) |a. a \<in> set (sw_assets w) \<and> is_stale w q a}"

definition hosted_oci :: "'b store_world \<Rightarrow> string \<Rightarrow> bool" where
  "hosted_oci w rn \<longleftrightarrow> (case repos_get w rn of None \<Rightarrow> False | Some r \<Rightarrow> repo_kind r = TypeHosted \<and> is_oci_registry (repo_fmt r))"

text \<open>The manifests a run has put aside are the bodies of tags it found.\<close>

definition tags_sound :: "('b \<Rightarrow> string \<Rightarrow> (bytes \<times> time) option) \<Rightarrow> 'b store_env \<Rightarrow> 'b store_world \<Rightarrow> released_tags \<Rightarrow> bool" where
  "tags_sound obj env w tags \<longleftrightarrow>
     (\<forall>(k, ms) \<in> set tags. \<exists>rn img. k = tag_key rn img \<and> hosted_oci w rn \<and>
        (\<forall>(sha, body) \<in> set ms. \<exists>r. content obj env w rn (manifest_path img r) = Some body))"

lemma tags_soundD:
  assumes "tags_sound obj env w tags" "(k, ms) \<in> set tags"
  obtains rn img where "k = tag_key rn img" "hosted_oci w rn"
    "\<And>sha body. (sha, body) \<in> set ms \<Longrightarrow> \<exists>r. content obj env w rn (manifest_path img r) = Some body"
  using assms unfolding tags_sound_def by fastforce

lemma alist_update_mem: "x \<in> set (AList.update k v xs) \<Longrightarrow> x = (k, v) \<or> x \<in> set xs"
  by (induction xs) (auto split: if_splits)

lemma tag_key_eq: "CHR 0x00 \<notin> set rn \<Longrightarrow> cut_key (tag_key rn img) = (rn, img)"
  by (induction rn) (auto simp: cut_key_def tag_key_def)

lemma tag_key_inj:
  assumes "tag_key rn img = tag_key rn' img'" "CHR 0x00 \<notin> set rn" "CHR 0x00 \<notin> set rn'"
  shows "rn = rn' \<and> img = img'"
proof -
  have "(rn, img) = cut_key (tag_key rn img)" by (rule tag_key_eq [OF assms(2), symmetric])
  also have "\<dots> = (rn', img')" unfolding assms(1) by (rule tag_key_eq [OF assms(3)])
  finally show ?thesis by simp
qed

lemma add_tag_sound:
  assumes "tags_sound obj env w tags" "hosted_oci w rn" "content obj env w rn (manifest_path img r) = Some body"
    and nul: "\<And>rn. hosted_oci w rn \<Longrightarrow> CHR 0x00 \<notin> set rn"
  shows "tags_sound obj env w (add_tag (tag_key rn img) sha body tags)"
  unfolding tags_sound_def
proof safe
  fix k ms assume "(k, ms) \<in> set (add_tag (tag_key rn img) sha body tags)"
  from alist_update_mem [OF this [unfolded add_tag_def]]
  consider "(k, ms) \<in> set tags" | "k = tag_key rn img" "ms = AList.update sha body (case map_of tags (tag_key rn img) of None \<Rightarrow> [] | Some m \<Rightarrow> m)"
    by auto
  then show "\<exists>rn img. k = tag_key rn img \<and> hosted_oci w rn \<and> (\<forall>(sha, body) \<in> set ms. \<exists>r. content obj env w rn (manifest_path img r) = Some body)"
  proof cases
    case 1
    then show ?thesis using assms(1) unfolding tags_sound_def by blast
  next
    case 2
    have "\<exists>r. content obj env w rn (manifest_path img r) = Some b" if sb: "(s, b) \<in> set ms" for s b
    proof (cases "map_of tags (tag_key rn img)")
      case None
      then show ?thesis using sb assms(3) unfolding 2(2) by auto
    next
      case (Some m)
      obtain rn' img' where m: "tag_key rn img = tag_key rn' img'" "hosted_oci w rn'"
        "\<And>sha body. (sha, body) \<in> set m \<Longrightarrow> \<exists>r. content obj env w rn' (manifest_path img' r) = Some body"
        by (rule tags_soundD [OF assms(1) map_of_SomeD [OF Some]]) (rule that; assumption)
      have "rn' = rn \<and> img' = img" using tag_key_inj [OF m(1) nul [OF assms(2)] nul [OF m(2)]] by simp
      then show ?thesis using alist_update_mem [OF sb [unfolded 2(2) Some option.case]] m(3) assms(3) by auto
    qed
    then show ?thesis using 2(1) assms(2) by blast
  qed
qed

lemma length_filter_one: "distinct xs \<Longrightarrow> a \<in> set xs \<Longrightarrow> Suc (length (filter (\<lambda>x. x \<noteq> a) xs)) = length xs"
proof (induction xs)
  case (Cons x xs)
  then show ?case by (cases "x = a") (auto intro!: arg_cong [where f = length] filter_True)
qed simp

definition deletions_work :: "'b store_world \<Rightarrow> bool" where
  "deletions_work w \<longleftrightarrow> \<not> sw_fail w S_Asset_Delete \<and> (\<forall>k. \<not> sw_fail w (S_Lock k))"

text \<open>What a run starts from and keeps at every step.\<close>

definition steady ::
  "'b blob_ops \<Rightarrow> ('b \<Rightarrow> string \<Rightarrow> (bytes \<times> time) option) \<Rightarrow> (string \<Rightarrow> bool) \<Rightarrow> ('b \<Rightarrow> bool) \<Rightarrow> 'b store_env \<Rightarrow> 'b store_world \<Rightarrow> bool" where
  "steady ops obj valid good env w \<longleftrightarrow>
     se_ops env = ops \<and> tables_ok w \<and> registry_ok env w \<and> intact obj valid good env w \<and> stores_usable env w"

lemma steadyD:
  "steady ops obj valid good env w \<Longrightarrow> se_ops env = ops" "steady ops obj valid good env w \<Longrightarrow> tables_ok w"
  "steady ops obj valid good env w \<Longrightarrow> registry_ok env w" "steady ops obj valid good env w \<Longrightarrow> intact obj valid good env w"
  "steady ops obj valid good env w \<Longrightarrow> stores_usable env w"
  by (simp_all add: steady_def)

text \<open>Reading a tag before its row goes.\<close>

lemma tag_path_split:
  assumes "has_prefix path ''/manifests/''" "str_last_index (trim_prefix path ''/manifests/'') ''/'' = Some i"
  shows "path = manifest_path (take i (trim_prefix path ''/manifests/'')) (drop (Suc i) (trim_prefix path ''/manifests/''))"
proof -
  let ?rest = "trim_prefix path ''/manifests/''"
  obtain t where t: "drop i ?rest = ''/'' @ t" using str_last_index_Some [OF assms(2)] by blast
  have "?rest = take i ?rest @ drop i ?rest" by simp
  also have "drop i ?rest = ''/'' @ drop (Suc i) ?rest" using t by (metis append_Cons append_Nil drop_Suc list.sel(3) tl_drop)
  finally have "?rest = take i ?rest @ ''/'' @ drop (Suc i) ?rest" .
  moreover have "path = ''/manifests/'' @ ?rest" using assms(1) by (auto simp: has_prefix_iff trim_prefix_def)
  ultimately show ?thesis unfolding manifest_path_def by metis
qed

context blob_store_laws
begin

lemma steady_thins: "steady ops obj valid good env w \<Longrightarrow> thins obj valid good env gone w w' \<Longrightarrow> steady ops obj valid good env w'"
  using thinsD [of obj valid good env gone w w'] thins_usable [of obj valid good env gone w w'] by (simp add: steady_def)

lemma thins_content: "thins obj valid good env gone w w' \<Longrightarrow> content obj env w' rn path = Some c \<Longrightarrow> content obj env w rn path = Some c"
  using thinsD(10) [of obj valid good env gone w w' rn path] by auto

lemma thins_hosted: "thins obj valid good env gone w w' \<Longrightarrow> hosted_oci w' rn = hosted_oci w rn"
  using thinsD(6,9) [of obj valid good env gone w w'] by (simp add: hosted_oci_def repos_get_def)

lemma oci_tag_body_view:
  assumes "oci_tag_body env a w = (tag, w')" "steady ops obj valid good env w" "a \<in> set (sw_assets w)"
  shows "thins obj valid good env gone w w'" "sw_assets w' = sw_assets w"
    "tag = Some (img, body) \<Longrightarrow> hosted_oci w (asset_repository a) \<and> (\<exists>r. content obj env w (asset_repository a) (manifest_path img r) = Some body)"
proof -
  let ?c = "\<lambda>img body. hosted_oci w (asset_repository a) \<and> (\<exists>r. content obj env w (asset_repository a) (manifest_path img r) = Some body)"
  have "registry_step env w w' \<and> (\<forall>img body. tag = Some (img, body) \<longrightarrow> ?c img body)"
  proof (cases "w' = w \<and> tag = None")
    case False
    let ?rest = "trim_prefix (asset_path a) ''/manifests/''"
    obtain repo i where r: "repos_get w (asset_repository a) = Some repo" "repo_kind repo = TypeHosted" "is_oci_registry (repo_fmt repo)"
      "has_prefix (asset_path a) ''/manifests/''" "str_last_index ?rest ''/'' = Some i"
      "(tag, w') = (case cleanup_read env a w of (None, w1) \<Rightarrow> (None, w1) | (Some b, w1) \<Rightarrow> (Some (take i ?rest, b), w1))"
      using assms(1) False unfolding oci_tag_body_def Let_def by (auto split: option.splits if_splits)
    obtain b w1 where c: "cleanup_read env a w = (b, w1)" by (cases "cleanup_read env a w")
    note st = steadyD [OF assms(2)]
    note v = cleanup_read_row [OF c row_at_self [OF st(2) assms(3)] st(1,4,2,3,5)]
    have w': "w' = w1" "tag = map_option (Pair (take i ?rest)) b" using r(6) c by (auto split: option.splits)
    have h: "hosted_oci w (asset_repository a)" using r(1-3) by (simp add: hosted_oci_def)
    have b: "content obj env w (asset_repository a) (manifest_path (take i ?rest) (drop (Suc i) ?rest)) = Some body" if "b = Some body" for body
      using v that by (simp add: tag_path_split [OF r(4,5), symmetric])
    have "?c img body" if "tag = Some (img, body)" for img body
    proof -
      have "b = Some body" "img = take i ?rest" using that w'(2) by auto
      then show ?thesis using h b by blast
    qed
    then show ?thesis using v w'(1) by blast
  qed simp
  note s = this
  note st = steadyD [OF assms(2)]
  show "thins obj valid good env gone w w'" by (rule thins_registry [OF _ st(2,3,4)]) (use s in blast)
  show "sw_assets w' = sw_assets w" using s registry_step_fields(1) by blast
  show "tag = Some (img, body) \<Longrightarrow> ?c img body" using s by blast
qed

lemma delete_stale_hits:
  assumes "delete_stale_asset env a w = ((rd, fr), w')" "deletions_work w" "a \<in> set (sw_assets w)"
  shows rd
proof -
  obtain w1 where "delete_if_unchanged w a = (Some True, w1)"
    using assms(2,3) by (auto simp: delete_if_unchanged_def deletions_work_def Let_def)
  then show ?thesis
    using assms(1,2) by (auto simp: delete_stale_asset_def delete_stale_locked_def deletions_work_def split: option.splits if_splits prod.splits)
qed

lemma delete_batch_view:
  assumes "delete_batch env as (d, f, tags, w) = (d', f', tags', w')" "distinct as" "set as \<subseteq> set (sw_assets w)" "steady ops obj valid good env w"
    "thins obj valid good env gone w0 w" "tags_sound obj env w0 tags" "(\<lambda>a. (asset_repository a, asset_path a)) ` set as \<subseteq> gone"
    and nul: "\<And>rn. hosted_oci w0 rn \<Longrightarrow> CHR 0x00 \<notin> set rn"
  shows "thins obj valid good env gone w0 w' \<and> steady ops obj valid good env w' \<and> tags_sound obj env w0 tags' \<and>
    length (sw_assets w') + d' = length (sw_assets w) + d \<and> (deletions_work w0 \<longrightarrow> d' = d + length as)"
  using assms(1-7)
proof (induction as arbitrary: d f tags w)
  case (Cons a rest)
  obtain tag w1 where t: "oci_tag_body env a w = (tag, w1)" by (cases "oci_tag_body env a w")
  obtain rd fr w2 where s: "delete_stale_asset env a w1 = ((rd, fr), w2)" by (metis surj_pair)
  have a: "a \<in> set (sw_assets w)" using Cons.prems(3) by simp
  note v = oci_tag_body_view [OF t Cons.prems(4) a]
  have s1: "steady ops obj valid good env w1" by (rule steady_thins [OF Cons.prems(4) v(1)])
  note st = steadyD [OF s1]
  note u = delete_stale_view [OF s st(1,2,3,4,5)] 
  have a1: "a \<in> set (sw_assets w1)" using a v(2) by simp
  have s2: "steady ops obj valid good env w2" by (rule steady_thins [OF s1 u(1) [OF a1]])
  have th: "thins obj valid good env gone w0 w2"
    by (rule thins_trans [OF thins_trans [OF Cons.prems(5) v(1) subset_refl subset_refl] u(1) [OF a1]]) (use Cons.prems(7) in auto)
  have as2: "sw_assets w2 = (if rd then filter (\<lambda>x. x \<noteq> a) (sw_assets w) else sw_assets w)" using u(2) [OF a1] v(2) by simp
  have dist: "distinct (sw_assets w)" using steadyD(2) [OF Cons.prems(4)] by (auto simp: tables_ok_def distinct_map)
  have len: "length (sw_assets w2) + (if rd then 1 else 0) = length (sw_assets w)"
  proof -
    have "Suc (length (filter (\<lambda>x. x \<noteq> a) (sw_assets w))) = length (sw_assets w)" by (rule length_filter_one [OF dist a])
    then show ?thesis using as2 by simp
  qed
  define tags2 where "tags2 = (case tag of None \<Rightarrow> tags | Some (img, body) \<Rightarrow> add_tag (tag_key (asset_repository a) img) (asset_sha256 a) body tags)"
  have ts: "tags_sound obj env w0 tags2"
  proof (cases tag)
    case None
    then show ?thesis using Cons.prems(6) by (simp add: tags2_def)
  next
    case (Some ib)
    obtain img body where ib: "ib = (img, body)" by (cases ib)
    obtain r where r: "hosted_oci w0 (asset_repository a)" "content obj env w0 (asset_repository a) (manifest_path img r) = Some body"
      using v(3) [OF Some [unfolded ib]] thins_hosted [OF Cons.prems(5)] thins_content [OF Cons.prems(5)] by blast
    show ?thesis using add_tag_sound [OF Cons.prems(6) r nul] by (simp add: tags2_def Some ib)
  qed
  have hit: "deletions_work w0 \<Longrightarrow> rd"
    using delete_stale_hits [OF s _ a1] thinsD(9) [OF Cons.prems(5)] thinsD(9) [OF v(1)] by (simp add: deletions_work_def)
  have sub: "set rest \<subseteq> set (sw_assets w2)" using Cons.prems(2,3) as2 by auto
  have g: "(\<lambda>a. (asset_repository a, asset_path a)) ` set rest \<subseteq> gone" "distinct rest" using Cons.prems(2,7) by auto
  show ?case
  proof (cases rd)
    case True
    then have "delete_batch env rest (Suc d, add64 f fr, tags2, w2) = (d', f', tags', w')" using Cons.prems(1) t s by (simp add: tags2_def)
    from Cons.IH [OF this g(2) sub s2 th ts g(1)] show ?thesis using len True by simp
  next
    case False
    then have "delete_batch env rest (d, f, tags, w2) = (d', f', tags', w')" using Cons.prems(1) t s by simp
    moreover have "\<not> deletions_work w0" using hit False by blast
    ultimately show ?thesis using Cons.IH [OF _ g(2) sub s2 th Cons.prems(6) g(1)] len False by simp
  qed
qed simp

text \<open>A pass deletes what its own query answered.\<close>

lemma list_stale_selected:
  assumes "list_stale w q n = Some as" "thins obj valid good env gone w0 w" "tables_ok w"
  shows "distinct as" "set as \<subseteq> set (sw_assets w)" "(\<lambda>a. (asset_repository a, asset_path a)) ` set as \<subseteq> selected w0 q"
proof -
  have as: "as = take (if n = 0 then 500 else n) (sort_key asset_created_at (filter (is_stale w q) (sw_assets w)))"
    using assms(1) by (simp add: list_stale_def split: if_splits)
  have "distinct (sw_assets w)" using assms(3) by (auto simp: tables_ok_def distinct_map)
  then show "distinct as" by (simp add: as)
  have m: "a \<in> set as \<Longrightarrow> a \<in> set (sw_assets w) \<and> is_stale w q a" for a using as by (auto dest: in_set_takeD)
  then show "set as \<subseteq> set (sw_assets w)" by blast
  note t = thinsD [OF assms(2)]
  have "is_stale w q a = is_stale w0 q a" for a by (rule is_stale_frame [OF t(6-8)])
  then show "(\<lambda>a. (asset_repository a, asset_path a)) ` set as \<subseteq> selected w0 q" using m t(5) unfolding selected_def by blast
qed

lemma cleanup_loop_view:
  assumes "cleanup_loop env q clk deadline n k st = (ab, d', f', tags', w')" "st = (d, f, tags, w)" "steady ops obj valid good env w"
    "thins obj valid good env (selected w0 q) w0 w" "tags_sound obj env w0 tags"
    and nul: "\<And>rn. hosted_oci w0 rn \<Longrightarrow> CHR 0x00 \<notin> set rn"
  shows "thins obj valid good env (selected w0 q) w0 w' \<and> steady ops obj valid good env w' \<and> tags_sound obj env w0 tags' \<and>
    length (sw_assets w') + d' = length (sw_assets w) + d"
  using assms(1-5)
proof (induction env q clk deadline n k st arbitrary: d f tags w rule: cleanup_loop.induct)
  case (1 env q clk deadline n k d0 f0 tags0 w0')
  note eq = "1.prems"(2)
  show ?case
  proof (cases "past_deadline (clk n) deadline \<or> list_stale w q batch_limit = None \<or> list_stale w q batch_limit = Some []")
    case True
    then have "d' = d" "tags' = tags" "w' = w" using "1.prems"(1,2) by (auto simp: cleanup_loop.simps [of env q clk deadline n k] split: if_splits)
    then show ?thesis using "1.prems"(3-5) by simp
  next
    case False
    then obtain stale where l: "list_stale w q batch_limit = Some stale" "stale \<noteq> []" by auto
    obtain d2 f2 tags2 w2 where b: "delete_batch env stale (d, f, tags, w) = (d2, f2, tags2, w2)" by (metis surj_pair)
    note s = list_stale_selected [OF l(1) "1.prems"(4) steadyD(2) [OF "1.prems"(3)]]
    have v: "thins obj valid good env (selected w0 q) w0 w2" "steady ops obj valid good env w2" "tags_sound obj env w0 tags2"
      "length (sw_assets w2) + d2 = length (sw_assets w) + d"
      using delete_batch_view [OF b s(1,2) "1.prems"(3,4,5) s(3) nul] by blast+
    have unfold: "(ab, d', f', tags', w') =
        (if d2 = d then (if Suc k \<ge> max_no_progress then (Some False, d2, f2, tags2, w2) else cleanup_loop env q clk deadline (Suc n) (Suc k) (d2, f2, tags2, w2))
         else cleanup_loop env q clk deadline (Suc n) 0 (d2, f2, tags2, w2))"
      using "1.prems"(1,2) False l b by (simp add: cleanup_loop.simps [of env q clk deadline n k] Let_def)
    have ne: "\<not> past_deadline (clk n) deadline" "list_stale w0' q batch_limit = Some stale" "(d2, f2, tags2, w2) = delete_batch env stale (d0, f0, tags0, w0')"
      "fst (d2, f2, tags2, w2) = d0 \<longleftrightarrow> d2 = d"
      using False l b eq by simp_all
    consider (stop) "d2 = d" "max_no_progress \<le> Suc k" | (idle) "d2 = d" "\<not> max_no_progress \<le> Suc k" | (on) "d2 \<noteq> d" by blast
    then show ?thesis
    proof cases
      case stop
      then show ?thesis using unfold v by simp
    next
      case idle
      then have run: "cleanup_loop env q clk deadline (Suc n) (Suc k) (d2, f2, tags2, w2) = (ab, d', f', tags', w')" using unfold by simp
      have "fst (d2, f2, tags2, w2) = d0" using idle(1) ne(4) by blast
      from "1.IH"(1) [OF ne(1,2) l(2) ne(3) this idle(2) run refl v(2,1,3)] show ?thesis using v(4) by linarith
    next
      case on
      then have run: "cleanup_loop env q clk deadline (Suc n) 0 (d2, f2, tags2, w2) = (ab, d', f', tags', w')" using unfold by simp
      have "fst (d2, f2, tags2, w2) \<noteq> d0" using on ne(4) by blast
      from "1.IH"(2) [OF ne(1,2) l(2) ne(3) this run refl v(2,1,3)] show ?thesis using v(4) by linarith
    qed
  qed
qed

text \<open>Without failures, every pass takes its batch, and the loop ends with nothing left to select.\<close>

lemma cleanup_loop_finishes:
  assumes "cleanup_loop env q clk deadline n k st = (ab, d', f', tags', w')" "st = (d, f, tags, w)" "steady ops obj valid good env w"
    "thins obj valid good env (selected w0 q) w0 w" "tags_sound obj env w0 tags"
    "\<And>n. \<not> past_deadline (clk n) deadline"
    and nul: "\<And>rn. hosted_oci w0 rn \<Longrightarrow> CHR 0x00 \<notin> set rn"
    and fl: "deletions_work w0" "\<not> sw_fail w0 (S_Asset_List 3)" "sq_glob q = [] \<or> like_tokens (glob_to_like (sq_glob q)) \<noteq> None"
  shows "ab = Some False \<and> (\<forall>a \<in> set (sw_assets w'). \<not> is_stale w0 q a)"
  using assms(1-6,10)
proof (induction env q clk deadline n k st arbitrary: d f tags w rule: cleanup_loop.induct)
  case (1 env q clk deadline n k d0 f0 tags0 w0')
  have eq: "d0 = d" "f0 = f" "tags0 = tags" "w0' = w" using "1.prems"(2) by simp_all
  note t = thinsD [OF "1.prems"(4)]
  obtain stale where l: "list_stale w q batch_limit = Some stale" using fl(2) "1.prems"(7) t(9) by (auto simp: list_stale_def)
  show ?case
  proof (cases "stale = []")
    case True
    then have "filter (is_stale w q) (sw_assets w) = []"
      using l by (auto simp: list_stale_def batch_limit_def split: if_splits) (metis length_0_conv length_sort)+
    then have "\<forall>a \<in> set (sw_assets w). \<not> is_stale w0 q a" using is_stale_frame [OF t(6-8)] by (simp add: filter_empty_conv)
    moreover have "ab = Some False" "w' = w"
      using "1.prems"(1,6) l True unfolding eq by (simp_all add: cleanup_loop.simps [of env q clk deadline n k])
    ultimately show ?thesis by simp
  next
    case False
    obtain d2 f2 tags2 w2 where b: "delete_batch env stale (d, f, tags, w) = (d2, f2, tags2, w2)" by (metis surj_pair)
    note s = list_stale_selected [OF l "1.prems"(4) steadyD(2) [OF "1.prems"(3)]]
    have v: "thins obj valid good env (selected w0 q) w0 w2" "steady ops obj valid good env w2" "tags_sound obj env w0 tags2" "d2 = d + length stale"
      using delete_batch_view [OF b s(1,2) "1.prems"(3,4,5) s(3) nul] fl(1) by blast+
    have run: "cleanup_loop env q clk deadline (Suc n) 0 (d2, f2, tags2, w2) = (ab, d', f', tags', w')"
      using "1.prems"(1,6) l False b v(4) unfolding eq by (simp add: cleanup_loop.simps [of env q clk deadline n k] Let_def)
    have ne: "list_stale w0' q batch_limit = Some stale" "(d2, f2, tags2, w2) = delete_batch env stale (d0, f0, tags0, w0')" "fst (d2, f2, tags2, w2) \<noteq> d0"
      using l b v(4) False unfolding eq by simp_all
    show ?thesis by (rule "1.IH"(2) [OF "1.prems"(6) ne(1) False ne(2,3) run refl v(2,1,3) "1.prems"(6,7)])
  qed
qed

text \<open>What a released image may lose.\<close>

lemma release_paths_view:
  assumes "release_paths env rn paths (d, f, w) = (d', f', w')" "steady ops obj valid good env w" "thins obj valid good env gone w0 w"
    "{rn} \<times> set paths \<subseteq> gone"
  shows "thins obj valid good env gone w0 w' \<and> steady ops obj valid good env w' \<and> length (sw_assets w') + d' = length (sw_assets w) + d \<and>
    set (sw_assets w') \<subseteq> set (sw_assets w)"
  using assms
proof (induction paths arbitrary: d f w)
  case (Cons path rest)
  have g: "{rn} \<times> set rest \<subseteq> gone" using Cons.prems(4) by auto
  show ?case
  proof (cases "assets_by_path w 11 rn path")
    case (Inr oa)
    then have oa: "oa = row_at w rn path" by (simp add: assets_by_path_def row_at_def split: if_splits)
    show ?thesis
    proof (cases oa)
      case None
      then show ?thesis using Cons.IH [OF _ Cons.prems(2,3) g] Cons.prems(1) Inr by simp
    next
      case (Some a)
      note m = row_at_mem [OF oa [symmetric, unfolded Some]]
      obtain rd fr w1 where s: "delete_stale_asset env a w = ((rd, fr), w1)" by (metis surj_pair)
      note st = steadyD [OF Cons.prems(2)]
      note u = delete_stale_view [OF s st]
      have a: "a \<in> set (sw_assets w)" using m by simp
      have th: "thins obj valid good env gone w0 w1"
        by (rule thins_trans [OF Cons.prems(3) u(1) [OF a] subset_refl]) (use m Cons.prems(4) in auto)
      have dist: "distinct (sw_assets w)" using st(2) by (auto simp: tables_ok_def distinct_map)
      have len: "length (sw_assets w1) + (if rd then 1 else 0) = length (sw_assets w)"
        using length_filter_one [OF dist a] u(2) [OF a] by simp
      have "release_paths env rn rest (if rd then (Suc d, add64 f fr, w1) else (d, f, w1)) = (d', f', w')"
        using Cons.prems(1) Inr Some s by simp
      then show ?thesis using Cons.IH [OF _ steady_thins [OF Cons.prems(2) u(1) [OF a]] th g] len thinsD(5) [OF u(1) [OF a]] by (cases rd) fastforce+
    qed
  qed (use Cons.IH [OF _ Cons.prems(2,3) g] Cons.prems(1) in simp)
qed simp

end

section \<open>Whole runs\<close>

context manifest_reader
begin

lemma plan_release_reads:
  assumes "plan_image_release (read env) dec rn img ms w = (ps, w')" "se_ops env = ops" "intact obj valid good env w" "tables_ok w"
    "registry_ok env w" "usable env w"
  shows "registry_step env w w'"
proof (cases "list_by_repo_and_path w 1 rn (manifest_path img [])")
  case None
  then show ?thesis using assms(1) by (simp add: plan_image_release_def)
next
  case (Some listed)
  obtain es w1 where pl: "plan_load (read env) dec (manifest_path img []) listed w = (es, w1)"
    by (cases "plan_load (read env) dec (manifest_path img []) listed w")
  have "row_at w rn (asset_path a) = Some a" if "a \<in> set listed" for a
    using that Some row_at_self [OF assms(4), of a] by (auto simp: list_by_repo_and_path_def split: if_splits)
  note s = plan_load_reads [OF pl this assms(2-6)]
  have "w' = w1" using assms(1) Some pl by (auto simp: plan_image_release_def Let_def split: option.splits)
  then show ?thesis using s by simp
qed

end

abbreviation local_steady :: "local_store store_env \<Rightarrow> local_store store_world \<Rightarrow> bool" where
  "local_steady \<equiv> steady local_ops local_obj valid_key local_good"

abbreviation local_thins :: "local_store store_env \<Rightarrow> (string \<times> string) set \<Rightarrow> local_store store_world \<Rightarrow> local_store store_world \<Rightarrow> bool" where
  "local_thins \<equiv> thins local_obj valid_key local_good"

text \<open>The aliases and blobs of hosted images: what the release of an expired tag may take.\<close>

definition image_parts :: "'b store_world \<Rightarrow> (string \<times> string) set" where
  "image_parts w = {(rn, path). hosted_oci w rn \<and> (\<exists>img x. path = blob_path img x \<or> CHR '':'' \<in> set x \<and> path = manifest_path img x)}"

text \<open>Every digest a stored manifest names is one.\<close>

definition digests_named :: "(bytes \<Rightarrow> manifest_doc option) \<Rightarrow> local_store store_env \<Rightarrow> local_store store_world \<Rightarrow> bool" where
  "digests_named dec env w \<longleftrightarrow>
     (\<forall>rn img r body m. content local_obj env w rn (manifest_path img r) = Some body \<longrightarrow>
        m \<in> set (mr_manifests (parse_manifest_refs dec body)) \<longrightarrow> CHR '':'' \<in> set m)"

lemma planned_parts:
  assumes pl: "plan_image_release (cleanup_read env) dec rn img ms w = (Some paths, w')" and st: "local_steady env w"
    and dn: "digests_named dec env w" "\<And>sha body m. (sha, body) \<in> set ms \<Longrightarrow> m \<in> set (mr_manifests (parse_manifest_refs dec body)) \<Longrightarrow> CHR '':'' \<in> set m"
    and h: "hosted_oci w rn"
  shows "registry_step env w w'" "{rn} \<times> set paths \<subseteq> image_parts w"
proof -
  note s = steadyD [OF st]
  obtain es q where q: "registry_step env w w'" "q = drop_unneeded (start_plan dec img es ms)" "distinct (map (\<lambda>e. asset_path (re_asset e)) es)"
    and ps: "set paths = set (plan_paths q) \<union> {blob_path img b |b. b \<in> set (unused_blobs q) \<and> row_at w rn (blob_path img b) \<noteq> None \<and> \<not> sw_fail w (S_Asset_By_Path 9)}"
    by (rule cleanup_reader.planned_entries [OF pl s(1,4,2,3,5)]) (rule that; assumption)
  show "registry_step env w w'" by (rule q(1))
  have tag: "manifest_path img t \<notin> set paths" if "CHR '':'' \<notin> set t" for t
    by (rule cleanup_reader.planned_release_keeps_tag [OF pl s(1,4,2,3,5) dn(2) _ that]) (assumption+, use dn(1) in \<open>unfold digests_named_def, blast\<close>)
  have "\<exists>x. path = blob_path img x \<or> CHR '':'' \<in> set x \<and> path = manifest_path img x" if p: "path \<in> set paths" for path
  proof (cases "path \<in> set (plan_paths q)")
    case True
    then obtain j where "j \<in> set (rp_removed q)" "path = asset_path (re_asset (es ! j))" using release_plan_removed(4) [OF q(2,3)] by auto
    then obtain x where "path = manifest_path img x" using release_plan_removed(3) [OF q(2,3)] by fastforce
    then show ?thesis using tag p by blast
  next
    case False
    then show ?thesis using p unfolding ps by blast
  qed
  then show "{rn} \<times> set paths \<subseteq> image_parts w" using h unfolding image_parts_def by blast
qed

lemma digests_named_thins: "local_thins env gone w w' \<Longrightarrow> digests_named dec env w \<Longrightarrow> digests_named dec env w'"
  using local_blobs.thins_content unfolding digests_named_def by blast

lemma image_parts_thins: "local_thins env gone w w' \<Longrightarrow> image_parts w' = image_parts w"
  by (simp add: image_parts_def local_blobs.thins_hosted)

lemma release_images_view:
  assumes "release_images env dec tags (d, f, w) = (d', f', w')" "local_steady env w" "local_thins env gone w0 w" "tags_sound local_obj env w0 tags"
    "digests_named dec env w0" "image_parts w0 \<subseteq> gone" and nul: "\<And>rn. hosted_oci w0 rn \<Longrightarrow> CHR 0x00 \<notin> set rn"
  shows "local_thins env gone w0 w' \<and> local_steady env w' \<and> length (sw_assets w') + d' = length (sw_assets w) + d \<and>
    set (sw_assets w') \<subseteq> set (sw_assets w)"
  using assms(1-4)
proof (induction tags arbitrary: d f w)
  case (Cons km rest)
  obtain k ms where km: "km = (k, ms)" by (cases km)
  have mem: "(k, ms) \<in> set (km # rest)" by (simp add: km)
  obtain rn img where t: "k = tag_key rn img" "hosted_oci w0 rn" "\<And>sha body. (sha, body) \<in> set ms \<Longrightarrow> \<exists>r. content local_obj env w0 rn (manifest_path img r) = Some body"
    by (rule tags_soundD [OF Cons.prems(4) mem]) (rule that; assumption)
  have ts: "tags_sound local_obj env w0 rest" using Cons.prems(4) by (simp add: tags_sound_def)
  have k: "cut_key k = (rn, img)" using tag_key_eq [OF nul [OF t(2)]] t(1) by simp
  obtain ps w1 where pl: "plan_image_release (cleanup_read env) dec rn img ms w = (ps, w1)" by (cases "plan_image_release (cleanup_read env) dec rn img ms w")
  note st = steadyD [OF Cons.prems(2)]
  show ?case
  proof (cases ps)
    case None
    have "release_images env dec rest (d, f, w1) = (d', f', w')" using Cons.prems(1) km k pl None by simp
    moreover have s: "registry_step env w w1" by (rule cleanup_reader.plan_release_reads [OF pl st(1,4,2,3,5)])
    have th1: "local_thins env gone w w1" by (rule thins_registry [OF s st(2,3,4)])
    ultimately show ?thesis
      using Cons.IH [OF _ local_blobs.steady_thins [OF Cons.prems(2) th1] thins_trans [OF Cons.prems(3) th1 subset_refl subset_refl] ts]
        registry_step_fields(1) [OF s] by simp
  next
    case (Some paths)
    have dn: "digests_named dec env w" by (rule digests_named_thins [OF Cons.prems(3) assms(5)])
    have ms: "CHR '':'' \<in> set m" if "(sha, body) \<in> set ms" "m \<in> set (mr_manifests (parse_manifest_refs dec body))" for sha body m
      using t(3) [OF that(1)] that(2) assms(5) unfolding digests_named_def by blast
    have h: "hosted_oci w rn" using t(2) local_blobs.thins_hosted [OF Cons.prems(3)] by blast
    note pp = planned_parts [OF pl [unfolded Some] Cons.prems(2) dn ms h]
    have th1: "local_thins env gone w w1" by (rule thins_registry [OF pp(1) st(2,3,4)])
    obtain d2 f2 w2 where r: "release_paths env rn paths (d, f, w1) = (d2, f2, w2)" by (metis surj_pair)
    have g: "{rn} \<times> set paths \<subseteq> gone" by (rule subset_trans [OF pp(2) [unfolded image_parts_thins [OF Cons.prems(3)]] assms(6)])
    note v = local_blobs.release_paths_view [OF r local_blobs.steady_thins [OF Cons.prems(2) th1] thins_trans [OF Cons.prems(3) th1 subset_refl subset_refl] g]
    have "release_images env dec rest (d2, f2, w2) = (d', f', w')" using Cons.prems(1) km k pl Some r by simp
    then show ?thesis using Cons.IH [of d2 f2 w2] v ts registry_step_fields(1) [OF pp(1)] by auto
  qed
qed simp

lemma thins_views:
  assumes "thins obj valid good env gone w0 w" "content obj env w' = content obj env w" "intact obj valid good env w' = intact obj valid good env w"
    "tables_ok w' = tables_ok w" "registry_ok env w' = registry_ok env w"
  shows "tables_ok w' \<and> registry_ok env w' \<and> intact obj valid good env w' \<and>
    (\<forall>rn path. content obj env w' rn path = content obj env w0 rn path \<or> content obj env w' rn path = None \<and> (rn, path) \<in> gone)"
  using thinsD [OF assms(1)] unfolding assms(2-5) by blast

lemma delete_orphans_of_views:
  "content obj env (delete_orphans_of names w) = content obj env w" "intact obj valid good env (delete_orphans_of names w) = intact obj valid good env w"
  "tables_ok (delete_orphans_of names w) = tables_ok w" "registry_ok env (delete_orphans_of names w) = registry_ok env w"
  "sw_assets (delete_orphans_of names w) = sw_assets w"
proof -
  have a: "sw_assets (delete_orphans v rn) = sw_assets v" for v :: "'b store_world" and rn by (simp add: delete_orphans_def)
  show "content obj env (delete_orphans_of names w) = content obj env w" "intact obj valid good env (delete_orphans_of names w) = intact obj valid good env w"
    "tables_ok (delete_orphans_of names w) = tables_ok w" "registry_ok env (delete_orphans_of names w) = registry_ok env w"
    "sw_assets (delete_orphans_of names w) = sw_assets w"
    unfolding delete_orphans_of_def by (induction names arbitrary: w) (simp_all add: delete_orphans_views a)
qed

text \<open>The phases of a run that deletes.\<close>

lemma run_policy_cases:
  assumes r: "run_policy env dec prune clk deadline p w = (res, w')"
  obtains (no_names) "w' = w" "\<And>x stats. res = Some (x, stats) \<Longrightarrow> cr_deleted x = 0"
    | (dry) "w' = w" "cp_dry_run p" "\<And>x stats. res = Some (x, stats) \<Longrightarrow> cr_dry_run x"
    | (failed) names d f tags where "repos_of_policy w p = Some names" "names \<noteq> []" "\<not> cp_dry_run p" "res = None"
        "cleanup_loop env (query_of_policy p names) clk deadline 0 0 (0, 0, [], w) = (None, d, f, tags, w')"
    | (ran) names ab d f tags w1 d2 f2 w2 where "repos_of_policy w p = Some names" "names \<noteq> []" "\<not> cp_dry_run p"
        "cleanup_loop env (query_of_policy p names) clk deadline 0 0 (0, 0, [], w) = (Some ab, d, f, tags, w1)"
        "(if ab then (d, f, w1) else release_images env dec (sort_key fst tags) (d, f, w1)) = (d2, f2, w2)"
        "res = Some (result_of p d2 f2 False ab, Some (d2, f2))" "w' = (if prune \<and> d2 > 0 then delete_orphans_of names w2 else w2)"
proof (cases "repos_of_policy w p = None \<or> repos_of_policy w p = Some []")
  case True
  then show thesis using r no_names by (auto simp: run_policy_def result_of_def)
next
  case False
  then obtain names where n: "repos_of_policy w p = Some names" "names \<noteq> []" by auto
  show thesis
  proof (cases "cp_dry_run p")
    case True
    then show thesis using r n dry by (auto simp: run_policy_def result_of_def Let_def split: if_splits option.splits)
  next
    case live: False
    obtain o1 d f tags w1 where l: "cleanup_loop env (query_of_policy p names) clk deadline 0 0 (0, 0, [], w) = (o1, d, f, tags, w1)"
      by (metis surj_pair)
    show thesis
    proof (cases o1)
      case None
      then have "res = None" "w' = w1" using r n live l by (auto simp: run_policy_def Let_def)
      then show thesis using failed [OF n live] l None by blast
    next
      case (Some ab)
      obtain d2 f2 w2 where x: "(if ab then (d, f, w1) else release_images env dec (sort_key fst tags) (d, f, w1)) = (d2, f2, w2)"
        by (metis surj_pair)
      have "(res, w') = (Some (result_of p d2 f2 False ab, Some (d2, f2)), if prune \<and> d2 > 0 then delete_orphans_of names w2 else w2)"
        using r n live l Some x by (simp add: run_policy_def Let_def)
      then show thesis by (intro ran [OF n live l [unfolded Some] x]) simp_all
    qed
  qed
qed

lemma run_policy_view:
  assumes r: "run_policy env dec prune clk deadline p w = (res, w')" and st: "local_steady env w" and dn: "digests_named dec env w"
    and nul: "\<And>rn. hosted_oci w rn \<Longrightarrow> CHR 0x00 \<notin> set rn"
  shows "(w' = w \<or> (\<exists>names. repos_of_policy w p = Some names \<and> names \<noteq> [] \<and> \<not> cp_dry_run p \<and>
      (tables_ok w' \<and> registry_ok env w' \<and> intact local_obj valid_key local_good env w' \<and>
       (\<forall>rn path. content local_obj env w' rn path = content local_obj env w rn path \<or>
          content local_obj env w' rn path = None \<and> (rn, path) \<in> selected w (query_of_policy p names) \<union> image_parts w)))) \<and>
    (\<forall>x stats. res = Some (x, stats) \<longrightarrow> cr_dry_run x \<or> length (sw_assets w') + cr_deleted x = length (sw_assets w))"
  using r
proof (cases rule: run_policy_cases)
  case no_names
  then show ?thesis by auto
next
  case dry
  then show ?thesis by auto
next
  case (failed names d f tags)
  let ?q = "query_of_policy p names"
  note s = steadyD [OF st]
  have t0: "local_thins env (selected w ?q) w w" by (rule thins_refl [OF s(2,3,4)])
  have e: "tags_sound local_obj env w []" by (simp add: tags_sound_def)
  note v = local_blobs.cleanup_loop_view [OF failed(5) refl st t0 e nul]
  have th: "local_thins env (selected w ?q \<union> image_parts w) w w'" by (rule thins_mono [OF v [THEN conjunct1] Un_upper1])
  have "\<forall>x stats. res = Some (x, stats) \<longrightarrow> cr_dry_run x \<or> length (sw_assets w') + cr_deleted x = length (sw_assets w)" using failed(4) by simp
  then show ?thesis using thins_views [OF th refl refl refl refl] failed(1-3) by blast
next
  case (ran names ab d f tags w1 d2 f2 w2)
  let ?q = "query_of_policy p names"
  let ?gone = "selected w ?q \<union> image_parts w"
  note s = steadyD [OF st]
  have t0: "local_thins env (selected w ?q) w w" by (rule thins_refl [OF s(2,3,4)])
  have e: "tags_sound local_obj env w []" by (simp add: tags_sound_def)
  note v = local_blobs.cleanup_loop_view [OF ran(4) refl st t0 e nul]
  have th1: "local_thins env ?gone w w1" by (rule thins_mono [OF v [THEN conjunct1] Un_upper1])
  have s1: "local_steady env w1" "tags_sound local_obj env w (sort_key fst tags)" "length (sw_assets w1) + d = length (sw_assets w)"
    using v by (simp_all add: tags_sound_def)
  have th2: "local_thins env ?gone w w2 \<and> length (sw_assets w2) + d2 = length (sw_assets w)"
  proof (cases ab)
    case True
    then show ?thesis using ran(5) th1 s1(3) by simp
  next
    case False
    then have "release_images env dec (sort_key fst tags) (d, f, w1) = (d2, f2, w2)" using ran(5) by simp
    from release_images_view [OF this s1(1) th1 s1(2) dn _ nul] show ?thesis using s1(3) by simp
  qed
  have views: "content local_obj env w' = content local_obj env w2" "intact local_obj valid_key local_good env w' = intact local_obj valid_key local_good env w2"
    "tables_ok w' = tables_ok w2" "registry_ok env w' = registry_ok env w2" "sw_assets w' = sw_assets w2"
    by (simp_all add: ran(7) delete_orphans_of_views)
  have "\<forall>x stats. res = Some (x, stats) \<longrightarrow> cr_dry_run x \<or> length (sw_assets w') + cr_deleted x = length (sw_assets w)"
    using ran(6) th2 views(5) by (simp add: result_of_def)
  then show ?thesis using thins_views [OF th2 [THEN conjunct1] views(1-4)] ran(1-3) by blast
qed

lemma run_policy_completes:
  assumes r: "run_policy env dec prune clk deadline p w = (res, w')" and n: "repos_of_policy w p = Some names" "names \<noteq> []" "\<not> cp_dry_run p"
    and fl: "deletions_work w" "\<not> sw_fail w (S_Asset_List 3)" "\<And>n. \<not> past_deadline (clk n) deadline"
      "sq_glob (query_of_policy p names) = [] \<or> like_tokens (glob_to_like (sq_glob (query_of_policy p names))) \<noteq> None"
    and st: "local_steady env w" and dn: "digests_named dec env w" and nul: "\<And>rn. hosted_oci w rn \<Longrightarrow> CHR 0x00 \<notin> set rn"
  shows "(case res of None \<Rightarrow> False | Some (x, stats) \<Rightarrow> \<not> cr_aborted x) \<and>
    (\<forall>rn path a. row_at w rn path = Some a \<longrightarrow> is_stale w (query_of_policy p names) a \<longrightarrow> row_at w' rn path = None)"
proof -
  let ?q = "query_of_policy p names"
  note s = steadyD [OF st]
  have t0: "local_thins env (selected w ?q) w w" by (rule thins_refl [OF s(2,3,4)])
  have e: "tags_sound local_obj env w []" by (simp add: tags_sound_def)
  obtain o1 d f tags w1 where l: "cleanup_loop env ?q clk deadline 0 0 (0, 0, [], w) = (o1, d, f, tags, w1)" by (metis surj_pair)
  have fin: "o1 = Some False" "\<forall>a \<in> set (sw_assets w1). \<not> is_stale w ?q a"
    using local_blobs.cleanup_loop_finishes [OF l refl st t0 e fl(3) nul fl(1,2,4)] by blast+
  note v = local_blobs.cleanup_loop_view [OF l refl st t0 e nul]
  have th1: "local_thins env (selected w ?q \<union> image_parts w) w w1" by (rule thins_mono [OF v [THEN conjunct1] Un_upper1])
  have s1: "local_steady env w1" "tags_sound local_obj env w (sort_key fst tags)" using v by (simp_all add: tags_sound_def)
  obtain d2 f2 w2 where x: "release_images env dec (sort_key fst tags) (d, f, w1) = (d2, f2, w2)" by (metis surj_pair)
  have as2: "set (sw_assets w2) \<subseteq> set (sw_assets w1)"
    using release_images_view [OF x s1(1) th1 s1(2) dn Un_upper2 nul] by blast
  have w': "res = Some (result_of p d2 f2 False False, Some (d2, f2))" "sw_assets w' = sw_assets w2"
    using r n l fin(1) x by (auto simp: run_policy_def Let_def delete_orphans_of_views(5))
  have "row_at w' rn path = None" if a: "row_at w rn path = Some a" "is_stale w ?q a" for rn path a
  proof (rule ccontr)
    assume "row_at w' rn path \<noteq> None"
    then obtain x where x: "row_at w' rn path = Some x" by blast
    note m = row_at_mem [OF x]
    have x1: "x \<in> set (sw_assets w1)" using m w'(2) as2 by auto
    then have "x \<in> set (sw_assets w)" using thinsD(5) [OF th1] by blast
    then have "row_at w rn path = Some x" using row_at_self [OF s(2)] m by blast
    then show False using a fin(2) x1 by simp
  qed
  then show ?thesis using w'(1) by (simp add: result_of_def)
qed


definition demo_policy :: "string \<Rightarrow> cleanup_policy" where
  "demo_policy pre =
     \<lparr> cp_id = ''p1'', cp_name = ''old'', cp_description = [], cp_format = ''*'', cp_criteria = None, cp_schedule_cron = [],
       cp_enabled = True, cp_dry_run = False, cp_retain = 0, cp_scope_repository = ''libs'', cp_scope_prefix = pre,
       cp_last_run_at = None, cp_last_run_freed = 0, cp_last_run_count = 0, cp_created_at = 0, cp_updated_at = 0 \<rparr>"

definition demo_cleanup :: "string \<Rightarrow> (cleanup_result \<times> (nat \<times> int) option) option \<times> local_store store_world" where
  "demo_cleanup pre = run_policy demo_env (\<lambda>_. None) True (\<lambda>n. int n) zero_time (demo_policy pre) (snd (demo_put (demo_world ''allow'' None) ''hello'' 5))"

lemma demo_put_state:
  "\<not> sw_fail (snd (demo_put (demo_world q quota) b n)) x" "sw_repos (snd (demo_put (demo_world q quota) b n)) = [demo_repo q]"
  unfolding demo_frame by (simp_all add: demo_world_def)

lemma demo_cleanup_pre:
  "stores_usable demo_env (snd (demo_put (demo_world ''allow'' None) ''hello'' 5))"
  "digests_named (\<lambda>_. None) demo_env (snd (demo_put (demo_world ''allow'' None) ''hello'' 5))"
  "\<not> hosted_oci (snd (demo_put (demo_world ''allow'' None) ''hello'' 5)) rn"
proof -
  let ?w = "snd (demo_put (demo_world ''allow'' None) ''hello'' 5)"
  have "list_all (\<lambda>d. trim_space (bd_id d) \<noteq> [] \<and> new_from_descriptor (se_azure_url demo_env) (se_reachable demo_env) d \<noteq> None) (map descriptor_of (sw_stores ?w))"
    "list_all (\<lambda>a. asset_blob_store_id a = [] \<or> asset_blob_store_id a \<in> set (map bs_id (sw_stores ?w))) (sw_assets ?w)" "se_registry_on demo_env"
    by code_simp+
  then show "stores_usable demo_env ?w" by (simp add: stores_usable_def list_all_iff demo_put_state)
  show "digests_named (\<lambda>_. None) demo_env ?w" by (simp add: digests_named_def parse_manifest_refs_def no_refs_def)
  show "\<not> hosted_oci ?w rn"
    by (auto simp: hosted_oci_def repos_get_def demo_put_state demo_repo_def is_oci_registry_def split: option.splits if_splits)
qed


text \<open>
  C13: a cleanup run that nothing stops takes every row its policy selects. If no lock, query or deletion fails
  and the run is within its time, then it answers, it was not aborted, and of the rows the policy's query
  selected when it began none is left, however many batches of 500 that takes.
\<close>

theorem cleanup_takes_selected:
  assumes "run_policy env dec prune clk deadline p w = (res, w')" "repos_of_policy w p = Some names" "names \<noteq> []" "\<not> cp_dry_run p"
    and "\<not> sw_fail w S_Asset_Delete" "\<And>k. \<not> sw_fail w (S_Lock k)" "\<not> sw_fail w (S_Asset_List 3)" "\<And>n. \<not> past_deadline (clk n) deadline"
    and "sq_glob (query_of_policy p names) = [] \<or> like_tokens (glob_to_like (sq_glob (query_of_policy p names))) \<noteq> None"
    and "se_ops env = local_ops" "tables_ok w" "registry_ok env w" "intact local_obj valid_key local_good env w" "stores_usable env w"
    "digests_named dec env w" "\<And>rn. hosted_oci w rn \<Longrightarrow> CHR 0x00 \<notin> set rn"
  shows "(case res of None \<Rightarrow> False | Some (x, stats) \<Rightarrow> \<not> cr_aborted x) \<and>
    (\<forall>rn path a. row_at w rn path = Some a \<longrightarrow> is_stale w (query_of_policy p names) a \<longrightarrow> row_at w' rn path = None)"
  using run_policy_completes [OF assms(1) assms(2-4) _ assms(7-9) _ assms(15,16)] assms(5,6,10-14) unfolding deletions_work_def steady_def by blast

theorem cleanup_takes_selected_witness: "row_at (snd (demo_cleanup [])) ''libs'' ''/a'' = None"
proof -
  let ?w = "snd (demo_put (demo_world ''allow'' None) ''hello'' 5)" and ?p = "demo_policy []"
  obtain res w' where r: "demo_cleanup [] = (res, w')" by (cases "demo_cleanup []")
  have env: "se_ops demo_env = local_ops" by (simp add: demo_env_def)
  have sel: "case row_at ?w ''libs'' ''/a'' of None \<Rightarrow> False | Some a \<Rightarrow> is_stale ?w (query_of_policy ?p [''libs'']) a" by code_simp
  have fl: "\<not> sw_fail ?w x" for x by (rule demo_put_state)
  have rp: "repos_of_policy ?w ?p = Some [''libs'']" by (simp add: repos_of_policy_def demo_policy_def)
  have q: "\<not> cp_dry_run ?p" "sq_glob (query_of_policy ?p [''libs'']) = [] \<or> like_tokens (glob_to_like (sq_glob (query_of_policy ?p [''libs'']))) \<noteq> None"
    by (simp_all add: demo_policy_def query_of_policy_def str_criteria_def cfg_get_def)
  have "hosted_oci ?w rn \<Longrightarrow> CHR 0x00 \<notin> set rn" for rn using demo_cleanup_pre(3) by blast
  note c = cleanup_takes_selected [OF r [unfolded demo_cleanup_def] rp _ q(1) fl fl fl _ q(2) env demo_after_put demo_cleanup_pre(1,2) this]
  obtain a where a: "row_at ?w ''libs'' ''/a'' = Some a" "is_stale ?w (query_of_policy ?p [''libs'']) a" using sel by (auto split: option.splits)
  have "\<not> past_deadline t zero_time" for t by (simp add: past_deadline_def)
  then show ?thesis using c [THEN conjunct2, rule_format, OF _ _ _ a] unfolding r by simp
qed

end
