(* ===== verification/Cleanup_Schedule.thy ===== *)
theory Cleanup_Schedule
  imports Cleanup
begin

text \<open>
  When policies run: the policy table of \<open>cleanup_repo.go\<close> and the scheduling of
  \<open>internal/service/cleanup_service.go\<close>. Each node keeps a cron scheduler (\<open>robfig/cron\<close>, a parameter) and the
  entries it has registered there; the table is shared by all nodes.
\<close>

section \<open>The policy table\<close>

record cleanup_db =
  cd_policies :: "cleanup_policy list"
  cd_next :: nat
  cd_now :: time
  cd_fail :: bool

definition policies_list :: "cleanup_db \<Rightarrow> cleanup_policy list option" where
  "policies_list db = (if cd_fail db then None else Some (sort_key cp_name (cd_policies db)))"

text \<open>A missing row is an error, like a failed query.\<close>

definition policies_get :: "cleanup_db \<Rightarrow> string \<Rightarrow> cleanup_policy option" where
  "policies_get db i = (if cd_fail db then None else find (\<lambda>p. cp_id p = i) (cd_policies db))"

definition policies_create :: "cleanup_db \<Rightarrow> cleanup_policy \<Rightarrow> cleanup_policy option \<times> cleanup_db" where
  "policies_create db p =
     (if cd_fail db then (None, db)
      else let q = p\<lparr> cp_id := ''policy-'' @ itoa (int (cd_next db)), cp_last_run_at := None, cp_last_run_freed := 0, cp_last_run_count := 0,
                      cp_created_at := cd_now db, cp_updated_at := cd_now db \<rparr>
           in (Some q, db\<lparr> cd_policies := cd_policies db @ [q], cd_next := Suc (cd_next db) \<rparr>))"

definition update_row :: "(cleanup_policy \<Rightarrow> cleanup_policy) \<Rightarrow> string \<Rightarrow> cleanup_db \<Rightarrow> bool \<times> cleanup_db" where
  "update_row f i db =
     (if cd_fail db \<or> i \<notin> set (map cp_id (cd_policies db)) then (False, db)
      else (True, db\<lparr> cd_policies := map (\<lambda>q. if cp_id q = i then f q else q) (cd_policies db) \<rparr>))"

definition policies_update :: "cleanup_db \<Rightarrow> cleanup_policy \<Rightarrow> bool \<times> cleanup_db" where
  "policies_update db p =
     update_row (\<lambda>q. q\<lparr> cp_name := cp_name p, cp_description := cp_description p, cp_format := cp_format p, cp_criteria := cp_criteria p,
                       cp_schedule_cron := cp_schedule_cron p, cp_enabled := cp_enabled p, cp_dry_run := cp_dry_run p, cp_retain := cp_retain p,
                       cp_scope_repository := cp_scope_repository p, cp_scope_prefix := cp_scope_prefix p, cp_updated_at := cd_now db \<rparr>) (cp_id p) db"

definition policies_record_run :: "cleanup_db \<Rightarrow> string \<Rightarrow> time \<Rightarrow> nat \<Rightarrow> int \<Rightarrow> bool \<times> cleanup_db" where
  "policies_record_run db i t n freed =
     update_row (\<lambda>q. q\<lparr> cp_last_run_at := Some t, cp_last_run_count := n, cp_last_run_freed := freed \<rparr>) i db"

definition policies_delete :: "cleanup_db \<Rightarrow> string \<Rightarrow> bool \<times> cleanup_db" where
  "policies_delete db i =
     (if cd_fail db then (False, db) else (True, db\<lparr> cd_policies := filter (\<lambda>q. cp_id q \<noteq> i) (cd_policies db) \<rparr>))"

section \<open>A node's scheduler\<close>

text \<open>
  A job runs a policy, with its id and the schedule it was registered with, or \<open>syncPolicies\<close>. \<open>add\<close> and \<open>remove\<close> are
  the scheduler's \<open>AddFunc\<close> and \<open>Remove\<close>; an id of zero is what a failed \<open>AddFunc\<close> leaves.
\<close>

datatype cron_job = Run_Policy string string | Sync_Policies

record 'c cron_ops =
  cr_add :: "string \<Rightarrow> cron_job \<Rightarrow> 'c \<Rightarrow> nat option \<times> 'c"
  cr_remove :: "nat \<Rightarrow> 'c \<Rightarrow> 'c"

record cron_entry =
  ce_id :: nat
  ce_schedule :: string

record 'c cleanup_node =
  cn_cron :: "'c option"
  cn_entries :: "(string \<times> cron_entry) list"
  cn_default :: string

definition schedule_for :: "'c cleanup_node \<Rightarrow> cleanup_policy \<Rightarrow> string" where
  "schedule_for n p = (if cp_schedule_cron p = [] then cn_default n else cp_schedule_cron p)"

definition add_cron_entry :: "'c cron_ops \<Rightarrow> cleanup_policy \<Rightarrow> 'c \<Rightarrow> 'c cleanup_node \<Rightarrow> 'c cleanup_node" where
  "add_cron_entry cr p c n =
     (let schedule = schedule_for n p; job = Run_Policy (cp_id p) schedule;
          r = (case cr_add cr schedule job c of
                 (Some i, c1) \<Rightarrow> (i, c1)
               | (None, c1) \<Rightarrow> (case cr_add cr (cn_default n) job c1 of (Some i, c2) \<Rightarrow> (i, c2) | (None, c2) \<Rightarrow> (0, c2)))
      in n\<lparr> cn_cron := Some (snd r), cn_entries := AList.update (cp_id p) \<lparr> ce_id = fst r, ce_schedule = schedule \<rparr> (cn_entries n) \<rparr>)"

definition drop_cron_entry :: "'c cron_ops \<Rightarrow> string \<times> cron_entry \<Rightarrow> 'c cleanup_node \<Rightarrow> 'c cleanup_node" where
  "drop_cron_entry cr x n =
     n\<lparr> cn_cron := map_option (cr_remove cr (ce_id (snd x))) (cn_cron n), cn_entries := AList.delete (fst x) (cn_entries n) \<rparr>"

definition wanted :: "'c cleanup_node \<Rightarrow> cleanup_policy list \<Rightarrow> string \<Rightarrow> string option" where
  "wanted n ps = map_of (rev (map (\<lambda>p. (cp_id p, schedule_for n p)) (filter cp_enabled ps)))"

definition add_missing :: "'c cron_ops \<Rightarrow> cleanup_policy \<Rightarrow> 'c cleanup_node \<Rightarrow> 'c cleanup_node" where
  "add_missing cr p n =
     (case cn_cron n of
        None \<Rightarrow> n
      | Some c \<Rightarrow> if map_of (cn_entries n) (cp_id p) = None \<and> cp_enabled p then add_cron_entry cr p c n else n)"

definition sync_policies :: "'c cron_ops \<Rightarrow> cleanup_db \<Rightarrow> 'c cleanup_node \<Rightarrow> 'c cleanup_node" where
  "sync_policies cr db n =
     (case policies_list db of
        None \<Rightarrow> n
      | Some ps \<Rightarrow>
          if cn_cron n = None then n
          else (let stale = filter (\<lambda>(i, e). wanted n ps i \<noteq> Some (ce_schedule e)) (cn_entries n);
                    n1 = fold (drop_cron_entry cr) stale n
                in fold (add_missing cr) ps n1))"

definition reload_policy :: "'c cron_ops \<Rightarrow> cleanup_db \<Rightarrow> string \<Rightarrow> 'c cleanup_node \<Rightarrow> 'c cleanup_node" where
  "reload_policy cr db i n =
     (if cn_cron n = None then n
      else let n1 = (case map_of (cn_entries n) i of None \<Rightarrow> n | Some e \<Rightarrow> drop_cron_entry cr (i, e) n)
           in (case (policies_get db i, cn_cron n1) of
                 (Some p, Some c) \<Rightarrow> if cp_enabled p then add_cron_entry cr p c n1 else n1
               | _ \<Rightarrow> n1))"

text \<open>\<open>new\<close> is the scheduler \<open>cron.New\<close> makes. Its last job keeps the node in step with the table.\<close>

definition policy_sync_spec :: string where
  "policy_sync_spec = ''@every 1m''"

definition start_scheduler :: "'c cron_ops \<Rightarrow> 'c \<Rightarrow> cleanup_db \<Rightarrow> string \<Rightarrow> 'c cleanup_node \<Rightarrow> 'c cleanup_node" where
  "start_scheduler cr new db schedule n =
     (let n1 = sync_policies cr db (n\<lparr> cn_default := schedule, cn_cron := Some new \<rparr>)
      in n1\<lparr> cn_cron := map_option (\<lambda>c. snd (cr_add cr policy_sync_spec Sync_Policies c)) (cn_cron n1) \<rparr>)"

section \<open>What a job runs\<close>

text \<open>The policy a job that fires hands to \<open>runPolicyLocked\<close>.\<close>

definition scheduled_policy :: "cleanup_db \<Rightarrow> 'c cleanup_node \<Rightarrow> string \<times> string \<Rightarrow> cleanup_policy option" where
  "scheduled_policy db n job =
     (case policies_get db (fst job) of
        None \<Rightarrow> None
      | Some p \<Rightarrow> if cp_enabled p \<and> schedule_for n p = snd job then Some p else None)"

definition run_scheduled ::
  "'b store_env \<Rightarrow> (bytes \<Rightarrow> manifest_doc option) \<Rightarrow> bool \<Rightarrow> (nat \<Rightarrow> time) \<Rightarrow> (lock_err + string) option \<Rightarrow> time \<Rightarrow> cleanup_db \<Rightarrow> 'c cleanup_node \<Rightarrow>
   string \<times> string \<Rightarrow> 'b store_world \<Rightarrow> 'b store_world" where
  "run_scheduled env dec prune clk lock now0 db n job w =
     (case scheduled_policy db n job of
        None \<Rightarrow> w
      | Some p \<Rightarrow> snd (run_policy_locked env dec prune clk lock now0 p w))"

text \<open>A manual run.\<close>

definition run_policy_result ::
  "'b store_env \<Rightarrow> (bytes \<Rightarrow> manifest_doc option) \<Rightarrow> bool \<Rightarrow> (nat \<Rightarrow> time) \<Rightarrow> (lock_err + string) option \<Rightarrow> time \<Rightarrow> cleanup_db \<Rightarrow> string \<Rightarrow>
   'b store_world \<Rightarrow> (cleanup_result \<times> (nat \<times> int) option) option \<times> 'b store_world" where
  "run_policy_result env dec prune clk lock now0 db i w =
     (case policies_get db i of
        None \<Rightarrow> (None, w)
      | Some p \<Rightarrow> run_policy_locked env dec prune clk lock now0 p w)"

text \<open>
  All enabled policies, one after the other; \<open>lock p\<close> is the locker's answer for \<open>p\<close>. A lock backend that cannot
  be reached ends the round.
\<close>

fun run_each ::
  "'b store_env \<Rightarrow> (bytes \<Rightarrow> manifest_doc option) \<Rightarrow> bool \<Rightarrow> (nat \<Rightarrow> time) \<Rightarrow> (cleanup_policy \<Rightarrow> (lock_err + string) option) \<Rightarrow> time \<Rightarrow>
   cleanup_policy list \<Rightarrow> 'b store_world \<Rightarrow> bool \<times> 'b store_world" where
  "run_each env dec prune clk lock now0 [] w = (True, w)"
| "run_each env dec prune clk lock now0 (p # ps) w =
     (if \<not> cp_enabled p then run_each env dec prune clk lock now0 ps w
      else case run_policy_locked env dec prune clk (lock p) now0 p w of
        (Some _, w1) \<Rightarrow> run_each env dec prune clk lock now0 ps w1
      | (None, w1) \<Rightarrow>
          (case lock p of
             Some (Inl _) \<Rightarrow> (False, w1)
           | _ \<Rightarrow> run_each env dec prune clk lock now0 ps w1))"

definition run_all ::
  "'b store_env \<Rightarrow> (bytes \<Rightarrow> manifest_doc option) \<Rightarrow> bool \<Rightarrow> (nat \<Rightarrow> time) \<Rightarrow> (cleanup_policy \<Rightarrow> (lock_err + string) option) \<Rightarrow> time \<Rightarrow>
   cleanup_db \<Rightarrow> 'b store_world \<Rightarrow> bool \<times> 'b store_world" where
  "run_all env dec prune clk lock now0 db w =
     (case policies_list db of
        None \<Rightarrow> (False, w)
      | Some ps \<Rightarrow> run_each env dec prune clk lock now0 ps w)"

section \<open>The entries follow the table\<close>

text \<open>
  What the scheduler promises: \<open>AddFunc\<close> takes exactly the expressions it can parse, ids of added jobs are new and not
  zero, and a failed \<open>AddFunc\<close> adds nothing.
\<close>

type_synonym 'c cron_jobs = "'c \<Rightarrow> nat \<Rightarrow> (string \<times> cron_job) option"

definition cron_laws :: "'c cron_ops \<Rightarrow> (string \<Rightarrow> bool) \<Rightarrow> 'c cron_jobs \<Rightarrow> bool" where
  "cron_laws cr parses jobs \<longleftrightarrow>
     (\<forall>s j c r c'. cr_add cr s j c = (r, c') \<longrightarrow>
        (if parses s then \<exists>i. r = Some i \<and> i \<noteq> 0 \<and> jobs c i = None \<and> jobs c' = (jobs c)(i \<mapsto> (s, j))
         else r = None \<and> jobs c' = jobs c)) \<and>
     (\<forall>i c. jobs (cr_remove cr i c) = (jobs c)(i := None)) \<and> (\<forall>c. jobs c 0 = None)"

lemma cron_lawsD:
  assumes "cron_laws cr parses jobs"
  shows "cr_add cr s j c = (r, c') \<Longrightarrow> parses s \<Longrightarrow> \<exists>i. r = Some i \<and> i \<noteq> 0 \<and> jobs c i = None \<and> jobs c' = (jobs c)(i \<mapsto> (s, j))"
    "cr_add cr s j c = (r, c') \<Longrightarrow> \<not> parses s \<Longrightarrow> r = None \<and> jobs c' = jobs c"
    "jobs (cr_remove cr i c) = (jobs c)(i := None)" "jobs c 0 = None"
  using assms unfolding cron_laws_def by metis+

text \<open>The expression a policy's job fires by: its own, or the default if that cannot be parsed, or none.\<close>

definition fires_by :: "(string \<Rightarrow> bool) \<Rightarrow> 'c cleanup_node \<Rightarrow> string \<Rightarrow> string option" where
  "fires_by parses n reg = (if parses reg then Some reg else if parses (cn_default n) then Some (cn_default n) else None)"

text \<open>Every policy's job is the one of its entry, and every entry has its job.\<close>

definition node_ok :: "(string \<Rightarrow> bool) \<Rightarrow> 'c cron_jobs \<Rightarrow> 'c cleanup_node \<Rightarrow> bool" where
  "node_ok parses jobs n \<longleftrightarrow>
     distinct (map fst (cn_entries n)) \<and>
     (case cn_cron n of
        None \<Rightarrow> cn_entries n = []
      | Some c \<Rightarrow>
          (\<forall>i s pid reg. jobs c i = Some (s, Run_Policy pid reg) \<longrightarrow> map_of (cn_entries n) pid = Some \<lparr> ce_id = i, ce_schedule = reg \<rparr>) \<and>
          (\<forall>pid e. map_of (cn_entries n) pid = Some e \<longrightarrow>
             (case fires_by parses n (ce_schedule e) of
                None \<Rightarrow> ce_id e = 0
              | Some s \<Rightarrow> jobs c (ce_id e) = Some (s, Run_Policy pid (ce_schedule e)))))"

lemma node_okD:
  assumes "node_ok parses jobs n" "cn_cron n = Some c"
  shows "distinct (map fst (cn_entries n))"
    "jobs c i = Some (s, Run_Policy pid reg) \<Longrightarrow> map_of (cn_entries n) pid = Some \<lparr> ce_id = i, ce_schedule = reg \<rparr>"
    "map_of (cn_entries n) pid = Some e \<Longrightarrow>
       (case fires_by parses n (ce_schedule e) of None \<Rightarrow> ce_id e = 0 | Some s \<Rightarrow> jobs c (ce_id e) = Some (s, Run_Policy pid (ce_schedule e)))"
  using assms by (auto simp: node_ok_def)

lemma schedules_of: "map_of (map (apsnd ce_schedule) es) = (\<lambda>i. map_option ce_schedule (map_of es i))"
  by (induction es) auto

lemma drop_cron_entry_ok:
  assumes l: "cron_laws cr parses jobs" and ok: "node_ok parses jobs n" and c: "cn_cron n = Some c" and e: "map_of (cn_entries n) i = Some e"
  shows "node_ok parses jobs (drop_cron_entry cr (i, e) n)" "cn_cron (drop_cron_entry cr (i, e) n) \<noteq> None"
    "cn_default (drop_cron_entry cr (i, e) n) = cn_default n"
    "map_of (cn_entries (drop_cron_entry cr (i, e) n)) = (map_of (cn_entries n))(i := None)"
proof -
  note o = node_okD [OF ok c]
  let ?n = "drop_cron_entry cr (i, e) n" and ?c = "cr_remove cr (ce_id e) c"
  have f: "cn_cron ?n = Some ?c" "cn_entries ?n = AList.delete i (cn_entries n)" "cn_default ?n = cn_default n"
    using c by (simp_all add: drop_cron_entry_def)
  show m: "map_of (cn_entries ?n) = (map_of (cn_entries n))(i := None)" by (simp add: f(2) AList.delete_conv')
  show "cn_cron ?n \<noteq> None" "cn_default ?n = cn_default n" using f by simp_all
  have fb: "fires_by parses ?n = fires_by parses n" by (simp add: fun_eq_iff fires_by_def f(3))
  have j: "jobs ?c = (jobs c)(ce_id e := None)" by (rule cron_lawsD(3) [OF l])
  have 1: "map_of (cn_entries ?n) pid = Some \<lparr> ce_id = k, ce_schedule = reg \<rparr>" if "jobs ?c k = Some (s, Run_Policy pid reg)" for k s pid reg
  proof -
    have k: "k \<noteq> ce_id e" "jobs c k = Some (s, Run_Policy pid reg)" using that j by (auto split: if_splits)
    note x = o(2) [OF k(2)]
    have "pid \<noteq> i" using x e k(1) by auto
    then show ?thesis using x m by simp
  qed
  have 2: "case fires_by parses ?n (ce_schedule e') of None \<Rightarrow> ce_id e' = 0 | Some s \<Rightarrow> jobs ?c (ce_id e') = Some (s, Run_Policy pid (ce_schedule e'))"
    if "map_of (cn_entries ?n) pid = Some e'" for pid e'
  proof -
    have p: "pid \<noteq> i" "map_of (cn_entries n) pid = Some e'" using that m by (auto split: if_splits)
    have "ce_id e' \<noteq> ce_id e" if s: "jobs c (ce_id e') = Some (s, Run_Policy pid (ce_schedule e'))" for s
      using o(3) [OF e] s p(1) cron_lawsD(4) [OF l, of c] by (cases "ce_id e' = 0") (auto split: option.splits)
    then show ?thesis using o(3) [OF p(2)] by (simp add: fb j split: option.splits)
  qed
  show "node_ok parses jobs ?n" unfolding node_ok_def f(1) option.case using 1 2 o(1) f(2) by (simp add: distinct_delete)
qed

lemma add_cron_entry_ok:
  assumes l: "cron_laws cr parses jobs" and ok: "node_ok parses jobs n" and c: "cn_cron n = Some c" and e: "map_of (cn_entries n) (cp_id p) = None"
  shows "node_ok parses jobs (add_cron_entry cr p c n)" "cn_cron (add_cron_entry cr p c n) \<noteq> None"
    "cn_default (add_cron_entry cr p c n) = cn_default n"
    "map_of (map (apsnd ce_schedule) (cn_entries (add_cron_entry cr p c n))) = (map_of (map (apsnd ce_schedule) (cn_entries n)))(cp_id p \<mapsto> schedule_for n p)"
proof -
  note o = node_okD [OF ok c]
  let ?s = "schedule_for n p" and ?n = "add_cron_entry cr p c n"
  let ?job = "Run_Policy (cp_id p) ?s"
  define r where "r = (case cr_add cr ?s ?job c of
      (Some i, c1) \<Rightarrow> (i, c1)
    | (None, c1) \<Rightarrow> (case cr_add cr (cn_default n) ?job c1 of (Some i, c2) \<Rightarrow> (i, c2) | (None, c2) \<Rightarrow> (0, c2)))"
  have f: "cn_cron ?n = Some (snd r)" "cn_entries ?n = AList.update (cp_id p) \<lparr> ce_id = fst r, ce_schedule = ?s \<rparr> (cn_entries n)" "cn_default ?n = cn_default n"
    by (simp_all add: add_cron_entry_def r_def Let_def)
  have fb: "fires_by parses ?n = fires_by parses n" by (simp add: fun_eq_iff fires_by_def f(3))
  obtain a c1 where a: "cr_add cr ?s ?job c = (a, c1)" by (cases "cr_add cr ?s ?job c")
  obtain b c2 where b: "cr_add cr (cn_default n) ?job c1 = (b, c2)" by (cases "cr_add cr (cn_default n) ?job c1")
  have r: "case fires_by parses n ?s of
      None \<Rightarrow> fst r = 0 \<and> jobs (snd r) = jobs c
    | Some s \<Rightarrow> fst r \<noteq> 0 \<and> jobs c (fst r) = None \<and> jobs (snd r) = (jobs c)(fst r \<mapsto> (s, ?job))"
  proof (cases "parses ?s")
    case True
    from cron_lawsD(1) [OF l a True] show ?thesis using True a by (auto simp: r_def fires_by_def)
  next
    case False
    note 1 = cron_lawsD(2) [OF l a False]
    show ?thesis
    proof (cases "parses (cn_default n)")
      case True
      from cron_lawsD(1) [OF l b True] show ?thesis using True False a b 1 by (auto simp: r_def fires_by_def)
    next
      case default: False
      from cron_lawsD(2) [OF l b default] show ?thesis using False default a b 1 by (simp add: r_def fires_by_def)
    qed
  qed
  have m: "map_of (cn_entries ?n) = (map_of (cn_entries n))(cp_id p \<mapsto> \<lparr> ce_id = fst r, ce_schedule = ?s \<rparr>)"
    by (simp add: f(2) AList.update_conv')
  show "cn_cron ?n \<noteq> None" "cn_default ?n = cn_default n" using f by simp_all
  show "map_of (map (apsnd ce_schedule) (cn_entries ?n)) = (map_of (map (apsnd ce_schedule) (cn_entries n)))(cp_id p \<mapsto> ?s)"
    using m by (simp add: schedules_of fun_eq_iff)
  have new: "pid \<noteq> cp_id p" if "jobs c k = Some (s, Run_Policy pid reg)" for k s pid reg using o(2) [OF that] e by auto
  have 1: "map_of (cn_entries ?n) pid = Some \<lparr> ce_id = k, ce_schedule = reg \<rparr>"
    if "jobs (snd r) k = Some (s, Run_Policy pid reg)" for k s pid reg
  proof (cases "jobs c k = Some (s, Run_Policy pid reg)")
    case True
    then show ?thesis using o(2) [OF True] new [OF True] m by simp
  next
    case False
    then have "k = fst r" "pid = cp_id p" "reg = ?s" using that r by (auto split: if_splits option.splits)
    then show ?thesis using m by simp
  qed
  have 2: "case fires_by parses ?n (ce_schedule e') of None \<Rightarrow> ce_id e' = 0 | Some s \<Rightarrow> jobs (snd r) (ce_id e') = Some (s, Run_Policy pid (ce_schedule e'))"
    if "map_of (cn_entries ?n) pid = Some e'" for pid e'
  proof (cases "pid = cp_id p")
    case True
    then show ?thesis using that m r by (auto simp: fb split: option.splits)
  next
    case False
    then have "map_of (cn_entries n) pid = Some e'" using that m by simp
    from o(3) [OF this] show ?thesis using r by (auto simp: fb split: option.splits)
  qed
  show "node_ok parses jobs ?n" unfolding node_ok_def f(1) option.case using 1 2 o(1) f(2) by (simp add: distinct_update)
qed

lemma drop_all_ok:
  assumes l: "cron_laws cr parses jobs" and "node_ok parses jobs n" "cn_cron n \<noteq> None" "distinct (map fst xs)"
    "\<And>i e. (i, e) \<in> set xs \<Longrightarrow> map_of (cn_entries n) i = Some e"
  defines "n' \<equiv> fold (drop_cron_entry cr) xs n"
  shows "node_ok parses jobs n' \<and> cn_cron n' \<noteq> None \<and> cn_default n' = cn_default n \<and> map_of (cn_entries n') = map_of (cn_entries n) |` (- fst ` set xs)"
  using assms(2-5) unfolding n'_def
proof (induction xs arbitrary: n)
  case (Cons x xs)
  obtain i e where x: "x = (i, e)" by (cases x)
  obtain c where c: "cn_cron n = Some c" using Cons.prems(2) by auto
  note d = drop_cron_entry_ok [OF l Cons.prems(1) c Cons.prems(4) [of i e, unfolded x, simplified]]
  let ?n1 = "drop_cron_entry cr (i, e) n"
  have mem: "map_of (cn_entries ?n1) j = Some e'" if "(j, e') \<in> set xs" for j e'
  proof -
    have "j \<noteq> i" using that Cons.prems(3) x by force
    then show ?thesis using d(4) Cons.prems(4) [of j e'] that by simp
  qed
  have dist: "distinct (map fst xs)" using Cons.prems(3) by simp
  have "map_of (cn_entries ?n1) |` (- fst ` set xs) = map_of (cn_entries n) |` (- fst ` set (x # xs))"
    unfolding d(4) by (auto simp: restrict_map_def fun_eq_iff x)
  then show ?case using Cons.IH [OF d(1,2) dist mem] d(3) by (simp add: x)
qed (simp add: restrict_map_def)

lemma add_all_ok:
  assumes l: "cron_laws cr parses jobs" and "node_ok parses jobs n" "cn_cron n \<noteq> None" "distinct (map cp_id ps)"
  defines "n' \<equiv> fold (add_missing cr) ps n"
  shows "node_ok parses jobs n' \<and> cn_cron n' \<noteq> None \<and> cn_default n' = cn_default n \<and>
    (\<forall>pid reg. map_of (map (apsnd ce_schedule) (cn_entries n')) pid = Some reg \<longleftrightarrow>
       map_of (map (apsnd ce_schedule) (cn_entries n)) pid = Some reg \<or>
       map_of (map (apsnd ce_schedule) (cn_entries n)) pid = None \<and> (\<exists>p \<in> set ps. cp_id p = pid \<and> cp_enabled p \<and> schedule_for n p = reg))"
  using assms(2-4) unfolding n'_def
proof (induction ps arbitrary: n)
  case (Cons p ps)
  obtain c where c: "cn_cron n = Some c" using Cons.prems(2) by auto
  let ?sch = "\<lambda>n. map_of (map (apsnd ce_schedule) (cn_entries n))"
  have dist: "distinct (map cp_id ps)" "cp_id p \<notin> cp_id ` set ps" using Cons.prems(3) by simp_all
  show ?case
  proof (cases "map_of (cn_entries n) (cp_id p) = None \<and> cp_enabled p")
    case True
    note a = add_cron_entry_ok [OF l Cons.prems(1) c True [THEN conjunct1]]
    have n1: "add_missing cr p n = add_cron_entry cr p c n" using True c by (simp add: add_missing_def)
    have sf: "schedule_for (add_cron_entry cr p c n) q = schedule_for n q" for q by (simp add: schedule_for_def a(3))
    have none: "?sch n (cp_id p) = None" using True by (simp add: schedules_of)
    note IH = Cons.IH [OF a(1,2) dist(1), unfolded sf a(3,4)]
    have nin: "cp_id q \<noteq> cp_id p" if "q \<in> set ps" for q using that dist(2) by (metis imageI)
    have "((?sch n)(cp_id p \<mapsto> schedule_for n p)) pid = Some reg \<or>
        ((?sch n)(cp_id p \<mapsto> schedule_for n p)) pid = None \<and> (\<exists>q \<in> set ps. cp_id q = pid \<and> cp_enabled q \<and> schedule_for n q = reg) \<longleftrightarrow>
        ?sch n pid = Some reg \<or> ?sch n pid = None \<and> (\<exists>q \<in> set (p # ps). cp_id q = pid \<and> cp_enabled q \<and> schedule_for n q = reg)" for pid reg
      using True none by (cases "pid = cp_id p") (auto dest: nin)
    then show ?thesis using IH by (simp add: n1)
  next
    case False
    have n1: "add_missing cr p n = n" using False c by (auto simp: add_missing_def)
    have "?sch n pid = Some reg \<or> ?sch n pid = None \<and> (\<exists>q \<in> set ps. cp_id q = pid \<and> cp_enabled q \<and> schedule_for n q = reg) \<longleftrightarrow>
        ?sch n pid = Some reg \<or> ?sch n pid = None \<and> (\<exists>q \<in> set (p # ps). cp_id q = pid \<and> cp_enabled q \<and> schedule_for n q = reg)" for pid reg
      using False by (auto simp: schedules_of)
    then show ?thesis using Cons.IH [OF Cons.prems(1,2) dist(1)] by (simp add: n1)
  qed
qed simp

lemma wanted_iff:
  assumes "distinct (map cp_id ps)"
  shows "wanted n ps pid = Some reg \<longleftrightarrow> (\<exists>p \<in> set ps. cp_id p = pid \<and> cp_enabled p \<and> schedule_for n p = reg)"
proof -
  let ?xs = "map (\<lambda>p. (cp_id p, schedule_for n p)) (filter cp_enabled ps)"
  have "distinct (map fst (rev ?xs))" using assms by (simp add: rev_map [symmetric] comp_def distinct_map_filter)
  from map_of_eq_Some_iff [OF this, of pid reg] show ?thesis by (auto simp: wanted_def)
qed

lemma sync_facts:
  assumes "cron_laws cr parses jobs" "node_ok parses jobs n" "cn_cron n = Some c" "\<not> cd_fail db" "distinct (map cp_id (cd_policies db))"
  shows "node_ok parses jobs (sync_policies cr db n) \<and> cn_cron (sync_policies cr db n) \<noteq> None \<and>
    (\<forall>pid reg. map_of (map (apsnd ce_schedule) (cn_entries (sync_policies cr db n))) pid = Some reg \<longleftrightarrow>
       (\<exists>p \<in> set (cd_policies db). cp_id p = pid \<and> cp_enabled p \<and> schedule_for n p = reg))"
proof -
  let ?ps = "sort_key cp_name (cd_policies db)"
  let ?stale = "filter (\<lambda>(i, e). wanted n ?ps i \<noteq> Some (ce_schedule e)) (cn_entries n)"
  let ?sch = "\<lambda>n. map_of (map (apsnd ce_schedule) (cn_entries n))"
  define n1 where "n1 = fold (drop_cron_entry cr) ?stale n"
  have n': "sync_policies cr db n = fold (add_missing cr) ?ps n1"
    using assms(3,4) by (simp add: sync_policies_def policies_list_def n1_def Let_def)
  have dist: "distinct (map cp_id ?ps)" using assms(5) by (simp add: distinct_map)
  have d: "distinct (map fst (cn_entries n))" using node_okD(1) [OF assms(2,3)] .
  have st: "map_of (cn_entries n) i = Some e" if "(i, e) \<in> set ?stale" for i e using that d by (simp add: map_of_eq_Some_iff)
  have "cn_cron n \<noteq> None" using assms(3) by simp
  then have dr: "node_ok parses jobs n1 \<and> cn_cron n1 \<noteq> None \<and> cn_default n1 = cn_default n \<and> map_of (cn_entries n1) = map_of (cn_entries n) |` (- fst ` set ?stale)"
    unfolding n1_def by (rule drop_all_ok [OF assms(1,2) _ distinct_map_filter [OF d]]) (rule st)
  note ad = add_all_ok [OF assms(1) dr [THEN conjunct1] dr [THEN conjunct2, THEN conjunct1] dist, folded n']
  have sf: "schedule_for n1 p = schedule_for n p" for p using dr by (simp add: schedule_for_def)
  have w: "wanted n ?ps pid = Some reg \<longleftrightarrow> (\<exists>p \<in> set (cd_policies db). cp_id p = pid \<and> cp_enabled p \<and> schedule_for n p = reg)" for pid reg
    using wanted_iff [OF dist] by simp
  have kept: "?sch n1 pid = (case map_of (cn_entries n) pid of Some e \<Rightarrow> if wanted n ?ps pid = Some (ce_schedule e) then Some (ce_schedule e) else None | None \<Rightarrow> None)" for pid
  proof -
    have "pid \<in> fst ` set ?stale \<longleftrightarrow> (\<exists>e. map_of (cn_entries n) pid = Some e \<and> wanted n ?ps pid \<noteq> Some (ce_schedule e))"
      using d by (force simp: map_of_eq_Some_iff image_iff)
    then show ?thesis using dr by (auto simp: schedules_of restrict_map_def split: option.split)
  qed
  have "?sch (sync_policies cr db n) pid = Some reg \<longleftrightarrow> wanted n ?ps pid = Some reg" for pid reg
    using ad [THEN conjunct2, THEN conjunct2, THEN conjunct2, rule_format, of pid reg] kept [of pid] w [of pid reg]
    by (auto simp: sf split: option.splits if_splits)
  then show ?thesis using ad w by blast
qed

lemma sync_default: "cn_default (sync_policies cr db n) = cn_default n"
proof -
  have "cn_default (fold (drop_cron_entry cr) xs n) = cn_default n" for xs n
    by (induction xs arbitrary: n) (simp_all add: drop_cron_entry_def)
  moreover have "cn_default (fold (add_missing cr) ps n) = cn_default n" for ps n
    by (induction ps arbitrary: n) (auto simp: add_missing_def add_cron_entry_def Let_def split: option.split)
  ultimately show ?thesis by (simp add: sync_policies_def Let_def split: option.split)
qed

lemma node_ok_jobs:
  assumes l: "cron_laws cr parses jobs" and ok: "node_ok parses jobs n" and c: "cn_cron n = Some c"
  shows "(\<exists>i. jobs c i = Some (s, Run_Policy pid reg)) \<longleftrightarrow>
      map_of (map (apsnd ce_schedule) (cn_entries n)) pid = Some reg \<and> fires_by parses n reg = Some s"
    "jobs c i = Some (s, Run_Policy pid reg) \<Longrightarrow> jobs c k = Some (t, Run_Policy pid reg') \<Longrightarrow> i = k"
proof -
  note o = node_okD [OF ok c]
  show "i = k" if "jobs c i = Some (s, Run_Policy pid reg)" "jobs c k = Some (t, Run_Policy pid reg')"
    using o(2) [OF that(1)] o(2) [OF that(2)] by simp
  have "fires_by parses n reg = Some s" if "jobs c i = Some (s, Run_Policy pid reg)" for i
    using o(3) [OF o(2) [OF that]] that cron_lawsD(4) [OF l, of c] by (auto split: option.splits)
  then show "(\<exists>i. jobs c i = Some (s, Run_Policy pid reg)) \<longleftrightarrow>
      map_of (map (apsnd ce_schedule) (cn_entries n)) pid = Some reg \<and> fires_by parses n reg = Some s"
    using o(2) o(3) by (fastforce simp: schedules_of)
qed

lemma sync_jobs:
  assumes "cron_laws cr parses jobs" "node_ok parses jobs n" "cn_cron n = Some c" "\<not> cd_fail db" "distinct (map cp_id (cd_policies db))"
  shows "node_ok parses jobs (sync_policies cr db n) \<and>
    (\<exists>c'. cn_cron (sync_policies cr db n) = Some c' \<and>
       (\<forall>pid reg s. (\<exists>i. jobs c' i = Some (s, Run_Policy pid reg)) \<longleftrightarrow>
          (\<exists>p \<in> set (cd_policies db). cp_id p = pid \<and> cp_enabled p \<and> schedule_for n p = reg \<and> fires_by parses n reg = Some s)) \<and>
       (\<forall>pid reg s i reg' s' i'. jobs c' i = Some (s, Run_Policy pid reg) \<longrightarrow> jobs c' i' = Some (s', Run_Policy pid reg') \<longrightarrow> i = i'))"
proof -
  note f = sync_facts [OF assms]
  then obtain c' where c': "cn_cron (sync_policies cr db n) = Some c'" by blast
  have "fires_by parses (sync_policies cr db n) = fires_by parses n" by (simp add: fun_eq_iff fires_by_def sync_default)
  then have 1: "(\<exists>i. jobs c' i = Some (s, Run_Policy pid reg)) \<longleftrightarrow>
      (\<exists>p \<in> set (cd_policies db). cp_id p = pid \<and> cp_enabled p \<and> schedule_for n p = reg \<and> fires_by parses n reg = Some s)" for pid reg s
    using node_ok_jobs(1) [OF assms(1) f [THEN conjunct1] c'] f by auto
  show ?thesis
  proof (rule conjI [OF f [THEN conjunct1]], rule exI [of _ c'], intro conjI allI impI)
    show "i = i'" if "jobs c' i = Some (s, Run_Policy pid reg)" "jobs c' i' = Some (s', Run_Policy pid reg')" for pid reg s i reg' s' i'
      by (rule node_ok_jobs(2) [OF assms(1) f [THEN conjunct1] c' that])
  qed (rule c', rule 1)
qed

text \<open>
  C40: after \<open>syncPolicies\<close> has read the table, the scheduler of the node runs what the table says: there is a job for
  exactly the enabled policies, under the schedule each has now, one for each policy, firing by that schedule, or
  by the default if it cannot be parsed; only a policy for which neither can be parsed has none. No job of a
  deleted, disabled or rescheduled policy is left. The invariant \<open>node_ok\<close> holds before and after.
\<close>

theorem sync_matches_policies:
  assumes "cron_laws cr parses jobs" "node_ok parses jobs n" "cn_cron n = Some c" "\<not> cd_fail db" "distinct (map cp_id (cd_policies db))"
  shows "node_ok parses jobs (sync_policies cr db n) \<and>
    (\<exists>c'. cn_cron (sync_policies cr db n) = Some c' \<and>
       (\<forall>pid reg s. (\<exists>i. jobs c' i = Some (s, Run_Policy pid reg)) \<longleftrightarrow>
          (\<exists>p \<in> set (cd_policies db). cp_id p = pid \<and> cp_enabled p \<and> schedule_for n p = reg \<and> fires_by parses n reg = Some s)) \<and>
       (\<forall>pid reg s i reg' s' i'. jobs c' i = Some (s, Run_Policy pid reg) \<longrightarrow> jobs c' i' = Some (s', Run_Policy pid reg') \<longrightarrow> i = i'))"
  by (rule sync_jobs [OF assms])

text \<open>A scheduler that keeps its jobs in a list and accepts every expression but the empty one.\<close>

definition demo_cron :: "(nat \<times> string \<times> cron_job) list cron_ops" where
  "demo_cron =
     \<lparr> cr_add = (\<lambda>s j c. if s = [] then (None, c) else let i = Suc (foldr max (map fst c) 0) in (Some i, (i, s, j) # c)),
       cr_remove = (\<lambda>i c. filter (\<lambda>x. fst x \<noteq> i) c) \<rparr>"

definition demo_jobs :: "(nat \<times> string \<times> cron_job) list cron_jobs" where
  "demo_jobs c i = (if i = 0 then None else map_of c i)"

lemma demo_cron_laws: "cron_laws demo_cron (\<lambda>s. s \<noteq> []) demo_jobs"
proof -
  have le: "k \<in> set (map fst c) \<Longrightarrow> k \<le> foldr max (map fst c) 0" for k :: nat and c :: "(nat \<times> string \<times> cron_job) list"
    by (induction c) (fastforce simp: le_max_iff_disj)+
  have none: "map_of c (Suc (foldr max (map fst c) 0)) = None" for c :: "(nat \<times> string \<times> cron_job) list"
    using le [of "Suc (foldr max (map fst c) 0)" c] by (force simp: map_of_eq_None_iff)
  have "map_of (filter (\<lambda>x. fst x \<noteq> i) c) k = (if k = i then None else map_of c k)" for i k and c :: "(nat \<times> string \<times> cron_job) list"
    by (induction c) auto
  then show ?thesis
    unfolding cron_laws_def by (auto simp: demo_cron_def demo_jobs_def none fun_eq_iff Let_def split: if_splits)
qed

definition demo_cleanup_policy :: "string \<Rightarrow> string \<Rightarrow> bool \<Rightarrow> cleanup_policy" where
  "demo_cleanup_policy i cron enabled =
     \<lparr> cp_id = i, cp_name = i, cp_description = [], cp_format = ''*'', cp_criteria = None, cp_schedule_cron = cron,
       cp_enabled = enabled, cp_dry_run = False, cp_retain = 0, cp_scope_repository = [], cp_scope_prefix = [],
       cp_last_run_at = None, cp_last_run_freed = 0, cp_last_run_count = 0, cp_created_at = 0, cp_updated_at = 0 \<rparr>"

definition demo_table :: cleanup_db where
  "demo_table = \<lparr> cd_policies = [demo_cleanup_policy ''p1'' ''@daily'' True, demo_cleanup_policy ''p2'' [] False], cd_next = 0, cd_now = 0, cd_fail = False \<rparr>"

theorem sync_matches_policies_witness:
  "\<exists>c'. cn_cron (sync_policies demo_cron demo_table \<lparr> cn_cron = Some [], cn_entries = [], cn_default = ''@weekly'' \<rparr>) = Some c' \<and>
     (\<exists>i. demo_jobs c' i = Some (''@daily'', Run_Policy ''p1'' ''@daily''))"
proof -
  let ?n = "\<lparr> cn_cron = Some [], cn_entries = [], cn_default = ''@weekly'' \<rparr>"
  have "node_ok (\<lambda>s. s \<noteq> []) demo_jobs ?n" by (simp add: node_ok_def demo_jobs_def)
  note sync = sync_matches_policies [OF demo_cron_laws this, of "[]" demo_table]
  have "\<not> cd_fail demo_table" "distinct (map cp_id (cd_policies demo_table))" by (simp_all add: demo_table_def demo_cleanup_policy_def)
  from sync [OF cleanup_node.select_convs(1) this, THEN conjunct2] show ?thesis
  proof (elim exE conjE, goal_cases)
    case (1 c')
    have "\<exists>i. demo_jobs c' i = Some (''@daily'', Run_Policy ''p1'' ''@daily'')"
      unfolding 1(2) [rule_format] by (simp add: demo_table_def demo_cleanup_policy_def schedule_for_def fires_by_def)
    show ?case by (rule exI [of _ c'], rule conjI) fact+
  qed
qed

text \<open>A started node runs the table's policies, and goes on re-reading it.\<close>

lemma start_scheduler_jobs:
  assumes "cron_laws cr parses jobs" "parses policy_sync_spec" "jobs new = (\<lambda>_. None)" "cn_entries n = []" "\<not> cd_fail db"
    "distinct (map cp_id (cd_policies db))"
  shows "node_ok parses jobs (start_scheduler cr new db schedule n)"
    "\<exists>c i. cn_cron (start_scheduler cr new db schedule n) = Some c \<and> jobs c i = Some (policy_sync_spec, Sync_Policies)"
proof -
  let ?n = "n\<lparr> cn_default := schedule, cn_cron := Some new \<rparr>"
  let ?m = "sync_policies cr db ?n"
  have "node_ok parses jobs ?n" using assms(3,4) by (simp add: node_ok_def)
  note j = sync_jobs [OF assms(1) this _ assms(5,6), of new]
  then obtain c where c: "cn_cron ?m = Some c" by auto
  have ok: "node_ok parses jobs ?m" using j by simp
  obtain r c' where a: "cr_add cr policy_sync_spec Sync_Policies c = (r, c')" by (metis surj_pair)
  then obtain i where i: "jobs c i = None" "jobs c' = (jobs c)(i \<mapsto> (policy_sync_spec, Sync_Policies))" "i \<noteq> 0"
    using cron_lawsD(1) [OF assms(1) a assms(2)] by blast
  have s: "start_scheduler cr new db schedule n = ?m\<lparr> cn_cron := Some c' \<rparr>" by (simp add: start_scheduler_def Let_def c a)
  show "\<exists>c i. cn_cron (start_scheduler cr new db schedule n) = Some c \<and> jobs c i = Some (policy_sync_spec, Sync_Policies)"
    using i by (auto simp: s)
  note o = node_okD [OF ok c]
  have fb: "fires_by parses (?m\<lparr> cn_cron := Some c' \<rparr>) = fires_by parses ?m" by (simp add: fun_eq_iff fires_by_def)
  have "case fires_by parses ?m (ce_schedule e) of None \<Rightarrow> ce_id e = 0 | Some s \<Rightarrow> jobs c' (ce_id e) = Some (s, Run_Policy pid (ce_schedule e))"
    if "map_of (cn_entries ?m) pid = Some e" for pid e
    using o(3) [OF that] i(1,2) by (auto split: option.splits)
  moreover have "map_of (cn_entries ?m) pid = Some \<lparr> ce_id = k, ce_schedule = reg \<rparr>" if "jobs c' k = Some (t, Run_Policy pid reg)" for k t pid reg
  proof -
    have "jobs c k = Some (t, Run_Policy pid reg)" using that i(2) by (auto split: if_splits)
    then show ?thesis by (rule o(2))
  qed
  ultimately show "node_ok parses jobs (start_scheduler cr new db schedule n)"
    unfolding s node_ok_def fb using o(1) by simp
qed

text \<open>Reloading one policy keeps the invariant and gives it the schedule it has now, or none.\<close>

lemma reload_policy_ok:
  assumes "cron_laws cr parses jobs" "node_ok parses jobs n" "cn_cron n = Some c" "\<not> cd_fail db" "reload_policy cr db i n = n'"
  shows "node_ok parses jobs n'"
    "map_of (map (apsnd ce_schedule) (cn_entries n')) i =
       (case find (\<lambda>p. cp_id p = i) (cd_policies db) of None \<Rightarrow> None | Some p \<Rightarrow> if cp_enabled p then Some (schedule_for n p) else None)"
proof -
  let ?sch = "\<lambda>n. map_of (map (apsnd ce_schedule) (cn_entries n))"
  define n1 where "n1 = (case map_of (cn_entries n) i of None \<Rightarrow> n | Some e \<Rightarrow> drop_cron_entry cr (i, e) n)"
  have 1: "node_ok parses jobs n1 \<and> cn_cron n1 \<noteq> None \<and> cn_default n1 = cn_default n \<and> map_of (cn_entries n1) i = None"
  proof (cases "map_of (cn_entries n) i")
    case None
    then show ?thesis using assms(2,3) by (simp add: n1_def)
  next
    case (Some e)
    from drop_cron_entry_ok [OF assms(1-3) Some] show ?thesis by (simp add: n1_def Some)
  qed
  then obtain c1 where c1: "cn_cron n1 = Some c1" by blast
  have sf: "schedule_for n1 p = schedule_for n p" for p using 1 by (simp add: schedule_for_def)
  have n': "n' = (case find (\<lambda>p. cp_id p = i) (cd_policies db) of None \<Rightarrow> n1 | Some p \<Rightarrow> if cp_enabled p then add_cron_entry cr p c1 n1 else n1)"
    using assms(3,4) c1 by (simp add: assms(5) [symmetric] reload_policy_def n1_def [symmetric] Let_def policies_get_def split: option.split)
  show "node_ok parses jobs n'" "?sch n' i =
      (case find (\<lambda>p. cp_id p = i) (cd_policies db) of None \<Rightarrow> None | Some p \<Rightarrow> if cp_enabled p then Some (schedule_for n p) else None)"
  proof (atomize (full), cases "find (\<lambda>p. cp_id p = i) (cd_policies db)")
    case None
    then show "node_ok parses jobs n' \<and> ?sch n' i = (case find (\<lambda>p. cp_id p = i) (cd_policies db) of None \<Rightarrow> None | Some p \<Rightarrow> if cp_enabled p then Some (schedule_for n p) else None)"
      using 1 n' by (simp add: schedules_of)
  next
    case (Some p)
    then have p: "cp_id p = i" by (simp add: find_Some_iff) auto
    then have "map_of (cn_entries n1) (cp_id p) = None" using 1 by simp
    note a = add_cron_entry_ok [OF assms(1) 1 [THEN conjunct1] c1 this]
    show "node_ok parses jobs n' \<and> ?sch n' i = (case find (\<lambda>p. cp_id p = i) (cd_policies db) of None \<Rightarrow> None | Some p \<Rightarrow> if cp_enabled p then Some (schedule_for n p) else None)"
    proof (cases "cp_enabled p")
      case True
      then show ?thesis using n' Some a(1,4) p sf by simp
    next
      case False
      then show ?thesis using 1 n' Some by (simp add: schedules_of)
    qed
  qed
qed

text \<open>A job that fires runs its policy only as the table has it: present, enabled, and on the schedule the job was registered with.\<close>

lemma scheduled_run_current:
  "run_scheduled env dec prune clk lock now0 db n job w \<noteq> w \<Longrightarrow>
     \<exists>p \<in> set (cd_policies db). cp_id p = fst job \<and> cp_enabled p \<and> schedule_for n p = snd job \<and>
       run_scheduled env dec prune clk lock now0 db n job w = snd (run_policy_locked env dec prune clk lock now0 p w)"
proof -
  assume ne: "run_scheduled env dec prune clk lock now0 db n job w \<noteq> w"
  then obtain p where p: "scheduled_policy db n job = Some p" by (auto simp: run_scheduled_def split: option.splits)
  then have "find (\<lambda>p. cp_id p = fst job) (cd_policies db) = Some p" "cp_enabled p" "schedule_for n p = snd job"
    by (auto simp: scheduled_policy_def policies_get_def split: option.splits if_splits)
  moreover from this(1) have "p \<in> set (cd_policies db)" "cp_id p = fst job" by (auto simp: find_Some_iff)
  ultimately show ?thesis using p by (auto simp: run_scheduled_def)
qed

end
