(* ===== verification/Redaction.thy ===== *)
theory Redaction
  imports Domain
begin

text \<open>
  Secrets in configurations: \<open>internal/domain/redact.go\<close>, and the merges that put them back on an edit
  (\<open>mergeSecretConfig\<close> of \<open>service/repository_service.go\<close>, \<open>mergeBlobStoreConfig\<close> of
  \<open>api/handlers/blobstores.go\<close>). A JSON value that is not a string reads as the empty secret.
\<close>

section \<open>Redacting\<close>

definition set_key :: "string \<Rightarrow> string" where
  "set_key k = k @ ''_set''"

definition format_config_secret_keys :: "string list" where
  "format_config_secret_keys = [''signing_key'', ''signing_key_passphrase'']"

definition blob_store_secret_keys :: "string list" where
  "blob_store_secret_keys = [''secret_key'', ''account_key'', ''connection_string'', ''sas_token'']"

definition proxy_config_secret_keys :: "string list" where
  "proxy_config_secret_keys = [''proxy_password'', ''remote_password'']"

definition redacted_config :: "cfg \<Rightarrow> string \<Rightarrow> string \<Rightarrow> cfg" where
  "redacted_config c secret setk =
     (case c of
        None \<Rightarrow> None
      | Some m \<Rightarrow>
          Some (let out = m(secret := None, setk := None)
                in if as_str (m secret) \<noteq> [] then out(setk \<mapsto> VBool True) else out))"

definition redacted_keys :: "string list \<Rightarrow> cfg \<Rightarrow> cfg" where
  "redacted_keys ks c = foldl (\<lambda>c k. redacted_config c k (set_key k)) c ks"

definition redacted_blob_store :: "blob_store \<Rightarrow> blob_store" where
  "redacted_blob_store bs = bs\<lparr> bs_config := redacted_keys blob_store_secret_keys (bs_config bs) \<rparr>"

definition redacted_blob_stores :: "blob_store list \<Rightarrow> blob_store list" where
  "redacted_blob_stores = map redacted_blob_store"

definition redacted_repository :: "repository \<Rightarrow> repository" where
  "redacted_repository r =
     r\<lparr> repo_proxy_config := redacted_keys proxy_config_secret_keys (repo_proxy_config r),
        repo_format_config := redacted_keys format_config_secret_keys (repo_format_config r) \<rparr>"

definition redacted_repositories :: "repository list \<Rightarrow> repository list" where
  "redacted_repositories = map redacted_repository"

section \<open>Merging an edit\<close>

definition keep_secret :: "cfg \<Rightarrow> (string \<rightharpoonup> any_val) \<Rightarrow> string \<Rightarrow> (string \<rightharpoonup> any_val)" where
  "keep_secret stored m k =
     (case m k of
        Some v \<Rightarrow> if as_str (Some v) = [] then m(k := None) else m
      | None \<Rightarrow> if as_str (cfg_get stored k) \<noteq> [] then m(k \<mapsto> VStr (as_str (cfg_get stored k))) else m)"

definition merge_secret_config :: "cfg \<Rightarrow> cfg \<Rightarrow> string list \<Rightarrow> cfg" where
  "merge_secret_config stored updates ks =
     Some (foldl (keep_secret stored) (\<lambda>k. if k \<in> set (map set_key ks) then None else cfg_get updates k) ks)"

definition merge_proxy_config :: "cfg \<Rightarrow> cfg \<Rightarrow> cfg" where
  "merge_proxy_config stored updates = merge_secret_config stored updates proxy_config_secret_keys"

text \<open>\<open>isMarker\<close> names \<open>secret_key_set\<close> twice; the other difference is the edit without a configuration.\<close>

definition merge_blob_store_config :: "cfg \<Rightarrow> cfg \<Rightarrow> cfg" where
  "merge_blob_store_config stored updates =
     (if updates = None then stored else merge_secret_config stored updates blob_store_secret_keys)"

section \<open>What a reader sees and what an edit keeps\<close>

text \<open>Keys and markers are all different.\<close>

definition secret_keys_ok :: "string list \<Rightarrow> bool" where
  "secret_keys_ok ks \<longleftrightarrow> distinct ks \<and> (\<forall>k \<in> set ks. \<forall>k' \<in> set ks. set_key k \<noteq> k')"

lemma secret_keys_ok [simp]:
  "secret_keys_ok format_config_secret_keys" "secret_keys_ok blob_store_secret_keys" "secret_keys_ok proxy_config_secret_keys"
  by (simp_all add: secret_keys_ok_def set_key_def format_config_secret_keys_def blob_store_secret_keys_def proxy_config_secret_keys_def)

lemma set_key_eq [simp]: "set_key k = set_key k' \<longleftrightarrow> k = k'"
  by (simp add: set_key_def)

lemma redacted_keys_Nil [simp]: "redacted_keys [] c = c"
  by (simp add: redacted_keys_def)

lemma redacted_keys_None [simp]: "redacted_keys ks None = None"
  unfolding redacted_keys_def by (induction ks) (simp_all add: redacted_config_def)

text \<open>The view: secrets gone, a marker for each non-empty one, all else as stored.\<close>

definition redacted_view :: "string list \<Rightarrow> (string \<rightharpoonup> any_val) \<Rightarrow> (string \<rightharpoonup> any_val)" where
  "redacted_view ks m =
     (\<lambda>x. if x \<in> set ks then None
          else if x \<in> set (map set_key ks) then (if \<exists>k \<in> set ks. x = set_key k \<and> as_str (m k) \<noteq> [] then Some (VBool True) else None)
          else m x)"

lemma redacted_keys_view: "secret_keys_ok ks \<Longrightarrow> redacted_keys ks (Some m) = Some (redacted_view ks m)"
proof (induction ks rule: rev_induct)
  case Nil
  then show ?case by (simp add: redacted_view_def fun_eq_iff)
next
  case (snoc k ks)
  have ok: "secret_keys_ok ks" "k \<notin> set ks" "set_key k \<notin> set ks" "\<And>k'. k' \<in> set ks \<Longrightarrow> set_key k' \<noteq> k" "set_key k \<noteq> k"
    using snoc.prems by (auto simp: secret_keys_ok_def)
  have v: "redacted_view ks m k = m k" using ok(2,4) by (auto simp: redacted_view_def)
  have "redacted_keys (ks @ [k]) (Some m) = redacted_config (Some (redacted_view ks m)) k (set_key k)"
    using snoc.IH [OF ok(1)] by (simp add: redacted_keys_def)
  also have "\<dots> = Some (redacted_view (ks @ [k]) m)"
    using ok unfolding redacted_config_def by (auto simp: v Let_def redacted_view_def fun_eq_iff)
  finally show ?case .
qed

text \<open>The merge, key by key.\<close>

lemma keep_secret_other: "x \<noteq> k \<Longrightarrow> keep_secret stored m k x = m x"
  by (simp add: keep_secret_def split: option.split)

definition merged_view :: "string list \<Rightarrow> cfg \<Rightarrow> (string \<rightharpoonup> any_val) \<Rightarrow> (string \<rightharpoonup> any_val)" where
  "merged_view ks stored u =
     (\<lambda>x. if x \<in> set ks then (case u x of Some v \<Rightarrow> if as_str (Some v) = [] then None else Some v
                             | None \<Rightarrow> if as_str (cfg_get stored x) \<noteq> [] then Some (VStr (as_str (cfg_get stored x))) else None)
          else u x)"

lemma keep_secrets_view: "distinct ks \<Longrightarrow> foldl (keep_secret stored) u ks = merged_view ks stored u"
proof (induction ks rule: rev_induct)
  case Nil
  then show ?case by (simp add: merged_view_def fun_eq_iff)
next
  case (snoc k ks)
  have "foldl (keep_secret stored) u (ks @ [k]) = keep_secret stored (merged_view ks stored u) k" using snoc by simp
  also have "\<dots> = merged_view (ks @ [k]) stored u"
  proof
    fix x
    have "merged_view ks stored u k = u k" using snoc.prems by (simp add: merged_view_def)
    then show "keep_secret stored (merged_view ks stored u) k x = merged_view (ks @ [k]) stored u x"
      using snoc.prems keep_secret_other [of x k stored "merged_view ks stored u"]
      by (cases "x = k") (auto simp: merged_view_def keep_secret_def split: option.split)
  qed
  finally show ?case .
qed

lemma merge_secret_view:
  "secret_keys_ok ks \<Longrightarrow> merge_secret_config stored updates ks =
     Some (merged_view ks stored (\<lambda>k. if k \<in> set (map set_key ks) then None else cfg_get updates k))"
  by (simp add: merge_secret_config_def keep_secrets_view secret_keys_ok_def)

text \<open>A stored configuration without markers, whose secrets are non-empty strings; every merge answers one.\<close>

definition clean_config :: "string list \<Rightarrow> (string \<rightharpoonup> any_val) \<Rightarrow> bool" where
  "clean_config ks m \<longleftrightarrow> (\<forall>k \<in> set ks. m (set_key k) = None \<and> (m k = None \<or> (\<exists>s. s \<noteq> [] \<and> m k = Some (VStr s))))"

lemma as_str_nonempty: "as_str (Some v) \<noteq> [] \<Longrightarrow> \<exists>s. s \<noteq> [] \<and> v = VStr s"
  by (cases v) simp_all

lemma merge_clean: "secret_keys_ok ks \<Longrightarrow> \<exists>m. merge_secret_config stored updates ks = Some m \<and> clean_config ks m"
  unfolding merge_secret_view clean_config_def
  by (auto simp: merged_view_def secret_keys_ok_def dest: as_str_nonempty split: option.split)

lemma redacted_merge:
  assumes "secret_keys_ok ks" "clean_config ks m"
  shows "merge_secret_config (Some m) (redacted_keys ks (Some m)) ks = Some m"
proof -
  have "merged_view ks (Some m) (\<lambda>k. if k \<in> set (map set_key ks) then None else redacted_view ks m k) x = m x" for x
  proof -
    consider "x \<in> set ks" | k where "k \<in> set ks" "x = set_key k" "x \<notin> set ks" | "x \<notin> set ks" "x \<notin> set (map set_key ks)" by auto
    then show ?thesis
    proof cases
      case 1
      then have "x \<notin> set (map set_key ks)" using assms(1) by (auto simp: secret_keys_ok_def)
      moreover have "m x = None \<or> (\<exists>s. s \<noteq> [] \<and> m x = Some (VStr s))" using 1 assms(2) by (simp add: clean_config_def)
      ultimately show ?thesis using 1 by (auto simp: merged_view_def redacted_view_def)
    next
      case 2
      then have "m x = None" using assms(2) by (simp add: clean_config_def)
      then show ?thesis using 2 by (auto simp: merged_view_def)
    next
      case 3
      then show ?thesis by (auto simp: merged_view_def redacted_view_def)
    qed
  qed
  then show ?thesis unfolding redacted_keys_view [OF assms(1)] merge_secret_view [OF assms(1)] by (simp add: fun_eq_iff cong: if_cong)
qed

text \<open>Two configurations that differ in the text of non-empty secrets only look the same.\<close>

lemma redacted_noninterference:
  assumes "secret_keys_ok ks" "\<And>x. x \<notin> set ks \<Longrightarrow> m x = m' x" "\<And>k. k \<in> set ks \<Longrightarrow> (as_str (m k) = []) = (as_str (m' k) = [])"
  shows "redacted_keys ks (Some m) = redacted_keys ks (Some m')"
  unfolding redacted_keys_view [OF assms(1)] using assms by (auto simp: redacted_view_def fun_eq_iff)

end
