(* ===== verification/Repo_Admin.thy ===== *)
theory Repo_Admin
  imports Redaction Severity Blob_Migration Cleanup_Schedule
begin

text \<open>
  Repository administration: \<open>internal/service/repository_service.go\<close> over the tables of a \<open>store_world\<close>
  and the policy table of a \<open>cleanup_db\<close>. The webhook that follows a change is not modelled.
\<close>

section \<open>Validation\<close>

datatype admin_err = Ae_Invalid | Ae_Not_Found | Ae_Exists | Ae_Db

definition validate_write_policy :: "repository \<Rightarrow> bool" where
  "validate_write_policy r \<longleftrightarrow>
     (case repo_format_config r of
        None \<Rightarrow> True
      | Some m \<Rightarrow>
          (case m ''write_policy'' of
             None \<Rightarrow> True
           | Some VNull \<Rightarrow> True
           | Some (VStr v) \<Rightarrow>
               (case write_policy_of v of
                  None \<Rightarrow> False
                | Some p \<Rightarrow> p = WritePolicyAllow \<or> repo_kind r = TypeHosted)
           | Some _ \<Rightarrow> False) \<and>
          (case m ''allow_redeploy_latest'' of
             None \<Rightarrow> True
           | Some VNull \<Rightarrow> True
           | Some (VBool v) \<Rightarrow> v \<longrightarrow> repo_kind r = TypeHosted \<and> is_oci_registry (repo_fmt r)
           | Some _ \<Rightarrow> False))"

text \<open>The repository with the threshold rewritten.\<close>

definition validate_pull_block_severity :: "repository \<Rightarrow> repository option" where
  "validate_pull_block_severity r =
     (case repo_format_config r of
        None \<Rightarrow> Some r
      | Some m \<Rightarrow>
          (case m ''pull_block_severity'' of
             None \<Rightarrow> Some r
           | Some VNull \<Rightarrow> Some r
           | Some raw \<Rightarrow>
               (case normalize_pull_block_severity (Some raw) of
                  Inl _ \<Rightarrow> None
                | Inr v \<Rightarrow>
                    if v \<noteq> [] \<and> \<not> is_oci_registry (repo_fmt r) then None
                    else Some (r\<lparr> repo_format_config := Some (m(''pull_block_severity'' \<mapsto> VStr v)) \<rparr>))))"

definition reserved_v2_names :: "string list" where
  "reserved_v2_names = [''repository'', ''token'', ''_catalog'']"

definition validate_name_for_format :: "string \<Rightarrow> repo_format \<Rightarrow> bool" where
  "validate_name_for_format name f \<longleftrightarrow>
     (if \<not> is_oci_registry f then is_addressable_name name
      else is_docker_path_component name \<and> name \<notin> set reserved_v2_names)"

definition validate_repo_identity :: "repository \<Rightarrow> bool" where
  "validate_repo_identity r \<longleftrightarrow>
     format_valid (repo_fmt r) \<and> type_valid (repo_kind r) \<and> validate_name_for_format (repo_name r) (repo_fmt r)"

definition validate_remote_url :: "cfg \<Rightarrow> bool" where
  "validate_remote_url pc \<longleftrightarrow> (case cfg_get pc ''remote_url'' of Some (VStr s) \<Rightarrow> trim_space s \<noteq> [] | _ \<Rightarrow> False)"

definition validate_repo_quota_against_store :: "int option \<Rightarrow> blob_store \<Rightarrow> bool" where
  "validate_repo_quota_against_store q bs \<longleftrightarrow>
     (case (q, bs_quota_bytes bs) of (Some n, Some limit) \<Rightarrow> n \<le> limit | _ \<Rightarrow> True)"

fun validate_cleanup_policies :: "cleanup_db \<Rightarrow> repo_format \<Rightarrow> string list \<Rightarrow> admin_err option" where
  "validate_cleanup_policies db f [] = None"
| "validate_cleanup_policies db f (i # ids) =
     (if cd_fail db then Some Ae_Db
      else case policies_get db i of
        None \<Rightarrow> Some Ae_Invalid
      | Some p \<Rightarrow>
          if cp_format p \<noteq> [] \<and> cp_format p \<noteq> ''*'' \<and> cp_format p \<noteq> f then Some Ae_Invalid
          else validate_cleanup_policies db f ids)"

fun validate_members :: "'b store_world \<Rightarrow> repository \<Rightarrow> string list \<Rightarrow> string list \<Rightarrow> admin_err option" where
  "validate_members w g seen [] = None"
| "validate_members w g seen (name # names) =
     (if name \<in> set seen then Some Ae_Invalid
      else if sw_fail w S_Repo_Get then Some Ae_Db
      else case repos_get w name of
        None \<Rightarrow> Some Ae_Invalid
      | Some m \<Rightarrow>
          if repo_kind m = TypeGroup then Some Ae_Invalid
          else if repo_fmt m \<noteq> repo_fmt g then Some Ae_Invalid
          else validate_members w g (name # seen) names)"

definition validate_group_members :: "'b store_world \<Rightarrow> repository \<Rightarrow> admin_err option" where
  "validate_group_members w g =
     (if group_member_names (Some g) = [] then Some Ae_Invalid else validate_members w g [] (group_member_names (Some g)))"

section \<open>Operations\<close>

definition get_repository :: "'b store_world \<Rightarrow> string \<Rightarrow> admin_err + repository" where
  "get_repository w name =
     (if sw_fail w S_Repo_Get then Inl Ae_Db
      else case repos_get w name of None \<Rightarrow> Inl Ae_Not_Found | Some r \<Rightarrow> Inr r)"

definition list_repositories :: "'b store_world \<Rightarrow> repo_format \<Rightarrow> repo_type \<Rightarrow> repository list option" where
  "list_repositories w f t =
     (if sw_fail w S_Repo_List then None
      else Some (sort_key repo_name (filter (\<lambda>r. (f = [] \<or> repo_fmt r = f) \<and> (t = [] \<or> repo_kind r = t)) (sw_repos w))))"

text \<open>The store a reference names, looked up with its spaces trimmed; an empty one is no store.\<close>

definition resolve_store_id :: "'b store_world \<Rightarrow> nat \<Rightarrow> string \<Rightarrow> admin_err + blob_store option" where
  "resolve_store_id w site ref =
     (let i = trim_space ref
      in if i = [] then Inr None
         else if sw_fail w (S_Blob_By_Id site) then Inl Ae_Db
         else case stores_by_id w site i of None \<Rightarrow> Inl Ae_Not_Found | Some b \<Rightarrow> Inr (Some b))"

definition repos_insert :: "'b store_world \<Rightarrow> repository \<Rightarrow> (admin_err + repository) \<times> 'b store_world" where
  "repos_insert w r =
     (if sw_fail w S_Repo_Create then (Inl Ae_Db, w)
      else let q = r\<lparr> repo_id := ''repo-'' @ itoa (int (sw_next w)), repo_created_at := sw_now w, repo_updated_at := sw_now w \<rparr>
           in (Inr q, w\<lparr> sw_repos := sw_repos w @ [q], sw_next := Suc (sw_next w) \<rparr>))"

definition store_of_create :: "'b store_world \<Rightarrow> repository \<Rightarrow> admin_err + repository" where
  "store_of_create w r =
     (case repo_blob_store_id r of
        None \<Rightarrow> Inr r
      | Some ref \<Rightarrow>
          (case resolve_store_id w 16 ref of
             Inl e \<Rightarrow> Inl e
           | Inr None \<Rightarrow> Inr (r\<lparr> repo_blob_store_id := None \<rparr>)
           | Inr (Some b) \<Rightarrow>
               if validate_repo_quota_against_store (repo_quota_bytes r) b then Inr (r\<lparr> repo_blob_store_id := Some (bs_id b) \<rparr>)
               else Inl Ae_Invalid))"

definition create_checked :: "cleanup_db \<Rightarrow> 'b store_world \<Rightarrow> repository \<Rightarrow> admin_err + repository" where
  "create_checked db w r0 =
     (let r = r0\<lparr> repo_proxy_config := map_option (\<lambda>m. m(''proxy_password_set'' := None)) (repo_proxy_config r0) \<rparr>
      in if repo_kind r = TypeProxy \<and> \<not> (repo_proxy_config r \<noteq> None \<and> validate_remote_url (repo_proxy_config r)) then Inl Ae_Invalid
         else case (if repo_kind r = TypeGroup then validate_group_members w r else None) of
           Some e \<Rightarrow> Inl e
         | None \<Rightarrow>
             (case validate_cleanup_policies db (repo_fmt r) (repo_cleanup_policy_ids r) of
                Some e \<Rightarrow> Inl e
              | None \<Rightarrow> store_of_create w r))"

definition create_repository :: "cleanup_db \<Rightarrow> 'b store_world \<Rightarrow> repository \<Rightarrow> (admin_err + repository) \<times> 'b store_world" where
  "create_repository db w r0 =
     (if repo_name r0 = [] \<or> repo_fmt r0 = [] \<or> repo_kind r0 = [] \<or> \<not> validate_repo_identity r0 \<or> \<not> validate_write_policy r0 then (Inl Ae_Invalid, w)
      else case validate_pull_block_severity r0 of
        None \<Rightarrow> (Inl Ae_Invalid, w)
      | Some r1 \<Rightarrow>
          if sw_fail w S_Repo_Get then (Inl Ae_Db, w)
          else if repos_get w (repo_name r1) \<noteq> None then (Inl Ae_Exists, w)
          else case create_checked db w r1 of
            Inl e \<Rightarrow> (Inl e, w)
          | Inr r2 \<Rightarrow> repos_insert w (r2\<lparr> repo_online := True \<rparr>))"

text \<open>
  An update: the fields a client may send; \<^const>\<open>None\<close> is an absent pointer, map or slice, and an empty
  description is an absent one. \<open>apply_config\<close>, \<open>apply_proxy\<close> and \<open>apply_store\<close> are the guarded assignments in
  their order.
\<close>

record repo_update =
  up_online :: bool
  up_description :: string
  up_format_config :: cfg
  up_http_config :: cfg
  up_proxy_config :: cfg
  up_quota_bytes :: "int option"
  up_cleanup_policy_ids :: "string list option"
  up_blob_store_id :: "string option"
  up_routing_rule_id :: "string option"
  up_allow_anonymous :: bool

definition apply_config :: "repo_update \<Rightarrow> repository \<Rightarrow> repository option" where
  "apply_config u r =
     (if up_format_config u = None then Some r
      else let c = r\<lparr> repo_format_config := merge_secret_config (repo_format_config r) (up_format_config u) format_config_secret_keys \<rparr>
           in if \<not> validate_write_policy c then None else validate_pull_block_severity c)"

definition apply_proxy :: "repo_update \<Rightarrow> repository \<Rightarrow> repository option" where
  "apply_proxy u r0 =
     (let r = (if up_http_config u \<noteq> None then r0\<lparr> repo_http_config := up_http_config u \<rparr> else r0)
      in if up_proxy_config u = None then Some r
         else let r' = r\<lparr> repo_proxy_config := merge_proxy_config (repo_proxy_config r) (up_proxy_config u) \<rparr>
              in if repo_kind r' = TypeProxy \<and> \<not> validate_remote_url (repo_proxy_config r') then None else Some r')"

definition apply_store :: "'b store_world \<Rightarrow> repo_update \<Rightarrow> repository \<Rightarrow> admin_err + repository" where
  "apply_store w u r0 =
     (let r = r0\<lparr> repo_quota_bytes := (case up_quota_bytes u of None \<Rightarrow> repo_quota_bytes r0 | q \<Rightarrow> q),
                  repo_cleanup_policy_ids := (case up_cleanup_policy_ids u of None \<Rightarrow> repo_cleanup_policy_ids r0 | Some ids \<Rightarrow> ids) \<rparr>
      in case up_blob_store_id u of
           None \<Rightarrow> Inr r
         | Some ref \<Rightarrow>
             (case resolve_store_id w 17 ref of
                Inl e \<Rightarrow> Inl e
              | Inr ob \<Rightarrow> Inr (r\<lparr> repo_blob_store_id := map_option bs_id ob \<rparr>)))"

definition apply_rule :: "repo_update \<Rightarrow> repository \<Rightarrow> repository" where
  "apply_rule u r =
     r\<lparr> repo_routing_rule_id := (case up_routing_rule_id u of
            None \<Rightarrow> repo_routing_rule_id r
          | Some s \<Rightarrow> if trim_space s = [] then None else Some (trim_space s)),
        repo_allow_anonymous := up_allow_anonymous u \<rparr>"

definition update_checked :: "cleanup_db \<Rightarrow> 'b store_world \<Rightarrow> repository \<Rightarrow> admin_err option" where
  "update_checked db w r =
     (case validate_cleanup_policies db (repo_fmt r) (repo_cleanup_policy_ids r) of
        Some e \<Rightarrow> Some e
      | None \<Rightarrow>
          (case (if repo_kind r = TypeGroup then validate_group_members w r else None) of
             Some e \<Rightarrow> Some e
           | None \<Rightarrow>
               (case (repo_quota_bytes r, repo_blob_store_id r) of
                  (Some q, Some i) \<Rightarrow>
                    if sw_fail w (S_Blob_By_Id 18) then Some Ae_Db
                    else (case stores_by_id w 18 i of
                            None \<Rightarrow> None
                          | Some b \<Rightarrow> if validate_repo_quota_against_store (Some q) b then None else Some Ae_Invalid)
                | _ \<Rightarrow> None)))"

definition update_repository ::
  "cleanup_db \<Rightarrow> 'b store_world \<Rightarrow> string \<Rightarrow> repo_update \<Rightarrow> (admin_err + repository) \<times> 'b store_world" where
  "update_repository db w name u =
     (case get_repository w name of
        Inl e \<Rightarrow> (Inl e, w)
      | Inr r0 \<Rightarrow>
          (case apply_config u (r0\<lparr> repo_online := up_online u,
                 repo_description := (if up_description u \<noteq> [] then up_description u else repo_description r0) \<rparr>) of
             None \<Rightarrow> (Inl Ae_Invalid, w)
           | Some r1 \<Rightarrow>
               (case apply_proxy u r1 of
                  None \<Rightarrow> (Inl Ae_Invalid, w)
                | Some r2 \<Rightarrow>
                    (case apply_store w u r2 of
                       Inl e \<Rightarrow> (Inl e, w)
                     | Inr r3 \<Rightarrow>
                         (let r = apply_rule u r3
                          in case update_checked db w r of
                               Some e \<Rightarrow> (Inl e, w)
                             | None \<Rightarrow> if sw_fail w S_Repo_Update then (Inl Ae_Db, w) else (Inr r, repos_update w r))))))"

text \<open>
  The rows of components and assets go with the repository's, and the rows of assets with their component's
  (\<open>ON DELETE CASCADE\<close>); the objects stay for the garbage collector.
\<close>

definition cascade_delete :: "'b store_world \<Rightarrow> string \<Rightarrow> 'b store_world" where
  "cascade_delete w name =
     (let gone = set (map repo_id (filter (\<lambda>r. repo_name r = name) (sw_repos w)));
          cgone = set (map comp_id (filter (\<lambda>c. comp_repository_id c \<in> gone) (sw_comps w)))
      in w\<lparr> sw_repos := filter (\<lambda>r. repo_name r \<noteq> name) (sw_repos w),
            sw_comps := filter (\<lambda>c. comp_repository_id c \<notin> gone) (sw_comps w),
            sw_assets := filter (\<lambda>a. asset_repository_id a \<notin> gone \<and> asset_component_id a \<notin> cgone) (sw_assets w) \<rparr>)"

definition delete_repository :: "'b store_world \<Rightarrow> string \<Rightarrow> (admin_err + unit) \<times> 'b store_world" where
  "delete_repository w name =
     (case get_repository w name of
        Inl e \<Rightarrow> (Inl e, w)
      | Inr _ \<Rightarrow>
          if sw_fail w S_Repo_Delete then (Inl Ae_Db, w) else (Inr (), cascade_delete w name))"

end
