(* ===== verification/Repo_Admin_Safety.thy ===== *)
theory Repo_Admin_Safety
  imports Repo_Admin
begin

text \<open>
  What repository administration keeps: every repository satisfies the checks of its creation, and groups
  never form a circle.
\<close>

section \<open>Checks that hold afterwards\<close>

lemma space_lower: "is_space (lower_char c) = is_space c"
proof (cases "is_space c")
  case True
  then show ?thesis by (auto simp: is_space_def lower_char_def)
next
  case False
  then show ?thesis
  proof (cases "lower_char c = c")
    case False
    then have "65 \<le> (of_char c :: nat)" "(of_char c :: nat) \<le> 90" by (auto simp: lower_char_def Let_def split: if_splits)
    then have "(of_char (lower_char c) :: nat) \<ge> 97" by (simp add: of_char_lower_char)
    then have "\<not> is_space (lower_char c)" by (auto simp: is_space_def)
    then show ?thesis using \<open>\<not> is_space c\<close> by simp
  qed simp
qed

lemma trim_lower: "trim_space (to_lower s) = to_lower (trim_space s)"
proof -
  have "is_space \<circ> lower_char = is_space" by (simp add: space_lower fun_eq_iff)
  then show ?thesis by (simp add: trim_space_def to_lower_def dropWhile_map rev_map)
qed

lemma pull_severity_checked:
  assumes "validate_pull_block_severity c = Some r"
  shows "validate_pull_block_severity r = Some r" "validate_write_policy r = validate_write_policy c"
    "r = c\<lparr> repo_format_config := repo_format_config r \<rparr>" "group_member_names (Some r) = group_member_names (Some c)"
proof -
  consider "r = c" | m raw v where "repo_format_config c = Some m" "m ''pull_block_severity'' = Some raw" "normalize_pull_block_severity (Some raw) = Inr v"
      "v = [] \<or> is_oci_registry (repo_fmt c)" "r = c\<lparr> repo_format_config := Some (m(''pull_block_severity'' \<mapsto> VStr v)) \<rparr>"
  proof (cases "repo_format_config c")
    case None
    then show thesis using assms that(1) by (simp add: validate_pull_block_severity_def)
  next
    case (Some m)
    show thesis
    proof (cases "m ''pull_block_severity'' = None \<or> m ''pull_block_severity'' = Some VNull")
      case True
      then show thesis using assms that(1) Some by (auto simp: validate_pull_block_severity_def)
    next
      case False
      then obtain raw where raw: "m ''pull_block_severity'' = Some raw" "raw \<noteq> VNull" by auto
      have d: "validate_pull_block_severity c =
          (case normalize_pull_block_severity (Some raw) of Inl _ \<Rightarrow> None
           | Inr v \<Rightarrow> if v \<noteq> [] \<and> \<not> is_oci_registry (repo_fmt c) then None
                      else Some (c\<lparr> repo_format_config := Some (m(''pull_block_severity'' \<mapsto> VStr v)) \<rparr>))"
        using raw(2) by (cases raw) (simp_all add: validate_pull_block_severity_def Some raw(1))
      then obtain v where v: "normalize_pull_block_severity (Some raw) = Inr v" using assms by (cases "normalize_pull_block_severity (Some raw)") auto
      have "v = [] \<or> is_oci_registry (repo_fmt c)" "r = c\<lparr> repo_format_config := Some (m(''pull_block_severity'' \<mapsto> VStr v)) \<rparr>"
        using assms unfolding d v by (auto split: if_splits)
      then show thesis using that(2) [OF Some raw(1) v] by blast
    qed
  qed
  then have "validate_pull_block_severity r = Some r \<and> validate_write_policy r = validate_write_policy c \<and>
        r = c\<lparr> repo_format_config := repo_format_config r \<rparr> \<and> group_member_names (Some r) = group_member_names (Some c)"
  proof cases
    case 2
    obtain s where s: "v = to_lower (trim_space s)" "v = [] \<or> pull_severity_rank v \<noteq> 0"
      using 2(3) by (cases raw) (auto simp: normalize_pull_block_severity_def Let_def split: if_splits)
    have "to_lower (trim_space v) = v" by (simp add: s(1) trim_lower)
    then have n: "normalize_pull_block_severity (Some (VStr v)) = Inr v"
      using s(2) by (auto simp: normalize_pull_block_severity_def Let_def)
    have a: "validate_pull_block_severity r = Some r"
      using 2(4,5) n by (auto simp: validate_pull_block_severity_def)
    have b: "validate_write_policy r = validate_write_policy c" using 2(1,5) by (simp add: validate_write_policy_def cong: option.case_cong any_val.case_cong)
    have d: "group_member_names (Some r) = group_member_names (Some c)" using 2(1,5) by (simp add: group_member_names_def)
    show "validate_pull_block_severity r = Some r \<and> validate_write_policy r = validate_write_policy c \<and>
        r = c\<lparr> repo_format_config := repo_format_config r \<rparr> \<and> group_member_names (Some r) = group_member_names (Some c)"
      using a b d 2(5) by simp
  qed (use assms in simp)
  then show "validate_pull_block_severity r = Some r" "validate_write_policy r = validate_write_policy c"
    "r = c\<lparr> repo_format_config := repo_format_config r \<rparr>" "group_member_names (Some r) = group_member_names (Some c)"
    by blast+
qed

lemma members_fmt: "repo_fmt g = repo_fmt g' \<Longrightarrow> validate_members w g seen ns = validate_members w g' seen ns"
  by (induction ns arbitrary: seen) (simp_all cong: option.case_cong if_cong)

lemma members_checked:
  "validate_members w g seen names = None \<Longrightarrow> distinct names \<and> set names \<inter> set seen = {} \<and>
     (\<forall>n \<in> set names. \<exists>m \<in> set (sw_repos w). repo_name m = n \<and> repo_kind m \<noteq> TypeGroup \<and> repo_fmt m = repo_fmt g)"
proof (induction names arbitrary: seen)
  case (Cons n ns)
  obtain m where m: "n \<notin> set seen" "repos_get w n = Some m" "repo_kind m \<noteq> TypeGroup" "repo_fmt m = repo_fmt g" "validate_members w g (n # seen) ns = None"
    using Cons.prems by (auto split: if_splits option.splits)
  have "m \<in> set (sw_repos w)" "repo_name m = n" using m(2) by (auto simp: repos_get_def dest!: find_mem split: if_splits)
  then show ?case using Cons.IH [OF m(5)] m(1,3,4) by auto
qed simp

text \<open>What the checks of a creation establish, for as long as the repository is there.\<close>

definition repo_ok :: "repository \<Rightarrow> bool" where
  "repo_ok r \<longleftrightarrow>
     repo_name r \<noteq> [] \<and> validate_repo_identity r \<and> validate_write_policy r \<and> validate_pull_block_severity r = Some r \<and>
     (repo_kind r = TypeProxy \<longrightarrow> validate_remote_url (repo_proxy_config r)) \<and>
     (repo_kind r = TypeGroup \<longrightarrow> group_member_names (Some r) \<noteq> [] \<and> distinct (group_member_names (Some r)))"

text \<open>The members of a group are there, of its format, and no groups.\<close>

definition members_flat :: "'b store_world \<Rightarrow> repository \<Rightarrow> bool" where
  "members_flat w g \<longleftrightarrow>
     (\<forall>n \<in> set (group_member_names (Some g)). \<exists>m \<in> set (sw_repos w). repo_name m = n \<and> repo_kind m \<noteq> TypeGroup \<and> repo_fmt m = repo_fmt g)"

text \<open>The cleanup policies are there and for its format; the quota is within the limit of its store, where that is there.\<close>

definition policies_fit :: "cleanup_db \<Rightarrow> repository \<Rightarrow> bool" where
  "policies_fit db r \<longleftrightarrow>
     (\<forall>i \<in> set (repo_cleanup_policy_ids r). \<exists>p. policies_get db i = Some p \<and> (cp_format p = [] \<or> cp_format p = ''*'' \<or> cp_format p = repo_fmt r))"

definition quota_fits :: "'b store_world \<Rightarrow> repository \<Rightarrow> bool" where
  "quota_fits w r \<longleftrightarrow>
     (\<forall>i b. repo_blob_store_id r = Some i \<longrightarrow> find (\<lambda>x. bs_id x = i) (sw_stores w) = Some b \<longrightarrow>
        validate_repo_quota_against_store (repo_quota_bytes r) b)"

text \<open>What a creation or an edit checks against the other tables, at that moment.\<close>

definition fits :: "cleanup_db \<Rightarrow> 'b store_world \<Rightarrow> repository \<Rightarrow> bool" where
  "fits db w r \<longleftrightarrow> (repo_kind r = TypeGroup \<longrightarrow> members_flat w r) \<and> policies_fit db r \<and> quota_fits w r"

lemma policies_checked: "validate_cleanup_policies db f ids = None \<Longrightarrow>
    \<forall>i \<in> set ids. \<exists>p. policies_get db i = Some p \<and> (cp_format p = [] \<or> cp_format p = ''*'' \<or> cp_format p = f)"
  by (induction ids) (auto split: if_splits option.splits)

lemma store_of_create_quota:
  assumes "store_of_create w r = Inr r'"
  shows "quota_fits w r'"
  unfolding quota_fits_def
proof (intro allI impI)
  fix i b assume i: "repo_blob_store_id r' = Some i" and b: "find (\<lambda>x. bs_id x = i) (sw_stores w) = Some b"
  obtain ref b0 where r: "repo_blob_store_id r = Some ref" "resolve_store_id w 16 ref = Inr (Some b0)"
    "validate_repo_quota_against_store (repo_quota_bytes r) b0" "r' = r\<lparr> repo_blob_store_id := Some (bs_id b0) \<rparr>"
    using assms i by (auto simp: store_of_create_def split: option.splits sum.splits if_splits)
  have f: "find (\<lambda>x. bs_id x = trim_space ref) (sw_stores w) = Some b0"
    using r(2) by (auto simp: resolve_store_id_def Let_def stores_by_id_def split: if_splits option.splits)
  then have "bs_id b0 = trim_space ref" by (auto dest: find_mem)
  then have "b = b0" using f b i r(4) by simp
  then show "validate_repo_quota_against_store (repo_quota_bytes r') b" using r(3,4) by simp
qed

lemma group_checked:
  assumes "validate_group_members w g = None"
  shows "group_member_names (Some g) \<noteq> [] \<and> distinct (group_member_names (Some g)) \<and> members_flat w g"
  using assms members_checked [of w g "[]" "group_member_names (Some g)"]
  by (auto simp: validate_group_members_def members_flat_def split: if_splits)

lemma resolve_store_id_found: "resolve_store_id w site ref = Inr (Some b) \<Longrightarrow> b \<in> set (sw_stores w)"
  by (auto simp: resolve_store_id_def Let_def stores_by_id_def dest!: find_mem split: if_splits option.splits)

lemma store_of_create_same:
  assumes "store_of_create w r = Inr r'"
  shows "\<exists>i. r' = r\<lparr> repo_blob_store_id := i \<rparr>"
  using assms unfolding store_of_create_def
  by (auto split: option.splits sum.splits if_splits) (metis repository.surjective repository.update_convs(5))

text \<open>The checks read five fields.\<close>

lemma pull_check_fields:
  assumes "validate_pull_block_severity r = Some r" "repo_fmt r' = repo_fmt r" "repo_format_config r' = repo_format_config r"
  shows "validate_pull_block_severity r' = Some r'"
proof (cases "repo_format_config r")
  case None
  then show ?thesis using assms(3) by (simp add: validate_pull_block_severity_def)
next
  case (Some m)
  then show ?thesis
    using assms
    by (cases "m ''pull_block_severity''")
       (auto simp: validate_pull_block_severity_def split: any_val.splits sum.splits if_splits dest!: arg_cong [where f = repo_format_config])
qed

lemma write_policy_fields:
  assumes "repo_fmt r' = repo_fmt r" "repo_kind r' = repo_kind r" "repo_format_config r' = repo_format_config r"
  shows "validate_write_policy r' = validate_write_policy r" "group_member_names (Some r') = group_member_names (Some r)"
  using assms by (simp_all add: validate_write_policy_def group_member_names_def cong: option.case_cong any_val.case_cong)

lemma repo_ok_checked:
  assumes "repo_name r' \<noteq> []" "validate_repo_identity r" "validate_write_policy r" "validate_pull_block_severity r = Some r"
    "repo_kind r = TypeProxy \<longrightarrow> validate_remote_url (repo_proxy_config r')"
    "repo_kind r = TypeGroup \<longrightarrow> group_member_names (Some r) \<noteq> [] \<and> distinct (group_member_names (Some r))"
    and f: "repo_name r' = repo_name r" "repo_fmt r' = repo_fmt r" "repo_kind r' = repo_kind r" "repo_format_config r' = repo_format_config r"
  shows "repo_ok r'"
  using assms pull_check_fields [OF assms(4) f(2,4)] write_policy_fields [OF f(2-4)]
  by (simp add: repo_ok_def validate_repo_identity_def)

lemma create_checked_facts:
  assumes "create_checked db w r0 = Inr r"
  shows "\<exists>pc i. r = r0\<lparr> repo_proxy_config := pc, repo_blob_store_id := i \<rparr> \<and> (repo_kind r0 = TypeProxy \<longrightarrow> validate_remote_url pc)"
    "repo_kind r0 = TypeGroup \<Longrightarrow> validate_group_members w r0 = None" "policies_fit db r" "quota_fits w r"
proof -
  let ?r = "r0\<lparr> repo_proxy_config := map_option (\<lambda>m. m(''proxy_password_set'' := None)) (repo_proxy_config r0) \<rparr>"
  have c: "repo_kind r0 = TypeProxy \<longrightarrow> validate_remote_url (repo_proxy_config ?r)" "repo_kind r0 = TypeGroup \<longrightarrow> validate_group_members w ?r = None"
    "store_of_create w ?r = Inr r" "validate_cleanup_policies db (repo_fmt ?r) (repo_cleanup_policy_ids ?r) = None"
    using assms unfolding create_checked_def Let_def by (auto split: if_splits option.splits)
  obtain i where i: "r = ?r\<lparr> repo_blob_store_id := i \<rparr>" using store_of_create_same [OF c(3)] by blast
  show "policies_fit db r" using policies_checked [OF c(4)] by (simp add: policies_fit_def i)
  show "quota_fits w r" by (rule store_of_create_quota [OF c(3)])
  show "\<exists>pc i. r = r0\<lparr> repo_proxy_config := pc, repo_blob_store_id := i \<rparr> \<and> (repo_kind r0 = TypeProxy \<longrightarrow> validate_remote_url pc)"
    using store_of_create_same [OF c(3)] c(1) by force
  have m: "validate_members w ?r seen ns = validate_members w r0 seen ns" for seen ns by (rule members_fmt) simp
  have n: "group_member_names (Some ?r) = group_member_names (Some r0)" by (simp add: group_member_names_def)
  have "validate_group_members w ?r = validate_group_members w r0" unfolding validate_group_members_def n m ..
  then show "repo_kind r0 = TypeGroup \<Longrightarrow> validate_group_members w r0 = None"
    using c(2) by simp
qed

section \<open>Created, updated and deleted\<close>

lemma create_repository_facts:
  assumes "create_repository db w r0 = (Inr q, w')"
  shows "w' = w\<lparr> sw_repos := sw_repos w @ [q], sw_next := Suc (sw_next w) \<rparr>" "repo_ok q" "repo_name q \<notin> set (map repo_name (sw_repos w))"
    "repo_id q = ''repo-'' @ itoa (int (sw_next w))" "repo_kind q = TypeGroup \<longrightarrow> members_flat w q" "fits db w q"
proof -
  obtain r1 r2 where r: "repo_name r0 \<noteq> []" "validate_repo_identity r0" "validate_write_policy r0" "validate_pull_block_severity r0 = Some r1"
      "\<not> sw_fail w S_Repo_Get" "repos_get w (repo_name r1) = None" "create_checked db w r1 = Inr r2"
      "repos_insert w (r2\<lparr> repo_online := True \<rparr>) = (Inr q, w')"
    using assms unfolding create_repository_def by (auto split: if_splits option.splits sum.splits)
  note p = pull_severity_checked [OF r(4)] and c = create_checked_facts [OF r(7)]
  have q: "q = r2\<lparr> repo_online := True, repo_id := ''repo-'' @ itoa (int (sw_next w)), repo_created_at := sw_now w, repo_updated_at := sw_now w \<rparr>"
    and w': "w' = w\<lparr> sw_repos := sw_repos w @ [q], sw_next := Suc (sw_next w) \<rparr>"
    using r(8) by (auto simp: repos_insert_def Let_def split: if_splits)
  obtain pc i where r2: "r2 = r1\<lparr> repo_proxy_config := pc, repo_blob_store_id := i \<rparr>" "repo_kind r1 = TypeProxy \<longrightarrow> validate_remote_url pc"
    using c(1) by blast
  have same: "repo_name r1 = repo_name r0" "repo_fmt r1 = repo_fmt r0" "repo_kind r1 = repo_kind r0"
    using arg_cong [OF p(3), of repo_name] arg_cong [OF p(3), of repo_fmt] arg_cong [OF p(3), of repo_kind] by simp_all
  have g: "repo_kind r1 = TypeGroup \<Longrightarrow> group_member_names (Some r1) \<noteq> [] \<and> distinct (group_member_names (Some r1)) \<and> members_flat w r1"
    using group_checked c(2) by blast
  have gm: "group_member_names (Some q) = group_member_names (Some r1)" by (simp add: group_member_names_def q r2(1))
  show "w' = w\<lparr> sw_repos := sw_repos w @ [q], sw_next := Suc (sw_next w) \<rparr>" by (rule w')
  have vi: "validate_repo_identity r1" using r(2) same by (simp add: validate_repo_identity_def)
  show "repo_ok q"
    by (rule repo_ok_checked [OF _ vi _ p(1)]) (use r(1,3) p(2) same r2(2) g in \<open>simp_all add: q r2(1)\<close>)
  show "repo_id q = ''repo-'' @ itoa (int (sw_next w))" by (simp add: q)
  have "repo_name r1 \<notin> set (map repo_name (sw_repos w))" using r(5,6) by (auto simp: repos_get_def find_None_iff)
  then show "repo_name q \<notin> set (map repo_name (sw_repos w))" by (simp add: q r2(1))
  show m: "repo_kind q = TypeGroup \<longrightarrow> members_flat w q" using g gm by (simp add: members_flat_def q r2(1))
  have "policies_fit db q \<and> quota_fits w q" using c(3,4) by (simp add: policies_fit_def quota_fits_def q)
  then show "fits db w q" using m by (simp add: fits_def)
qed

lemma apply_config_facts:
  assumes "apply_config u r = Some r'" "validate_write_policy r" "validate_pull_block_severity r = Some r"
  shows "validate_write_policy r' \<and> validate_pull_block_severity r' = Some r' \<and> r' = r\<lparr> repo_format_config := repo_format_config r' \<rparr>"
proof (cases "up_format_config u")
  case None
  then show ?thesis using assms by (simp add: apply_config_def)
next
  case (Some m)
  let ?c = "r\<lparr> repo_format_config := merge_secret_config (repo_format_config r) (up_format_config u) format_config_secret_keys \<rparr>"
  have c: "validate_write_policy ?c" "validate_pull_block_severity ?c = Some r'" using assms(1) Some by (simp_all add: apply_config_def Let_def split: if_splits)
  note p = pull_severity_checked [OF c(2)]
  have "r' = r\<lparr> repo_format_config := repo_format_config r' \<rparr>" using p(3) by simp
  then show ?thesis using p(1,2) c(1) by blast
qed

lemma apply_proxy_facts:
  assumes "apply_proxy u r = Some r'" "repo_kind r = TypeProxy \<longrightarrow> validate_remote_url (repo_proxy_config r)"
  shows "(repo_kind r = TypeProxy \<longrightarrow> validate_remote_url (repo_proxy_config r')) \<and> (\<exists>h p. r' = r\<lparr> repo_http_config := h, repo_proxy_config := p \<rparr>)"
proof -
  define h where "h = (if up_http_config u \<noteq> None then up_http_config u else repo_http_config r)"
  have h: "(if up_http_config u \<noteq> None then r\<lparr> repo_http_config := up_http_config u \<rparr> else r) = r\<lparr> repo_http_config := h \<rparr>"
    by (simp add: h_def)
  consider "up_proxy_config u = None" "r' = r\<lparr> repo_http_config := h, repo_proxy_config := repo_proxy_config r \<rparr>"
    | "r' = r\<lparr> repo_http_config := h, repo_proxy_config := merge_proxy_config (repo_proxy_config r) (up_proxy_config u) \<rparr>"
      "repo_kind r = TypeProxy \<longrightarrow> validate_remote_url (repo_proxy_config r')"
    using assms(1) unfolding apply_proxy_def h Let_def by (auto split: if_splits)
  then show ?thesis
  proof cases
    case 1
    then show ?thesis using assms(2) by (intro conjI exI [of _ h] exI [of _ "repo_proxy_config r"]) simp_all
  next
    case 2
    then show ?thesis by blast
  qed
qed

lemma apply_store_facts:
  assumes "apply_store w u r = Inr r'"
  shows "\<exists>q ids i. r' = r\<lparr> repo_quota_bytes := q, repo_cleanup_policy_ids := ids, repo_blob_store_id := i \<rparr>"
proof -
  define q where "q = (case up_quota_bytes u of None \<Rightarrow> repo_quota_bytes r | q \<Rightarrow> q)"
  define ids where "ids = (case up_cleanup_policy_ids u of None \<Rightarrow> repo_cleanup_policy_ids r | Some ids \<Rightarrow> ids)"
  consider "r' = r\<lparr> repo_quota_bytes := q, repo_cleanup_policy_ids := ids, repo_blob_store_id := repo_blob_store_id r \<rparr>"
    | i where "r' = r\<lparr> repo_quota_bytes := q, repo_cleanup_policy_ids := ids, repo_blob_store_id := i \<rparr>"
    using assms unfolding apply_store_def q_def [symmetric] ids_def [symmetric] Let_def by (auto split: option.splits sum.splits)
  then show ?thesis by cases blast+
qed

lemma update_repository_facts:
  assumes "update_repository db w name u = (Inr r, w')" "\<forall>r \<in> set (sw_repos w). repo_ok r"
  obtains r0 where "r0 \<in> set (sw_repos w)" "repo_name r0 = name" "repo_ok r" "repo_name r = name" "repo_fmt r = repo_fmt r0" "repo_kind r = repo_kind r0"
    "repo_id r = repo_id r0" "w' = repos_update w r" "\<not> sw_fail w S_Repo_Update" "repo_kind r = TypeGroup \<longrightarrow> members_flat w r"
    "fits db w r"
proof -
  obtain r0 where g: "get_repository w name = Inr r0" using assms(1) by (auto simp: update_repository_def split: sum.splits)
  then have m: "r0 \<in> set (sw_repos w)" "repo_name r0 = name"
    by (auto simp: get_repository_def repos_get_def dest!: find_mem split: if_splits option.splits)
  note ok = assms(2) [THEN bspec, OF m(1)]
  let ?r = "r0\<lparr> repo_online := up_online u, repo_description := (if up_description u \<noteq> [] then up_description u else repo_description r0) \<rparr>"
  obtain r1 where r1: "apply_config u ?r = Some r1" using assms(1) g by (auto simp: update_repository_def split: option.splits)
  obtain r2 where r2: "apply_proxy u r1 = Some r2" using assms(1) g r1 by (auto simp: update_repository_def split: option.splits)
  obtain r3 where r3: "apply_store w u r2 = Inr r3" using assms(1) g r1 r2 by (auto simp: update_repository_def split: sum.splits)
  have fin: "update_checked db w (apply_rule u r3) = None" "\<not> sw_fail w S_Repo_Update" "r = apply_rule u r3" "w' = repos_update w r"
    using assms(1) g r1 r2 r3 by (auto simp: update_repository_def Let_def split: option.splits if_splits)
  have pre: "validate_write_policy ?r" "validate_pull_block_severity ?r = Some ?r"
    using ok write_policy_fields [of ?r r0] pull_check_fields [of r0 ?r] by (simp_all add: repo_ok_def)
  note c = apply_config_facts [OF r1 pre]
  have f1: "repo_name r1 = repo_name r0" "repo_fmt r1 = repo_fmt r0" "repo_kind r1 = repo_kind r0" "repo_proxy_config r1 = repo_proxy_config r0" "repo_id r1 = repo_id r0"
  proof -
    have r1': "r1 = ?r\<lparr> repo_format_config := repo_format_config r1 \<rparr>" using c by blast
    show "repo_name r1 = repo_name r0" "repo_fmt r1 = repo_fmt r0" "repo_kind r1 = repo_kind r0" "repo_proxy_config r1 = repo_proxy_config r0" "repo_id r1 = repo_id r0"
      by (subst r1', simp)+
  qed
  have "repo_kind r1 = TypeProxy \<longrightarrow> validate_remote_url (repo_proxy_config r1)" using ok f1 by (simp add: repo_ok_def)
  note p = apply_proxy_facts [OF r2 this]
  obtain h pc where r2': "r2 = r1\<lparr> repo_http_config := h, repo_proxy_config := pc \<rparr>" using p by blast
  obtain q ids i where r3': "r3 = r2\<lparr> repo_quota_bytes := q, repo_cleanup_policy_ids := ids, repo_blob_store_id := i \<rparr>" using apply_store_facts [OF r3] by blast
  have f: "repo_name r = repo_name r1" "repo_fmt r = repo_fmt r1" "repo_kind r = repo_kind r1" "repo_format_config r = repo_format_config r1"
    "repo_proxy_config r = repo_proxy_config r2" "repo_id r = repo_id r1"
    by (simp_all add: fin(3) apply_rule_def r3' r2')
  have grp: "repo_kind r = TypeGroup \<Longrightarrow> validate_group_members w r = None"
    using fin(1,3) by (auto simp: update_checked_def split: option.splits if_splits)
  have gm: "group_member_names (Some r) = group_member_names (Some r1)" using f(4) by (simp add: group_member_names_def)
  have "repo_ok r"
  proof (rule repo_ok_checked [of r r1])
    show "repo_name r \<noteq> []" using ok f1 f by (simp add: repo_ok_def)
    show "validate_repo_identity r1" using ok f1 by (simp add: repo_ok_def validate_repo_identity_def)
    show "validate_write_policy r1" "validate_pull_block_severity r1 = Some r1" using c by blast+
    show "repo_kind r1 = TypeProxy \<longrightarrow> validate_remote_url (repo_proxy_config r)" using p f(5) by simp
    show "repo_kind r1 = TypeGroup \<longrightarrow> group_member_names (Some r1) \<noteq> [] \<and> distinct (group_member_names (Some r1))"
      using group_checked [OF grp] f(3) gm by simp
  qed (use f in simp_all)
  moreover have "fits db w r"
  proof -
    have "policies_fit db r"
      using fin(1,3) policies_checked [of db "repo_fmt r" "repo_cleanup_policy_ids r"] by (auto simp: update_checked_def policies_fit_def split: option.splits)
    moreover have "quota_fits w r"
      unfolding quota_fits_def
    proof (intro allI impI)
      fix i b assume i: "repo_blob_store_id r = Some i" "find (\<lambda>x. bs_id x = i) (sw_stores w) = Some b"
      show "validate_repo_quota_against_store (repo_quota_bytes r) b"
      proof (cases "repo_quota_bytes r")
        case None
        then show ?thesis by (simp add: validate_repo_quota_against_store_def)
      next
        case (Some q)
        then show ?thesis
          using fin(1) i unfolding fin(3) [symmetric]
          by (auto simp: update_checked_def stores_by_id_def split: option.splits if_splits)
      qed
    qed
    ultimately show ?thesis using group_checked [OF grp] by (simp add: fits_def)
  qed
  ultimately show thesis using that [OF m] f f1 fin(2,4) m(2) group_checked [OF grp] by simp
qed

section \<open>Groups within groups\<close>

definition contains_group :: "'b store_world \<Rightarrow> (string \<times> string) set" where
  "contains_group w =
     {(g, m). \<exists>r \<in> set (sw_repos w). \<exists>r' \<in> set (sw_repos w). repo_name r = g \<and> repo_kind r = TypeGroup \<and>
        m \<in> set (group_member_names (Some r)) \<and> repo_name r' = m \<and> repo_kind r' = TypeGroup}"

text \<open>A new node without outgoing edges closes no circle.\<close>

lemma acyclic_sink:
  assumes "acyclic R" "\<And>a b. (a, b) \<in> R' \<Longrightarrow> (a, b) \<in> R \<or> b = x" "\<And>b. (x, b) \<notin> R'"
  shows "acyclic R'"
proof (rule acyclicI, rule allI, rule notI)
  fix a assume a: "(a, a) \<in> R'\<^sup>+"
  have "c = x \<or> (a, c) \<in> R\<^sup>+" if "(a, c) \<in> R'\<^sup>+" for c
    using that
  proof (induction rule: trancl_induct)
    case (base c)
    then show ?case using assms(2) by blast
  next
    case (step b c)
    have "b \<noteq> x" using step(2) assms(3) by blast
    then have "(a, b) \<in> R\<^sup>+" using step(3) by blast
    then show ?case using assms(2) [OF step(2)] trancl_into_trancl [of a b R c] by blast
  qed
  from this [OF a] show False
  proof
    assume "a = x"
    then show False using a assms(3) by (metis converse_tranclE)
  next
    assume "(a, a) \<in> R\<^sup>+"
    then show False using assms(1) by (simp add: acyclic_def)
  qed
qed

text \<open>Worlds that administration makes; every other component leaves the repositories alone.\<close>

inductive administered :: "'b store_world \<Rightarrow> bool" where
  start: "sw_repos w = [] \<Longrightarrow> administered w"
| created: "administered w \<Longrightarrow> create_repository db w r = (res, w') \<Longrightarrow> administered w'"
| updated: "administered w \<Longrightarrow> update_repository db w name u = (res, w') \<Longrightarrow> administered w'"
| deleted: "administered w \<Longrightarrow> delete_repository w name = (gone, w') \<Longrightarrow> administered w'"
| repointed: "administered w \<Longrightarrow> administered (repoint_repository m w)"
| other: "administered w \<Longrightarrow> sw_repos w' = sw_repos w \<Longrightarrow> administered w'"

lemma update_repository_error: "update_repository db w name u = (Inl e, w') \<Longrightarrow> w' = w"
  by (auto simp: update_repository_def Let_def split: option.splits sum.splits if_splits)

lemma create_repository_error: "create_repository db w r = (Inl e, w') \<Longrightarrow> w' = w"
  by (auto simp: create_repository_def repos_insert_def Let_def split: option.splits sum.splits if_splits)

lemma repos_update_table:
  assumes "r0 \<in> set (sw_repos w)" "distinct (map repo_name (sw_repos w))" "repo_name r = repo_name r0" "repo_fmt r = repo_fmt r0"
    "repo_kind r = repo_kind r0" "repo_ok r" "\<forall>x \<in> set (sw_repos w). repo_ok x"
  shows "map repo_name (sw_repos (repos_update w r)) = map repo_name (sw_repos w)" "\<forall>x \<in> set (sw_repos (repos_update w r)). repo_ok x"
    "x \<in> set (sw_repos (repos_update w r)) \<Longrightarrow> \<exists>y \<in> set (sw_repos w). repo_name y = repo_name x \<and> repo_kind y = repo_kind x \<and> repo_fmt y = repo_fmt x \<and>
       (group_member_names (Some x) = group_member_names (Some y) \<or> repo_name x = repo_name r \<and> group_member_names (Some x) = group_member_names (Some r))"
proof -
  define f where "f = (\<lambda>x :: repository. if repo_name x = repo_name r
              then x\<lparr> repo_online := repo_online r, repo_format_config := repo_format_config r,
                      repo_http_config := repo_http_config r, repo_proxy_config := repo_proxy_config r,
                      repo_cleanup_policy_ids := repo_cleanup_policy_ids r, repo_quota_bytes := repo_quota_bytes r,
                      repo_routing_rule_id := repo_routing_rule_id r, repo_allow_anonymous := repo_allow_anonymous r,
                      repo_description := repo_description r, repo_blob_store_id := repo_blob_store_id r,
                      repo_updated_at := sw_now w \<rparr>
              else x)"
  have w': "sw_repos (repos_update w r) = (if sw_fail w S_Repo_Update then sw_repos w else map f (sw_repos w))"
    by (simp add: repos_update_def f_def)
  have f: "repo_name (f x) = repo_name x" "repo_kind (f x) = repo_kind x" "repo_fmt (f x) = repo_fmt x"
    "group_member_names (Some (f x)) = group_member_names (Some (if repo_name x = repo_name r then r else x))" for x
    by (simp_all add: f_def group_member_names_def)
  show "map repo_name (sw_repos (repos_update w r)) = map repo_name (sw_repos w)" by (simp add: w' f comp_def)
  have ok: "repo_ok (f x)" if x: "x \<in> set (sw_repos w)" for x
  proof (cases "repo_name x = repo_name r")
    case True
    then have "x = r0" using x assms(1-3) by (metis distinct_map inj_onD)
    then have "repo_name (f x) = repo_name r" "repo_fmt (f x) = repo_fmt r" "repo_kind (f x) = repo_kind r"
      "repo_format_config (f x) = repo_format_config r" "repo_proxy_config (f x) = repo_proxy_config r"
      using True assms(3-5) f by (simp_all add: f_def)
    then show ?thesis using assms(6) by (intro repo_ok_checked [of "f x" r]) (simp_all add: repo_ok_def)
  next
    case False
    then show ?thesis using assms(7) x by (simp add: f_def)
  qed
  show "\<forall>x \<in> set (sw_repos (repos_update w r)). repo_ok x" using ok assms(7) by (auto simp: w')
  show "\<exists>y \<in> set (sw_repos w). repo_name y = repo_name x \<and> repo_kind y = repo_kind x \<and> repo_fmt y = repo_fmt x \<and>
       (group_member_names (Some x) = group_member_names (Some y) \<or> repo_name x = repo_name r \<and> group_member_names (Some x) = group_member_names (Some r))"
    if xin: "x \<in> set (sw_repos (repos_update w r))"
  proof (cases "sw_fail w S_Repo_Update")
    case True
    then show ?thesis using xin w' by auto
  next
    case False
    then obtain y where y: "y \<in> set (sw_repos w)" "x = f y" using xin w' by auto
    then show ?thesis using f [of y] by (intro bexI [OF _ y(1)]) auto
  qed
qed

text \<open>An update whose members are no groups, or the old ones, adds no edge.\<close>

lemma repos_update_groups:
  assumes "r0 \<in> set (sw_repos w)" "distinct (map repo_name (sw_repos w))" "repo_name r = repo_name r0" "repo_fmt r = repo_fmt r0"
    "repo_kind r = repo_kind r0" "repo_ok r" "\<forall>x \<in> set (sw_repos w). repo_ok x"
    and "repo_kind r = TypeGroup \<Longrightarrow> members_flat w r \<or> group_member_names (Some r) = group_member_names (Some r0)"
  shows "contains_group (repos_update w r) \<subseteq> contains_group w"
proof
  note t = repos_update_table [OF assms(1-7)]
  fix ab assume "ab \<in> contains_group (repos_update w r)"
  then obtain x x' where e: "ab = (repo_name x, repo_name x')" "x \<in> set (sw_repos (repos_update w r))" "x' \<in> set (sw_repos (repos_update w r))"
    "repo_kind x = TypeGroup" "repo_name x' \<in> set (group_member_names (Some x))" "repo_kind x' = TypeGroup"
    by (auto simp: contains_group_def)
  obtain y where y: "y \<in> set (sw_repos w)" "repo_name y = repo_name x" "repo_kind y = TypeGroup"
    "group_member_names (Some x) = group_member_names (Some y) \<or> repo_name x = repo_name r \<and> group_member_names (Some x) = group_member_names (Some r)"
    using t(3) [OF e(2)] e(4) by auto
  obtain y' where y': "y' \<in> set (sw_repos w)" "repo_name y' = repo_name x'" "repo_kind y' = TypeGroup" using t(3) [OF e(3)] e(6) by auto
  have "group_member_names (Some x) = group_member_names (Some y)"
  proof (rule ccontr)
    assume n: "group_member_names (Some x) \<noteq> group_member_names (Some y)"
    then have g: "repo_name x = repo_name r" "group_member_names (Some x) = group_member_names (Some r)" using y(4) by blast+
    have "y = r0" using y(1,2) g(1) assms(1-3) by (metis distinct_map inj_onD)
    then have "members_flat w r" using assms(5,8) y(3) g(2) n by auto
    then obtain m where m: "m \<in> set (sw_repos w)" "repo_name m = repo_name x'" "repo_kind m \<noteq> TypeGroup"
      using e(5) g(2) by (auto simp: members_flat_def)
    then have "m = y'" using y'(1,2) assms(2) by (metis distinct_map inj_onD)
    then show False using m(3) y'(3) by simp
  qed
  then show "ab \<in> contains_group w" using e(1,5) y y' by (auto simp: contains_group_def)
qed

lemma administered_facts:
  assumes "administered w"
  shows "distinct (map repo_name (sw_repos w)) \<and> (\<forall>r \<in> set (sw_repos w). repo_ok r) \<and> acyclic (contains_group w)"
  using assms
proof (induction rule: administered.induct)
  case (start w)
  then show ?case by (simp add: contains_group_def acyclic_def)
next
  case (created w db r res w')
  show ?case
  proof (cases res)
    case (Inl e)
    then show ?thesis using created create_repository_error by blast
  next
    case (Inr q)
    note c = create_repository_facts [OF created(2) [unfolded Inr]]
    have "acyclic (contains_group w')"
    proof (rule acyclic_sink)
      show "acyclic (contains_group w)" using created(3) by blast
      show "(a, b) \<in> contains_group w \<or> b = repo_name q" if "(a, b) \<in> contains_group w'" for a b
      proof -
        obtain r1 r2 where e: "r1 \<in> set (sw_repos w')" "r2 \<in> set (sw_repos w')" "repo_name r1 = a" "repo_kind r1 = TypeGroup"
          "b \<in> set (group_member_names (Some r1))" "repo_name r2 = b" "repo_kind r2 = TypeGroup"
          using \<open>(a, b) \<in> contains_group w'\<close> by (auto simp: contains_group_def)
        show ?thesis
        proof (cases "r2 = q")
          case True
          then show ?thesis using e by simp
        next
          case False
          then have r2: "r2 \<in> set (sw_repos w)" using e(2) c(1) by auto
          have "r1 \<noteq> q"
          proof
            assume "r1 = q"
            then have "members_flat w q" using c(5) e(4) by simp
            then obtain m where m: "m \<in> set (sw_repos w)" "repo_name m = b" "repo_kind m \<noteq> TypeGroup" using e(5) \<open>r1 = q\<close> by (auto simp: members_flat_def)
            then have "m = r2" using r2 e(6) created(3) by (metis distinct_map inj_onD)
            then show False using m(3) e(7) by simp
          qed
          then have "r1 \<in> set (sw_repos w)" using e(1) c(1) by auto
          then show ?thesis using e r2 by (auto simp: contains_group_def)
        qed
      qed
      show "(repo_name q, b) \<notin> contains_group w'" for b
      proof
        assume "(repo_name q, b) \<in> contains_group w'"
        then obtain r1 r2 where e: "r1 \<in> set (sw_repos w')" "r2 \<in> set (sw_repos w')" "repo_name r1 = repo_name q" "repo_kind r1 = TypeGroup"
          "b \<in> set (group_member_names (Some r1))" "repo_name r2 = b" "repo_kind r2 = TypeGroup"
          by (auto simp: contains_group_def)
        have "r1 \<in> insert q (set (sw_repos w))" using e(1) c(1) by simp
        then have "r1 = q" using e(3) c(3) by (metis imageI insertE set_map)
        then have "members_flat w q" using c(5) e(4) by simp
        then obtain m where m: "m \<in> set (sw_repos w)" "repo_name m = b" "repo_kind m \<noteq> TypeGroup" using e(5) \<open>r1 = q\<close> by (auto simp: members_flat_def)
        have "r2 \<in> insert q (set (sw_repos w))" using e(2) c(1) by simp
        then have "r2 \<in> set (sw_repos w)" using e(6) c(3) m(1,2) by (metis imageI insertE set_map)
        then have "m = r2" using m e(6) created(3) by (metis distinct_map inj_onD)
        then show False using m(3) e(7) by simp
      qed
    qed
    then show ?thesis using created(3) c(1-3) by auto
  qed
next
  case (updated w db name u res w')
  show ?case
  proof (cases res)
    case (Inl e)
    then show ?thesis using updated update_repository_error by blast
  next
    case (Inr r)
    have IH: "distinct (map repo_name (sw_repos w))" "\<forall>r \<in> set (sw_repos w). repo_ok r" "acyclic (contains_group w)" using updated(3) by blast+
    obtain r0 where u: "r0 \<in> set (sw_repos w)" "repo_name r0 = name" "repo_ok r" "repo_name r = name" "repo_fmt r = repo_fmt r0" "repo_kind r = repo_kind r0"
      "w' = repos_update w r" "repo_kind r = TypeGroup \<longrightarrow> members_flat w r"
      by (rule update_repository_facts [OF updated(2) [unfolded Inr] IH(2)])
    have "repo_name r = repo_name r0" using u by simp
    note t = repos_update_table [OF u(1) IH(1) this u(5,6,3) IH(2), folded u(7)]
    have "contains_group w' \<subseteq> contains_group w"
      unfolding u(7) by (rule repos_update_groups [OF u(1) IH(1) \<open>repo_name r = repo_name r0\<close> u(5,6,3) IH(2)]) (use u(8) in blast)
    then have "acyclic (contains_group w')" using IH(3) acyclic_subset by blast
    then show ?thesis using t(1,2) IH(1) by simp
  qed
next
  case (deleted w name gone w')
  have sub: "set (sw_repos w') \<subseteq> set (sw_repos w)" and d: "distinct (map repo_name (sw_repos w'))"
    using deleted(2,3) by (auto simp: delete_repository_def cascade_delete_def Let_def distinct_map_filter split: sum.splits if_splits)
  have "contains_group w' \<subseteq> contains_group w" using sub unfolding contains_group_def by blast
  then have "acyclic (contains_group w')" using deleted(3) acyclic_subset by blast
  then show ?case using sub d deleted(3) by blast
next
  case (repointed w m)
  have IH: "distinct (map repo_name (sw_repos w))" "\<forall>r \<in> set (sw_repos w). repo_ok r" "acyclic (contains_group w)" using repointed(2) by blast+
  show ?case
  proof (cases "repos_get w (mg_repository m)")
    case None
    then show ?thesis using repointed(2) by (simp add: repoint_repository_def)
  next
    case (Some r0)
    then have r0: "r0 \<in> set (sw_repos w)" by (auto simp: repos_get_def dest!: find_mem split: if_splits)
    let ?r = "r0\<lparr> repo_blob_store_id := Some (mg_target m) \<rparr>"
    have f: "repo_name ?r = repo_name r0" "repo_fmt ?r = repo_fmt r0" "repo_kind ?r = repo_kind r0" "group_member_names (Some ?r) = group_member_names (Some r0)"
      by (simp_all add: group_member_names_def)
    have ok: "repo_ok ?r"
      using bspec [OF IH(2) r0] by (intro repo_ok_checked [of ?r r0]) (simp_all add: repo_ok_def)
    have "contains_group (repos_update w ?r) \<subseteq> contains_group w"
      by (rule repos_update_groups [OF r0 IH(1) f(1,2,3) ok IH(2)]) (use f(4) in blast)
    then show ?thesis
      using repos_update_table(1,2) [OF r0 IH(1) f(1,2,3) ok IH(2)] IH(1,3) acyclic_subset Some by (simp add: repoint_repository_def)
  qed
next
  case (other w w')
  then show ?case by (simp add: contains_group_def)
qed


definition demo_new :: "string \<Rightarrow> repo_type \<Rightarrow> string list \<Rightarrow> repository" where
  "demo_new name kind ms =
     \<lparr> repo_id = [], repo_name = name, repo_fmt = ''raw'', repo_kind = kind, repo_blob_store_id = None,
       repo_online = False, repo_format_config = Some [''member_names'' \<mapsto> VList (map VStr ms)], repo_http_config = None,
       repo_proxy_config = None, repo_cleanup_policy_ids = [], repo_quota_bytes = None, repo_routing_rule_id = None,
       repo_allow_anonymous = False, repo_description = [], repo_url = [], repo_created_at = 0, repo_updated_at = 0 \<rparr>"

definition demo_policies :: cleanup_db where
  "demo_policies = \<lparr> cd_policies = [], cd_next = 0, cd_now = 0, cd_fail = False \<rparr>"

definition demo_empty :: "unit store_world" where
  "demo_empty =
     \<lparr> sw_repos = [], sw_stores = [], sw_comps = [], sw_assets = [], sw_phys = (\<lambda>_. ()),
       sw_registry = \<lparr> rg_instances = Map.empty, rg_default = [], rg_rr = (\<lambda>_. 0) \<rparr>,
       sw_now = 0, sw_next = 0, sw_scans = [], sw_publishes = [], sw_events = [], sw_downloads = [], sw_fail = (\<lambda>_. False) \<rparr>"

definition demo_admin :: "(string \<times> repo_type \<times> string list) list \<Rightarrow> unit store_world \<Rightarrow> unit store_world" where
  "demo_admin rs w = foldl (\<lambda>w (n, k, ms). snd (create_repository demo_policies w (demo_new n k ms))) w rs"

lemma demo_admin_administered: "administered w \<Longrightarrow> administered (demo_admin rs w)"
  unfolding demo_admin_def
proof (induction rs arbitrary: w)
  case (Cons x rs)
  obtain n k ms where x: "x = (n, k, ms)" by (cases x)
  have "administered (snd (create_repository demo_policies w (demo_new n k ms)))"
    by (rule administered.created [OF Cons.prems]) (rule surjective_pairing)
  from Cons.IH [OF this] show ?case by (simp add: x)
qed simp

text \<open>A member deleted and created again as a group: the check of the outer group is not repeated.\<close>

definition demo_nested :: "unit store_world" where
  "demo_nested =
     demo_admin [(''b'', ''group'', [''c''])]
       (snd (delete_repository (demo_admin [(''b'', ''hosted'', []), (''c'', ''hosted'', []), (''a'', ''group'', [''b''])] demo_empty) ''b''))"

lemma demo_nested_administered: "administered demo_nested"
proof -
  have "administered demo_empty" by (rule administered.start) (simp add: demo_empty_def)
  then have "administered (demo_admin [(''b'', ''hosted'', []), (''c'', ''hosted'', []), (''a'', ''group'', [''b''])] demo_empty)" (is "administered ?w")
    by (rule demo_admin_administered)
  then have "administered (snd (delete_repository ?w ''b''))" by (rule administered.deleted) (rule surjective_pairing)
  then show ?thesis unfolding demo_nested_def by (rule demo_admin_administered)
qed

lemma nested_group_reachable: "administered demo_nested \<and> (''a'', ''b'') \<in> contains_group demo_nested"
proof -
  let ?f = "\<lambda>r. (repo_name r, repo_kind r, group_member_names (Some r))"
  have eq: "map ?f (sw_repos demo_nested) = [(''c'', ''hosted'', []), (''a'', ''group'', [''b'']), (''b'', ''group'', [''c''])]" by code_simp
  obtain c a b where abc: "sw_repos demo_nested = [c, a, b]" "?f a = (''a'', ''group'', [''b''])" "?f b = (''b'', ''group'', [''c''])"
    using eq by (auto simp only: map_eq_Cons_conv map_is_Nil_conv)
  have "(''a'', ''b'') \<in> contains_group demo_nested"
    unfolding contains_group_def abc(1) using abc(2,3) by simp
  then show ?thesis using demo_nested_administered by blast
qed


end
