(* ===== verification/Repo_Admin_Contract.thy ===== *)
theory Repo_Admin_Contract
  imports Repo_Admin_Safety
begin

text \<open>
  What an administrator can rely on: a deletion takes the repository's own rows only, an edit that sends
  back the redacted view of a repository keeps it as it is, and that view tells nothing of a secret but
  whether there is one.
\<close>

section \<open>Deletion\<close>

text \<open>A component belongs to the repository of its assets.\<close>

definition comps_aligned :: "'b store_world \<Rightarrow> bool" where
  "comps_aligned w \<longleftrightarrow>
     (\<forall>a \<in> set (sw_assets w). \<forall>c \<in> set (sw_comps w). comp_id c = asset_component_id a \<longrightarrow> comp_repository_id c = asset_repository_id a)"

lemma cascade_delete_fields:
  "sw_repos (cascade_delete w name) = filter (\<lambda>r. repo_name r \<noteq> name) (sw_repos w)"
  "sw_stores (cascade_delete w name) = sw_stores w" "sw_phys (cascade_delete w name) = sw_phys w"
  "sw_registry (cascade_delete w name) = sw_registry w" "sw_next (cascade_delete w name) = sw_next w"
  by (simp_all add: cascade_delete_def Let_def)

lemma cascade_delete_assets:
  assumes "tables_ok w" "comps_aligned w" "a \<in> set (sw_assets w)" "name \<in> set (map repo_name (sw_repos w))"
  shows "a \<in> set (sw_assets (cascade_delete w name)) \<longleftrightarrow> asset_repository a \<noteq> name"
proof -
  let ?gone = "set (map repo_id (filter (\<lambda>r. repo_name r = name) (sw_repos w)))"
  have ids: "repo_id r = asset_repository_id a \<longleftrightarrow> repo_name r = asset_repository a" if "r \<in> set (sw_repos w)" for r
    using assms(1,3) that by (simp add: tables_ok_def)
  have own: "asset_repository_id a \<in> ?gone \<longleftrightarrow> asset_repository a = name"
  proof
    assume "asset_repository_id a \<in> ?gone"
    then obtain r where "r \<in> set (sw_repos w)" "repo_name r = name" "repo_id r = asset_repository_id a" by auto
    then show "asset_repository a = name" using ids by simp
  next
    assume n: "asset_repository a = name"
    obtain r where "r \<in> set (sw_repos w)" "repo_name r = name" using assms(4) by auto
    then show "asset_repository_id a \<in> ?gone" using ids n by force
  qed
  have "asset_component_id a \<notin> set (map comp_id (filter (\<lambda>c. comp_repository_id c \<in> ?gone) (sw_comps w)))" if "asset_repository_id a \<notin> ?gone"
    using that assms(2,3) by (fastforce simp: comps_aligned_def)
  then show ?thesis using own assms(3) by (auto simp: cascade_delete_def Let_def)
qed

lemma cascade_delete_sub: "set (sw_assets (cascade_delete w name)) \<subseteq> set (sw_assets w)"
  by (auto simp: cascade_delete_def Let_def)

lemma cascade_delete_row_at:
  assumes "tables_ok w" "comps_aligned w" "name \<in> set (map repo_name (sw_repos w))"
  shows "row_at (cascade_delete w name) rn path = (if rn = name then None else row_at w rn path)"
proof -
  let ?P = "\<lambda>a. asset_repository a = rn \<and> asset_path a = path"
  obtain Q where Q: "sw_assets (cascade_delete w name) = filter Q (sw_assets w)" by (auto simp: cascade_delete_def Let_def)
  have q: "Q a \<longleftrightarrow> asset_repository a \<noteq> name" if "a \<in> set (sw_assets w)" for a
    using cascade_delete_assets [OF assms(1,2) that assms(3)] that by (simp add: Q)
  show ?thesis
  proof (cases "rn = name")
    case True
    then show ?thesis using q by (auto simp: row_at_def Q find_None_iff)
  next
    case False
    have "find ?P (filter Q (sw_assets w)) = find ?P (sw_assets w)" by (rule find_filter_other) (use q False in auto)
    then show ?thesis using False by (simp add: row_at_def Q)
  qed
qed

lemma cascade_delete_tables:
  assumes "tables_ok w"
  shows "tables_ok (cascade_delete w name)"
proof -
  obtain Q where Q: "sw_assets (cascade_delete w name) = filter Q (sw_assets w)" by (auto simp: cascade_delete_def Let_def)
  show ?thesis using assms unfolding tables_ok_def cascade_delete_fields Q by (auto simp: distinct_map_filter)
qed

lemma delete_repository_isolated:
  assumes "delete_repository w name = (res, w')" "tables_ok w" "registry_ok env w" "comps_aligned w"
  shows "tables_ok w' \<and> registry_ok env w' \<and> sw_phys w' = sw_phys w \<and>
    (\<forall>rn path. rn \<noteq> name \<longrightarrow> content obj env w' rn path = content obj env w rn path) \<and>
    (if isl res then w' = w else (\<forall>path. row_at w' name path = None) \<and> name \<notin> set (map repo_name (sw_repos w'))) \<and>
    (intact obj valid good env w \<longrightarrow> intact obj valid good env w')"
proof (cases res)
  case (Inl e)
  then have "w' = w" using assms(1) by (auto simp: delete_repository_def split: sum.splits if_splits)
  then show ?thesis using assms(2,3) Inl by simp
next
  case (Inr u)
  then have w': "w' = cascade_delete w name" and "\<exists>r. get_repository w name = Inr r"
    using assms(1) by (auto simp: delete_repository_def split: sum.splits if_splits)
  then have n: "name \<in> set (map repo_name (sw_repos w))"
    by (auto simp: get_repository_def repos_get_def dest!: find_mem split: if_splits option.splits)
  have r: "row_at w' rn path = (if rn = name then None else row_at w rn path)" for rn path
    unfolding w' by (rule cascade_delete_row_at [OF assms(2,4) n])
  have sp: "store_space env w' = store_space env w" unfolding fun_eq_iff w' store_space_def cascade_delete_fields by simp
  then have o: "row_obj obj env w' = row_obj obj env w" by (simp add: row_obj_def fun_eq_iff w' cascade_delete_fields)
  have c: "content obj env w' rn path = (if rn = name then None else content obj env w rn path)" for rn path
    by (simp add: content_def r o cong: option.case_cong)
  have t: "tables_ok w'" unfolding w' by (rule cascade_delete_tables [OF assms(2)])
  have g: "registry_ok env w'" using assms(3) by (simp add: registry_ok_def w' cascade_delete_fields)
  have i: "intact obj valid good env w \<longrightarrow> intact obj valid good env w'"
    unfolding intact_def r o by (simp add: w' cascade_delete_fields)
  have "sw_phys w' = sw_phys w" "name \<notin> set (map repo_name (sw_repos w'))" unfolding w' by (auto simp: cascade_delete_fields)
  then show ?thesis using t g i by (simp add: c r Inr)
qed

text \<open>
  C15: deleting a repository empties it and nothing else. A deletion that succeeds leaves no row under the
  name and no repository of that name; one that is refused changes nothing. Every path of every other
  repository reads what it read, objects the deleted rows shared with it included, since no object is
  touched, and the invariants of the tables, the registry and the stored objects are kept.
\<close>

theorem repository_delete_isolated:
  assumes "delete_repository w name = (res, w')" "tables_ok w" "registry_ok env w" "comps_aligned w"
  shows "tables_ok w' \<and> registry_ok env w' \<and> sw_phys w' = sw_phys w \<and>
    (\<forall>rn path. rn \<noteq> name \<longrightarrow> content obj env w' rn path = content obj env w rn path) \<and>
    (if isl res then w' = w else (\<forall>path. row_at w' name path = None) \<and> name \<notin> set (map repo_name (sw_repos w'))) \<and>
    (intact obj valid good env w \<longrightarrow> intact obj valid good env w')"
  by (rule delete_repository_isolated [OF assms])

theorem repository_delete_isolated_witness:
  "content local_obj demo_env (snd (delete_repository (snd (demo_put (demo_world ''allow'' None) ''hello'' 5)) ''libs'')) ''libs'' ''/a'' = None"
proof -
  let ?w = "snd (demo_put (demo_world ''allow'' None) ''hello'' 5)"
  obtain res w' where r: "delete_repository ?w ''libs'' = (res, w')" by (cases "delete_repository ?w ''libs''")
  have ok: "\<not> isl (fst (delete_repository ?w ''libs''))" by code_simp
  have al: "comps_aligned ?w" by code_simp
  show ?thesis using repository_delete_isolated [OF r demo_after_put(1,2) al] ok r by (simp add: content_def split: if_splits)
qed

section \<open>An edit of the redacted view\<close>

text \<open>The edit a client sends that has read the repository and changes nothing.\<close>

definition echo_update :: "repository \<Rightarrow> repo_update" where
  "echo_update v =
     \<lparr> up_online = repo_online v, up_description = repo_description v, up_format_config = repo_format_config v,
       up_http_config = repo_http_config v, up_proxy_config = repo_proxy_config v, up_quota_bytes = repo_quota_bytes v,
       up_cleanup_policy_ids = Some (repo_cleanup_policy_ids v), up_blob_store_id = repo_blob_store_id v,
       up_routing_rule_id = repo_routing_rule_id v, up_allow_anonymous = repo_allow_anonymous v \<rparr>"

text \<open>A stored row: its secrets are non-empty strings and no marker is stored, its references are ids.\<close>

definition clean_row :: "repository \<Rightarrow> bool" where
  "clean_row r \<longleftrightarrow>
     (case repo_format_config r of None \<Rightarrow> True | Some m \<Rightarrow> clean_config format_config_secret_keys m) \<and>
     (case repo_proxy_config r of None \<Rightarrow> True | Some m \<Rightarrow> clean_config proxy_config_secret_keys m) \<and>
     (case repo_blob_store_id r of None \<Rightarrow> True | Some i \<Rightarrow> i \<noteq> [] \<and> trim_space i = i) \<and>
     (case repo_routing_rule_id r of None \<Rightarrow> True | Some i \<Rightarrow> i \<noteq> [] \<and> trim_space i = i)"

lemma echo_config:
  assumes "repo_ok r" "clean_row r"
  shows "apply_config (echo_update (redacted_repository r)) r = Some r"
proof (cases "repo_format_config r")
  case None
  then show ?thesis by (simp add: apply_config_def echo_update_def redacted_repository_def)
next
  case (Some m)
  have "merge_secret_config (Some m) (redacted_keys format_config_secret_keys (Some m)) format_config_secret_keys = Some m"
    by (rule redacted_merge) (use assms(2) Some in \<open>simp_all add: clean_row_def\<close>)
  then have c: "r\<lparr> repo_format_config := merge_secret_config (repo_format_config r) (redacted_keys format_config_secret_keys (Some m)) format_config_secret_keys \<rparr> = r"
    using Some by (cases r) simp
  show ?thesis using assms(1) c Some
    by (simp add: apply_config_def echo_update_def redacted_repository_def redacted_keys_view repo_ok_def Let_def)
qed

lemma echo_proxy:
  assumes "repo_ok r" "clean_row r"
  shows "apply_proxy (echo_update (redacted_repository r)) r = Some r"
proof -
  have h: "r\<lparr> repo_http_config := repo_http_config r \<rparr> = r" by (cases r) simp
  show ?thesis
  proof (cases "repo_proxy_config r")
    case None
    then show ?thesis by (simp add: apply_proxy_def echo_update_def redacted_repository_def Let_def h)
  next
    case (Some m)
    have e: "merge_proxy_config (Some m) (redacted_keys proxy_config_secret_keys (Some m)) = Some m"
      unfolding merge_proxy_config_def by (rule redacted_merge) (use assms(2) Some in \<open>simp_all add: clean_row_def\<close>)
    then have c: "r\<lparr> repo_proxy_config := merge_proxy_config (repo_proxy_config r) (redacted_keys proxy_config_secret_keys (Some m)) \<rparr> = r"
      using Some by (cases r) simp
    show ?thesis using assms(1) c Some
      by (simp add: apply_proxy_def echo_update_def redacted_repository_def repo_ok_def Let_def h e redacted_keys_view e [unfolded redacted_keys_view [OF secret_keys_ok(3)]])
  qed
qed

lemma echo_store:
  assumes "clean_row r"
  shows "apply_store w (echo_update (redacted_repository r)) r =
    (case repo_blob_store_id r of None \<Rightarrow> Inr r
     | Some i \<Rightarrow> (case resolve_store_id w 17 i of Inl e \<Rightarrow> Inl e | Inr _ \<Rightarrow> Inr r))"
proof -
  have q: "r\<lparr> repo_quota_bytes := case repo_quota_bytes r of None \<Rightarrow> repo_quota_bytes r | Some x \<Rightarrow> Some x, repo_cleanup_policy_ids := repo_cleanup_policy_ids r \<rparr> = r"
    by (cases r) (simp split: option.split)
  show ?thesis
  proof (cases "repo_blob_store_id r")
    case None
    then show ?thesis by (simp add: apply_store_def echo_update_def redacted_repository_def Let_def q)
  next
    case (Some i)
    have t: "trim_space i = i" "i \<noteq> []" using assms Some by (auto simp: clean_row_def)
    show ?thesis
    proof (cases "resolve_store_id w 17 i")
      case (Inl e)
      then show ?thesis using Some by (simp add: apply_store_def echo_update_def redacted_repository_def Let_def q)
    next
      case (Inr ob)
      then have so: "Inr ob = (case stores_by_id w 17 i of None \<Rightarrow> Inl Ae_Not_Found | Some b \<Rightarrow> Inr (Some b))"
        using t by (simp add: resolve_store_id_def Let_def split: if_splits)
      obtain b where b: "ob = Some b" "stores_by_id w 17 i = Some b"
      proof (cases "stores_by_id w 17 i")
        case None
        then show thesis using so by simp
      next
        case (Some b)
        then show thesis using so that by simp
      qed
      then have bi: "bs_id b = i" by (auto simp: stores_by_id_def dest!: find_mem split: if_splits)
      have "r\<lparr> repo_blob_store_id := Some i \<rparr> = r" using Some by (cases r) simp
      then show ?thesis using Some Inr b(1) bi by (simp add: apply_store_def echo_update_def redacted_repository_def Let_def q)
    qed
  qed
qed

lemma echo_rule:
  assumes "clean_row r"
  shows "apply_rule (echo_update (redacted_repository r)) r = r"
  using assms by (cases r) (auto simp: apply_rule_def echo_update_def redacted_repository_def clean_row_def split: option.split)

lemma echo_update_same:
  assumes "get_repository w name = Inr r" "repo_ok r" "clean_row r"
    "update_repository db w name (echo_update (redacted_repository r)) = (res, w')"
  shows "case res of Inr r' \<Rightarrow> r' = r \<and> w' = repos_update w r
    | Inl e \<Rightarrow> w' = w \<and> (update_checked db w r = Some e \<or> sw_fail w S_Repo_Update \<or>
                 (\<exists>i. repo_blob_store_id r = Some i \<and> resolve_store_id w 17 i = Inl e))"
proof -
  let ?u = "echo_update (redacted_repository r)"
  have b: "r\<lparr> repo_online := up_online ?u, repo_description := if up_description ?u \<noteq> [] then up_description ?u else repo_description r \<rparr> = r"
    by (cases r) (simp add: echo_update_def redacted_repository_def)
  have "(res, w') = (case apply_store w ?u r of Inl e \<Rightarrow> (Inl e, w)
      | Inr r3 \<Rightarrow> (let r = apply_rule ?u r3
          in case update_checked db w r of Some e \<Rightarrow> (Inl e, w)
             | None \<Rightarrow> if sw_fail w S_Repo_Update then (Inl Ae_Db, w) else (Inr r, repos_update w r)))"
    using assms(4) unfolding update_repository_def assms(1) sum.case b echo_config [OF assms(2,3)] echo_proxy [OF assms(2,3)] option.case by simp
  then show ?thesis unfolding echo_store [OF assms(3)]
    using echo_rule [OF assms(3)] by (auto simp: Let_def split: option.splits sum.splits if_splits)
qed

text \<open>
  C16: reading a repository and sending back what was read changes nothing. The view a client reads has
  its secrets removed; an update with every field of that view as it was answers the repository with its
  secrets and writes that row, or is refused without effect, and then the fault is not in the edit: a check
  of the stored row against the database does not hold any more, or the database fails.
\<close>

theorem redacted_view_roundtrip:
  assumes "get_repository w name = Inr r" "repo_ok r" "clean_row r"
    "update_repository db w name (echo_update (redacted_repository r)) = (res, w')"
  shows "case res of Inr r' \<Rightarrow> r' = r \<and> w' = repos_update w r
    | Inl e \<Rightarrow> w' = w \<and> (update_checked db w r = Some e \<or> sw_fail w S_Repo_Update \<or>
                 (\<exists>i. repo_blob_store_id r = Some i \<and> resolve_store_id w 17 i = Inl e))"
  by (rule echo_update_same [OF assms])

definition demo_upstream :: repository where
  "demo_upstream =
     (demo_new ''pypi'' ''proxy'' [])\<lparr> repo_format_config := None,
        repo_proxy_config := Some [''remote_url'' \<mapsto> VStr ''https://pypi.org'', ''proxy_password'' \<mapsto> VStr ''s3cret''] \<rparr>"

theorem redacted_view_roundtrip_witness:
  "cfg_get (repo_proxy_config (redacted_repository demo_upstream)) ''proxy_password'' = None \<and>
   (case fst (update_repository demo_policies (demo_empty\<lparr> sw_repos := [demo_upstream] \<rparr>) ''pypi'' (echo_update (redacted_repository demo_upstream))) of
      Inr r \<Rightarrow> cfg_get (repo_proxy_config r) ''proxy_password'' | Inl _ \<Rightarrow> None) = Some (VStr ''s3cret'')"
proof -
  let ?w = "demo_empty\<lparr> sw_repos := [demo_upstream] \<rparr>"
  let ?x = "update_repository demo_policies ?w ''pypi'' (echo_update (redacted_repository demo_upstream))"
  have r: "get_repository ?w ''pypi'' = Inr demo_upstream"
    by (simp add: get_repository_def repos_get_def demo_empty_def demo_upstream_def demo_new_def)
  have ok: "repo_ok demo_upstream"
  proof -
    have "repo_name demo_upstream \<noteq> []" "validate_repo_identity demo_upstream" "validate_write_policy demo_upstream"
      "validate_remote_url (repo_proxy_config demo_upstream)" "repo_kind demo_upstream \<noteq> TypeGroup" by code_simp+
    moreover have "validate_pull_block_severity demo_upstream = Some demo_upstream"
      by (simp add: validate_pull_block_severity_def demo_upstream_def)
    ultimately show ?thesis by (simp add: repo_ok_def)
  qed
  have cl: "clean_row demo_upstream"
    by (simp add: clean_row_def demo_upstream_def demo_new_def clean_config_def proxy_config_secret_keys_def set_key_def)
  have s: "\<not> isl (fst ?x)" by code_simp
  obtain res w' where x: "?x = (res, w')" by (cases ?x)
  have "cfg_get (repo_proxy_config (redacted_repository demo_upstream)) ''proxy_password'' = None" by code_simp
  moreover have "cfg_get (repo_proxy_config demo_upstream) ''proxy_password'' = Some (VStr ''s3cret'')" by code_simp
  ultimately show ?thesis using redacted_view_roundtrip [OF r ok cl x] s x by (cases res) auto
qed

text \<open>The row an edit that changes nothing writes is the row that was there, but for its time of change.\<close>

lemma echo_update_row:
  assumes "distinct (map repo_name (sw_repos w))" "r \<in> set (sw_repos w)" "x \<in> set (sw_repos (repos_update w r))"
  shows "\<exists>y \<in> set (sw_repos w). x = y\<lparr> repo_updated_at := repo_updated_at x \<rparr>"
proof -
  have same: "y = r" if "y \<in> set (sw_repos w)" "repo_name y = repo_name r" for y
    using assms(1,2) that by (metis distinct_map inj_onD)
  obtain y where y: "y \<in> set (sw_repos w)" "x = y \<or> repo_name y = repo_name r"
    "repo_name y = repo_name r \<Longrightarrow> sw_fail w S_Repo_Update \<and> x = y \<or>
      x = y\<lparr> repo_online := repo_online r, repo_format_config := repo_format_config r,
                      repo_http_config := repo_http_config r, repo_proxy_config := repo_proxy_config r,
                      repo_cleanup_policy_ids := repo_cleanup_policy_ids r, repo_quota_bytes := repo_quota_bytes r,
                      repo_routing_rule_id := repo_routing_rule_id r, repo_allow_anonymous := repo_allow_anonymous r,
                      repo_description := repo_description r, repo_blob_store_id := repo_blob_store_id r,
                      repo_updated_at := repo_updated_at x \<rparr>"
    using assms(3) by (auto simp: repos_update_def split: if_splits)
  then show ?thesis using same by (cases "repo_name y = repo_name r") (force intro: bexI [of _ y])+
qed

text \<open>
  C17: a reader of repositories learns no secret. Two repositories that agree on everything but the texts
  of their non-empty upstream passwords and signing keys have the same redacted view, and so do the lists
  they are shown in.
\<close>

theorem redacted_view_hides_secrets:
  assumes "repo_proxy_config r = Some p" "repo_format_config r = Some f"
    "\<And>x. x \<notin> set proxy_config_secret_keys \<Longrightarrow> p x = p' x" "\<And>k. k \<in> set proxy_config_secret_keys \<Longrightarrow> (as_str (p k) = []) = (as_str (p' k) = [])"
    "\<And>x. x \<notin> set format_config_secret_keys \<Longrightarrow> f x = f' x" "\<And>k. k \<in> set format_config_secret_keys \<Longrightarrow> (as_str (f k) = []) = (as_str (f' k) = [])"
  shows "redacted_repositories (xs @ r # ys) = redacted_repositories (xs @ r\<lparr> repo_proxy_config := Some p', repo_format_config := Some f' \<rparr> # ys)"
proof -
  have "redacted_keys proxy_config_secret_keys (Some p) = redacted_keys proxy_config_secret_keys (Some p')"
    "redacted_keys format_config_secret_keys (Some f) = redacted_keys format_config_secret_keys (Some f')"
    by (rule redacted_noninterference; simp add: assms)+
  then show ?thesis using assms(1,2) by (simp add: redacted_repositories_def redacted_repository_def)
qed

theorem redacted_view_hides_secrets_witness:
  "redacted_repositories [demo_upstream\<lparr> repo_format_config := Some Map.empty \<rparr>] =
   redacted_repositories [demo_upstream\<lparr> repo_proxy_config := Some [''remote_url'' \<mapsto> VStr ''https://pypi.org'', ''proxy_password'' \<mapsto> VStr ''other''],
     repo_format_config := Some Map.empty \<rparr>]"
proof -
  let ?r = "demo_upstream\<lparr> repo_format_config := Some Map.empty \<rparr>"
  let ?p = "[''remote_url'' \<mapsto> VStr ''https://pypi.org'', ''proxy_password'' \<mapsto> VStr ''s3cret'']"
  let ?p' = "[''remote_url'' \<mapsto> VStr ''https://pypi.org'', ''proxy_password'' \<mapsto> VStr ''other'']"
  have p: "repo_proxy_config ?r = Some ?p" "repo_format_config ?r = Some Map.empty" by (simp_all add: demo_upstream_def)
  have "redacted_repositories ([] @ ?r # []) = redacted_repositories ([] @ ?r\<lparr> repo_proxy_config := Some ?p', repo_format_config := Some Map.empty \<rparr> # [])"
    by (rule redacted_view_hides_secrets [OF p]) (auto simp: proxy_config_secret_keys_def)
  then show ?thesis by simp
qed

end
