(* ===== verification/Oci_Routes.thy ===== *)
theory Oci_Routes
  imports Local_Store
begin

text \<open>
  The endpoints of the OCI registry: the dispatch of \<open>ServeHTTP\<close> (\<open>internal/formats/oci/handler.go\<close>) and the
  classifier of the documents a group merges (\<open>groupindex.go\<close>), which must agree with it.
\<close>

section \<open>Dispatch\<close>

definition norm_path :: "string \<Rightarrow> string" where
  "norm_path p = path_clean (slash # trim_prefix p ''/'')"

definition ends_with_segments :: "string list \<Rightarrow> string list \<Rightarrow> bool" where
  "ends_with_segments parts segs \<longleftrightarrow> length segs \<le> length parts \<and> drop (length parts - length segs) parts = segs"

fun segment_index :: "string list \<Rightarrow> string \<Rightarrow> nat option" where
  "segment_index [] seg = None"
| "segment_index (p # ps) seg = (if p = seg then Some 0 else map_option Suc (segment_index ps seg))"

definition has_segment :: "string list \<Rightarrow> string \<Rightarrow> bool" where
  "has_segment parts seg \<longleftrightarrow> segment_index parts seg \<noteq> None"

definition referrers_index :: "string list \<Rightarrow> nat option" where
  "referrers_index parts =
     (if length parts < 3 \<or> parts ! (length parts - 2) \<noteq> ''referrers'' then None else Some (length parts - 2))"

text \<open>An asset path, led by its keyword, as the path of a request; the loop over the two keywords.\<close>

fun rest_of_kinds :: "string list \<Rightarrow> string \<Rightarrow> string option" where
  "rest_of_kinds [] p = None"
| "rest_of_kinds (k # ks) p =
     (if has_prefix p (slash # k @ [slash])
      then (let tail = drop (length k + 2) p
            in case str_last_index tail ''/'' of
                 None \<Rightarrow> None
               | Some i \<Rightarrow> if i = 0 then None else Some (take i tail @ slash # k @ slash # drop (Suc i) tail))
      else rest_of_kinds ks p)"

definition rest_from_asset_path :: "string \<Rightarrow> string option" where
  "rest_from_asset_path p = rest_of_kinds [''blobs'', ''manifests''] p"

datatype oci_request =
    Oq_Version | Oq_Catalog | Oq_Tags string | Oq_Name_Unknown | Oq_Referrers string string
  | Oq_Manifests string string | Oq_Blobs string string | Oq_Uploads string string | Oq_Bad_Request | Oq_Not_Found

definition join_segs :: "string list \<Rightarrow> string" where
  "join_segs parts = str_join [slash] parts"

definition dispatch_parts :: "string list \<Rightarrow> oci_request" where
  "dispatch_parts parts =
     (if length parts < 2 then Oq_Bad_Request
      else if ends_with_segments parts [''tags'', ''list''] then
        (let img = join_segs (take (length parts - 2) parts) in if img = [] then Oq_Name_Unknown else Oq_Tags img)
      else case referrers_index parts of
        Some i \<Rightarrow> Oq_Referrers (join_segs (take i parts)) (join_segs (drop (Suc i) parts))
      | None \<Rightarrow>
          (case segment_index parts ''manifests'' of
             Some i \<Rightarrow> Oq_Manifests (join_segs (take i parts)) (join_segs (drop (Suc i) parts))
           | None \<Rightarrow>
               (case segment_index parts ''blobs'' of
                  Some i \<Rightarrow>
                    (let bs = drop (Suc i) parts
                     in if bs \<noteq> [] \<and> hd bs = ''uploads'' then Oq_Uploads (join_segs (take i parts)) (join_segs (tl bs))
                        else Oq_Blobs (join_segs (take i parts)) (join_segs bs))
                | None \<Rightarrow> Oq_Not_Found)))"

definition oci_dispatch :: "string \<Rightarrow> oci_request" where
  "oci_dispatch path =
     (let p = norm_path path in
      if p = ''/v2/'' \<or> p = ''/v2'' then Oq_Version
      else let rest = trim_prefix p ''/v2/'' in
        case (if rest = p then rest_from_asset_path p else Some rest) of
          None \<Rightarrow> Oq_Not_Found
        | Some r \<Rightarrow> if r = ''_catalog'' then Oq_Catalog else dispatch_parts (str_split slash r))"

section \<open>The merged documents\<close>

datatype index_kind = Index_None | Index_Referrers | Index_Tags | Index_Catalog

definition paginated :: "index_kind \<Rightarrow> bool" where
  "paginated k \<longleftrightarrow> k = Index_Tags \<or> k = Index_Catalog"

definition group_index_kind :: "string \<Rightarrow> index_kind \<times> string" where
  "group_index_kind path =
     (let norm = norm_path path; rest = trim_prefix norm ''/v2/'' in
      if rest = norm then (Index_None, [])
      else if rest = ''_catalog'' then (Index_Catalog, [])
      else let parts = str_split slash rest in
        if length parts < 2 then (Index_None, [])
        else if ends_with_segments parts [''tags'', ''list''] then
          (if length parts = 2 then (Index_None, []) else (Index_Tags, join_segs (take (length parts - 2) parts)))
        else if referrers_index parts \<noteq> None then (Index_Referrers, [])
        else (Index_None, []))"

section \<open>They agree\<close>

lemma norm_path_shape:
  obtains body where "list_all plain_seg body" "norm_path p = slash # str_join [slash] body"
proof -
  let ?ss = "str_split slash (trim_prefix p ''/'')"
  have "list_all (\<lambda>s. slash \<notin> set s) ?ss" using str_split_no_sep by (auto simp: list_all_iff)
  then have "list_all plain_seg (clean_segs True [] ?ss)" by (intro clean_segs_rooted_plain) simp_all
  then show thesis using that by (simp add: norm_path_def path_clean_rooted)
qed

lemma norm_path_rest:
  assumes "norm_path p = ''/v2/'' @ rest"
  shows "rest = [] \<or> (\<forall>s \<in> set (str_split slash rest). s \<noteq> [])"
proof (cases "rest = []")
  case False
  obtain body where b: "list_all plain_seg body" "norm_path p = slash # str_join [slash] body" by (rule norm_path_shape)
  have j: "str_join [slash] body = ''v2/'' @ rest" using b(2) assms by simp
  then have ne: "body \<noteq> []" by auto
  have "str_split slash (''v2'' @ slash # rest) = str_split slash ''v2'' @ str_split slash rest"
    by (rule str_split_cat)
  moreover have "str_split slash (str_join [slash] body) = body"
    using b(1) ne by (intro str_split_join) (auto simp: list_all_iff plain_seg_def)
  ultimately have "set (str_split slash rest) \<subseteq> set body" using j by (metis Un_upper2 append_Cons append_Nil set_append)
  then show ?thesis using b(1) by (auto simp: list_all_iff plain_seg_def)
qed simp

lemma join_segs_empty: "\<forall>s \<in> set xs. s \<noteq> [] \<Longrightarrow> join_segs xs = [] \<longleftrightarrow> xs = []"
  by (induction "[slash]" xs rule: str_join.induct) (auto simp: join_segs_def)

lemma after_last_slash_free:
  assumes "str_last_index s [c] = Some i"
  shows "c \<notin> set (drop (Suc i) s)" "s = take i s @ c # drop (Suc i) s"
proof -
  obtain t where t: "drop i s = c # t" using str_last_index_Some [OF assms] by auto
  then show sp: "s = take i s @ c # drop (Suc i) s" by (metis append_take_drop_id drop_Suc list.sel(3) tl_drop)
  show "c \<notin> set (drop (Suc i) s)"
  proof
    assume "c \<in> set (drop (Suc i) s)"
    then obtain ys zs where yz: "drop (Suc i) s = ys @ c # zs" by (meson split_list)
    have "drop (Suc i + length ys) s = drop (length ys) (drop (Suc i) s)" by (simp add: add.commute)
    also have "\<dots> = c # zs" by (simp add: yz)
    finally have pre: "has_prefix (drop (Suc i + length ys) s) [c]" by (simp add: has_prefix_def)
    have "Suc i + length ys \<le> length s" using arg_cong [OF yz, of length] by simp
    then obtain j where "Suc i + length ys \<le> j" "str_last_index s [c] = Some j"
      using str_last_index_greatest [OF pre] by blast
    then show False using assms by simp
  qed
qed

lemma dispatch_asset_path:
  assumes "k \<in> {''blobs'', ''manifests''}" "slash \<notin> set ref"
  shows "\<exists>a b. dispatch_parts (str_split slash (img @ slash # k @ slash # ref)) \<in> {Oq_Manifests a b, Oq_Blobs a b, Oq_Uploads a b}"
proof -
  let ?p = "str_split slash img @ [k, ref]"
  have "slash \<notin> set k" using assms(1) by auto
  then have sp: "str_split slash (img @ slash # k @ slash # ref) = ?p"
    using assms(2) by (simp add: str_split_cat str_split_single)
  have l: "length ?p \<ge> 3" "length ?p - 2 = length (str_split slash img)" by (simp_all add: Suc_le_eq)
  have n: "?p ! (length ?p - 2) = k" unfolding l(2) by simp
  have e: "\<not> ends_with_segments ?p [''tags'', ''list'']" using assms(1) by (auto simp: ends_with_segments_def)
  have r: "referrers_index ?p = None" using n assms(1) by (auto simp: referrers_index_def)
  have m: "segment_index xs k \<noteq> None" if "k \<in> set xs" for xs using that by (induction xs) auto
  have "segment_index ?p k \<noteq> None" by (rule m) simp
  then show ?thesis using l(1) e r assms(1) unfolding sp dispatch_parts_def Let_def by (auto split: option.splits)
qed

lemma rest_of_kinds_shape:
  assumes "rest_of_kinds ks p = Some r"
  shows "\<exists>k \<in> set ks. \<exists>img ref. r = img @ slash # k @ slash # ref \<and> slash \<notin> set ref \<and> img \<noteq> []"
  using assms
proof (induction ks)
  case (Cons k ks)
  show ?case
  proof (cases "has_prefix p (slash # k @ [slash])")
    case True
    let ?t = "drop (length k + 2) p"
    obtain i where i: "str_last_index ?t ''/'' = Some i" "i \<noteq> 0" "r = take i ?t @ slash # k @ slash # drop (Suc i) ?t"
      using Cons.prems True by (auto simp: Let_def split: option.splits if_splits)
    have "i \<le> length ?t" by (rule str_last_index_bound [OF i(1)])
    moreover have "?t \<noteq> []" using i(1,2) str_last_index_bound [OF i(1)] by auto
    ultimately have "take i ?t \<noteq> []" using i(2) by simp
    then have "\<exists>img ref. r = img @ slash # k @ slash # ref \<and> slash \<notin> set ref \<and> img \<noteq> []"
      using i(3) after_last_slash_free(1) [OF i(1)] by blast
    then show ?thesis by simp
  next
    case False
    then show ?thesis using Cons by auto
  qed
qed simp

lemma classifier_agrees:
  "group_index_kind path =
     (case oci_dispatch path of
        Oq_Catalog \<Rightarrow> (Index_Catalog, [])
      | Oq_Tags img \<Rightarrow> (Index_Tags, img)
      | Oq_Referrers _ _ \<Rightarrow> (Index_Referrers, [])
      | _ \<Rightarrow> (Index_None, []))"
proof -
  let ?p = "norm_path path" and ?rest = "trim_prefix (norm_path path) ''/v2/''"
  show ?thesis
  proof (cases "?rest = ?p")
    case True
    then have l: "group_index_kind path = (Index_None, [])" by (simp add: group_index_kind_def Let_def)
    show ?thesis
    proof (cases "?p = ''/v2/'' \<or> ?p = ''/v2''")
      case True
      then show ?thesis by (simp add: l oci_dispatch_def Let_def)
    next
      case f: False
      show ?thesis
      proof (cases "rest_from_asset_path ?p")
        case None
        then show ?thesis using True f by (simp add: l oci_dispatch_def Let_def)
      next
        case (Some r)
        obtain k img ref where r: "k \<in> {''blobs'', ''manifests''}" "r = img @ slash # k @ slash # ref" "slash \<notin> set ref"
          using rest_of_kinds_shape [OF Some [unfolded rest_from_asset_path_def]] unfolding list.set by blast
        have "slash \<in> set r" using r(2) by simp
        then have "r \<noteq> ''_catalog''" by auto
        then show ?thesis using True f Some dispatch_asset_path [OF r(1,3), of img]
          unfolding r(2) by (auto simp: l oci_dispatch_def Let_def)
      qed
    qed
  next
    case False
    then have p: "?p = ''/v2/'' @ ?rest" by (auto simp: trim_prefix_def has_prefix_iff split: if_splits)
    have ne: "?rest = [] \<or> (\<forall>s \<in> set (str_split slash ?rest). s \<noteq> [])" by (rule norm_path_rest [OF p])
    show ?thesis
    proof (cases "?rest = []")
      case True
      then show ?thesis using False p by (simp add: group_index_kind_def oci_dispatch_def Let_def)
    next
      case nr: False
      let ?parts = "str_split slash ?rest"
      have v: "?p \<noteq> ''/v2/''" "?p \<noteq> ''/v2''" using p nr by auto
      have d: "oci_dispatch path = (if ?rest = ''_catalog'' then Oq_Catalog else dispatch_parts ?parts)"
        using v False by (simp add: oci_dispatch_def Let_def)
      have t: "join_segs (take (length ?parts - 2) ?parts) = [] \<longleftrightarrow> length ?parts \<le> 2"
        using ne nr by (subst join_segs_empty) (auto dest: in_set_takeD)
      show ?thesis using False t unfolding d group_index_kind_def Let_def dispatch_parts_def
        by (auto split: option.splits)
    qed
  qed
qed

text \<open>
  C22: a path is merged only as the document a member would serve for it. The classifier of the group layer
  and the dispatch of the registry agree on every path: it is a tag list, with the same image, exactly when
  the registry answers a tag list, and likewise for catalogs and referrers; every other request, those without
  an image name and those for stored asset paths included, is not merged.
\<close>

theorem merged_only_as_served:
  "group_index_kind path =
     (case oci_dispatch path of
        Oq_Catalog \<Rightarrow> (Index_Catalog, [])
      | Oq_Tags img \<Rightarrow> (Index_Tags, img)
      | Oq_Referrers _ _ \<Rightarrow> (Index_Referrers, [])
      | _ \<Rightarrow> (Index_None, []))"
  by (rule classifier_agrees)

text \<open>The endpoint keyword is looked for from the left: an image with a segment \<open>manifests\<close> cannot be addressed.\<close>

lemma keyword_in_image_name: "oci_dispatch ''/v2/lib/manifests/app/manifests/v1'' = Oq_Manifests ''lib'' ''app/manifests/v1''"
  by code_simp

end
