(* ===== verification/Group.thy ===== *)
theory Group
  imports Routing Write_Policy
begin

text \<open>
  Group repositories: \<open>internal/formats/group/handler.go\<close> and the interfaces a format's index merger
  implements (\<open>internal/formats/group_merge.go\<close>). Of a reply the status, the link to a next page, the
  members named as its source and the body are kept; \<open>'d\<close> is what bodies hold, \<open>'s\<close> the state the members'
  handlers work on. Every operation also answers the members it asked, in their order.
\<close>

section \<open>Requests and replies\<close>

text \<open>The pairs of a raw query, and whether some piece of it could not be parsed.\<close>

record web_query =
  wq_pairs :: "(string \<times> string) list"
  wq_bad :: bool

definition no_query :: web_query where
  "no_query = \<lparr> wq_pairs = [], wq_bad = False \<rparr>"

text \<open>\<open>c.Query\<close>.\<close>

definition query_get :: "web_query \<Rightarrow> string \<Rightarrow> string" where
  "query_get q k = (case map_of (wq_pairs q) k of None \<Rightarrow> [] | Some v \<Rightarrow> v)"

record 'd response =
  rs_status :: nat
  rs_link :: "web_query option"
  rs_source :: "string list"
  rs_body :: "'d option"

definition status_only :: "nat \<Rightarrow> 'd response" where
  "status_only n = \<lparr> rs_status = n, rs_link = None, rs_source = [], rs_body = None \<rparr>"

record 'd group_part =
  gp_member :: string
  gp_body :: "'d option"

section \<open>Mergers\<close>

text \<open>
  What a fetcher of sub-indexes keeps: the parts per source path, the members asked, the handlers' state.
\<close>

type_synonym ('d, 's) fetch_state = "(string \<times> 'd group_part list) list \<times> string list \<times> 's"
type_synonym ('d, 's) fetcher = "string \<Rightarrow> ('d, 's) fetch_state \<Rightarrow> 'd option \<times> ('d, 's) fetch_state"

text \<open>
  The merger of a format. An optional interface the format does not implement is the field that changes
  nothing: every query valid, the client's query passed on, no page cut, no failure fatal, no name claimed.
  A merge of \<^const>\<open>None\<close> is an error; \<open>mg_dependent\<close> is the merge with a fetcher.
\<close>

record ('d, 's) merger =
  mg_source :: "string \<Rightarrow> string option"
  mg_merge :: "string \<Rightarrow> string \<Rightarrow> 'd group_part list \<Rightarrow> 'd option"
  mg_dependent :: "(string \<Rightarrow> string \<Rightarrow> 'd group_part list \<Rightarrow> ('d, 's) fetcher \<Rightarrow> ('d, 's) fetch_state \<Rightarrow> 'd option \<times> ('d, 's) fetch_state) option"
  mg_valid :: "web_query \<Rightarrow> string \<Rightarrow> bool"
  mg_member_query :: "string \<Rightarrow> web_query \<Rightarrow> web_query"
  mg_page :: "web_query \<Rightarrow> string \<Rightarrow> 'd \<Rightarrow> ('d \<times> web_query option) option"
  mg_member_fatal :: "string \<Rightarrow> nat \<Rightarrow> bool"
  mg_merge_fatal :: "string \<Rightarrow> bool"
  mg_claims :: "string \<Rightarrow> 'd option \<Rightarrow> bool"

text \<open>
  The handler's environment: the rule engine with its cache, the rule table (absent when rules are off), the
  format registry and its mergers, the handlers of the formats (method, member, path, query), and the names
  whose lookup fails when a member is resolved.
\<close>

record ('d, 's) group_env =
  ge_rx :: regex_engine
  ge_cache :: matcher_cache
  ge_rules :: "(string \<Rightarrow> routing_rule option) option"
  ge_handler :: "repo_format \<Rightarrow> bool"
  ge_merger :: "repo_format \<Rightarrow> ('d, 's) merger option"
  ge_call :: "string \<Rightarrow> string \<Rightarrow> string \<Rightarrow> web_query \<Rightarrow> 's \<Rightarrow> 'd response \<times> 's"
  ge_lookup_fails :: "string \<Rightarrow> bool"

section \<open>Members\<close>

definition member_get :: "('d, 's) group_env \<Rightarrow> 'b store_world \<Rightarrow> string \<Rightarrow> repository option" where
  "member_get env w name = (if ge_lookup_fails env name then None else repos_get w name)"

definition eligible_member :: "('d, 's) group_env \<Rightarrow> 'b store_world \<Rightarrow> repository \<Rightarrow> string \<Rightarrow> repository option" where
  "eligible_member env w g name =
     (case member_get env w name of
        None \<Rightarrow> None
      | Some m \<Rightarrow> if \<not> repo_online m \<or> repo_kind m = TypeGroup \<or> repo_fmt m \<noteq> repo_fmt g then None else Some m)"

definition eligible_members :: "('d, 's) group_env \<Rightarrow> 'b store_world \<Rightarrow> repository \<Rightarrow> string list \<Rightarrow> repository list" where
  "eligible_members env w g names =
     (let ms = List.map_filter (eligible_member env w g) names
      in filter (\<lambda>m. repo_kind m = TypeHosted) ms @ filter (\<lambda>m. repo_kind m \<noteq> TypeHosted) ms)"

definition may_ask :: "('d, 's) group_env \<Rightarrow> string \<Rightarrow> routing_rule option \<Rightarrow> string \<Rightarrow> repository \<Rightarrow> bool" where
  "may_ask env method rule path m \<longleftrightarrow>
     fst (rule_allows (ge_rx env) (ge_cache env) rule path) \<and>
     fst (proxy_rule_allows (ge_rx env) (ge_cache env) (ge_rules env) (Some m) method path) \<and>
     ge_handler env (repo_fmt m)"

fun ask_members ::
  "('d, 's) group_env \<Rightarrow> string \<Rightarrow> routing_rule option \<Rightarrow> string \<Rightarrow> web_query \<Rightarrow> repository list \<Rightarrow> 's \<Rightarrow>
   'd response option \<times> string list \<times> 's" where
  "ask_members env method rule path q [] s = (None, [], s)"
| "ask_members env method rule path q (m # ms) s =
     (if \<not> may_ask env method rule path m then ask_members env method rule path q ms s
      else case ge_call env method (repo_name m) path q s of
        (r, s') \<Rightarrow>
          if rs_status r = 404
          then (case ask_members env method rule path q ms s' of (res, asked, s'') \<Rightarrow> (res, repo_name m # asked, s''))
          else (Some (r\<lparr> rs_source := [repo_name m], rs_body := (if method = ''HEAD'' then None else rs_body r) \<rparr>), [repo_name m], s'))"

section \<open>Merged indexes\<close>

definition is_success :: "nat \<Rightarrow> bool" where
  "is_success n \<longleftrightarrow> 200 \<le> n \<and> n \<le> 299"

text \<open>The rule of a proxy member is asked as for a GET, whatever the method of the request.\<close>

definition may_collect :: "('d, 's) group_env \<Rightarrow> routing_rule option \<Rightarrow> string \<Rightarrow> repository \<Rightarrow> bool" where
  "may_collect env rule source m \<longleftrightarrow> may_ask env ''GET'' rule source m"

fun collect_parts ::
  "('d, 's) group_env \<Rightarrow> ('d, 's) merger \<Rightarrow> string \<Rightarrow> routing_rule option \<Rightarrow> string \<Rightarrow> web_query \<Rightarrow> bool \<Rightarrow> repository list \<Rightarrow> 's \<Rightarrow>
   ((string \<times> 'd response) + 'd group_part list) \<times> string list \<times> 's" where
  "collect_parts env mg method rule source q claimed [] s = (Inr [], [], s)"
| "collect_parts env mg method rule source q claimed (m # ms) s =
     (if claimed \<and> repo_kind m \<noteq> TypeHosted \<or> \<not> may_collect env rule source m
      then collect_parts env mg method rule source q claimed ms s
      else case ge_call env method (repo_name m) source q s of
        (r, s') \<Rightarrow>
          if \<not> is_success (rs_status r) \<and> mg_member_fatal mg source (rs_status r) then (Inl (repo_name m, r), [repo_name m], s')
          else let ok = is_success (rs_status r);
                   claimed' = (claimed \<or> ok \<and> repo_kind m = TypeHosted \<and> mg_claims mg source (rs_body r))
               in case collect_parts env mg method rule source q claimed' ms s' of
                    (Inl f, asked, s'') \<Rightarrow> (Inl f, repo_name m # asked, s'')
                  | (Inr parts, asked, s'') \<Rightarrow>
                      (Inr (if ok then \<lparr> gp_member = repo_name m, gp_body = rs_body r \<rparr> # parts else parts), repo_name m # asked, s''))"

text \<open>\<open>subIndexFetcher\<close>: the group's own merged body at another path, collected once per source path.\<close>

definition sub_index ::
  "('d, 's) group_env \<Rightarrow> ('d, 's) merger \<Rightarrow> string \<Rightarrow> routing_rule option \<Rightarrow> repository list \<Rightarrow> string \<Rightarrow> ('d, 's) fetcher" where
  "sub_index env mg method rule ms gname p st =
     (case st of (cache, asked, s) \<Rightarrow>
       case canonical_path p of
         Inl _ \<Rightarrow> (None, st)
       | Inr _ \<Rightarrow>
           let source = (case mg_source mg p of None \<Rightarrow> p | Some x \<Rightarrow> x);
               finish = (\<lambda>parts. if parts = [] then None else mg_merge mg gname p parts)
           in case map_of cache source of
                Some parts \<Rightarrow> (finish parts, st)
              | None \<Rightarrow>
                  (case collect_parts env mg method rule source no_query False ms s of
                     (Inl _, asked', s') \<Rightarrow> (None, (cache, asked @ asked', s'))
                   | (Inr parts, asked', s') \<Rightarrow> (finish parts, ((source, parts) # cache, asked @ asked', s'))))"

definition merge_index_parts ::
  "('d, 's) group_env \<Rightarrow> ('d, 's) merger \<Rightarrow> string \<Rightarrow> routing_rule option \<Rightarrow> repository list \<Rightarrow> string \<Rightarrow> string \<Rightarrow> 'd group_part list \<Rightarrow> 's \<Rightarrow>
   'd option \<times> string list \<times> 's" where
  "merge_index_parts env mg method rule ms gname path parts s =
     (case mg_dependent mg of
        None \<Rightarrow> (mg_merge mg gname path parts, [], s)
      | Some f \<Rightarrow> (case f gname path parts (sub_index env mg method rule ms gname) ([], [], s) of (res, _, asked, s') \<Rightarrow> (res, asked, s')))"

definition serve_merged_index ::
  "('d, 's) group_env \<Rightarrow> ('d, 's) merger \<Rightarrow> string \<Rightarrow> routing_rule option \<Rightarrow> repository list \<Rightarrow> string \<Rightarrow> string \<Rightarrow> string \<Rightarrow> web_query \<Rightarrow> 's \<Rightarrow>
   'd response \<times> string list \<times> 's" where
  "serve_merged_index env mg method rule ms gname source path q s =
     (case collect_parts env mg method rule source (mg_member_query mg source q) False ms s of
        (Inl (m, r), asked, s') \<Rightarrow> (r\<lparr> rs_source := [m], rs_body := (if method = ''HEAD'' then None else rs_body r) \<rparr>, asked, s')
      | (Inr parts, asked, s') \<Rightarrow>
          if parts = [] then (status_only 404, asked, s')
          else case merge_index_parts env mg method rule ms gname path parts s' of
            (merged, asked', s'') \<Rightarrow>
              (case (case merged of None \<Rightarrow> None | Some body \<Rightarrow> mg_page mg q path body) of
                 Some (body, link) \<Rightarrow>
                   (\<lparr> rs_status = 200, rs_link = link, rs_source = map gp_member parts, rs_body = Some body \<rparr>, asked @ asked', s'')
               | None \<Rightarrow>
                   if mg_merge_fatal mg path then ((status_only 502)\<lparr> rs_source := map gp_member parts \<rparr>, asked @ asked', s'')
                   else (\<lparr> rs_status = 200, rs_link = None, rs_source = map gp_member parts, rs_body = gp_body (hd parts) \<rparr>, asked @ asked', s'')))"

section \<open>Requests\<close>

text \<open>The rule of the group; \<^const>\<open>None\<close> is a rule that cannot be loaded.\<close>

definition group_rule :: "('d, 's) group_env \<Rightarrow> repository \<Rightarrow> routing_rule option option" where
  "group_rule env g =
     (case (repo_routing_rule_id g, ge_rules env) of
        (Some i, Some get_rule) \<Rightarrow> (case get_rule i of None \<Rightarrow> None | Some r \<Rightarrow> Some (Some r))
      | _ \<Rightarrow> Some None)"

definition serve_get ::
  "('d, 's) group_env \<Rightarrow> 'b store_world \<Rightarrow> string \<Rightarrow> string \<Rightarrow> string \<Rightarrow> web_query \<Rightarrow> 's \<Rightarrow> 'd response \<times> string list \<times> 's" where
  "serve_get env w method gname path q s =
     (case repos_get w gname of
        None \<Rightarrow> (status_only 404, [], s)
      | Some g \<Rightarrow>
          let names = group_member_names (Some g) in
          if names = [] then (status_only 404, [], s)
          else case group_rule env g of
            None \<Rightarrow> (status_only 500, [], s)
          | Some rule \<Rightarrow>
              let ms = eligible_members env w g names;
                  plain = (case ask_members env method rule path q ms s of
                             (None, asked, s') \<Rightarrow> (status_only 404, asked, s')
                           | (Some r, asked, s') \<Rightarrow> (r, asked, s'))
              in case ge_merger env (repo_fmt g) of
                   None \<Rightarrow> plain
                 | Some mg \<Rightarrow>
                     (case mg_source mg path of
                        None \<Rightarrow> plain
                      | Some source \<Rightarrow>
                          if \<not> mg_valid mg q path then (status_only 400, [], s)
                          else serve_merged_index env mg method rule ms (repo_name g) source path q s))"

fun first_hosted :: "('d, 's) group_env \<Rightarrow> 'b store_world \<Rightarrow> repository \<Rightarrow> string list \<Rightarrow> string option" where
  "first_hosted env w g [] = None"
| "first_hosted env w g (n # ns) =
     (case member_get env w n of
        None \<Rightarrow> first_hosted env w g ns
      | Some m \<Rightarrow> if repo_online m \<and> repo_kind m = TypeHosted \<and> repo_fmt m = repo_fmt g then Some n else first_hosted env w g ns)"

definition serve_write ::
  "('d, 's) group_env \<Rightarrow> 'b store_world \<Rightarrow> string \<Rightarrow> string \<Rightarrow> string \<Rightarrow> web_query \<Rightarrow> 's \<Rightarrow> 'd response \<times> string list \<times> 's" where
  "serve_write env w method gname path q s =
     (case repos_get w gname of
        None \<Rightarrow> (status_only 404, [], s)
      | Some g \<Rightarrow>
          (case (if group_writable_member (Some g) \<noteq> [] then Some (group_writable_member (Some g))
                 else first_hosted env w g (group_member_names (Some g))) of
             None \<Rightarrow> (status_only 405, [], s)
           | Some target \<Rightarrow>
               (case member_get env w target of
                  None \<Rightarrow> (status_only 404, [], s)
                | Some t \<Rightarrow>
                    if repo_kind t \<noteq> TypeHosted \<or> \<not> repo_online t \<or> repo_fmt t \<noteq> repo_fmt g then (status_only 409, [], s)
                    else if \<not> ge_handler env (repo_fmt t) then (status_only 500, [], s)
                    else case ge_call env method target path q s of (r, s') \<Rightarrow> (r, [target], s'))))"

definition group_serve_http ::
  "('d, 's) group_env \<Rightarrow> 'b store_world \<Rightarrow> string \<Rightarrow> string \<Rightarrow> string \<Rightarrow> web_query \<Rightarrow> 's \<Rightarrow> 'd response \<times> string list \<times> 's" where
  "group_serve_http env w method gname path q s =
     (if isl (canonical_path path) then (status_only 400, [], s)
      else if method \<in> {''GET'', ''HEAD''} then serve_get env w method gname path q s
      else if method \<in> {''PUT'', ''POST'', ''PATCH''} then serve_write env w method gname path q s
      else (status_only 405, [], s))"

end
