(* ===== verification/Oci_Lists.thy ===== *)
theory Oci_Lists
  imports Oci_Routes Group Sql_Like "HOL-Library.List_Lexorder" "HOL-Library.Char_ord" "HOL-Library.Multiset"
begin

text \<open>
  Tag lists and catalogs: \<open>pagination.go\<close>, \<open>catalog.go\<close> and the tag list of \<open>handler.go\<close> in
  \<open>internal/formats/oci\<close>, with the queries behind them (\<open>componentRepo.Search\<close>, \<open>assetRepo.ListOCIImageNames\<close>).
  Bodies are JSON values; a link to the next page is the query it carries.
\<close>

section \<open>Pages\<close>

record page_params =
  pg_n :: int
  pg_last :: string

definition parse_page_params :: "web_query \<Rightarrow> page_params" where
  "parse_page_params q =
     \<lparr> pg_n = (let raw = query_get q ''n''
               in if raw = [] then 0 else case atoi raw of None \<Rightarrow> 0 | Some n \<Rightarrow> if n > 0 then n else 0),
       pg_last = query_get q ''last'' \<rparr>"

text \<open>\<open>sort.Search\<close>: the binary search for the first index that satisfies \<open>f\<close>.\<close>

function sort_search :: "(nat \<Rightarrow> bool) \<Rightarrow> nat \<Rightarrow> nat \<Rightarrow> nat" where
  "sort_search f i j =
     (if i < j then let h = (i + j) div 2 in if f h then sort_search f i h else sort_search f (Suc h) j else i)"
  by auto
termination by (relation "measure (\<lambda>(f, i, j). j - i)") auto

declare sort_search.simps [simp del]

definition search_strings :: "string list \<Rightarrow> string \<Rightarrow> nat" where
  "search_strings es x = sort_search (\<lambda>i. x \<le> es ! i) 0 (length es)"

text \<open>The loop that steps over the entries up to the cursor.\<close>

definition skip_to :: "string list \<Rightarrow> string \<Rightarrow> nat \<Rightarrow> nat" where
  "skip_to es cur start = start + length (takeWhile (\<lambda>e. e \<le> cur) (drop start es))"

definition paginate :: "string list \<Rightarrow> page_params \<Rightarrow> string list \<times> bool" where
  "paginate es p =
     (let start = (if pg_last p \<noteq> [] then skip_to es (pg_last p) (search_strings es (pg_last p)) else 0);
          rest = drop start es
      in if pg_n p \<le> 0 \<or> int (length rest) \<le> pg_n p then (rest, False) else (take (nat (pg_n p)) rest, True))"

definition next_link :: "int \<Rightarrow> string \<Rightarrow> web_query" where
  "next_link n cur = \<lparr> wq_pairs = [(''last'', cur), (''n'', itoa n)], wq_bad = False \<rparr>"

definition set_next_link :: "page_params \<Rightarrow> string list \<Rightarrow> bool \<Rightarrow> web_query option" where
  "set_next_link p page further = (if \<not> further \<or> page = [] then None else Some (next_link (pg_n p) (last page)))"

definition page_of :: "string list \<Rightarrow> web_query \<Rightarrow> string list \<times> web_query option" where
  "page_of es q = (let p = parse_page_params q; (page, further) = paginate es p in (page, set_next_link p page further))"

section \<open>Tags\<close>

definition search_page_size :: nat where
  "search_page_size = 500"

text \<open>\<open>Search\<close>: the bound on the limit, and one page of the rows with the continuation token.\<close>

definition search_limit :: "int \<Rightarrow> nat" where
  "search_limit limit = (if limit \<le> 0 then 50 else if limit > 500 then 500 else nat limit)"

definition search_page :: "int \<Rightarrow> nat \<Rightarrow> 'a list \<Rightarrow> 'a list \<times> nat option" where
  "search_page limit offset rows =
     (let n = search_limit limit; items = take (Suc n) (drop offset rows)
      in if length items > n then (take n items, Some (offset + n)) else (items, None))"

text \<open>\<open>rep.name = $1 AND c.name ILIKE '%name%'\<close>, in the order \<open>ord\<close> the database gives.\<close>

definition search_rows :: "(component list \<Rightarrow> component list) \<Rightarrow> 'b store_world \<Rightarrow> string \<Rightarrow> string \<Rightarrow> component list" where
  "search_rows ord w rn name =
     ord (filter (\<lambda>c. (\<exists>r \<in> set (sw_repos w). repo_id r = comp_repository_id c \<and> repo_name r = rn) \<and>
            sql_like (to_lower (comp_name c)) (to_lower (''%'' @ name @ ''%'')) = Some True) (sw_comps w))"

text \<open>\<open>collectTags\<close>; \<open>fails\<close> names the offsets at which the query fails.\<close>

function collect_tags :: "(nat \<Rightarrow> bool) \<Rightarrow> component list \<Rightarrow> string \<Rightarrow> nat \<Rightarrow> string list option" where
  "collect_tags fails rows img offset =
     (if fails offset then None
      else let (items, token) = search_page (int search_page_size) offset rows;
               tags = map comp_version (filter (\<lambda>c. comp_name c = img \<and> CHR '':'' \<notin> set (comp_version c)) items)
           in if token = None \<or> items = [] then Some tags
              else map_option (\<lambda>ts. tags @ ts) (collect_tags fails rows img (offset + search_page_size)))"
  by auto
termination
  by (relation "measure (\<lambda>(fails, rows, img, offset). length rows - offset)")
     (auto simp: search_page_def search_limit_def search_page_size_def Let_def split: if_splits)

declare collect_tags.simps [simp del]

text \<open>What the queries of one request see: the order of the rows, the offsets at which \<open>Search\<close> fails, and
  whether the catalog query fails.\<close>

record list_db =
  ld_order :: "component list \<Rightarrow> component list"
  ld_search_fails :: "nat \<Rightarrow> bool"
  ld_catalog_fails :: bool

definition json_list :: "string list \<Rightarrow> any_val" where
  "json_list xs = VList (map VStr xs)"

definition handle_tags_list :: "list_db \<Rightarrow> 'b store_world \<Rightarrow> string \<Rightarrow> string \<Rightarrow> web_query \<Rightarrow> string \<Rightarrow> any_val response" where
  "handle_tags_list db w method rn q img =
     (if method \<noteq> ''GET'' then status_only 405
      else case collect_tags (ld_search_fails db) (search_rows (ld_order db) w rn img) img 0 of
        None \<Rightarrow> status_only 500
      | Some tags \<Rightarrow>
          (case page_of (sort tags) q of
             (page, link) \<Rightarrow>
               \<lparr> rs_status = 200, rs_link = link, rs_source = [],
                 rs_body = Some (VMap [(''name'', VStr img), (''tags'', json_list page)]) \<rparr>))"

section \<open>The catalog\<close>

text \<open>\<open>substring(path from '^/manifests/(.+)/[^/]+$')\<close>.\<close>

definition image_of_path :: "string \<Rightarrow> string option" where
  "image_of_path path =
     (if \<not> has_prefix path ''/manifests/'' then None
      else let tail = trim_prefix path ''/manifests/''
           in case str_last_index tail ''/'' of
                None \<Rightarrow> None
              | Some i \<Rightarrow> if i = 0 \<or> Suc i = length tail then None else Some (take i tail))"

definition list_oci_image_names :: "list_db \<Rightarrow> 'b store_world \<Rightarrow> string list \<Rightarrow> string list option" where
  "list_oci_image_names db w rns =
     (if rns = [] then Some []
      else if ld_catalog_fails db then None
      else Some (remdups (List.map_filter (\<lambda>a. if \<exists>r \<in> set (sw_repos w). repo_id r = asset_repository_id a \<and> repo_name r \<in> set rns
                                                 then image_of_path (asset_path a) else None) (sw_assets w))))"

definition handle_catalog :: "list_db \<Rightarrow> 'b store_world \<Rightarrow> string \<Rightarrow> string \<Rightarrow> web_query \<Rightarrow> any_val response" where
  "handle_catalog db w method rn q =
     (if method \<noteq> ''GET'' then status_only 405
      else case list_oci_image_names db w [rn] of
        None \<Rightarrow> status_only 500
      | Some names \<Rightarrow>
          (case page_of (sort names) q of
             (page, link) \<Rightarrow>
               \<lparr> rs_status = 200, rs_link = link, rs_source = [], rs_body = Some (VMap [(''repositories'', json_list page)]) \<rparr>))"

section \<open>A page is a window of the sorted list\<close>

lemma sort_search_inv:
  assumes "i \<le> j" "\<And>a b. a \<le> b \<Longrightarrow> b < n \<Longrightarrow> f a \<Longrightarrow> f b" "j \<le> n" "\<And>a. a < i \<Longrightarrow> \<not> f a" "j < n \<Longrightarrow> f j"
  shows "sort_search f i j \<le> n \<and> (\<forall>a < sort_search f i j. \<not> f a) \<and> (sort_search f i j < n \<longrightarrow> f (sort_search f i j))"
  using assms
proof (induction f i j rule: sort_search.induct)
  case (1 f i j)
  show ?case
  proof (cases "i < j")
    case False
    then have "i = j" using "1.prems"(1) by simp
    moreover have "sort_search f i j = i" using False by (subst sort_search.simps) simp
    ultimately have "i = j" "sort_search f i j = i" by blast+
    then show ?thesis using "1.prems"(3-5) by simp
  next
    case True
    define h where "h = (i + j) div 2"
    have hb: "i \<le> h" "h < j" using True by (auto simp: h_def)
    have e: "sort_search f i j = (if f h then sort_search f i h else sort_search f (Suc h) j)"
      using True by (simp add: sort_search.simps [of f i j] h_def Let_def)
    show ?thesis
    proof (cases "f h")
      case t: True
      have "sort_search f i h \<le> n \<and> (\<forall>a < sort_search f i h. \<not> f a) \<and> (sort_search f i h < n \<longrightarrow> f (sort_search f i h))"
        by (rule "1.IH"(1) [OF True h_def t hb(1) "1.prems"(2)]) (use hb "1.prems"(3,4) t in auto)
      then show ?thesis using e t by simp
    next
      case f: False
      have low: "\<not> f a" if "a < Suc h" for a
        using "1.prems"(2) [of a h] f that hb "1.prems"(3) by (metis leD le_less_trans less_Suc_eq_le not_le_imp_less order_less_le_trans)
      have "sort_search f (Suc h) j \<le> n \<and> (\<forall>a < sort_search f (Suc h) j. \<not> f a) \<and> (sort_search f (Suc h) j < n \<longrightarrow> f (sort_search f (Suc h) j))"
        by (rule "1.IH"(2) [OF True h_def f _ "1.prems"(2)]) (use hb "1.prems"(3,5) low in auto)
      then show ?thesis using e f by simp
    qed
  qed
qed

lemma search_strings_sorted:
  assumes "sorted es"
  shows "search_strings es x = length (takeWhile (\<lambda>e. e < x) es)"
proof -
  let ?f = "\<lambda>i. x \<le> es ! i"
  have mono: "?f b" if "a \<le> b" "b < length es" "?f a" for a b
    using sorted_nth_mono [OF assms that(1,2)] that(3) by (rule order_trans [rotated])
  define r where "r = search_strings es x"
  have "sort_search ?f 0 (length es) \<le> length es \<and> (\<forall>a < sort_search ?f 0 (length es). \<not> ?f a) \<and>
      (sort_search ?f 0 (length es) < length es \<longrightarrow> ?f (sort_search ?f 0 (length es)))"
    by (rule sort_search_inv) (use mono in auto)
  then have r: "r \<le> length es" "\<forall>a < r. es ! a < x" "r < length es \<longrightarrow> x \<le> es ! r"
    by (auto simp: r_def search_strings_def not_le)
  have "takeWhile (\<lambda>e. e < x) es = take r es"
  proof (cases "r < length es")
    case True
    show ?thesis by (rule takeWhile_eq_take_P_nth) (use r True in auto)
  next
    case False
    then have "\<forall>e \<in> set es. e < x" using r by (auto simp: in_set_conv_nth)
    then show ?thesis using False r(1) by simp
  qed
  then show ?thesis using r(1) by (simp add: r_def [symmetric])
qed

lemma dropWhile_sorted: "sorted es \<Longrightarrow> dropWhile (\<lambda>e. e \<le> a) es = filter (\<lambda>e. a < e) es" for a :: "'a :: linorder"
proof (induction es)
  case (Cons e es)
  show ?case
  proof (cases "e \<le> a")
    case False
    then have "\<forall>x \<in> set es. a < x" using Cons.prems by auto
    then have "filter (\<lambda>e. a < e) es = es" by (simp add: filter_id_conv)
    then show ?thesis using False by simp
  qed (use Cons in \<open>simp add: not_less\<close>)
qed simp

lemma drop_takeWhile_length: "drop (length (takeWhile P xs)) xs = dropWhile P xs"
  by (induction xs) auto

lemma dropWhile_le_lt: "dropWhile (\<lambda>e. e \<le> a) (dropWhile (\<lambda>e. e < a) es) = dropWhile (\<lambda>e. e \<le> a) es" for a :: "'a :: linorder"
  by (induction es) auto

text \<open>The entries after the cursor.\<close>

definition after :: "string \<Rightarrow> string list \<Rightarrow> string list" where
  "after cur es = filter (\<lambda>e. cur = [] \<or> cur < e) es"

lemma paginate_sorted:
  assumes "sorted es"
  shows "paginate es p = (let rest = after (pg_last p) es
     in if pg_n p \<le> 0 \<or> int (length rest) \<le> pg_n p then (rest, False) else (take (nat (pg_n p)) rest, True))"
proof -
  let ?start = "if pg_last p \<noteq> [] then skip_to es (pg_last p) (search_strings es (pg_last p)) else 0"
  have "drop ?start es = after (pg_last p) es"
  proof (cases "pg_last p = []")
    case False
    let ?tw = "takeWhile (\<lambda>e. e < pg_last p) es"
    have "drop (skip_to es (pg_last p) (length ?tw)) es =
        drop (length (takeWhile (\<lambda>e. e \<le> pg_last p) (drop (length ?tw) es))) (drop (length ?tw) es)"
      by (simp add: skip_to_def add.commute)
    also have "\<dots> = dropWhile (\<lambda>e. e \<le> pg_last p) es"
      unfolding drop_takeWhile_length dropWhile_le_lt ..
    finally show ?thesis using False assms by (simp add: after_def search_strings_sorted dropWhile_sorted)
  qed (simp add: after_def)
  then show ?thesis unfolding paginate_def Let_def by (simp only:)
qed

section \<open>Following the links\<close>

text \<open>A client that asks for the next page until there is none, giving up after \<open>k\<close> pages.\<close>

fun walk :: "nat \<Rightarrow> (web_query \<Rightarrow> string list \<times> web_query option) \<Rightarrow> web_query \<Rightarrow> string list option" where
  "walk 0 serve q = None"
| "walk (Suc k) serve q =
     (case serve q of
        (page, None) \<Rightarrow> Some page
      | (page, Some q') \<Rightarrow> map_option (\<lambda>es. page @ es) (walk k serve q'))"

lemma itoa_nonempty: "itoa n \<noteq> []"
  by (simp add: itoa_def nat_digits.simps)

lemma next_link_params: "0 < n \<Longrightarrow> n < 2 ^ 63 \<Longrightarrow> parse_page_params (next_link n l) = \<lparr> pg_n = n, pg_last = l \<rparr>"
  by (simp add: parse_page_params_def next_link_def query_get_def Let_def atoi_itoa in64_def itoa_nonempty)

lemma parse_n_bound: "pg_n (parse_page_params q) < 2 ^ 63"
  by (auto simp: parse_page_params_def Let_def atoi_def split: option.splits if_splits)

lemma after_last:
  assumes "sorted es" "distinct es" "[] \<notin> set es" "0 < n" "n < length (after cur es)"
  shows "after (last (take n (after cur es))) es = drop n (after cur es)" "last (take n (after cur es)) \<noteq> []"
proof -
  let ?r = "after cur es" and ?l = "last (take n (after cur es))"
  have t: "take n ?r \<noteq> []" using assms(4,5) by auto
  have l: "?l = ?r ! (n - 1)" using t assms(4,5) by (simp add: last_conv_nth min_def)
  have lin: "?l \<in> set ?r" using last_in_set [OF t] by (auto dest: in_set_takeD)
  then show ne: "?l \<noteq> []" using assms(3) by (auto simp: after_def)
  have sr: "sorted ?r" "distinct ?r" using assms(1,2) by (simp_all add: after_def sorted_wrt_filter)
  have "after ?l es = filter (\<lambda>e. ?l < e) ?r"
    using ne lin by (auto simp: after_def intro!: filter_cong)
  also have "\<dots> = filter (\<lambda>e. ?l < e) (take n ?r) @ filter (\<lambda>e. ?l < e) (drop n ?r)"
    by (metis append_take_drop_id filter_append)
  also have "filter (\<lambda>e. ?l < e) (take n ?r) = []"
  proof -
    have "e \<le> ?l" if mem: "e \<in> set (take n ?r)" for e
    proof -
      obtain i where "i < length (take n ?r)" "take n ?r ! i = e" using mem by (auto simp: in_set_conv_nth)
      then have "i < n" "e = ?r ! i" by auto
      then show ?thesis unfolding l using sorted_nth_mono [OF sr(1), of i "n - 1"] assms(5) by simp
    qed
    then show ?thesis by (auto simp: filter_empty_conv not_less)
  qed
  also have "filter (\<lambda>e. ?l < e) (drop n ?r) = drop n ?r"
  proof -
    have "?l < e" if mem: "e \<in> set (drop n ?r)" for e
    proof -
      obtain i where i: "i < length ?r - n" "e = ?r ! (n + i)" using mem by (auto simp: in_set_conv_nth)
      have "?r ! (n - 1) \<le> ?r ! (n + i)" by (rule sorted_nth_mono [OF sr(1)]) (use i in auto)
      moreover have "?r ! (n - 1) \<noteq> ?r ! (n + i)" using sr(2) i assms(4) by (auto simp: nth_eq_iff_index_eq)
      ultimately show ?thesis unfolding l i(2) by simp
    qed
    then show ?thesis by (simp add: filter_id_conv)
  qed
  finally show "after ?l es = drop n ?r" by simp
qed

lemma walk_after:
  assumes "sorted es" "distinct es" "[] \<notin> set es" "length (after (query_get q ''last'') es) < k"
  shows "walk k (page_of es) q = Some (after (query_get q ''last'') es)"
  using assms(4)
proof (induction k arbitrary: q)
  case (Suc k)
  let ?p = "parse_page_params q" and ?r = "after (query_get q ''last'') es"
  have l: "pg_last ?p = query_get q ''last''" by (simp add: parse_page_params_def)
  show ?case
  proof (cases "pg_n ?p \<le> 0 \<or> int (length ?r) \<le> pg_n ?p")
    case True
    then have "page_of es q = (?r, None)" using assms(1) by (simp add: page_of_def paginate_sorted l Let_def set_next_link_def)
    then show ?thesis by simp
  next
    case False
    define n where "n = nat (pg_n ?p)"
    have n: "0 < n" "n < length ?r" "pg_n ?p = int n" using False by (auto simp: n_def)
    have nb: "int n < 2 ^ 63" using parse_n_bound [of q] n(3) by simp
    have ne: "take n ?r \<noteq> []" using n by auto
    let ?q = "next_link (int n) (last (take n ?r))"
    have pg: "page_of es q = (take n ?r, Some ?q)"
      using assms(1) False ne by (simp add: page_of_def paginate_sorted l Let_def set_next_link_def n_def [symmetric]) (simp add: n(3))
    have ql: "query_get ?q ''last'' = last (take n ?r)" by (simp add: next_link_def query_get_def)
    have al: "after (last (take n ?r)) es = drop n ?r" by (rule after_last [OF assms(1-3) n(1,2)])
    have "walk k (page_of es) ?q = Some (drop n ?r)"
      using Suc.IH [of ?q] Suc.prems n unfolding ql al by simp
    then show ?thesis by (simp add: pg)
  qed
qed simp

text \<open>An entry with the empty name stops the walk: its page links to itself.\<close>

lemma empty_entry_loops: "walk k (page_of [[], ''v1'']) \<lparr> wq_pairs = [(''n'', ''1'')], wq_bad = False \<rparr> = None"
proof -
  let ?q = "\<lparr> wq_pairs = [(''last'', []), (''n'', ''1'')], wq_bad = False \<rparr>"
  have s: "page_of [[], ''v1''] \<lparr> wq_pairs = [(''n'', ''1'')], wq_bad = False \<rparr> = ([[]], Some ?q)" "page_of [[], ''v1''] ?q = ([[]], Some ?q)"
    by code_simp+
  have "walk k (page_of [[], ''v1'']) ?q = None" for k by (induction k) (simp_all add: s)
  then show ?thesis by (cases k) (simp_all add: s)
qed

section \<open>All tags of an image\<close>

definition in_repo :: "'b store_world \<Rightarrow> string \<Rightarrow> component \<Rightarrow> bool" where
  "in_repo w rn c \<longleftrightarrow> (\<exists>r \<in> set (sw_repos w). repo_id r = comp_repository_id c \<and> repo_name r = rn)"

text \<open>The tags of an image: the versions of its components that are no digests.\<close>

definition image_tags :: "'b store_world \<Rightarrow> string \<Rightarrow> string \<Rightarrow> string list" where
  "image_tags w rn img =
     map comp_version (filter (\<lambda>c. in_repo w rn c \<and> comp_name c = img \<and> CHR '':'' \<notin> set (comp_version c)) (sw_comps w))"

lemma collect_tags_all:
  assumes "\<And>i. \<not> fails i"
  shows "collect_tags fails rows img offset =
     Some (map comp_version (filter (\<lambda>c. comp_name c = img \<and> CHR '':'' \<notin> set (comp_version c)) (drop offset rows)))"
  using assms
proof (induction fails rows img offset rule: collect_tags.induct)
  case (1 fails rows img offset)
  let ?t = "\<lambda>xs. map comp_version (filter (\<lambda>c. comp_name c = img \<and> CHR '':'' \<notin> set (comp_version c)) xs)"
  have page: "search_page (int search_page_size) offset rows =
      (take search_page_size (drop offset rows), if search_page_size < length (drop offset rows) then Some (offset + search_page_size) else None)"
    by (auto simp: search_page_def search_limit_def search_page_size_def Let_def min_def take_all)
  show ?case
  proof (cases "search_page_size < length (drop offset rows)")
    case False
    then show ?thesis by (subst collect_tags.simps) (simp add: page "1.prems" Let_def)
  next
    case True
    then have ne: "take search_page_size (drop offset rows) \<noteq> []" by (auto simp: search_page_size_def)
    have "collect_tags fails rows img (offset + search_page_size) = Some (?t (drop (offset + search_page_size) rows))"
      by (rule "1.IH" [OF _ page [symmetric] refl refl]) (use True ne "1.prems" in simp_all)
    moreover have "?t (take search_page_size (drop offset rows)) @ ?t (drop (offset + search_page_size) rows) = ?t (drop offset rows)"
      by (metis (no_types, lifting) append_take_drop_id drop_drop filter_append map_append add.commute)
    ultimately show ?thesis using True ne by (subst collect_tags.simps) (simp add: page "1.prems" Let_def)
  qed
qed

text \<open>The search finds every component of the image, since a name matches itself.\<close>

definition like_tok_of :: "char \<Rightarrow> like_tok" where
  "like_tok_of c = (if c = CHR ''%'' then Lk_Many else if c = CHR ''_'' then Lk_One else Lk_Char c)"

lemma like_tokens_plain: "backslash \<notin> set p \<Longrightarrow> like_tokens p = Some (map like_tok_of p)"
  by (induction p) (auto simp: like_tok_of_def)

lemma many_skips: "toks_match ts xs \<Longrightarrow> toks_match (Lk_Many # ts) xs"
  by (cases xs) simp_all

lemma toks_match_self: "toks_match (map like_tok_of p @ [Lk_Many]) p"
proof (induction p)
  case Nil
  show ?case by simp
next
  case (Cons c p)
  then have m: "toks_match (Lk_Many # map like_tok_of p @ [Lk_Many]) (c # p)" by (simp add: many_skips)
  consider "like_tok_of c = Lk_Many" | "like_tok_of c = Lk_One" | "like_tok_of c = Lk_Char c"
    unfolding like_tok_of_def by (cases "c = CHR ''%''"; cases "c = CHR ''_''") simp_all
  then show ?case by cases (use m Cons in simp_all)
qed

lemma lower_backslash: "backslash \<notin> set p \<Longrightarrow> backslash \<notin> set (to_lower p)"
proof -
  have "c = backslash" if "backslash = lower_char c" for c
  proof -
    have "(of_char (lower_char c) :: nat) = 92" unfolding that [symmetric] by (simp add: backslash_def)
    then have "\<not> (65 \<le> (of_char c :: nat) \<and> (of_char c :: nat) \<le> 90)" by (auto simp: of_char_lower_char split: if_splits)
    then have "lower_char c = c" by (auto simp: lower_char_def Let_def)
    then show ?thesis using that by simp
  qed
  then show "backslash \<notin> set p \<Longrightarrow> backslash \<notin> set (to_lower p)" by (auto simp: to_lower_def)
qed

lemma name_found:
  assumes "backslash \<notin> set p"
  shows "sql_like (to_lower p) (to_lower (''%'' @ p @ ''%'')) = Some True"
proof -
  have l: "to_lower (''%'' @ p @ ''%'') = CHR ''%'' # to_lower p @ [CHR ''%'']"
    by (simp add: to_lower_def lower_char_def)
  have "backslash \<notin> set (CHR ''%'' # to_lower p @ [CHR ''%''])" using lower_backslash [OF assms] by (simp add: backslash_def)
  then have "like_tokens (CHR ''%'' # to_lower p @ [CHR ''%'']) = Some (Lk_Many # map like_tok_of (to_lower p) @ [Lk_Many])"
    by (subst like_tokens_plain) (simp_all add: like_tok_of_def)
  then show ?thesis unfolding l sql_like_def using toks_match_self many_skips by simp
qed

lemma mset_filter_perm: "mset xs = mset ys \<Longrightarrow> mset (map f (filter P xs)) = mset (map f (filter P ys))"
  by simp

lemma collected_tags:
  assumes "\<And>i. \<not> fails i" "\<And>xs. mset (ord xs) = mset xs" "backslash \<notin> set img"
  shows "\<exists>tags. collect_tags fails (search_rows ord w rn img) img 0 = Some tags \<and> mset tags = mset (image_tags w rn img)"
proof -
  let ?P = "\<lambda>c. comp_name c = img \<and> CHR '':'' \<notin> set (comp_version c)"
  let ?Q = "\<lambda>c. in_repo w rn c \<and> sql_like (to_lower (comp_name c)) (to_lower (''%'' @ img @ ''%'')) = Some True"
  have rows: "search_rows ord w rn img = ord (filter ?Q (sw_comps w))" by (simp add: search_rows_def in_repo_def)
  have "mset (map comp_version (filter ?P (search_rows ord w rn img))) = mset (map comp_version (filter ?P (filter ?Q (sw_comps w))))"
    unfolding rows by (rule mset_filter_perm [OF assms(2)])
  also have "filter ?P (filter ?Q (sw_comps w)) = filter (\<lambda>c. in_repo w rn c \<and> comp_name c = img \<and> CHR '':'' \<notin> set (comp_version c)) (sw_comps w)"
    unfolding filter_filter using name_found [OF assms(3)] by (intro filter_cong) auto
  finally show ?thesis using collect_tags_all [of fails, OF assms(1)] by (simp add: image_tags_def)
qed

lemma sort_mset: "mset xs = mset ys \<Longrightarrow> sort xs = sort ys" for xs :: "'a :: linorder list"
  by (metis properties_for_sort sorted_sort mset_sort)

lemma handle_tags_ok:
  assumes "\<And>i. \<not> ld_search_fails db i" "\<And>xs. mset (ld_order db xs) = mset xs" "backslash \<notin> set img"
  shows "handle_tags_list db w ''GET'' rn q img =
    (case page_of (sort (image_tags w rn img)) q of
       (page, link) \<Rightarrow> \<lparr> rs_status = 200, rs_link = link, rs_source = [], rs_body = Some (VMap [(''name'', VStr img), (''tags'', json_list page)]) \<rparr>)"
proof -
  obtain tags where t: "collect_tags (ld_search_fails db) (search_rows (ld_order db) w rn img) img 0 = Some tags" "mset tags = mset (image_tags w rn img)"
    using collected_tags [of "ld_search_fails db" "ld_order db" img w rn, OF assms] by blast
  show ?thesis by (simp add: handle_tags_list_def t(1) sort_mset [OF t(2)])
qed

lemma handle_tags_status:
  "rs_status (handle_tags_list db w ''GET'' rn q img) = 200 \<or> rs_status (handle_tags_list db w ''GET'' rn q img) = 500"
  by (auto simp: handle_tags_list_def status_only_def split: option.splits prod.splits)

text \<open>A query that failed on the way is an error, never a shorter list.\<close>

lemma collect_tags_some:
  "collect_tags fails rows img offset = Some tags \<Longrightarrow> collect_tags (\<lambda>_. False) rows img offset = Some tags"
proof (induction fails rows img offset arbitrary: tags rule: collect_tags.induct)
  case (1 fails rows img offset)
  obtain items token where p: "search_page (int search_page_size) offset rows = (items, token)" by fastforce
  have nf: "\<not> fails offset" using "1.prems" by (subst (asm) collect_tags.simps) (simp split: if_splits)
  show ?case
  proof (cases "token = None \<or> items = []")
    case True
    then show ?thesis using "1.prems" nf by (subst collect_tags.simps, subst (asm) collect_tags.simps) (auto simp: p Let_def)
  next
    case False
    then obtain tok where tok: "token = Some tok" "items \<noteq> []" by auto
    let ?t = "map comp_version (filter (\<lambda>c. comp_name c = img \<and> CHR '':'' \<notin> set (comp_version c)) items)"
    have "collect_tags fails rows img offset = map_option (\<lambda>ts. ?t @ ts) (collect_tags fails rows img (offset + search_page_size))"
      using nf tok by (subst collect_tags.simps) (simp add: p Let_def)
    then obtain ts where ts: "collect_tags fails rows img (offset + search_page_size) = Some ts" "tags = ?t @ ts"
      using "1.prems" by (cases "collect_tags fails rows img (offset + search_page_size)") simp_all
    have "collect_tags (\<lambda>_. False) rows img (offset + search_page_size) = Some ts"
      by (rule "1.IH" [OF nf refl p [symmetric] refl False ts(1)]) 
    then show ?thesis using tok ts(2) by (subst collect_tags.simps) (simp add: p Let_def)
  qed
qed

lemma handle_tags_200:
  assumes "rs_status (handle_tags_list db w ''GET'' rn q img) = 200" "\<And>xs. mset (ld_order db xs) = mset xs" "backslash \<notin> set img"
  shows "handle_tags_list db w ''GET'' rn q img =
    (case page_of (sort (image_tags w rn img)) q of
       (page, link) \<Rightarrow> \<lparr> rs_status = 200, rs_link = link, rs_source = [], rs_body = Some (VMap [(''name'', VStr img), (''tags'', json_list page)]) \<rparr>)"
proof -
  obtain tags where t: "collect_tags (ld_search_fails db) (search_rows (ld_order db) w rn img) img 0 = Some tags"
    using assms(1) by (auto simp: handle_tags_list_def status_only_def split: option.splits)
  have "handle_tags_list db w ''GET'' rn q img = handle_tags_list (db\<lparr> ld_search_fails := \<lambda>_. False \<rparr>) w ''GET'' rn q img"
    using collect_tags_some [OF t] by (simp add: handle_tags_list_def t)
  then show ?thesis using handle_tags_ok [of "db\<lparr> ld_search_fails := \<lambda>_. False \<rparr>" img w rn q] assms(2,3) by simp
qed

end
