(* ===== verification/Group_Safety.thy ===== *)
theory Group_Safety
  imports Group
begin

text \<open>
  What a group promises: members are asked in order, hosted ones first, and no further than to the first
  answer; a name a hosted member claims is not carried upstream; a write goes to one hosted repository.
\<close>

section \<open>The order of the questions\<close>

text \<open>The replies of members asked one after the other.\<close>

fun answers :: "('d, 's) group_env \<Rightarrow> string \<Rightarrow> string \<Rightarrow> web_query \<Rightarrow> repository list \<Rightarrow> 's \<Rightarrow> 'd response list" where
  "answers env method path q [] s = []"
| "answers env method path q (m # ms) s =
     (case ge_call env method (repo_name m) path q s of (r, s') \<Rightarrow> r # answers env method path q ms s')"

lemma length_answers [simp]: "length (answers env method path q ms s) = length ms"
  by (induction ms arbitrary: s) (auto split: prod.splits)

definition asked_prefix :: "repository list \<Rightarrow> 'd response list \<Rightarrow> 'd response option \<Rightarrow> string list \<Rightarrow> bool" where
  "asked_prefix ms rs res asked \<longleftrightarrow>
     (\<exists>k \<le> length ms. asked = map repo_name (take k ms) \<and>
        (case res of
           None \<Rightarrow> k = length ms \<and> (\<forall>i < k. rs_status (rs ! i) = 404)
         | Some r \<Rightarrow> 0 < k \<and> (\<forall>i < k - 1. rs_status (rs ! i) = 404) \<and> rs_status (rs ! (k - 1)) \<noteq> 404 \<and>
             rs_status r = rs_status (rs ! (k - 1)) \<and> rs_source r = [repo_name (ms ! (k - 1))]))"

lemma ask_members_prefix:
  assumes "ask_members env method rule path q ms s = (res, asked, s')"
  defines "ps \<equiv> filter (may_ask env method rule path) ms"
  shows "asked_prefix ps (answers env method path q ps s) res asked"
  using assms(1) unfolding ps_def
proof (induction ms arbitrary: s res asked s')
  case Nil
  then show ?case by (simp add: asked_prefix_def)
next
  case (Cons m ms)
  show ?case
  proof (cases "may_ask env method rule path m")
    case False
    then show ?thesis using Cons by simp
  next
    case True
    let ?ps = "filter (may_ask env method rule path) ms"
    obtain r s1 where c: "ge_call env method (repo_name m) path q s = (r, s1)" by (cases "ge_call env method (repo_name m) path q s")
    let ?rs = "answers env method path q ?ps s1"
    have f: "filter (may_ask env method rule path) (m # ms) = m # ?ps" using True by simp
    have rs: "answers env method path q (m # ?ps) s = r # ?rs" using c by simp
    show ?thesis
    proof (cases "rs_status r = 404")
      case nf: True
      obtain asked1 where a: "ask_members env method rule path q ms s1 = (res, asked1, s')" "asked = repo_name m # asked1"
        using Cons.prems True c nf by (auto split: prod.splits)
      obtain k where k: "k \<le> length ?ps" "asked1 = map repo_name (take k ?ps)"
        "case res of None \<Rightarrow> k = length ?ps \<and> (\<forall>i < k. rs_status (?rs ! i) = 404)
         | Some r \<Rightarrow> 0 < k \<and> (\<forall>i < k - 1. rs_status (?rs ! i) = 404) \<and> rs_status (?rs ! (k - 1)) \<noteq> 404 \<and>
             rs_status r = rs_status (?rs ! (k - 1)) \<and> rs_source r = [repo_name (?ps ! (k - 1))]"
        using Cons.IH [OF a(1)] unfolding asked_prefix_def by blast
      have "Suc k \<le> length (m # ?ps)" "asked = map repo_name (take (Suc k) (m # ?ps))" using k(1,2) a(2) by simp_all
      moreover have "case res of None \<Rightarrow> Suc k = length (m # ?ps) \<and> (\<forall>i < Suc k. rs_status ((r # ?rs) ! i) = 404)
         | Some x \<Rightarrow> 0 < Suc k \<and> (\<forall>i < Suc k - 1. rs_status ((r # ?rs) ! i) = 404) \<and> rs_status ((r # ?rs) ! (Suc k - 1)) \<noteq> 404 \<and>
             rs_status x = rs_status ((r # ?rs) ! (Suc k - 1)) \<and> rs_source x = [repo_name ((m # ?ps) ! (Suc k - 1))]"
        using k(3) nf by (auto simp: nth_Cons less_Suc_eq_0_disj split: option.splits nat.splits)
      ultimately show ?thesis unfolding f asked_prefix_def rs by (intro exI [of _ "Suc k"] conjI)
    next
      case False
      then have "res = Some (r\<lparr> rs_source := [repo_name m], rs_body := (if method = ''HEAD'' then None else rs_body r) \<rparr>)" "asked = [repo_name m]"
        using Cons.prems True c by auto
      then show ?thesis unfolding f asked_prefix_def rs using False by (intro exI [of _ 1]) simp
    qed
  qed
qed

definition hosted_first :: "repository list \<Rightarrow> bool" where
  "hosted_first ms \<longleftrightarrow> (\<exists>hs ps. ms = hs @ ps \<and> (\<forall>h \<in> set hs. repo_kind h = TypeHosted) \<and> (\<forall>p \<in> set ps. repo_kind p \<noteq> TypeHosted))"

lemma eligible_hosted_first: "hosted_first (filter P (eligible_members env w g names))"
  unfolding hosted_first_def eligible_members_def Let_def filter_append
  by (intro exI conjI) (rule refl, auto)

lemma hosted_first_split:
  assumes "hosted_first ms" "i < length ms" "repo_kind (ms ! i) \<noteq> TypeHosted"
  shows "{h \<in> set ms. repo_kind h = TypeHosted} \<subseteq> set (take i ms)"
proof -
  obtain hs ps where ms: "ms = hs @ ps" "\<forall>h \<in> set hs. repo_kind h = TypeHosted" "\<forall>p \<in> set ps. repo_kind p \<noteq> TypeHosted"
    using assms(1) by (auto simp: hosted_first_def)
  have "length hs \<le> i"
  proof (rule ccontr)
    assume "\<not> length hs \<le> i"
    then have "ms ! i \<in> set hs" using ms(1) by (simp add: nth_append)
    then show False using assms(3) ms(2) by blast
  qed
  then show ?thesis using ms by auto
qed

text \<open>The members a request may reach: eligible, let through by the rules, hosted ones first.\<close>

definition reachable_members :: "('d, 's) group_env \<Rightarrow> 'b store_world \<Rightarrow> string \<Rightarrow> string \<Rightarrow> repository \<Rightarrow> repository list" where
  "reachable_members env w method path g =
     (case group_rule env g of None \<Rightarrow> [] | Some rule \<Rightarrow> filter (may_ask env method rule path) (eligible_members env w g (group_member_names (Some g))))"

lemma reachable_member_ok:
  assumes "m \<in> set (reachable_members env w method path g)"
  shows "m \<in> set (sw_repos w) \<and> repo_name m \<in> set (group_member_names (Some g)) \<and> repo_online m \<and> repo_fmt m = repo_fmt g \<and> repo_kind m \<noteq> TypeGroup"
proof -
  have "m \<in> set (eligible_members env w g (group_member_names (Some g)))" using assms by (auto simp: reachable_members_def split: option.splits)
  then obtain n where n: "n \<in> set (group_member_names (Some g))" "eligible_member env w g n = Some m"
    by (auto simp: eligible_members_def Let_def List.map_filter_def split: option.splits)
  have g: "member_get env w n = Some m" using n(2) by (auto simp: eligible_member_def split: option.splits if_splits)
  then have "m \<in> set (sw_repos w)" "repo_name m = n"
    by (auto simp: member_get_def repos_get_def find_Some_iff split: if_splits)
  then show ?thesis using n g by (auto simp: eligible_member_def split: if_splits)
qed

lemma serve_get_order:
  assumes "repos_get w gname = Some g" "\<And>mg. ge_merger env (repo_fmt g) = Some mg \<Longrightarrow> mg_source mg path = None"
    "serve_get env w method gname path q s = (r, asked, s')"
  defines "ms \<equiv> reachable_members env w method path g"
  shows "\<exists>k \<le> length ms. asked = map repo_name (take k ms) \<and>
     (\<forall>i < k - 1. rs_status (answers env method path q ms s ! i) = 404) \<and>
     (\<forall>i < k. repo_kind (ms ! i) \<noteq> TypeHosted \<longrightarrow> {h \<in> set ms. repo_kind h = TypeHosted} \<subseteq> set (take i ms)) \<and>
     (if rs_source r = [] then rs_status r \<in> {404, 500} \<and> (k = 0 \<or> k = length ms)
      else rs_source r = [repo_name (ms ! (k - 1))] \<and> 0 < k \<and> rs_status r \<noteq> 404 \<and> rs_status r = rs_status (answers env method path q ms s ! (k - 1)))"
proof -
  have early: ?thesis if "asked = []" "r = status_only n" "n \<in> {404, 500}" for n
    using that by (intro exI [of _ 0]) (auto simp: status_only_def)
  show ?thesis
  proof (cases "group_member_names (Some g) = []")
    case True
    then show ?thesis using assms(1,3) by (intro early [of 404]) (simp_all add: serve_get_def)
  next
    case ne: False
    show ?thesis
    proof (cases "group_rule env g")
      case None
      then show ?thesis using assms(1,3) ne by (intro early [of 500]) (simp_all add: serve_get_def Let_def)
    next
      case (Some rule)
      let ?el = "eligible_members env w g (group_member_names (Some g))"
      have ms: "ms = filter (may_ask env method rule path) ?el" by (simp add: ms_def reachable_members_def Some)
      obtain res s1 where a: "ask_members env method rule path q ?el s = (res, asked, s1)" and
        r: "r = (case res of None \<Rightarrow> status_only 404 | Some x \<Rightarrow> x)"
        using assms(1-3) ne Some unfolding serve_get_def by (auto simp: Let_def split: prod.splits option.splits)
      have order: "repo_kind (ms ! i) \<noteq> TypeHosted \<longrightarrow> {h \<in> set ms. repo_kind h = TypeHosted} \<subseteq> set (take i ms)" if "i < length ms" for i
        using hosted_first_split [OF _ that] eligible_hosted_first unfolding ms by blast
      obtain k where k: "k \<le> length ms" "asked = map repo_name (take k ms)"
        "case res of None \<Rightarrow> k = length ms \<and> (\<forall>i < k. rs_status (answers env method path q ms s ! i) = 404)
         | Some x \<Rightarrow> 0 < k \<and> (\<forall>i < k - 1. rs_status (answers env method path q ms s ! i) = 404) \<and>
             rs_status (answers env method path q ms s ! (k - 1)) \<noteq> 404 \<and>
             rs_status x = rs_status (answers env method path q ms s ! (k - 1)) \<and> rs_source x = [repo_name (ms ! (k - 1))]"
        using ask_members_prefix [OF a] unfolding asked_prefix_def ms [symmetric] by blast
      show ?thesis
      proof (intro exI [of _ k] conjI)
        show "k \<le> length ms" "asked = map repo_name (take k ms)" by (rule k)+
        show "\<forall>i < k - 1. rs_status (answers env method path q ms s ! i) = 404" using k(3) by (cases res) auto
        show "\<forall>i < k. repo_kind (ms ! i) \<noteq> TypeHosted \<longrightarrow> {h \<in> set ms. repo_kind h = TypeHosted} \<subseteq> set (take i ms)"
          using order k(1) by auto
        show "if rs_source r = [] then rs_status r \<in> {404, 500} \<and> (k = 0 \<or> k = length ms)
          else rs_source r = [repo_name (ms ! (k - 1))] \<and> 0 < k \<and> rs_status r \<noteq> 404 \<and> rs_status r = rs_status (answers env method path q ms s ! (k - 1))"
          using k(3) by (cases res) (auto simp: r status_only_def)
      qed
    qed
  qed
qed


section \<open>Who is asked for an index\<close>

definition parts_of :: "repository list \<Rightarrow> 'd response list \<Rightarrow> 'd group_part list" where
  "parts_of ms rs =
     map (\<lambda>(m, r). \<lparr> gp_member = repo_name m, gp_body = rs_body r \<rparr>) (filter (\<lambda>(m, r). is_success (rs_status r)) (zip ms rs))"

text \<open>Once a hosted member has claimed the name, only hosted members are asked.\<close>

definition claims_kept :: "('d, 's) merger \<Rightarrow> string \<Rightarrow> repository list \<Rightarrow> 'd response list \<Rightarrow> bool" where
  "claims_kept mg source ms rs \<longleftrightarrow>
     (\<forall>j < length ms. \<forall>i < j. repo_kind (ms ! i) = TypeHosted \<and> is_success (rs_status (rs ! i)) \<and> mg_claims mg source (rs_body (rs ! i)) \<longrightarrow>
        repo_kind (ms ! j) = TypeHosted)"

definition collected ::
  "('d, 's) merger \<Rightarrow> string \<Rightarrow> repository list \<Rightarrow> 'd response list \<Rightarrow> ((string \<times> 'd response) + 'd group_part list) \<Rightarrow> bool" where
  "collected mg source ms rs res \<longleftrightarrow>
     (case res of
        Inl (n, r) \<Rightarrow> ms \<noteq> [] \<and> n = repo_name (last ms) \<and> r = last rs \<and> \<not> is_success (rs_status r) \<and> mg_member_fatal mg source (rs_status r)
      | Inr parts \<Rightarrow> parts = parts_of ms rs \<and> (\<forall>r \<in> set rs. is_success (rs_status r) \<or> \<not> mg_member_fatal mg source (rs_status r)))"

lemma hosted_first_Cons:
  "hosted_first (m # ms) \<longleftrightarrow> (if repo_kind m = TypeHosted then hosted_first ms else \<forall>p \<in> set ms. repo_kind p \<noteq> TypeHosted)"
proof
  assume "hosted_first (m # ms)"
  then obtain hs ps where h: "m # ms = hs @ ps" "\<forall>h \<in> set hs. repo_kind h = TypeHosted" "\<forall>p \<in> set ps. repo_kind p \<noteq> TypeHosted"
    by (auto simp: hosted_first_def)
  show "if repo_kind m = TypeHosted then hosted_first ms else \<forall>p \<in> set ms. repo_kind p \<noteq> TypeHosted"
  proof (cases hs)
    case Nil
    then show ?thesis using h by auto
  next
    case (Cons x hs')
    then have "ms = hs' @ ps" using h(1) by simp
    then show ?thesis using h Cons unfolding hosted_first_def by auto
  qed
next
  assume a: "if repo_kind m = TypeHosted then hosted_first ms else \<forall>p \<in> set ms. repo_kind p \<noteq> TypeHosted"
  show "hosted_first (m # ms)"
  proof (cases "repo_kind m = TypeHosted")
    case True
    then obtain hs ps where "ms = hs @ ps" "\<forall>h \<in> set hs. repo_kind h = TypeHosted" "\<forall>p \<in> set ps. repo_kind p \<noteq> TypeHosted"
      using a by (auto simp: hosted_first_def)
    then show ?thesis using True unfolding hosted_first_def by (intro exI [of _ "m # hs"] exI [of _ ps]) simp
  next
    case False
    then show ?thesis using a unfolding hosted_first_def by (intro exI [of _ "[]"] exI [of _ "m # ms"]) simp
  qed
qed

lemma hosted_first_none: "\<forall>p \<in> set ms. repo_kind p \<noteq> TypeHosted \<Longrightarrow> hosted_first ms"
  unfolding hosted_first_def by (intro exI [of _ "[]"] exI [of _ ms]) simp

lemma claims_kept_Cons:
  "claims_kept mg source (m # ms) (r # rs) \<longleftrightarrow> claims_kept mg source ms rs \<and>
     (repo_kind m = TypeHosted \<and> is_success (rs_status r) \<and> mg_claims mg source (rs_body r) \<longrightarrow> (\<forall>x \<in> set ms. repo_kind x = TypeHosted))"
  unfolding claims_kept_def by (auto simp: less_Suc_eq_0_disj All_less_Suc2 all_set_conv_all_nth nth_Cons split: nat.splits)

lemma collect_parts_facts:
  assumes "collect_parts env mg method rule source q claimed ms s = (res, asked, s')" "hosted_first ms"
  shows "\<exists>as. asked = map repo_name as \<and> set as \<subseteq> set ms \<and> (\<forall>m \<in> set as. may_collect env rule source m) \<and> hosted_first as \<and>
    (claimed \<longrightarrow> (\<forall>m \<in> set as. repo_kind m = TypeHosted)) \<and>
    claims_kept mg source as (answers env method source q as s) \<and> collected mg source as (answers env method source q as s) res \<and>
    ((\<forall>b. \<not> mg_claims mg source b) \<and> \<not> claimed \<and> \<not> isl res \<longrightarrow> as = filter (may_collect env rule source) ms)"
  using assms
proof (induction ms arbitrary: s claimed res asked s')
  case Nil
  then show ?case by (intro exI [of _ "[]"]) (auto simp: claims_kept_def collected_def parts_of_def hosted_first_def)
next
  case (Cons m ms)
  have hf: "hosted_first ms" using Cons.prems(2) hosted_first_none by (auto simp: hosted_first_Cons split: if_splits)
  show ?case
  proof (cases "claimed \<and> repo_kind m \<noteq> TypeHosted \<or> \<not> may_collect env rule source m")
    case True
    then have c: "collect_parts env mg method rule source q claimed ms s = (res, asked, s')" using Cons.prems(1) by simp
    have f: "\<not> claimed \<Longrightarrow> filter (may_collect env rule source) (m # ms) = filter (may_collect env rule source) ms" using True by simp
    show ?thesis using Cons.IH [OF c hf] f by (auto intro: exI)
  next
    case False
    obtain r s1 where cr: "ge_call env method (repo_name m) source q s = (r, s1)" by (cases "ge_call env method (repo_name m) source q s")
    have mc: "may_collect env rule source m" using False by blast
    show ?thesis
    proof (cases "\<not> is_success (rs_status r) \<and> mg_member_fatal mg source (rs_status r)")
      case True
      then have "res = Inl (repo_name m, r)" "asked = [repo_name m]" using Cons.prems(1) cr False by auto
      then show ?thesis using True mc False cr
        by (intro exI [of _ "[m]"]) (auto simp: claims_kept_def collected_def hosted_first_Cons hosted_first_none)
    next
      case nf: False
      let ?ok = "is_success (rs_status r)"
      define cl where "cl = (claimed \<or> ?ok \<and> repo_kind m = TypeHosted \<and> mg_claims mg source (rs_body r))"
      obtain res1 asked1 where c: "collect_parts env mg method rule source q cl ms s1 = (res1, asked1, s')" "asked = repo_name m # asked1"
        and res: "res = (case res1 of Inl f \<Rightarrow> Inl f | Inr parts \<Rightarrow> Inr (if ?ok then \<lparr> gp_member = repo_name m, gp_body = rs_body r \<rparr> # parts else parts))"
        using Cons.prems(1) False nf cr unfolding cl_def by (auto simp: Let_def split: prod.splits sum.splits)
      obtain as where as: "asked1 = map repo_name as" "set as \<subseteq> set ms" "\<forall>m \<in> set as. may_collect env rule source m" "hosted_first as"
        "cl \<longrightarrow> (\<forall>m \<in> set as. repo_kind m = TypeHosted)"
        "claims_kept mg source as (answers env method source q as s1)" "collected mg source as (answers env method source q as s1) res1"
        "(\<forall>b. \<not> mg_claims mg source b) \<and> \<not> cl \<and> \<not> isl res1 \<longrightarrow> as = filter (may_collect env rule source) ms"
        using Cons.IH [OF c(1) hf] by blast
      have an: "answers env method source q (m # as) s = r # answers env method source q as s1" by (simp add: cr)
      have h: "hosted_first (m # as)"
        using Cons.prems(2) as(2,4) by (auto simp: hosted_first_Cons)
      have cd: "collected mg source (m # as) (r # answers env method source q as s1) res"
      proof (cases res1)
        case (Inl f)
        have "answers env method source q as s1 \<noteq> []" using as(7) Inl by (auto simp: collected_def split: prod.splits dest: arg_cong [where f = length])
        then show ?thesis using as(7) Inl by (auto simp: collected_def res)
      next
        case (Inr parts)
        then show ?thesis using as(7) nf by (auto simp: collected_def res parts_of_def)
      qed
      have all: "(\<forall>b. \<not> mg_claims mg source b) \<and> \<not> claimed \<and> \<not> isl res \<longrightarrow> m # as = filter (may_collect env rule source) (m # ms)"
        using as(8) mc by (auto simp: cl_def res split: sum.splits)
      have "claimed \<longrightarrow> (\<forall>x \<in> set (m # as). repo_kind x = TypeHosted)" using False as(5) by (auto simp: cl_def)
      moreover have "claims_kept mg source (m # as) (r # answers env method source q as s1)"
        unfolding claims_kept_Cons using as(5,6) by (auto simp: cl_def)
      moreover have "asked = map repo_name (m # as)" "set (m # as) \<subseteq> set (m # ms)" "\<forall>x \<in> set (m # as). may_collect env rule source x"
        using as(1-3) c(2) mc by auto
      ultimately show ?thesis using h cd all by (intro exI [of _ "m # as"] conjI) (simp_all only: an)
    qed
  qed
qed

section \<open>Properties\<close>

lemma serve_merged_asked:
  assumes "serve_merged_index env mg method rule ms gname source path q s = (r, asked, s')" "mg_dependent mg = None" "hosted_first ms"
  shows "\<exists>as. asked = map repo_name as \<and> set as \<subseteq> set ms \<and> (\<forall>m \<in> set as. may_collect env rule source m) \<and> hosted_first as \<and>
    claims_kept mg source as (answers env method source (mg_member_query mg source q) as s)"
proof -
  obtain res asked1 s1 where c: "collect_parts env mg method rule source (mg_member_query mg source q) False ms s = (res, asked1, s1)"
    by (cases "collect_parts env mg method rule source (mg_member_query mg source q) False ms s")
  have "asked = asked1"
    using assms(1,2) c unfolding serve_merged_index_def merge_index_parts_def by (auto split: sum.splits prod.splits if_splits option.splits)
  then show ?thesis using collect_parts_facts [OF c assms(3)] by blast
qed

lemma serve_get_index:
  assumes "repos_get w gname = Some g" "ge_merger env (repo_fmt g) = Some mg" "mg_source mg path = Some source"
    "group_rule env g = Some rule" "group_member_names (Some g) \<noteq> []" "mg_valid mg q path"
  shows "serve_get env w method gname path q s = serve_merged_index env mg method rule (eligible_members env w g (group_member_names (Some g))) (repo_name g) source path q s"
  unfolding serve_get_def assms(1) option.case Let_def if_not_P [OF assms(5)] assms(4) assms(2,3) if_not_P [OF assms(6) [THEN not_not [THEN iffD2]]]
  by (rule refl)

lemma serve_get_claimed:
  assumes "repos_get w gname = Some g" "ge_merger env (repo_fmt g) = Some mg" "mg_source mg path = Some source" "mg_dependent mg = None"
    "serve_get env w method gname path q s = (r, asked, s')"
  shows "\<exists>ms. asked = map repo_name ms \<and> set ms \<subseteq> set (reachable_members env w ''GET'' source g) \<and> hosted_first ms \<and>
     claims_kept mg source ms (answers env method source (mg_member_query mg source q) ms s)"
proof -
  have early: ?thesis if "asked = []" using that by (intro exI [of _ "[]"]) (simp add: hosted_first_def claims_kept_def)
  show ?thesis
  proof (cases "group_member_names (Some g) = [] \<or> group_rule env g = None \<or> \<not> mg_valid mg q path")
    case True
    then have "asked = []" using assms unfolding serve_get_def by (auto simp: Let_def split: option.splits if_splits)
    then show ?thesis by (rule early)
  next
    case False
    then obtain rule where rule: "group_rule env g = Some rule" by auto
    let ?el = "eligible_members env w g (group_member_names (Some g))"
    have nv: "group_member_names (Some g) \<noteq> []" "mg_valid mg q path" using False by blast+
    have mi: "serve_merged_index env mg method rule ?el (repo_name g) source path q s = (r, asked, s')"
      using assms(5) unfolding serve_get_index [OF assms(1-3) rule nv] .
    have hf: "hosted_first ?el" using eligible_hosted_first [of "\<lambda>_. True" env w g "group_member_names (Some g)"] by simp
    obtain as where as: "asked = map repo_name as" "set as \<subseteq> set ?el" "\<forall>m \<in> set as. may_collect env rule source m" "hosted_first as"
      "claims_kept mg source as (answers env method source (mg_member_query mg source q) as s)"
      using serve_merged_asked [OF mi assms(4) hf] by blast
    have "set as \<subseteq> set (reachable_members env w ''GET'' source g)"
      using as(2,3) by (auto simp: reachable_members_def rule may_collect_def)
    then show ?thesis using as by blast
  qed
qed

text \<open>
  C19: a name published locally stays local. When the index of a package is assembled, hosted members are
  asked before proxies, and once one of them has answered with a document that claims the name no proxy
  member is asked for it any more, however the request ends; no member is asked that a rule keeps from
  the path.
\<close>

theorem group_claimed_name_stays_local:
  assumes "repos_get w gname = Some g" "ge_merger env (repo_fmt g) = Some mg" "mg_source mg path = Some source" "mg_dependent mg = None"
    "serve_get env w method gname path q s = (r, asked, s')"
  shows "\<exists>ms. asked = map repo_name ms \<and> set ms \<subseteq> set (reachable_members env w ''GET'' source g) \<and> hosted_first ms \<and>
     claims_kept mg source ms (answers env method source (mg_member_query mg source q) ms s)"
  by (rule serve_get_claimed [OF assms])

lemma first_hosted_ok:
  "first_hosted env w g ns = Some n \<Longrightarrow>
     \<exists>m. n \<in> set ns \<and> member_get env w n = Some m \<and> repo_online m \<and> repo_kind m = TypeHosted \<and> repo_fmt m = repo_fmt g"
  by (induction ns) (auto split: option.splits if_splits)

lemma member_get_row: "member_get env w n = Some m \<Longrightarrow> m \<in> set (sw_repos w) \<and> repo_name m = n"
  by (auto simp: member_get_def repos_get_def find_Some_iff split: if_splits)

lemma serve_write_target:
  assumes "serve_write env w method gname path q s = (r, asked, s')"
  shows "asked = [] \<and> s' = s \<and> rs_status r \<in> {404, 405, 409, 500} \<or>
     (\<exists>g t. repos_get w gname = Some g \<and> asked = [repo_name t] \<and> t \<in> set (sw_repos w) \<and> repo_kind t = TypeHosted \<and> repo_online t \<and>
        repo_fmt t = repo_fmt g \<and> (r, s') = ge_call env method (repo_name t) path q s \<and>
        (if group_writable_member (Some g) \<noteq> [] then repo_name t = group_writable_member (Some g)
         else repo_name t \<in> set (group_member_names (Some g))))"
proof (cases "repos_get w gname")
  case None
  then show ?thesis using assms by (auto simp: serve_write_def status_only_def)
next
  case (Some g)
  let ?target = "if group_writable_member (Some g) \<noteq> [] then Some (group_writable_member (Some g)) else first_hosted env w g (group_member_names (Some g))"
  show ?thesis
  proof (cases ?target)
    case None
    then have "r = status_only 405" "asked = []" "s' = s" using assms Some unfolding serve_write_def by auto
    then show ?thesis by (simp add: status_only_def)
  next
    case t: (Some target)
    show ?thesis
    proof (cases "member_get env w target")
      case None
      then have "r = status_only 404" "asked = []" "s' = s" using assms Some t unfolding serve_write_def by auto
      then show ?thesis by (simp add: status_only_def)
    next
      case m: (Some m)
      note row = member_get_row [OF m]
      show ?thesis
      proof (cases "repo_kind m \<noteq> TypeHosted \<or> \<not> repo_online m \<or> repo_fmt m \<noteq> repo_fmt g \<or> \<not> ge_handler env (repo_fmt m)")
        case True
        then have "asked = [] \<and> s' = s \<and> (r = status_only 409 \<or> r = status_only 500)"
          using assms Some t m unfolding serve_write_def by (auto split: if_splits)
        then show ?thesis by (auto simp: status_only_def)
      next
        case False
        then have "asked = [target]" "ge_call env method target path q s = (r, s')"
          using assms Some t m unfolding serve_write_def by (auto split: prod.splits)
        moreover have "if group_writable_member (Some g) \<noteq> [] then target = group_writable_member (Some g) else target \<in> set (group_member_names (Some g))"
          using t first_hosted_ok [of env w g "group_member_names (Some g)" target] by (auto split: if_splits)
        ultimately show ?thesis using Some False row by (intro disjI2 exI [of _ g] exI [of _ m]) auto
      qed
    qed
  qed
qed

text \<open>
  C20: a write to a group is one write to one hosted repository. Either the request is refused and nothing was
  asked, or exactly one repository was asked, which is hosted, online and of the group's format: the
  configured writable member if there is one, otherwise a member of the group; and the reply is that
  repository's.
\<close>

theorem group_write_reaches_one_hosted:
  assumes "serve_write env w method gname path q s = (r, asked, s')"
  shows "asked = [] \<and> s' = s \<and> rs_status r \<in> {404, 405, 409, 500} \<or>
     (\<exists>g t. repos_get w gname = Some g \<and> asked = [repo_name t] \<and> t \<in> set (sw_repos w) \<and> repo_kind t = TypeHosted \<and> repo_online t \<and>
        repo_fmt t = repo_fmt g \<and> (r, s') = ge_call env method (repo_name t) path q s \<and>
        (if group_writable_member (Some g) \<noteq> [] then repo_name t = group_writable_member (Some g)
         else repo_name t \<in> set (group_member_names (Some g))))"
  by (rule serve_write_target [OF assms])

section \<open>An example\<close>

definition demo_member :: "string \<Rightarrow> repo_type \<Rightarrow> string list \<Rightarrow> string \<Rightarrow> repository" where
  "demo_member name kind ms wm =
     \<lparr> repo_id = name, repo_name = name, repo_fmt = ''npm'', repo_kind = kind, repo_blob_store_id = None, repo_online = True,
       repo_format_config = Some [''member_names'' \<mapsto> VList (map VStr ms), ''writable_member'' \<mapsto> VStr wm], repo_http_config = None,
       repo_proxy_config = None, repo_cleanup_policy_ids = [], repo_quota_bytes = None, repo_routing_rule_id = None,
       repo_allow_anonymous = False, repo_description = [], repo_url = [], repo_created_at = 0, repo_updated_at = 0 \<rparr>"

text \<open>A group that lists its proxy first, and a repository outside it.\<close>

definition demo_group_world :: "string \<Rightarrow> unit store_world" where
  "demo_group_world wm =
     \<lparr> sw_repos = [demo_member ''all'' ''group'' [''up'', ''own''] wm, demo_member ''up'' ''proxy'' [] [], demo_member ''own'' ''hosted'' [] [], demo_member ''other'' ''hosted'' [] []],
       sw_stores = [], sw_comps = [], sw_assets = [], sw_phys = (\<lambda>_. ()),
       sw_registry = \<lparr> rg_instances = Map.empty, rg_default = [], rg_rr = (\<lambda>_. 0) \<rparr>,
       sw_now = 0, sw_next = 0, sw_scans = [], sw_publishes = [], sw_events = [], sw_downloads = [], sw_fail = (\<lambda>_. False) \<rparr>"

text \<open>The hosted member has \<open>/a\<close> only, the proxy answers everything; the state counts the calls.\<close>

definition demo_call :: "string \<Rightarrow> string \<Rightarrow> string \<Rightarrow> web_query \<Rightarrow> nat \<Rightarrow> string response \<times> nat" where
  "demo_call method member path q n =
     (if member = ''own'' \<and> method = ''GET'' \<and> path \<noteq> ''/a'' then status_only 404
      else (status_only 200)\<lparr> rs_body := Some (member @ path) \<rparr>, Suc n)"

definition demo_merger :: "(string, nat) merger" where
  "demo_merger =
     \<lparr> mg_source = (\<lambda>p. if p = ''/a'' \<or> p = ''/b'' then Some p else None),
       mg_merge = (\<lambda>_ _ parts. Some (concat (map (\<lambda>p. case gp_body p of None \<Rightarrow> [] | Some b \<Rightarrow> b) parts))), mg_dependent = None,
       mg_valid = (\<lambda>_ _. True), mg_member_query = (\<lambda>_ q. q), mg_page = (\<lambda>_ _ b. Some (b, None)), mg_member_fatal = (\<lambda>_ _. False),
       mg_merge_fatal = (\<lambda>_. False), mg_claims = (\<lambda>_ b. b \<noteq> None) \<rparr>"

definition demo_group_env :: "(string, nat) merger option \<Rightarrow> (string, nat) group_env" where
  "demo_group_env mg =
     \<lparr> ge_rx = (\<lambda>_. None), ge_cache = Map.empty, ge_rules = None, ge_handler = (\<lambda>_. True), ge_merger = (\<lambda>_. mg),
       ge_call = demo_call, ge_lookup_fails = (\<lambda>_. False) \<rparr>"

lemma ex_le_conj: "\<exists>k \<le> (n :: nat). P k \<and> Q k \<Longrightarrow> \<exists>k \<le> n. P k"
  by blast


theorem group_claimed_name_stays_local_witness:
  "fst (snd (serve_get (demo_group_env (Some demo_merger)) (demo_group_world []) ''GET'' ''all'' ''/a'' no_query 0)) = [''own''] \<and>
   fst (snd (serve_get (demo_group_env (Some demo_merger)) (demo_group_world []) ''GET'' ''all'' ''/b'' no_query 0)) = [''own'', ''up''] \<and>
   (\<exists>ms. [''own''] = map repo_name ms \<and> hosted_first ms)"
proof -
  let ?x = "\<lambda>p. serve_get (demo_group_env (Some demo_merger)) (demo_group_world []) ''GET'' ''all'' p no_query 0"
  have a: "fst (snd (?x ''/a'')) = [''own'']" "fst (snd (?x ''/b'')) = [''own'', ''up'']" by code_simp+
  obtain r s' where r: "?x ''/a'' = (r, [''own''], s')" using a(1) by (metis prod.collapse)
  have g: "repos_get (demo_group_world []) ''all'' = Some (demo_member ''all'' ''group'' [''up'', ''own''] [])"
    by (simp add: repos_get_def demo_group_world_def demo_member_def)
  have m: "ge_merger (demo_group_env (Some demo_merger)) f = Some demo_merger" for f by (simp add: demo_group_env_def)
  have "mg_source demo_merger ''/a'' = Some ''/a''" "mg_dependent demo_merger = None" by (simp_all add: demo_merger_def)
  from group_claimed_name_stays_local [OF g m this r]
  have "\<exists>ms. [''own''] = map repo_name ms \<and> hosted_first ms" by (elim exE conjE) (intro exI conjI)
  then show ?thesis using a by (intro conjI)
qed

text \<open>The configured writable member need not be a member of the group.\<close>

theorem group_write_reaches_one_hosted_witness:
  "fst (snd (serve_write (demo_group_env None) (demo_group_world []) ''PUT'' ''all'' ''/c'' no_query 0)) = [''own''] \<and>
   fst (snd (serve_write (demo_group_env None) (demo_group_world ''other'') ''PUT'' ''all'' ''/c'' no_query 0)) = [''other''] \<and>
   (\<exists>t \<in> set (sw_repos (demo_group_world ''other'')). repo_name t = ''other'' \<and> repo_kind t = TypeHosted)"
proof -
  let ?x = "\<lambda>m. serve_write (demo_group_env None) (demo_group_world m) ''PUT'' ''all'' ''/c'' no_query 0"
  have a: "fst (snd (?x [])) = [''own'']" "fst (snd (?x ''other'')) = [''other'']" by code_simp+
  obtain r s' where r: "?x ''other'' = (r, [''other''], s')" using a(2) by (metis prod.collapse)
  from group_write_reaches_one_hosted [OF r] a show ?thesis by auto
qed

end
