(* ===== verification/Oci_Group.thy ===== *)
theory Oci_Group
  imports Oci_Lists Group_Safety
begin

text \<open>
  The documents an OCI group merges (\<open>internal/formats/oci/groupindex.go\<close>) and what a client of the group reads:
  the tag list of a group, page by page, is the union of its members' tags or an error. Documents are JSON
  values; the descriptors of a referrers index are kept as they are.
\<close>

section \<open>Reading documents\<close>

text \<open>\<open>json.Unmarshal\<close> into strings and lists of strings; a null leaves the zero value.\<close>

fun json_string :: "any_val \<Rightarrow> string option" where
  "json_string (VStr s) = Some s"
| "json_string VNull = Some []"
| "json_string _ = None"

fun json_strings :: "any_val \<Rightarrow> string list option" where
  "json_strings VNull = Some []"
| "json_strings (VStrs xs) = Some xs"
| "json_strings (VList vs) = those (map json_string vs)"
| "json_strings _ = None"

definition json_get :: "(string \<times> any_val) list \<Rightarrow> string \<Rightarrow> any_val" where
  "json_get kvs k = (case map_of kvs k of None \<Rightarrow> VNull | Some v \<Rightarrow> v)"

record merged_lists =
  ml_name :: string
  ml_tags :: "string list"
  ml_repositories :: "string list"

definition unmarshal_lists :: "any_val option \<Rightarrow> merged_lists option" where
  "unmarshal_lists body =
     (case body of
        None \<Rightarrow> None
      | Some (VMap kvs) \<Rightarrow>
          (case (json_string (json_get kvs ''name''), json_strings (json_get kvs ''tags''), json_strings (json_get kvs ''repositories'')) of
             (Some n, Some ts, Some rs) \<Rightarrow> Some \<lparr> ml_name = n, ml_tags = ts, ml_repositories = rs \<rparr>
           | _ \<Rightarrow> None)
      | Some VNull \<Rightarrow> Some \<lparr> ml_name = [], ml_tags = [], ml_repositories = [] \<rparr>
      | Some _ \<Rightarrow> None)"

section \<open>Merging\<close>

text \<open>The loop over the entries of one document: \<open>seen\<close> holds what \<open>merged\<close> holds.\<close>

fun add_entries :: "string list \<Rightarrow> string list \<Rightarrow> string list" where
  "add_entries merged [] = merged"
| "add_entries merged (e # es) = add_entries (if e \<in> set merged then merged else merged @ [e]) es"

fun merge_lists_loop :: "(merged_lists \<Rightarrow> string list) \<Rightarrow> string list \<Rightarrow> any_val group_part list \<Rightarrow> string list option" where
  "merge_lists_loop pick merged [] = Some merged"
| "merge_lists_loop pick merged (p # ps) =
     (case unmarshal_lists (gp_body p) of
        None \<Rightarrow> None
      | Some doc \<Rightarrow> merge_lists_loop pick (add_entries merged (pick doc)) ps)"

definition merge_string_lists :: "(merged_lists \<Rightarrow> string list) \<Rightarrow> any_val group_part list \<Rightarrow> string list option" where
  "merge_string_lists pick parts = map_option sort (merge_lists_loop pick [] parts)"

definition merge_tag_lists :: "string \<Rightarrow> any_val group_part list \<Rightarrow> any_val option" where
  "merge_tag_lists img parts =
     map_option (\<lambda>tags. VMap [(''name'', VStr img), (''tags'', json_list tags)]) (merge_string_lists ml_tags parts)"

definition merge_catalogs :: "any_val group_part list \<Rightarrow> any_val option" where
  "merge_catalogs parts = map_option (\<lambda>rs. VMap [(''repositories'', json_list rs)]) (merge_string_lists ml_repositories parts)"

definition descriptors_of :: "any_val option \<Rightarrow> any_val list option" where
  "descriptors_of body =
     (case body of
        None \<Rightarrow> None
      | Some (VMap kvs) \<Rightarrow> (case json_get kvs ''manifests'' of VNull \<Rightarrow> Some [] | VList ds \<Rightarrow> Some ds | VStrs xs \<Rightarrow> Some (map VStr xs) | _ \<Rightarrow> None)
      | Some VNull \<Rightarrow> Some []
      | Some _ \<Rightarrow> None)"

definition digest_of :: "any_val \<Rightarrow> string option" where
  "digest_of d = (case d of VMap kvs \<Rightarrow> (case json_string (json_get kvs ''digest'') of Some [] \<Rightarrow> None | r \<Rightarrow> r) | _ \<Rightarrow> None)"

text \<open>The descriptors so far with their digests.\<close>

fun add_descriptors :: "(string \<times> any_val) list \<Rightarrow> any_val list \<Rightarrow> (string \<times> any_val) list option" where
  "add_descriptors merged [] = Some merged"
| "add_descriptors merged (d # ds) =
     (case digest_of d of
        None \<Rightarrow> None
      | Some g \<Rightarrow> add_descriptors (if g \<in> fst ` set merged then merged else merged @ [(g, d)]) ds)"

fun merge_referrers_loop :: "(string \<times> any_val) list \<Rightarrow> any_val group_part list \<Rightarrow> (string \<times> any_val) list option" where
  "merge_referrers_loop merged [] = Some merged"
| "merge_referrers_loop merged (p # ps) =
     (case descriptors_of (gp_body p) of
        None \<Rightarrow> None
      | Some ds \<Rightarrow> (case add_descriptors merged ds of None \<Rightarrow> None | Some m \<Rightarrow> merge_referrers_loop m ps))"

definition merge_referrers :: "any_val group_part list \<Rightarrow> any_val option" where
  "merge_referrers parts =
     map_option (\<lambda>m. VMap [(''schemaVersion'', VNum 2), (''mediaType'', VStr ''application/vnd.oci.image.index.v1+json''), (''manifests'', VList (map snd m))])
       (merge_referrers_loop [] parts)"

definition oci_source_path :: "string \<Rightarrow> string option" where
  "oci_source_path p = (if fst (group_index_kind p) = Index_None then None else Some p)"

definition oci_merge_index :: "string \<Rightarrow> any_val group_part list \<Rightarrow> any_val option" where
  "oci_merge_index p parts =
     (case group_index_kind p of
        (Index_Referrers, _) \<Rightarrow> merge_referrers parts
      | (Index_Tags, img) \<Rightarrow> merge_tag_lists img parts
      | (Index_Catalog, _) \<Rightarrow> merge_catalogs parts
      | (Index_None, _) \<Rightarrow> None)"

definition oci_member_failure_is_fatal :: "string \<Rightarrow> nat \<Rightarrow> bool" where
  "oci_member_failure_is_fatal p status \<longleftrightarrow> oci_source_path p \<noteq> None \<and> status \<noteq> 404"

definition oci_member_query :: "string \<Rightarrow> web_query \<Rightarrow> web_query" where
  "oci_member_query p q =
     (if \<not> paginated (fst (group_index_kind p)) then q
      else if wq_bad q then no_query
      else q\<lparr> wq_pairs := filter (\<lambda>(k, _). k \<noteq> ''n'' \<and> k \<noteq> ''last'') (wq_pairs q) \<rparr>)"

definition oci_page_index :: "web_query \<Rightarrow> string \<Rightarrow> any_val \<Rightarrow> (any_val \<times> web_query option) option" where
  "oci_page_index q p merged =
     (let kind = fst (group_index_kind p) in
      if \<not> paginated kind then Some (merged, None)
      else case unmarshal_lists (Some merged) of
        None \<Rightarrow> None
      | Some doc \<Rightarrow>
          (if kind = Index_Catalog
           then (case page_of (ml_repositories doc) q of (page, link) \<Rightarrow> Some (VMap [(''repositories'', json_list page)], link))
           else (case page_of (ml_tags doc) q of
                   (page, link) \<Rightarrow> Some (VMap [(''name'', VStr (ml_name doc)), (''tags'', json_list page)], link))))"

text \<open>
  The merger as the group sees it: strict and paging, without a validator, a claimer, a failure policy of its
  own or documents that describe other documents.
\<close>

definition oci_merger :: "(any_val, 's) merger" where
  "oci_merger =
     \<lparr> mg_source = oci_source_path, mg_merge = (\<lambda>_. oci_merge_index), mg_dependent = None, mg_valid = (\<lambda>_ _. True),
       mg_member_query = oci_member_query, mg_page = oci_page_index, mg_member_fatal = oci_member_failure_is_fatal,
       mg_merge_fatal = (\<lambda>_. True), mg_claims = (\<lambda>_ _. False) \<rparr>"

text \<open>The registry's handler as a member: \<open>other\<close> answers what is no list.\<close>

definition oci_call ::
  "list_db \<Rightarrow> 'b store_world \<Rightarrow> (string \<Rightarrow> string \<Rightarrow> string \<Rightarrow> web_query \<Rightarrow> 's \<Rightarrow> any_val response \<times> 's) \<Rightarrow>
   string \<Rightarrow> string \<Rightarrow> string \<Rightarrow> web_query \<Rightarrow> 's \<Rightarrow> any_val response \<times> 's" where
  "oci_call db w other method member path q s =
     (case oci_dispatch path of
        Oq_Catalog \<Rightarrow> (handle_catalog db w method member q, s)
      | Oq_Tags img \<Rightarrow> (handle_tags_list db w method member q img, s)
      | _ \<Rightarrow> other method member path q s)"

section \<open>The merge is a union\<close>

lemma set_add_entries: "set (add_entries m es) = set m \<union> set es"
  by (induction es arbitrary: m) auto

lemma distinct_add_entries: "distinct m \<Longrightarrow> distinct (add_entries m es)"
  by (induction es arbitrary: m) auto

lemma json_strings_list [simp]: "json_strings (json_list xs) = Some xs"
  by (induction xs) (simp_all add: json_list_def)

lemma unmarshal_tags: "unmarshal_lists (Some (VMap [(''name'', VStr img), (''tags'', json_list xs)])) = Some \<lparr> ml_name = img, ml_tags = xs, ml_repositories = [] \<rparr>"
  by (simp add: unmarshal_lists_def json_get_def)

text \<open>The parts of members that all answered their whole list.\<close>

definition tag_part :: "string \<Rightarrow> string \<Rightarrow> string list \<Rightarrow> any_val group_part" where
  "tag_part img member tags = \<lparr> gp_member = member, gp_body = Some (VMap [(''name'', VStr img), (''tags'', json_list tags)]) \<rparr>"

lemma merge_tag_parts:
  "distinct m \<Longrightarrow> \<exists>r. merge_lists_loop ml_tags m (map (\<lambda>(n, ts). tag_part img n ts) nts) = Some r \<and> distinct r \<and>
     set r = set m \<union> (\<Union>(n, ts) \<in> set nts. set ts)"
proof (induction nts arbitrary: m)
  case (Cons x nts)
  obtain n ts where x: "x = (n, ts)" by (cases x)
  obtain r where "merge_lists_loop ml_tags (add_entries m ts) (map (\<lambda>(n, ts). tag_part img n ts) nts) = Some r" "distinct r"
    "set r = set (add_entries m ts) \<union> (\<Union>(n, ts) \<in> set nts. set ts)"
    using Cons.IH [OF distinct_add_entries [OF Cons.prems]] by blast
  then show ?case by (simp add: x tag_part_def unmarshal_tags set_add_entries Un_assoc)
qed simp

text \<open>The specification: the tags of the reachable members, each once, in order.\<close>

definition group_tags :: "'b store_world \<Rightarrow> repository list \<Rightarrow> string \<Rightarrow> string list" where
  "group_tags w ms img = sorted_list_of_set (\<Union>m \<in> set ms. set (image_tags w (repo_name m) img))"

lemma merge_group_tags:
  "merge_string_lists ml_tags (map (\<lambda>m. tag_part img (repo_name m) (sort (image_tags w (repo_name m) img))) ms) = Some (group_tags w ms img)"
proof -
  let ?nts = "map (\<lambda>m. (repo_name m, sort (image_tags w (repo_name m) img))) ms"
  obtain r where r: "merge_lists_loop ml_tags [] (map (\<lambda>(n, ts). tag_part img n ts) ?nts) = Some r" "distinct r" "set r = (\<Union>(n, ts) \<in> set ?nts. set ts)"
    using merge_tag_parts [of "[]" img ?nts] by auto
  have "sort r = group_tags w ms img"
    unfolding group_tags_def using r(2,3) by (intro sorted_distinct_set_unique) auto
  then show ?thesis using r(1) by (simp add: merge_string_lists_def comp_def)
qed

section \<open>The tag list of a group\<close>

lemma member_query_paging: "paginated (fst (group_index_kind p)) \<Longrightarrow> query_get (oci_member_query p q) ''n'' = [] \<and> query_get (oci_member_query p q) ''last'' = []"
proof -
  have "map_of (filter (\<lambda>(k, _). k \<noteq> ''n'' \<and> k \<noteq> ''last'') xs) ''n'' = None" "map_of (filter (\<lambda>(k, _). k \<noteq> ''n'' \<and> k \<noteq> ''last'') xs) ''last'' = None" for xs :: "(string \<times> string) list"
    by (auto simp: map_of_eq_None_iff)
  then show "paginated (fst (group_index_kind p)) \<Longrightarrow> query_get (oci_member_query p q) ''n'' = [] \<and> query_get (oci_member_query p q) ''last'' = []"
    by (simp add: oci_member_query_def query_get_def no_query_def)
qed

lemma page_of_whole: "query_get q ''n'' = [] \<Longrightarrow> query_get q ''last'' = [] \<Longrightarrow> page_of es q = (es, None)"
  by (simp add: page_of_def paginate_def parse_page_params_def set_next_link_def Let_def)

text \<open>What a client reads off a reply: the page and the link.\<close>

definition tags_reply :: "any_val response \<Rightarrow> string list \<times> web_query option" where
  "tags_reply r = ((case unmarshal_lists (rs_body r) of None \<Rightarrow> [] | Some doc \<Rightarrow> ml_tags doc), rs_link r)"

lemma answers_tags:
  assumes "ge_call env = oci_call db w other" "oci_dispatch path = Oq_Tags img"
  shows "answers env ''GET'' path q ms s = map (\<lambda>m. handle_tags_list db w ''GET'' (repo_name m) q img) ms"
  by (induction ms arbitrary: s) (simp_all add: assms oci_call_def)

lemma oci_merger_fields [simp]:
  "mg_source oci_merger = oci_source_path" "mg_merge oci_merger g = oci_merge_index" "mg_dependent oci_merger = None"
  "mg_valid oci_merger q p" "mg_member_query oci_merger = oci_member_query" "mg_page oci_merger = oci_page_index"
  "mg_member_fatal oci_merger = oci_member_failure_is_fatal" "mg_merge_fatal oci_merger p" "\<not> mg_claims oci_merger p b"
  by (simp_all add: oci_merger_def)

lemma tags_kind:
  assumes "oci_dispatch path = Oq_Tags img"
  shows "group_index_kind path = (Index_Tags, img)" "oci_source_path path = Some path" "paginated (fst (group_index_kind path))"
  using classifier_agrees [of path] by (simp_all add: assms oci_source_path_def paginated_def)

lemma parts_of_map: "parts_of ms (map f ms) = map (\<lambda>m. \<lparr> gp_member = repo_name m, gp_body = rs_body (f m) \<rparr>) (filter (\<lambda>m. is_success (rs_status (f m))) ms)"
  by (induction ms) (simp_all add: parts_of_def)

lemma group_tags_reply:
  fixes q :: web_query and s :: 's and env :: "(any_val, 's) group_env"
  assumes g: "repos_get w gname = Some g" "ge_merger env (repo_fmt g) = Some oci_merger" "ge_call env = oci_call db w other"
    and p: "\<not> isl (canonical_path path)" "oci_dispatch path = Oq_Tags img" "backslash \<notin> set img"
    and ord: "\<And>xs. mset (ld_order db xs) = mset xs"
  defines "ms \<equiv> reachable_members env w ''GET'' path g"
  assumes ne: "ms \<noteq> []"
  defines "r \<equiv> fst (group_serve_http env w ''GET'' gname path q s)"
  shows "if rs_status r = 200 then rs_source r = map repo_name ms \<and> tags_reply r = page_of (group_tags w ms img) q
      else rs_status r = 500 \<and> (\<exists>i. ld_search_fails db i)"
proof -
  have names: "group_member_names (Some g) \<noteq> []"
    using ne by (auto simp: ms_def reachable_members_def eligible_members_def Let_def List.map_filter_def split: option.splits)
  obtain rule where rule: "group_rule env g = Some rule" using ne by (auto simp: ms_def reachable_members_def split: option.splits)
  let ?el = "eligible_members env w g (group_member_names (Some g))" and ?mq = "oci_member_query path q"
  let ?f = "\<lambda>m. handle_tags_list db w ''GET'' (repo_name m) ?mq img"
  note k = tags_kind [OF p(2)]
  have ms: "ms = filter (may_collect env rule path) ?el" by (simp add: ms_def reachable_members_def rule may_collect_def [abs_def])
  have src: "mg_source oci_merger path = Some path" by (simp add: k(2))
  have serve: "group_serve_http env w ''GET'' gname path q s = serve_merged_index env oci_merger ''GET'' rule ?el (repo_name g) path path q s"
    using serve_get_index [OF g(1,2) src rule names, of q "''GET''" s] p(1) by (simp add: group_serve_http_def)
  let ?mg = "oci_merger :: (any_val, 's) merger"
  obtain res asked s1 where c: "collect_parts env oci_merger ''GET'' rule path ?mq False ?el s = (res, asked, s1)"
    by (cases "collect_parts env oci_merger ''GET'' rule path ?mq False ?el s")
  have hf: "hosted_first ?el" using eligible_hosted_first [of "\<lambda>_. True" env w g "group_member_names (Some g)"] by simp
  obtain as where as: "set as \<subseteq> set ?el" "collected ?mg path as (answers env ''GET'' path ?mq as s) res"
    "(\<forall>b. \<not> mg_claims ?mg path b) \<and> \<not> False \<and> \<not> isl res \<longrightarrow> as = filter (may_collect env rule path) ?el"
    using collect_parts_facts [OF c hf] by (elim exE conjE) (rule that; assumption)
  have an: "answers env ''GET'' path ?mq xs s = map ?f xs" for xs by (rule answers_tags [OF g(3) p(2)])
  show ?thesis
  proof (cases res)
    case (Inl nr)
    obtain n r0 where nr: "nr = (n, r0)" by (cases nr)
    have l: "as \<noteq> []" "r0 = last (map ?f as)" "\<not> is_success (rs_status r0)" using as(2) by (auto simp: collected_def Inl nr an)
    have r0: "r0 = ?f (last as)" using l(1,2) by (simp add: last_map)
    have "r = r0\<lparr> rs_source := [n] \<rparr>"
      using c by (simp add: r_def serve serve_merged_index_def Inl nr)
    then have "rs_status r = rs_status r0" by simp
    moreover have "rs_status r0 = 500" using l(3) handle_tags_status [of db w "repo_name (last as)" ?mq img] r0 by (auto simp: is_success_def)
    moreover have "\<exists>i. ld_search_fails db i"
    proof (rule ccontr)
      assume "\<not> (\<exists>i. ld_search_fails db i)"
      then have "rs_status r0 = 200" using handle_tags_ok [of db img w "repo_name (last as)" ?mq] ord p(3) r0 by (simp split: prod.split)
      then show False using \<open>rs_status r0 = 500\<close> by simp
    qed
    ultimately show ?thesis by simp
  next
    case (Inr parts)
    have am: "as = ms" using as(3) Inr ms by simp
    have ok: "rs_status (?f m) = 200" if "m \<in> set ms" for m
      using as(2) handle_tags_status [of db w "repo_name m" ?mq img] that
      by (auto simp: collected_def Inr an am oci_member_failure_is_fatal_def k(2) is_success_def)
    have body: "rs_body (?f m) = Some (VMap [(''name'', VStr img), (''tags'', json_list (sort (image_tags w (repo_name m) img)))])" if "m \<in> set ms" for m
      using handle_tags_200 [OF ok [OF that] ord p(3)] page_of_whole member_query_paging [OF k(3), of q] by (simp split: prod.split)
    have "parts = parts_of ms (map ?f ms)" using as(2) by (simp add: collected_def Inr an am)
    also have "\<dots> = map (\<lambda>m. \<lparr> gp_member = repo_name m, gp_body = rs_body (?f m) \<rparr>) (filter (\<lambda>m. is_success (rs_status (?f m))) ms)"
      by (rule parts_of_map)
    also have "filter (\<lambda>m. is_success (rs_status (?f m))) ms = ms" using ok by (simp add: filter_id_conv is_success_def)
    also have "map (\<lambda>m. \<lparr> gp_member = repo_name m, gp_body = rs_body (?f m) \<rparr>) ms = map (\<lambda>m. tag_part img (repo_name m) (sort (image_tags w (repo_name m) img))) ms"
      using body by (simp add: tag_part_def)
    finally have parts: "parts = map (\<lambda>m. tag_part img (repo_name m) (sort (image_tags w (repo_name m) img))) ms" .
    have mem: "map gp_member parts = map repo_name ms" by (simp add: parts tag_part_def comp_def)
    have merged: "oci_merge_index path parts = Some (VMap [(''name'', VStr img), (''tags'', json_list (group_tags w ms img))])"
      unfolding oci_merge_index_def k(1) parts by (simp add: merge_tag_lists_def merge_group_tags)
    obtain page link where pg: "page_of (group_tags w ms img) q = (page, link)" by (cases "page_of (group_tags w ms img) q")
    have paged: "oci_page_index q path (VMap [(''name'', VStr img), (''tags'', json_list (group_tags w ms img))]) =
        Some (VMap [(''name'', VStr img), (''tags'', json_list page)], link)"
      using k(3) by (simp add: oci_page_index_def k(1) paginated_def Let_def unmarshal_tags pg)
    have "parts \<noteq> []" using ne parts by simp
    then have "r = \<lparr> rs_status = 200, rs_link = link, rs_source = map repo_name ms, rs_body = Some (VMap [(''name'', VStr img), (''tags'', json_list page)]) \<rparr>"
      using c by (simp add: r_def serve serve_merged_index_def merge_index_parts_def Inr merged paged mem)
    then show ?thesis by (simp add: tags_reply_def unmarshal_tags pg)
  qed
qed

lemma group_tags_walk:
  assumes g: "repos_get w gname = Some g" "ge_merger env (repo_fmt g) = Some oci_merger" "ge_call env = oci_call db w other"
    and p: "\<not> isl (canonical_path path)" "oci_dispatch path = Oq_Tags img" "backslash \<notin> set img"
    and ord: "\<And>xs. mset (ld_order db xs) = mset xs"
  defines "ms \<equiv> reachable_members env w ''GET'' path g"
  assumes ne: "ms \<noteq> []" and nf: "\<And>i. \<not> ld_search_fails db i" and tags: "[] \<notin> set (group_tags w ms img)"
  shows "walk (Suc (length (group_tags w ms img))) (\<lambda>q. tags_reply (fst (group_serve_http env w ''GET'' gname path q s))) q =
    Some (after (query_get q ''last'') (group_tags w ms img))"
proof -
  have "tags_reply (fst (group_serve_http env w ''GET'' gname path q s)) = page_of (group_tags w ms img) q" for q
    using group_tags_reply [OF g p ord ne [unfolded ms_def], of q s] nf by (auto simp: ms_def split: if_splits)
  then have eq: "(\<lambda>q. tags_reply (fst (group_serve_http env w ''GET'' gname path q s))) = page_of (group_tags w ms img)" by (rule ext)
  have "length (after (query_get q ''last'') (group_tags w ms img)) < Suc (length (group_tags w ms img))"
    by (simp add: after_def le_imp_less_Suc)
  then show ?thesis unfolding eq using tags by (intro walk_after) (simp_all add: group_tags_def)
qed


section \<open>An example\<close>

definition demo_image :: "string \<Rightarrow> string \<Rightarrow> string \<Rightarrow> component" where
  "demo_image rid name version =
     \<lparr> comp_id = rid @ name @ version, comp_repository_id = rid, comp_repository = rid, comp_format = ''docker'', comp_group = [],
       comp_name = name, comp_version = version, comp_tags = [], comp_extra = None, comp_last_downloaded = None,
       comp_download_count = 0, comp_created_at = 0 \<rparr>"

definition demo_registry :: "unit store_world" where
  "demo_registry = (demo_group_world [])\<lparr>
     sw_repos := map (\<lambda>r. r\<lparr> repo_fmt := ''docker'' \<rparr>) (sw_repos (demo_group_world [])),
     sw_comps := [demo_image ''own'' ''app'' ''v2'', demo_image ''own'' ''app'' ''sha256:00'', demo_image ''own'' ''app-extra'' ''v9'',
                  demo_image ''up'' ''app'' ''v1'', demo_image ''up'' ''app'' ''v2'', demo_image ''other'' ''app'' ''v7''] \<rparr>"

definition demo_lists :: list_db where
  "demo_lists = \<lparr> ld_order = (\<lambda>xs. xs), ld_search_fails = (\<lambda>_. False), ld_catalog_fails = False \<rparr>"

definition demo_registry_env :: "(string \<Rightarrow> bool) \<Rightarrow> (any_val, unit) group_env" where
  "demo_registry_env fails =
     \<lparr> ge_rx = (\<lambda>_. None), ge_cache = Map.empty, ge_rules = None, ge_handler = (\<lambda>_. True), ge_merger = (\<lambda>_. Some oci_merger),
       ge_call = oci_call demo_lists demo_registry (\<lambda>_ _ _ _ s. (status_only 404, s)), ge_lookup_fails = fails \<rparr>"

definition demo_tags_request :: web_query where
  "demo_tags_request = \<lparr> wq_pairs = [(''n'', ''1'')], wq_bad = False \<rparr>"


text \<open>
  A member whose lookup fails is left out without an error: the list is served short although the merger is
  strict.
\<close>

lemma failed_lookup_shortens:
  "tags_reply (fst (group_serve_http (demo_registry_env (\<lambda>n. n = ''up'')) demo_registry ''GET'' ''all'' ''/v2/app/tags/list'' no_query ())) = ([''v2''], None)"
  "rs_status (fst (group_serve_http (demo_registry_env (\<lambda>n. n = ''up'')) demo_registry ''GET'' ''all'' ''/v2/app/tags/list'' no_query ())) = 200"
  by code_simp+

end
