(* ===== verification/Table_Refs.thy ===== *)
theory Table_Refs
  imports Repo_Admin_Contract Cleanup_Safety Blob_Gc "HOL-Library.Sublist"
begin

text \<open>
  The references between the tables: assets refer to components of their own repository and to stores of the
  table of stores. An upload may add references, everything else only takes rows away (\<open>shrinks\<close>); so the
  preconditions of garbage collection and of the deletion of repositories hold in every state.
\<close>

section \<open>Sound references\<close>

definition asset_refs :: "'b store_world \<Rightarrow> (string \<times> string \<times> string) set" where
  "asset_refs w = (\<lambda>a. (asset_component_id a, asset_repository_id a, asset_blob_store_id a)) ` set (sw_assets w)"

definition comp_refs :: "'b store_world \<Rightarrow> (string \<times> string) set" where
  "comp_refs w = (\<lambda>c. (comp_id c, comp_repository_id c)) ` set (sw_comps w)"

text \<open>
  An id of a component names one repository, that of its assets; every asset belongs to a repository of the
  table and lies on a store of the table; ids to come are not in use.
\<close>

definition refs_ok :: "'b store_world \<Rightarrow> bool" where
  "refs_ok w \<longleftrightarrow>
     (\<forall>i r r'. (i, r) \<in> comp_refs w \<longrightarrow> (i, r') \<in> comp_refs w \<longrightarrow> r = r') \<and>
     (\<forall>i r r' s. (i, r, s) \<in> asset_refs w \<longrightarrow> (i, r') \<in> comp_refs w \<longrightarrow> r = r') \<and>
     (\<forall>i r s. (i, r, s) \<in> asset_refs w \<longrightarrow> s = [] \<or> s \<in> set (map bs_id (sw_stores w))) \<and>
     (\<forall>i r s. (i, r, s) \<in> asset_refs w \<longrightarrow> r \<in> set (map repo_id (sw_repos w))) \<and>
     (\<forall>n. sw_next w \<le> n \<longrightarrow> ''repo-'' @ itoa (int n) \<notin> set (map repo_id (sw_repos w))) \<and>
     (\<forall>n r s. sw_next w \<le> n \<longrightarrow> (''id-'' @ itoa (int n), r) \<notin> comp_refs w \<and> (''id-'' @ itoa (int n), r, s) \<notin> asset_refs w)"

lemma refs_okD:
  assumes "refs_ok w"
  shows "(i, r) \<in> comp_refs w \<Longrightarrow> (i, r') \<in> comp_refs w \<Longrightarrow> r = r'"
    "(i, r, s) \<in> asset_refs w \<Longrightarrow> (i, r') \<in> comp_refs w \<Longrightarrow> r = r'"
    "(i, r, s) \<in> asset_refs w \<Longrightarrow> s = [] \<or> s \<in> set (map bs_id (sw_stores w))"
    "sw_next w \<le> n \<Longrightarrow> (''id-'' @ itoa (int n), r) \<notin> comp_refs w"
    "sw_next w \<le> n \<Longrightarrow> (''id-'' @ itoa (int n), r, s) \<notin> asset_refs w"
    "(i, r, s) \<in> asset_refs w \<Longrightarrow> r \<in> set (map repo_id (sw_repos w))"
    "sw_next w \<le> n \<Longrightarrow> ''repo-'' @ itoa (int n) \<notin> set (map repo_id (sw_repos w))"
  using assms unfolding refs_ok_def by metis+

lemma asset_refsI: "a \<in> set (sw_assets w) \<Longrightarrow> (asset_component_id a, asset_repository_id a, asset_blob_store_id a) \<in> asset_refs w"
  unfolding asset_refs_def by (rule imageI)

lemma comp_refsI: "c \<in> set (sw_comps w) \<Longrightarrow> (comp_id c, comp_repository_id c) \<in> comp_refs w"
  unfolding comp_refs_def by (rule imageI)

lemma refs_aligned:
  assumes "refs_ok w"
  shows "comps_aligned w"
  unfolding comps_aligned_def
proof (intro ballI impI)
  fix a c assume m: "a \<in> set (sw_assets w)" "c \<in> set (sw_comps w)" and e: "comp_id c = asset_component_id a"
  show "comp_repository_id c = asset_repository_id a"
    using refs_okD(2) [OF assms asset_refsI [OF m(1)]] comp_refsI [OF m(2)] e by metis
qed

text \<open>Every store of the table has an id and a known physical namespace.\<close>

definition stores_known :: "'b store_env \<Rightarrow> 'b store_world \<Rightarrow> bool" where
  "stores_known env w \<longleftrightarrow>
     se_registry_on env \<and>
     (\<forall>d \<in> set (map descriptor_of (sw_stores w)). trim_space (bd_id d) \<noteq> [] \<and> physical_store_identity (se_azure_url env) d \<noteq> [])"

lemma refs_placed:
  assumes "refs_ok w" "stores_known env w"
  shows "rows_placed env w"
proof -
  have "asset_blob_store_id a = [] \<or> (\<exists>b \<in> set (sw_stores w). bs_id b = asset_blob_store_id a)" if "a \<in> set (sw_assets w)" for a
    using refs_okD(3) [OF assms(1) asset_refsI [OF that]] by auto
  moreover have "trim_space (bs_id b) \<noteq> [] \<and> identity_of env b \<noteq> []" if "b \<in> set (sw_stores w)" for b
    using assms(2) that by (simp add: stores_known_def identity_of_def descriptor_of_def)
  ultimately show ?thesis using assms(2) by (simp add: rows_placed_def stores_known_def)
qed

section \<open>Steps that add no reference\<close>

definition row_keys :: "'b store_world \<Rightarrow> (string \<times> string \<times> string \<times> string) list" where
  "row_keys w = map (\<lambda>a. (asset_id a, asset_repository a, asset_path a, asset_repository_id a)) (sw_assets w)"

definition shrinks :: "'b store_env \<Rightarrow> 'b store_world \<Rightarrow> 'b store_world \<Rightarrow> bool" where
  "shrinks env w w' \<longleftrightarrow>
     asset_refs w' \<subseteq> asset_refs w \<and> comp_refs w' \<subseteq> comp_refs w \<and> subseq (row_keys w') (row_keys w) \<and> sw_next w \<le> sw_next w' \<and>
     map descriptor_of (sw_stores w') = map descriptor_of (sw_stores w) \<and> map bs_name (sw_stores w') = map bs_name (sw_stores w) \<and>
     sw_repos w' = sw_repos w \<and> (tables_ok w \<longrightarrow> registry_ok env w \<longrightarrow> registry_ok env w')"

lemma shrinks_refl [simp]: "shrinks env w w"
  by (simp add: shrinks_def)

lemma descriptor_ids:
  assumes "map descriptor_of xs = map descriptor_of ys"
  shows "map bs_id xs = map bs_id ys"
proof -
  have f: "map bs_id zs = map bd_id (map descriptor_of zs)" for zs by (simp add: descriptor_of_def)
  show ?thesis unfolding f assms by (rule refl)
qed

lemma tables_ok_keys:
  "tables_ok w \<longleftrightarrow>
     distinct (map fst (row_keys w)) \<and> [] \<notin> set (map fst (row_keys w)) \<and>
     (\<forall>n \<ge> sw_next w. ''id-'' @ itoa (int n) \<notin> set (map fst (row_keys w))) \<and>
     distinct (map (\<lambda>k. (fst (snd k), fst (snd (snd k)))) (row_keys w)) \<and>
     (\<forall>r \<in> set (sw_repos w). \<forall>k \<in> set (row_keys w). repo_id r = snd (snd (snd k)) \<longleftrightarrow> repo_name r = fst (snd k)) \<and>
     (\<forall>r \<in> set (sw_repos w). \<forall>r' \<in> set (sw_repos w). repo_id r = repo_id r' \<longleftrightarrow> repo_name r = repo_name r') \<and>
     distinct (map bs_id (sw_stores w)) \<and> [] \<notin> set (map bs_id (sw_stores w)) \<and> distinct (map bs_name (sw_stores w))"
  by (simp add: tables_ok_def row_keys_def comp_def)

lemma subseq_set: "subseq xs ys \<Longrightarrow> x \<in> set xs \<Longrightarrow> x \<in> set ys"
  by (rule list_emb_set [of "(=)" xs ys x]) simp_all

lemma subseq_distinct: "subseq xs ys \<Longrightarrow> distinct ys \<Longrightarrow> distinct xs"
proof (induction xs ys rule: list_emb.induct)
  case (list_emb_Cons2 x y xs ys)
  then have "x \<notin> set ys" by simp
  then have "x \<notin> set xs" using subseq_set [OF list_emb_Cons2.hyps(2), of x] by blast
  then show ?case using list_emb_Cons2 by simp
qed simp_all

lemma shrinks_tables:
  assumes "shrinks env w w'" "tables_ok w"
  shows "tables_ok w'"
proof -
  have sub: "subseq (row_keys w') (row_keys w)" and e: "sw_repos w' = sw_repos w" "map bs_id (sw_stores w') = map bs_id (sw_stores w)"
    "map bs_name (sw_stores w') = map bs_name (sw_stores w)" and n: "sw_next w \<le> sw_next w'"
    using assms(1) descriptor_ids [of "sw_stores w'" "sw_stores w"] unfolding shrinks_def by blast+
  have k: "k \<in> set (row_keys w') \<Longrightarrow> k \<in> set (row_keys w)" for k by (rule subseq_set [OF sub])
  have i: "i \<in> set (map fst (row_keys w')) \<Longrightarrow> i \<in> set (map fst (row_keys w))" for i by (rule subseq_set [OF subseq_map [OF sub]])
  note t = assms(2) [unfolded tables_ok_keys]
  have "distinct (map fst (row_keys w'))" by (rule subseq_distinct [OF subseq_map [OF sub]]) (use t in blast)
  moreover have "distinct (map (\<lambda>k. (fst (snd k), fst (snd (snd k)))) (row_keys w'))"
    by (rule subseq_distinct [OF subseq_map [OF sub]]) (use t in blast)
  moreover have "[] \<notin> set (map fst (row_keys w'))" using i t by blast
  moreover have "\<forall>m \<ge> sw_next w'. ''id-'' @ itoa (int m) \<notin> set (map fst (row_keys w'))" using i t n by (meson order_trans)
  moreover have "\<forall>r \<in> set (sw_repos w). \<forall>k \<in> set (row_keys w'). repo_id r = snd (snd (snd k)) \<longleftrightarrow> repo_name r = fst (snd k)" using k t by blast
  ultimately show ?thesis unfolding tables_ok_keys e using t by blast
qed

lemma shrinks_trans [trans]: "shrinks env w w1 \<Longrightarrow> shrinks env w1 w2 \<Longrightarrow> shrinks env w w2"
  using shrinks_tables [of env w w1] by (auto simp: shrinks_def intro: subseq_order.trans)

lemma shrinks_refs:
  assumes "shrinks env w w'" "refs_ok w"
  shows "refs_ok w'"
proof -
  have ids: "map bs_id (sw_stores w') = map bs_id (sw_stores w)" using assms(1) by (intro descriptor_ids) (simp add: shrinks_def)
  have a: "x \<in> asset_refs w' \<Longrightarrow> x \<in> asset_refs w" for x using assms(1) unfolding shrinks_def by blast
  have c: "x \<in> comp_refs w' \<Longrightarrow> x \<in> comp_refs w" for x using assms(1) unfolding shrinks_def by blast
  have n: "sw_next w' \<le> n \<Longrightarrow> sw_next w \<le> n" for n using assms(1) by (simp add: shrinks_def)
  have rp: "sw_repos w' = sw_repos w" using assms(1) by (simp add: shrinks_def)
  show ?thesis
    unfolding refs_ok_def ids rp
  proof (intro conjI allI impI notI)
    fix i r r' s
    show "(i, r) \<in> comp_refs w' \<Longrightarrow> (i, r') \<in> comp_refs w' \<Longrightarrow> r = r'" by (rule refs_okD(1) [OF assms(2) c c])
    show "(i, r, s) \<in> asset_refs w' \<Longrightarrow> (i, r') \<in> comp_refs w' \<Longrightarrow> r = r'" by (rule refs_okD(2) [OF assms(2) a c])
    show "(i, r, s) \<in> asset_refs w' \<Longrightarrow> s = [] \<or> s \<in> set (map bs_id (sw_stores w))" by (rule refs_okD(3) [OF assms(2) a])
    show "(i, r, s) \<in> asset_refs w' \<Longrightarrow> r \<in> set (map repo_id (sw_repos w))" by (rule refs_okD(6) [OF assms(2) a])
    fix m assume "sw_next w' \<le> m"
    note f = refs_okD(4,5,7) [OF assms(2) n [OF this]]
    show "''repo-'' @ itoa (int m) \<in> set (map repo_id (sw_repos w)) \<Longrightarrow> False" by (rule notE [OF f(3)])
    show "(''id-'' @ itoa (int m), r) \<in> comp_refs w' \<Longrightarrow> False" by (rule notE [OF f(1) c])
    show "(''id-'' @ itoa (int m), r, s) \<in> asset_refs w' \<Longrightarrow> False" by (rule notE [OF f(2) a])
  qed
qed

lemma shrinks_known: "shrinks env w w' \<Longrightarrow> stores_known env w' = stores_known env w"
  by (simp add: shrinks_def stores_known_def)

text \<open>The elementary updates.\<close>

lemma shrinks_fields:
  "sw_registry w' = sw_registry w \<Longrightarrow> sw_assets w' = sw_assets w \<Longrightarrow> sw_comps w' = sw_comps w \<Longrightarrow> sw_stores w' = sw_stores w \<Longrightarrow> sw_next w' = sw_next w \<Longrightarrow> sw_repos w' = sw_repos w \<Longrightarrow>
   shrinks env w w'"
  by (simp add: shrinks_def asset_refs_def comp_refs_def row_keys_def registry_ok_def)

lemma shrinks_assets: "shrinks env w (w\<lparr> sw_assets := filter P (sw_assets w) \<rparr>)"
  by (auto simp: shrinks_def asset_refs_def comp_refs_def row_keys_def registry_ok_def intro!: subseq_map)

lemma shrinks_registry: "registry_step env w w' \<Longrightarrow> shrinks env w w'"
  using registry_step_ok [of env w w']
  by (simp add: shrinks_def asset_refs_def comp_refs_def row_keys_def registry_step_fields)

lemma shrinks_used: "shrinks env w (update_used_bytes w n d)"
  using same_layout_registry_ok [OF update_used_bytes_layout(1), of env w n d]
  by (auto simp: shrinks_def update_used_bytes_def asset_refs_def comp_refs_def descriptor_of_def row_keys_def)

lemma shrinks_phys: "shrinks env w (snd (phys_delete env p k w))" "shrinks env w (snd (phys_put env p k b n w))"
  by (auto simp: phys_delete_def phys_put_def Let_def intro: shrinks_fields)

lemma shrinks_decrement: "shrinks env w (decrement_usage w a)"
  by (auto simp: decrement_usage_def shrinks_used split: option.split)

lemma shrinks_orphans: "shrinks env w (delete_orphans w rn)"
  by (auto simp: delete_orphans_def shrinks_def asset_refs_def comp_refs_def row_keys_def registry_ok_def)

lemma shrinks_orphans_of: "shrinks env w (delete_orphans_of names w)"
  unfolding delete_orphans_of_def
proof (induction names arbitrary: w)
  case (Cons n ns)
  show ?case using shrinks_trans [OF shrinks_orphans Cons.IH] by simp
qed simp

text \<open>Resolving a store of the table keeps the cache of instances in step with the table.\<close>

lemma registry_get_ok:
  assumes g: "registry_get (se_azure_url env) (se_reachable env) (sw_registry w) (descriptor_of b) = (o1, r)"
    and b: "b \<in> set (sw_stores w)" and ok: "tables_ok w" "registry_ok env w"
  shows "registry_ok env (w\<lparr> sw_registry := r \<rparr>)"
  unfolding registry_ok_def
proof (intro ballI allI impI)
  fix x i
  assume x: "x \<in> set (sw_stores (w\<lparr> sw_registry := r \<rparr>))" "rg_instances (sw_registry (w\<lparr> sw_registry := r \<rparr>)) (bs_id x) = Some i"
  then have m: "x \<in> set (sw_stores w)" "rg_instances r (bs_id x) = Some i" by simp_all
  have old: "j = physical_store_identity (se_azure_url env) (descriptor_of x)" if "rg_instances (sw_registry w) (bs_id x) = Some j" for j
    using ok(2) m(1) that unfolding registry_ok_def by blast
  show "i = physical_store_identity (se_azure_url env) (descriptor_of x)"
    using registry_get_fresh(3) [OF g]
  proof
    assume "rg_instances r = rg_instances (sw_registry w)"
    then show ?thesis using old m(2) by simp
  next
    assume e: "rg_instances r = (rg_instances (sw_registry w))(bs_id b \<mapsto> physical_store_identity (se_azure_url env) (descriptor_of b))"
    show ?thesis
    proof (cases "bs_id x = bs_id b")
      case True
      then have "x = b" using tables_ok_stores(3) [OF ok(1) m(1) b] by blast
      then show ?thesis using e m(2) by simp
    next
      case False
      then show ?thesis using e m(2) old by simp
    qed
  qed
qed

lemma shrinks_resolved:
  assumes g: "registry_get (se_azure_url env) (se_reachable env) (sw_registry w) d = (o1, r)"
    and d: "d \<in> descriptor_of ` set (sw_stores w)"
  shows "shrinks env w (w\<lparr> sw_registry := r \<rparr>)"
proof -
  obtain b where b: "d = descriptor_of b" "b \<in> set (sw_stores w)" using d by blast
  show ?thesis
    using registry_get_ok [OF g [unfolded b(1)] b(2)] by (simp add: shrinks_def asset_refs_def comp_refs_def row_keys_def)
qed

lemma shrinks_lock:
  assumes "\<And>v. shrinks env v (snd (f v))"
  shows "shrinks env w (snd (with_lock k f w))"
proof -
  obtain r v where f: "f w = (r, v)" by (cases "f w")
  then have "shrinks env w v" using assms [of w] by simp
  then show ?thesis by (cases r) (simp_all add: with_lock_def f)
qed

section \<open>The operations\<close>

lemma physical_store_shrinks:
  assumes "\<And>b. ob = Some b \<Longrightarrow> b \<in> set (sw_stores w)"
  shows "shrinks env w (snd (physical_store env w ob))"
proof (cases ob)
  case (Some b)
  obtain o1 r where g: "registry_get (se_azure_url env) (se_reachable env) (sw_registry w) (descriptor_of b) = (o1, r)"
    by (cases "registry_get (se_azure_url env) (se_reachable env) (sw_registry w) (descriptor_of b)")
  then show ?thesis using shrinks_resolved [OF g] assms Some by (simp add: physical_store_def split: option.split)
qed (simp add: physical_store_def)

lemma stores_by_id_mem: "stores_by_id w k i = Some b \<Longrightarrow> b \<in> set (sw_stores w)"
  by (auto simp: stores_by_id_def dest!: find_mem split: if_splits)

lemma asset_physical_store_shrinks: "shrinks env w (snd (asset_physical_store env w a))"
  by (auto simp: asset_physical_store_def intro!: physical_store_shrinks dest: stores_by_id_mem split: option.split)

lemma read_asset_shrinks: "shrinks env w (snd (read_asset env a w))"
proof -
  obtain p v where p: "(if asset_blob_store_id a = [] then (Inr (default_space w), w)
      else case stores_by_id w 14 (asset_blob_store_id a) of None \<Rightarrow> (Inl Pe_Db, w) | Some b \<Rightarrow> physical_store env w (Some b)) = (p, v)"
    by (metis surj_pair)
  then have "shrinks env w v"
    using physical_store_shrinks [of "stores_by_id w 14 (asset_blob_store_id a)" w env] stores_by_id_mem
    by (auto split: if_splits option.splits)
  then show ?thesis unfolding read_asset_def p by (auto split: sum.split)
qed

lemma store_for_asset_shrinks: "shrinks env w (snd (store_for_asset env a w))"
  by (auto simp: store_for_asset_def intro!: shrinks_resolved dest: stores_by_id_mem split: option.split prod.split)

lemma cleanup_read_shrinks: "shrinks env w (snd (cleanup_read env a w))"
  using store_for_asset_shrinks [of env w a] by (auto simp: cleanup_read_def split: prod.split sum.split)

lemma delete_locked_shrinks: "shrinks env w (snd (delete_locked_asset env rn path a p w))"
proof -
  obtain ok v where d: "assets_delete w (asset_id a) = (ok, v)" by (cases "assets_delete w (asset_id a)")
  then have v: "shrinks env w v" by (auto simp: assets_delete_def shrinks_assets split: if_splits)
  note shrinks_trans [OF v shrinks_phys(1), of p "asset_blob_key a"]
  with v show ?thesis
    by (simp add: delete_locked_asset_def d Let_def split: sum.split option.split bool.split)
qed

lemma delete_artifact_shrinks: "shrinks env w (snd (delete_artifact env w rn path))"
proof (cases "assets_by_path w 5 rn path")
  case (Inr o1)
  show ?thesis
  proof (cases o1)
    case (Some a)
    obtain r1 w1 where p: "asset_physical_store env w a = (r1, w1)" by (cases "asset_physical_store env w a")
    have s1: "shrinks env w w1" using asset_physical_store_shrinks [of env w a] p by simp
    show ?thesis
    proof (cases r1)
      case q: (Inr q)
      obtain r2 w2 where l: "with_lock (asset_blob_key a) (delete_locked_asset env rn path a q) w1 = (r2, w2)"
        by (cases "with_lock (asset_blob_key a) (delete_locked_asset env rn path a q) w1")
      have s2: "shrinks env w w2"
        using shrinks_trans [OF s1] shrinks_lock [of env "delete_locked_asset env rn path a q", OF delete_locked_shrinks] l by (metis snd_conv)
      have ev: "shrinks env w (v\<lparr> sw_events := e \<rparr>)" if "shrinks env w v" for v e
        by (rule shrinks_trans [OF that shrinks_fields]) simp_all
      show ?thesis
        using Inr Some p q l s2 ev [OF s2] ev [OF shrinks_trans [OF s2 shrinks_decrement]]
        by (auto simp: delete_artifact_def Let_def split: sum.split prod.split)
    qed (use Inr Some p s1 in \<open>simp add: delete_artifact_def\<close>)
  qed (use Inr in \<open>simp add: delete_artifact_def\<close>)
qed (simp add: delete_artifact_def)

lemma fetch_artifact_shrinks: "shrinks env w (snd (fetch_artifact env w rn path))"
proof -
  have ev: "shrinks env w (v\<lparr> sw_downloads := e \<rparr>)" if "shrinks env w v" for v e
    by (rule shrinks_trans [OF that shrinks_fields]) simp_all
  have "shrinks env w v" if "asset_physical_store env w a = (r, v)" for r v a
    using asset_physical_store_shrinks [of env w a] that by simp
  then show ?thesis using ev by (auto simp: fetch_artifact_def split: sum.split option.split prod.split)
qed

text \<open>Garbage collection.\<close>

lemma gc_loop_shrinks: "shrinks env w (snd (snd (gc_loop env clk ix sid pid p m dry deadline n es (r, f, w))))"
proof (induction es arbitrary: n r f w)
  case (Cons e es)
  obtain x v where d: "phys_delete env p (be_key e) w = (x, v)" by (cases "phys_delete env p (be_key e) w")
  have v: "shrinks env w v" using shrinks_phys(1) [of env w p "be_key e"] d by simp
  have u: "shrinks env w v'" if "shrinks env v v'" for v' by (rule shrinks_trans [OF v that])
  show ?case
    by (cases dry; cases x) (use Cons.IH u [OF Cons.IH] in \<open>simp_all add: d Let_def\<close>)
qed simp

lemma gc_compact_shrinks: "shrinks env w (snd (gc_compact env clk dma name sid pid p ix opts deadline w))"
proof (cases "bo_list_entries (se_ops env) (sw_phys w p)")
  case (Inr es)
  obtain r f v where l: "gc_loop env clk ix sid pid p (gc_min_age opts dma) (go_dry_run opts) deadline 0 es
      (\<lparr> gr_store = name, gr_scanned = length es, gr_orphans = 0, gr_freed = 0, gr_dry = go_dry_run opts, gr_errors = [], gr_aborted = False \<rparr>, 0, w) = (r, f, v)"
    by (metis surj_pair)
  have v: "shrinks env w v" using gc_loop_shrinks [of env w clk ix sid pid p "gc_min_age opts dma" "go_dry_run opts" deadline 0 es] l by (metis snd_conv)
  show ?thesis using v shrinks_trans [OF v shrinks_used] by (simp add: gc_compact_unfold Inr l)
qed (simp add: gc_compact_unfold)

lemma compact_rows_shrinks:
  assumes "descriptor_of ` set rows \<subseteq> set (map descriptor_of (sw_stores w))"
  shows "shrinks env w (snd (compact_rows env clks dma ix opts deadline i rows w))"
  using assms
proof (induction rows arbitrary: i w)
  case (Cons row rows)
  have here: "descriptor_of row \<in> descriptor_of ` set (sw_stores w)" using Cons.prems by simp
  have later: "descriptor_of ` set rows \<subseteq> set (map descriptor_of (sw_stores v))" if "shrinks env w v" for v
  proof -
    have "map descriptor_of (sw_stores v) = map descriptor_of (sw_stores w)" using that by (simp add: shrinks_def)
    then show ?thesis using Cons.prems by simp
  qed
  note IH = Cons.IH [OF later]
  show ?case
  proof (cases "bs_type row = ''group''")
    case False
    obtain o1 r' where g: "registry_get (se_azure_url env) (se_reachable env) (sw_registry w) (descriptor_of row) = (o1, r')"
      by (cases "registry_get (se_azure_url env) (se_reachable env) (sw_registry w) (descriptor_of row)")
    note s = shrinks_resolved [OF g here]
    note c = shrinks_trans [OF s gc_compact_shrinks]
    show ?thesis
      using False g shrinks_trans [OF s IH [OF s]] shrinks_trans [OF c IH [OF c]]
      by (cases o1) (simp_all add: Let_def)
  qed (use IH [OF shrinks_refl] in simp)
qed simp

lemma compact_store_shrinks: "shrinks env w (snd (compact_store env clk dma name opts w))"
proof (cases "if sw_fail w S_Blob_Get then None else find (\<lambda>b. bs_name b = name) (sw_stores w)")
  case (Some row)
  then have row: "row \<in> set (sw_stores w)" by (auto dest: find_mem split: if_splits)
  obtain o1 r' where g: "registry_get (se_azure_url env) (se_reachable env) (sw_registry w) (descriptor_of row) = (o1, r')"
    by (cases "registry_get (se_azure_url env) (se_reachable env) (sw_registry w) (descriptor_of row)")
  have s: "shrinks env w (w\<lparr> sw_registry := r' \<rparr>)" by (rule shrinks_resolved [OF g]) (use row in simp)
  show ?thesis
    using Some g s shrinks_trans [OF s gc_compact_shrinks]
    by (auto simp: compact_store_def Let_def split: option.split)
qed (simp add: compact_store_def)

lemma compact_all_shrinks: "shrinks env w (snd (compact_all env clks dma lock now0 opts w))"
  by (auto simp: compact_all_def Let_def intro!: compact_rows_shrinks split: option.split sum.split)

text \<open>Cleanup runs.\<close>

lemma delete_stale_shrinks: "shrinks env w (snd (delete_stale_asset env a w))"
proof -
  obtain ok w1 where d: "delete_if_unchanged w a = (ok, w1)" by (cases "delete_if_unchanged w a")
  have s1: "shrinks env w w1" using d by (auto simp: delete_if_unchanged_def Let_def shrinks_assets split: if_splits)
  obtain p w2 where f: "store_for_asset env a w1 = (p, w2)" by (cases "store_for_asset env a w1")
  have s2: "shrinks env w w2" using store_for_asset_shrinks [of env w1 a] f shrinks_trans [OF s1] by auto
  obtain e w3 where x: "phys_delete env p (asset_blob_key a) w2 = (e, w3)" by (cases "phys_delete env p (asset_blob_key a) w2")
  have s3: "shrinks env w w3" using shrinks_trans [OF s2 shrinks_phys(1), of p "asset_blob_key a"] x by simp
  note s4 = shrinks_trans [OF s3 shrinks_decrement, of a]
  show ?thesis using s1 s3 s4 by (simp add: delete_stale_asset_def delete_stale_locked_def d f x split: option.split)
qed

lemma oci_tag_body_shrinks: "shrinks env w (snd (oci_tag_body env a w))"
  using cleanup_read_shrinks [of env w a]
  by (auto simp: oci_tag_body_def Let_def split: option.split prod.split)

lemma delete_batch_shrinks: "delete_batch env as (d, f, tags, w) = (d', f', tags', w') \<Longrightarrow> shrinks env w w'"
proof (induction as arbitrary: d f tags w)
  case (Cons a rest)
  obtain tag w1 where t: "oci_tag_body env a w = (tag, w1)" by (cases "oci_tag_body env a w")
  obtain rd fr w2 where s: "delete_stale_asset env a w1 = ((rd, fr), w2)" by (metis surj_pair)
  have "shrinks env w w2"
    using shrinks_trans [of env w w1 w2] oci_tag_body_shrinks [of env w a] delete_stale_shrinks [of env w1 a] t s by simp
  moreover have "shrinks env w2 w'" using Cons.prems Cons.IH by (auto simp: t s split: if_splits)
  ultimately show ?case by (rule shrinks_trans)
qed simp

lemma cleanup_loop_shrinks:
  "cleanup_loop env q clk deadline n k st = (ab, d', f', tags', w') \<Longrightarrow> shrinks env (snd (snd (snd st))) w'"
proof (induction env q clk deadline n k st rule: cleanup_loop.induct)
  case (1 env q clk deadline n k d f tags w)
  show ?case
  proof (cases "past_deadline (clk n) deadline \<or> list_stale w q batch_limit = None \<or> list_stale w q batch_limit = Some []")
    case True
    then show ?thesis using "1.prems" by (auto simp: cleanup_loop.simps [of env q clk deadline n k] split: if_splits)
  next
    case False
    then obtain stale where l: "list_stale w q batch_limit = Some stale" "stale \<noteq> []" by auto
    obtain d2 f2 tags2 w2 where b: "delete_batch env stale (d, f, tags, w) = (d2, f2, tags2, w2)" by (metis surj_pair)
    note s = delete_batch_shrinks [OF b]
    have ne: "\<not> past_deadline (clk n) deadline" using False by blast
    have "shrinks env w2 w'"
    proof (cases "d2 = d")
      case True
      show ?thesis
      proof (cases "Suc k \<ge> max_no_progress")
        case True
        then show ?thesis using "1.prems" False l b \<open>d2 = d\<close> by (simp add: cleanup_loop.simps [of env q clk deadline n k] Let_def)
      next
        case go: False
        then have "cleanup_loop env q clk deadline (Suc n) (Suc k) (d2, f2, tags2, w2) = (ab, d', f', tags', w')"
          using "1.prems" False l b True by (simp add: cleanup_loop.simps [of env q clk deadline n k] Let_def)
        from "1.IH"(1) [OF ne l(1) l(2) b [symmetric] _ go this] True show ?thesis by simp
      qed
    next
      case ch: False
      then have "cleanup_loop env q clk deadline (Suc n) 0 (d2, f2, tags2, w2) = (ab, d', f', tags', w')"
        using "1.prems" False l b by (simp add: cleanup_loop.simps [of env q clk deadline n k] Let_def)
      from "1.IH"(2) [OF ne l(1) l(2) b [symmetric] _ this] ch show ?thesis by simp
    qed
    then show ?thesis using shrinks_trans [OF s] by simp
  qed
qed

lemma release_paths_shrinks: "release_paths env rn paths (d, f, w) = (d', f', w') \<Longrightarrow> shrinks env w w'"
proof (induction paths arbitrary: d f w)
  case (Cons path rest)
  show ?case
  proof (cases "\<exists>a. assets_by_path w 11 rn path = Inr (Some a)")
    case True
    then obtain a where a: "assets_by_path w 11 rn path = Inr (Some a)" by blast
    obtain ok fr w1 where s: "delete_stale_asset env a w = ((ok, fr), w1)" by (metis surj_pair)
    have "shrinks env w w1" using delete_stale_shrinks [of env w a] s by simp
    moreover have "shrinks env w1 w'" using Cons.prems Cons.IH by (auto simp: a s split: if_splits)
    ultimately show ?thesis by (rule shrinks_trans)
  next
    case False
    then show ?thesis using Cons.prems Cons.IH by (auto split: sum.splits option.splits)
  qed
qed simp

lemma plan_load_shrinks:
  assumes "\<And>a v. shrinks env v (snd (read a v))"
  shows "shrinks env w (snd (plan_load read dec pre listed w))"
proof (induction listed arbitrary: w)
  case (Cons a rest)
  obtain r v where r: "read a w = (r, v)" by (cases "read a w")
  have v: "shrinks env w v" using assms [of w a] r by simp
  note IH = Cons.IH [of v]
  obtain o2 v2 where p: "plan_load read dec pre rest v = (o2, v2)" by (cases "plan_load read dec pre rest v")
  have v2: "shrinks env w v2" using shrinks_trans [OF v IH] p by simp
  show ?case using Cons.IH [of w] v v2 by (auto simp: r p Let_def split: option.split)
qed simp

lemma plan_image_release_shrinks:
  assumes "\<And>a v. shrinks env v (snd (read a v))"
  shows "shrinks env w (snd (plan_image_release read dec rn img ms w))"
proof (cases "list_by_repo_and_path w 1 rn (manifest_path img [])")
  case (Some listed)
  have "shrinks env w (snd (plan_load read dec (manifest_path img []) listed w))" by (rule plan_load_shrinks [OF assms])
  then show ?thesis using Some by (auto simp: plan_image_release_def Let_def split: option.split prod.split)
qed (simp add: plan_image_release_def)

lemma release_images_shrinks: "release_images env dec tags (d, f, w) = (d', f', w') \<Longrightarrow> shrinks env w w'"
proof (induction tags arbitrary: d f w)
  case (Cons x rest)
  obtain key ms where x: "x = (key, ms)" by (cases x)
  obtain ps w1 where p: "plan_image_release (cleanup_read env) dec (fst (cut_key key)) (snd (cut_key key)) ms w = (ps, w1)"
    by (cases "plan_image_release (cleanup_read env) dec (fst (cut_key key)) (snd (cut_key key)) ms w")
  have s1: "shrinks env w w1"
    using plan_image_release_shrinks [of env "cleanup_read env", OF cleanup_read_shrinks] p by (metis snd_conv)
  show ?case
  proof (cases ps)
    case None
    then show ?thesis using Cons.prems Cons.IH shrinks_trans [OF s1] by (simp add: x p)
  next
    case (Some paths)
    obtain d2 f2 w2 where r: "release_paths env (fst (cut_key key)) paths (d, f, w1) = (d2, f2, w2)" by (metis surj_pair)
    note s2 = shrinks_trans [OF s1 release_paths_shrinks [OF r]]
    then show ?thesis using Cons.prems Cons.IH shrinks_trans [OF s2] by (simp add: x p Some r)
  qed
qed simp

lemma run_policy_shrinks:
  assumes "run_policy env dec prune clk deadline p w = (res, w')"
  shows "shrinks env w w'"
  using assms
proof (cases rule: run_policy_cases)
  case (failed names d f tags)
  show ?thesis using cleanup_loop_shrinks [OF failed(5)] by simp
next
  case (ran names ab d f tags w1 d2 f2 w2)
  have s1: "shrinks env w w1" using cleanup_loop_shrinks [OF ran(4)] by simp
  have "shrinks env w1 w2" using ran(5) by (cases ab) (auto dest: release_images_shrinks)
  note s2 = shrinks_trans [OF s1 this]
  show ?thesis using s2 shrinks_trans [OF s2 shrinks_orphans_of] ran(7) by simp
qed simp_all

text \<open>Deleting a manifest.\<close>

lemma delete_paths_shrinks: "delete_paths env rn paths w = (ok, w') \<Longrightarrow> shrinks env w w'"
proof (induction paths arbitrary: w)
  case (Cons path rest)
  obtain r v where d: "delete_artifact env w rn path = (r, v)" by (cases "delete_artifact env w rn path")
  have "shrinks env w v" using delete_artifact_shrinks [of env w rn path] d by simp
  then show ?case using Cons.prems Cons.IH shrinks_trans [of env w v w'] by (auto simp: d split: sum.splits)
qed simp

lemma delete_targets_shrinks: "delete_targets env rn paths released w = (r, w') \<Longrightarrow> shrinks env w w'"
proof (induction paths arbitrary: w released)
  case (Cons path rest)
  show ?case
  proof (cases "\<exists>a. assets_by_path w 10 rn path = Inr (Some a)")
    case True
    then obtain a where a: "assets_by_path w 10 rn path = Inr (Some a)" by blast
    obtain b w1 where rd: "read_asset env a w = (b, w1)" by (cases "read_asset env a w")
    obtain x w2 where d: "delete_artifact env w1 rn path = (x, w2)" by (cases "delete_artifact env w1 rn path")
    have s: "shrinks env w w1" "shrinks env w w2"
      using read_asset_shrinks [of env w a] delete_artifact_shrinks [of env w1 rn path] rd d shrinks_trans [of env w w1 w2] by simp_all
    show ?thesis using Cons.prems Cons.IH s shrinks_trans [OF s(2)] by (auto simp: a rd d split: option.splits sum.splits)
  next
    case False
    then show ?thesis using Cons.prems Cons.IH by (auto split: sum.splits option.splits)
  qed
qed simp

lemma delete_manifest_shrinks: "shrinks env w (snd (delete_manifest env dec rn img ref w))"
proof (cases "CHR '':'' \<in> set ref")
  case False
  have "shrinks env w v" if "delete_artifact env w rn (manifest_path img ref) = (r, v)" for r v
    using delete_artifact_shrinks [of env w rn "manifest_path img ref"] that by simp
  then show ?thesis using False by (auto simp: delete_manifest_def Let_def split: prod.split sum.split)
next
  case True
  show ?thesis
  proof (cases "tags_resolving_to w rn img (trim_prefix ref ''sha256:'')")
    case (Some tags)
    obtain r w1 where t: "delete_targets env rn (tags @ [manifest_path img ref]) [] w = (r, w1)" by (metis surj_pair)
    note s1 = delete_targets_shrinks [OF t]
    have s2: "shrinks env w w2" if "plan_image_release (read_asset env) dec rn img ms w1 = (ps, w2)" for ms ps w2
      using shrinks_trans [OF s1 plan_image_release_shrinks [of env "read_asset env", OF read_asset_shrinks]] that by (metis snd_conv)
    show ?thesis
      using True Some t s1 s2 shrinks_trans [OF s2 delete_paths_shrinks] shrinks_trans [OF shrinks_trans [OF s2 delete_paths_shrinks] shrinks_orphans]
      by (auto simp: delete_manifest_def Let_def split: option.split prod.split bool.split)
  qed (use True in \<open>simp add: delete_manifest_def Let_def\<close>)
qed

section \<open>Uploads\<close>

lemma itoa_inj: "itoa (int m) = itoa (int n) \<longleftrightarrow> m = n"
  using fresh_id_inj by (auto simp: fresh_id_def)

lemma components_create_refs:
  assumes "components_create w c = (Some c', w')" "refs_ok w"
  shows "refs_ok w' \<and> (comp_id c', comp_repository_id c) \<in> comp_refs w' \<and> sw_assets w' = sw_assets w \<and> sw_stores w' = sw_stores w \<and> sw_repos w' = sw_repos w"
proof (cases "find (same_component c) (sw_comps w)")
  case (Some old)
  then have old: "old \<in> set (sw_comps w)" "comp_repository_id old = comp_repository_id c"
    by (auto simp: same_component_def dest!: find_mem)
  obtain e where c': "c' = c\<lparr> comp_id := comp_id old, comp_created_at := comp_created_at old \<rparr>"
    and w': "w' = w\<lparr> sw_comps := map (\<lambda>x. if comp_id x = comp_id old then old\<lparr> comp_extra := e \<rparr> else x) (sw_comps w) \<rparr>"
    using assms(1) Some by (auto simp: components_create_def Let_def split: if_splits)
  have m: "(comp_id old, comp_repository_id old) \<in> comp_refs w" by (rule comp_refsI [OF old(1)])
  have "shrinks undefined w w'" using m unfolding shrinks_def asset_refs_def comp_refs_def w' by (auto simp: row_keys_def registry_ok_def)
  moreover have "(comp_id old, comp_repository_id old) \<in> comp_refs w'"
    unfolding comp_refs_def w' by (rule image_eqI [where x = "old\<lparr> comp_extra := e \<rparr>"]) (use old(1) in auto)
  ultimately show ?thesis using shrinks_refs assms(2) old(2) by (auto simp: c' w')
next
  case None
  let ?i = "fresh_id w"
  define x where "x = c\<lparr> comp_id := ?i, comp_created_at := sw_now w, comp_extra := (case comp_extra c of None \<Rightarrow> Some Map.empty | Some m \<Rightarrow> Some m) \<rparr>"
  have x: "comp_id x = ?i" "comp_repository_id x = comp_repository_id c" by (simp_all add: x_def)
  have w': "w' = w\<lparr> sw_comps := sw_comps w @ [x], sw_next := Suc (sw_next w) \<rparr>" and c': "comp_id c' = ?i"
    using assms(1) None by (auto simp: components_create_def Let_def x_def split: if_splits)
  have cr: "comp_refs w' = insert (?i, comp_repository_id c) (comp_refs w)" and ar: "asset_refs w' = asset_refs w"
    by (simp_all add: comp_refs_def asset_refs_def w' x)
  have new: "(?i, r) \<notin> comp_refs w" "(?i, r, s) \<notin> asset_refs w" for r s
    using refs_okD(4,5) [OF assms(2), of "sw_next w"] by (simp_all add: fresh_id_def)
  have "refs_ok w'"
    unfolding refs_ok_def cr ar
  proof (intro conjI allI impI notI)
    fix i r r' s
    show "r = r'" if "(i, r) \<in> insert (?i, comp_repository_id c) (comp_refs w)" "(i, r') \<in> insert (?i, comp_repository_id c) (comp_refs w)"
      using that new refs_okD(1) [OF assms(2)] by auto
    show "r = r'" if "(i, r, s) \<in> asset_refs w" "(i, r') \<in> insert (?i, comp_repository_id c) (comp_refs w)"
      using that new refs_okD(2) [OF assms(2)] by auto
    show "s = [] \<or> s \<in> set (map bs_id (sw_stores w'))" if "(i, r, s) \<in> asset_refs w"
      using refs_okD(3) [OF assms(2) that] by (simp add: w')
    show "r \<in> set (map repo_id (sw_repos w'))" if "(i, r, s) \<in> asset_refs w"
      using refs_okD(6) [OF assms(2) that] by (simp add: w')
    fix n assume "sw_next w' \<le> n"
    then have n: "sw_next w \<le> n" "n \<noteq> sw_next w" by (simp_all add: w')
    show False if "''repo-'' @ itoa (int n) \<in> set (map repo_id (sw_repos w'))"
      using that refs_okD(7) [OF assms(2) n(1)] by (simp add: w')
    show False if "(''id-'' @ itoa (int n), r) \<in> insert (?i, comp_repository_id c) (comp_refs w)"
      using that refs_okD(4) [OF assms(2) n(1)] n(2) by (simp add: fresh_id_def itoa_inj)
    show False if "(''id-'' @ itoa (int n), r, s) \<in> asset_refs w"
      using that refs_okD(5) [OF assms(2) n(1)] by simp
  qed
  then show ?thesis by (simp add: cr c') (simp add: w')
qed

lemma assets_create_refs:
  assumes "assets_create w a = (o1, w')" "refs_ok w" "(asset_component_id a, asset_repository_id a) \<in> comp_refs w"
    "asset_blob_store_id a \<in> set (map bs_id (sw_stores w))" "asset_repository_id a \<in> set (map repo_id (sw_repos w))"
  shows "refs_ok w' \<and> sw_stores w' = sw_stores w"
proof -
  have put: "refs_ok w' \<and> sw_stores w' = sw_stores w"
    if sub: "\<And>i r s. (i, r, s) \<in> asset_refs w' \<Longrightarrow> (i, r, s) \<in> asset_refs w \<or>
        s = asset_blob_store_id a \<and> ((\<exists>s'. (i, r, s') \<in> asset_refs w) \<or> i = asset_component_id a \<and> r = asset_repository_id a)"
      and same: "comp_refs w' = comp_refs w" "sw_stores w' = sw_stores w" "sw_next w \<le> sw_next w'" "sw_repos w' = sw_repos w"
  proof -
    have "refs_ok w'"
      unfolding refs_ok_def same
    proof (intro conjI allI impI notI)
      fix i r r' s
      show "(i, r) \<in> comp_refs w \<Longrightarrow> (i, r') \<in> comp_refs w \<Longrightarrow> r = r'" by (rule refs_okD(1) [OF assms(2)])
      show "r = r'" if "(i, r, s) \<in> asset_refs w'" "(i, r') \<in> comp_refs w"
        using sub [OF that(1)] refs_okD(1) [OF assms(2,3)] refs_okD(2) [OF assms(2)] that(2) by blast
      show "s = [] \<or> s \<in> set (map bs_id (sw_stores w))" if "(i, r, s) \<in> asset_refs w'"
        using sub [OF that] refs_okD(3) [OF assms(2)] assms(4) by blast
      show "r \<in> set (map repo_id (sw_repos w))" if "(i, r, s) \<in> asset_refs w'"
        using sub [OF that] refs_okD(6) [OF assms(2)] assms(5) by blast
      fix n assume "sw_next w' \<le> n"
      then have n: "sw_next w \<le> n" using same(3) by simp
      show "''repo-'' @ itoa (int n) \<in> set (map repo_id (sw_repos w)) \<Longrightarrow> False" using refs_okD(7) [OF assms(2) n] by blast
      show "(''id-'' @ itoa (int n), r) \<in> comp_refs w \<Longrightarrow> False" using refs_okD(4) [OF assms(2) n] by blast
      show False if "(''id-'' @ itoa (int n), r, s) \<in> asset_refs w'"
        using sub [OF that] refs_okD(4,5) [OF assms(2) n] assms(3) by metis
    qed
    then show ?thesis using same(2) by simp
  qed
  have rep: "asset_component_id (replace_asset a t x) = asset_component_id x" "asset_repository_id (replace_asset a t x) = asset_repository_id x"
    "asset_blob_store_id (replace_asset a t x) = asset_blob_store_id a" for t x
    by (simp_all add: replace_asset_def)
  consider "w' = w"
    | P where "w' = w\<lparr> sw_assets := map (\<lambda>x. if P x then replace_asset a (sw_now w) x else x) (sw_assets w) \<rparr>"
    | a' where "w' = w\<lparr> sw_assets := sw_assets w @ [a'], sw_next := Suc (sw_next w) \<rparr>"
        "asset_component_id a' = asset_component_id a" "asset_repository_id a' = asset_repository_id a" "asset_blob_store_id a' = asset_blob_store_id a"
    using assms(1) by (auto simp: assets_create_def Let_def split: if_splits option.splits)
  then show ?thesis
  proof cases
    case 1
    then show ?thesis using assms(2) by simp
  next
    case 2
    have "(i, r, s) \<in> asset_refs w \<or> s = asset_blob_store_id a \<and> (\<exists>s'. (i, r, s') \<in> asset_refs w)" if m: "(i, r, s) \<in> asset_refs w'" for i r s
    proof -
      obtain x where x: "x \<in> set (sw_assets w)" "(i, r) = (asset_component_id x, asset_repository_id x)"
        "s = asset_blob_store_id x \<or> s = asset_blob_store_id a"
        using m by (auto simp: 2 asset_refs_def rep)
      then show ?thesis using asset_refsI [OF x(1)] by auto
    qed
    then show ?thesis by (intro put) (auto simp: 2 comp_refs_def)
  next
    case 3
    show ?thesis by (rule put) (auto simp: 3 asset_refs_def comp_refs_def)
  qed
qed

text \<open>Steps that keep the references sound and the stores as they are.\<close>

definition keeps_refs :: "'b store_env \<Rightarrow> 'b store_world \<Rightarrow> 'b store_world \<Rightarrow> bool" where
  "keeps_refs env w w' \<longleftrightarrow>
     (refs_ok w \<longrightarrow> refs_ok w') \<and> map descriptor_of (sw_stores w') = map descriptor_of (sw_stores w) \<and> sw_repos w' = sw_repos w \<and>
     (tables_ok w \<longrightarrow> registry_ok env w \<longrightarrow> tables_ok w' \<and> registry_ok env w')"

lemma keeps_refs_refl [simp]: "keeps_refs env w w"
  by (simp add: keeps_refs_def)

lemma keeps_refs_trans: "keeps_refs env w w1 \<Longrightarrow> keeps_refs env w1 w2 \<Longrightarrow> keeps_refs env w w2"
  by (simp add: keeps_refs_def)

lemma shrinks_keeps: "shrinks env w w' \<Longrightarrow> keeps_refs env w w'"
  using shrinks_refs [of env w w'] shrinks_tables [of env w w'] by (auto simp: keeps_refs_def shrinks_def)

lemma keeps_known: "keeps_refs env w w' \<Longrightarrow> stores_known env w' = stores_known env w"
  by (simp add: keeps_refs_def stores_known_def)

lemma keeps_ids: "keeps_refs env w w' \<Longrightarrow> map bs_id (sw_stores w') = map bs_id (sw_stores w)"
  by (rule descriptor_ids) (simp add: keeps_refs_def)

lemma register_locked_refs:
  assumes "register_locked repo sid sname c a prev w = (res, w')"
    "comp_repository_id c = asset_repository_id a" "asset_blob_store_id a \<in> set (map bs_id (sw_stores w))"
    "repo \<in> set (sw_repos w)" "asset_repository_id a = repo_id repo" "asset_repository a = repo_name repo"
  shows "keeps_refs env w w'"
proof -
  obtain o1 w1 where c: "components_create w c = (o1, w1)" by (cases "components_create w c")
  show ?thesis
  proof (cases o1)
    case None
    then have "w1 = w" using c by (auto simp: components_create_def Let_def split: if_splits option.splits)
    then show ?thesis using assms(1) None c by (auto simp: register_locked_def Let_def split: option.splits)
  next
    case (Some c')
    have st1: "sw_stores w1 = sw_stores w" "sw_repos w1 = sw_repos w" using c by (auto simp: components_create_def Let_def split: if_splits option.splits)
    obtain o2 w2 where ac: "assets_create w1 (a\<lparr> asset_component_id := comp_id c' \<rparr>) = (o2, w2)"
      by (cases "assets_create w1 (a\<lparr> asset_component_id := comp_id c' \<rparr>)")
    have st2: "sw_stores w2 = sw_stores w1" "sw_repos w2 = sw_repos w1" using ac by (auto simp: assets_create_def Let_def split: if_splits option.splits)
    have "refs_ok w \<Longrightarrow> refs_ok w2"
      using components_create_refs [OF c [unfolded Some]] assets_create_refs [OF ac] assms(2-5) by simp
    moreover have "w' = w \<or> shrinks env w2 w'"
      using assms(1) shrinks_used [of env w2 sname] by (auto simp: register_locked_def Let_def c Some ac split: option.splits if_splits)
    ultimately have "refs_ok w \<Longrightarrow> refs_ok w'" using shrinks_refs by blast
    moreover have "tables_ok w \<Longrightarrow> tables_ok w' \<and> same_layout w w'"
      using register_locked_cases [OF assms(1) _ assms(4,5,6)] by blast
    moreover have "map descriptor_of (sw_stores w') = map descriptor_of (sw_stores w)" "sw_repos w' = sw_repos w"
      using \<open>w' = w \<or> shrinks env w2 w'\<close> st1 st2 by (auto simp: shrinks_def)
    ultimately show ?thesis using same_layout_registry_ok [of w w' env] by (auto simp: keeps_refs_def)
  qed
qed

lemma register_stored_refs:
  assumes "register_stored_blob env ctx w repo path ct co key sm sz sid sname = (res, w')" "sid \<noteq> []"
    "sid \<in> set (map bs_id (sw_stores w))" "repo \<in> set (sw_repos w)"
  shows "keeps_refs env w w'"
proof -
  let ?a = "asset_for ctx repo path ct sid key sm sz"
  obtain name c prev res1 w1 where run: "register_run repo sid name c ?a prev w = (res1, w1)" and c: "comp_repository_id c = repo_id repo"
    and w': "w' = (case res1 of Inl e \<Rightarrow> w1 | Inr (c', a') \<Rightarrow> queue_for_scanning c' (notify_published ctx repo c' path co w1))"
  proof -
    define name where "name = (if sname = [] then (case stores_by_id w 6 sid of None \<Rightarrow> [] | Some b \<Rightarrow> bs_name b) else sname)"
    define prev where "prev = (case assets_by_path w 3 (repo_name repo) path of Inl _ \<Rightarrow> None | Inr p \<Rightarrow> p)"
    define c0 where "c0 = component_for repo path co"
    define c where "c = (if content_replaced w c0 prev (sm_sha256 sm) then c0\<lparr> comp_extra := Some Map.empty \<rparr> else c0)"
    obtain res1 w1 where run: "register_run repo sid name c ?a prev w = (res1, w1)"
      by (cases "register_run repo sid name c ?a prev w")
    have "(res, w') = (case (res1, w1) of
        (Inl e, w') \<Rightarrow> (Inl e, w')
      | (Inr (c', a'), w') \<Rightarrow> (Inr a', queue_for_scanning c' (notify_published ctx repo c' path co w')))"
      using assms(1,2) unfolding run [symmetric] name_def prev_def c0_def c_def register_stored_blob_def Let_def by simp
    moreover have "comp_repository_id c = repo_id repo" by (simp add: c_def c0_def component_for_def)
    ultimately show thesis using run by (intro that [of name c prev res1 w1]) (auto split: sum.splits prod.splits)
  qed
  obtain res0 w0 where reg: "register_locked repo sid name c ?a prev w = (res0, w0)" by (cases "register_locked repo sid name c ?a prev w")
  have "keeps_refs env w w0" by (rule register_locked_refs [OF reg _ _ assms(4)]) (use c assms(3) in \<open>simp_all add: asset_for_def\<close>)
  moreover have "w1 = w \<or> w1 = w0"
    using register_run_outcome [of repo sid name c ?a prev w] run reg by (auto simp: lock_outcome_def)
  ultimately have k: "keeps_refs env w w1" by auto
  have "shrinks env w1 (queue_for_scanning c' (notify_published ctx repo c' path co w1))" for c'
    by (rule shrinks_fields) (simp_all add: queue_for_scanning_def notify_published_def)
  then show ?thesis using k keeps_refs_trans [OF k shrinks_keeps] w' by (auto split: sum.split)
qed

lemma write_and_register_refs:
  assumes "write_and_register env ctx repo path ct co b declared key sid sname p w = (res, w')" "sid \<noteq> []"
    "sid \<in> set (map bs_id (sw_stores w))" "repo \<in> set (sw_repos w)"
  shows "keeps_refs env w w'"
proof -
  obtain e w1 where put: "phys_put env p key b declared w = (e, w1)" by (cases "phys_put env p key b declared w")
  have k1: "keeps_refs env w w1" using shrinks_keeps [OF shrinks_phys(2), of env w p key b declared] put by simp
  define sz where "sz = recorded_size env w1 p key declared"
  obtain r w2 where reg: "register_stored_blob env ctx w1 repo path ct co key (sums_of env (bd_bytes b)) sz sid sname = (r, w2)"
    by (metis surj_pair)
  have sid1: "sid \<in> set (map bs_id (sw_stores w1))" using assms(3) keeps_ids [OF k1] by simp
  have "repo \<in> set (sw_repos w1)" using assms(4) k1 by (simp add: keeps_refs_def)
  note k2 = keeps_refs_trans [OF k1 register_stored_refs [OF reg assms(2) sid1 this]]
  note d = keeps_refs_trans [OF _ shrinks_keeps [OF shrinks_phys(1)]]
  have "w' \<in> {w1, snd (phys_delete env p key w1), w2, snd (phys_delete env p key w2)}"
    using assms(1) reg unfolding write_and_register_def put sz_def [symmetric]
    by (auto simp: Let_def sz_def [symmetric] split: option.splits if_splits sum.splits)
  then show ?thesis using k1 k2 d [OF k1] d [OF k2] by auto
qed

lemma store_artifact_refs:
  assumes "store_artifact env ctx w rn path ct co b declared = (res, w')" "tables_ok w" "registry_ok env w"
  shows "keeps_refs env w w'"
proof (cases "repos_get w rn")
  case (Some repo)
  show ?thesis
  proof (cases "repo_online repo \<and> (if declared > 0 then check_quota w repo declared else None) = None")
    case False
    then have "w' = w" using assms(1) Some by (auto simp: store_artifact_def split: if_splits option.splits)
    then show ?thesis by simp
  next
    case pre: True
    obtain r1 w1 where rs: "resolve_blob_store env w repo = (r1, w1)" by (cases "resolve_blob_store env w repo")
    note s = resolve_blob_store_step [OF rs assms(2,3)]
    have k1: "keeps_refs env w w1" using s shrinks_keeps shrinks_registry by blast
    show ?thesis
    proof (cases r1)
      case (Inl e)
      then show ?thesis using assms(1) Some pre rs k1 by (auto simp: store_artifact_def Let_def split: if_splits)
    next
      case (Inr x)
      obtain sid sname p where x: "x = (sid, sname, p)" by (cases x) auto
      have sid: "sid \<noteq> []" "sid \<in> set (map bs_id (sw_stores w1))" using s Inr x keeps_ids [OF k1] by auto
      let ?wr = "write_and_register env ctx repo path ct co b declared (blob_key_of env rn path) sid sname p"
      obtain r2 w2 where e: "enforce_write_policy ctx w1 repo path (blob_key_of env rn path) ?wr = (r2, w2)"
        by (cases "enforce_write_policy ctx w1 repo path (blob_key_of env rn path) ?wr")
      obtain r3 w3 where wr: "?wr w1 = (r3, w3)" by (cases "?wr w1")
      have "repo \<in> set (sw_repos w1)" using Some k1 by (auto simp: keeps_refs_def repos_get_def dest: find_mem split: if_splits)
      note wk = write_and_register_refs [OF wr sid this]
      have "w2 = w1 \<or> w2 = w3"
        using enforce_cases [of ctx w1 repo path "blob_key_of env rn path" ?wr, unfolded e wr] by (auto simp: lock_outcome_def)
      then have k2: "keeps_refs env w w2" using k1 keeps_refs_trans [OF k1 wk] by auto
      have ev: "keeps_refs env w (w2\<lparr> sw_events := e \<rparr>)" for e
        by (rule keeps_refs_trans [OF k2 shrinks_keeps [OF shrinks_fields]]) simp_all
      show ?thesis using assms(1) Some pre rs Inr x e k2 ev by (auto simp: store_artifact_def Let_def split: if_splits sum.splits)
    qed
  qed
qed (use assms(1) in \<open>simp add: store_artifact_def\<close>)

end
