(* ===== verification/Server_Runs.thy ===== *)
theory Server_Runs
  imports Table_Refs
begin

text \<open>
  The components together: a server that takes uploads, downloads, deletions, deletions of manifests, garbage
  collections, cleanup runs and the administration of repositories in any order, while the clock moves and calls
  fail. Its tables stay sound in every state. As long as every operation is harmless (no overwrite was refused, no
  upload met another row under its key, every cleanup run could resolve its stores) what it stores is a map from
  (repository, path) to bytes.
\<close>

section \<open>Operations\<close>

datatype server_op =
  Op_Upload write_ctx string string string coords body int
| Op_Fetch string string
| Op_Delete string string
| Op_Delete_Manifest string string string
| Op_Compact "nat \<Rightarrow> time" duration string gc_options
| Op_Compact_All "nat \<Rightarrow> nat \<Rightarrow> time" duration "(lock_err + string) option" time gc_options
| Op_Cleanup bool "nat \<Rightarrow> time" time cleanup_policy
| Op_Create_Repo cleanup_db repository
| Op_Update_Repo cleanup_db string repo_update
| Op_Delete_Repo string
| Op_Environment time "store_call \<Rightarrow> bool"

fun perform :: "local_store store_env \<Rightarrow> (bytes \<Rightarrow> manifest_doc option) \<Rightarrow> server_op \<Rightarrow> local_store store_world \<Rightarrow> local_store store_world" where
  "perform env dec (Op_Upload ctx rn path ct co b n) w = snd (store_artifact env ctx w rn path ct co b n)"
| "perform env dec (Op_Fetch rn path) w = snd (fetch_artifact env w rn path)"
| "perform env dec (Op_Delete rn path) w = snd (delete_artifact env w rn path)"
| "perform env dec (Op_Delete_Manifest rn img reference) w = snd (delete_manifest env dec rn img reference w)"
| "perform env dec (Op_Compact clk dma name opts) w = snd (compact_store env clk dma name opts w)"
| "perform env dec (Op_Compact_All clks dma lock now0 opts) w = snd (compact_all env clks dma lock now0 opts w)"
| "perform env dec (Op_Cleanup prune clk deadline p) w = snd (run_policy env dec prune clk deadline p w)"
| "perform env dec (Op_Create_Repo db r) w = snd (create_repository db w r)"
| "perform env dec (Op_Update_Repo db name u) w = snd (update_repository db w name u)"
| "perform env dec (Op_Delete_Repo name) w = snd (delete_repository w name)"
| "perform env dec (Op_Environment t f) w = w\<lparr> sw_now := t, sw_fail := f \<rparr>"

text \<open>
  Operations that may harm what others stored are told apart by what happens, so a run may contain any of them. An
  upload is harmless unless another row names the object of its path (a mounted blob), or it is refused where the
  path already has a row: the old bytes are lost then. A cleanup run is harmless if the stores of all rows can be
  resolved (else it deletes from the default store) and stored manifests name digests.
\<close>

fun harmless :: "local_store store_env \<Rightarrow> (bytes \<Rightarrow> manifest_doc option) \<Rightarrow> server_op \<Rightarrow> local_store store_world \<Rightarrow> bool" where
  "harmless env dec (Op_Upload ctx rn path ct co b n) w \<longleftrightarrow>
     valid_key (blob_key_of env rn path) \<and> key_unshared w rn path (blob_key_of env rn path) \<and>
     (row_at w rn path = None \<or> \<not> isl (fst (store_artifact env ctx w rn path ct co b n)))"
| "harmless env dec (Op_Cleanup prune clk deadline p) w \<longleftrightarrow>
     stores_usable env w \<and> digests_named dec env w \<and> (\<forall>rn. hosted_oci w rn \<longrightarrow> CHR 0x00 \<notin> set rn)"
| "harmless env dec op w \<longleftrightarrow> True"

section \<open>The abstract server\<close>

type_synonym artifact_map = "string \<times> string \<Rightarrow> bytes option"

definition contents :: "local_store store_env \<Rightarrow> local_store store_world \<Rightarrow> artifact_map" where
  "contents env w = (\<lambda>(rn, path). content local_obj env w rn path)"

text \<open>The paths a deletion of a manifest may take: manifests and blobs of the image.\<close>

definition image_paths :: "string \<Rightarrow> string \<Rightarrow> (string \<times> string) set" where
  "image_paths rn img = {(rn, path) |path. \<exists>x. path = manifest_path img x \<or> path = blob_path img x}"

text \<open>What an operation may do to the map: a failed one may do nothing.\<close>

fun map_step :: "server_op \<Rightarrow> artifact_map \<Rightarrow> artifact_map \<Rightarrow> bool" where
  "map_step (Op_Upload ctx rn path ct co b n) m m' \<longleftrightarrow> m' = m \<or> m' = m((rn, path) \<mapsto> bd_bytes b)"
| "map_step (Op_Delete rn path) m m' \<longleftrightarrow> m' = m \<or> m' = m((rn, path) := None)"
| "map_step (Op_Delete_Manifest rn img reference) m m' \<longleftrightarrow> (\<exists>gone \<subseteq> image_paths rn img. m' = m |` (- gone))"
| "map_step (Op_Cleanup prune clk deadline p) m m' \<longleftrightarrow> (if cp_dry_run p then m' = m else m' \<subseteq>\<^sub>m m)"
| "map_step (Op_Delete_Repo name) m m' \<longleftrightarrow> m' = m \<or> m' = m |` {(rn, path). rn \<noteq> name}"
| "map_step op m m' \<longleftrightarrow> m' = m"

inductive map_run :: "server_op list \<Rightarrow> artifact_map \<Rightarrow> bool" where
  none: "map_run [] Map.empty"
| next_op: "map_run ops m \<Longrightarrow> map_step op m m' \<Longrightarrow> map_run (ops @ [op]) m'"

section \<open>Runs of the server\<close>

text \<open>
  A new server: empty tables but for the stores, which have ids, names and known namespaces. Stores of different
  identity are different directories, as the model of the disks takes them to be.
\<close>

definition new_server :: "local_store store_env \<Rightarrow> local_store store_world \<Rightarrow> bool" where
  "new_server env w \<longleftrightarrow>
     sw_repos w = [] \<and> sw_comps w = [] \<and> sw_assets w = [] \<and> rg_instances (sw_registry w) = Map.empty \<and>
     distinct (map bs_id (sw_stores w)) \<and> [] \<notin> set (map bs_id (sw_stores w)) \<and> distinct (map bs_name (sw_stores w)) \<and>
     stores_known env w \<and> dirs_apart env w \<and> (\<forall>p. local_good (sw_phys w p))"

text \<open>A run: the operations so far, whether all of them were harmless, and the state they lead to.\<close>

inductive server_run ::
  "local_store store_env \<Rightarrow> (bytes \<Rightarrow> manifest_doc option) \<Rightarrow> server_op list \<Rightarrow> bool \<Rightarrow> local_store store_world \<Rightarrow> bool"
  for env dec where
  start: "new_server env w \<Longrightarrow> server_run env dec [] True w"
| serve: "server_run env dec ops calm w \<Longrightarrow>
    server_run env dec (ops @ [op]) (calm \<and> harmless env dec op w) (perform env dec op w)"

inductive_cases server_run_startE: "server_run env dec [] calm w"

section \<open>Steps that only lose paths\<close>

definition drops :: "local_store store_env \<Rightarrow> (string \<times> string) set \<Rightarrow> local_store store_world \<Rightarrow> local_store store_world \<Rightarrow> bool" where
  "drops env gone w w' \<longleftrightarrow>
     tables_ok w' \<and> registry_ok env w' \<and> intact local_obj valid_key local_good env w' \<and>
     (\<forall>p. contents env w' p = contents env w p \<or> p \<in> gone \<and> contents env w' p = None)"

lemma dropsD:
  assumes "drops env gone w w'"
  shows "tables_ok w'" "registry_ok env w'" "intact local_obj valid_key local_good env w'"
    "contents env w' p = contents env w p \<or> p \<in> gone \<and> contents env w' p = None"
  using assms unfolding drops_def by blast+

lemma dropsI:
  assumes "tables_ok w'" "registry_ok env w'" "intact local_obj valid_key local_good env w'"
    "\<And>rn path. content local_obj env w' rn path = content local_obj env w rn path \<or> (rn, path) \<in> gone \<and> content local_obj env w' rn path = None"
  shows "drops env gone w w'"
  using assms by (simp add: drops_def contents_def)

lemma drops_trans: "drops env gone w w1 \<Longrightarrow> drops env gone w1 w2 \<Longrightarrow> drops env gone w w2"
  unfolding drops_def by metis

lemma drops_mono: "drops env gone w w' \<Longrightarrow> gone \<subseteq> gone' \<Longrightarrow> drops env gone' w w'"
  unfolding drops_def by blast

lemma drops_refl: "tables_ok w \<Longrightarrow> registry_ok env w \<Longrightarrow> intact local_obj valid_key local_good env w \<Longrightarrow> drops env gone w w"
  by (simp add: drops_def)

lemma drops_registry:
  assumes "registry_step env w w'" "tables_ok w" "registry_ok env w" "intact local_obj valid_key local_good env w"
  shows "drops env gone w w'"
  using registry_step_fields(12) [OF assms(1)] registry_step_views [OF assms(1)] registry_step_ok [OF assms(1,3)] assms(2,4)
  by (simp add: drops_def contents_def)

lemma drops_restrict:
  assumes "drops env gone w w'"
  shows "\<exists>g \<subseteq> gone. contents env w' = contents env w |` (- g)"
proof (intro exI conjI)
  show "{p \<in> gone. contents env w' p = None} \<subseteq> gone" by blast
  show "contents env w' = contents env w |` (- {p \<in> gone. contents env w' p = None})"
  proof
    fix p show "contents env w' p = (contents env w |` (- {p \<in> gone. contents env w' p = None})) p"
      using dropsD(4) [OF assms, of p] by (cases "p \<in> gone \<and> contents env w' p = None") (simp_all add: restrict_map_def)
  qed
qed

lemma drops_one:
  assumes "drops env {p} w w'"
  shows "contents env w' = contents env w \<or> contents env w' = (contents env w)(p := None)"
proof -
  obtain g where "g \<subseteq> {p}" "contents env w' = contents env w |` (- g)" using drops_restrict [OF assms] by blast
  then show ?thesis by (cases "g = {}") (auto simp: restrict_map_def fun_eq_iff subset_singleton_iff)
qed

lemma drops_same: "drops env {} w w' \<Longrightarrow> contents env w' = contents env w"
  using drops_restrict [of env "{}" w w'] by (auto simp: restrict_map_def)

lemma drops_le: "drops env gone w w' \<Longrightarrow> contents env w' \<subseteq>\<^sub>m contents env w"
  unfolding map_le_def using dropsD(4) [of env gone w w'] by (metis domIff)

lemma delete_artifact_drops:
  assumes "delete_artifact env w rn path = (r, w')" "se_ops env = local_ops" "tables_ok w" "registry_ok env w"
    "intact local_obj valid_key local_good env w"
  shows "drops env {(rn, path)} w w'"
proof -
  note v = local_blobs.delete_view [OF assms(1,2,5,3,4)]
  have o: "content local_obj env w' rn path = content local_obj env w rn path \<or> content local_obj env w' rn path = None"
    using v by (auto simp: content_def split: sum.splits)
  show ?thesis
  proof (rule dropsI)
    fix rn' path'
    show "content local_obj env w' rn' path' = content local_obj env w rn' path' \<or> (rn', path') \<in> {(rn, path)} \<and> content local_obj env w' rn' path' = None"
      using v o by (cases "(rn', path') = (rn, path)") auto
  qed (use v in simp_all)
qed

lemma delete_paths_drops:
  assumes "delete_paths env rn paths w = (ok, w')" "se_ops env = local_ops" "tables_ok w" "registry_ok env w"
    "intact local_obj valid_key local_good env w"
  shows "drops env ({rn} \<times> set paths) w w'"
  using assms(1,3-5)
proof (induction paths arbitrary: w)
  case (Cons path rest)
  obtain r w1 where d: "delete_artifact env w rn path = (r, w1)" by (cases "delete_artifact env w rn path")
  have d1: "drops env ({rn} \<times> set (path # rest)) w w1"
    by (rule drops_mono [OF delete_artifact_drops [OF d assms(2) Cons.prems(2-4)]]) simp
  show ?case
  proof (cases r)
    case (Inl e)
    then show ?thesis using Cons.prems(1) d d1 by simp
  next
    case (Inr u)
    then have "delete_paths env rn rest w1 = (ok, w')" using Cons.prems(1) d by simp
    from Cons.IH [OF this dropsD(1-3) [OF d1]] have "drops env ({rn} \<times> set (path # rest)) w1 w'" by (rule drops_mono) auto
    then show ?thesis by (rule drops_trans [OF d1])
  qed
qed (simp add: drops_refl)

lemma delete_targets_drops:
  assumes "delete_targets env rn paths ms w = (r, w')" "se_ops env = local_ops" "tables_ok w" "registry_ok env w"
    "intact local_obj valid_key local_good env w"
  shows "drops env ({rn} \<times> set paths) w w'"
proof -
  note v = local_blobs.delete_targets_view [OF assms(1,2,5,3,4)]
  show ?thesis
  proof (rule dropsI)
    fix rn' path
    show "content local_obj env w' rn' path = content local_obj env w rn' path \<or>
        (rn', path) \<in> {rn} \<times> set paths \<and> content local_obj env w' rn' path = None"
    proof (cases "(rn', path) \<in> {rn} \<times> set paths")
      case True
      then have "rn' = rn" by simp
      then show ?thesis using v [THEN conjunct2, THEN conjunct2, THEN conjunct2, THEN conjunct2, THEN conjunct2, THEN conjunct1, THEN spec, of path] True by auto
    next
      case False
      then show ?thesis using v by blast
    qed
  qed (use v in simp_all)
qed

lemma planned_paths:
  assumes "plan_image_release (read_asset env) dec rn img ms w = (Some paths, w')" "se_ops env = local_ops" "tables_ok w" "registry_ok env w"
    "intact local_obj valid_key local_good env w"
  shows "{rn} \<times> set paths \<subseteq> image_paths rn img"
proof -
  obtain es q where q: "q = drop_unneeded (start_plan dec img es ms)" "distinct (map (\<lambda>e. asset_path (re_asset e)) es)"
    and ps: "set paths = set (plan_paths q) \<union> {blob_path img b |b. b \<in> set (unused_blobs q) \<and> row_at w rn (blob_path img b) \<noteq> None \<and> \<not> sw_fail w (S_Asset_By_Path 9)}"
    by (rule handler_reader.planned_entries [OF assms(1,2,5,3,4) TrueI]) (rule that; assumption)
  have "\<exists>x. path = manifest_path img x \<or> path = blob_path img x" if p: "path \<in> set paths" for path
  proof (cases "path \<in> set (plan_paths q)")
    case True
    then obtain j where "j \<in> set (rp_removed q)" "path = asset_path (re_asset (es ! j))" using release_plan_removed(4) [OF q] by auto
    then show ?thesis using release_plan_removed(3) [OF q] by fastforce
  next
    case False
    then show ?thesis using p unfolding ps by blast
  qed
  then show ?thesis by (auto simp: image_paths_def)
qed

lemma delete_manifest_drops:
  assumes "se_ops env = local_ops" "tables_ok w" "registry_ok env w" "intact local_obj valid_key local_good env w"
  shows "drops env (image_paths rn img) w (snd (delete_manifest env dec rn img ref w))"
proof (cases "CHR '':'' \<in> set ref")
  case False
  obtain r w1 where d: "delete_artifact env w rn (manifest_path img ref) = (r, w1)" by (metis surj_pair)
  have "drops env (image_paths rn img) w w1"
    by (rule drops_mono [OF delete_artifact_drops [OF d assms]]) (auto simp: image_paths_def)
  then show ?thesis using False d by (auto simp: delete_manifest_def Let_def split: sum.split)
next
  case True
  show ?thesis
  proof (cases "tags_resolving_to w rn img (trim_prefix ref ''sha256:'')")
    case None
    then show ?thesis using True drops_refl [OF assms(2-4)] by (simp add: delete_manifest_def Let_def)
  next
    case (Some tags)
    have tp: "{rn} \<times> set (tags @ [manifest_path img ref]) \<subseteq> image_paths rn img"
      using tags_resolving_paths(2) [OF Some assms(2)] by (auto simp: image_paths_def)
    obtain r w1 where t: "delete_targets env rn (tags @ [manifest_path img ref]) [] w = (r, w1)" by (metis surj_pair)
    have d1: "drops env (image_paths rn img) w w1" by (rule drops_mono [OF delete_targets_drops [OF t assms] tp])
    note i1 = dropsD(1-3) [OF d1]
    have d2: "drops env (image_paths rn img) w w2" "drops env (image_paths rn img) w2 w3"
      if pl: "plan_image_release (read_asset env) dec rn img ms w1 = (ps, w2)" and dp: "ps = Some paths" "delete_paths env rn paths w2 = (ok, w3)"
      for ms ps w2 paths ok w3
    proof -
      have "registry_step env w1 w2" by (rule handler_reader.plan_release_reads [OF pl assms(1) i1(3,1,2) TrueI])
      note r = drops_registry [OF this i1]
      show "drops env (image_paths rn img) w w2" by (rule drops_trans [OF d1 r])
      show "drops env (image_paths rn img) w2 w3"
        by (rule drops_mono [OF delete_paths_drops [OF dp(2) assms(1) dropsD(1-3) [OF r]] planned_paths [OF pl [unfolded dp(1)] assms(1) i1]])
    qed
    have d2': "drops env (image_paths rn img) w w2" if pl: "plan_image_release (read_asset env) dec rn img ms w1 = (ps, w2)" for ms ps w2
      by (rule drops_trans [OF d1 drops_registry [OF handler_reader.plan_release_reads [OF pl assms(1) i1(3,1,2) TrueI] i1]])
    have o: "drops env gone v (delete_orphans u rn)" if "drops env gone v u" for gone v u
      using that by (simp add: drops_def contents_def delete_orphans_views)
    show ?thesis
      using True Some t d1 d2' drops_trans [OF d2] o [OF drops_trans [OF d2]]
      by (auto simp: delete_manifest_def Let_def split: option.split prod.split bool.split)
  qed
qed

section \<open>What every operation keeps\<close>

text \<open>The state of a server between two operations.\<close>

definition tabled :: "local_store store_env \<Rightarrow> local_store store_world \<Rightarrow> bool" where
  "tabled env w \<longleftrightarrow> tables_ok w \<and> registry_ok env w \<and> refs_ok w \<and> stores_known env w \<and> administered w"

definition sound :: "local_store store_env \<Rightarrow> local_store store_world \<Rightarrow> bool" where
  "sound env w \<longleftrightarrow> tabled env w \<and> intact local_obj valid_key local_good env w"

lemma tabledD:
  assumes "tabled env w"
  shows "tables_ok w" "registry_ok env w" "refs_ok w" "stores_known env w" "administered w" "rows_placed env w" "comps_aligned w"
  using assms refs_placed [of w env] refs_aligned [of w] by (simp_all add: tabled_def)

lemma soundD:
  assumes "sound env w"
  shows "tables_ok w" "registry_ok env w" "intact local_obj valid_key local_good env w" "refs_ok w" "stores_known env w" "administered w"
    "rows_placed env w" "comps_aligned w" "tabled env w"
  using assms tabledD [of env w] by (simp_all add: sound_def)

lemma new_server_sound:
  assumes "new_server env w"
  shows "sound env w" "contents env w = Map.empty"
proof -
  have n: "sw_repos w = []" "sw_comps w = []" "sw_assets w = []" "rg_instances (sw_registry w) = Map.empty"
    using assms by (simp_all add: new_server_def)
  have r: "row_at w rn path = None" for rn path by (simp add: row_at_def n)
  show "contents env w = Map.empty" by (auto simp: contents_def content_def r)
  have "tables_ok w" "registry_ok env w" "intact local_obj valid_key local_good env w"
    using assms by (simp_all add: tables_ok_def registry_ok_def intact_def n r new_server_def)
  moreover have "refs_ok w" by (simp add: refs_ok_def asset_refs_def comp_refs_def n)
  ultimately show "sound env w"
    using assms administered.start [OF n(1)] by (simp add: sound_def tabled_def new_server_def)
qed

text \<open>Operations that keep the references and leave the repositories alone.\<close>

lemma tabled_keeps:
  assumes "tabled env w" "keeps_refs env w w'"
  shows "tabled env w'"
proof -
  have "administered w'" using administered.other [OF tabledD(5) [OF assms(1)], of w'] assms(2) by (simp add: keeps_refs_def)
  then show ?thesis
    using assms keeps_known [OF assms(2)] by (simp add: tabled_def keeps_refs_def)
qed

lemma sound_keeps: "sound env w \<Longrightarrow> keeps_refs env w w' \<Longrightarrow> intact local_obj valid_key local_good env w' \<Longrightarrow> sound env w'"
  using tabled_keeps by (auto simp: sound_def)

lemma sound_drops: "sound env w \<Longrightarrow> shrinks env w w' \<Longrightarrow> drops env gone w w' \<Longrightarrow> sound env w'"
  using sound_keeps shrinks_keeps dropsD(3) by blast

lemma upload_step:
  assumes "sound env w" "se_ops env = local_ops" "harmless env dec (Op_Upload ctx rn path ct co b n) w"
  defines "w' \<equiv> snd (store_artifact env ctx w rn path ct co b n)"
  shows "sound env w' \<and> (contents env w' = contents env w \<or> contents env w' = (contents env w)((rn, path) \<mapsto> bd_bytes b))"
proof -
  obtain res where r: "store_artifact env ctx w rn path ct co b n = (res, w')"
    by (cases "store_artifact env ctx w rn path ct co b n") (simp add: w'_def)
  have adm: "valid_key (blob_key_of env rn path)" "key_unshared w rn path (blob_key_of env rn path)" "row_at w rn path = None \<or> \<not> isl res"
    using assms(3) r by simp_all
  note s = soundD [OF assms(1)]
  note v = local_blobs.upload_view [OF r assms(2) s(3) adm(1) s(1,2) adm(2)]
  note k = store_artifact_refs [OF r s(1,2)]
  have others: "p \<noteq> (rn, path) \<Longrightarrow> contents env w' p = contents env w p" for p
    using v by (cases p) (simp add: contents_def)
  have own: "intact local_obj valid_key local_good env w' \<and>
      (contents env w' (rn, path) = contents env w (rn, path) \<or> contents env w' (rn, path) = Some (bd_bytes b))"
  proof (cases res)
    case (Inl e)
    then have n: "row_at w rn path = None" using adm(3) by simp
    have "row_at w' rn path = None \<and> intact local_obj valid_key local_good env w' \<or>
        content local_obj env w' rn path = Some (bd_bytes b) \<and> intact local_obj valid_key local_good env w'"
      using v n Inl by auto
    then show ?thesis using n by (auto simp: contents_def content_def)
  next
    case (Inr x)
    then show ?thesis using v by (cases x) (simp add: contents_def)
  qed
  have "contents env w' = contents env w \<or> contents env w' = (contents env w)((rn, path) \<mapsto> bd_bytes b)"
  proof (cases "contents env w' (rn, path) = contents env w (rn, path)")
    case True
    have "contents env w' = contents env w" by (rule ext) (metis others True)
    then show ?thesis by blast
  next
    case False
    then have "contents env w' (rn, path) = Some (bd_bytes b)" using own by simp
    then have "contents env w' = (contents env w)((rn, path) \<mapsto> bd_bytes b)" by (intro ext) (metis others fun_upd_apply)
    then show ?thesis by blast
  qed
  then show ?thesis using own sound_keeps [OF assms(1) k] v by simp
qed

lemma fetch_step:
  fixes rn path :: string
  assumes "sound env w" "se_ops env = local_ops"
  defines "w' \<equiv> snd (fetch_artifact env w rn path)"
  shows "sound env w' \<and> contents env w' = contents env w"
proof -
  note s = soundD [OF assms(1)]
  have good: "\<And>q. local_good (sw_phys w q)" and vk: "\<And>a. row_at w rn path = Some a \<Longrightarrow> valid_key (asset_blob_key a)"
    using s(3) by (auto simp: intact_def)
  obtain res where r: "fetch_artifact env w rn path = (res, w')" by (cases "fetch_artifact env w rn path") (simp add: w'_def)
  have step: "w' = w \<or> (\<exists>v. registry_step env w v \<and> (w' = v \<or> (\<exists>d. w' = v\<lparr> sw_downloads := d \<rparr>)))"
  proof (cases "\<exists>a. assets_by_path w 4 rn path = Inr (Some a)")
    case True
    then obtain a where a: "assets_by_path w 4 rn path = Inr (Some a)" by blast
    obtain p v where p: "asset_physical_store env w a = (p, v)" by (cases "asset_physical_store env w a")
    have "w' = v \<or> (\<exists>d. w' = v\<lparr> sw_downloads := d \<rparr>)"
      using r by (auto simp: fetch_artifact_def a p split: sum.splits)
    then show ?thesis using asset_physical_store_step [OF p s(1,2)] by blast
  next
    case False
    then show ?thesis using r by (auto simp: fetch_artifact_def split: sum.splits option.splits)
  qed
  have d: "drops env {} v (v\<lparr> sw_downloads := x \<rparr>)" if "tables_ok v" "registry_ok env v" "intact local_obj valid_key local_good env v" for v x
  proof -
    have eqs: "row_at (v\<lparr> sw_downloads := x \<rparr>) = row_at v" "store_space env (v\<lparr> sw_downloads := x \<rparr>) = store_space env v"
      by (simp_all add: row_at_def store_space_def fun_eq_iff cong: if_cong option.case_cong)
    have ro: "row_obj local_obj env (v\<lparr> sw_downloads := x \<rparr>) = row_obj local_obj env v" by (intro ext) (simp add: row_obj_def eqs)
    show ?thesis
    proof (rule dropsI)
      show "tables_ok (v\<lparr> sw_downloads := x \<rparr>)" "registry_ok env (v\<lparr> sw_downloads := x \<rparr>)" using that by (simp_all add: tables_ok_def registry_ok_def)
      show "intact local_obj valid_key local_good env (v\<lparr> sw_downloads := x \<rparr>)" using that(3) unfolding intact_def ro eqs by simp
    qed (simp add: content_def ro eqs cong: option.case_cong)
  qed
  have "drops env {} w w'"
    using step
  proof (elim disjE exE conjE)
    show "w' = w \<Longrightarrow> ?thesis" using drops_refl [OF s(1-3)] by simp
    fix v assume v: "registry_step env w v"
    note d1 = drops_registry [OF v s(1-3), of "{}"]
    show "w' = v \<Longrightarrow> ?thesis" using d1 by simp
    show "w' = v\<lparr> sw_downloads := x \<rparr> \<Longrightarrow> ?thesis" for x using drops_trans [OF d1 d [OF dropsD(1-3) [OF d1]]] by simp
  qed
  then show ?thesis using sound_drops [OF assms(1) fetch_artifact_shrinks] drops_same w'_def by metis
qed

lemma compact_step:
  assumes "sound env w" "se_ops env = local_ops" "shrinks env w w'"
    "w' = snd (compact_store env clk dma name opts w) \<or> w' = snd (compact_all env clks dma lock now0 opts w)"
  shows "sound env w' \<and> contents env w' = contents env w"
proof -
  note s = soundD [OF assms(1)]
  note keys = intact_keys [OF s(3,1)]
  have u: "unharmed local_obj entry_key local_good env w w'"
    using assms(4) local_blobs.compact_store_unharmed [OF assms(2) s(1,2,7,3) keys] local_blobs.compact_all_unharmed [OF assms(2) s(1,2,7,3) keys] by blast
  note v = local_blobs.gc_view [OF u s(3)]
  then show ?thesis using sound_keeps [OF assms(1) shrinks_keeps [OF assms(3)]] v by (simp add: contents_def)
qed

lemma cleanup_step:
  assumes "sound env w" "se_ops env = local_ops" "harmless env dec (Op_Cleanup prune clk deadline p) w"
  defines "w' \<equiv> snd (run_policy env dec prune clk deadline p w)"
  shows "sound env w' \<and> (if cp_dry_run p then contents env w' = contents env w else contents env w' \<subseteq>\<^sub>m contents env w)"
proof -
  note s = soundD [OF assms(1)]
  obtain res where r: "run_policy env dec prune clk deadline p w = (res, w')"
    by (cases "run_policy env dec prune clk deadline p w") (simp add: w'_def)
  have adm: "stores_usable env w" "digests_named dec env w" "\<And>rn. hosted_oci w rn \<Longrightarrow> CHR 0x00 \<notin> set rn" using assms(3) by simp_all
  have st: "local_steady env w" using s(1-3) assms(2) adm(1) by (simp add: steady_def)
  have v: "w' = w \<or> (\<exists>names. repos_of_policy w p = Some names \<and> names \<noteq> [] \<and> \<not> cp_dry_run p \<and>
      (tables_ok w' \<and> registry_ok env w' \<and> intact local_obj valid_key local_good env w' \<and>
       (\<forall>rn path. content local_obj env w' rn path = content local_obj env w rn path \<or>
          content local_obj env w' rn path = None \<and> (rn, path) \<in> selected w (query_of_policy p names) \<union> image_parts w)))"
    by (rule run_policy_view [OF r st adm(2), THEN conjunct1]) (rule adm(3))
  show ?thesis
    using v
  proof (elim disjE exE conjE)
    assume "w' = w"
    then show ?thesis using assms(1) by simp
  next
    fix names
    assume live: "\<not> cp_dry_run p" and ok: "tables_ok w'" "registry_ok env w'" "intact local_obj valid_key local_good env w'"
      and c: "\<forall>rn path. content local_obj env w' rn path = content local_obj env w rn path \<or>
          content local_obj env w' rn path = None \<and> (rn, path) \<in> selected w (query_of_policy p names) \<union> image_parts w"
    have "drops env UNIV w w'" by (rule dropsI [OF ok]) (use c in blast)
    then show ?thesis
      using live sound_drops [OF assms(1) run_policy_shrinks [OF r]] drops_le by simp
  qed
qed

text \<open>The administration of repositories.\<close>

lemma same_rows_contents:
  assumes "sw_assets w' = sw_assets w" "sw_stores w' = sw_stores w" "sw_registry w' = sw_registry w" "sw_phys w' = sw_phys w"
  shows "contents env w' = contents env w" "intact local_obj valid_key local_good env w' = intact local_obj valid_key local_good env w"
    "registry_ok env w' = registry_ok env w"
proof -
  have e: "row_at w' = row_at w" "store_space env w' = store_space env w"
    by (simp_all add: row_at_def store_space_def fun_eq_iff assms cong: if_cong option.case_cong)
  have ro: "row_obj local_obj env w' = row_obj local_obj env w" by (intro ext) (simp add: row_obj_def e assms)
  show "contents env w' = contents env w" by (simp add: contents_def content_def e ro cong: option.case_cong)
  show "intact local_obj valid_key local_good env w' = intact local_obj valid_key local_good env w" by (simp add: intact_def e ro assms)
  show "registry_ok env w' = registry_ok env w" by (simp add: registry_ok_def assms)
qed

lemma create_repo_step:
  fixes db r
  assumes "tabled env w"
  defines "w' \<equiv> snd (create_repository db w r)"
  shows "tabled env w' \<and> contents env w' = contents env w \<and> (intact local_obj valid_key local_good env w \<longrightarrow> intact local_obj valid_key local_good env w')"
proof -
  note s = tabledD [OF assms(1)]
  obtain res where c: "create_repository db w r = (res, w')" by (cases "create_repository db w r") (simp add: w'_def)
  show ?thesis
  proof (cases res)
    case (Inl e)
    then show ?thesis using create_repository_error c assms(1) by blast
  next
    case (Inr q)
    note f = create_repository_facts [OF c [unfolded Inr]]
    have eqs: "sw_assets w' = sw_assets w" "sw_stores w' = sw_stores w" "sw_registry w' = sw_registry w" "sw_phys w' = sw_phys w"
      "sw_comps w' = sw_comps w" "sw_next w' = Suc (sw_next w)" "sw_repos w' = sw_repos w @ [q]"
      by (simp_all add: f(1))
    note v = same_rows_contents [OF eqs(1-4), of env]
    have own: "asset_repository_id a \<in> repo_id ` set (sw_repos w)" "asset_repository a \<in> repo_name ` set (sw_repos w)" if "a \<in> set (sw_assets w)" for a
    proof -
      show i: "asset_repository_id a \<in> repo_id ` set (sw_repos w)" using refs_okD(6) [OF s(3) asset_refsI [OF that]] by simp
      then obtain x where x: "x \<in> set (sw_repos w)" "repo_id x = asset_repository_id a" by auto
      with x have "repo_name x = asset_repository a" using s(1) that by (simp add: tables_ok_def)
      then show "asset_repository a \<in> repo_name ` set (sw_repos w)" using x(1) by (metis image_eqI)
    qed
    have new: "repo_id q \<notin> repo_id ` set (sw_repos w)" "repo_name q \<notin> repo_name ` set (sw_repos w)"
      using refs_okD(7) [OF s(3), of "sw_next w"] f(3,4) by simp_all
    have "tables_ok w'"
    proof -
      have "repo_id q = asset_repository_id a \<longleftrightarrow> repo_name q = asset_repository a" if "a \<in> set (sw_assets w)" for a
        using own [OF that] new by metis
      moreover have "repo_id q \<noteq> repo_id x \<and> repo_name q \<noteq> repo_name x" if "x \<in> set (sw_repos w)" for x using new that by auto
      ultimately show ?thesis using s(1) unfolding tables_ok_def eqs by (auto simp: ball_Un) (metis Suc_leD)+
    qed
    moreover have "refs_ok w'"
    proof -
      have r: "asset_refs w' = asset_refs w" "comp_refs w' = comp_refs w" by (simp_all add: asset_refs_def comp_refs_def eqs)
      have n: "sw_next w' \<le> n \<Longrightarrow> sw_next w \<le> n \<and> ''repo-'' @ itoa (int n) \<noteq> repo_id q" for n
        by (simp add: eqs f(4) itoa_inj)
      show ?thesis
        unfolding refs_ok_def r eqs(2)
      proof (intro conjI allI impI notI)
        fix i r r' s'
        show "(i, r) \<in> comp_refs w \<Longrightarrow> (i, r') \<in> comp_refs w \<Longrightarrow> r = r'" by (rule refs_okD(1) [OF s(3)])
        show "(i, r, s') \<in> asset_refs w \<Longrightarrow> (i, r') \<in> comp_refs w \<Longrightarrow> r = r'" by (rule refs_okD(2) [OF s(3)])
        show "(i, r, s') \<in> asset_refs w \<Longrightarrow> s' = [] \<or> s' \<in> set (map bs_id (sw_stores w))" by (rule refs_okD(3) [OF s(3)])
        show "(i, r, s') \<in> asset_refs w \<Longrightarrow> r \<in> set (map repo_id (sw_repos w'))" using refs_okD(6) [OF s(3)] by (auto simp: eqs)
        fix m assume "sw_next w' \<le> m"
        note k = refs_okD(4,5,7) [OF s(3) n [OF this, THEN conjunct1]] n [OF this, THEN conjunct2]
        show "(''id-'' @ itoa (int m), r) \<in> comp_refs w \<Longrightarrow> False" by (rule notE [OF k(1)])
        show "(''id-'' @ itoa (int m), r, s') \<in> asset_refs w \<Longrightarrow> False" by (rule notE [OF k(2)])
        show "''repo-'' @ itoa (int m) \<in> set (map repo_id (sw_repos w')) \<Longrightarrow> False" using k(3,4) by (simp add: eqs)
      qed
    qed
    moreover have "administered w'" by (rule administered.created [OF s(5) c])
    moreover have "stores_known env w'" using s(4) by (simp add: stores_known_def eqs)
    ultimately show ?thesis using v s(2) by (simp add: tabled_def)
  qed
qed

lemma repos_update_ids:
  assumes "r0 \<in> set (sw_repos w)" "repo_name r = repo_name r0"
  shows "map (\<lambda>x. (repo_id x, repo_name x)) (sw_repos (repos_update w r)) = map (\<lambda>x. (repo_id x, repo_name x)) (sw_repos w)"
    "sw_assets (repos_update w r) = sw_assets w" "sw_stores (repos_update w r) = sw_stores w" "sw_registry (repos_update w r) = sw_registry w"
    "sw_phys (repos_update w r) = sw_phys w" "sw_comps (repos_update w r) = sw_comps w" "sw_next (repos_update w r) = sw_next w"
  by (auto simp: repos_update_def)

lemma update_repo_step:
  fixes db name u
  assumes "tabled env w"
  defines "w' \<equiv> snd (update_repository db w name u)"
  shows "tabled env w' \<and> contents env w' = contents env w \<and> (intact local_obj valid_key local_good env w \<longrightarrow> intact local_obj valid_key local_good env w')"
proof -
  note s = tabledD [OF assms(1)]
  obtain res where c: "update_repository db w name u = (res, w')" by (cases "update_repository db w name u") (simp add: w'_def)
  show ?thesis
  proof (cases res)
    case (Inl e)
    then show ?thesis using update_repository_error c assms(1) by blast
  next
    case (Inr q)
    have "\<forall>r \<in> set (sw_repos w). repo_ok r" using administered_facts [OF s(5)] by blast
    then obtain r0 where r0: "r0 \<in> set (sw_repos w)" "repo_name q = repo_name r0" "w' = repos_update w q"
      using update_repository_facts [OF c [unfolded Inr]] by metis
    note eqs = repos_update_ids [OF r0(1,2), folded r0(3)]
    note v = same_rows_contents [OF eqs(2,3,4,5), of env]
    have ids: "map repo_id (sw_repos w') = map repo_id (sw_repos w)"
      using arg_cong [OF eqs(1), of "map fst"] by (simp add: comp_def)
    have eq: "tables_ok x \<longleftrightarrow>
     distinct (map asset_id (sw_assets x)) \<and> [] \<notin> set (map asset_id (sw_assets x)) \<and>
     (\<forall>n \<ge> sw_next x. ''id-'' @ itoa (int n) \<notin> set (map asset_id (sw_assets x))) \<and>
     distinct (map (\<lambda>a. (asset_repository a, asset_path a)) (sw_assets x)) \<and>
     (\<forall>(i, n) \<in> set (map (\<lambda>r. (repo_id r, repo_name r)) (sw_repos x)). \<forall>a \<in> set (sw_assets x). i = asset_repository_id a \<longleftrightarrow> n = asset_repository a) \<and>
     (\<forall>(i, n) \<in> set (map (\<lambda>r. (repo_id r, repo_name r)) (sw_repos x)). \<forall>(i', n') \<in> set (map (\<lambda>r. (repo_id r, repo_name r)) (sw_repos x)). i = i' \<longleftrightarrow> n = n') \<and>
     distinct (map bs_id (sw_stores x)) \<and> [] \<notin> set (map bs_id (sw_stores x)) \<and> distinct (map bs_name (sw_stores x))" for x :: "local_store store_world"
      by (simp add: tables_ok_def)
    have "tables_ok w'" using s(1) unfolding eq eqs .
    moreover have "refs_ok w'"
    proof -
      have "asset_refs w' = asset_refs w" "comp_refs w' = comp_refs w" by (simp_all add: asset_refs_def comp_refs_def eqs)
      then show ?thesis using s(3) unfolding refs_ok_def ids eqs by simp
    qed
    moreover have "administered w'" by (rule administered.updated [OF s(5) c])
    moreover have "stores_known env w'" using s(4) by (simp add: stores_known_def eqs)
    ultimately show ?thesis using v s(2) by (simp add: tabled_def)
  qed
qed

lemma delete_repo_step:
  fixes name
  assumes "tabled env w"
  defines "w' \<equiv> snd (delete_repository w name)"
  shows "tabled env w' \<and> (contents env w' = contents env w \<or> contents env w' = contents env w |` {(rn, path). rn \<noteq> name}) \<and>
    (intact local_obj valid_key local_good env w \<longrightarrow> intact local_obj valid_key local_good env w')"
proof -
  note s = tabledD [OF assms(1)]
  obtain res where c: "delete_repository w name = (res, w')" by (cases "delete_repository w name") (simp add: w'_def)
  note v = delete_repository_isolated [OF c s(1,2,7), of local_obj valid_key local_good]
  show ?thesis
  proof (cases "w' = w")
    case True
    then show ?thesis using assms(1) by simp
  next
    case False
    then have w': "w' = cascade_delete w name" and nl: "\<not> isl res"
      using c by (auto simp: delete_repository_def split: sum.splits if_splits)
    have sub: "asset_refs w' \<subseteq> asset_refs w" "comp_refs w' \<subseteq> comp_refs w" "sw_next w' = sw_next w" "sw_stores w' = sw_stores w"
      "set (sw_repos w') \<subseteq> set (sw_repos w)"
      by (auto simp: w' cascade_delete_def asset_refs_def comp_refs_def Let_def)
    have kept: "r \<in> set (map repo_id (sw_repos w'))" if m: "(i, r, st) \<in> asset_refs w'" for i r st
    proof -
      let ?gone = "set (map repo_id (filter (\<lambda>r. repo_name r = name) (sw_repos w)))"
      have "r \<notin> ?gone" using m by (auto simp: w' cascade_delete_def asset_refs_def Let_def)
      moreover have "r \<in> set (map repo_id (sw_repos w))" using refs_okD(6) [OF s(3)] sub(1) m by blast
      ultimately show ?thesis by (auto simp: w' cascade_delete_def Let_def)
    qed
    have "refs_ok w'"
      unfolding refs_ok_def sub(3,4)
    proof (intro conjI allI impI notI)
      fix i r r' s'
      show "r = r'" if "(i, r) \<in> comp_refs w'" "(i, r') \<in> comp_refs w'" using refs_okD(1) [OF s(3)] that sub(2) by blast
      show "r = r'" if "(i, r, s') \<in> asset_refs w'" "(i, r') \<in> comp_refs w'" using refs_okD(2) [OF s(3)] that sub(1,2) by blast
      show "s' = [] \<or> s' \<in> set (map bs_id (sw_stores w))" if "(i, r, s') \<in> asset_refs w'" using refs_okD(3) [OF s(3)] that sub(1) by blast
      show "(i, r, s') \<in> asset_refs w' \<Longrightarrow> r \<in> set (map repo_id (sw_repos w'))" by (rule kept)
      fix m assume m: "sw_next w \<le> m"
      show False if "(''id-'' @ itoa (int m), r) \<in> comp_refs w'" using refs_okD(4) [OF s(3) m] that sub(2) by blast
      show False if "(''id-'' @ itoa (int m), r, s') \<in> asset_refs w'" using refs_okD(5) [OF s(3) m] that sub(1) by blast
      show False if "''repo-'' @ itoa (int m) \<in> set (map repo_id (sw_repos w'))" using refs_okD(7) [OF s(3) m] that sub(5) by auto
    qed
    moreover have "administered w'" by (rule administered.deleted [OF s(5) c])
    moreover have "stores_known env w'" using s(4) by (simp add: stores_known_def sub)
    moreover have "contents env w' p = (contents env w |` {(rn, path). rn \<noteq> name}) p" for p
      using v nl by (cases p) (auto simp: contents_def content_def restrict_map_def)
    ultimately show ?thesis using v by (auto simp: tabled_def)
  qed
qed

lemma environment_step:
  fixes w :: "local_store store_world" and t f
  defines "w' \<equiv> w\<lparr> sw_now := t, sw_fail := f \<rparr>"
  shows "keeps_refs env w w' \<and> contents env w' = contents env w \<and>
    (intact local_obj valid_key local_good env w \<longrightarrow> intact local_obj valid_key local_good env w')"
proof -
  have eqs: "sw_assets w' = sw_assets w" "sw_stores w' = sw_stores w" "sw_registry w' = sw_registry w" "sw_phys w' = sw_phys w" by (simp_all add: w'_def)
  have "keeps_refs env w w'" by (rule shrinks_keeps [OF shrinks_fields]) (simp_all add: w'_def)
  then show ?thesis using same_rows_contents [OF eqs, of env] by simp
qed

section \<open>Every run\<close>

text \<open>The tables stay sound whatever the operation does.\<close>

lemma perform_tabled:
  assumes "tabled env w"
  shows "tabled env (perform env dec op w)"
proof (cases op)
  case (Op_Upload ctx rn path ct co b n)
  obtain res w' where r: "store_artifact env ctx w rn path ct co b n = (res, w')" by (cases "store_artifact env ctx w rn path ct co b n")
  then show ?thesis using Op_Upload tabled_keeps [OF assms store_artifact_refs [OF r tabledD(1,2) [OF assms]]] by simp
next
  case (Op_Fetch rn path)
  then show ?thesis using tabled_keeps [OF assms shrinks_keeps [OF fetch_artifact_shrinks]] by simp
next
  case (Op_Delete rn path)
  then show ?thesis using tabled_keeps [OF assms shrinks_keeps [OF delete_artifact_shrinks]] by simp
next
  case (Op_Delete_Manifest rn img ref)
  then show ?thesis using tabled_keeps [OF assms shrinks_keeps [OF delete_manifest_shrinks]] by simp
next
  case (Op_Compact clk dma name opts)
  then show ?thesis using tabled_keeps [OF assms shrinks_keeps [OF compact_store_shrinks]] by simp
next
  case (Op_Compact_All clks dma lock now0 opts)
  then show ?thesis using tabled_keeps [OF assms shrinks_keeps [OF compact_all_shrinks]] by simp
next
  case (Op_Cleanup prune clk deadline p)
  obtain res w' where r: "run_policy env dec prune clk deadline p w = (res, w')" by (cases "run_policy env dec prune clk deadline p w")
  then show ?thesis using Op_Cleanup tabled_keeps [OF assms shrinks_keeps [OF run_policy_shrinks [OF r]]] by simp
next
  case (Op_Create_Repo db r)
  then show ?thesis using create_repo_step [OF assms] by simp
next
  case (Op_Update_Repo db name u)
  then show ?thesis using update_repo_step [OF assms] by simp
next
  case (Op_Delete_Repo name)
  then show ?thesis using delete_repo_step [OF assms] by simp
next
  case (Op_Environment t f)
  then show ?thesis using tabled_keeps [OF assms environment_step [THEN conjunct1]] by simp
qed

text \<open>A harmless operation changes what is stored as its map step says, and keeps every row's object.\<close>

lemma perform_simulates:
  assumes "sound env w" "se_ops env = local_ops" "harmless env dec op w"
  shows "sound env (perform env dec op w) \<and> map_step op (contents env w) (contents env (perform env dec op w))"
proof (cases op)
  case (Op_Upload ctx rn path ct co b n)
  then show ?thesis using upload_step [OF assms(1,2)] assms(3) by simp
next
  case (Op_Fetch rn path)
  then show ?thesis using fetch_step [OF assms(1,2)] by simp
next
  case (Op_Delete rn path)
  obtain r w' where d: "delete_artifact env w rn path = (r, w')" by (cases "delete_artifact env w rn path")
  note dr = delete_artifact_drops [OF d assms(2) soundD(1-3) [OF assms(1)]]
  have "shrinks env w w'" using delete_artifact_shrinks [of env w rn path] d by simp
  then show ?thesis using Op_Delete d sound_drops [OF assms(1) _ dr] drops_one [OF dr] by simp
next
  case (Op_Delete_Manifest rn img ref)
  note dr = delete_manifest_drops [OF assms(2) soundD(1-3) [OF assms(1)]]
  show ?thesis using Op_Delete_Manifest sound_drops [OF assms(1) delete_manifest_shrinks dr] drops_restrict [OF dr] by simp
next
  case (Op_Compact clk dma name opts)
  then show ?thesis using compact_step [OF assms(1,2) compact_store_shrinks disjI1 [OF refl]] by simp
next
  case (Op_Compact_All clks dma lock now0 opts)
  then show ?thesis using compact_step [OF assms(1,2) compact_all_shrinks disjI2 [OF refl]] by simp
next
  case (Op_Cleanup prune clk deadline p)
  then show ?thesis using cleanup_step [OF assms(1,2)] assms(3) by simp
next
  case (Op_Create_Repo db r)
  then show ?thesis using create_repo_step [OF soundD(9) [OF assms(1)]] soundD(3) [OF assms(1)] by (simp add: sound_def)
next
  case (Op_Update_Repo db name u)
  then show ?thesis using update_repo_step [OF soundD(9) [OF assms(1)]] soundD(3) [OF assms(1)] by (simp add: sound_def)
next
  case (Op_Delete_Repo name)
  then show ?thesis using delete_repo_step [OF soundD(9) [OF assms(1)]] soundD(3) [OF assms(1)] by (simp add: sound_def)
next
  case (Op_Environment t f)
  then show ?thesis using environment_step [of env w f t] soundD(3) [OF assms(1)] tabled_keeps [OF soundD(9) [OF assms(1)]] by (simp add: sound_def)
qed

lemma server_run_simulates:
  assumes "server_run env dec ops calm w" "se_ops env = local_ops"
  shows "tabled env w \<and> (calm \<longrightarrow> sound env w \<and> map_run ops (contents env w))"
  using assms(1)
proof (induction rule: server_run.induct)
  case (start w)
  then show ?case using new_server_sound [of env w] map_run.none soundD(9) by metis
next
  case (serve ops calm w op)
  then show ?case using perform_tabled perform_simulates [OF _ assms(2)] map_run.next_op by blast
qed

text \<open>An upload to a repository that was just created, and the deletion of its neighbour.\<close>

definition demo_ops :: "server_op list" where
  "demo_ops =
     [Op_Create_Repo demo_policies (demo_new ''libs'' ''hosted'' []), Op_Create_Repo demo_policies (demo_new ''tmp'' ''hosted'' []),
      Op_Upload demo_ctx ''libs'' ''/a'' ''text'' demo_coords (demo_body ''hello'') 5,
      Op_Environment 10 (\<lambda>_. False), Op_Delete_Repo ''tmp'']"

definition demo_server :: "nat \<Rightarrow> local_store store_world" where
  "demo_server n = foldl (\<lambda>w op. perform demo_env (\<lambda>_. None) op w) ((demo_world ''allow'' None)\<lparr> sw_repos := [] \<rparr>) (take n demo_ops)"

lemma demo_server_new: "new_server demo_env (demo_server 0)"
proof -
  have "trim_space ''s1'' \<noteq> []" "physical_store_identity (\<lambda>_. None) (descriptor_of (demo_store None 0)) \<noteq> []" by code_simp+
  moreover have "dirs_apart demo_env (demo_server 0)" by code_simp
  ultimately show ?thesis
    by (simp add: new_server_def demo_server_def demo_world_def stores_known_def demo_env_def example_store_good demo_store_def descriptor_of_def)
qed

lemma demo_server_steps:
  "i < length demo_ops \<Longrightarrow> demo_server (Suc i) = perform demo_env (\<lambda>_. None) (demo_ops ! i) (demo_server i)"
  by (simp add: demo_server_def take_Suc_conv_app_nth)

lemma demo_server_harmless: "i < length demo_ops \<Longrightarrow> harmless demo_env (\<lambda>_. None) (demo_ops ! i) (demo_server i)"
proof -
  assume "i < length demo_ops"
  then have i: "i \<in> {0, 1, 2, 3, 4}" by (auto simp: demo_ops_def)
  have "row_at (demo_server 2) ''libs'' ''/a'' = None" by code_simp
  moreover have "key_unshared (demo_server 2) ''libs'' ''/a'' (blob_key_of demo_env ''libs'' ''/a'')" by code_simp
  ultimately show ?thesis using i demo_key by (auto simp: demo_ops_def)
qed

lemma demo_server_run: "i \<le> length demo_ops \<Longrightarrow> server_run demo_env (\<lambda>_. None) (take i demo_ops) True (demo_server i)"
proof (induction i)
  case 0
  then show ?case using server_run.start [OF demo_server_new] by simp
next
  case (Suc i)
  then show ?case
    using server_run.serve [of demo_env "\<lambda>_. None" "take i demo_ops" True "demo_server i" "demo_ops ! i"] demo_server_harmless [of i] demo_server_steps [of i]
    by (simp add: take_Suc_conv_app_nth)
qed





end
