(* ===== verification/Spec2Isabelle.thy ===== *)
theory Spec2Isabelle
  imports Severity Rbac Login_Guard Dist_Lock Ring_Buffer Auth_Gate Store_Contract Blob_Gc Migration_Guarantees Cleanup_Safety Cleanup_Schedule Repo_Admin_Contract Oci_Group Server_Runs
begin

text \<open>
  Nexspence is an artifact repository manager in Go (\<^verbatim>\<open>src/\<close>): clients of many package formats upload
  artifacts to hosted repositories, read them through proxies of remote registries and through groups, and
  administrators manage repositories, accounts, rights and storage. This development models the part of the
  program that decides who may do what, where bytes are kept and when they are given up. Definitions are
  executable translations of the Go functions whose names they carry (in snake case); a component is a
  group of definitions in the order of its source file, followed by its invariants and lemmas, with the
  properties at the end of the theory or in a theory of its own.

  \<^bold>\<open>Conventions.\<close> Go structs are records (field prefixes: \<open>repo_\<close>, \<open>asset_\<close>, \<open>comp_\<close>, \<open>bs_\<close>, \<open>usr_\<close>), string
  types with constants are \<open>string\<close> with definitions for the constants, \<open>map[string]any\<close> is \<open>cfg\<close>, an optional map of \<open>any_val\<close>, and
  an error result is \<open>Inl\<close> of an error datatype. Go's \<open>int64\<close> is \<open>int\<close> with the wrap-around
  of \<open>Go_Lib\<close> (\<open>add64\<close>, \<open>sub64\<close>, \<open>mul64\<close>) where the code computes with values from outside. The database, the Redis server, the backends and the
  clock are explicit state; every call to them can fail, and the failing calls are a parameter of the
  state (\<open>sw_fail\<close>, \<open>ud_down\<close>, \<open>mw_fail\<close>, \<open>cd_fail\<close>, the fates of network calls), so that each error
  path is a branch of the model and the properties hold for every choice of failures.

  \<^bold>\<open>Prelude.\<close> \<open>Go_Lib\<close> (strings, 64-bit arithmetic, JSON values), \<open>Go_Path\<close> (\<open>path.Clean\<close>, percent-decoding, \<open>path.Match\<close>) and
  \<open>Domain\<close> (\<^verbatim>\<open>internal/domain\<close>: repositories, stores, components, assets, rules, the docker name grammar).

  \<^bold>\<open>Requests and rights.\<close>
  \<open>Routing\<close>: canonical paths and routing rules (\<^verbatim>\<open>formats/path.go, domain/routing_rule.go, formats/routing.go\<close>), refinement of the cached
  regular expressions to their languages.
  \<open>Rbac\<close>: the selector expressions, privileges and the request check (\<^verbatim>\<open>service/rbac_service.go,
  api/handlers/rbac_middleware.go\<close>, the docker browse filter).
  \<open>Auth_Gate\<close>, \<open>User_Service\<close>, \<open>Auth_Cache\<close>: bearer, Basic and query-token authentication, accounts,
  logins, tokens and the verification cache, over a table of users. \<open>Login_Guard\<close>: throttling
  of password guesses over a shared and a local counter, with the doubling penalty computed at 64 bits.
  \<open>Severity\<close>: scan severities and the gate that refuses a vulnerable image.
  \<open>Redis_Kv\<close>, \<open>Dist_Lock\<close>: the Redis client and the distributed lock as a step relation of several nodes, with mutual
  exclusion over all reachable states; the locale \<open>locker_laws\<close> is what the services use of it.

  \<^bold>\<open>Bytes.\<close>
  \<open>Blob_Store\<close> states the \<open>BlobStore\<close> interface as a record of operations and the locale
  \<open>blob_store_laws\<close>, the laws its clients rely on; \<open>Local_Store\<close> is the
  filesystem backend with its temporary files, partial writes and failing renames, and interprets the locale. \<open>Oci_Session\<close> extends it to appendable backends (\<open>append_laws\<close>), \<open>Oci_Delete\<close> to readers of stored manifests (\<open>manifest_reader\<close>). \<open>Registry\<close>: physical store identities, default and group
  stores. \<open>Write_Policy\<close>, \<open>Store\<close>: the state \<open>store_world\<close> (tables of repositories, stores, components
  and assets, the physical stores, the registry) and the artifact store of \<^verbatim>\<open>formats/base\<close>: upload, fetch, delete,
  write policy, quotas under locks. \<open>Artifact_Map\<close> is its abstract specification, a map from
  (repository, path) to bytes (\<open>content\<close>), with the invariants \<open>tables_ok\<close>, \<open>registry_ok\<close>, \<open>intact\<close>;
  \<open>Store_Contract\<close> has the refinement. \<open>Placement\<close>: rows and the stores they lie on.
  \<open>Blob_Gc\<close>: garbage collection. \<open>Blob_Migration\<close>, \<open>Migration_Contract\<close>, \<open>Migration_Guarantees\<close>: moving the
  blobs of a repository, with interfering writers as a parameter.
  \<open>Oci_Upload\<close>, \<open>Oci_Session\<close>, \<open>Oci_Push\<close>: chunked upload sessions of the OCI protocol on appendable backends.
  \<open>Oci_Release\<close>, \<open>Oci_Release_Plan\<close>, \<open>Oci_Delete\<close>: what a deleted manifest gives up.
  \<open>Sql_Like\<close>, \<open>Cleanup\<close>, \<open>Cleanup_Safety\<close>, \<open>Cleanup_Schedule\<close>: cleanup policies, their query, batches, releases
  and cron entries.

  \<^bold>\<open>Administration.\<close> \<open>Redaction\<close>: the views without secrets and the merges of edits. \<open>Repo_Admin\<close>, \<open>Repo_Admin_Safety\<close>, \<open>Repo_Admin_Contract\<close>:
  creation, update and deletion of repositories; reachability over any sequence of requests. \<open>Ring_Buffer\<close>: the metrics history.

  \<^bold>\<open>Groups and lists.\<close> \<open>Group\<close>: group repositories (\<^verbatim>\<open>formats/group/handler.go, formats/group_merge.go\<close>); the handlers of the members
  are an argument with an abstract state, a format's index merger is a record of functions, and every operation
  answers the members it asked, so that \<open>Group_Safety\<close> can state the order of the questions, that a name claimed by a
  hosted member is not asked upstream, and where writes go. \<open>Oci_Routes\<close>: the dispatch of the OCI registry and its
  agreement with the classifier of the merged documents. \<open>Oci_Lists\<close>: pagination, tag lists and the
  catalog (\<^verbatim>\<open>formats/oci/pagination.go, catalog.go, handler.go\<close>); \<open>Oci_Group\<close>: the merger of the OCI registry
  (\<^verbatim>\<open>formats/oci/groupindex.go\<close>) put under the group, with the tag list of a group as the page of a union.

  \<^bold>\<open>Composition.\<close> \<open>Table_Refs\<close>: the references between the tables, and for every operation that it adds none or adds sound ones.
  \<open>Server_Runs\<close>: the server as a step relation over uploads, downloads, deletions, deletions of manifests, collections,
  cleanup runs, administration and a changing environment, simulated by a map from (repository, path) to bytes over all
  runs from empty tables; the preconditions of the components' own theorems (placed rows, aligned components) are
  invariants there.
  \<^bold>\<open>How the parts meet.\<close> Every service that touches bytes works on the same \<open>store_world\<close>, so that the lemmas compose: each shows what its operation
  does to \<open>content\<close> and that it keeps the invariants, in the same vocabulary. Clients of the storage backends
  are proved inside \<open>blob_store_laws\<close> and instantiated for the filesystem backend by the interpretation
  \<open>local_blobs\<close> and its extensions; the counters of the login guard (\<open>login_store_laws\<close>) and the distributed lock are
  proved against their contracts, which the Redis implementations satisfy.

  \<^bold>\<open>Bounds and fuel.\<close> Loops of the code that are bounded by the code are structural recursions over the bound (8
  percent-decodings of a segment, batches of 500 rows and 3 passes without progress of a cleanup run, 200
  rows of a preview, 360 points of the ring). Recursion on data uses measures with termination proofs. No
  definition uses fuel without a theorem that the fuel is enough (the release plan's fuel is the
  number of manifests). Regular expressions, cryptographic hashes, HMAC and
  bcrypt, JSON decoding of stored manifests, and the clients of directory services are parameters.

  \<^bold>\<open>Not modelled.\<close> The formats' own protocols other than the OCI registry (parsing and signing of package
  indices: they sit on the artifact store and keep no state of their own); HTTP transport, decoding of request bodies
  and the encoding of replies, the routing table and startup; requests to
  upstream registries, scanners, webhooks, replication and migration from Nexus, whose behaviour is that of remote servers;
  backups, which are archives of the tables; the S3 and Azure backends, which are calls of their SDKs (what
  the store needs of them is \<open>blob_store_laws\<close>); logging, metrics and tracing. Texts of error messages are left out, error kinds are not.
\<close>

end
